(* ===== verification/Prelude.thy ===== *)
theory Prelude
  imports Main "HOL-Library.AList" "HOL-Library.Word"
begin

text \<open>
  What every component of the model shares: lookup tables for Go maps, saturating and wrapping
  64-bit arithmetic on durations, decimal rendering, and the named collections that carry the
  component proofs.

  \<^item> A Go map is an association list with distinct keys (\<open>table_ok\<close>). Its list order stands for
    the arbitrary order in which Go ranges over a map: the theorems hold for every list order.
  \<^item> A \<^verbatim>\<open>time.Time\<close> is a number of nanoseconds; the zero time is \<open>0\<close> and stands for
    Go's \<^verbatim>\<open>IsZero\<close>. A \<^verbatim>\<open>time.Duration\<close> is an \<open>int\<close> in the range of a signed
    64-bit word: \<open>dur_secs\<close> wraps as the Go product does, \<open>time_sub\<close> saturates as
    \<^verbatim>\<open>Time.Sub\<close> does.
\<close>

named_theorems table_laws "lookup laws of the tables"
named_theorems frame "what an operation leaves unchanged"
named_theorems inv_rules "operations that keep an invariant"

section \<open>Tables\<close>

type_synonym ('k, 'v) table = "('k \<times> 'v) list"

definition tget :: "('k, 'v) table \<Rightarrow> 'k \<Rightarrow> 'v option" where
  "tget t k = map_of t k"

definition tput :: "'k \<Rightarrow> 'v \<Rightarrow> ('k, 'v) table \<Rightarrow> ('k, 'v) table" where
  "tput k v t = AList.update k v t"

definition tdel :: "'k \<Rightarrow> ('k, 'v) table \<Rightarrow> ('k, 'v) table" where
  "tdel k t = AList.delete k t"

definition table_ok :: "('k, 'v) table \<Rightarrow> bool" where
  "table_ok t \<longleftrightarrow> distinct (map fst t)"

lemma table_ok_filter: "table_ok t \<Longrightarrow> table_ok (filter Q t)"
  by (simp add: table_ok_def distinct_map_filter)

text \<open>The interface a client of a Go map relies on.\<close>

locale keyed_store =
  fixes get :: "'t \<Rightarrow> 'k \<Rightarrow> 'v option"
    and put :: "'k \<Rightarrow> 'v \<Rightarrow> 't \<Rightarrow> 't"
    and del :: "'k \<Rightarrow> 't \<Rightarrow> 't"
    and inv :: "'t \<Rightarrow> bool"
  assumes get_put: "get (put k v t) k' = (if k' = k then Some v else get t k')"
    and get_del: "get (del k t) k' = (if k' = k then None else get t k')"
    and inv_put: "inv t \<Longrightarrow> inv (put k v t)"
    and inv_del: "inv t \<Longrightarrow> inv (del k t)"
begin

lemma get_put_same: "get (put k v t) k = Some v"
  by (simp add: get_put)

lemma get_put_other: "k' \<noteq> k \<Longrightarrow> get (put k v t) k' = get t k'"
  by (simp add: get_put)

lemma get_del_same: "get (del k t) k = None"
  by (simp add: get_del)

lemma put_put: "get (put k v (put k w t)) = get (put k v t)"
  by (rule ext) (simp add: get_put)

lemma put_comm: "k \<noteq> l \<Longrightarrow> get (put k v (put l w t)) = get (put l w (put k v t))"
  by (rule ext) (simp add: get_put)

lemma del_put: "get (del k (put k v t)) = get (del k t)"
  by (rule ext) (simp add: get_put get_del)

end

interpretation tbl: keyed_store tget tput tdel table_ok
proof
  show "tget (tput k v t) k' = (if k' = k then Some v else tget t k')"
    for k :: 'k and v :: 'v and t k'
    by (simp add: tget_def tput_def update_conv)
  show "tget (tdel k t) k' = (if k' = k then None else tget t k')"
    for k :: 'k and t :: "('k, 'v) table" and k'
    by (simp add: tget_def tdel_def delete_conv)
  show "table_ok t \<Longrightarrow> table_ok (tput k v t)" for k :: 'k and v :: 'v and t
    by (simp add: table_ok_def tput_def distinct_update)
  show "table_ok t \<Longrightarrow> table_ok (tdel k t)" for k :: 'k and t :: "('k, 'v) table"
    by (simp add: table_ok_def tdel_def distinct_delete)
qed

declare tbl.get_put [table_laws] tbl.get_del [table_laws]
declare tbl.inv_put [inv_rules] tbl.inv_del [inv_rules]

lemma table_ok_Nil [simp]: "table_ok []"
  by (simp add: table_ok_def)

lemma tget_Nil [simp]: "tget [] k = None"
  by (simp add: tget_def)

lemma tget_in_set: "tget t k = Some v \<Longrightarrow> (k, v) \<in> set t"
  by (simp add: tget_def map_of_SomeD)

lemma in_set_tget: "table_ok t \<Longrightarrow> (k, v) \<in> set t \<Longrightarrow> tget t k = Some v"
  by (simp add: tget_def table_ok_def)

lemma in_set_tget_iff: "table_ok t \<Longrightarrow> (k, v) \<in> set t \<longleftrightarrow> tget t k = Some v"
  by (metis in_set_tget tget_in_set)

lemma tput_fresh: "tget t k = None \<Longrightarrow> tput k v t = t @ [(k, v)]"
  by (induction t) (auto simp: tget_def tput_def split: if_splits)

lemma set_tput_subset: "set (tput k v t) \<subseteq> insert (k, v) (set t)"
  by (induction t) (auto simp: tput_def)

lemma set_tput: "table_ok t \<Longrightarrow> set (tput k v t) = insert (k, v) {p \<in> set t. fst p \<noteq> k}"
  by (induction t) (auto simp: tput_def table_ok_def image_iff split: if_splits)

lemma set_tdel: "set (tdel k t) = {p \<in> set t. fst p \<noteq> k}"
  by (auto simp: tdel_def AList.delete_eq)

lemma keys_tput: "fst ` set (tput k v t) = insert k (fst ` set t)"
  by (induction t) (auto simp: tput_def)

lemma length_tput: "length (tput k v t) = (if tget t k = None then Suc (length t) else length t)"
  by (induction t) (auto simp: tput_def tget_def)

text \<open>Counting the entries that satisfy a predicate (the loops over \<^verbatim>\<open>m.bans\<close>).\<close>

definition tcount :: "('v \<Rightarrow> bool) \<Rightarrow> ('k, 'v) table \<Rightarrow> nat" where
  "tcount P t = length (filter (P \<circ> snd) t)"

lemma tcount_Nil [simp]: "tcount P [] = 0"
  by (simp add: tcount_def)

lemma tcount_Cons [simp]: "tcount P (p # t) = (if P (snd p) then 1 else 0) + tcount P t"
  by (simp add: tcount_def)

lemma tcount_append [simp]: "tcount P (s @ t) = tcount P s + tcount P t"
  by (simp add: tcount_def)

lemma tcount_tput_le: "tcount P (tput k v t) \<le> Suc (tcount P t)"
  by (induction t) (auto simp: tput_def)

lemma tcount_tput_not: "\<not> P v \<Longrightarrow> tcount P (tput k v t) \<le> tcount P t"
  by (induction t) (auto simp: tput_def)

lemma tcount_tput_mono:
  "tget t k = Some w \<Longrightarrow> (P v \<Longrightarrow> P w) \<Longrightarrow> tcount P (tput k v t) \<le> tcount P t"
  by (induction t) (auto simp: tput_def tget_def split: if_splits)

lemma tcount_map_le:
  "(\<And>k v. (k, v) \<in> set t \<Longrightarrow> P (f v) \<Longrightarrow> P v) \<Longrightarrow> tcount P (map (\<lambda>(k, v). (k, f v)) t) \<le> tcount P t"
  by (induction t) fastforce+

text \<open>A walk over a table whose body may change the value in hand and the threaded state.\<close>

fun walk :: "('v \<Rightarrow> 's \<Rightarrow> 'v \<times> 's) \<Rightarrow> ('k, 'v) table \<Rightarrow> 's \<Rightarrow> ('k, 'v) table \<times> 's" where
  "walk f [] s = ([], s)"
| "walk f ((k, v) # t) s = (let (v', s') = f v s; (t', s'') = walk f t s' in ((k, v') # t', s''))"

lemma walk_keys [simp]: "map fst (fst (walk f t s)) = map fst t"
  by (induction t arbitrary: s) (auto simp: case_prod_unfold Let_def)

lemma walk_table_ok [inv_rules]: "table_ok t \<Longrightarrow> table_ok (fst (walk f t s))"
  by (simp add: table_ok_def)

text \<open>What the body keeps of the state and establishes of the value holds after the walk.\<close>

lemma walk_inv:
  assumes "\<And>v s. I s \<Longrightarrow> v \<in> snd ` set t \<Longrightarrow> I (snd (f v s)) \<and> Q v (fst (f v s))"
    and "I s"
  shows "I (snd (walk f t s)) \<and> list_all2 (\<lambda>p q. fst q = fst p \<and> Q (snd p) (snd q)) t (fst (walk f t s))"
  using assms
proof (induction t arbitrary: s)
  case (Cons p t)
  obtain k v where p: "p = (k, v)" by (cases p)
  obtain v' s' where f: "f v s = (v', s')" by (cases "f v s")
  have step: "I s'" "Q v v'" using Cons.prems(1) [of s v] Cons.prems(2) f p by auto
  have "I (snd (walk f t s')) \<and> list_all2 (\<lambda>p q. fst q = fst p \<and> Q (snd p) (snd q)) t (fst (walk f t s'))"
    using Cons.IH [of s'] Cons.prems(1) step(1) by auto
  then show ?case using step p f by (auto split: prod.splits)
qed simp

lemma tcount_list_all2:
  "list_all2 (\<lambda>p q. fst q = fst p \<and> (P (snd q) \<longrightarrow> P (snd p))) t t' \<Longrightarrow> tcount P t' \<le> tcount P t"
  by (induction rule: list_all2_induct) auto

lemma tget_list_all2:
  "list_all2 (\<lambda>p q. fst q = fst p \<and> Q (snd p) (snd q)) t t' \<Longrightarrow>
   (case tget t' k of None \<Rightarrow> tget t k = None | Some w \<Rightarrow> \<exists>v. tget t k = Some v \<and> Q v w)"
  by (induction rule: list_all2_induct) (auto simp: tget_def split: option.splits)

section \<open>Durations and times\<close>

type_synonym nanos = int

definition wrap64 :: "int \<Rightarrow> int" where
  "wrap64 x = (x + 2 ^ 63) mod 2 ^ 64 - 2 ^ 63"

definition int64_max :: int where "int64_max = 2 ^ 63 - 1"
definition int64_min :: int where "int64_min = - (2 ^ 63)"

lemma wrap64_range: "int64_min \<le> wrap64 x \<and> wrap64 x \<le> int64_max"
proof -
  have "0 \<le> (x + 2 ^ 63) mod 2 ^ 64" "(x + 2 ^ 63) mod 2 ^ 64 < (2 ^ 64 :: int)"
    by simp_all
  then show ?thesis unfolding wrap64_def int64_min_def int64_max_def by simp
qed

lemma wrap64_id: "int64_min \<le> x \<Longrightarrow> x \<le> int64_max \<Longrightarrow> wrap64 x = x"
  unfolding wrap64_def int64_min_def int64_max_def by simp

definition second :: int where "second = 1000000000"

text \<open>\<^verbatim>\<open>time.Duration(n) * time.Second\<close>.\<close>

definition dur_secs :: "int \<Rightarrow> int" where
  "dur_secs n = wrap64 (n * second)"

lemma dur_secs_id: "0 \<le> n \<Longrightarrow> n \<le> 9223372036 \<Longrightarrow> dur_secs n = n * 1000000000"
  unfolding dur_secs_def second_def by (rule wrap64_id) (simp_all add: int64_min_def int64_max_def)

text \<open>\<^verbatim>\<open>Time.Sub\<close> saturates at the bounds of a Duration.\<close>

definition time_sub :: "nanos \<Rightarrow> nanos \<Rightarrow> int" where
  "time_sub t u = max int64_min (min int64_max (t - u))"

lemma time_sub_ge_iff: "d \<le> int64_max \<Longrightarrow> int64_min < d \<Longrightarrow> d \<le> time_sub t u \<longleftrightarrow> d \<le> t - u"
  unfolding time_sub_def by (auto simp: int64_min_def int64_max_def)

definition is_zero_time :: "nanos \<Rightarrow> bool" where
  "is_zero_time t \<longleftrightarrow> t = 0"

section \<open>Rendering numbers\<close>

definition digit_char :: "nat \<Rightarrow> char" where
  "digit_char d = (if d < 10 then char_of (48 + d) else char_of (87 + d))"

fun digits_of :: "nat \<Rightarrow> nat \<Rightarrow> string" where
  "digits_of b n = (if b < 2 \<or> n < b then [digit_char n] else digits_of b (n div b) @ [digit_char (n mod b)])"

declare digits_of.simps [simp del]

definition dec :: "nat \<Rightarrow> string" where "dec n = digits_of 10 n"
definition hex :: "nat \<Rightarrow> string" where "hex n = digits_of 16 n"

lemma digits_of_nonempty [simp]: "digits_of b n \<noteq> []"
  by (subst digits_of.simps) simp

fun join :: "string \<Rightarrow> string list \<Rightarrow> string" where
  "join sep [] = []"
| "join sep [x] = x"
| "join sep (x # y # ys) = x @ sep @ join sep (y # ys)"

end
