(* ===== verification/GoFloat.thy ===== *)
theory GoFloat
  imports Complex_Main "HOL-Library.Log_Nat" Prelude
begin

text \<open>
  Go's \<^verbatim>\<open>float64\<close> as IEEE-754 binary64 with round-to-nearest-even: a finite value is a
  rational that \<open>rnd64\<close> leaves unchanged, every operation computes exactly and rounds once. The
  sign of zero is not kept: no operation modelled here can tell the two zeros apart.
\<close>

section \<open>Rounding\<close>

definition rhe :: "rat \<Rightarrow> int" where
  "rhe x = (let f = \<lfloor>x\<rfloor>; d = x - of_int f
            in if d < 1 / 2 then f else if 1 / 2 < d then f + 1
               else if even f then f else f + 1)"

lemma rhe_of_int [simp]: "rhe (of_int n) = n"
  by (simp add: rhe_def)

lemma rhe_lower: "\<lfloor>x\<rfloor> \<le> rhe x" and rhe_upper: "rhe x \<le> \<lfloor>x\<rfloor> + 1"
  by (simp_all add: rhe_def Let_def)

lemma rhe_mono: "x \<le> y \<Longrightarrow> rhe x \<le> rhe y"
proof -
  assume xy: "x \<le> y"
  show ?thesis
  proof (cases "\<lfloor>x\<rfloor> = \<lfloor>y\<rfloor>")
    case True
    with xy show ?thesis by (auto simp: rhe_def Let_def)
  next
    case False
    with xy have "\<lfloor>x\<rfloor> + 1 \<le> \<lfloor>y\<rfloor>" by (smt (verit) floor_mono)
    then show ?thesis using rhe_upper [of x] rhe_lower [of y] by linarith
  qed
qed

text \<open>The binary exponent of a positive rational.\<close>

definition flog2 :: "rat \<Rightarrow> int" where
  "flog2 q = (let (a, b) = quotient_of q; e = bitlen a - bitlen b
              in if 2 powi e \<le> q then e else e - 1)"

lemma powi_le_iff: "(2::rat) powi m \<le> 2 powi n \<longleftrightarrow> m \<le> n"
proof
  assume "(2::rat) powi m \<le> 2 powi n"
  then have "\<not> (2::rat) powi n < 2 powi m" by simp
  then have "\<not> n < m" using power_int_strict_increasing [of n m "2::rat"] by auto
  then show "m \<le> n" by simp
qed (simp add: power_int_increasing)

lemma bitlen_bounds_rat:
  assumes "0 < a"
  shows "2 powi (bitlen a - 1) \<le> (of_int a :: rat)" "(of_int a :: rat) < 2 powi (bitlen a)"
proof -
  have lo: "2 ^ nat (bitlen a - 1) \<le> a" and hi: "a < 2 ^ nat (bitlen a)"
    using assms bitlen_bounds [of a] by simp_all
  have b: "0 < bitlen a"
    using assms bitlen_nonneg [of a] bitlen_eq_zero_iff [of a] by linarith
  have "(2::rat) powi (bitlen a - 1) = of_int (2 ^ nat (bitlen a - 1))"
    using b by (simp add: power_int_def)
  also have "\<dots> \<le> of_int a" using lo by (simp only: of_int_le_iff)
  finally show "2 powi (bitlen a - 1) \<le> (of_int a :: rat)" .
  have "(of_int a :: rat) < of_int (2 ^ nat (bitlen a))" using hi by (simp only: of_int_less_iff)
  also have "\<dots> = 2 powi (bitlen a)" using b by (simp add: power_int_def)
  finally show "(of_int a :: rat) < 2 powi (bitlen a)" .
qed

lemma flog2_bounds:
  assumes "0 < q"
  shows "2 powi (flog2 q) \<le> q \<and> q < 2 powi (flog2 q + 1)"
proof -
  obtain a b where ab: "quotient_of q = (a, b)" by (cases "quotient_of q")
  have b: "0 < b" using quotient_of_denom_pos [OF ab] .
  have q: "q = of_int a / of_int b" using quotient_of_div [OF ab] .
  have a: "0 < a" using assms b q by (simp add: zero_less_divide_iff)
  let ?e = "bitlen a - bitlen b"
  have "q < 2 powi (bitlen a) / 2 powi (bitlen b - 1)"
    unfolding q using bitlen_bounds_rat [OF a] bitlen_bounds_rat [OF b] a b
    by (intro frac_less) auto
  also have "\<dots> = 2 powi (?e + 1)" by (simp add: power_int_diff [symmetric] algebra_simps)
  finally have up: "q < 2 powi (?e + 1)" .
  have "2 powi (?e - 1) = (2::rat) powi (bitlen a - 1) / 2 powi (bitlen b)"
    by (simp add: power_int_diff [symmetric] algebra_simps)
  also have "\<dots> < q"
    unfolding q using bitlen_bounds_rat [OF a] bitlen_bounds_rat [OF b] a b
    by (intro frac_less2) auto
  finally have lo: "2 powi (?e - 1) \<le> q" by simp
  show ?thesis using up lo unfolding flog2_def ab by (auto simp: Let_def not_le)
qed

lemma flog2_mono: "0 < x \<Longrightarrow> x \<le> y \<Longrightarrow> flog2 x \<le> flog2 y"
proof -
  assume x: "0 < x" and xy: "x \<le> y"
  have "2 powi (flog2 x) < (2::rat) powi (flog2 y + 1)"
    using flog2_bounds [OF x] flog2_bounds [of y] x xy by linarith
  then have "\<not> flog2 y + 1 \<le> flog2 x"
    using powi_le_iff [of "flog2 y + 1" "flog2 x"] by linarith
  then show ?thesis by simp
qed

definition kexp :: "rat \<Rightarrow> int" where
  "kexp q = (if q = 0 then - 1074 else max (- 1074) (flog2 \<bar>q\<bar> - 52))"

definition rnd64 :: "rat \<Rightarrow> rat" where
  "rnd64 q = (let k = kexp q in of_int (rhe (q / 2 powi k)) * 2 powi k)"

text \<open>Rounding does not cross a point of the grid it rounds to.\<close>

lemma rnd64_le_grid: "x \<le> of_int m * 2 powi kexp x \<Longrightarrow> rnd64 x \<le> of_int m * 2 powi kexp x"
proof -
  assume "x \<le> of_int m * 2 powi kexp x"
  then have "x / 2 powi kexp x \<le> of_int m" by (simp add: field_simps)
  then have "rhe (x / 2 powi kexp x) \<le> rhe (of_int m)" by (rule rhe_mono)
  then show ?thesis by (simp add: rnd64_def Let_def)
qed

lemma rnd64_ge_grid: "of_int m * 2 powi kexp x \<le> x \<Longrightarrow> of_int m * 2 powi kexp x \<le> rnd64 x"
proof -
  assume "of_int m * 2 powi kexp x \<le> x"
  then have "of_int m \<le> x / 2 powi kexp x" by (simp add: field_simps)
  then have "rhe (of_int m) \<le> rhe (x / 2 powi kexp x)" by (rule rhe_mono)
  then show ?thesis by (simp add: rnd64_def Let_def)
qed

lemma pow2_on_grid: "k \<le> p \<Longrightarrow> (2::rat) powi p = of_int (2 ^ nat (p - k)) * 2 powi k"
proof -
  assume "k \<le> p"
  then have "(2::rat) powi p = 2 powi (int (nat (p - k)) + k)" by simp
  also have "\<dots> = 2 powi int (nat (p - k)) * 2 powi k" by (rule power_int_add) simp
  also have "\<dots> = of_int (2 ^ nat (p - k)) * 2 powi k" by (simp only: power_int_of_nat of_int_power of_int_numeral)
  finally show ?thesis .
qed

lemma rnd64_le_pow2: "kexp x \<le> p \<Longrightarrow> x \<le> 2 powi p \<Longrightarrow> rnd64 x \<le> 2 powi p"
  using rnd64_le_grid [of x "2 ^ nat (p - kexp x)"] pow2_on_grid [of "kexp x" p] by simp

lemma rnd64_ge_pow2: "kexp x \<le> p \<Longrightarrow> 2 powi p \<le> x \<Longrightarrow> 2 powi p \<le> rnd64 x"
  using rnd64_ge_grid [of "2 ^ nat (p - kexp x)" x] pow2_on_grid [of "kexp x" p] by simp

lemma rnd64_le_neg_pow2: "kexp x \<le> p \<Longrightarrow> x \<le> - (2 powi p) \<Longrightarrow> rnd64 x \<le> - (2 powi p)"
  using rnd64_le_grid [of x "- (2 ^ nat (p - kexp x))"] pow2_on_grid [of "kexp x" p] by simp

lemma rnd64_ge_neg_pow2: "kexp x \<le> p \<Longrightarrow> - (2 powi p) \<le> x \<Longrightarrow> - (2 powi p) \<le> rnd64 x"
  using rnd64_ge_grid [of "- (2 ^ nat (p - kexp x))" x] pow2_on_grid [of "kexp x" p] by simp

lemma rnd64_nonneg: "0 \<le> x \<Longrightarrow> 0 \<le> rnd64 x"
  using rnd64_ge_grid [of 0 x] by simp

lemma rnd64_nonpos: "x \<le> 0 \<Longrightarrow> rnd64 x \<le> 0"
  using rnd64_le_grid [of x 0] by simp

lemma rnd64_0 [simp]: "rnd64 0 = 0"
  by (simp add: rnd64_def Let_def rhe_def)

lemma kexp_mono: "0 < \<bar>x\<bar> \<Longrightarrow> \<bar>x\<bar> \<le> \<bar>y\<bar> \<Longrightarrow> kexp x \<le> kexp y"
  using flog2_mono [of "\<bar>x\<bar>" "\<bar>y\<bar>"] by (auto simp: kexp_def)

text \<open>A power of two separates two numbers of one sign whose grids differ.\<close>

lemma kexp_separates:
  assumes "0 < \<bar>x\<bar>" "kexp x < kexp y"
  shows "\<exists>p. kexp x \<le> p \<and> kexp y \<le> p \<and> \<bar>x\<bar> \<le> 2 powi p \<and> 2 powi p \<le> \<bar>y\<bar>"
proof (intro exI conjI)
  have y0: "y \<noteq> 0" using assms by (auto simp: kexp_def split: if_splits)
  have ky: "kexp y = flog2 \<bar>y\<bar> - 52" using assms y0 by (auto simp: kexp_def split: if_splits)
  have fx: "flog2 \<bar>x\<bar> + 1 \<le> flog2 \<bar>y\<bar>" using assms y0 by (auto simp: kexp_def split: if_splits)
  show "kexp y \<le> flog2 \<bar>y\<bar>" using ky by simp
  then show "kexp x \<le> flog2 \<bar>y\<bar>" using assms by simp
  show "2 powi flog2 \<bar>y\<bar> \<le> \<bar>y\<bar>" using flog2_bounds [of "\<bar>y\<bar>"] y0 by simp
  have "\<bar>x\<bar> < 2 powi (flog2 \<bar>x\<bar> + 1)" using flog2_bounds [of "\<bar>x\<bar>"] assms by simp
  also have "\<dots> \<le> 2 powi flog2 \<bar>y\<bar>" using fx by (simp add: powi_le_iff)
  finally show "\<bar>x\<bar> \<le> 2 powi flog2 \<bar>y\<bar>" by simp
qed

lemma rnd64_mono_same: "kexp x = kexp y \<Longrightarrow> x \<le> y \<Longrightarrow> rnd64 x \<le> rnd64 y"
  unfolding rnd64_def Let_def
  by (simp add: rhe_mono divide_right_mono)

lemma rnd64_mono_pos:
  assumes "0 < x" "x \<le> y" shows "rnd64 x \<le> rnd64 y"
proof (cases "kexp x = kexp y")
  case True
  then show ?thesis using assms by (simp add: rnd64_mono_same)
next
  case False
  then have "kexp x < kexp y" using kexp_mono [of x y] assms by simp
  then obtain p where "kexp x \<le> p" "kexp y \<le> p" "x \<le> 2 powi p" "2 powi p \<le> y"
    using kexp_separates [of x y] assms by auto
  then show ?thesis using rnd64_le_pow2 [of x p] rnd64_ge_pow2 [of y p] by simp
qed

lemma rnd64_mono_neg:
  assumes "x \<le> y" "y < 0" shows "rnd64 x \<le> rnd64 y"
proof (cases "kexp x = kexp y")
  case True
  then show ?thesis using assms by (simp add: rnd64_mono_same)
next
  case False
  then have "kexp y < kexp x" using kexp_mono [of y x] assms by simp
  then obtain p where p: "kexp y \<le> p" "kexp x \<le> p" "\<bar>y\<bar> \<le> 2 powi p" "2 powi p \<le> \<bar>x\<bar>"
    using kexp_separates [of y x] assms by auto
  then have "x \<le> - (2 powi p)" "- (2 powi p) \<le> y" using assms by auto
  then show ?thesis using p rnd64_le_neg_pow2 [of x p] rnd64_ge_neg_pow2 [of y p] by simp
qed

lemma rnd64_mono: "x \<le> y \<Longrightarrow> rnd64 x \<le> rnd64 y"
proof -
  assume xy: "x \<le> y"
  consider "0 < x" | "y < 0" | "x \<le> 0" "0 \<le> y" using xy by linarith
  then show ?thesis
  proof cases
    case 3
    then show ?thesis using rnd64_nonneg [of y] rnd64_nonpos [of x] by simp
  qed (use xy rnd64_mono_pos rnd64_mono_neg in blast)+
qed

section \<open>Representable numbers\<close>

definition representable :: "rat \<Rightarrow> bool" where
  "representable q \<longleftrightarrow> (\<exists>m k. - 1074 \<le> k \<and> \<bar>m\<bar> < 2 ^ 53 \<and> q = of_int m * 2 powi k)"

lemma representable_int: "\<bar>m\<bar> < 2 ^ 53 \<Longrightarrow> representable (of_int m)"
  unfolding representable_def by (intro exI [of _ m] exI [of _ 0]) simp

lemma representable_pow2: "- 1074 \<le> k \<Longrightarrow> representable (2 powi k)"
  unfolding representable_def by (intro exI [of _ 1] exI [of _ k]) simp

lemma rnd64_exact: "kexp q \<le> k \<Longrightarrow> q = of_int m * 2 powi k \<Longrightarrow> rnd64 q = q"
proof -
  assume k: "kexp q \<le> k" and q: "q = of_int m * 2 powi k"
  have "q = of_int (m * 2 ^ nat (k - kexp q)) * 2 powi kexp q"
    using pow2_on_grid [OF k] q by simp
  then have "q / 2 powi kexp q = of_int (m * 2 ^ nat (k - kexp q))"
    by (metis nonzero_mult_div_cancel_right power_int_eq_0_iff zero_neq_numeral)
  then have "rhe (q / 2 powi kexp q) = m * 2 ^ nat (k - kexp q)"
    by (simp only: rhe_of_int)
  then show ?thesis
    using \<open>q = of_int (m * 2 ^ nat (k - kexp q)) * 2 powi kexp q\<close>
    by (simp add: rnd64_def Let_def)
qed

lemma kexp_le:
  assumes "- 1074 \<le> k" "\<bar>m\<bar> < 2 ^ 53" "q = of_int m * 2 powi k"
  shows "kexp q \<le> k"
proof (cases "q = 0")
  case True
  then show ?thesis using assms by (simp add: kexp_def)
next
  case False
  have "\<bar>q\<bar> = of_int \<bar>m\<bar> * 2 powi k" using assms by (simp add: abs_mult)
  also have "\<dots> < of_int (2 ^ 53) * 2 powi k" using assms by (simp only: of_int_less_iff mult_strict_right_mono zero_less_power_int zero_less_numeral)
  also have "\<dots> = 2 powi (53 + k)" by (subst power_int_add) simp_all
  finally have "\<bar>q\<bar> < 2 powi (53 + k)" .
  moreover have "2 powi flog2 \<bar>q\<bar> \<le> \<bar>q\<bar>" using flog2_bounds [of "\<bar>q\<bar>"] False by simp
  ultimately have "\<not> (2::rat) powi (53 + k) \<le> 2 powi flog2 \<bar>q\<bar>" by linarith
  then have "flog2 \<bar>q\<bar> < 53 + k" using powi_le_iff by (metis not_le)
  then show ?thesis using assms(1) False by (simp add: kexp_def)
qed

lemma rnd64_representable: "representable q \<Longrightarrow> rnd64 q = q"
  unfolding representable_def using kexp_le rnd64_exact by blast

lemma rnd64_int [simp]: "\<bar>m\<bar> < 2 ^ 53 \<Longrightarrow> rnd64 (of_int m) = of_int m"
  by (rule rnd64_representable [OF representable_int])

lemma rhe_mantissa: "\<bar>rhe (q / 2 powi kexp q)\<bar> \<le> 2 ^ 53"
proof (cases "q = 0")
  case True
  then show ?thesis by (simp add: rhe_def)
next
  case False
  have "\<bar>q\<bar> < 2 powi (flog2 \<bar>q\<bar> + 1)" using flog2_bounds [of "\<bar>q\<bar>"] False by simp
  also have "\<dots> \<le> 2 powi (53 + kexp q)" using False by (simp add: powi_le_iff kexp_def)
  also have "\<dots> = of_int (2 ^ 53) * 2 powi kexp q" by (subst power_int_add) simp_all
  finally have "\<bar>q\<bar> / 2 powi kexp q \<le> of_int (2 ^ 53)" by (simp add: field_simps)
  then have "\<bar>q / 2 powi kexp q\<bar> \<le> of_int (2 ^ 53)" by (simp add: abs_divide)
  then have "q / 2 powi kexp q \<le> of_int (2 ^ 53)" "of_int (- (2 ^ 53)) \<le> q / 2 powi kexp q"
    unfolding abs_le_iff by (simp_all add: minus_le_iff)
  then have "rhe (q / 2 powi kexp q) \<le> rhe (of_int (2 ^ 53))"
    "rhe (of_int (- (2 ^ 53))) \<le> rhe (q / 2 powi kexp q)" by (blast intro: rhe_mono)+
  then show ?thesis by (simp only: rhe_of_int abs_le_iff) simp
qed

lemma representable_rnd64: "representable (rnd64 q)"
proof -
  let ?m = "rhe (q / 2 powi kexp q)" and ?k = "kexp q"
  have k: "- 1074 \<le> ?k" by (simp add: kexp_def)
  have r: "rnd64 q = of_int ?m * 2 powi ?k" by (simp add: rnd64_def Let_def)
  show ?thesis
  proof (cases "\<bar>?m\<bar> = 2 ^ 53")
    case True
    define s :: int where "s = sgn ?m"
    have "?m = s * 2 ^ 53" using True abs_mult_sgn [of ?m] by (simp add: s_def mult.commute)
    then have "rnd64 q = of_int s * 2 powi (53 + ?k)"
      using r by (subst power_int_add) simp_all
    moreover have "\<bar>s\<bar> < 2 ^ 53" by (simp add: s_def sgn_if)
    ultimately show ?thesis using k unfolding representable_def
      by (intro exI [of _ s] exI [of _ "53 + ?k"]) simp
  next
    case False
    then have "\<bar>?m\<bar> < 2 ^ 53" using rhe_mantissa [of q] by simp
    then show ?thesis using r k unfolding representable_def by blast
  qed
qed

lemma rnd64_idem: "rnd64 (rnd64 q) = rnd64 q"
  by (rule rnd64_representable [OF representable_rnd64])

text \<open>What the clients of rounding rely on, and what follows from it alone.\<close>

locale rounding =
  fixes rnd :: "'a::linordered_field \<Rightarrow> 'a"
  assumes mono: "x \<le> y \<Longrightarrow> rnd x \<le> rnd y"
    and idem: "rnd (rnd x) = rnd x"
    and zero: "rnd 0 = 0"
begin

lemma nonneg: "0 \<le> x \<Longrightarrow> 0 \<le> rnd x"
  using mono [of 0 x] by (simp add: zero)

text \<open>A representable number below the rounding of \<open>y\<close> is not above \<open>y\<close> itself.\<close>

lemma less_rnd_le: "rnd x = x \<Longrightarrow> x < rnd y \<Longrightarrow> x \<le> y"
  using mono [of y x] by (metis le_cases not_le)

lemma le_rnd: "rnd x = x \<Longrightarrow> x \<le> y \<Longrightarrow> x \<le> rnd y"
  using mono [of x y] by simp

lemma rnd_le: "rnd y = y \<Longrightarrow> x \<le> y \<Longrightarrow> rnd x \<le> y"
  using mono [of x y] by simp

end

interpretation f64r: rounding rnd64
  by unfold_locales (simp_all add: rnd64_mono rnd64_idem)

section \<open>The float64 values and operations\<close>

datatype f64 = NaN | PosInf | NegInf | Fin rat

definition f64_of :: "rat \<Rightarrow> f64" where
  "f64_of q = (let r = rnd64 q in
     if 2 ^ 1024 \<le> r then PosInf else if r \<le> - (2 ^ 1024) then NegInf else Fin r)"

fun fneg :: "f64 \<Rightarrow> f64" where
  "fneg NaN = NaN" | "fneg PosInf = NegInf" | "fneg NegInf = PosInf" | "fneg (Fin a) = Fin (- a)"

fun fadd :: "f64 \<Rightarrow> f64 \<Rightarrow> f64" where
  "fadd (Fin a) (Fin b) = f64_of (a + b)"
| "fadd NaN _ = NaN" | "fadd _ NaN = NaN"
| "fadd PosInf NegInf = NaN" | "fadd NegInf PosInf = NaN"
| "fadd PosInf _ = PosInf" | "fadd _ PosInf = PosInf"
| "fadd NegInf _ = NegInf" | "fadd _ NegInf = NegInf"

definition fsub :: "f64 \<Rightarrow> f64 \<Rightarrow> f64" where
  "fsub x y = fadd x (fneg y)"

definition inf_of_sign :: "rat \<Rightarrow> f64" where
  "inf_of_sign s = (if 0 < s then PosInf else if s < 0 then NegInf else NaN)"

fun fsgn :: "f64 \<Rightarrow> rat" where
  "fsgn NaN = 0" | "fsgn PosInf = 1" | "fsgn NegInf = - 1" | "fsgn (Fin a) = sgn a"

fun fmul :: "f64 \<Rightarrow> f64 \<Rightarrow> f64" where
  "fmul (Fin a) (Fin b) = f64_of (a * b)"
| "fmul NaN _ = NaN" | "fmul _ NaN = NaN"
| "fmul x y = inf_of_sign (fsgn x * fsgn y)"

fun fdiv :: "f64 \<Rightarrow> f64 \<Rightarrow> f64" where
  "fdiv (Fin a) (Fin b) = (if b = 0 then inf_of_sign (sgn a) else f64_of (a / b))"
| "fdiv NaN _ = NaN" | "fdiv _ NaN = NaN"
| "fdiv (Fin _) _ = Fin 0"
| "fdiv x (Fin b) = inf_of_sign (fsgn x * (if b < 0 then - 1 else 1))"
| "fdiv _ _ = NaN"

fun fle :: "f64 \<Rightarrow> f64 \<Rightarrow> bool" where
  "fle (Fin a) (Fin b) = (a \<le> b)"
| "fle NaN _ = False" | "fle _ NaN = False"
| "fle NegInf _ = True" | "fle _ PosInf = True"
| "fle _ _ = False"

fun flt :: "f64 \<Rightarrow> f64 \<Rightarrow> bool" where
  "flt (Fin a) (Fin b) = (a < b)"
| "flt NaN _ = False" | "flt _ NaN = False"
| "flt NegInf NegInf = False" | "flt NegInf _ = True"
| "flt PosInf PosInf = False" | "flt _ PosInf = True"
| "flt _ _ = False"

definition is_nan :: "f64 \<Rightarrow> bool" where "is_nan x \<longleftrightarrow> x = NaN"
definition is_inf :: "f64 \<Rightarrow> bool" where "is_inf x \<longleftrightarrow> x = PosInf \<or> x = NegInf"

text \<open>\<^verbatim>\<open>float64(n)\<close> for an unsigned word and for an int; \<^verbatim>\<open>uint64(x)\<close> truncates, and on
  a value outside the range of the word it is implementation-defined in Go: amd64 gives the top bit.\<close>

definition f64_of_int :: "int \<Rightarrow> f64" where
  "f64_of_int n = f64_of (of_int n)"

definition f64_of_u64 :: "64 word \<Rightarrow> f64" where
  "f64_of_u64 w = f64_of_int (uint w)"

fun u64_of_f64 :: "f64 \<Rightarrow> 64 word" where
  "u64_of_f64 (Fin q) =
     (let n = (if 0 \<le> q then \<lfloor>q\<rfloor> else \<lceil>q\<rceil>)
      in if 0 \<le> n \<and> n < 2 ^ 64 then word_of_int n else 2 ^ 63)"
| "u64_of_f64 _ = 2 ^ 63"

text \<open>\<^verbatim>\<open>math.Ldexp(1, n)\<close> for the exponents \<open>0..128\<close> the code uses: exact.\<close>

definition ldexp1 :: "nat \<Rightarrow> f64" where
  "ldexp1 n = f64_of (2 ^ n)"

lemma f64_of_Fin: "\<bar>rnd64 q\<bar> < 2 ^ 1024 \<Longrightarrow> f64_of q = Fin (rnd64 q)"
  by (auto simp: f64_of_def Let_def abs_less_iff)

lemma pow2_representable: "representable (2 ^ n)"
  using representable_pow2 [of "int n"] by (simp add: power_int_of_nat)

lemma f64_of_pow2: "n < 1024 \<Longrightarrow> f64_of (2 ^ n) = Fin (2 ^ n)"
proof -
  assume "n < 1024"
  then have "(2 ^ n :: rat) < 2 ^ 1024" by (rule power_strict_increasing) simp
  then show ?thesis
    using rnd64_representable [OF pow2_representable [of n]] by (subst f64_of_Fin) simp_all
qed

lemma f64_of_small: "\<bar>m\<bar> < 2 ^ 53 \<Longrightarrow> f64_of (of_int m) = Fin (of_int m)"
proof -
  assume m: "\<bar>m\<bar> < 2 ^ 53"
  then have "of_int \<bar>m\<bar> < (of_int (2 ^ 53) :: rat)" by (simp only: of_int_less_iff)
  then have "\<bar>of_int m\<bar> < (2 ^ 53 :: rat)" by simp
  then have "\<bar>of_int m\<bar> < (2 ^ 1024 :: rat)"
    by (rule less_trans) (rule power_strict_increasing, simp_all)
  then show ?thesis using m by (subst f64_of_Fin) simp_all
qed

lemma rnd64_u64_bound: "\<bar>rnd64 (of_int (uint (w :: 64 word)))\<bar> \<le> 2 ^ 64"
proof -
  have "of_int (uint w) \<le> (of_int (2 ^ 64) :: rat)"
    using uint_lt2p [of w] by (simp only: of_int_le_iff) simp
  then have "rnd64 (of_int (uint w)) \<le> 2 ^ 64"
    using f64r.rnd_le [OF rnd64_representable [OF pow2_representable [of 64]]] by simp
  moreover have "0 \<le> rnd64 (of_int (uint w))" by (rule f64r.nonneg) (simp only: of_int_0_le_iff uint_ge_0)
  ultimately show ?thesis by simp
qed

lemma f64_of_u64_Fin: "f64_of_u64 w = Fin (rnd64 (of_int (uint w)))"
proof -
  have "(2 ^ 64 :: rat) < 2 ^ 1024" by (rule power_strict_increasing) simp_all
  then show ?thesis unfolding f64_of_u64_def f64_of_int_def
    using rnd64_u64_bound [of w] by (subst f64_of_Fin) simp_all
qed

lemma flt_irrefl [simp]: "\<not> flt x x"
  by (cases x) simp_all

lemma flt_imp_fle: "flt x y \<Longrightarrow> fle x y"
  by (cases x; cases y) simp_all

lemma fle_trans: "fle x y \<Longrightarrow> fle y z \<Longrightarrow> fle x z"
  by (cases x; cases y; cases z) simp_all

lemma not_flt_iff: "x \<noteq> NaN \<Longrightarrow> y \<noteq> NaN \<Longrightarrow> \<not> flt x y \<longleftrightarrow> fle y x"
  by (cases x; cases y) auto

text \<open>Every value an operation returns is representable.\<close>

definition f64_ok :: "f64 \<Rightarrow> bool" where
  "f64_ok x = (case x of Fin q \<Rightarrow> rnd64 q = q | _ \<Rightarrow> True)"

lemma f64_ok_of [simp]: "f64_ok (f64_of q)"
  by (simp add: f64_ok_def f64_of_def Let_def rnd64_idem)

lemma f64_ok_fmul: "f64_ok (fmul x y)"
  by (cases "(x, y)" rule: fmul.cases) (auto simp: f64_ok_def f64_of_def Let_def rnd64_idem inf_of_sign_def)

end
