(* ===== verification/NetAddr.thy ===== *)
theory NetAddr
  imports Prelude "HOL-Library.Char_ord" "HOL-Library.List_Lexorder" "HOL-Library.Product_Lexorder"
begin

unbundle bit_operations_syntax

text \<open>
  Go's \<^verbatim>\<open>net/netip\<close>: addresses, prefixes, containment, masking, order and rendering.
  \<open>addr\<close> has the three kinds of \<^verbatim>\<open>netip.Addr\<close>: the zero (invalid) address, an IPv4
  address, and an IPv6 address with its zone. \<open>Pfx a n\<close> is \<^verbatim>\<open>netip.Prefix\<close>; a negative
  \<open>n\<close> is the invalid prefix, as its \<^verbatim>\<open>Bits()\<close> reports. The lemmas say which addresses a
  prefix holds, that masking keeps them, and that a prefix inside another holds a subset.
\<close>

datatype addr = AddrNone | V4 "32 word" | V6 "128 word" string

datatype prefix = Pfx (pfx_addr: addr) (pfx_bits: int)

definition prefix_none :: prefix where "prefix_none = Pfx AddrNone (- 1)"

section \<open>Addresses\<close>

fun addr_valid :: "addr \<Rightarrow> bool" where
  "addr_valid AddrNone = False" | "addr_valid _ = True"

fun is4 :: "addr \<Rightarrow> bool" where
  "is4 (V4 _) = True" | "is4 _ = False"

fun is6 :: "addr \<Rightarrow> bool" where
  "is6 (V6 _ _) = True" | "is6 _ = False"

fun is4in6 :: "addr \<Rightarrow> bool" where
  "is4in6 (V6 w _) = (drop_bit 32 w = 0xffff)" | "is4in6 _ = False"

fun unmap :: "addr \<Rightarrow> addr" where
  "unmap (V6 w z) = (if drop_bit 32 w = 0xffff then V4 (ucast w) else V6 w z)"
| "unmap a = a"

fun bit_len :: "addr \<Rightarrow> nat" where
  "bit_len AddrNone = 0" | "bit_len (V4 _) = 32" | "bit_len (V6 _ _) = 128"

fun has_zone :: "addr \<Rightarrow> bool" where
  "has_zone (V6 _ z) = (z \<noteq> [])" | "has_zone _ = False"

fun without_zone :: "addr \<Rightarrow> addr" where
  "without_zone (V6 w _) = V6 w []" | "without_zone a = a"

fun addr_num :: "addr \<Rightarrow> nat" where
  "addr_num AddrNone = 0" | "addr_num (V4 w) = unat w" | "addr_num (V6 w _) = unat w"

fun addr_zone :: "addr \<Rightarrow> string" where
  "addr_zone (V6 _ z) = z" | "addr_zone _ = []"

text \<open>\<^verbatim>\<open>Addr.Compare\<close>: bit length first, then the number, then the zone.\<close>

definition addr_key :: "addr \<Rightarrow> nat \<times> nat \<times> string" where
  "addr_key a = (bit_len a, addr_num a, addr_zone a)"

lemma addr_key_inj: "addr_key a = addr_key b \<longleftrightarrow> a = b"
  by (cases a; cases b) (auto simp: addr_key_def simp flip: word_unat_eq_iff)

instantiation addr :: linorder
begin

definition less_eq_addr :: "addr \<Rightarrow> addr \<Rightarrow> bool" where
  "less_eq_addr a b \<longleftrightarrow> addr_key a \<le> addr_key b"

definition less_addr :: "addr \<Rightarrow> addr \<Rightarrow> bool" where
  "less_addr a b \<longleftrightarrow> addr_key a < addr_key b"

instance
proof
  fix x y z :: addr
  show "x < y \<longleftrightarrow> x \<le> y \<and> \<not> y \<le> x"
    unfolding less_eq_addr_def less_addr_def by (rule less_le_not_le)
  show "x \<le> x"
    unfolding less_eq_addr_def by (rule order_refl)
  show "x \<le> y \<Longrightarrow> y \<le> z \<Longrightarrow> x \<le> z"
    unfolding less_eq_addr_def by (rule order_trans)
  show "x \<le> y \<Longrightarrow> y \<le> x \<Longrightarrow> x = y"
    unfolding less_eq_addr_def using addr_key_inj order_antisym by blast
  show "x \<le> y \<or> y \<le> x"
    unfolding less_eq_addr_def by (rule linear)
qed

end

lemma unmap_idem [simp]: "unmap (unmap a) = unmap a"
  by (cases a) auto

lemma unmap_no_zone: "\<not> has_zone a \<Longrightarrow> \<not> has_zone (unmap a)"
  by (cases a) auto

lemma unmap_valid [simp]: "addr_valid (unmap a) = addr_valid a"
  by (cases a) auto

section \<open>Prefixes\<close>

definition pfx_valid :: "prefix \<Rightarrow> bool" where
  "pfx_valid p \<longleftrightarrow> 0 \<le> pfx_bits p"

text \<open>Every prefix Go can build: a valid one fits its address and has no zone.\<close>

definition pfx_wf :: "prefix \<Rightarrow> bool" where
  "pfx_wf p \<longleftrightarrow> (pfx_valid p \<longrightarrow> addr_valid (pfx_addr p) \<and> \<not> has_zone (pfx_addr p)
     \<and> pfx_bits p \<le> int (bit_len (pfx_addr p)))"

text \<open>\<^verbatim>\<open>PrefixFrom\<close> drops the zone, and is invalid when the length does not fit.\<close>

definition prefix_from :: "addr \<Rightarrow> int \<Rightarrow> prefix" where
  "prefix_from a n =
     (if addr_valid a \<and> 0 \<le> n \<and> n \<le> int (bit_len a) then Pfx (without_zone a) n
      else Pfx (without_zone a) (- 1))"

fun mask_addr :: "addr \<Rightarrow> nat \<Rightarrow> addr" where
  "mask_addr AddrNone _ = AddrNone"
| "mask_addr (V4 w) n = V4 (push_bit (32 - n) (drop_bit (32 - n) w))"
| "mask_addr (V6 w z) n = V6 (push_bit (128 - n) (drop_bit (128 - n) w)) []"

text \<open>\<^verbatim>\<open>Addr.Prefix(b)\<close>: the masked prefix, or an error when the length does not fit.\<close>

definition addr_prefix :: "addr \<Rightarrow> int \<Rightarrow> prefix option" where
  "addr_prefix a n =
     (if n < 0 then None
      else if a = AddrNone then Some prefix_none
      else if int (bit_len a) < n then None
      else Some (Pfx (mask_addr a (nat n)) n))"

definition pfx_masked :: "prefix \<Rightarrow> prefix" where
  "pfx_masked p = (case addr_prefix (pfx_addr p) (pfx_bits p) of Some q \<Rightarrow> q | None \<Rightarrow> prefix_none)"

fun same_top :: "addr \<Rightarrow> addr \<Rightarrow> nat \<Rightarrow> bool" where
  "same_top (V4 x) (V4 y) n = (drop_bit (32 - n) x = drop_bit (32 - n) y)"
| "same_top (V6 x _) (V6 y _) n = (drop_bit (128 - n) x = drop_bit (128 - n) y)"
| "same_top _ _ _ = False"

text \<open>\<^verbatim>\<open>Prefix.Contains\<close>: families do not mix, and an address with a zone is in no prefix.\<close>

definition contains :: "prefix \<Rightarrow> addr \<Rightarrow> bool" where
  "contains p a \<longleftrightarrow> pfx_valid p \<and> \<not> has_zone a \<and> same_top (pfx_addr p) a (nat (pfx_bits p))"

text \<open>\<^verbatim>\<open>Prefix.Overlaps\<close>: the two agree on the shorter length.\<close>

definition pfx_overlaps :: "prefix \<Rightarrow> prefix \<Rightarrow> bool" where
  "pfx_overlaps p q \<longleftrightarrow> pfx_valid p \<and> pfx_valid q
     \<and> same_top (pfx_addr p) (pfx_addr q) (nat (min (pfx_bits p) (pfx_bits q)))"

definition host_bits :: "addr \<Rightarrow> int" where
  "host_bits a = (if is4 a then 32 else 128)"

lemma prefix_from_wf [simp]: "pfx_wf (prefix_from a n)"
  by (cases a) (auto simp: pfx_wf_def prefix_from_def pfx_valid_def)

lemma prefix_none_wf [simp]: "pfx_wf prefix_none" "\<not> pfx_valid prefix_none"
  by (simp_all add: pfx_wf_def prefix_none_def pfx_valid_def)

section \<open>Rendering\<close>

definition v4_string :: "32 word \<Rightarrow> string" where
  "v4_string w = join ''.'' (map (\<lambda>i. dec (unat (drop_bit i w AND 0xff))) [24, 16, 8, 0])"

definition v6_groups :: "128 word \<Rightarrow> nat list" where
  "v6_groups w = map (\<lambda>i. unat (drop_bit (16 * (7 - i)) w AND 0xffff)) [0..<8]"

definition zero_run :: "nat list \<Rightarrow> nat \<Rightarrow> nat" where
  "zero_run gs i = length (takeWhile (\<lambda>g. g = 0) (drop i gs))"

text \<open>The first of the longest runs of two or more zero groups, as start and length.\<close>

definition best_run :: "nat list \<Rightarrow> (nat \<times> nat) option" where
  "best_run gs = foldl (\<lambda>b i. let n = zero_run gs i in
      if n < 2 then b else (case b of None \<Rightarrow> Some (i, n) | Some (_, m) \<Rightarrow> if m < n then Some (i, n) else b))
      None [0..<8]"

definition v6_string :: "128 word \<Rightarrow> string" where
  "v6_string w = (let gs = v6_groups w in
     case best_run gs of
       None \<Rightarrow> join '':'' (map hex gs)
     | Some (i, n) \<Rightarrow> join '':'' (map hex (take i gs)) @ ''::'' @ join '':'' (map hex (drop (i + n) gs)))"

fun addr_string :: "addr \<Rightarrow> string" where
  "addr_string AddrNone = ''invalid IP''"
| "addr_string (V4 w) = v4_string w"
| "addr_string (V6 w z) =
     (if drop_bit 32 w = 0xffff then ''::ffff:'' @ v4_string (ucast w) else v6_string w) @
     (if z = [] then [] else ''%'' @ z)"

definition pfx_string :: "prefix \<Rightarrow> string" where
  "pfx_string p = (if pfx_valid p then addr_string (pfx_addr p) @ ''/'' @ dec (nat (pfx_bits p))
                   else ''invalid Prefix'')"

section \<open>Laws of containment\<close>

text \<open>What a client of a set of prefixes relies on.\<close>

locale prefix_family =
  fixes holds :: "'p \<Rightarrow> 'a \<Rightarrow> bool"
    and within :: "'p \<Rightarrow> 'p \<Rightarrow> bool"
  assumes within_sub: "within p q \<Longrightarrow> holds q a \<Longrightarrow> holds p a"
begin

lemma any_within: "(\<exists>p \<in> set ps. within p q) \<Longrightarrow> holds q a \<Longrightarrow> \<exists>p \<in> set ps. holds p a"
  by (blast intro: within_sub)

lemma none_within: "\<forall>p \<in> set ps. \<not> holds p a \<Longrightarrow> holds q a \<Longrightarrow> \<forall>p \<in> set ps. \<not> within p q"
  by (blast dest: within_sub)

end

text \<open>The test the code uses for one prefix inside another.\<close>

definition pfx_within :: "prefix \<Rightarrow> prefix \<Rightarrow> bool" where
  "pfx_within p q \<longleftrightarrow> contains p (pfx_addr q) \<and> pfx_bits p \<le> pfx_bits q"

lemma drop_bit_coarser:
  fixes x y :: "'a::len word"
  shows "m \<le> n \<Longrightarrow> drop_bit m x = drop_bit m y \<Longrightarrow> drop_bit n x = drop_bit n y"
  by (metis drop_bit_drop_bit le_add_diff_inverse2)

lemma same_top_coarser: "m \<le> n \<Longrightarrow> same_top a b n \<Longrightarrow> same_top a b m"
  by (cases a; cases b) (auto intro: drop_bit_coarser diff_le_mono2)

lemma same_top_trans: "same_top a b n \<Longrightarrow> same_top b c n \<Longrightarrow> same_top a c n"
  by (cases a; cases b; cases c) auto

lemma same_top_refl: "addr_valid a \<Longrightarrow> same_top a a n"
  by (cases a) auto

interpretation pfx: prefix_family contains pfx_within
proof
  fix p q a
  assume w: "pfx_within p q" and q: "contains q a"
  then have "nat (pfx_bits p) \<le> nat (pfx_bits q)" unfolding pfx_within_def by (blast intro: nat_mono)
  then have "same_top (pfx_addr q) a (nat (pfx_bits p))"
    using q same_top_coarser by (auto simp: contains_def)
  then show "contains p a"
    using w q same_top_trans by (auto simp: pfx_within_def contains_def)
qed

lemma contains_valid: "contains p a \<Longrightarrow> addr_valid a"
  by (cases a; cases "pfx_addr p") (auto simp: contains_def)

lemma contains_family: "contains p a \<Longrightarrow> is6 a = is6 (pfx_addr p)"
  by (cases a; cases "pfx_addr p") (auto simp: contains_def)

lemma drop_push_drop: "drop_bit k (push_bit k (drop_bit k (w :: 'a::len word))) = drop_bit k w"
  by (rule bit_word_eqI) (auto simp: bit_drop_bit_eq bit_push_bit_iff dest: bit_imp_le_length)

lemma same_top_mask: "same_top (mask_addr a n) b n = same_top a b n"
  by (cases a; cases b) (auto simp: drop_push_drop)

text \<open>Masking a prefix does not change the addresses it holds.\<close>

lemma contains_masked:
  assumes "pfx_valid p" "pfx_bits p \<le> int (bit_len (pfx_addr p))"
  shows "contains (pfx_masked p) a = contains p a"
proof (cases "pfx_addr p = AddrNone")
  case True
  then show ?thesis by (simp add: contains_def pfx_masked_def addr_prefix_def prefix_none_def pfx_valid_def)
next
  case False
  then show ?thesis using assms
    by (simp add: contains_def pfx_masked_def addr_prefix_def pfx_valid_def same_top_mask)
qed

text \<open>A host prefix holds exactly its address.\<close>

lemma contains_host:
  assumes "addr_valid a" "\<not> has_zone b"
  shows "contains (prefix_from a (host_bits a)) b \<longleftrightarrow> b = without_zone a"
  using assms by (cases a; cases b) (auto simp: contains_def prefix_from_def host_bits_def pfx_valid_def)

end
