(* ===== verification/NetParse.thy ===== *)
theory NetParse
  imports NetAddr
begin

text \<open>
  Parsing of addresses, prefixes and numbers the way Go's \<^verbatim>\<open>net/netip\<close> and \<^verbatim>\<open>strconv\<close> do:
  \<open>parse_addr\<close> is \<^verbatim>\<open>netip.ParseAddr\<close>, \<open>parse_prefix\<close> \<^verbatim>\<open>netip.ParsePrefix\<close> and
  \<open>parse_uint\<close> \<^verbatim>\<open>strconv.ParseUint\<close> in base 10. An error is \<open>None\<close>: no caller modelled here
  looks at its text.
\<close>

section \<open>Numbers\<close>

definition dig_val :: "char \<Rightarrow> nat option" where
  "dig_val c = (let n = of_char c in if 48 \<le> n \<and> n \<le> 57 then Some (n - 48) else None)"

definition hex_val :: "char \<Rightarrow> nat option" where
  "hex_val c = (let n = of_char c in
     if 48 \<le> n \<and> n \<le> 57 then Some (n - 48)
     else if 97 \<le> n \<and> n \<le> 102 then Some (n - 87)
     else if 65 \<le> n \<and> n \<le> 70 then Some (n - 55) else None)"

fun dec_acc :: "nat \<Rightarrow> string \<Rightarrow> nat option" where
  "dec_acc acc [] = Some acc"
| "dec_acc acc (c # cs) = (case dig_val c of None \<Rightarrow> None | Some d \<Rightarrow> dec_acc (10 * acc + d) cs)"

text \<open>\<^verbatim>\<open>strconv.ParseUint(s, 10, w)\<close>.\<close>

definition parse_uint :: "nat \<Rightarrow> string \<Rightarrow> nat option" where
  "parse_uint w s = (if s = [] then None
     else case dec_acc 0 s of None \<Rightarrow> None | Some n \<Rightarrow> if n < 2 ^ w then Some n else None)"

lemma parse_uint_bound: "parse_uint w s = Some n \<Longrightarrow> n < 2 ^ w"
  by (auto simp: parse_uint_def split: if_splits option.splits)

lemma dig_val_digit_char: "d < 10 \<Longrightarrow> dig_val (digit_char d) = Some d"
  by (simp add: dig_val_def digit_char_def Let_def)

lemma dec_acc_append:
  "dec_acc a (xs @ ys) = (case dec_acc a xs of None \<Rightarrow> None | Some b \<Rightarrow> dec_acc b ys)"
  by (induction xs arbitrary: a) (auto split: option.splits)

lemma dec_acc_dec: "dec_acc 0 (dec n) = Some n"
  unfolding dec_def
proof (induction n rule: less_induct)
  case (less n)
  show ?case
  proof (cases "n < 10")
    case True
    then show ?thesis by (simp add: digits_of.simps dig_val_digit_char)
  next
    case False
    then have "digits_of 10 n = digits_of 10 (n div 10) @ [digit_char (n mod 10)]"
      by (subst digits_of.simps) simp
    then show ?thesis using False less [of "n div 10"]
      by (simp add: dec_acc_append dig_val_digit_char)
  qed
qed

text \<open>Parsing the decimal rendering of a number gives it back.\<close>

lemma parse_uint_dec: "n < 2 ^ w \<Longrightarrow> parse_uint w (dec n) = Some n"
  by (simp add: parse_uint_def dec_acc_dec) (simp add: dec_def)

lemma dec_acc_digits: "dec_acc a s = Some n \<Longrightarrow> c \<in> set s \<Longrightarrow> dig_val c \<noteq> None"
  by (induction s arbitrary: a) (auto split: option.splits)

lemma dec_digits: "c \<in> set (dec n) \<Longrightarrow> dig_val c \<noteq> None"
  by (rule dec_acc_digits [OF dec_acc_dec])

lemma takeWhile_dec: "dig_val c = None \<Longrightarrow> takeWhile (\<lambda>x. x \<noteq> c) (dec n @ c # s) = dec n"
  by (subst takeWhile_append2) (auto dest: dec_digits)

section \<open>Addresses\<close>

text \<open>\<^verbatim>\<open>parseIPv4Fields\<close>: the loop state is the octet in hand, its digit count and the octets read.\<close>

fun v4_fields :: "nat \<Rightarrow> nat \<Rightarrow> nat list \<Rightarrow> string \<Rightarrow> nat list option" where
  "v4_fields v k fs [] = (if length fs < 3 \<or> k = 0 then None else Some (fs @ [v]))"
| "v4_fields v k fs (c # cs) = (case dig_val c of
     Some d \<Rightarrow> if k = 1 \<and> v = 0 then None
               else if 255 < 10 * v + d then None else v4_fields (10 * v + d) (Suc k) fs cs
   | None \<Rightarrow> if c \<noteq> CHR ''.'' then None
             else if k = 0 \<or> cs = [] then None
             else if length fs = 3 then None else v4_fields 0 0 (fs @ [v]) cs)"

definition num_of_bytes :: "nat list \<Rightarrow> nat" where
  "num_of_bytes bs = foldl (\<lambda>a b. 256 * a + b) 0 bs"

definition parse_v4 :: "string \<Rightarrow> addr option" where
  "parse_v4 s = (case v4_fields 0 0 [] s of None \<Rightarrow> None | Some bs \<Rightarrow> Some (V4 (of_nat (num_of_bytes bs))))"

text \<open>
  \<^verbatim>\<open>parseIPv6\<close>: one round of the loop reads a hex group or the trailing IPv4 part. \<open>bs\<close> are the
  bytes read, \<open>el\<close> the place of the ellipsis. A round adds at least two bytes, so eight rounds
  reach the loop's bound.
\<close>

definition hex_group :: "string \<Rightarrow> nat option" where
  "hex_group ds = (if ds = [] \<or> 4 < length ds then None
     else Some (foldl (\<lambda>a c. 16 * a + the (hex_val c)) 0 ds))"

fun v6_loop :: "nat \<Rightarrow> nat list \<Rightarrow> nat option \<Rightarrow> string \<Rightarrow> (nat list \<times> nat option \<times> string) option" where
  "v6_loop 0 bs el s = Some (bs, el, s)"
| "v6_loop (Suc n) bs el s = (let ds = takeWhile (\<lambda>c. hex_val c \<noteq> None) s; r = drop (length ds) s in
     case hex_group ds of
       None \<Rightarrow> None
     | Some g \<Rightarrow>
         if r \<noteq> [] \<and> hd r = CHR ''.'' then
           (if (el = None \<and> length bs \<noteq> 12) \<or> 12 < length bs then None
            else case v4_fields 0 0 [] s of None \<Rightarrow> None | Some fs \<Rightarrow> Some (bs @ fs, el, []))
         else let bs' = bs @ [g div 256, g mod 256] in
           if r = [] then Some (bs', el, [])
           else if hd r \<noteq> CHR '':'' \<or> length r = 1 then None
           else let t = tl r in
             if hd t = CHR '':'' then
               (if el \<noteq> None then None
                else if tl t = [] then Some (bs', Some (length bs'), [])
                else v6_loop n bs' (Some (length bs')) (tl t))
             else v6_loop n bs' el t)"

definition v6_finish :: "nat list \<times> nat option \<times> string \<Rightarrow> nat list option" where
  "v6_finish r = (case r of (bs, el, s) \<Rightarrow>
     if s \<noteq> [] then None
     else if length bs < 16 then
       (case el of None \<Rightarrow> None
        | Some e \<Rightarrow> Some (take e bs @ replicate (16 - length bs) 0 @ drop e bs))
     else if el \<noteq> None then None else Some bs)"

definition parse_v6 :: "string \<Rightarrow> addr option" where
  "parse_v6 inp = (let s = takeWhile (\<lambda>c. c \<noteq> CHR ''%'') inp;
       has = CHR ''%'' \<in> set inp; z = drop (Suc (length s)) inp in
     if has \<and> z = [] then None
     else let st = (if take 2 s = ''::'' then
                      (if drop 2 s = [] then Some ([], Some 0, []) else v6_loop 8 [] (Some 0) (drop 2 s))
                    else v6_loop 8 [] None s)
       in case st of None \<Rightarrow> None
          | Some r \<Rightarrow> (case v6_finish r of None \<Rightarrow> None
              | Some bs \<Rightarrow> Some (V6 (of_nat (num_of_bytes bs)) z)))"

definition parse_addr :: "string \<Rightarrow> addr option" where
  "parse_addr s = (case dropWhile (\<lambda>c. c \<noteq> CHR ''.'' \<and> c \<noteq> CHR '':'' \<and> c \<noteq> CHR ''%'') s of
     [] \<Rightarrow> None
   | c # _ \<Rightarrow> if c = CHR ''.'' then parse_v4 s else if c = CHR '':'' then parse_v6 s else None)"

text \<open>\<^verbatim>\<open>netip.ParsePrefix\<close>: the text after the last slash is the length, without sign or leading zero.\<close>

definition parse_prefix :: "string \<Rightarrow> prefix option" where
  "parse_prefix s = (if CHR ''/'' \<notin> set s then None else
     let b = rev (takeWhile (\<lambda>c. c \<noteq> CHR ''/'') (rev s));
         a = take (length s - length b - 1) s in
     case parse_addr a of
       None \<Rightarrow> None
     | Some ip \<Rightarrow>
         if has_zone ip then None
         else if 1 < length b \<and> (hd b = CHR ''0'' \<or> dig_val (hd b) = None) then None
         else case parse_uint 63 b of
           None \<Rightarrow> None
         | Some n \<Rightarrow> if bit_len ip < n then None else Some (prefix_from ip (int n)))"

lemma parse_v4_kind: "parse_v4 s = Some a \<Longrightarrow> is4 a"
  by (auto simp: parse_v4_def split: option.splits)

lemma parse_v6_kind: "parse_v6 s = Some a \<Longrightarrow> is6 a"
  by (auto simp: parse_v6_def Let_def split: option.splits if_splits)

lemma parse_addr_valid: "parse_addr s = Some a \<Longrightarrow> addr_valid a"
  by (cases a) (auto simp: parse_addr_def dest!: parse_v4_kind parse_v6_kind split: list.splits if_splits)

lemma parse_prefix_valid:
  assumes "parse_prefix s = Some p"
  shows "pfx_valid p \<and> addr_valid (pfx_addr p) \<and> pfx_bits p \<le> int (bit_len (pfx_addr p))"
proof -
  obtain a ip n where ip: "parse_addr a = Some ip" and n: "\<not> bit_len ip < n"
    and p: "p = prefix_from ip (int n)"
    using assms by (auto simp: parse_prefix_def Let_def split: option.splits if_splits)
  have "addr_valid ip" using parse_addr_valid [OF ip] .
  then show ?thesis using n p by (cases ip) (auto simp: prefix_from_def pfx_valid_def)
qed

end
