(* ===== verification/Config.thy ===== *)
theory Config
  imports NetParse GoFloat
begin

text \<open>
  The configuration snapshot of \<^verbatim>\<open>src/engine/internal/config/config.go\<close>: the blocks the mitigator and
  the detection engine read, and the queries they make of a snapshot (group lookup, whitelist,
  protected networks, boundary filtering, durations). \<^verbatim>\<open>ConfigResolve\<close> holds the validation that
  fills the parsed fields. A pointer that may be nil is an option; the typed string enums are
  datatypes, the fields that keep a raw YAML string are strings.
\<close>

section \<open>Blocks\<close>

record thresholds =
  th_pps :: "64 word"
  th_mbps :: "64 word"
  th_fps :: "64 word"
  th_tcp_pps :: "64 word"
  th_tcp_mbps :: "64 word"
  th_udp_pps :: "64 word"
  th_udp_mbps :: "64 word"
  th_icmp_pps :: "64 word"
  th_icmp_mbps :: "64 word"
  th_syn_pps :: "64 word"
  th_syn_mbps :: "64 word"
  th_frag_pps :: "64 word"
  th_frag_mbps :: "64 word"

definition thresholds_none :: thresholds where
  "thresholds_none = \<lparr> th_pps = 0, th_mbps = 0, th_fps = 0, th_tcp_pps = 0, th_tcp_mbps = 0,
     th_udp_pps = 0, th_udp_mbps = 0, th_icmp_pps = 0, th_icmp_mbps = 0, th_syn_pps = 0,
     th_syn_mbps = 0, th_frag_pps = 0, th_frag_mbps = 0 \<rparr>"

definition thresholds_zero :: "thresholds \<Rightarrow> bool" where
  "thresholds_zero t \<longleftrightarrow> t = thresholds_none"

record baseline_floor =
  fl_pps :: "64 word"
  fl_mbps :: "64 word"
  fl_fps :: "64 word"

record baseline_cfg =
  bl_enabled :: "bool option"
  bl_factor :: f64
  bl_half_life :: int
  bl_warmup :: int
  bl_floor :: baseline_floor

record baseline_settings =
  bs_factor :: f64
  bs_alpha :: f64
  bs_warmup :: int
  bs_floor :: baseline_floor

datatype mitigation_method = NoMethod | MitigateBlackhole | MitigateFlowSpec | MitigateDivert | MitigateDataplane

datatype flowspec_action = FSNone | FSDiscard | FSRateLimit

datatype escalation_action = EscalateNone | EscalateDataplane | EscalateFlowSpec | EscalateDivert | EscalateBlackhole

record escalation_step =
  step_after :: int
  step_action :: string

record escalation_stage =
  after_seconds :: int
  stage_action :: escalation_action

record flowspec_cfg =
  fs_action :: string
  fs_rate_mbps :: f64
  fs_source_anchored :: bool
  fs_min_conc :: f64

record carpet =
  cp_v4 :: int
  cp_v6 :: int
  cp_min_hosts :: int
  cp_thresholds :: thresholds
  cp_mitigation :: string
  cp_max_active :: int

datatype calc_method = CalcPerHost | CalcTotal

record bgp_override =
  ov_next_hop :: string
  ov_next_hop6 :: string
  ov_communities :: "string list option"
  ov_local_pref :: "32 word option"

record hostgroup =
  hg_name :: string
  hg_networks :: "string list"
  hg_calc :: string
  hg_thresholds :: "thresholds option"
  hg_thresholds_out :: "thresholds option"
  hg_baseline :: "baseline_cfg option"
  hg_mitigation :: string
  hg_flowspec :: "flowspec_cfg option"
  hg_escalation :: "escalation_step list option"
  hg_bgp :: "bgp_override option"
  hg_scrubbing :: "bgp_override option"
  hg_tenant :: string
  hg_ban :: "bool option"

record group =
  g_name :: string
  g_calc :: calc_method
  g_networks :: "string list"
  g_thresholds :: thresholds
  g_out :: "thresholds option"
  g_baseline :: "baseline_settings option"
  g_mitigation :: mitigation_method
  g_fs_action :: flowspec_action
  g_fs_rate :: f64
  g_src_anchored :: bool
  g_min_conc :: f64
  g_escalation :: "escalation_stage list"
  g_bh_next_hop :: string
  g_bh_next_hop6 :: string
  g_bh_comms :: "32 word list"
  g_bh_comm_str :: string
  g_local_pref :: "32 word"
  g_scrub_next_hop :: string
  g_scrub_next_hop6 :: string
  g_scrub_comms :: "32 word list"
  g_scrub_comm_str :: string
  g_scrub_local_pref :: "32 word"
  g_tenant :: string
  g_ban_enabled :: bool

record ban_cfg =
  ttl_seconds :: int
  unban_hysteresis_seconds :: int
  max_active_bans :: int
  fallback_str :: string
  max_banned_fraction :: f64
  max_bans_per_window :: int
  ban_window_seconds :: int

record bgp_cfg =
  bgp_next_hop :: string
  bgp_next_hop6 :: string
  bgp_comms :: "32 word list"
  bgp_comm_str :: string
  bgp_local_pref :: "32 word"

record scrub_node =
  sn_name :: string
  sn_next_hop :: string
  sn_next_hop6 :: string
  sn_capacity :: "64 word"
  sn_hostgroups :: "string list"

record scrubbing =
  sc_next_hop :: string
  sc_next_hop6 :: string
  sc_nodes :: "scrub_node list"
  sc_selection :: string
  sc_on_lost :: string
  sc_stale_after :: int
  sc_comms :: "32 word list"
  sc_comm_str :: string
  sc_local_pref :: "32 word"

record boundary =
  bd_external :: "32 word list"
  bd_excluded :: "32 word list"
  bd_egress :: bool

record group_route =
  rt_prefix :: prefix
  rt_group :: nat

text \<open>The snapshot: the raw fields the validation reads, then the parsed ones it fills.\<close>

record config =
  c_dry_run :: bool
  c_window :: int
  c_networks :: "string list"
  c_whitelist :: "string list"
  c_thresholds :: thresholds
  c_out :: "thresholds option"
  c_baseline :: "baseline_cfg option"
  c_carpet :: "carpet option"
  c_mitigation :: string
  c_flowspec :: "flowspec_cfg option"
  c_escalation :: "escalation_step list option"
  c_tenant :: string
  c_hostgroups :: "hostgroup list"
  c_ban :: ban_cfg
  c_bgp :: bgp_cfg
  c_scrubbing :: scrubbing
  c_dataplane :: "bool option"
  network_prefixes :: "prefix list"
  whitelist_addrs :: "addr list"
  protected4 :: f64
  protected6 :: f64
  c_boundary :: "(addr, boundary) table"
  c_groups :: "group list"
  outgoing_enabled :: bool
  dp_allowlist :: "prefix list"
  dp_max_rules :: int
  group_routes :: "group_route list"
  at_mode :: string
  iface_labels :: "(string, string) table"
  vlan_labels :: "(string, string) table"
  open_members :: "(string, string) table"

section \<open>Methods and ladders\<close>

definition carpet_methods :: "mitigation_method list" where
  "carpet_methods = [MitigateFlowSpec, MitigateBlackhole, MitigateDataplane]"

fun method_str :: "mitigation_method \<Rightarrow> string" where
  "method_str NoMethod = ''''"
| "method_str MitigateBlackhole = ''blackhole''"
| "method_str MitigateFlowSpec = ''flowspec''"
| "method_str MitigateDivert = ''divert''"
| "method_str MitigateDataplane = ''dataplane''"

definition carpet_method :: "carpet \<Rightarrow> mitigation_method" where
  "carpet_method c = (case filter (\<lambda>m. cp_mitigation c = method_str m) carpet_methods of
     [] \<Rightarrow> NoMethod | m # _ \<Rightarrow> m)"

definition all_mitigation_methods :: "mitigation_method list" where
  "all_mitigation_methods = [MitigateBlackhole, MitigateFlowSpec, MitigateDivert, MitigateDataplane]"

fun method_ladder_action :: "mitigation_method \<Rightarrow> escalation_action" where
  "method_ladder_action MitigateBlackhole = EscalateBlackhole"
| "method_ladder_action MitigateFlowSpec = EscalateFlowSpec"
| "method_ladder_action MitigateDivert = EscalateDivert"
| "method_ladder_action MitigateDataplane = EscalateDataplane"
| "method_ladder_action NoMethod = EscalateNone"

definition method_action :: "mitigation_method \<Rightarrow> escalation_action" where
  "method_action m = (if m = NoMethod then EscalateBlackhole else method_ladder_action m)"

fun escalation_severity :: "escalation_action \<Rightarrow> int" where
  "escalation_severity EscalateBlackhole = 4"
| "escalation_severity EscalateDivert = 3"
| "escalation_severity EscalateFlowSpec = 2"
| "escalation_severity EscalateDataplane = 1"
| "escalation_severity EscalateNone = 0"

definition uses_flowspec :: "escalation_stage list \<Rightarrow> bool" where
  "uses_flowspec ss \<longleftrightarrow> (\<exists>s \<in> set ss. stage_action s = EscalateFlowSpec)"

definition uses_divert :: "escalation_stage list \<Rightarrow> bool" where
  "uses_divert ss \<longleftrightarrow> (\<exists>s \<in> set ss. stage_action s = EscalateDivert)"

definition uses_dataplane :: "escalation_stage list \<Rightarrow> bool" where
  "uses_dataplane ss \<longleftrightarrow> (\<exists>s \<in> set ss. stage_action s = EscalateDataplane)"

definition divert_generates_rules :: "escalation_stage list \<Rightarrow> scrubbing \<Rightarrow> bool" where
  "divert_generates_rules ss s \<longleftrightarrow>
     (if \<not> uses_divert ss then False else sc_nodes s \<noteq> [] \<or> sc_on_lost s = ''flowspec'')"

section \<open>Durations and fallback\<close>

definition ban_ttl :: "ban_cfg \<Rightarrow> int" where
  "ban_ttl b = dur_secs (ttl_seconds b)"

definition unban_hysteresis :: "ban_cfg \<Rightarrow> int" where
  "unban_hysteresis b = dur_secs (unban_hysteresis_seconds b)"

definition ban_window :: "ban_cfg \<Rightarrow> int" where
  "ban_window b = dur_secs (ban_window_seconds b)"

definition fallback_method :: "ban_cfg \<Rightarrow> mitigation_method" where
  "fallback_method b = (if fallback_str b = ''none'' then NoMethod else MitigateBlackhole)"

section \<open>Queries\<close>

fun first_route :: "group_route list \<Rightarrow> addr \<Rightarrow> nat" where
  "first_route [] a = 0"
| "first_route (r # rs) a = (if contains (rt_prefix r) a then rt_group r else first_route rs a)"

definition group_index_for :: "config \<Rightarrow> addr \<Rightarrow> nat" where
  "group_index_for c a = first_route (group_routes c) a"

definition group_for :: "config \<Rightarrow> addr \<Rightarrow> group" where
  "group_for c a = c_groups c ! group_index_for c a"

definition in_networks :: "config \<Rightarrow> addr \<Rightarrow> bool" where
  "in_networks c a \<longleftrightarrow> (\<exists>p \<in> set (network_prefixes c). contains p a)"

definition protected_addrs :: "config \<Rightarrow> bool \<Rightarrow> f64" where
  "protected_addrs c six = (if six then protected6 c else protected4 c)"

definition is_whitelisted :: "config \<Rightarrow> addr \<Rightarrow> bool" where
  "is_whitelisted c a \<longleftrightarrow> (\<exists>w \<in> set (whitelist_addrs c). w = a)"

definition dataplane_allowlist_contains :: "config \<Rightarrow> addr \<Rightarrow> bool" where
  "dataplane_allowlist_contains c a \<longleftrightarrow> (\<exists>p \<in> set (dp_allowlist c). contains p (unmap a))"

definition prefix_contains_whitelisted :: "config \<Rightarrow> prefix \<Rightarrow> bool" where
  "prefix_contains_whitelisted c p \<longleftrightarrow> (\<exists>w \<in> set (whitelist_addrs c). contains p w)"

definition prefix_in_networks :: "config \<Rightarrow> prefix \<Rightarrow> bool" where
  "prefix_in_networks c p \<longleftrightarrow>
     (\<exists>np \<in> set (network_prefixes c). contains np (pfx_addr p) \<and> pfx_bits np \<le> pfx_bits p)"

text \<open>\<^verbatim>\<open>boundaryRate\<close>: the rate a sample counts at, and whether it counts.\<close>

definition boundary_rate :: "config \<Rightarrow> addr \<Rightarrow> 32 word \<Rightarrow> 32 word \<Rightarrow> 64 word \<Rightarrow> 64 word \<times> bool" where
  "boundary_rate c exporter iface vlan rate =
     (case tget (c_boundary c) (unmap exporter) of
        None \<Rightarrow> (rate, True)
      | Some b \<Rightarrow>
          if vlan \<in> set (bd_excluded b) then (0, False)
          else if bd_external b \<noteq> [] \<and> iface \<notin> set (bd_external b) then (0, False)
          else (if bd_egress b \<and> 1 < rate then rate div 2 else rate, True))"

definition inbound_rate :: "config \<Rightarrow> addr \<Rightarrow> 32 word \<Rightarrow> 32 word \<Rightarrow> 64 word \<Rightarrow> 64 word \<times> bool" where
  "inbound_rate c exporter in_if vlan rate = boundary_rate c exporter in_if vlan rate"

definition outbound_rate :: "config \<Rightarrow> addr \<Rightarrow> 32 word \<Rightarrow> 32 word \<Rightarrow> 64 word \<Rightarrow> 64 word \<times> bool" where
  "outbound_rate c exporter out_if vlan rate = boundary_rate c exporter out_if vlan rate"

text \<open>The label of the interface or VLAN that carried a flow, and the OpenPeering member it belongs to.\<close>

definition label_key :: "addr \<Rightarrow> 32 word \<Rightarrow> string" where
  "label_key exporter number = addr_string (unmap exporter) @ '':'' @ dec (unat number)"

definition attribution_key :: "config \<Rightarrow> addr \<Rightarrow> 32 word \<Rightarrow> 32 word \<Rightarrow> string" where
  "attribution_key c exporter iface vlan =
     (if at_mode c = ''vlan'' then
        (case tget (vlan_labels c) (label_key exporter vlan) of
           Some l \<Rightarrow> l | None \<Rightarrow> ''VLAN '' @ dec (unat vlan))
      else (case tget (iface_labels c) (label_key exporter iface) of
           Some l \<Rightarrow> l | None \<Rightarrow> label_key exporter iface))"

definition open_peering_enabled :: "config \<Rightarrow> bool" where
  "open_peering_enabled c \<longleftrightarrow> open_members c \<noteq> []"

definition open_peering_member :: "config \<Rightarrow> addr \<Rightarrow> 32 word \<Rightarrow> 32 word \<Rightarrow> string option" where
  "open_peering_member c exporter iface vlan =
     tget (open_members c) (label_key exporter (if at_mode c = ''vlan'' then vlan else iface))"

definition is_open_peering_member :: "config \<Rightarrow> addr \<Rightarrow> 32 word \<Rightarrow> 32 word \<Rightarrow> bool" where
  "is_open_peering_member c exporter iface vlan \<longleftrightarrow> open_peering_member c exporter iface vlan \<noteq> None"

section \<open>Laws\<close>

lemma in_networks_valid: "in_networks c a \<Longrightarrow> addr_valid a"
  by (auto simp: in_networks_def dest: contains_valid)

text \<open>A prefix inside the networks holds only protected addresses.\<close>

lemma prefix_in_networks_members:
  "prefix_in_networks c p \<Longrightarrow> contains p a \<Longrightarrow> in_networks c a"
  using pfx.any_within [of "network_prefixes c" p a]
  by (auto simp: prefix_in_networks_def in_networks_def pfx_within_def)

text \<open>A prefix with no whitelisted member holds no whitelisted address.\<close>

lemma prefix_no_whitelisted_member:
  "\<not> prefix_contains_whitelisted c p \<Longrightarrow> contains p a \<Longrightarrow> \<not> is_whitelisted c a"
  by (auto simp: prefix_contains_whitelisted_def is_whitelisted_def)

lemma carpet_method_carpet: "carpet_method c \<in> insert NoMethod (set carpet_methods)"
  by (auto simp: carpet_method_def carpet_methods_def split: list.splits)

lemma carpet_method_str: "carpet_method c \<noteq> NoMethod \<Longrightarrow> cp_mitigation c = method_str (carpet_method c)"
  by (auto simp: carpet_method_def split: list.splits dest: filter_eq_ConsD)

lemma fallback_method_range: "fallback_method b \<in> {NoMethod, MitigateBlackhole}"
  by (simp add: fallback_method_def)

lemma boundary_rate_le: "fst (boundary_rate c e i v r) \<le> r"
  by (auto simp: boundary_rate_def word_le_nat_alt unat_div split: option.splits)

end
