(* ===== verification/ConfigResolve.thy ===== *)
theory ConfigResolve
  imports Config
begin

text \<open>
  The validation of \<^verbatim>\<open>src/engine/internal/config/config.go\<close> that fills the parsed fields: ladders and
  methods, FlowSpec policy, baselines, BGP attribute sets, communities, boundary rules, the
  protected networks and their address tally, ban and carpet limits, hostgroups and the
  longest-prefix-first route table. A returned error is \<open>Inl\<close>; \<open>Bad\<close> names the offending field
  and \<open>InGroup\<close> the hostgroup whose block failed.
\<close>

datatype config_error = Bad string | InGroup string config_error

type_synonym 'a checked = "config_error + 'a"

definition bindc :: "'a checked \<Rightarrow> ('a \<Rightarrow> 'b checked) \<Rightarrow> 'b checked" where
  "bindc r f = (case r of Inl e \<Rightarrow> Inl e | Inr a \<Rightarrow> f a)"

definition check :: "bool \<Rightarrow> string \<Rightarrow> unit checked" where
  "check ok msg = (if ok then Inr () else Inl (Bad msg))"

definition in_group :: "string \<Rightarrow> 'a checked \<Rightarrow> 'a checked" where
  "in_group g r = (case r of Inl e \<Rightarrow> Inl (InGroup g e) | Inr a \<Rightarrow> Inr a)"

lemma bindc_Inl [simp]: "bindc (Inl e) f = Inl e"
  and bindc_Inr [simp]: "bindc (Inr a) f = f a"
  by (simp_all add: bindc_def)

lemma bindc_eq_Inr: "bindc r f = Inr b \<longleftrightarrow> (\<exists>a. r = Inr a \<and> f a = Inr b)"
  by (auto simp: bindc_def split: sum.splits)

lemma check_eq_Inr [simp]: "check ok msg = Inr u \<longleftrightarrow> ok"
  by (auto simp: check_def)

lemma in_group_eq_Inr [simp]: "in_group g r = Inr a \<longleftrightarrow> r = Inr a"
  by (auto simp: in_group_def split: sum.splits)

fun map_checked :: "('a \<Rightarrow> 'b checked) \<Rightarrow> 'a list \<Rightarrow> 'b list checked" where
  "map_checked f [] = Inr []"
| "map_checked f (x # xs) = bindc (f x) (\<lambda>y. bindc (map_checked f xs) (\<lambda>ys. Inr (y # ys)))"

lemma map_checked_length: "map_checked f xs = Inr ys \<Longrightarrow> length ys = length xs"
  by (induction xs arbitrary: ys) (auto simp: bindc_eq_Inr)

lemma map_checked_set: "map_checked f xs = Inr ys \<Longrightarrow> y \<in> set ys \<Longrightarrow> \<exists>x \<in> set xs. f x = Inr y"
  by (induction xs arbitrary: ys) (auto simp: bindc_eq_Inr)

section \<open>Methods and FlowSpec policy\<close>

definition parse_method :: "string \<Rightarrow> mitigation_method option" where
  "parse_method s = find (\<lambda>m. method_str m = s) all_mitigation_methods"

definition resolve_flowspec_policy :: "flowspec_cfg option \<Rightarrow> flowspec_cfg option \<Rightarrow> (flowspec_action \<times> f64) checked" where
  "resolve_flowspec_policy flow def_flow =
     (let fs = (if flow = None then def_flow else flow);
          act = (case fs of None \<Rightarrow> ''discard''
                 | Some x \<Rightarrow> if fs_action x \<noteq> [] then fs_action x else ''discard'');
          rate = (case fs of None \<Rightarrow> Fin 0 | Some x \<Rightarrow> fs_rate_mbps x)
      in if act = ''discard'' then Inr (FSDiscard, Fin 0)
         else if act = ''rate_limit'' then
           (if fle rate (Fin 0) then Inl (Bad ''flowspec.rate_mbps'')
            else Inr (FSRateLimit, fdiv (fmul rate (Fin 1000000)) (Fin 8)))
         else Inl (Bad ''flowspec.action''))"

definition resolve_mitigation ::
  "string \<Rightarrow> flowspec_cfg option \<Rightarrow> mitigation_method \<Rightarrow> flowspec_cfg option
   \<Rightarrow> (mitigation_method \<times> flowspec_action \<times> f64) checked" where
  "resolve_mitigation s flow def_method def_flow =
     bindc (if s = [] then Inr def_method
            else case parse_method s of None \<Rightarrow> Inl (Bad ''method'') | Some m \<Rightarrow> Inr m)
       (\<lambda>m. if m \<noteq> MitigateFlowSpec then Inr (m, FSNone, Fin 0)
             else bindc (resolve_flowspec_policy flow def_flow) (\<lambda>(a, r). Inr (m, a, r)))"

definition resolve_source_anchor :: "flowspec_cfg option \<Rightarrow> flowspec_cfg option \<Rightarrow> (bool \<times> f64) checked" where
  "resolve_source_anchor flow def_flow =
     (case (if flow = None then def_flow else flow) of
        None \<Rightarrow> Inr (False, Fin 0)
      | Some fs \<Rightarrow>
          if \<not> fs_source_anchored fs then Inr (False, Fin 0)
          else let mc = fs_min_conc fs in
            if flt mc (Fin 0) \<or> flt (Fin 1) mc then Inl (Bad ''flowspec.min_source_concentration'')
            else Inr (True, if mc = Fin 0 then f64_of (8 / 10) else mc))"

section \<open>Ladders\<close>

definition max_escalation_stages :: nat where "max_escalation_stages = 5"

definition parse_escalation_action :: "string \<Rightarrow> escalation_action option" where
  "parse_escalation_action s =
     (if s = ''none'' then Some EscalateNone else if s = ''dataplane'' then Some EscalateDataplane
      else if s = ''flowspec'' then Some EscalateFlowSpec else if s = ''divert'' then Some EscalateDivert
      else if s = ''blackhole'' then Some EscalateBlackhole else None)"

text \<open>The loop over the steps: \<open>i\<close> the index, \<open>prev\<close> and \<open>sev\<close> the previous delay and severity.\<close>

fun escalation_loop :: "nat \<Rightarrow> int \<Rightarrow> int \<Rightarrow> escalation_step list \<Rightarrow> escalation_stage list checked" where
  "escalation_loop i prev sev [] = Inr []"
| "escalation_loop i prev sev (s # ss) =
     (case parse_escalation_action (step_action s) of
        None \<Rightarrow> Inl (Bad ''escalation.action'')
      | Some act \<Rightarrow>
          if i = 0 \<and> step_after s \<noteq> 0 then Inl (Bad ''escalation[0].after_seconds'')
          else if step_after s \<le> prev then Inl (Bad ''escalation.after_seconds: not greater'')
          else if 86400 < step_after s then Inl (Bad ''escalation.after_seconds: too late'')
          else if escalation_severity act < sev then Inl (Bad ''escalation.action: de-escalates'')
          else bindc (escalation_loop (Suc i) (step_after s) (escalation_severity act) ss)
                 (\<lambda>r. Inr (\<lparr> after_seconds = step_after s, stage_action = act \<rparr> # r)))"

definition resolve_escalation :: "escalation_step list \<Rightarrow> mitigation_method \<Rightarrow> escalation_stage list checked" where
  "resolve_escalation steps m =
     (if steps = [] then Inr [\<lparr> after_seconds = 0, stage_action = method_action m \<rparr>]
      else if max_escalation_stages < length steps then Inl (Bad ''escalation: too many stages'')
      else escalation_loop 0 (- 1) (- 1) steps)"

text \<open>A ladder the mitigator may climb.\<close>

definition stages_mono :: "escalation_stage list \<Rightarrow> bool" where
  "stages_mono ss \<longleftrightarrow> sorted_wrt (\<lambda>a b. after_seconds a < after_seconds b
       \<and> escalation_severity (stage_action a) \<le> escalation_severity (stage_action b)) ss"

definition ladder_ok :: "escalation_stage list \<Rightarrow> bool" where
  "ladder_ok ss \<longleftrightarrow> ss \<noteq> [] \<and> length ss \<le> max_escalation_stages \<and> after_seconds (hd ss) = 0
     \<and> (\<forall>s \<in> set ss. 0 \<le> after_seconds s \<and> after_seconds s \<le> 86400) \<and> stages_mono ss"

lemma escalation_loop_length: "escalation_loop i p v ss = Inr r \<Longrightarrow> length r = length ss"
  by (induction ss arbitrary: i p v r) (auto simp: bindc_eq_Inr split: option.splits if_splits)

lemma escalation_loop_bounds:
  "escalation_loop i p v ss = Inr r \<Longrightarrow>
   \<forall>s \<in> set r. p < after_seconds s \<and> after_seconds s \<le> 86400 \<and> v \<le> escalation_severity (stage_action s)"
proof (induction ss arbitrary: i p v r)
  case (Cons s ss)
  then show ?case
    by (fastforce simp: bindc_eq_Inr split: option.splits if_splits)
qed simp

lemma escalation_loop_above:
  "escalation_loop i p v ss = Inr r \<Longrightarrow> x \<in> set r \<Longrightarrow>
   p < after_seconds x \<and> v \<le> escalation_severity (stage_action x)"
  using escalation_loop_bounds by blast

lemma escalation_loop_mono: "escalation_loop i p v ss = Inr r \<Longrightarrow> stages_mono r"
proof (induction ss arbitrary: i p v r)
  case (Cons s ss)
  then show ?case
    by (auto simp: bindc_eq_Inr stages_mono_def dest: escalation_loop_above split: option.splits if_splits)
qed (simp add: stages_mono_def)

lemma escalation_loop_hd: "escalation_loop 0 p v (s # ss) = Inr r \<Longrightarrow> after_seconds (hd r) = 0"
  by (auto simp: bindc_eq_Inr split: option.splits if_splits)

lemma resolve_escalation_ladder:
  assumes "resolve_escalation steps m = Inr ss"
  shows "ladder_ok ss"
proof (cases steps)
  case Nil
  then show ?thesis using assms
    by (auto simp: resolve_escalation_def ladder_ok_def stages_mono_def max_escalation_stages_def)
next
  case (Cons s rest)
  then have r: "escalation_loop 0 (- 1) (- 1) (s # rest) = Inr ss"
    and len: "length steps \<le> max_escalation_stages"
    using assms by (auto simp: resolve_escalation_def split: if_splits)
  have "length ss = length steps" using escalation_loop_length [OF r] Cons by simp
  moreover have "after_seconds (hd ss) = 0" using escalation_loop_hd [OF r] .
  ultimately show ?thesis
    using len Cons escalation_loop_bounds [OF r] escalation_loop_mono [OF r]
    by (fastforce simp: ladder_ok_def)
qed

section \<open>Communities and BGP attribute sets\<close>

definition parse_community :: "string \<Rightarrow> 32 word checked" where
  "parse_community s =
     (if CHR '':'' \<notin> set s then Inl (Bad ''community: form'')
      else let hi = takeWhile (\<lambda>c. c \<noteq> CHR '':'') s; lo = drop (Suc (length hi)) s in
        case parse_uint 16 hi of
          None \<Rightarrow> Inl (Bad ''community: ASN part'')
        | Some h \<Rightarrow> (case parse_uint 16 lo of
            None \<Rightarrow> Inl (Bad ''community: value part'')
          | Some l \<Rightarrow> Inr (or (push_bit 16 (of_nat h)) (of_nat l))))"

definition parse_communities :: "string list \<Rightarrow> (32 word list \<times> string) checked" where
  "parse_communities ss =
     (if ss = [] then Inl (Bad ''communities'')
      else bindc (map_checked parse_community ss) (\<lambda>vs. Inr (vs, join '' '' ss)))"

record resolved_bgp =
  rb_next_hop :: string
  rb_next_hop6 :: string
  rb_comm_str :: string
  rb_comms :: "32 word list"
  rb_local_pref :: "32 word"

definition bgp_defaults :: "bgp_cfg \<Rightarrow> resolved_bgp" where
  "bgp_defaults b = \<lparr> rb_next_hop = bgp_next_hop b, rb_next_hop6 = bgp_next_hop6 b,
     rb_comm_str = bgp_comm_str b, rb_comms = bgp_comms b, rb_local_pref = bgp_local_pref b \<rparr>"

definition scrub_defaults :: "scrubbing \<Rightarrow> resolved_bgp" where
  "scrub_defaults s = \<lparr> rb_next_hop = sc_next_hop s, rb_next_hop6 = sc_next_hop6 s,
     rb_comm_str = sc_comm_str s, rb_comms = sc_comms s, rb_local_pref = sc_local_pref s \<rparr>"

definition next_hop4_ok :: "string \<Rightarrow> bool" where
  "next_hop4_ok s = (case parse_addr s of None \<Rightarrow> False | Some a \<Rightarrow> is4 a)"

definition next_hop6_ok :: "string \<Rightarrow> bool" where
  "next_hop6_ok s = (case parse_addr s of None \<Rightarrow> False | Some a \<Rightarrow> is6 a \<and> \<not> is4in6 a)"

definition resolve_bgp_attrs :: "bgp_override option \<Rightarrow> resolved_bgp \<Rightarrow> resolved_bgp checked" where
  "resolve_bgp_attrs ov d = (case ov of None \<Rightarrow> Inr d | Some o' \<Rightarrow>
     bindc (check (ov_next_hop o' = [] \<or> next_hop4_ok (ov_next_hop o')) ''next_hop'') (\<lambda>_.
     bindc (check (ov_next_hop6 o' = [] \<or> next_hop6_ok (ov_next_hop6 o')) ''next_hop6'') (\<lambda>_.
     bindc (case ov_communities o' of
              None \<Rightarrow> Inr (rb_comms d, rb_comm_str d)
            | Some cs \<Rightarrow> if cs = [] then Inl (Bad ''communities'') else parse_communities cs) (\<lambda>(vs, str).
     Inr \<lparr> rb_next_hop = (if ov_next_hop o' = [] then rb_next_hop d else ov_next_hop o'),
           rb_next_hop6 = (if ov_next_hop6 o' = [] then rb_next_hop6 d else ov_next_hop6 o'),
           rb_comm_str = str, rb_comms = vs,
           rb_local_pref = (case ov_local_pref o' of None \<Rightarrow> rb_local_pref d | Some p \<Rightarrow> p) \<rparr>))))"

section \<open>Baselines, boundary rules, networks and ban limits\<close>

text \<open>\<open>exp2\<close> is \<^verbatim>\<open>math.Exp2\<close>.\<close>

definition resolve_baseline :: "(f64 \<Rightarrow> f64) \<Rightarrow> baseline_cfg option \<Rightarrow> baseline_settings option checked" where
  "resolve_baseline exp2 b = (case b of None \<Rightarrow> Inr None | Some x \<Rightarrow>
     if bl_enabled x = Some False then Inr None
     else
       let half = (if bl_half_life x = 0 then 3600 else bl_half_life x);
           factor = (if bl_factor x = Fin 0 then Fin 3 else bl_factor x);
           warm = (if bl_warmup x = 0 then 600 else bl_warmup x);
           fl = bl_floor x in
       if \<not> (fle (f64_of (3 / 2)) factor \<and> fle factor (Fin 100)) then Inl (Bad ''baseline.factor'')
       else if half < 10 \<or> 7 * 86400 < half then Inl (Bad ''baseline.half_life_seconds'')
       else if warm < 0 \<or> 86400 < warm then Inl (Bad ''baseline.warmup_seconds'')
       else if fl_pps fl = 0 \<or> fl_mbps fl = 0 \<or> fl_fps fl = 0 then Inl (Bad ''baseline.floor'')
       else Inr (Some \<lparr> bs_factor = factor,
              bs_alpha = fsub (Fin 1) (exp2 (fdiv (Fin (- 1)) (f64_of_int half))),
              bs_warmup = warm, bs_floor = fl \<rparr>))"

record exporter_boundary =
  eb_exporter :: string
  eb_external :: "32 word list"
  eb_excluded :: "32 word list"
  eb_egress :: bool

fun resolve_boundary_loop :: "(addr, boundary) table \<Rightarrow> exporter_boundary list \<Rightarrow> (addr, boundary) table checked" where
  "resolve_boundary_loop t [] = Inr t"
| "resolve_boundary_loop t (e # es) = (case parse_addr (eb_exporter e) of
     None \<Rightarrow> Inl (Bad ''sampling.boundary.exporter'')
   | Some a0 \<Rightarrow> let a = unmap a0 in
       if tget t a \<noteq> None then Inl (Bad ''sampling.boundary: duplicate exporter'')
       else if eb_external e = [] \<and> eb_excluded e = [] then Inl (Bad ''sampling.boundary: empty rule'')
       else if 0 \<in> set (eb_excluded e) then Inl (Bad ''sampling.boundary.excluded_vlans'')
       else resolve_boundary_loop (tput a \<lparr> bd_external = eb_external e,
              bd_excluded = eb_excluded e, bd_egress = eb_egress e \<rparr> t) es)"

definition resolve_boundary :: "exporter_boundary list \<Rightarrow> (addr, boundary) table checked" where
  "resolve_boundary es = resolve_boundary_loop [] es"

text \<open>The protected networks: masked, pairwise disjoint, tallied per family.\<close>

fun networks_loop :: "prefix list \<Rightarrow> f64 \<Rightarrow> f64 \<Rightarrow> string list \<Rightarrow> (prefix list \<times> f64 \<times> f64) checked" where
  "networks_loop ps n4 n6 [] = Inr (ps, n4, n6)"
| "networks_loop ps n4 n6 (s # ss) = (case parse_prefix s of
     None \<Rightarrow> Inl (Bad ''networks: CIDR'')
   | Some p0 \<Rightarrow> let p = pfx_masked p0 in
       if \<exists>q \<in> set ps. q = p \<or> pfx_overlaps q p then Inl (Bad ''networks: duplicate or overlap'')
       else if is4 (pfx_addr p)
         then networks_loop (ps @ [p]) (fadd n4 (ldexp1 (nat (32 - pfx_bits p)))) n6 ss
         else networks_loop (ps @ [p]) n4 (fadd n6 (ldexp1 (nat (128 - pfx_bits p)))) ss)"

definition validate_networks :: "config \<Rightarrow> config checked" where
  "validate_networks c = bindc (check (c_networks c \<noteq> []) ''networks'') (\<lambda>_.
     bindc (networks_loop [] (Fin 0) (Fin 0) (c_networks c)) (\<lambda>(ps, n4, n6).
     bindc (map_checked (\<lambda>s. case parse_addr s of None \<Rightarrow> Inl (Bad ''protected_whitelist'') | Some a \<Rightarrow> Inr a)
              (c_whitelist c)) (\<lambda>ws.
     Inr (c \<lparr> network_prefixes := ps, protected4 := n4, protected6 := n6, whitelist_addrs := ws \<rparr>))))"

definition validate_ban :: "ban_cfg \<Rightarrow> unit checked" where
  "validate_ban b =
     bindc (check (0 < ttl_seconds b) ''ban.ttl_seconds'') (\<lambda>_.
     bindc (check (0 \<le> unban_hysteresis_seconds b) ''ban.unban_hysteresis_seconds'') (\<lambda>_.
     bindc (check (0 < max_active_bans b) ''ban.max_active_bans'') (\<lambda>_.
     bindc (check (fallback_str b \<in> {[], ''none'', ''blackhole''}) ''ban.fallback'') (\<lambda>_.
     bindc (check (\<not> (flt (max_banned_fraction b) (Fin 0) \<or> flt (Fin 1) (max_banned_fraction b)))
              ''ban.max_banned_fraction'') (\<lambda>_.
     bindc (check (0 \<le> max_bans_per_window b) ''ban.max_bans_per_window'') (\<lambda>_.
     bindc (check (0 \<le> ban_window_seconds b) ''ban.ban_window_seconds'') (\<lambda>_.
     check (\<not> (0 < max_bans_per_window b \<and> ban_window_seconds b \<le> 0)) ''ban.ban_window_seconds: required'')))))))"

definition validate_carpet :: "config \<Rightarrow> config checked" where
  "validate_carpet c = (case c_carpet c of None \<Rightarrow> Inr c | Some cp \<Rightarrow>
     let v4 = (if cp_v4 cp = 0 then 24 else cp_v4 cp);
         v6 = (if cp_v6 cp = 0 then 48 else cp_v6 cp);
         mh = (if cp_min_hosts cp = 0 then 10 else cp_min_hosts cp);
         ma = (if cp_max_active cp = 0 then 10 else cp_max_active cp);
         m = carpet_method cp in
     bindc (check (8 \<le> v4 \<and> v4 \<le> 32) ''carpet.aggregation_prefix_v4'') (\<lambda>_.
     bindc (check (16 \<le> v6 \<and> v6 \<le> 128) ''carpet.aggregation_prefix_v6'') (\<lambda>_.
     bindc (check (2 \<le> mh) ''carpet.min_hosts'') (\<lambda>_.
     bindc (check (\<not> thresholds_zero (cp_thresholds cp)) ''carpet.thresholds'') (\<lambda>_.
     bindc (check (cp_mitigation cp = [] \<or> m \<noteq> NoMethod) ''carpet.mitigation'') (\<lambda>_.
     bindc (check (m \<noteq> MitigateDataplane \<or> c_dataplane c = Some True) ''carpet.mitigation: dataplane'') (\<lambda>_.
     bindc (check (1 \<le> ma) ''carpet.max_active_prefix_bans'') (\<lambda>_.
     Inr (c \<lparr> c_carpet := Some (cp \<lparr> cp_v4 := v4, cp_v6 := v6, cp_min_hosts := mh, cp_max_active := ma \<rparr>) \<rparr>)))))))))"

definition has_v6_networks :: "config \<Rightarrow> bool" where
  "has_v6_networks c \<longleftrightarrow> (\<exists>p \<in> set (network_prefixes c). is6 (pfx_addr p))"

definition has_node_target_for :: "scrubbing \<Rightarrow> string \<Rightarrow> bool \<Rightarrow> bool" where
  "has_node_target_for s g v6 \<longleftrightarrow> (\<exists>n \<in> set (sc_nodes s).
     (if v6 then sn_next_hop6 n \<noteq> [] else sn_next_hop n \<noteq> [])
     \<and> (sn_hostgroups n = [] \<or> g \<in> set (sn_hostgroups n)))"

definition validate_divert_target :: "string \<Rightarrow> resolved_bgp \<Rightarrow> scrubbing \<Rightarrow> bool \<Rightarrow> unit checked" where
  "validate_divert_target g rb s v6 =
     bindc (check (\<not> (rb_next_hop rb = [] \<and> \<not> has_node_target_for s g False)) ''divert: scrubbing.next_hop'') (\<lambda>_.
     check (\<not> (v6 \<and> rb_next_hop6 rb = [] \<and> \<not> has_node_target_for s g True)) ''divert: scrubbing.next_hop6'')"

definition require_dataplane :: "config \<Rightarrow> unit checked" where
  "require_dataplane c = check (c_dataplane c = Some True) ''dataplane: required''"

end
