(* ===== verification/Hostgroups.thy ===== *)
theory Hostgroups
  imports ConfigResolve
begin

text \<open>
  \<^verbatim>\<open>validateHostgroups\<close> of \<^verbatim>\<open>src/engine/internal/config/config.go\<close>: the global fallback group, each
  hostgroup resolved against it, and the routes that map an address to its group. The lemmas say
  what a resolved group guarantees to the mitigator (\<open>group_ok\<close>) and that the lookup is the
  longest prefix match.
\<close>

section \<open>Resolution\<close>

definition global_group_name :: string where "global_group_name = ''global''"

definition name_char :: "char \<Rightarrow> bool" where
  "name_char c = (let n = (of_char c :: nat) in
     (65 \<le> n \<and> n \<le> 90) \<or> (97 \<le> n \<and> n \<le> 122) \<or> (48 \<le> n \<and> n \<le> 57)
     \<or> c = CHR ''.'' \<or> c = CHR ''_'' \<or> c = CHR ''-'')"

definition group_name_ok :: "string \<Rightarrow> bool" where
  "group_name_ok s \<longleftrightarrow> 1 \<le> length s \<and> length s \<le> 64 \<and> list_all name_char s"

definition needs_rules :: "escalation_stage list \<Rightarrow> scrubbing \<Rightarrow> bool" where
  "needs_rules ss s \<longleftrightarrow> uses_flowspec ss \<or> uses_dataplane ss \<or> divert_generates_rules ss s"

definition steps_of :: "escalation_step list option \<Rightarrow> escalation_step list" where
  "steps_of o' = (case o' of None \<Rightarrow> [] | Some ss \<Rightarrow> ss)"

definition rules_policy ::
  "escalation_stage list \<Rightarrow> scrubbing \<Rightarrow> flowspec_cfg option \<Rightarrow> flowspec_cfg option
   \<Rightarrow> flowspec_action \<times> f64 \<Rightarrow> (flowspec_action \<times> f64) checked" where
  "rules_policy ss s flow def_flow ar =
     (if needs_rules ss s \<and> fst ar = FSNone then resolve_flowspec_policy flow def_flow else Inr ar)"

definition global_group :: "(f64 \<Rightarrow> f64) \<Rightarrow> config \<Rightarrow> group checked" where
  "global_group exp2 c =
     bindc (resolve_baseline exp2 (c_baseline c)) (\<lambda>bl.
     bindc (check (c_tenant c = [] \<or> group_name_ok (c_tenant c)) ''tenant'') (\<lambda>_.
     bindc (resolve_mitigation (c_mitigation c) (c_flowspec c) MitigateBlackhole None) (\<lambda>(m, act, rate).
     bindc (resolve_escalation (steps_of (c_escalation c)) m) (\<lambda>ss.
     bindc (rules_policy ss (c_scrubbing c) (c_flowspec c) None (act, rate)) (\<lambda>(act, rate).
     bindc (resolve_bgp_attrs None (bgp_defaults (c_bgp c))) (\<lambda>bh.
     bindc (resolve_bgp_attrs None (scrub_defaults (c_scrubbing c))) (\<lambda>sc.
     bindc (if uses_divert ss
            then validate_divert_target global_group_name sc (c_scrubbing c) (has_v6_networks c) else Inr ()) (\<lambda>_.
     bindc (if uses_dataplane ss then require_dataplane c else Inr ()) (\<lambda>_.
     bindc (resolve_source_anchor (c_flowspec c) None) (\<lambda>(anch, conc).
     Inr \<lparr> g_name = global_group_name, g_calc = CalcPerHost, g_networks = [],
           g_thresholds = c_thresholds c, g_out = c_out c, g_baseline = bl,
           g_mitigation = m, g_fs_action = act, g_fs_rate = rate,
           g_src_anchored = anch, g_min_conc = conc, g_escalation = ss,
           g_bh_next_hop = rb_next_hop bh, g_bh_next_hop6 = rb_next_hop6 bh, g_bh_comms = rb_comms bh,
           g_bh_comm_str = rb_comm_str bh, g_local_pref = rb_local_pref bh,
           g_scrub_next_hop = rb_next_hop sc, g_scrub_next_hop6 = rb_next_hop6 sc, g_scrub_comms = rb_comms sc,
           g_scrub_comm_str = rb_comm_str sc, g_scrub_local_pref = rb_local_pref sc,
           g_tenant = c_tenant c, g_ban_enabled = True \<rparr>))))))))))"

definition parse_calc :: "string \<Rightarrow> calc_method checked" where
  "parse_calc s = (if s = [] \<or> s = ''per_host'' then Inr CalcPerHost
     else if s = ''total'' then Inr CalcTotal else Inl (Bad ''calculation''))"

definition thresholds_ok :: "thresholds \<Rightarrow> bool" where
  "thresholds_ok t \<longleftrightarrow> th_pps t \<noteq> 0 \<and> th_mbps t \<noteq> 0 \<and> th_fps t \<noteq> 0"

text \<open>An inherited flowspec or divert rung of a total group degrades to a blackhole.\<close>

definition degrade_stage :: "escalation_stage \<Rightarrow> escalation_stage" where
  "degrade_stage s = (if stage_action s = EscalateFlowSpec \<or> stage_action s = EscalateDivert
                      then s \<lparr> stage_action := EscalateBlackhole \<rparr> else s)"

definition degrade_total :: "escalation_stage list \<Rightarrow> escalation_stage list" where
  "degrade_total ss = map degrade_stage ss"

text \<open>The method and ladder of one hostgroup, given its calculation.\<close>

definition group_method ::
  "config \<Rightarrow> group \<Rightarrow> hostgroup \<Rightarrow> calc_method \<Rightarrow> (mitigation_method \<times> flowspec_action \<times> f64) checked" where
  "group_method c gl hg calc =
     bindc (resolve_mitigation (hg_mitigation hg) (hg_flowspec hg) (g_mitigation gl) (c_flowspec c)) (\<lambda>(m, act, rate).
     if calc = CalcTotal \<and> m = MitigateFlowSpec
     then (if hg_mitigation hg = ''flowspec'' then Inl (Bad ''mitigation: flowspec with calculation total'')
           else Inr (MitigateBlackhole, FSNone, Fin 0))
     else Inr (m, act, rate))"

definition group_ladder ::
  "config \<Rightarrow> hostgroup \<Rightarrow> calc_method \<Rightarrow> mitigation_method \<Rightarrow> escalation_stage list checked" where
  "group_ladder c hg calc m =
     bindc (resolve_escalation
       (case hg_escalation hg of Some ss \<Rightarrow> ss | None \<Rightarrow> steps_of (c_escalation c)) m) (\<lambda>ss.
     if calc = CalcTotal \<and> (uses_flowspec ss \<or> uses_divert ss)
     then (if hg_escalation hg \<noteq> None then Inl (Bad ''escalation: flowspec/divert with calculation total'')
           else Inr (degrade_total ss))
     else Inr ss)"

text \<open>The prefixes of one hostgroup: each new, inside the networks, routed to the group's index.\<close>

fun group_networks_loop ::
  "prefix list \<Rightarrow> nat \<Rightarrow> prefix list \<Rightarrow> group_route list \<Rightarrow> bool \<Rightarrow> string list
   \<Rightarrow> (prefix list \<times> group_route list \<times> bool) checked" where
  "group_networks_loop nps idx seen rts v6 [] = Inr (seen, rts, v6)"
| "group_networks_loop nps idx seen rts v6 (s # ss) = (case parse_prefix s of
     None \<Rightarrow> Inl (Bad ''networks: CIDR'')
   | Some p0 \<Rightarrow> let p = pfx_masked p0 in
       if p \<in> set seen then Inl (Bad ''networks: prefix already belongs to a group'')
       else if \<not> (\<exists>np \<in> set nps. contains np (pfx_addr p) \<and> pfx_bits np \<le> pfx_bits p)
       then Inl (Bad ''networks: prefix not inside the protected networks'')
       else group_networks_loop nps idx (p # seen)
              (rts @ [\<lparr> rt_prefix = p, rt_group = idx \<rparr>]) (v6 \<or> is6 (pfx_addr p)) ss)"

record group_state =
  gs_groups :: "group list"
  gs_names :: "string list"
  gs_seen :: "prefix list"
  gs_routes :: "group_route list"

definition resolve_group :: "(f64 \<Rightarrow> f64) \<Rightarrow> config \<Rightarrow> group \<Rightarrow> hostgroup \<Rightarrow> group_state \<Rightarrow> group_state checked" where
  "resolve_group exp2 c gl hg st =
     bindc (check (hg_name hg \<noteq> []) ''name: required'') (\<lambda>_.
     bindc (check (group_name_ok (hg_name hg)) ''name: charset'') (\<lambda>_.
     bindc (check (hg_tenant hg = [] \<or> group_name_ok (hg_tenant hg)) ''tenant'') (\<lambda>_.
     bindc (check (hg_name hg \<noteq> global_group_name) ''name: reserved'') (\<lambda>_.
     bindc (check (hg_name hg \<notin> set (gs_names st)) ''name: duplicate'') (\<lambda>_.
     bindc (parse_calc (hg_calc hg)) (\<lambda>calc.
     bindc (check (\<not> (calc = CalcTotal \<and> hg_ban hg = Some True)) ''ban: true with calculation total'') (\<lambda>_.
     bindc (check (\<forall>t \<in> set_option (hg_thresholds hg). thresholds_ok t) ''thresholds'') (\<lambda>_.
     bindc (check (\<forall>t \<in> set_option (hg_thresholds_out hg). \<not> thresholds_zero t) ''thresholds_outgoing'') (\<lambda>_.
     bindc (case hg_baseline hg of None \<Rightarrow> Inr (g_baseline gl) | Some b \<Rightarrow> resolve_baseline exp2 (Some b)) (\<lambda>bl.
     bindc (group_method c gl hg calc) (\<lambda>(m, act, rate).
     bindc (group_ladder c hg calc m) (\<lambda>ss.
     bindc (rules_policy ss (c_scrubbing c) (hg_flowspec hg) (c_flowspec c) (act, rate)) (\<lambda>(act, rate).
     bindc (resolve_bgp_attrs (hg_bgp hg) (bgp_defaults (c_bgp c))) (\<lambda>bh.
     bindc (resolve_bgp_attrs (hg_scrubbing hg) (scrub_defaults (c_scrubbing c))) (\<lambda>sc.
     bindc (check (hg_networks hg \<noteq> []) ''networks: at least one'') (\<lambda>_.
     bindc (group_networks_loop (network_prefixes c) (length (gs_groups st)) (gs_seen st) (gs_routes st) False
              (hg_networks hg)) (\<lambda>(seen, rts, v6).
     bindc (if uses_divert ss then validate_divert_target (hg_name hg) sc (c_scrubbing c) v6 else Inr ()) (\<lambda>_.
     bindc (if uses_dataplane ss then require_dataplane c else Inr ()) (\<lambda>_.
     bindc (resolve_source_anchor (hg_flowspec hg) (c_flowspec c)) (\<lambda>(anch, conc).
     Inr \<lparr> gs_groups = gs_groups st @
             [\<lparr> g_name = hg_name hg, g_calc = calc, g_networks = hg_networks hg,
                g_thresholds = (case hg_thresholds hg of None \<Rightarrow> c_thresholds c | Some t \<Rightarrow> t),
                g_out = (case hg_thresholds_out hg of None \<Rightarrow> c_out c | Some t \<Rightarrow> Some t),
                g_baseline = bl, g_mitigation = m, g_fs_action = act, g_fs_rate = rate,
                g_src_anchored = anch, g_min_conc = conc, g_escalation = ss,
                g_bh_next_hop = rb_next_hop bh, g_bh_next_hop6 = rb_next_hop6 bh, g_bh_comms = rb_comms bh,
                g_bh_comm_str = rb_comm_str bh, g_local_pref = rb_local_pref bh,
                g_scrub_next_hop = rb_next_hop sc, g_scrub_next_hop6 = rb_next_hop6 sc,
                g_scrub_comms = rb_comms sc, g_scrub_comm_str = rb_comm_str sc,
                g_scrub_local_pref = rb_local_pref sc, g_tenant = hg_tenant hg,
                g_ban_enabled = (calc \<noteq> CalcTotal \<and> hg_ban hg \<noteq> Some False) \<rparr>],
           gs_names = hg_name hg # gs_names st, gs_seen = seen, gs_routes = rts \<rparr>))))))))))))))))))))"

fun resolve_groups :: "(f64 \<Rightarrow> f64) \<Rightarrow> config \<Rightarrow> group \<Rightarrow> hostgroup list \<Rightarrow> group_state \<Rightarrow> group_state checked" where
  "resolve_groups exp2 c gl [] st = Inr st"
| "resolve_groups exp2 c gl (hg # hgs) st =
     bindc (in_group (hg_name hg) (resolve_group exp2 c gl hg st)) (resolve_groups exp2 c gl hgs)"

definition validate_hostgroups :: "(f64 \<Rightarrow> f64) \<Rightarrow> config \<Rightarrow> config checked" where
  "validate_hostgroups exp2 c =
     bindc (global_group exp2 c) (\<lambda>gl.
     bindc (resolve_groups exp2 c gl (c_hostgroups c)
              \<lparr> gs_groups = [gl], gs_names = [], gs_seen = [], gs_routes = [] \<rparr>) (\<lambda>st.
     Inr (c \<lparr> c_groups := gs_groups st,
              outgoing_enabled := outgoing_enabled c \<or> (\<exists>g \<in> set (gs_groups st). g_out g \<noteq> None),
              group_routes := sort_key (\<lambda>r. - pfx_bits (rt_prefix r)) (gs_routes st) \<rparr>)))"

section \<open>What a resolved group guarantees\<close>

definition group_ok :: "config \<Rightarrow> group \<Rightarrow> bool" where
  "group_ok c g \<longleftrightarrow> ladder_ok (g_escalation g)
     \<and> (needs_rules (g_escalation g) (c_scrubbing c) \<longrightarrow> g_fs_action g \<noteq> FSNone)
     \<and> (g_calc g = CalcTotal \<longrightarrow> \<not> g_ban_enabled g)
     \<and> (uses_dataplane (g_escalation g) \<longrightarrow> c_dataplane c = Some True)
     \<and> (uses_divert (g_escalation g) \<longrightarrow>
          g_scrub_next_hop g \<noteq> [] \<or> has_node_target_for (c_scrubbing c) (g_name g) False)"

lemma flowspec_policy_action: "resolve_flowspec_policy f d = Inr (a, r) \<Longrightarrow> a \<noteq> FSNone"
  by (auto simp: resolve_flowspec_policy_def Let_def split: if_splits)

lemma rules_policy_action:
  "rules_policy ss s f d ar = Inr (a, r) \<Longrightarrow> needs_rules ss s \<Longrightarrow> a \<noteq> FSNone"
  by (cases ar) (auto simp: rules_policy_def dest: flowspec_policy_action split: if_splits)

lemma degrade_severity:
  "escalation_severity (stage_action a) \<le> escalation_severity (stage_action b) \<Longrightarrow>
   escalation_severity (stage_action (degrade_stage a)) \<le> escalation_severity (stage_action (degrade_stage b))"
  by (cases "stage_action a"; cases "stage_action b") (auto simp: degrade_stage_def)

lemma degrade_after [simp]: "after_seconds (degrade_stage s) = after_seconds s"
  by (simp add: degrade_stage_def)

lemma degrade_total_mono: "stages_mono ss \<Longrightarrow> stages_mono (degrade_total ss)"
  unfolding stages_mono_def degrade_total_def sorted_wrt_map
  by (erule sorted_wrt_mono_rel [rotated]) (auto intro: degrade_severity)

lemma degrade_total_ladder: "ladder_ok ss \<Longrightarrow> ladder_ok (degrade_total ss)"
  using degrade_total_mono [of ss]
  by (cases ss) (auto simp: ladder_ok_def degrade_total_def)

lemma group_ladder_ok: "group_ladder c hg calc m = Inr ss \<Longrightarrow> ladder_ok ss"
  by (auto simp: group_ladder_def bindc_eq_Inr split: if_splits
      dest: resolve_escalation_ladder intro: degrade_total_ladder)

lemma divert_target_ok:
  "validate_divert_target g rb s v6 = Inr u \<Longrightarrow> rb_next_hop rb \<noteq> [] \<or> has_node_target_for s g False"
  by (auto simp: validate_divert_target_def bindc_eq_Inr)

lemma global_group_ok:
  assumes "global_group exp2 c = Inr g"
  shows "group_ok c g"
  using assms
  by (auto simp: global_group_def bindc_eq_Inr group_ok_def require_dataplane_def
      dest: resolve_escalation_ladder rules_policy_action divert_target_ok split: if_splits)

text \<open>The routes of a group point at it; no other route appears.\<close>

lemma group_networks_routes:
  "group_networks_loop nps idx seen rts v6 ss = Inr (seen', rts', v6') \<Longrightarrow>
   \<exists>new. rts' = rts @ new \<and> (\<forall>r \<in> set new. rt_group r = idx)"
proof (induction ss arbitrary: seen rts v6)
  case (Cons s ss)
  then show ?case by (fastforce simp: Let_def split: option.splits if_splits)
qed simp

lemma resolve_group_step:
  assumes "resolve_group exp2 c gl hg st = Inr st'"
  shows "\<exists>g new. gs_groups st' = gs_groups st @ [g] \<and> group_ok c g
           \<and> gs_routes st' = gs_routes st @ new \<and> (\<forall>r \<in> set new. rt_group r = length (gs_groups st))"
  using assms
  by (auto simp: resolve_group_def bindc_eq_Inr group_ok_def require_dataplane_def
      dest: group_ladder_ok rules_policy_action divert_target_ok group_networks_routes split: if_splits)

definition groups_inv :: "config \<Rightarrow> group_state \<Rightarrow> bool" where
  "groups_inv c st \<longleftrightarrow> gs_groups st \<noteq> [] \<and> (\<forall>g \<in> set (gs_groups st). group_ok c g)
     \<and> (\<forall>r \<in> set (gs_routes st). 0 < rt_group r \<and> rt_group r < length (gs_groups st))"

lemma resolve_groups_inv:
  "resolve_groups exp2 c gl hgs st = Inr st' \<Longrightarrow> groups_inv c st \<Longrightarrow> groups_inv c st'"
proof (induction hgs arbitrary: st)
  case (Cons hg hgs)
  then obtain st1 where st1: "resolve_group exp2 c gl hg st = Inr st1"
    and rest: "resolve_groups exp2 c gl hgs st1 = Inr st'"
    by (auto simp: bindc_eq_Inr)
  obtain g new where "gs_groups st1 = gs_groups st @ [g]" "group_ok c g"
    "gs_routes st1 = gs_routes st @ new" "\<forall>r \<in> set new. rt_group r = length (gs_groups st)"
    using resolve_group_step [OF st1] by blast
  then have "groups_inv c st1" using Cons.prems(2) by (fastforce simp: groups_inv_def)
  then show ?case using Cons.IH [OF rest] by simp
qed simp

section \<open>The group lookup is the longest prefix match\<close>

lemma first_route_longest:
  assumes "sorted (map (\<lambda>r. - pfx_bits (rt_prefix r)) rs)" "\<exists>r \<in> set rs. contains (rt_prefix r) a"
  shows "\<exists>r \<in> set rs. first_route rs a = rt_group r \<and> contains (rt_prefix r) a
           \<and> (\<forall>q \<in> set rs. contains (rt_prefix q) a \<longrightarrow> pfx_bits (rt_prefix q) \<le> pfx_bits (rt_prefix r))"
  using assms
proof (induction rs)
  case (Cons r rs)
  show ?case
  proof (cases "contains (rt_prefix r) a")
    case True
    then show ?thesis using Cons.prems(1) by fastforce
  next
    case False
    then show ?thesis using Cons by fastforce
  qed
qed simp

lemma first_route_none: "\<forall>r \<in> set rs. \<not> contains (rt_prefix r) a \<Longrightarrow> first_route rs a = 0"
  by (induction rs) auto

lemma first_route_range:
  "\<forall>r \<in> set rs. rt_group r < n \<Longrightarrow> 0 < n \<Longrightarrow> first_route rs a < n"
  by (induction rs) auto

definition config_ok :: "config \<Rightarrow> bool" where
  "config_ok c \<longleftrightarrow> c_groups c \<noteq> [] \<and> (\<forall>g \<in> set (c_groups c). group_ok c g)
     \<and> (\<forall>r \<in> set (group_routes c). rt_group r < length (c_groups c))
     \<and> sorted (map (\<lambda>r. - pfx_bits (rt_prefix r)) (group_routes c))"

lemma validate_hostgroups_ok:
  assumes "validate_hostgroups exp2 c = Inr c'"
  shows "config_ok c'"
proof -
  obtain gl st where gl: "global_group exp2 c = Inr gl"
    and st: "resolve_groups exp2 c gl (c_hostgroups c)
      \<lparr> gs_groups = [gl], gs_names = [], gs_seen = [], gs_routes = [] \<rparr> = Inr st"
    and c': "c' = c \<lparr> c_groups := gs_groups st,
              outgoing_enabled := outgoing_enabled c \<or> (\<exists>g \<in> set (gs_groups st). g_out g \<noteq> None),
              group_routes := sort_key (\<lambda>r. - pfx_bits (rt_prefix r)) (gs_routes st) \<rparr>"
    using assms by (auto simp: validate_hostgroups_def bindc_eq_Inr)
  have "groups_inv c st"
    using resolve_groups_inv [OF st] global_group_ok [OF gl] by (simp add: groups_inv_def)
  then show ?thesis unfolding c' by (auto simp: config_ok_def groups_inv_def group_ok_def)
qed

lemma group_for_ok: "config_ok c \<Longrightarrow> group_for c a \<in> set (c_groups c) \<and> group_ok c (group_for c a)"
  using first_route_range [of "group_routes c" "length (c_groups c)" a]
  by (auto simp: config_ok_def group_for_def group_index_for_def)

end
