(* ===== verification/Events.thy ===== *)
theory Events
  imports Config
begin

text \<open>
  The vocabulary shared by detection and mitigation: flow records (\<^verbatim>\<open>src/engine/internal/flow/flow.go\<close>),
  directions, metrics, rates, attack vectors, samples and lifecycle events
  (\<^verbatim>\<open>src/engine/internal/engine/events.go\<close>, \<^verbatim>\<open>classify.go\<close>, \<^verbatim>\<open>sample.go\<close>).
\<close>

datatype wire_proto = ProtoUnknown | ProtoSFlow5 | ProtoNetFlow5 | ProtoNetFlow9 | ProtoIPFIX

fun aggregates_flows :: "wire_proto \<Rightarrow> bool" where
  "aggregates_flows ProtoNetFlow5 = True"
| "aggregates_flows ProtoNetFlow9 = True"
| "aggregates_flows ProtoIPFIX = True"
| "aggregates_flows ProtoSFlow5 = False"
| "aggregates_flows ProtoUnknown = False"

record flow =
  f_src :: addr
  f_dst :: addr
  f_exporter :: addr
  f_bytes :: "64 word"
  f_packets :: "64 word"
  f_rate :: "64 word"
  f_in_if :: "32 word"
  f_out_if :: "32 word"
  f_src_vlan :: "32 word"
  f_dst_vlan :: "32 word"
  f_src_mac :: "48 word"
  f_dst_mac :: "48 word"
  f_src_port :: "16 word"
  f_dst_port :: "16 word"
  f_proto :: "8 word"
  f_tcp_flags :: "8 word"
  f_fragment :: bool
  f_wire :: wire_proto

datatype direction = DirUnset | DirIncoming | DirOutgoing

definition dir_in :: nat where "dir_in = 0"
definition dir_out :: nat where "dir_out = 1"

definition dir_name :: "nat \<Rightarrow> direction" where
  "dir_name d = (if d = dir_out then DirOutgoing else DirIncoming)"

definition dir_index :: "direction \<Rightarrow> nat" where
  "dir_index d = (if d = DirOutgoing then dir_out else dir_in)"

datatype metric = MetricNone | MetricPPS | MetricMbps | MetricFPS | MetricTCPPPS | MetricTCPMbps
  | MetricUDPPPS | MetricUDPMbps | MetricICMPPPS | MetricICMPMbps | MetricSYNPPS | MetricSYNMbps
  | MetricFragPPS | MetricFragMbps

record rates =
  rt_pps :: f64
  rt_mbps :: f64
  rt_fps :: f64
  rt_tcp_pps :: f64
  rt_tcp_mbps :: f64
  rt_udp_pps :: f64
  rt_udp_mbps :: f64
  rt_icmp_pps :: f64
  rt_icmp_mbps :: f64
  rt_syn_pps :: f64
  rt_syn_mbps :: f64
  rt_frag_pps :: f64
  rt_frag_mbps :: f64

definition rates_zero :: rates where
  "rates_zero = \<lparr> rt_pps = Fin 0, rt_mbps = Fin 0, rt_fps = Fin 0, rt_tcp_pps = Fin 0, rt_tcp_mbps = Fin 0,
     rt_udp_pps = Fin 0, rt_udp_mbps = Fin 0, rt_icmp_pps = Fin 0, rt_icmp_mbps = Fin 0, rt_syn_pps = Fin 0,
     rt_syn_mbps = Fin 0, rt_frag_pps = Fin 0, rt_frag_mbps = Fin 0 \<rparr>"

datatype attack_type = AttackNone | AttackNTP | AttackDNS | AttackCLDAP | AttackMemcached | AttackSSDP
  | AttackChargen | AttackSYNFlood | AttackFragmentFlood | AttackICMPFlood | AttackUDPFlood
  | AttackTCPFlood | AttackMixed

record classification =
  cl_type :: attack_type
  cl_confidence :: f64
  cl_src_port :: "16 word"

record counter =
  ct_key :: string
  ct_packets :: "64 word"
  ct_bytes :: "64 word"

text \<open>A captured flow as an event carries it: raw counters, rendered addresses, source attribution.\<close>

record sample_flow =
  sf_src :: string
  sf_dst :: string
  sf_src_port :: "16 word"
  sf_dst_port :: "16 word"
  sf_proto :: string
  sf_tcp_flags :: "8 word"
  sf_fragment :: bool
  sf_bytes :: "64 word"
  sf_packets :: "64 word"
  sf_rate :: "64 word"
  sf_exporter :: string
  sf_in_if :: "32 word"
  sf_out_if :: "32 word"
  sf_src_vlan :: "32 word"
  sf_dst_vlan :: "32 word"
  sf_asn :: "32 word"
  sf_org :: string
  sf_country :: string

record peer_mac =
  pm_mac :: string
  pm_ips :: "string list"
  pm_packets :: "64 word"
  pm_bytes :: "64 word"

record peer_member =
  pe_member :: string
  pe_packets :: "64 word"
  pe_bytes :: "64 word"
  pe_unknown_packets :: "64 word"
  pe_unknown_bytes :: "64 word"
  pe_other_packets :: "64 word"
  pe_other_bytes :: "64 word"
  pe_macs :: "peer_mac list"

record attack_sample =
  sm_flows :: "sample_flow list"
  sm_sources :: "counter list"
  sm_src_ports :: "counter list"
  sm_dst_ports :: "counter list"
  sm_protocols :: "counter list"
  sm_asns :: "counter list"
  sm_upstreams :: "counter list"
  sm_open :: "peer_member list"
  sm_total :: "64 word"

text \<open>Why a detection fired.\<close>

record reason_baseline =
  rb_normal :: f64
  rb_factor :: f64
  rb_floor :: f64
  rb_ceiling :: f64

record protocol_shares =
  ps_udp :: f64
  ps_syn :: f64
  ps_tcp :: f64
  ps_icmp :: f64
  ps_frag :: f64

record reason =
  rs_source :: string
  rs_baseline :: "reason_baseline option"
  rs_configured :: bool
  rs_warming :: bool
  rs_remaining :: int
  rs_shares :: protocol_shares
  rs_gate :: f64

datatype scope = ScopeHost | ScopeGroup | ScopePrefix

datatype event_kind = AttackStarted | AttackEnded | AttackOngoing

record event =
  ev_kind :: event_kind
  ev_id :: string
  ev_scope :: scope
  ev_target :: addr
  ev_prefix :: string
  ev_hosts :: int
  ev_direction :: direction
  ev_group :: string
  ev_ban_enabled :: bool
  ev_metric :: metric
  ev_rate :: f64
  ev_threshold :: f64
  ev_rates :: rates
  ev_peak :: rates
  ev_at :: nanos
  ev_started :: nanos
  ev_sample :: "attack_sample option"
  ev_class :: "classification option"
  ev_reason :: "reason option"

end
