(* ===== verification/FlowRules.thy ===== *)
theory FlowRules
  imports Events
begin

text \<open>
  The FlowSpec rule set generated for an attack (\<^verbatim>\<open>src/engine/internal/mitigate/flowspec.go\<close>), its
  rendering, and the packets a rule selects at a FlowSpec peer (RFC 8955 components as the code
  emits them). The lemmas: a rule set has one to eight rules, each anchored on the victim and
  carrying the configured action, so no rule can touch another host's traffic.
\<close>

definition max_rules_per_attack :: nat where "max_rules_per_attack = 8"

record flowspec_rule =
  r_dst :: prefix
  r_src :: prefix
  r_proto :: "8 word"
  r_src_port :: "16 word"
  r_dst_port :: "16 word"
  r_tcp_flags :: "8 word"
  r_fragment :: bool
  r_action :: flowspec_action
  r_rate :: f64

section \<open>Rendering\<close>

definition fs_proto_name :: "8 word \<Rightarrow> string" where
  "fs_proto_name p = (if p = 1 then ''icmp'' else if p = 6 then ''tcp'' else if p = 17 then ''udp''
     else if p = 58 then ''icmpv6'' else ''proto/'' @ dec (unat p))"

text \<open>\<^verbatim>\<open>%.0f\<close>: the nearest integer, ties to even.\<close>

fun fmt_f0 :: "f64 \<Rightarrow> string" where
  "fmt_f0 NaN = ''NaN''"
| "fmt_f0 PosInf = ''+Inf''"
| "fmt_f0 NegInf = ''-Inf''"
| "fmt_f0 (Fin q) = (if q < 0 then ''-'' @ dec (nat (rhe (- q))) else dec (nat (rhe q)))"

definition hex2 :: "8 word \<Rightarrow> string" where
  "hex2 w = (if unat w < 16 then ''0'' @ hex (unat w) else hex (unat w))"

definition rule_string :: "flowspec_rule \<Rightarrow> string" where
  "rule_string r =
     (let d = (if pfx_valid (r_dst r) then ''dst '' @ pfx_string (r_dst r) else []);
          s = (if pfx_valid (r_src r) then (if d \<noteq> [] then '' '' else []) @ ''src '' @ pfx_string (r_src r) else [])
      in d @ s
         @ (if r_proto r \<noteq> 0 then '' '' @ fs_proto_name (r_proto r) else [])
         @ (if r_src_port r \<noteq> 0 then '' src-port '' @ dec (unat (r_src_port r)) else [])
         @ (if r_dst_port r \<noteq> 0 then '' dst-port '' @ dec (unat (r_dst_port r)) else [])
         @ (if r_tcp_flags r \<noteq> 0 then '' tcp-flags 0x'' @ hex2 (r_tcp_flags r) else [])
         @ (if r_fragment r then '' fragment'' else [])
         @ (if r_action r = FSRateLimit then '' -> rate-limit '' @ fmt_f0 (r_rate r) @ '' bytes/s''
            else '' -> discard''))"

section \<open>Generation\<close>

definition tcp_syn :: "8 word" where "tcp_syn = 0x02"

definition reflected_port :: "attack_type \<Rightarrow> 16 word option" where
  "reflected_port t = (case t of
     AttackNTP \<Rightarrow> Some 123 | AttackDNS \<Rightarrow> Some 53 | AttackCLDAP \<Rightarrow> Some 389
   | AttackMemcached \<Rightarrow> Some 11211 | AttackSSDP \<Rightarrow> Some 1900 | AttackChargen \<Rightarrow> Some 19 | _ \<Rightarrow> None)"

definition is_amplification :: "attack_type \<Rightarrow> bool" where
  "is_amplification t \<longleftrightarrow> reflected_port t \<noteq> None"

definition host_prefix :: "addr \<Rightarrow> prefix" where
  "host_prefix a = prefix_from a (if is4 a then 32 else 128)"

definition known_reflectors :: "16 word list" where
  "known_reflectors = [123, 53, 389, 11211, 1900, 19]"

text \<open>\<^verbatim>\<open>fmt.Sscanf(key, "%d", &p)\<close> into a 16-bit word: leading blanks, digits, then anything.\<close>

definition scan_u16 :: "string \<Rightarrow> 16 word option" where
  "scan_u16 s = map_option of_nat
     (parse_uint 16 (takeWhile (\<lambda>c. dig_val c \<noteq> None) (dropWhile (\<lambda>c. c = CHR '' '') s)))"

definition dominant_udp_ports :: "attack_sample option \<Rightarrow> 16 word list" where
  "dominant_udp_ports sample = (case sample of None \<Rightarrow> []
     | Some s \<Rightarrow> List.map_filter (\<lambda>c. case scan_u16 (ct_key c) of
          Some p \<Rightarrow> if p \<in> set known_reflectors then Some p else None | None \<Rightarrow> None) (sm_src_ports s))"

definition add_rule :: "flowspec_rule list \<Rightarrow> flowspec_rule \<Rightarrow> flowspec_rule list" where
  "add_rule rules r = (if max_rules_per_attack \<le> length rules then rules else rules @ [r])"

definition narrowed_rules ::
  "flowspec_rule \<Rightarrow> bool \<Rightarrow> classification option \<Rightarrow> attack_sample option \<Rightarrow> flowspec_rule list" where
  "narrowed_rules base six cls sample =
     (let typ = (case cls of None \<Rightarrow> AttackNone | Some c \<Rightarrow> cl_type c) in
      if is_amplification typ then
        add_rule [] (base \<lparr> r_proto := 17, r_src_port := the (reflected_port typ) \<rparr>)
      else if typ = AttackSYNFlood then add_rule [] (base \<lparr> r_proto := 6, r_tcp_flags := tcp_syn \<rparr>)
      else if typ = AttackFragmentFlood then add_rule [] (base \<lparr> r_fragment := True \<rparr>)
      else if typ = AttackICMPFlood then add_rule [] (base \<lparr> r_proto := (if six then 58 else 1) \<rparr>)
      else if typ = AttackUDPFlood then add_rule [] (base \<lparr> r_proto := 17 \<rparr>)
      else if typ = AttackTCPFlood then add_rule [] (base \<lparr> r_proto := 6 \<rparr>)
      else foldl (\<lambda>rs p. add_rule rs (base \<lparr> r_proto := 17, r_src_port := p \<rparr>))
             (add_rule [] base) (dominant_udp_ports sample))"

definition anchor_rule :: "prefix \<Rightarrow> prefix \<Rightarrow> flowspec_action \<Rightarrow> f64 \<Rightarrow> flowspec_rule" where
  "anchor_rule d s act rate = \<lparr> r_dst = d, r_src = s, r_proto = 0, r_src_port = 0, r_dst_port = 0,
     r_tcp_flags = 0, r_fragment = False, r_action = act, r_rate = rate \<rparr>"

text \<open>The loop over the top sources: the rules so far and the packets they cover.\<close>

fun source_loop :: "addr \<Rightarrow> 64 word \<Rightarrow> flowspec_action \<Rightarrow> f64 \<Rightarrow> f64 \<Rightarrow> flowspec_rule list \<Rightarrow> 64 word
    \<Rightarrow> counter list \<Rightarrow> flowspec_rule list option" where
  "source_loop target tot act rate conc rules covered [] = None"
| "source_loop target tot act rate conc rules covered (c # cs) =
     (if max_rules_per_attack \<le> length rules then None
      else case parse_addr (ct_key c) of
        None \<Rightarrow> source_loop target tot act rate conc rules covered cs
      | Some src \<Rightarrow>
          if \<not> addr_valid src \<or> is4 src \<noteq> is4 target
          then source_loop target tot act rate conc rules covered cs
          else let rules' = rules @ [anchor_rule (host_prefix target) (host_prefix src) act rate];
                   covered' = covered + ct_packets c in
            if fle conc (fdiv (f64_of_u64 covered') (f64_of_u64 tot)) then Some rules'
            else source_loop target tot act rate conc rules' covered' cs)"

definition source_anchored_rules ::
  "addr \<Rightarrow> attack_sample option \<Rightarrow> flowspec_action \<Rightarrow> f64 \<Rightarrow> f64 \<Rightarrow> flowspec_rule list option" where
  "source_anchored_rules target sample act rate conc = (case sample of None \<Rightarrow> None
     | Some s \<Rightarrow> if sm_total s = 0 \<or> sm_sources s = [] then None
         else source_loop target (sm_total s) act rate conc [] 0 (sm_sources s))"

definition generate_rules ::
  "addr \<Rightarrow> direction \<Rightarrow> classification option \<Rightarrow> attack_sample option \<Rightarrow> flowspec_action \<Rightarrow> f64
   \<Rightarrow> bool \<Rightarrow> f64 \<Rightarrow> flowspec_rule list" where
  "generate_rules target dir cls sample act rate anchored conc =
     (if \<not> addr_valid target then []
      else case (if anchored \<and> dir \<noteq> DirOutgoing then source_anchored_rules target sample act rate conc else None) of
        Some rs \<Rightarrow> rs
      | None \<Rightarrow> narrowed_rules
          (if dir = DirOutgoing then anchor_rule prefix_none (host_prefix target) act rate
           else anchor_rule (host_prefix target) prefix_none act rate) (is6 target) cls sample)"

definition generate_carpet_rules ::
  "prefix \<Rightarrow> classification option \<Rightarrow> attack_sample option \<Rightarrow> flowspec_action \<Rightarrow> f64 \<Rightarrow> flowspec_rule list" where
  "generate_carpet_rules p cls sample act rate =
     (if \<not> pfx_valid p then [] else narrowed_rules (anchor_rule p prefix_none act rate) (is6 (pfx_addr p)) cls sample)"

section \<open>The packets a rule selects\<close>

text \<open>
  A packet as the kernel program sees it. \<open>pk_ports\<close> is \<open>None\<close> when there is no transport header
  (a non-first fragment); the kernel then holds zero ports and flags.
\<close>

record packet =
  pk_src :: addr
  pk_dst :: addr
  pk_proto :: "8 word"
  pk_ports :: "(16 word \<times> 16 word) option"
  pk_tcp_flags :: "8 word"
  pk_frag :: bool
  pk_tls :: bool
  pk_quic :: bool

text \<open>RFC 8955: every component present must match; an absent component (a zero field) matches anything.\<close>

definition fs_selects :: "flowspec_rule \<Rightarrow> packet \<Rightarrow> bool" where
  "fs_selects r p \<longleftrightarrow>
     (pfx_valid (r_dst r) \<longrightarrow> contains (r_dst r) (pk_dst p)) \<and>
     (pfx_valid (r_src r) \<longrightarrow> contains (r_src r) (pk_src p)) \<and>
     (r_proto r \<noteq> 0 \<longrightarrow> pk_proto p = r_proto r) \<and>
     (r_src_port r \<noteq> 0 \<longrightarrow> (\<exists>q. pk_ports p = Some (r_src_port r, q))) \<and>
     (r_dst_port r \<noteq> 0 \<longrightarrow> (\<exists>q. pk_ports p = Some (q, r_dst_port r))) \<and>
     (r_tcp_flags r \<noteq> 0 \<longrightarrow> pk_proto p = 6 \<and> pk_ports p \<noteq> None \<and>
        and (pk_tcp_flags p) (r_tcp_flags r) = r_tcp_flags r) \<and>
     (r_fragment r \<longrightarrow> pk_frag p)"

section \<open>Laws\<close>

text \<open>A rule that keeps the anchor, the action and the rate of \<open>base\<close>.\<close>

definition refines_base :: "flowspec_rule \<Rightarrow> flowspec_rule \<Rightarrow> bool" where
  "refines_base base r \<longleftrightarrow> r_dst r = r_dst base \<and> r_src r = r_src base
     \<and> r_action r = r_action base \<and> r_rate r = r_rate base"

lemma add_rule_base: "list_all (refines_base b) rs \<Longrightarrow> refines_base b r \<Longrightarrow> list_all (refines_base b) (add_rule rs r)"
  by (simp add: add_rule_def)

lemma foldl_add_rule:
  assumes "\<And>x. refines_base b (f x)" "list_all (refines_base b) rs" "rs \<noteq> []" "length rs \<le> max_rules_per_attack"
  shows "list_all (refines_base b) (foldl (\<lambda>rs x. add_rule rs (f x)) rs xs)
    \<and> foldl (\<lambda>rs x. add_rule rs (f x)) rs xs \<noteq> []
    \<and> length (foldl (\<lambda>rs x. add_rule rs (f x)) rs xs) \<le> max_rules_per_attack"
  using assms(2-) by (induction xs arbitrary: rs) (auto simp: add_rule_def assms(1))

lemma refines_base_upd [simp]:
  "refines_base b b" "refines_base b (b \<lparr> r_proto := x \<rparr>)" "refines_base b (b \<lparr> r_fragment := f \<rparr>)"
  "refines_base b (b \<lparr> r_proto := x, r_src_port := y \<rparr>)" "refines_base b (b \<lparr> r_proto := x, r_tcp_flags := z \<rparr>)"
  by (simp_all add: refines_base_def)

lemma add_rule_Nil [simp]: "add_rule [] r = [r]"
  by (simp add: add_rule_def max_rules_per_attack_def)

definition rule_set_ok :: "flowspec_rule \<Rightarrow> flowspec_rule list \<Rightarrow> bool" where
  "rule_set_ok b rs \<longleftrightarrow> list_all (refines_base b) rs \<and> rs \<noteq> [] \<and> length rs \<le> max_rules_per_attack"

lemma rule_set_ok_single: "refines_base b r \<Longrightarrow> rule_set_ok b [r]"
  by (simp add: rule_set_ok_def max_rules_per_attack_def)

lemma rule_set_ok_foldl:
  "(\<And>x. refines_base b (f x)) \<Longrightarrow> rule_set_ok b rs \<Longrightarrow> rule_set_ok b (foldl (\<lambda>rs x. add_rule rs (f x)) rs xs)"
  unfolding rule_set_ok_def using foldl_add_rule [of b f rs xs] by blast

lemma narrowed_rules_ok: "rule_set_ok base (narrowed_rules base six cls sample)"
  unfolding narrowed_rules_def Let_def add_rule_Nil
  by (simp add: rule_set_ok_single rule_set_ok_foldl)

definition anchored_set :: "addr \<Rightarrow> flowspec_action \<Rightarrow> f64 \<Rightarrow> flowspec_rule list \<Rightarrow> bool" where
  "anchored_set target act rate rs \<longleftrightarrow> length rs \<le> max_rules_per_attack
     \<and> (\<forall>r \<in> set rs. r_dst r = host_prefix target \<and> r_action r = act \<and> r_rate r = rate)"

lemma anchored_set_snoc:
  "anchored_set target act rate rs \<Longrightarrow> length rs < max_rules_per_attack \<Longrightarrow>
   anchored_set target act rate (rs @ [anchor_rule (host_prefix target) s act rate])"
  by (auto simp: anchored_set_def anchor_rule_def)

lemma source_loop_ok:
  "source_loop target tot act rate conc rules covered cs = Some rs \<Longrightarrow>
   anchored_set target act rate rules \<Longrightarrow> rs \<noteq> [] \<and> anchored_set target act rate rs"
proof (induction cs arbitrary: rules covered)
  case (Cons c cs)
  have room: "length rules < max_rules_per_attack"
    using Cons.prems(1) by (simp split: if_splits)
  show ?case
    using Cons.prems anchored_set_snoc [OF Cons.prems(2) room]
    by (simp add: Let_def split: option.splits if_splits) (metis Cons.IH append_is_Nil_conv not_Cons_self2)+
qed simp

lemma host_prefix_valid: "addr_valid a \<Longrightarrow> pfx_valid (host_prefix a)"
  by (cases a) (auto simp: host_prefix_def prefix_from_def pfx_valid_def)

lemma contains_host_prefix:
  "addr_valid a \<Longrightarrow> \<not> has_zone b \<Longrightarrow> contains (host_prefix a) b \<longleftrightarrow> b = without_zone a"
  using contains_host [of a b] by (simp add: host_prefix_def host_bits_def)

text \<open>Whatever a generated rule selects is traffic of the victim, in the attack's direction.\<close>

lemma generate_rules_ok:
  assumes "addr_valid target"
  shows "generate_rules target dir cls sample act rate anchored conc \<noteq> []
    \<and> length (generate_rules target dir cls sample act rate anchored conc) \<le> max_rules_per_attack
    \<and> (\<forall>r \<in> set (generate_rules target dir cls sample act rate anchored conc).
         (if dir = DirOutgoing then r_src r else r_dst r) = host_prefix target
         \<and> r_action r = act \<and> r_rate r = rate)"
proof (cases "if anchored \<and> dir \<noteq> DirOutgoing then source_anchored_rules target sample act rate conc else None")
  case None
  let ?b = "if dir = DirOutgoing then anchor_rule prefix_none (host_prefix target) act rate
            else anchor_rule (host_prefix target) prefix_none act rate"
  show ?thesis
    using narrowed_rules_ok [of ?b "is6 target" cls sample] assms None
    by (auto simp: generate_rules_def rule_set_ok_def list_all_iff refines_base_def anchor_rule_def)
next
  case (Some rs)
  then have d: "dir \<noteq> DirOutgoing" and rs: "source_anchored_rules target sample act rate conc = Some rs"
    by (auto split: if_splits)
  then obtain tot cs where "source_loop target tot act rate conc [] 0 cs = Some rs"
    by (auto simp: source_anchored_rules_def split: option.splits if_splits)
  from source_loop_ok [OF this] show ?thesis
    using assms Some d by (simp add: generate_rules_def anchored_set_def)
qed

lemma fs_selects_anchor:
  "fs_selects r p \<Longrightarrow> (pfx_valid (r_dst r) \<longrightarrow> contains (r_dst r) (pk_dst p))
     \<and> (pfx_valid (r_src r) \<longrightarrow> contains (r_src r) (pk_src p))"
  by (simp add: fs_selects_def)

end
