(* ===== verification/KernelRule.thy ===== *)
theory KernelRule
  imports FlowRules
begin

unbundle bit_operations_syntax

text \<open>
  The in-kernel form of a rule: \<^verbatim>\<open>RuleSpec.Encode\<close> (\<^verbatim>\<open>src/engine/internal/dataplane/encode.go\<close>), the
  compiler from FlowSpec rules (\<^verbatim>\<open>src/engine/internal/mitigate/dpencode.go\<close>) and the branchless matcher of
  \<^verbatim>\<open>src/engine/bpf/kapkan_xdp.c\<close>, kept at the width of its words. Two backends read one rule; the
  result at the end is that they select the same packets.

  A 16-byte address slot is a 128-bit word in network order. The C code XORs raw (unswapped) words
  and ANDs a byte-swapped mask; a byte swap permutes bits, so the test for zero is the one here.
\<close>

section \<open>Encoding\<close>

definition rules_per_policy :: nat where "rules_per_policy = 8"

definition act_pass :: "8 word" where "act_pass = 0"
definition act_drop :: "8 word" where "act_drop = 1"
definition act_rate_limit :: "8 word" where "act_rate_limit = 2"

definition known_match_ext :: "8 word" where "known_match_ext = 1 OR 2"

record rule_spec =
  sp_id :: "32 word"
  sp_action :: "8 word"
  sp_profile :: "32 word"
  sp_expires :: "64 word"
  sp_ttl :: int
  sp_src :: prefix
  sp_dst :: prefix
  sp_proto :: "8 word option"
  sp_src_port :: "16 word option"
  sp_dst_port :: "16 word option"
  sp_tcp_flags :: "8 word"
  sp_tcp_mask :: "8 word"
  sp_fragment :: bool
  sp_match_ext :: "8 word"
  sp_ipv6 :: bool

definition match_tcp_flags :: "rule_spec \<Rightarrow> 8 word \<Rightarrow> rule_spec" where
  "match_tcp_flags s v = s \<lparr> sp_tcp_flags := v, sp_tcp_mask := v \<rparr>"

definition match_tcp_flags_exact :: "rule_spec \<Rightarrow> 8 word \<Rightarrow> rule_spec" where
  "match_tcp_flags_exact s v = s \<lparr> sp_tcp_flags := v, sp_tcp_mask := 0xFF \<rparr>"

record krule =
  k_expires :: "64 word"
  k_id :: "32 word"
  k_profile :: "32 word"
  k_src :: "128 word"
  k_dst :: "128 word"
  k_src_len :: "8 word"
  k_dst_len :: "8 word"
  k_action :: "8 word"
  k_proto :: "8 word"
  k_tcp_flags :: "8 word"
  k_tcp_mask :: "8 word"
  k_flags :: "8 word"
  k_match_ext :: "8 word"
  k_sport :: "16 word"
  k_dport :: "16 word"

definition krule_zero :: krule where
  "krule_zero = \<lparr> k_expires = 0, k_id = 0, k_profile = 0, k_src = 0, k_dst = 0, k_src_len = 0, k_dst_len = 0,
     k_action = 0, k_proto = 0, k_tcp_flags = 0, k_tcp_mask = 0, k_flags = 0, k_match_ext = 0,
     k_sport = 0, k_dport = 0 \<rparr>"

text \<open>An address in its slot: IPv4 left-aligned.\<close>

fun addr_slot :: "addr \<Rightarrow> 128 word" where
  "addr_slot AddrNone = 0"
| "addr_slot (V4 w) = push_bit 96 (ucast w)"
| "addr_slot (V6 w z) = w"

definition copy_prefix :: "prefix \<Rightarrow> 128 word" where
  "copy_prefix p = addr_slot (pfx_addr (pfx_masked p))"

datatype encode_error = UnknownAction | FlagsOutsideMask | UnknownMatchExt | MappedPrefix | MixedFamilies | WrongFamily

text \<open>The loop over the two prefixes: the family so far, or the reason to refuse.\<close>

fun family_loop :: "bool option \<Rightarrow> prefix list \<Rightarrow> encode_error + bool option" where
  "family_loop fam [] = Inr fam"
| "family_loop fam (p # ps) =
     (if \<not> pfx_valid p then family_loop fam ps
      else if is4in6 (pfx_addr p) then Inl MappedPrefix
      else if fam \<noteq> None \<and> fam \<noteq> Some (is6 (pfx_addr p)) then Inl MixedFamilies
      else family_loop (Some (is6 (pfx_addr p))) ps)"

definition clear_if :: "bool \<Rightarrow> 8 word \<Rightarrow> 8 word \<Rightarrow> 8 word" where
  "clear_if b m w = (if b then w AND NOT m else w)"

definition set_if :: "bool \<Rightarrow> 8 word \<Rightarrow> 8 word \<Rightarrow> 8 word" where
  "set_if b m w = (if b then w OR m else w)"

definition spec_flags :: "rule_spec \<Rightarrow> bool \<Rightarrow> 8 word" where
  "spec_flags s v6 =
     clear_if (sp_dst_port s \<noteq> None) 32 (clear_if (sp_src_port s \<noteq> None) 16 (clear_if (sp_proto s \<noteq> None) 8
       (clear_if (pfx_valid (sp_dst s)) 4 (clear_if (pfx_valid (sp_src s)) 2
         (set_if (sp_fragment s) 64 (set_if v6 128 (1 OR 2 OR 4 OR 8 OR 16 OR 32)))))))"

definition encode :: "rule_spec \<Rightarrow> encode_error + krule" where
  "encode s =
     (if sp_action s \<notin> {act_pass, act_drop, act_rate_limit} then Inl UnknownAction
      else if sp_tcp_flags s AND NOT (sp_tcp_mask s) \<noteq> 0 then Inl FlagsOutsideMask
      else if sp_match_ext s AND NOT known_match_ext \<noteq> 0 then Inl UnknownMatchExt
      else case family_loop None [sp_src s, sp_dst s] of
        Inl e \<Rightarrow> Inl e
      | Inr fam \<Rightarrow>
          if fam \<noteq> None \<and> fam \<noteq> Some (sp_ipv6 s) then Inl WrongFamily
          else Inr \<lparr> k_expires = sp_expires s, k_id = sp_id s, k_profile = sp_profile s,
                 k_src = (if pfx_valid (sp_src s) then copy_prefix (sp_src s) else 0),
                 k_dst = (if pfx_valid (sp_dst s) then copy_prefix (sp_dst s) else 0),
                 k_src_len = (if pfx_valid (sp_src s) then word_of_int (pfx_bits (sp_src s)) else 0),
                 k_dst_len = (if pfx_valid (sp_dst s) then word_of_int (pfx_bits (sp_dst s)) else 0),
                 k_action = sp_action s,
                 k_proto = (case sp_proto s of Some x \<Rightarrow> x | None \<Rightarrow> 0),
                 k_tcp_flags = sp_tcp_flags s, k_tcp_mask = sp_tcp_mask s,
                 k_flags = spec_flags s (sp_ipv6 s), k_match_ext = sp_match_ext s,
                 k_sport = (case sp_src_port s of Some x \<Rightarrow> x | None \<Rightarrow> 0),
                 k_dport = (case sp_dst_port s of Some x \<Rightarrow> x | None \<Rightarrow> 0) \<rparr>)"

fun encode_rules :: "rule_spec list \<Rightarrow> encode_error + krule list" where
  "encode_rules [] = Inr []"
| "encode_rules (s # ss) = (case encode s of Inl e \<Rightarrow> Inl e | Inr r \<Rightarrow>
     (case encode_rules ss of Inl e \<Rightarrow> Inl e | Inr rs \<Rightarrow> Inr (r # rs)))"

definition dynamic_rule_id :: "32 word \<Rightarrow> 32 word \<Rightarrow> 32 word" where
  "dynamic_rule_id policy i = policy * 8 + i"

definition static_rule_id_base :: "32 word" where "static_rule_id_base = push_bit 31 1"

definition max_policy_id :: "32 word" where "max_policy_id = static_rule_id_base div 8 - 1"

section \<open>The compiler from FlowSpec rules\<close>

datatype dp_error = DpNoRules | DpTooMany | DpNoAnchor | DpRateNotFinite | DpRateRange | DpUnknownAction | DpMixedRates

record dynamic_rules =
  dr_specs :: "rule_spec list"
  dr_rate :: "64 word"
  dr_ttl :: int

definition max_u64 :: f64 where "max_u64 = Fin (2 ^ 64)"

definition dataplane_action :: "flowspec_rule \<Rightarrow> dp_error + (8 word \<times> 64 word)" where
  "dataplane_action r = (case r_action r of
     FSDiscard \<Rightarrow> Inr (act_drop, 0)
   | FSRateLimit \<Rightarrow>
       if is_nan (r_rate r) \<or> is_inf (r_rate r) then Inl DpRateNotFinite
       else if fle (r_rate r) (Fin 0) then Inr (act_drop, 0)
       else if fle max_u64 (r_rate r) then Inl DpRateRange
       else Inr (act_rate_limit, u64_of_f64 (r_rate r))
   | FSNone \<Rightarrow> Inl DpUnknownAction)"

definition some_nonzero :: "'a::zero \<Rightarrow> 'a option" where
  "some_nonzero x = (if x \<noteq> 0 then Some x else None)"

definition dataplane_rule :: "flowspec_rule \<Rightarrow> dp_error + (rule_spec \<times> 64 word)" where
  "dataplane_rule r =
     (if \<not> pfx_valid (r_dst r) \<and> \<not> pfx_valid (r_src r) then Inl DpNoAnchor
      else case dataplane_action r of
        Inl e \<Rightarrow> Inl e
      | Inr (act, rate) \<Rightarrow>
          let anchor = (if pfx_valid (r_dst r) then r_dst r else r_src r);
              spec = \<lparr> sp_id = 0, sp_action = act, sp_profile = 0, sp_expires = 0, sp_ttl = 0,
                       sp_src = r_src r, sp_dst = r_dst r, sp_proto = some_nonzero (r_proto r),
                       sp_src_port = some_nonzero (r_src_port r), sp_dst_port = some_nonzero (r_dst_port r),
                       sp_tcp_flags = 0, sp_tcp_mask = 0, sp_fragment = r_fragment r, sp_match_ext = 0,
                       sp_ipv6 = is6 (pfx_addr anchor) \<rparr>
          in Inr (if r_tcp_flags r \<noteq> 0 then match_tcp_flags spec (r_tcp_flags r) else spec, rate))"

fun dataplane_rules_loop :: "64 word option \<Rightarrow> flowspec_rule list \<Rightarrow> dp_error + (rule_spec list \<times> 64 word option)" where
  "dataplane_rules_loop rate [] = Inr ([], rate)"
| "dataplane_rules_loop rate (r # rs) = (case dataplane_rule r of
     Inl e \<Rightarrow> Inl e
   | Inr (spec, b) \<Rightarrow>
       if rate \<noteq> None \<and> rate \<noteq> Some b then Inl DpMixedRates
       else (case dataplane_rules_loop (Some b) rs of Inl e \<Rightarrow> Inl e
             | Inr (specs, b') \<Rightarrow> Inr (spec # specs, b')))"

definition dataplane_rules :: "flowspec_rule list \<Rightarrow> int \<Rightarrow> dp_error + dynamic_rules" where
  "dataplane_rules rules ttl =
     (if rules = [] then Inl DpNoRules
      else if rules_per_policy < length rules then Inl DpTooMany
      else case dataplane_rules_loop None rules of
        Inl e \<Rightarrow> Inl e
      | Inr (specs, rate) \<Rightarrow>
          Inr \<lparr> dr_specs = specs, dr_rate = (case rate of None \<Rightarrow> 0 | Some b \<Rightarrow> b), dr_ttl = ttl \<rparr>)"

section \<open>The kernel's matcher\<close>

record kpacket =
  kp_src :: "128 word"
  kp_dst :: "128 word"
  kp_len :: "64 word"
  kp_now :: "64 word"
  kp_sport :: "16 word"
  kp_dport :: "16 word"
  kp_proto :: "8 word"
  kp_tcp_flags :: "8 word"
  kp_v6 :: bool
  kp_frag :: bool
  kp_have_ports :: bool
  kp_tls :: bool
  kp_quic :: bool

definition pfx_bad_v4 :: "128 word \<Rightarrow> 128 word \<Rightarrow> 32 word \<Rightarrow> 32 word" where
  "pfx_bad_v4 a p bits =
     (let b = (if 32 < bits then 32 else bits);
          m = ucast (push_bit (unat (32 - b)) (NOT 0 :: 64 word) AND 0xFFFFFFFF) :: 32 word
      in (ucast (drop_bit 96 a) XOR ucast (drop_bit 96 p)) AND m)"

definition pfx_bad_v6 :: "128 word \<Rightarrow> 128 word \<Rightarrow> 32 word \<Rightarrow> 64 word" where
  "pfx_bad_v6 a p bits =
     (let b = (if 128 < bits then 128 else bits);
          mhi = (if 64 \<le> b then NOT 0 else push_bit 1 (push_bit (unat (63 - b)) (NOT 0)));
          lo = b - 64;
          mlo = (if 64 \<le> b then (if 64 \<le> lo then NOT 0 else push_bit 1 (push_bit (unat (63 - lo)) (NOT 0))) else 0)
      in ((ucast (drop_bit 64 a) XOR ucast (drop_bit 64 p)) AND mhi) OR ((ucast a XOR ucast p) AND mlo))"

definition test_mask :: "32 word \<Rightarrow> nat \<Rightarrow> 64 word" where
  "test_mask f sh = ucast (drop_bit sh f AND 1) - 1"

text \<open>The accumulator of mismatching bits, term by term.\<close>

definition match_bad :: "krule \<Rightarrow> kpacket \<Rightarrow> 64 word" where
  "match_bad r p =
     (let f = ucast (k_flags r) :: 32 word; tfm = ucast (k_tcp_mask r) :: 32 word;
          v6 = of_bool (kp_v6 p) :: 32 word; noports = of_bool (kp_have_ports p) XOR 1 :: 32 word;
          nz = drop_bit 8 (tfm + 0xFF);
          b1 = ucast ((f AND 1) XOR 1);
          b2 = ucast ((drop_bit 7 f AND 1) XOR v6);
          b3 = ucast ((drop_bit 6 f AND 1) AND (of_bool (kp_frag p) XOR 1));
          b4 = ucast ((ucast (k_match_ext r AND 1) :: 32 word) AND (of_bool (kp_tls p) XOR 1));
          b5 = ucast ((drop_bit 1 (ucast (k_match_ext r)) AND 1 :: 32 word) AND (of_bool (kp_quic p) XOR 1));
          b6 = ucast ((ucast (k_proto r) :: 32 word) XOR ucast (kp_proto p)) AND test_mask f 3;
          b7 = ucast (((ucast (k_sport r) :: 32 word) XOR ucast (kp_sport p)) OR noports) AND test_mask f 4;
          b8 = ucast (((ucast (k_dport r) :: 32 word) XOR ucast (kp_dport p)) OR noports) AND test_mask f 5;
          b9 = ucast (((ucast (kp_tcp_flags p) AND tfm) XOR ucast (k_tcp_flags r))
                 OR ((ucast (kp_proto p) :: 32 word) XOR 6) OR noports) AND (0 - ucast nz);
          b10 = (if kp_v6 p then pfx_bad_v6 (kp_src p) (k_src r) (ucast (k_src_len r))
                 else ucast (pfx_bad_v4 (kp_src p) (k_src r) (ucast (k_src_len r)))) AND test_mask f 1;
          b11 = (if kp_v6 p then pfx_bad_v6 (kp_dst p) (k_dst r) (ucast (k_dst_len r))
                 else ucast (pfx_bad_v4 (kp_dst p) (k_dst r) (ucast (k_dst_len r)))) AND test_mask f 2
      in b1 OR b2 OR b3 OR b4 OR b5 OR b6 OR b7 OR b8 OR b9 OR b10 OR b11)"

definition rule_match :: "krule \<Rightarrow> kpacket \<Rightarrow> bool" where
  "rule_match r p \<longleftrightarrow> match_bad r p = 0"

definition rule_expired :: "krule \<Rightarrow> 64 word \<Rightarrow> bool" where
  "rule_expired r now \<longleftrightarrow> k_expires r \<noteq> 0 \<and> k_expires r \<le> now"

text \<open>The packet the parser hands to the matcher.\<close>

definition kernel_packet :: "packet \<Rightarrow> kpacket" where
  "kernel_packet p = \<lparr> kp_src = addr_slot (pk_src p), kp_dst = addr_slot (pk_dst p), kp_len = 0, kp_now = 0,
     kp_sport = (case pk_ports p of None \<Rightarrow> 0 | Some (s, _) \<Rightarrow> s),
     kp_dport = (case pk_ports p of None \<Rightarrow> 0 | Some (_, d) \<Rightarrow> d),
     kp_proto = pk_proto p, kp_tcp_flags = pk_tcp_flags p, kp_v6 = is6 (pk_src p), kp_frag = pk_frag p,
     kp_have_ports = (pk_ports p \<noteq> None), kp_tls = pk_tls p, kp_quic = pk_quic p \<rparr>"

end
