(* ===== verification/KernelSelect.thy ===== *)
theory KernelSelect
  imports KernelRule
begin

text \<open>
  The branchless matcher of \<^verbatim>\<open>kapkan_xdp.c\<close> is a conjunction of field tests, a rule encoded from a
  spec selects what the spec says, and a spec compiled from a FlowSpec rule selects what the FlowSpec
  rule selects at a peer.
\<close>

section \<open>Bits of words\<close>

lemma test_mask_bit: "test_mask f sh = (if bit f sh then 0 else - 1)"
  by (simp add: test_mask_def and_one_eq bit_iff_odd_drop_bit mod2_eq_if)

lemma or_eq_0: "(x :: 'a::len word) OR y = 0 \<longleftrightarrow> x = 0 \<and> y = 0"
  by (auto simp: or_eq_0_iff)

lemma drop_bit_eq_iff_bits:
  "drop_bit n (x :: 'a::len word) = drop_bit n y \<longleftrightarrow> (\<forall>i. n \<le> i \<longrightarrow> bit x i = bit y i)"
proof
  assume e: "drop_bit n x = drop_bit n y"
  show "\<forall>i. n \<le> i \<longrightarrow> bit x i = bit y i"
  proof (intro allI impI)
    fix i assume "n \<le> i"
    then obtain j where "i = n + j" using le_Suc_ex by blast
    moreover have "bit (drop_bit n x) j = bit (drop_bit n y) j" using e by simp
    ultimately show "bit x i = bit y i" by (simp add: bit_simps)
  qed
next
  assume "\<forall>i. n \<le> i \<longrightarrow> bit x i = bit y i"
  then show "drop_bit n x = drop_bit n y"
    by (intro bit_word_eqI) (simp add: bit_simps)
qed

lemma xor_and_eq_0:
  "((x :: 'a::len word) XOR y) AND m = 0 \<longleftrightarrow> (\<forall>i. bit m i \<longrightarrow> bit x i = bit y i)"
proof
  assume "(x XOR y) AND m = 0"
  then have "bit ((x XOR y) AND m) i = False" for i by simp
  then show "\<forall>i. bit m i \<longrightarrow> bit x i = bit y i"
    by (auto simp: bit_simps dest: bit_imp_le_length) 
next
  assume "\<forall>i. bit m i \<longrightarrow> bit x i = bit y i"
  then show "(x XOR y) AND m = 0" by (intro bit_word_eqI) (auto simp: bit_simps)
qed

lemma mask32: "(0xFFFFFFFF :: 64 word) = mask 32"
  by (simp add: mask_eq_exp_minus_1)

lemma unat_of_nat32: "b \<le> 128 \<Longrightarrow> unat (of_nat b :: 32 word) = b"
  by (simp add: unat_of_nat)

lemma pfx_bad_v4_iff:
  assumes "b \<le> 32"
  shows "pfx_bad_v4 a p (of_nat b) = 0 \<longleftrightarrow> drop_bit (32 - b) (ucast (drop_bit 96 a) :: 32 word) = drop_bit (32 - b) (ucast (drop_bit 96 p))"
proof -
  have 1: "\<not> (32 :: 32 word) < of_nat b" using assms by (simp add: word_less_nat_alt unat_of_nat32)
  have 2: "unat (32 - of_nat b :: 32 word) = 32 - b"
    using assms by (subst unat_sub) (simp_all add: word_le_nat_alt unat_of_nat32)
  have 3: "bit (ucast (push_bit (32 - b) (NOT 0 :: 64 word) AND 0xFFFFFFFF) :: 32 word) i \<longleftrightarrow> 32 - b \<le> i \<and> i < 32" for i
    unfolding mask32 by (auto simp: bit_simps)
  show ?thesis
    unfolding pfx_bad_v4_def Let_def if_not_P [OF 1] 2 xor_and_eq_0 3 drop_bit_eq_iff_bits
    by (auto simp: bit_simps)
qed

lemma bit_push2: "bit (push_bit 1 (push_bit k (NOT 0 :: 64 word))) i \<longleftrightarrow> Suc k \<le> i \<and> i < 64"
  unfolding push_bit_push_bit by (auto simp: bit_simps)

lemma pfx_bad_v6_iff:
  assumes "b \<le> 128"
  shows "pfx_bad_v6 a p (of_nat b) = 0 \<longleftrightarrow> drop_bit (128 - b) a = drop_bit (128 - b) p"
proof -
  have c: "\<not> (128 :: 32 word) < of_nat b" using assms by (simp add: word_less_nat_alt unat_of_nat32)
  have u: "unat (of_nat b :: 32 word) = b" using assms by (rule unat_of_nat32)
  have ge: "(64 :: 32 word) \<le> of_nat b \<longleftrightarrow> 64 \<le> b" by (simp add: word_le_nat_alt u)
  have hi: "bit (if (64::32 word) \<le> of_nat b then NOT 0 else push_bit 1 (push_bit (unat (63 - of_nat b :: 32 word)) (NOT 0)) :: 64 word) i
      \<longleftrightarrow> 64 - b \<le> i \<and> i < 64" for i
  proof (cases "64 \<le> b")
    case False
    then have "unat (63 - of_nat b :: 32 word) = 63 - b"
      by (subst unat_sub) (simp_all add: word_le_nat_alt u)
    then show ?thesis using False unfolding ge if_not_P [OF False] by (simp only: bit_push2) auto
  qed (auto simp: ge bit_simps)
  have lo: "bit (if (64::32 word) \<le> of_nat b then (if (64::32 word) \<le> of_nat b - 64 then NOT 0
        else push_bit 1 (push_bit (unat (63 - (of_nat b - 64) :: 32 word)) (NOT 0))) else 0 :: 64 word) i
      \<longleftrightarrow> 64 \<le> b \<and> 128 - b \<le> i \<and> i < 64" for i
  proof (cases "64 \<le> b")
    case True
    have s: "unat (of_nat b - 64 :: 32 word) = b - 64"
      using True by (subst unat_sub) (simp_all add: word_le_nat_alt u)
    show ?thesis
    proof (cases "b = 128")
      case True then show ?thesis by (auto simp: bit_simps)
    next
      case False
      then have l: "\<not> (64::32 word) \<le> of_nat b - 64" using assms by (simp add: word_le_nat_alt s)
      have "unat (63 - (of_nat b - 64) :: 32 word) = 63 - (b - 64)"
        using False assms by (subst unat_sub) (simp_all add: word_le_nat_alt s)
      then show ?thesis using True False assms unfolding ge if_P [OF True] if_not_P [OF l]
        by (simp only: bit_push2) auto
    qed
  qed (auto simp: ge)
  let ?H = "\<forall>i. 64 - b \<le> i \<and> i < 64 \<longrightarrow> bit a (64 + i) = bit p (64 + i)"
  let ?L = "\<forall>i. 64 \<le> b \<and> 128 - b \<le> i \<and> i < 64 \<longrightarrow> bit a i = bit p i"
  have "pfx_bad_v6 a p (of_nat b) = 0 \<longleftrightarrow> ?H \<and> ?L"
    unfolding pfx_bad_v6_def Let_def if_not_P [OF c] or_eq_0 xor_and_eq_0 hi lo
    by (auto simp: bit_simps)
  also have "\<dots> \<longleftrightarrow> (\<forall>i. 128 - b \<le> i \<longrightarrow> bit a i = bit p i)"
  proof
    assume h: "?H \<and> ?L"
    show "\<forall>i. 128 - b \<le> i \<longrightarrow> bit a i = bit p i"
    proof (rule allI, rule impI)
      fix i assume i: "128 - b \<le> i"
      consider "i < 64" | "64 \<le> i" "i < 128" | "128 \<le> i" by linarith
      then show "bit a i = bit p i"
      proof cases
        case 1
        then show ?thesis using h i assms by auto
      next
        case 2
        then have "64 - b \<le> i - 64 \<and> i - 64 < 64" "64 + (i - 64) = i" using i by auto
        then show ?thesis using h by metis
      qed (auto dest: bit_imp_le_length)
    qed
  qed (use assms in auto)
  finally show ?thesis unfolding drop_bit_eq_iff_bits .
qed

section \<open>The matcher as a predicate\<close>

lemma low_bit: "(drop_bit n (x :: 32 word) AND 1) = of_bool (bit x n)"
  by (simp add: and_one_eq bit_iff_odd_drop_bit mod2_eq_if)

lemma low_bit0: "((x :: 32 word) AND 1) = of_bool (bit x 0)"
  using low_bit [of 0 x] by simp

lemma ucast_up_eq_0:
  "LENGTH('a) \<le> LENGTH('b) \<Longrightarrow> (ucast (x :: 'a::len word) :: 'b::len word) = 0 \<longleftrightarrow> x = 0"
proof
  assume le: "LENGTH('a) \<le> LENGTH('b)" and z: "(ucast x :: 'b word) = 0"
  show "x = 0"
  proof (rule bit_word_eqI)
    fix n assume "n < LENGTH('a)"
    moreover have "bit (ucast x :: 'b word) n = False" using z by simp
    ultimately show "bit x n = bit 0 n" using le by (simp add: bit_simps)
  qed
qed simp

lemma xor_eq_0: "(x :: 'a::len word) XOR y = 0 \<longleftrightarrow> x = y"
  using xor_and_eq_0 [of x y "- 1"] by (auto intro: bit_word_eqI simp: bit_simps)

lemma xor_ucast_eq_0:
  "LENGTH('a) \<le> LENGTH('b) \<Longrightarrow> (ucast (x :: 'a::len word) :: 'b::len word) XOR ucast y = 0 \<longleftrightarrow> x = y"
  by (simp add: ucast_up_eq_0 xor_eq_0 flip: unsigned_xor_eq)

lemma and_test_mask: "x AND test_mask f sh = 0 \<longleftrightarrow> bit f sh \<or> x = 0"
  by (simp add: test_mask_bit)

lemma bit_ucast8: "n < 8 \<Longrightarrow> bit (ucast (w :: 8 word) :: 32 word) n = bit w n"
  by (simp add: bit_simps)

lemma mask_nonzero_term:
  fixes m :: "8 word"
  shows "(0 - ucast (drop_bit 8 ((ucast m :: 32 word) + 0xFF)) :: 64 word) = (if m = 0 then 0 else - 1)"
proof -
  have m: "unat m < 256" using unsigned_less [of m] by simp
  have u: "unat ((ucast m :: 32 word) + 0xFF) = unat m + 255"
    using m by (simp add: unat_word_ariths unsigned_ucast_eq take_bit_nat_eq_self)
  have "unat (drop_bit 8 ((ucast m :: 32 word) + 0xFF)) = (unat m + 255) div 256"
    unfolding unsigned_drop_bit_eq u using m by (simp add: drop_bit_eq_div take_bit_nat_eq_self)
  also have "\<dots> = (if m = 0 then 0 else 1)"
  proof (cases "m = 0")
    case False
    then have "1 \<le> unat m" using unat_gt_0 [of m] by simp
    then show ?thesis using m False by (auto intro!: div_nat_eqI)
  qed simp
  finally have "drop_bit 8 ((ucast m :: 32 word) + 0xFF) = (if m = 0 then 0 else 1)"
    unfolding word_unat_eq_iff by simp
  then show ?thesis by simp
qed

text \<open>The matcher without its arithmetic: one conjunct per field.\<close>

definition pfx_slot_ok :: "bool \<Rightarrow> 128 word \<Rightarrow> 128 word \<Rightarrow> nat \<Rightarrow> bool" where
  "pfx_slot_ok v6 a p b \<longleftrightarrow>
     (if v6 then drop_bit (128 - b) a = drop_bit (128 - b) p
      else drop_bit (32 - b) (ucast (drop_bit 96 a) :: 32 word) = drop_bit (32 - b) (ucast (drop_bit 96 p)))"

lemma pfx_bad_v4_clamp: "32 < b \<Longrightarrow> b < 256 \<Longrightarrow> pfx_bad_v4 a p (of_nat b) = pfx_bad_v4 a p (of_nat 32)"
  by (simp add: pfx_bad_v4_def word_less_nat_alt unat_of_nat)

lemma pfx_bad_v6_clamp: "128 < b \<Longrightarrow> b < 256 \<Longrightarrow> pfx_bad_v6 a p (of_nat b) = pfx_bad_v6 a p (of_nat 128)"
  by (simp add: pfx_bad_v6_def word_less_nat_alt unat_of_nat)

lemma pfx_term:
  "(if v6 then pfx_bad_v6 a p (ucast l) else ucast (pfx_bad_v4 a p (ucast l))) = 0
     \<longleftrightarrow> pfx_slot_ok v6 a p (unat (l :: 8 word))"
proof -
  have l: "(ucast l :: 32 word) = of_nat (unat l)" by simp
  have b: "unat l < 256" using unsigned_less [of l] by simp
  have 4: "pfx_bad_v4 a p (ucast l) = 0 \<longleftrightarrow> drop_bit (32 - unat l) (ucast (drop_bit 96 a) :: 32 word)
      = drop_bit (32 - unat l) (ucast (drop_bit 96 p))"
    unfolding l using pfx_bad_v4_iff [of "unat l" a p] pfx_bad_v4_clamp [of "unat l" a p] b
      pfx_bad_v4_iff [of 32 a p]
    by (cases "unat l \<le> 32") (simp_all only: not_le diff_is_0_eq' less_imp_le order_refl)
  have 6: "pfx_bad_v6 a p (ucast l) = 0 \<longleftrightarrow> drop_bit (128 - unat l) a = drop_bit (128 - unat l) p"
    unfolding l using pfx_bad_v6_iff [of "unat l" a p] pfx_bad_v6_clamp [of "unat l" a p] b
      pfx_bad_v6_iff [of 128 a p]
    by (cases "unat l \<le> 128") (simp_all only: not_le diff_is_0_eq' less_imp_le order_refl)
  show ?thesis
    unfolding pfx_slot_ok_def by (cases v6) (simp_all add: 4 6 ucast_up_eq_0)
qed

lemma rule_match_iff:
  "rule_match r p \<longleftrightarrow>
     bit (k_flags r) 0 \<and> (bit (k_flags r) 7 \<longleftrightarrow> kp_v6 p) \<and> (bit (k_flags r) 6 \<longrightarrow> kp_frag p)
     \<and> (bit (k_match_ext r) 0 \<longrightarrow> kp_tls p) \<and> (bit (k_match_ext r) 1 \<longrightarrow> kp_quic p)
     \<and> (bit (k_flags r) 3 \<or> k_proto r = kp_proto p)
     \<and> (bit (k_flags r) 4 \<or> kp_have_ports p \<and> k_sport r = kp_sport p)
     \<and> (bit (k_flags r) 5 \<or> kp_have_ports p \<and> k_dport r = kp_dport p)
     \<and> (k_tcp_mask r = 0 \<or> kp_tcp_flags p AND k_tcp_mask r = k_tcp_flags r \<and> kp_proto p = 6 \<and> kp_have_ports p)
     \<and> (bit (k_flags r) 1 \<or> pfx_slot_ok (kp_v6 p) (kp_src p) (k_src r) (unat (k_src_len r)))
     \<and> (bit (k_flags r) 2 \<or> pfx_slot_ok (kp_v6 p) (kp_dst p) (k_dst r) (unat (k_dst_len r)))"
proof -
  let ?f = "ucast (k_flags r) :: 32 word"
  have f: "bit ?f n = bit (k_flags r) n" if "n < 8" for n using that by (rule bit_ucast8)
  have t1: "(ucast ((?f AND 1) XOR 1) :: 64 word) = 0 \<longleftrightarrow> bit (k_flags r) 0"
    by (simp add: ucast_up_eq_0 low_bit0 f)
  have t2: "(ucast ((drop_bit 7 ?f AND 1) XOR of_bool (kp_v6 p)) :: 64 word) = 0 \<longleftrightarrow> (bit (k_flags r) 7 \<longleftrightarrow> kp_v6 p)"
    by (simp add: ucast_up_eq_0 low_bit f xor_eq_0)
  have t3: "(ucast ((drop_bit 6 ?f AND 1) AND (of_bool (kp_frag p) XOR 1)) :: 64 word) = 0 \<longleftrightarrow> (bit (k_flags r) 6 \<longrightarrow> kp_frag p)"
    by (simp add: ucast_up_eq_0 low_bit f)
  have e: "(ucast (k_match_ext r AND 1) :: 32 word) = ucast (k_match_ext r) AND 1"
    by (simp add: unsigned_and_eq)
  have t4: "(ucast ((ucast (k_match_ext r AND 1) :: 32 word) AND (of_bool (kp_tls p) XOR 1)) :: 64 word) = 0
      \<longleftrightarrow> (bit (k_match_ext r) 0 \<longrightarrow> kp_tls p)"
    unfolding e by (simp add: ucast_up_eq_0 low_bit0 bit_ucast8)
  have t5: "(ucast ((drop_bit 1 (ucast (k_match_ext r)) AND 1 :: 32 word) AND (of_bool (kp_quic p) XOR 1)) :: 64 word) = 0
      \<longleftrightarrow> (bit (k_match_ext r) 1 \<longrightarrow> kp_quic p)"
    by (simp add: ucast_up_eq_0 low_bit bit_ucast8)
  have np: "(of_bool (kp_have_ports p) XOR 1 :: 32 word) = 0 \<longleftrightarrow> kp_have_ports p"
    by simp
  have t9: "(ucast (((ucast (kp_tcp_flags p) AND ucast (k_tcp_mask r)) XOR ucast (k_tcp_flags r))
        OR ((ucast (kp_proto p) :: 32 word) XOR 6) OR (of_bool (kp_have_ports p) XOR 1)) :: 64 word) = 0
      \<longleftrightarrow> kp_tcp_flags p AND k_tcp_mask r = k_tcp_flags r \<and> kp_proto p = 6 \<and> kp_have_ports p"
    using xor_ucast_eq_0 [where 'a = 8 and 'b = 32, of "kp_proto p" 6]
      xor_ucast_eq_0 [where 'a = 8 and 'b = 32, of "kp_tcp_flags p AND k_tcp_mask r" "k_tcp_flags r"]
    by (simp add: ucast_up_eq_0 or_eq_0 np unsigned_and_eq)
  have t6: "ucast ((ucast (k_proto r) :: 32 word) XOR ucast (kp_proto p)) AND test_mask ?f 3 = 0
      \<longleftrightarrow> bit (k_flags r) 3 \<or> k_proto r = kp_proto p"
    by (simp add: and_test_mask f ucast_up_eq_0 xor_ucast_eq_0)
  have t7: "ucast (((ucast (k_sport r) :: 32 word) XOR ucast (kp_sport p)) OR (of_bool (kp_have_ports p) XOR 1)) AND test_mask ?f 4 = 0
      \<longleftrightarrow> bit (k_flags r) 4 \<or> kp_have_ports p \<and> k_sport r = kp_sport p"
    unfolding and_test_mask by (auto simp: f ucast_up_eq_0 xor_ucast_eq_0 or_eq_0 np)
  have t8: "ucast (((ucast (k_dport r) :: 32 word) XOR ucast (kp_dport p)) OR (of_bool (kp_have_ports p) XOR 1)) AND test_mask ?f 5 = 0
      \<longleftrightarrow> bit (k_flags r) 5 \<or> kp_have_ports p \<and> k_dport r = kp_dport p"
    unfolding and_test_mask by (auto simp: f ucast_up_eq_0 xor_ucast_eq_0 or_eq_0 np)
  have m: "(x :: 64 word) AND (if b then 0 else - 1) = 0 \<longleftrightarrow> b \<or> x = 0" for x b
    by simp
  have f1: "bit ?f 1 = bit (k_flags r) 1" and f2: "bit ?f 2 = bit (k_flags r) 2" by (rule f, simp)+
  have t10: "(if kp_v6 p then pfx_bad_v6 (kp_src p) (k_src r) (ucast (k_src_len r))
        else ucast (pfx_bad_v4 (kp_src p) (k_src r) (ucast (k_src_len r)))) AND test_mask ?f 1 = 0
      \<longleftrightarrow> bit (k_flags r) 1 \<or> pfx_slot_ok (kp_v6 p) (kp_src p) (k_src r) (unat (k_src_len r))"
    using pfx_term [of "kp_v6 p" "kp_src p" "k_src r" "k_src_len r"]
    unfolding and_test_mask f1 by blast
  have t11: "(if kp_v6 p then pfx_bad_v6 (kp_dst p) (k_dst r) (ucast (k_dst_len r))
        else ucast (pfx_bad_v4 (kp_dst p) (k_dst r) (ucast (k_dst_len r)))) AND test_mask ?f 2 = 0
      \<longleftrightarrow> bit (k_flags r) 2 \<or> pfx_slot_ok (kp_v6 p) (kp_dst p) (k_dst r) (unat (k_dst_len r))"
    using pfx_term [of "kp_v6 p" "kp_dst p" "k_dst r" "k_dst_len r"]
    unfolding and_test_mask f2 by blast
  show ?thesis
    unfolding rule_match_def match_bad_def Let_def or_eq_0 mask_nonzero_term m t1 t2 t3 t4 t5 t6 t7 t8 t9 t10 t11
    by (rule refl)
qed

section \<open>What an encoded rule selects\<close>

lemma bit_clear_if: "bit (clear_if b m w) n \<longleftrightarrow> bit w n \<and> \<not> (b \<and> bit m n)"
  by (auto simp: clear_if_def bit_simps dest: bit_imp_le_length)

lemma bit_set_if: "bit (set_if b m w) n \<longleftrightarrow> bit w n \<or> b \<and> bit m n"
  by (auto simp: set_if_def bit_simps)

lemma spec_flags_bits:
  "bit (spec_flags s v6) 0" "bit (spec_flags s v6) 1 \<longleftrightarrow> \<not> pfx_valid (sp_src s)"
  "bit (spec_flags s v6) 2 \<longleftrightarrow> \<not> pfx_valid (sp_dst s)" "bit (spec_flags s v6) 3 \<longleftrightarrow> sp_proto s = None"
  "bit (spec_flags s v6) 4 \<longleftrightarrow> sp_src_port s = None" "bit (spec_flags s v6) 5 \<longleftrightarrow> sp_dst_port s = None"
  "bit (spec_flags s v6) 6 \<longleftrightarrow> sp_fragment s" "bit (spec_flags s v6) 7 \<longleftrightarrow> v6"
  by (simp_all add: spec_flags_def bit_clear_if bit_set_if)

text \<open>A packet of one family, as parsed off the wire.\<close>

definition pkt_wf :: "packet \<Rightarrow> bool" where
  "pkt_wf p \<longleftrightarrow> addr_valid (pk_src p) \<and> addr_valid (pk_dst p) \<and> \<not> has_zone (pk_src p) \<and> \<not> has_zone (pk_dst p)
     \<and> (is6 (pk_src p) \<longleftrightarrow> is6 (pk_dst p))"

definition spec_selects :: "rule_spec \<Rightarrow> packet \<Rightarrow> bool" where
  "spec_selects s p \<longleftrightarrow> (sp_ipv6 s \<longleftrightarrow> is6 (pk_src p))
     \<and> (sp_fragment s \<longrightarrow> pk_frag p) \<and> (bit (sp_match_ext s) 0 \<longrightarrow> pk_tls p) \<and> (bit (sp_match_ext s) 1 \<longrightarrow> pk_quic p)
     \<and> (\<forall>x \<in> set_option (sp_proto s). pk_proto p = x)
     \<and> (\<forall>x \<in> set_option (sp_src_port s). \<exists>q. pk_ports p = Some (x, q))
     \<and> (\<forall>x \<in> set_option (sp_dst_port s). \<exists>q. pk_ports p = Some (q, x))
     \<and> (sp_tcp_mask s = 0 \<or> pk_tcp_flags p AND sp_tcp_mask s = sp_tcp_flags s \<and> pk_proto p = 6 \<and> pk_ports p \<noteq> None)
     \<and> (pfx_valid (sp_src s) \<longrightarrow> contains (sp_src s) (pk_src p))
     \<and> (pfx_valid (sp_dst s) \<longrightarrow> contains (sp_dst s) (pk_dst p))"

lemma unat_len: "0 \<le> n \<Longrightarrow> n \<le> 128 \<Longrightarrow> unat (word_of_int n :: 8 word) = nat n"
  by (simp add: unsigned_of_int take_bit_int_eq_self)

lemma slot_v4: "ucast (drop_bit 96 (push_bit 96 (ucast (w :: 32 word) :: 128 word))) = w"
  by (rule bit_word_eqI) (auto simp: bit_simps)

lemma slot_contains:
  assumes "pfx_wf p" "pfx_valid p" "addr_valid a" "\<not> has_zone a" "is6 a = is6 (pfx_addr p)"
  shows "pfx_slot_ok (is6 a) (addr_slot a) (copy_prefix p) (unat (word_of_int (pfx_bits p) :: 8 word)) \<longleftrightarrow> contains p a"
proof -
  obtain b n where p: "p = Pfx b n" by (cases p)
  have b: "addr_valid b" "\<not> has_zone b" "0 \<le> n" "n \<le> int (bit_len b)"
    using assms by (auto simp: p pfx_wf_def pfx_valid_def)
  have l: "unat (word_of_int n :: 8 word) = nat n"
    by (rule unat_len) (use b in \<open>cases b; simp\<close>)+
  show ?thesis
    using assms(3-) b unfolding p l prefix.sel
    by (cases b; cases a)
      (auto simp: pfx_slot_ok_def copy_prefix_def pfx_masked_def addr_prefix_def contains_def pfx_valid_def
        slot_v4 drop_push_drop)
qed

lemma family_loop_Some: "family_loop (Some v) ps = Inr r \<Longrightarrow> r = Some v \<and> (\<forall>p \<in> set ps. pfx_valid p \<longrightarrow> is6 (pfx_addr p) = v)"
  by (induction ps) (auto split: if_splits)

lemma family_loop_family:
  "family_loop None ps = Inr fam \<Longrightarrow> p \<in> set ps \<Longrightarrow> pfx_valid p \<Longrightarrow> fam = Some (is6 (pfx_addr p))"
proof (induction ps)
  case (Cons q ps)
  then show ?case using family_loop_Some [of "is6 (pfx_addr q)" ps fam] by (auto split: if_splits)
qed simp

lemma encode_ok:
  assumes "encode s = Inr r"
  shows "(pfx_valid (sp_src s) \<longrightarrow> is6 (pfx_addr (sp_src s)) = sp_ipv6 s)
    \<and> (pfx_valid (sp_dst s) \<longrightarrow> is6 (pfx_addr (sp_dst s)) = sp_ipv6 s)"
proof -
  obtain fam where "family_loop None [sp_src s, sp_dst s] = Inr fam" "fam = None \<or> fam = Some (sp_ipv6 s)"
    using assms by (auto simp: encode_def split: sum.splits if_splits)
  then show ?thesis
    using family_loop_family [of "[sp_src s, sp_dst s]" fam] by (metis list.set_intros(1,2) option.distinct(1) option.inject)
qed

lemma encode_fields:
  assumes "encode s = Inr r"
  shows "k_flags r = spec_flags s (sp_ipv6 s)" "k_match_ext r = sp_match_ext s" "k_tcp_mask r = sp_tcp_mask s"
    "k_tcp_flags r = sp_tcp_flags s" "sp_proto s \<noteq> None \<Longrightarrow> k_proto r = the (sp_proto s)"
    "sp_src_port s \<noteq> None \<Longrightarrow> k_sport r = the (sp_src_port s)"
    "sp_dst_port s \<noteq> None \<Longrightarrow> k_dport r = the (sp_dst_port s)"
    "pfx_valid (sp_src s) \<Longrightarrow> k_src r = copy_prefix (sp_src s) \<and> k_src_len r = word_of_int (pfx_bits (sp_src s))"
    "pfx_valid (sp_dst s) \<Longrightarrow> k_dst r = copy_prefix (sp_dst s) \<and> k_dst_len r = word_of_int (pfx_bits (sp_dst s))"
    "k_action r = sp_action s"
  using assms by (auto simp: encode_def split: sum.splits if_splits)

lemma encode_selects:
  assumes "encode s = Inr r" "pfx_wf (sp_src s)" "pfx_wf (sp_dst s)" "pkt_wf p"
  shows "rule_match r (kernel_packet p) \<longleftrightarrow> spec_selects s p"
proof (cases "sp_ipv6 s = is6 (pk_src p)")
  case False
  then show ?thesis
    by (auto simp: rule_match_iff spec_selects_def encode_fields(1) [OF assms(1)] spec_flags_bits kernel_packet_def)
next
  case True
  have src: "pfx_valid (sp_src s) \<Longrightarrow> pfx_slot_ok (is6 (pk_src p)) (addr_slot (pk_src p)) (k_src r) (unat (k_src_len r))
      \<longleftrightarrow> contains (sp_src s) (pk_src p)"
    using slot_contains [of "sp_src s" "pk_src p"] assms encode_ok [OF assms(1)] True
    by (simp add: encode_fields(8) [OF assms(1)] pkt_wf_def)
  have dst: "pfx_valid (sp_dst s) \<Longrightarrow> pfx_slot_ok (is6 (pk_src p)) (addr_slot (pk_dst p)) (k_dst r) (unat (k_dst_len r))
      \<longleftrightarrow> contains (sp_dst s) (pk_dst p)"
    using slot_contains [of "sp_dst s" "pk_dst p"] assms encode_ok [OF assms(1)] True
    by (simp add: encode_fields(9) [OF assms(1)] pkt_wf_def)
  have pr: "bit (k_flags r) 3 \<or> k_proto r = pk_proto p \<longleftrightarrow> (\<forall>x \<in> set_option (sp_proto s). pk_proto p = x)"
    using encode_fields(5) [OF assms(1)]
    by (cases "sp_proto s") (auto simp: encode_fields(1) [OF assms(1)] spec_flags_bits)
  have sp: "bit (k_flags r) 4 \<or> pk_ports p \<noteq> None \<and> k_sport r = (case pk_ports p of None \<Rightarrow> 0 | Some (s, _) \<Rightarrow> s)
      \<longleftrightarrow> (\<forall>x \<in> set_option (sp_src_port s). \<exists>q. pk_ports p = Some (x, q))"
    using encode_fields(6) [OF assms(1)]
    by (cases "sp_src_port s"; cases "pk_ports p") (auto simp: encode_fields(1) [OF assms(1)] spec_flags_bits)
  have dp: "bit (k_flags r) 5 \<or> pk_ports p \<noteq> None \<and> k_dport r = (case pk_ports p of None \<Rightarrow> 0 | Some (_, d) \<Rightarrow> d)
      \<longleftrightarrow> (\<forall>x \<in> set_option (sp_dst_port s). \<exists>q. pk_ports p = Some (q, x))"
    using encode_fields(7) [OF assms(1)]
    by (cases "sp_dst_port s"; cases "pk_ports p") (auto simp: encode_fields(1) [OF assms(1)] spec_flags_bits)
  have fl: "bit (k_flags r) 0" "bit (k_flags r) 7 \<longleftrightarrow> is6 (pk_src p)" "bit (k_flags r) 6 \<longleftrightarrow> sp_fragment s"
    "bit (k_flags r) 1 \<longleftrightarrow> \<not> pfx_valid (sp_src s)" "bit (k_flags r) 2 \<longleftrightarrow> \<not> pfx_valid (sp_dst s)"
    using True by (simp_all only: encode_fields(1) [OF assms(1)] spec_flags_bits)
  show ?thesis
    unfolding rule_match_iff spec_selects_def kernel_packet_def kpacket.select_convs pr sp dp
      fl(2-5) encode_fields(2-4) [OF assms(1)]
    using fl(1) src dst True by blast
qed


section \<open>The two backends of one rule\<close>

text \<open>The allocation the installer adds to a compiled spec: id, profile and deadline.\<close>

definition allocate :: "32 word \<Rightarrow> 32 word \<Rightarrow> 64 word \<Rightarrow> rule_spec \<Rightarrow> rule_spec" where
  "allocate i prof e s = s \<lparr> sp_id := i, sp_profile := prof, sp_expires := e \<rparr>"

lemma spec_selects_allocate [simp]: "spec_selects (allocate i prof e s) p = spec_selects s p"
  by (simp add: spec_selects_def allocate_def)

lemma allocate_sel [simp]:
  "sp_src (allocate i prof e s) = sp_src s" "sp_dst (allocate i prof e s) = sp_dst s"
  "sp_ipv6 (allocate i prof e s) = sp_ipv6 s"
  by (simp_all add: allocate_def)

lemma contains_is6: "contains q a \<Longrightarrow> is6 (pfx_addr q) = is6 a"
  using contains_family by simp

lemma dataplane_rule_selects:
  assumes "dataplane_rule r = Inr (s, b)" "pkt_wf p"
    "pfx_valid (r_src r) \<longrightarrow> is6 (pfx_addr (r_src r)) = sp_ipv6 s"
  shows "spec_selects s p \<longleftrightarrow> fs_selects r p"
proof -
  let ?anchor = "if pfx_valid (r_dst r) then r_dst r else r_src r"
  have v: "pfx_valid (r_dst r) \<or> pfx_valid (r_src r)"
    and s: "sp_ipv6 s = is6 (pfx_addr ?anchor)" "sp_src s = r_src r" "sp_dst s = r_dst r" "sp_match_ext s = 0"
      "sp_fragment s = r_fragment r" "sp_proto s = some_nonzero (r_proto r)"
      "sp_src_port s = some_nonzero (r_src_port r)" "sp_dst_port s = some_nonzero (r_dst_port r)"
      "sp_tcp_flags s = r_tcp_flags r" "sp_tcp_mask s = r_tcp_flags r"
    using assms(1) by (auto simp: dataplane_rule_def Let_def match_tcp_flags_def split: if_splits sum.splits)
  have fam: "(pfx_valid (r_src r) \<longrightarrow> contains (r_src r) (pk_src p)) \<Longrightarrow>
      (pfx_valid (r_dst r) \<longrightarrow> contains (r_dst r) (pk_dst p)) \<Longrightarrow> is6 (pfx_addr ?anchor) = is6 (pk_src p)"
    using v assms(2) by (auto simp: pkt_wf_def dest: contains_is6)
  show ?thesis
    unfolding spec_selects_def fs_selects_def s
    using fam by (auto simp: some_nonzero_def)
qed

text \<open>One rule, two backends, the same packets.\<close>

lemma rule_backends_agree:
  assumes "dataplane_rule r = Inr (s, b)" "encode (allocate i prof e s) = Inr k"
    "pfx_wf (r_src r)" "pfx_wf (r_dst r)" "pkt_wf p"
  shows "rule_match k (kernel_packet p) \<longleftrightarrow> fs_selects r p"
proof -
  have s: "sp_src s = r_src r" "sp_dst s = r_dst r"
    using assms(1) by (auto simp: dataplane_rule_def Let_def match_tcp_flags_def split: if_splits sum.splits)
  have "rule_match k (kernel_packet p) \<longleftrightarrow> spec_selects (allocate i prof e s) p"
    using encode_selects [OF assms(2) _ _ assms(5)] assms(3,4) s by simp
  also have "\<dots> \<longleftrightarrow> fs_selects r p"
    using dataplane_rule_selects [OF assms(1,5)] encode_ok [OF assms(2)] s by simp
  finally show ?thesis .
qed

lemma dataplane_rules_loop_all2:
  "dataplane_rules_loop rate rs = Inr (ss, b) \<Longrightarrow> list_all2 (\<lambda>r s. \<exists>x. dataplane_rule r = Inr (s, x)) rs ss"
  by (induction rs arbitrary: rate ss b) (auto split: sum.splits if_splits)

lemma encode_rules_all2: "encode_rules ss = Inr ks \<Longrightarrow> list_all2 (\<lambda>s k. encode s = Inr k) ss ks"
  by (induction ss arbitrary: ks) (auto split: sum.splits)

end
