(* ===== verification/Ban.thy ===== *)
theory Ban
  imports Hostgroups KernelRule
begin

text \<open>
  One ban and the calls it makes: the ban record, its ladder rungs, announcing and withdrawing a
  rung at the BGP speaker or in the kernel, the fallback, and the climb up the ladder
  (\<^verbatim>\<open>src/engine/internal/mitigate/mitigate.go\<close>).

  The speaker and the data plane are not code of the mitigator: \<open>backend\<close> says whether a data
  plane is wired in and how each call answers, given everything called before. Each call and its
  answer is appended to the log of the \<open>io\<close> state, newest first; \<open>io_dirty\<close> is the pending signal
  to the persistence loop. A handler reads one clock value. A panic of the Go code (an index out
  of range, a nil pointer) is the error \<open>ErrPanic\<close>. Logging and metrics counters have no model.
\<close>

section \<open>Data\<close>

datatype ban_state = BanActive | BanWithdrawn | BanRejected

record bh_attrs =
  ba_next_hop :: string
  ba_comms :: "32 word list"
  ba_comm_str :: string
  ba_local_pref :: "32 word"

definition no_attrs :: bh_attrs where
  "no_attrs = \<lparr> ba_next_hop = [], ba_comms = [], ba_comm_str = [], ba_local_pref = 0 \<rparr>"

record ban =
  b_target :: addr
  b_prefix :: prefix
  b_metric :: metric
  b_rate :: f64
  b_threshold :: f64
  b_next_hop :: string
  b_community :: string
  b_local_pref :: "32 word"
  b_route :: string
  b_node :: string
  b_state :: ban_state
  b_dry_run :: bool
  b_manual :: bool
  b_started :: nanos
  b_expires :: nanos
  b_withdrawn :: nanos
  b_reason :: string
  b_method :: mitigation_method
  b_rules :: "flowspec_rule list"
  b_escalation :: "escalation_stage list"
  b_step :: nat
  b_fell_from :: mitigation_method
  b_fell_reason :: string
  b_dir_mask :: "8 word"
  b_bh :: bh_attrs
  b_div :: bh_attrs
  b_dp_at :: nanos

definition ban_zero :: ban where
  "ban_zero = \<lparr> b_target = AddrNone, b_prefix = prefix_none, b_metric = MetricNone, b_rate = Fin 0,
     b_threshold = Fin 0, b_next_hop = [], b_community = [], b_local_pref = 0, b_route = [], b_node = [],
     b_state = BanRejected, b_dry_run = False, b_manual = False, b_started = 0, b_expires = 0,
     b_withdrawn = 0, b_reason = [], b_method = NoMethod, b_rules = [], b_escalation = [], b_step = 0,
     b_fell_from = NoMethod, b_fell_reason = [], b_dir_mask = 0, b_bh = no_attrs, b_div = no_attrs, b_dp_at = 0 \<rparr>"

definition dir_bit :: "direction \<Rightarrow> 8 word" where
  "dir_bit d = (if d = DirOutgoing then 2 else 1)"

section \<open>Calls\<close>

datatype call = Announce prefix bh_attrs | Withdraw prefix
  | AnnounceFS flowspec_rule | WithdrawFS flowspec_rule
  | DpInstall prefix dynamic_rules | DpWithdraw prefix

type_synonym call_log = "(call \<times> bool) list"

record backend =
  be_dp :: bool
  be_ok :: "call \<Rightarrow> call_log \<Rightarrow> bool"
  be_err :: "call \<Rightarrow> string"

record io =
  io_log :: call_log
  io_dirty :: bool

definition do_call :: "backend \<Rightarrow> call \<Rightarrow> io \<Rightarrow> bool \<times> io" where
  "do_call be c s = (let r = be_ok be c (io_log s) in (r, s \<lparr> io_log := (c, r) # io_log s \<rparr>))"

definition mark_dirty :: "io \<Rightarrow> io" where
  "mark_dirty s = s \<lparr> io_dirty := True \<rparr>"

datatype mit_error = ErrNoBackend | ErrStale | ErrCompile dp_error | ErrCall call | ErrPanic

section \<open>Rungs\<close>

record stage_view =
  v_method :: mitigation_method
  v_route :: string
  v_attrs :: bh_attrs

datatype route_family = RfNone | RfFlowSpec | RfUnicast | RfDataplane

fun route_family_of :: "mitigation_method \<Rightarrow> route_family" where
  "route_family_of MitigateFlowSpec = RfFlowSpec"
| "route_family_of MitigateBlackhole = RfUnicast"
| "route_family_of MitigateDivert = RfUnicast"
| "route_family_of MitigateDataplane = RfDataplane"
| "route_family_of NoMethod = RfNone"

definition rule_summary :: "flowspec_rule list \<Rightarrow> string" where
  "rule_summary rs = join ''; '' (map rule_string rs)"

definition flowspec_summary :: "flowspec_rule list \<Rightarrow> string" where
  "flowspec_summary rs = ''flowspec: '' @ rule_summary rs"

definition dataplane_summary :: "flowspec_rule list \<Rightarrow> string" where
  "dataplane_summary rs = ''dataplane: '' @ rule_summary rs"

definition unicast_route :: "string \<Rightarrow> prefix \<Rightarrow> bh_attrs \<Rightarrow> string" where
  "unicast_route verb p a =
     verb @ '' '' @ pfx_string p @ '' next-hop '' @ ba_next_hop a
     @ (if ba_comm_str a \<noteq> [] then '' community '' @ ba_comm_str a else [])
     @ (if ba_local_pref a \<noteq> 0 then '' local-pref '' @ dec (unat (ba_local_pref a)) else [])"

definition stage_view_of :: "ban \<Rightarrow> escalation_stage \<Rightarrow> stage_view" where
  "stage_view_of b s = (case stage_action s of
     EscalateDataplane \<Rightarrow> \<lparr> v_method = MitigateDataplane, v_route = dataplane_summary (b_rules b), v_attrs = no_attrs \<rparr>
   | EscalateFlowSpec \<Rightarrow> \<lparr> v_method = MitigateFlowSpec, v_route = flowspec_summary (b_rules b), v_attrs = no_attrs \<rparr>
   | EscalateBlackhole \<Rightarrow>
       \<lparr> v_method = MitigateBlackhole, v_route = unicast_route ''blackhole'' (b_prefix b) (b_bh b), v_attrs = b_bh b \<rparr>
   | EscalateDivert \<Rightarrow>
       \<lparr> v_method = MitigateDivert,
         v_route = unicast_route ''divert'' (b_prefix b) (b_div b) @ (if b_node b \<noteq> [] then '' node '' @ b_node b else []),
         v_attrs = b_div b \<rparr>
   | EscalateNone \<Rightarrow> \<lparr> v_method = NoMethod, v_route = ''alert only'', v_attrs = no_attrs \<rparr>)"

definition blackhole_stage_view :: "ban \<Rightarrow> stage_view" where
  "blackhole_stage_view b = \<lparr> v_method = MitigateBlackhole,
     v_route = unicast_route ''blackhole'' (b_prefix b) (b_bh b), v_attrs = b_bh b \<rparr>"

definition set_active_stage :: "nat \<Rightarrow> stage_view \<Rightarrow> ban \<Rightarrow> ban" where
  "set_active_stage idx v b = b \<lparr> b_step := idx, b_method := v_method v, b_route := v_route v,
     b_next_hop := ba_next_hop (v_attrs v), b_community := ba_comm_str (v_attrs v),
     b_local_pref := ba_local_pref (v_attrs v) \<rparr>"

section \<open>Announcing and withdrawing\<close>

definition install_dataplane :: "backend \<Rightarrow> nanos \<Rightarrow> ban \<Rightarrow> io \<Rightarrow> mit_error option \<times> ban \<times> io" where
  "install_dataplane be now b s =
     (if \<not> be_dp be then (Some ErrNoBackend, b, s)
      else let ttl = time_sub (b_expires b) now in
        if ttl \<le> 0 then (Some ErrStale, b, s)
        else case dataplane_rules (b_rules b) ttl of
          Inl e \<Rightarrow> (Some (ErrCompile e), b, s)
        | Inr d \<Rightarrow> let c = DpInstall (b_prefix b) d; (r, s') = do_call be c s in
            if r then (None, b \<lparr> b_dp_at := now \<rparr>, s') else (Some (ErrCall c), b, s'))"

fun withdraw_flowspec :: "backend \<Rightarrow> flowspec_rule list \<Rightarrow> io \<Rightarrow> io" where
  "withdraw_flowspec be [] s = s"
| "withdraw_flowspec be (r # rs) s = withdraw_flowspec be rs (snd (do_call be (WithdrawFS r) s))"

text \<open>\<open>sent\<close> are the rules already announced, rolled back when one fails.\<close>

fun announce_flowspec :: "backend \<Rightarrow> flowspec_rule list \<Rightarrow> flowspec_rule list \<Rightarrow> io \<Rightarrow> mit_error option \<times> io" where
  "announce_flowspec be sent [] s = (None, s)"
| "announce_flowspec be sent (r # rs) s =
     (let (ok, s') = do_call be (AnnounceFS r) s in
      if ok then announce_flowspec be (sent @ [r]) rs s'
      else (Some (ErrCall (AnnounceFS r)), withdraw_flowspec be sent s'))"

definition announce_method ::
  "backend \<Rightarrow> nanos \<Rightarrow> config \<Rightarrow> ban \<Rightarrow> mitigation_method \<Rightarrow> bh_attrs \<Rightarrow> io \<Rightarrow> mit_error option \<times> ban \<times> io" where
  "announce_method be now cfg b m attrs s =
     (if m = NoMethod then (None, b, s)
      else if c_dry_run cfg then (None, b, s)
      else if m = MitigateDataplane then install_dataplane be now b s
      else if m = MitigateFlowSpec then
        (let (e, s') = announce_flowspec be [] (b_rules b) s in (e, b, s'))
      else let c = Announce (b_prefix b) attrs; (r, s') = do_call be c s in
        (if r then None else Some (ErrCall c), b, s'))"

definition withdraw_method :: "backend \<Rightarrow> ban \<Rightarrow> mitigation_method \<Rightarrow> io \<Rightarrow> io" where
  "withdraw_method be b m s =
     (if m = NoMethod then s
      else if b_dry_run b then s
      else if m = MitigateDataplane then
        (if be_dp be then snd (do_call be (DpWithdraw (b_prefix b)) s) else s)
      else if m = MitigateFlowSpec then withdraw_flowspec be (b_rules b) s
      else snd (do_call be (Withdraw (b_prefix b)) s))"

definition fallback_for :: "mitigation_method \<Rightarrow> config \<Rightarrow> mitigation_method" where
  "fallback_for primary cfg =
     (let fb = fallback_method (c_ban cfg) in
      if fb = NoMethod then NoMethod
      else if primary \<in> {MitigateDataplane, MitigateFlowSpec, MitigateDivert} then fb else NoMethod)"

text \<open>The applied view and whether it is the fallback, or the primary's error.\<close>

definition announce_stage ::
  "backend \<Rightarrow> nanos \<Rightarrow> config \<Rightarrow> ban \<Rightarrow> stage_view \<Rightarrow> io \<Rightarrow> (mit_error + stage_view \<times> bool) \<times> ban \<times> io" where
  "announce_stage be now cfg b v s =
     (case announce_method be now cfg b (v_method v) (v_attrs v) s of
        (None, b', s') \<Rightarrow> (Inr (v, False), b', s')
      | (Some e, b', s') \<Rightarrow>
          if fallback_for (v_method v) cfg = NoMethod then (Inl e, b', s')
          else let fv = blackhole_stage_view b' in
            case announce_method be now cfg b' (v_method fv) (v_attrs fv) s' of
              (None, b'', s'') \<Rightarrow> (Inr (fv, True), b'', s'')
            | (Some _, b'', s'') \<Rightarrow> (Inl e, b'', s''))"

definition note_fallback :: "bool \<Rightarrow> mitigation_method \<Rightarrow> string \<Rightarrow> ban \<Rightarrow> ban" where
  "note_fallback fell m why b = (if fell then b \<lparr> b_fell_from := m, b_fell_reason := why \<rparr> else b)"

definition apply_stage ::
  "backend \<Rightarrow> nanos \<Rightarrow> config \<Rightarrow> ban \<Rightarrow> nat \<Rightarrow> io \<Rightarrow> mit_error option \<times> ban \<times> io" where
  "apply_stage be now cfg b idx s =
     (if length (b_escalation b) \<le> idx then (Some ErrPanic, b, s)
      else let v = stage_view_of b (b_escalation b ! idx) in
        case announce_stage be now cfg b v s of
          (Inl e, b', s') \<Rightarrow> (Some e, b', s')
        | (Inr (applied, fell), b', s') \<Rightarrow>
            (None, note_fallback fell (v_method v) ''primary announce rejected by peer'' (set_active_stage idx applied b'), s'))"

definition withdraw_ban :: "backend \<Rightarrow> nanos \<Rightarrow> string \<Rightarrow> bool \<Rightarrow> ban \<Rightarrow> io \<Rightarrow> ban \<times> io" where
  "withdraw_ban be now reason manual b s =
     (b \<lparr> b_state := BanWithdrawn, b_withdrawn := now, b_reason := reason, b_manual := (b_manual b \<or> manual) \<rparr>,
      mark_dirty (withdraw_method be b (b_method b) s))"

section \<open>The climb\<close>

fun due_step :: "int \<Rightarrow> nat \<Rightarrow> nat \<Rightarrow> escalation_stage list \<Rightarrow> nat" where
  "due_step elapsed target nxt [] = target"
| "due_step elapsed target nxt (s # ss) =
     (if elapsed < dur_secs (after_seconds s) then target else due_step elapsed nxt (Suc nxt) ss)"

definition due_target :: "ban \<Rightarrow> nanos \<Rightarrow> nat" where
  "due_target b now =
     due_step (time_sub now (b_started b)) (b_step b) (Suc (b_step b)) (drop (Suc (b_step b)) (b_escalation b))"

definition escalate :: "backend \<Rightarrow> nanos \<Rightarrow> config \<Rightarrow> ban \<Rightarrow> io \<Rightarrow> ban \<times> io" where
  "escalate be now cfg b s =
     (let target = due_target b now in
      if target = b_step b then (b, s)
      else let v = stage_view_of b (b_escalation b ! target) in
        if v_method v = b_method b then (b \<lparr> b_step := target \<rparr>, mark_dirty s)
        else case announce_stage be now cfg b v s of
          (Inl e, b', s') \<Rightarrow> (b', s')
        | (Inr (applied, fell), b', s') \<Rightarrow>
            let s'' = (if b_method b \<noteq> NoMethod \<and> route_family_of (b_method b) \<noteq> route_family_of (v_method applied)
                       then withdraw_method be b' (b_method b) s' else s')
            in (note_fallback fell (v_method v) ''primary announce rejected by peer during escalation''
                  (set_active_stage target applied b'), mark_dirty s''))"

end
