(* ===== verification/ScrubNodes.thy ===== *)
theory ScrubNodes
  imports Ban
begin

text \<open>
  Scrubbing nodes: poll presence (\<^verbatim>\<open>src/engine/internal/mitigate/nodes.go\<close>), the choice of a node for a
  divert ban, the freezing of a ban's announcement attributes, and the loss sweep that moves or
  degrades a ban whose node stopped polling (\<^verbatim>\<open>nodeselect.go\<close>, \<^verbatim>\<open>mitigate.go\<close>). A nil node map is the
  empty table.
\<close>

section \<open>Presence\<close>

record presence =
  np_open :: nat
  np_last :: nanos
  np_grace :: nanos

definition presence_zero :: presence where
  "presence_zero = \<lparr> np_open = 0, np_last = 0, np_grace = 0 \<rparr>"

type_synonym nodes = "(string, presence) table"

definition presence_of :: "nodes \<Rightarrow> string \<Rightarrow> presence" where
  "presence_of ns name = (case tget ns name of None \<Rightarrow> presence_zero | Some p \<Rightarrow> p)"

definition node_poll_started :: "nanos \<Rightarrow> string \<Rightarrow> nodes \<Rightarrow> nodes" where
  "node_poll_started now name ns = (if name = [] then ns
     else let p = presence_of ns name in tput name (p \<lparr> np_open := np_open p + 1, np_last := now \<rparr>) ns)"

definition node_poll_ended :: "nanos \<Rightarrow> string \<Rightarrow> nodes \<Rightarrow> nodes" where
  "node_poll_ended now name ns = (if name = [] then ns
     else case tget ns name of None \<Rightarrow> ns
     | Some p \<Rightarrow> tput name (p \<lparr> np_open := np_open p - 1, np_last := now \<rparr>) ns)"

definition node_seen :: "nodes \<Rightarrow> string \<Rightarrow> nanos \<times> bool" where
  "node_seen ns name = (case tget ns name of None \<Rightarrow> (0, False) | Some p \<Rightarrow> (np_last p, 0 < np_open p))"

definition node_alive :: "nanos \<Rightarrow> nodes \<Rightarrow> string \<Rightarrow> int \<Rightarrow> bool" where
  "node_alive now ns name stale = (let (last, holding) = node_seen ns name in
     if holding then True else \<not> is_zero_time last \<and> time_sub now last < stale)"

definition node_poll_slack :: int where "node_poll_slack = 30 * second"

text \<open>\<open>nodeLost\<close> may open a node's appearance window, so it returns the table.\<close>

definition node_lost :: "nanos \<Rightarrow> string \<Rightarrow> int \<Rightarrow> nodes \<Rightarrow> bool \<times> nodes" where
  "node_lost now name stale ns =
     (let p = presence_of ns name; ns1 = (if tget ns name = None then tput name p ns else ns) in
      if 0 < np_open p then (False, ns1)
      else if \<not> is_zero_time (np_last p) then (stale \<le> time_sub now (np_last p), ns1)
      else if is_zero_time (np_grace p)
        then (False, tput name (p \<lparr> np_grace := now + (stale + node_poll_slack) \<rparr>) ns1)
      else (np_grace p < now, ns1))"

section \<open>Selection\<close>

definition find_scrub_node :: "config \<Rightarrow> string \<Rightarrow> scrub_node option" where
  "find_scrub_node cfg name = find (\<lambda>n. sn_name n = name) (sc_nodes (c_scrubbing cfg))"

definition node_eligible :: "scrub_node \<Rightarrow> group \<Rightarrow> addr \<Rightarrow> bool" where
  "node_eligible n g target \<longleftrightarrow>
     (if is6 target then sn_next_hop6 n \<noteq> [] else sn_next_hop n \<noteq> [])
     \<and> (sn_hostgroups n = [] \<or> g_name g \<in> set (sn_hostgroups n))"

definition stale_after :: "config \<Rightarrow> int" where
  "stale_after cfg = dur_secs (sc_stale_after (c_scrubbing cfg))"

text \<open>The loop over the nodes: the first alive eligible one, else the first eligible one.\<close>

fun select_loop :: "nanos \<Rightarrow> nodes \<Rightarrow> int \<Rightarrow> group \<Rightarrow> addr \<Rightarrow> bool \<Rightarrow> scrub_node option \<Rightarrow> scrub_node list \<Rightarrow> scrub_node option" where
  "select_loop now ns stale g target alive_only first [] = (if alive_only then None else first)"
| "select_loop now ns stale g target alive_only first (n # rest) =
     (if \<not> node_eligible n g target then select_loop now ns stale g target alive_only first rest
      else if node_alive now ns (sn_name n) stale then Some n
      else select_loop now ns stale g target alive_only (if first = None then Some n else first) rest)"

definition select_scrub_node :: "nanos \<Rightarrow> nodes \<Rightarrow> config \<Rightarrow> group \<Rightarrow> addr \<Rightarrow> string \<Rightarrow> bool \<Rightarrow> scrub_node option" where
  "select_scrub_node now ns cfg g target preferred alive_only =
     (case (if preferred \<noteq> [] \<and> \<not> alive_only then find_scrub_node cfg preferred else None) of
        Some n \<Rightarrow> if node_eligible n g target then Some n
                  else select_loop now ns (stale_after cfg) g target alive_only None (sc_nodes (c_scrubbing cfg))
      | None \<Rightarrow> select_loop now ns (stale_after cfg) g target alive_only None (sc_nodes (c_scrubbing cfg)))"

section \<open>Frozen attributes\<close>

definition group_next_hop6 :: "group \<Rightarrow> string" where
  "group_next_hop6 g = (if g_bh_next_hop6 g \<noteq> [] then g_bh_next_hop6 g else ''100::1'')"

definition group_blackhole_attrs :: "group \<Rightarrow> addr \<Rightarrow> bh_attrs" where
  "group_blackhole_attrs g target = \<lparr> ba_next_hop = (if is6 target then group_next_hop6 g else g_bh_next_hop g),
     ba_comms = g_bh_comms g, ba_comm_str = g_bh_comm_str g, ba_local_pref = g_local_pref g \<rparr>"

definition group_divert_attrs :: "group \<Rightarrow> addr \<Rightarrow> bh_attrs" where
  "group_divert_attrs g target = \<lparr> ba_next_hop = (if is6 target then g_scrub_next_hop6 g else g_scrub_next_hop g),
     ba_comms = g_scrub_comms g, ba_comm_str = g_scrub_comm_str g, ba_local_pref = g_scrub_local_pref g \<rparr>"

definition node_divert_attrs :: "scrub_node \<Rightarrow> group \<Rightarrow> addr \<Rightarrow> bh_attrs" where
  "node_divert_attrs n g target = \<lparr> ba_next_hop = (if is6 target then sn_next_hop6 n else sn_next_hop n),
     ba_comms = g_scrub_comms g, ba_comm_str = g_scrub_comm_str g, ba_local_pref = g_scrub_local_pref g \<rparr>"

definition uses_blackhole :: "escalation_stage list \<Rightarrow> bool" where
  "uses_blackhole ss \<longleftrightarrow> (\<exists>s \<in> set ss. stage_action s = EscalateBlackhole)"

definition freeze_unicast_attrs :: "nanos \<Rightarrow> nodes \<Rightarrow> config \<Rightarrow> group \<Rightarrow> addr \<Rightarrow> ban \<Rightarrow> ban" where
  "freeze_unicast_attrs now ns cfg g target b =
     (let fb = (fallback_method (c_ban cfg) \<noteq> NoMethod);
          surgical = (uses_flowspec (b_escalation b) \<or> uses_divert (b_escalation b) \<or> uses_dataplane (b_escalation b));
          lost_bh = (uses_divert (b_escalation b) \<and> sc_on_lost (c_scrubbing cfg) = ''blackhole'');
          b1 = (if uses_blackhole (b_escalation b) \<or> (fb \<and> surgical) \<or> lost_bh
                then b \<lparr> b_bh := group_blackhole_attrs g target \<rparr> else b)
      in if uses_divert (b_escalation b) then
           (case select_scrub_node now ns cfg g target (b_node b) False of
              Some n \<Rightarrow> b1 \<lparr> b_node := sn_name n, b_div := node_divert_attrs n g target \<rparr>
            | None \<Rightarrow> b1 \<lparr> b_node := [], b_div := group_divert_attrs g target \<rparr>)
         else b1)"

section \<open>The loss sweep\<close>

text \<open>The check that no eligible node is still inside its appearance window; it stops at the first.\<close>

fun all_lost :: "nanos \<Rightarrow> int \<Rightarrow> group \<Rightarrow> addr \<Rightarrow> scrub_node list \<Rightarrow> nodes \<Rightarrow> bool \<times> nodes" where
  "all_lost now stale g target [] ns = (True, ns)"
| "all_lost now stale g target (n # rest) ns =
     (if \<not> node_eligible n g target then all_lost now stale g target rest ns
      else let (lost, ns') = node_lost now (sn_name n) stale ns in
        if \<not> lost then (False, ns') else all_lost now stale g target rest ns')"

definition degrade_blackhole :: "backend \<Rightarrow> nanos \<Rightarrow> config \<Rightarrow> ban \<Rightarrow> io \<Rightarrow> ban \<times> io" where
  "degrade_blackhole be now cfg b s =
     (let fv = blackhole_stage_view b in
      case announce_method be now cfg b (v_method fv) (v_attrs fv) s of
        (Some _, b', s') \<Rightarrow> (b', s')
      | (None, b', s') \<Rightarrow>
          (set_active_stage (b_step b') fv (note_fallback True MitigateDivert ''all scrubbing nodes lost'' b'), mark_dirty s'))"

definition degrade_flowspec :: "backend \<Rightarrow> nanos \<Rightarrow> config \<Rightarrow> group \<Rightarrow> ban \<Rightarrow> io \<Rightarrow> ban \<times> io" where
  "degrade_flowspec be now cfg g b0 s =
     (let b = (if b_rules b0 = []
               then b0 \<lparr> b_rules := generate_rules (b_target b0) DirUnset None None (g_fs_action g) (g_fs_rate g) False (Fin 0) \<rparr>
               else b0);
          fv = \<lparr> v_method = MitigateFlowSpec, v_route = flowspec_summary (b_rules b), v_attrs = no_attrs \<rparr> in
      case announce_method be now cfg b MitigateFlowSpec no_attrs s of
        (Some _, b', s') \<Rightarrow> (b', s')
      | (None, b', s') \<Rightarrow>
          let s'' = withdraw_method be b' MitigateDivert s' in
          (set_active_stage (b_step b') fv (note_fallback True MitigateDivert ''all scrubbing nodes lost'' b'), mark_dirty s''))"

definition relocate_ban :: "backend \<Rightarrow> nanos \<Rightarrow> config \<Rightarrow> ban \<Rightarrow> nodes \<times> io \<Rightarrow> ban \<times> nodes \<times> io" where
  "relocate_ban be now cfg b st = (case st of (ns, s) \<Rightarrow>
     if is_whitelisted cfg (b_target b) then
       (let (b', s') = withdraw_ban be now ''target is now whitelisted'' False b s in (b', ns, s'))
     else if b_dry_run b \<noteq> c_dry_run cfg then (b, ns, s)
     else let g = group_for cfg (b_target b) in
       case select_scrub_node now ns cfg g (b_target b) [] True of
         Some n \<Rightarrow>
           let attrs = node_divert_attrs n g (b_target b);
               route = unicast_route ''divert'' (b_prefix b) attrs @ '' node '' @ sn_name n in
           (case announce_method be now cfg b MitigateDivert attrs s of
              (Some _, b', s') \<Rightarrow> (b', ns, s')
            | (None, b', s') \<Rightarrow>
                (set_active_stage (b_step b') \<lparr> v_method = MitigateDivert, v_route = route, v_attrs = attrs \<rparr>
                   (b' \<lparr> b_node := sn_name n, b_div := attrs \<rparr>), ns, mark_dirty s'))
       | None \<Rightarrow>
           let (lost, ns') = all_lost now (stale_after cfg) g (b_target b) (sc_nodes (c_scrubbing cfg)) ns in
           if \<not> lost then (b, ns', s)
           else if sc_on_lost (c_scrubbing cfg) = ''blackhole'' then
             (let (b', s') = degrade_blackhole be now cfg b s in (b', ns', s'))
           else if sc_on_lost (c_scrubbing cfg) = ''flowspec'' then
             (let (b', s') = degrade_flowspec be now cfg g b s in (b', ns', s'))
           else (let (b', s') = withdraw_ban be now ''all scrubbing nodes lost'' False b s in (b', ns', s')))"

text \<open>One active divert ban of the walk over \<^verbatim>\<open>m.bans\<close>.\<close>

definition sweep_node_ban :: "backend \<Rightarrow> nanos \<Rightarrow> config \<Rightarrow> ban \<Rightarrow> nodes \<times> io \<Rightarrow> ban \<times> nodes \<times> io" where
  "sweep_node_ban be now cfg b st = (case st of (ns, s) \<Rightarrow>
     if b_state b \<noteq> BanActive \<or> b_method b \<noteq> MitigateDivert \<or> b_node b = [] then (b, ns, s)
     else case find_scrub_node cfg (b_node b) of
       None \<Rightarrow> relocate_ban be now cfg b (ns, s)
     | Some n \<Rightarrow> let (lost, ns') = node_lost now (b_node b) (stale_after cfg) ns in
         if \<not> lost then (b, ns', s) else relocate_ban be now cfg b (ns', s))"

fun touch_nodes :: "nanos \<Rightarrow> int \<Rightarrow> scrub_node list \<Rightarrow> nodes \<Rightarrow> nodes" where
  "touch_nodes now stale [] ns = ns"
| "touch_nodes now stale (n # rest) ns = touch_nodes now stale rest (snd (node_lost now (sn_name n) stale ns))"

definition sweep_nodes :: "backend \<Rightarrow> nanos \<Rightarrow> config \<Rightarrow> (addr, ban) table \<Rightarrow> nodes \<times> io
    \<Rightarrow> (addr, ban) table \<times> nodes \<times> io" where
  "sweep_nodes be now cfg t st = (case st of (ns, s) \<Rightarrow>
     walk (sweep_node_ban be now cfg) t (touch_nodes now (stale_after cfg) (sc_nodes (c_scrubbing cfg)) ns, s))"

end
