(* ===== verification/SourceBlocks.thy ===== *)
theory SourceBlocks
  imports Ban
begin

text \<open>
  Operator and fingerprint source blocks (\<^verbatim>\<open>src/engine/internal/mitigate/sources.go\<close>): a table of
  source to victim pairs, one policy block in the kernel per blocked source. \<open>ss_installed\<close> and
  \<open>ss_fp\<close> are the Go sets \<^verbatim>\<open>sourceInstalled\<close> and \<^verbatim>\<open>fpAnchors\<close> as duplicate-free lists.
\<close>

record source_block =
  sb_source :: addr
  sb_victim :: addr
  sb_created :: nanos
  sb_expires :: nanos
  sb_dry_run :: bool
  sb_auto :: bool
  sb_reason :: string

type_synonym pairs = "(addr, source_block) table"

record src_state =
  ss_blocks :: "(addr, pairs) table"
  ss_installed :: "addr list"
  ss_fp :: "addr list"

definition src_empty :: src_state where
  "src_empty = \<lparr> ss_blocks = [], ss_installed = [], ss_fp = [] \<rparr>"

datatype src_error = ErrInvalidAddrs | ErrFamilies | ErrTTL | ErrDataplaneAbsent | ErrVictimProtected
  | ErrSourceAllowlisted | ErrSourceInNetworks | ErrSourceVictimsFull | ErrSourceSlotsFull
  | ErrFingerprintBlocksFull | ErrInstall mit_error | ErrNotFound

definition min_source_ttl :: int where "min_source_ttl = second"
definition max_source_ttl :: int where "max_source_ttl = 86400 * second"

definition dataplane_on :: "config \<Rightarrow> bool" where
  "dataplane_on cfg \<longleftrightarrow> c_dataplane cfg = Some True"

definition source_block_policy :: "backend \<Rightarrow> config \<Rightarrow> addr \<Rightarrow> addr \<Rightarrow> src_error option" where
  "source_block_policy be cfg victim source =
     (if \<not> be_dp be \<or> \<not> dataplane_on cfg then Some ErrDataplaneAbsent
      else if is_whitelisted cfg victim then Some ErrVictimProtected
      else if dataplane_allowlist_contains cfg source then Some ErrSourceAllowlisted
      else if in_networks cfg source then Some ErrSourceInNetworks
      else None)"

definition source_anchor_budget :: "config \<Rightarrow> int" where
  "source_anchor_budget cfg = dp_max_rules cfg div int rules_per_policy - max_active_bans (c_ban cfg)
     - (case c_carpet cfg of None \<Rightarrow> 0 | Some cp \<Rightarrow> cp_max_active cp)"

definition fp_source_anchor_budget :: "config \<Rightarrow> int" where
  "fp_source_anchor_budget cfg = (let half = source_anchor_budget cfg div 2 in if 0 < half then half else 0)"

definition pairs_of :: "src_state \<Rightarrow> addr \<Rightarrow> pairs" where
  "pairs_of ss source = (case tget (ss_blocks ss) source of None \<Rightarrow> [] | Some p \<Rightarrow> p)"

text \<open>The live pairs of a source and their remaining time, sorted by victim.\<close>

definition live_pairs :: "nanos \<Rightarrow> pairs \<Rightarrow> (addr \<times> int) list" where
  "live_pairs now ps = sort_key fst
     (List.map_filter (\<lambda>(v, b). if sb_dry_run b then None
        else let ttl = time_sub (sb_expires b) now in if 0 < ttl then Some (v, ttl) else None) ps)"

definition drop_source :: "addr \<Rightarrow> src_state \<Rightarrow> src_state" where
  "drop_source source ss = \<lparr> ss_blocks = tdel source (ss_blocks ss),
     ss_installed = removeAll source (ss_installed ss), ss_fp = removeAll source (ss_fp ss) \<rparr>"

definition source_rules :: "addr \<Rightarrow> (addr \<times> int) list \<Rightarrow> flowspec_rule list" where
  "source_rules source lives =
     map (\<lambda>(v, _). anchor_rule (host_prefix v) (host_prefix source) FSDiscard (Fin 0)) lives"

definition with_ttls :: "int list \<Rightarrow> dynamic_rules \<Rightarrow> dynamic_rules" where
  "with_ttls ttls d = d \<lparr> dr_specs := map2 (\<lambda>t s. s \<lparr> sp_ttl := t \<rparr>) ttls (dr_specs d) \<rparr>"

definition reinstall_source :: "backend \<Rightarrow> nanos \<Rightarrow> addr \<Rightarrow> src_state \<times> io \<Rightarrow> mit_error option \<times> src_state \<times> io" where
  "reinstall_source be now source st = (case st of (ss, s) \<Rightarrow>
     let anchor = host_prefix source; lives = live_pairs now (pairs_of ss source) in
     if lives = [] then
       (if \<not> be_dp be \<or> source \<notin> set (ss_installed ss) then (None, ss, s)
        else (None, ss \<lparr> ss_installed := removeAll source (ss_installed ss) \<rparr>,
              snd (do_call be (DpWithdraw anchor) s)))
     else case dataplane_rules (source_rules source lives) (Max (set (map snd lives))) of
       Inl e \<Rightarrow> (Some (ErrCompile e), drop_source source ss, s)
     | Inr d \<Rightarrow> let c = DpInstall anchor (with_ttls (map snd lives) d); (ok, s') = do_call be c s in
         if ok then (None, ss \<lparr> ss_installed := List.insert source (ss_installed ss) \<rparr>, s')
         else (Some (ErrCall c), drop_source source ss, s'))"

text \<open>The refusals of \<^verbatim>\<open>blockSource\<close>, in its order.\<close>

definition block_refusal :: "backend \<Rightarrow> config \<Rightarrow> addr \<Rightarrow> addr \<Rightarrow> int \<Rightarrow> bool \<Rightarrow> src_state \<Rightarrow> src_error option" where
  "block_refusal be cfg victim source ttl auto ss =
     (let pairs = pairs_of ss source; known = (tget (ss_blocks ss) source \<noteq> None) in
      if \<not> addr_valid victim \<or> \<not> addr_valid source then Some ErrInvalidAddrs
      else if is4 victim \<noteq> is4 source then Some ErrFamilies
      else if ttl < min_source_ttl \<or> max_source_ttl < ttl then Some ErrTTL
      else case source_block_policy be cfg victim source of
        Some e \<Rightarrow> Some e
      | None \<Rightarrow>
          if tget pairs victim = None \<and> max_rules_per_attack \<le> length pairs then Some ErrSourceVictimsFull
          else if \<not> known \<and> source_anchor_budget cfg \<le> int (length (ss_blocks ss)) then Some ErrSourceSlotsFull
          else if auto \<and> \<not> known \<and> fp_source_anchor_budget cfg \<le> int (length (ss_fp ss))
            then Some ErrFingerprintBlocksFull
          else None)"

text \<open>The pair it enters, and the table it enters it in.\<close>

definition new_pair :: "nanos \<Rightarrow> config \<Rightarrow> addr \<Rightarrow> addr \<Rightarrow> int \<Rightarrow> string \<Rightarrow> bool \<Rightarrow> src_state \<Rightarrow> source_block" where
  "new_pair now cfg victim source ttl reason auto ss =
     \<lparr> sb_source = source, sb_victim = victim,
       sb_created = (case tget (pairs_of ss source) victim of None \<Rightarrow> now | Some old \<Rightarrow> sb_created old),
       sb_expires = now + ttl, sb_dry_run = c_dry_run cfg, sb_auto = auto, sb_reason = reason \<rparr>"

definition entered :: "addr \<Rightarrow> addr \<Rightarrow> bool \<Rightarrow> source_block \<Rightarrow> src_state \<Rightarrow> src_state" where
  "entered victim source auto sb ss =
     ss \<lparr> ss_blocks := tput source (tput victim sb (pairs_of ss source)) (ss_blocks ss),
          ss_fp := (if tget (ss_blocks ss) source = None \<and> auto then List.insert source (ss_fp ss) else ss_fp ss) \<rparr>"

definition block_source ::
  "backend \<Rightarrow> nanos \<Rightarrow> config \<Rightarrow> addr \<Rightarrow> addr \<Rightarrow> int \<Rightarrow> string \<Rightarrow> bool \<Rightarrow> src_state \<times> io
   \<Rightarrow> (src_error + source_block) \<times> src_state \<times> io" where
  "block_source be now cfg victim0 source0 ttl reason auto st = (case st of (ss, s) \<Rightarrow>
     let victim = unmap victim0; source = unmap source0 in
     case block_refusal be cfg victim source ttl auto ss of
       Some e \<Rightarrow> (Inl e, ss, s)
     | None \<Rightarrow>
         let sb = new_pair now cfg victim source ttl reason auto ss;
             (e, ss2, s2) = reinstall_source be now source (entered victim source auto sb ss, s)
         in (case e of None \<Rightarrow> Inr sb | Some x \<Rightarrow> Inl (ErrInstall x), ss2, mark_dirty s2))"

text \<open>What removing pairs leaves of a source: the other pairs, or no entry.\<close>

definition keep_pairs :: "addr \<Rightarrow> pairs \<Rightarrow> src_state \<Rightarrow> src_state" where
  "keep_pairs source ps ss = (if ps = []
     then ss \<lparr> ss_blocks := tdel source (ss_blocks ss), ss_fp := removeAll source (ss_fp ss) \<rparr>
     else ss \<lparr> ss_blocks := tput source ps (ss_blocks ss) \<rparr>)"

definition unblock_source :: "backend \<Rightarrow> nanos \<Rightarrow> addr \<Rightarrow> addr \<Rightarrow> src_state \<times> io
    \<Rightarrow> (src_error + source_block) \<times> src_state \<times> io" where
  "unblock_source be now victim0 source0 st = (case st of (ss, s) \<Rightarrow>
     let victim = unmap victim0; source = unmap source0; pairs = pairs_of ss source in
     case tget pairs victim of
       None \<Rightarrow> (Inl ErrNotFound, ss, s)
     | Some sb \<Rightarrow>
         let (_, ss2, s2) = reinstall_source be now source (keep_pairs source (tdel victim pairs) ss, s)
         in (Inr sb, ss2, mark_dirty s2))"

text \<open>What the API, the tests and the state file see.\<close>

definition source_blocks :: "src_state \<Rightarrow> source_block list" where
  "source_blocks ss = sort_key (\<lambda>b. (sb_source b, sb_victim b)) (concat (map (map snd \<circ> snd) (ss_blocks ss)))"

definition retire_pair :: "backend \<Rightarrow> nanos \<Rightarrow> config \<Rightarrow> addr \<Rightarrow> addr \<Rightarrow> source_block \<Rightarrow> bool" where
  "retire_pair be now cfg source victim sb \<longleftrightarrow>
     sb_expires sb < now \<or> is_whitelisted cfg victim \<or> dataplane_allowlist_contains cfg source
     \<or> in_networks cfg source \<or> \<not> be_dp be \<or> \<not> dataplane_on cfg"

text \<open>One source of the sweep; the flag says whether anything changed.\<close>

definition sweep_source :: "backend \<Rightarrow> nanos \<Rightarrow> config \<Rightarrow> addr \<Rightarrow> bool \<times> src_state \<times> io \<Rightarrow> bool \<times> src_state \<times> io" where
  "sweep_source be now cfg source st = (case st of (changed, ss, s) \<Rightarrow>
     let pairs = pairs_of ss source; keep = filter (\<lambda>(v, b). \<not> retire_pair be now cfg source v b) pairs in
     if length keep = length pairs then (changed, ss, s)
     else
       let (_, ss2, s2) = reinstall_source be now source (keep_pairs source keep ss, s)
       in (True, ss2, s2))"

definition sweep_source_blocks :: "backend \<Rightarrow> nanos \<Rightarrow> config \<Rightarrow> src_state \<times> io \<Rightarrow> src_state \<times> io" where
  "sweep_source_blocks be now cfg st = (case st of (ss, s) \<Rightarrow>
     let (changed, ss', s') = fold (sweep_source be now cfg) (map fst (ss_blocks ss)) (False, ss, s)
     in (ss', if changed then mark_dirty s' else s'))"

text \<open>\<^verbatim>\<open>updateSourceGaugeLocked\<close>: the real and the dry-run pairs.\<close>

definition source_gauge :: "src_state \<Rightarrow> nat \<times> nat" where
  "source_gauge ss = (let bs = concat (map (map snd \<circ> snd) (ss_blocks ss)) in
     (length (filter (\<lambda>b. \<not> sb_dry_run b) bs), length (filter sb_dry_run bs)))"

end
