(* ===== verification/Lifecycle.thy ===== *)
theory Lifecycle
  imports Events ScrubNodes SourceBlocks FlowRules
begin

text \<open>
  The mitigator's handlers (\<^verbatim>\<open>src/engine/internal/mitigate/mitigate.go\<close>): attack events, manual bans,
  the renewal of kernel deadlines, the one-second sweep and the read-outs. Each handler runs under the
  mutex, so it is one atomic step on \<open>mit\<close>, under the configuration snapshot it loaded. A handler
  that may panic returns \<open>Crash\<close>.
\<close>

section \<open>State\<close>

record mit =
  m_bans :: "(addr, ban) table"
  m_pbans :: "(prefix, ban) table"
  m_window_start :: nanos
  m_in_window :: int
  m_last_persist :: nanos
  m_nodes :: nodes
  m_src :: src_state
  m_io :: io

definition mit_new :: mit where
  "mit_new = \<lparr> m_bans = [], m_pbans = [], m_window_start = 0, m_in_window = 0, m_last_persist = 0,
     m_nodes = [], m_src = src_empty, m_io = \<lparr> io_log = [], io_dirty = False \<rparr> \<rparr>"

datatype 'a outcome = Crash | Done 'a

record ban_opts =
  o_metric :: metric
  o_rate :: f64
  o_threshold :: f64
  o_dir_mask :: "8 word"
  o_direction :: direction
  o_class :: "classification option"
  o_sample :: "attack_sample option"
  o_manual :: bool

definition manual_opts :: ban_opts where
  "manual_opts = \<lparr> o_metric = MetricNone, o_rate = Fin 0, o_threshold = Fin 0, o_dir_mask = 0,
     o_direction = DirUnset, o_class = None, o_sample = None, o_manual = True \<rparr>"

section \<open>Counting\<close>

definition is_active :: "ban \<Rightarrow> bool" where
  "is_active b \<longleftrightarrow> b_state b = BanActive"

definition active_count :: "mit \<Rightarrow> nat" where
  "active_count m = tcount is_active (m_bans m)"

definition active_prefix_bans :: "mit \<Rightarrow> nat" where
  "active_prefix_bans m = tcount is_active (m_pbans m)"

definition address_count_for_prefix :: "prefix \<Rightarrow> f64" where
  "address_count_for_prefix p =
     (let k = (if is6 (pfx_addr p) then 128 else 32) - pfx_bits p in
      if 0 \<le> k then ldexp1 (nat k) else f64_of (1 / 2 ^ nat (- k)))"

definition add_span :: "bool \<Rightarrow> f64 \<Rightarrow> ban \<Rightarrow> f64" where
  "add_span six n b = (if is_active b \<and> is6 (b_target b) = six
                       then fadd n (address_count_for_prefix (b_prefix b)) else n)"

definition active_addresses_by_family :: "mit \<Rightarrow> bool \<Rightarrow> f64" where
  "active_addresses_by_family m six =
     foldl (add_span six) (foldl (add_span six) (Fin 0) (map snd (m_bans m))) (map snd (m_pbans m))"

text \<open>The entry of a key when it is there and active.\<close>

definition find_active :: "('k, ban) table \<Rightarrow> 'k \<Rightarrow> ban option" where
  "find_active t k = (case tget t k of None \<Rightarrow> None | Some b \<Rightarrow> if is_active b then Some b else None)"

section \<open>The blast-radius guards\<close>

text \<open>\<open>addrs\<close> is 1 for a host ban and the span of the prefix for a carpet ban.\<close>

definition fraction_exceeded :: "config \<Rightarrow> mit \<Rightarrow> bool \<Rightarrow> f64 \<Rightarrow> bool" where
  "fraction_exceeded cfg m six addrs \<longleftrightarrow>
     flt (Fin 0) (max_banned_fraction (c_ban cfg)) \<and> flt (Fin 0) (protected_addrs cfg six)
     \<and> flt (max_banned_fraction (c_ban cfg))
          (fdiv (fadd (active_addresses_by_family m six) addrs) (protected_addrs cfg six))"

text \<open>The per-window creation guard; it may open a new window, refused or not.\<close>

definition rate_guard :: "nanos \<Rightarrow> config \<Rightarrow> mit \<Rightarrow> bool \<times> mit" where
  "rate_guard now cfg m =
     (if max_bans_per_window (c_ban cfg) \<le> 0 then (True, m)
      else let m' = (if is_zero_time (m_window_start m) \<or> ban_window (c_ban cfg) \<le> time_sub now (m_window_start m)
                     then m \<lparr> m_window_start := now, m_in_window := 0 \<rparr> else m)
           in (m_in_window m' < max_bans_per_window (c_ban cfg), m'))"

definition count_creation :: "config \<Rightarrow> mit \<Rightarrow> mit" where
  "count_creation cfg m = (if 0 < max_bans_per_window (c_ban cfg) then m \<lparr> m_in_window := m_in_window m + 1 \<rparr> else m)"

section \<open>Creating a ban\<close>

definition rejected :: "addr \<Rightarrow> prefix \<Rightarrow> config \<Rightarrow> string \<Rightarrow> ban" where
  "rejected t p cfg why = ban_zero \<lparr> b_target := t, b_prefix := p, b_state := BanRejected, b_reason := why,
     b_dry_run := c_dry_run cfg \<rparr>"

definition put_ban :: "addr \<Rightarrow> ban \<Rightarrow> mit \<Rightarrow> mit" where
  "put_ban a b m = m \<lparr> m_bans := tput a b (m_bans m) \<rparr>"

definition put_pban :: "prefix \<Rightarrow> ban \<Rightarrow> mit \<Rightarrow> mit" where
  "put_pban p b m = m \<lparr> m_pbans := tput p b (m_pbans m) \<rparr>"

definition dirty :: "mit \<Rightarrow> mit" where
  "dirty m = m \<lparr> m_io := mark_dirty (m_io m) \<rparr>"

text \<open>The frozen ban of \<^verbatim>\<open>ban()\<close>: attributes and generated rules, before the first rung.\<close>

definition draft_ban :: "nanos \<Rightarrow> nodes \<Rightarrow> config \<Rightarrow> addr \<Rightarrow> ban_opts \<Rightarrow> ban" where
  "draft_ban now ns cfg target opts =
     (let g = group_for cfg target;
          b0 = ban_zero \<lparr> b_target := target, b_prefix := host_prefix target, b_metric := o_metric opts,
             b_rate := o_rate opts, b_threshold := o_threshold opts, b_state := BanActive,
             b_dry_run := c_dry_run cfg, b_manual := o_manual opts, b_started := now,
             b_expires := now + ban_ttl (c_ban cfg), b_dir_mask := o_dir_mask opts, b_escalation := g_escalation g \<rparr>;
          b1 = freeze_unicast_attrs now ns cfg g target b0
      in if uses_flowspec (g_escalation g) \<or> uses_dataplane (g_escalation g)
            \<or> divert_generates_rules (g_escalation g) (c_scrubbing cfg)
         then b1 \<lparr> b_rules := generate_rules target (o_direction opts) (o_class opts) (o_sample opts)
                     (g_fs_action g) (g_fs_rate g) (g_src_anchored g) (g_min_conc g) \<rparr>
         else b1)"

definition draft_prefix_ban :: "nanos \<Rightarrow> nodes \<Rightarrow> config \<Rightarrow> prefix \<Rightarrow> mitigation_method \<Rightarrow> ban_opts \<Rightarrow> ban" where
  "draft_prefix_ban now ns cfg p method opts =
     (let stages = [\<lparr> after_seconds = 0, stage_action = method_action method \<rparr>];
          b0 = ban_zero \<lparr> b_target := pfx_addr p, b_prefix := p, b_metric := o_metric opts,
             b_rate := o_rate opts, b_threshold := o_threshold opts, b_state := BanActive,
             b_dry_run := c_dry_run cfg, b_started := now, b_expires := now + ban_ttl (c_ban cfg),
             b_escalation := stages \<rparr>;
          b1 = freeze_unicast_attrs now ns cfg (c_groups cfg ! 0) (pfx_addr p) b0
      in if uses_flowspec stages \<or> uses_dataplane stages
         then b1 \<lparr> b_rules := generate_carpet_rules p (o_class opts) (o_sample opts) FSDiscard (Fin 0) \<rparr>
         else b1)"

definition reject_reason :: string where "reject_reason = ''bgp announce failed''"

text \<open>Apply the first rung and, when it holds, enter the ban with \<open>put\<close>.\<close>

definition install_ban :: "backend \<Rightarrow> nanos \<Rightarrow> config \<Rightarrow> (ban \<Rightarrow> mit \<Rightarrow> mit) \<Rightarrow> ban \<Rightarrow> mit \<Rightarrow> (ban \<times> mit) outcome" where
  "install_ban be now cfg put b0 m =
     (case apply_stage be now cfg b0 0 (m_io m) of
        (Some ErrPanic, _, _) \<Rightarrow> Crash
      | (Some e, b, s) \<Rightarrow> Done (b \<lparr> b_state := BanRejected, b_reason := reject_reason \<rparr>, m \<lparr> m_io := s \<rparr>)
      | (None, b, s) \<Rightarrow> Done (b, dirty (put b (count_creation cfg (m \<lparr> m_io := s \<rparr>)))))"

definition ban_host :: "backend \<Rightarrow> nanos \<Rightarrow> config \<Rightarrow> addr \<Rightarrow> ban_opts \<Rightarrow> mit \<Rightarrow> (ban \<times> mit) outcome" where
  "ban_host be now cfg target opts m =
     (if is_whitelisted cfg target then Done (rejected target prefix_none cfg ''whitelisted'', m)
      else if \<not> in_networks cfg target then Done (rejected target prefix_none cfg ''outside configured networks'', m)
      else case find_active (m_bans m) target of
        Some b \<Rightarrow>
          let b' = b \<lparr> b_expires := now + ban_ttl (c_ban cfg), b_dir_mask := b_dir_mask b OR o_dir_mask opts \<rparr>
          in Done (b', dirty (put_ban target b' m))
      | None \<Rightarrow>
          if max_active_bans (c_ban cfg) \<le> int (active_count m)
            then Done (rejected target (host_prefix target) cfg ''max_active_bans reached'', m)
          else if fraction_exceeded cfg m (is6 target) (Fin 1)
            then Done (rejected target (host_prefix target) cfg ''max_banned_fraction reached'', m)
          else let (ok, m1) = rate_guard now cfg m in
            if \<not> ok then Done (rejected target (host_prefix target) cfg ''max_bans_per_window reached'', m1)
            else install_ban be now cfg (put_ban target) (draft_ban now (m_nodes m1) cfg target opts) m1)"

definition ban_prefix :: "backend \<Rightarrow> nanos \<Rightarrow> config \<Rightarrow> prefix \<Rightarrow> ban_opts \<Rightarrow> mit \<Rightarrow> (ban option \<times> mit) outcome" where
  "ban_prefix be now cfg p opts m =
     (case c_carpet cfg of
        None \<Rightarrow> Crash
      | Some cp \<Rightarrow>
        if carpet_method cp = NoMethod then Done (None, m)
        else if prefix_contains_whitelisted cfg p
          then Done (Some (rejected (pfx_addr p) p cfg ''whitelisted member in prefix''), m)
        else if \<not> prefix_in_networks cfg p
          then Done (Some (rejected (pfx_addr p) p cfg ''prefix outside configured networks''), m)
        else case find_active (m_pbans m) p of
          Some b \<Rightarrow> let b' = b \<lparr> b_expires := now + ban_ttl (c_ban cfg) \<rparr> in Done (Some b', dirty (put_pban p b' m))
        | None \<Rightarrow>
            if cp_max_active cp \<le> int (active_prefix_bans m)
              then Done (Some (rejected (pfx_addr p) p cfg ''max_active_prefix_bans reached''), m)
            else if fraction_exceeded cfg m (is6 (pfx_addr p)) (address_count_for_prefix p)
              then Done (Some (rejected (pfx_addr p) p cfg ''max_banned_fraction reached''), m)
            else let (ok, m1) = rate_guard now cfg m in
              if \<not> ok then Done (Some (rejected (pfx_addr p) p cfg ''max_bans_per_window reached''), m1)
              else (case install_ban be now cfg (put_pban p)
                           (draft_prefix_ban now (m_nodes m1) cfg p (carpet_method cp) opts) m1 of
                      Crash \<Rightarrow> Crash
                    | Done (b, m2) \<Rightarrow> Done (Some b, m2)))"

section \<open>Attack events\<close>

definition opts_of_event :: "event \<Rightarrow> ban_opts" where
  "opts_of_event ev = \<lparr> o_metric = ev_metric ev, o_rate = ev_rate ev, o_threshold = ev_threshold ev,
     o_dir_mask = dir_bit (ev_direction ev), o_direction = ev_direction ev, o_class = ev_class ev,
     o_sample = ev_sample ev, o_manual = False \<rparr>"

definition on_attack_started :: "backend \<Rightarrow> nanos \<Rightarrow> config \<Rightarrow> event \<Rightarrow> mit \<Rightarrow> (ban option \<times> mit) outcome" where
  "on_attack_started be now cfg ev m =
     (if ev_scope ev = ScopeGroup \<or> \<not> ev_ban_enabled ev then Done (None, m)
      else if ev_scope ev = ScopePrefix then
        (case parse_prefix (ev_prefix ev) of
           None \<Rightarrow> Done (None, m)
         | Some p \<Rightarrow> ban_prefix be now cfg p ((opts_of_event ev) \<lparr> o_dir_mask := 0 \<rparr>) m)
      else case ban_host be now cfg (ev_target ev) (opts_of_event ev) m of
             Crash \<Rightarrow> Crash | Done (b, m') \<Rightarrow> Done (Some b, m'))"

definition on_attack_ended :: "backend \<Rightarrow> nanos \<Rightarrow> event \<Rightarrow> mit \<Rightarrow> ban option \<times> mit" where
  "on_attack_ended be now ev m =
     (if ev_scope ev = ScopeGroup then (None, m)
      else if ev_scope ev = ScopePrefix then
        (case parse_prefix (ev_prefix ev) of
           None \<Rightarrow> (None, m)
         | Some p \<Rightarrow> (case find_active (m_pbans m) p of
             None \<Rightarrow> (None, m)
           | Some b \<Rightarrow> let (b', s) = withdraw_ban be now ''carpet attack ended'' False b (m_io m)
                    in (Some b', put_pban p b' (m \<lparr> m_io := s \<rparr>))))
      else case find_active (m_bans m) (ev_target ev) of
             None \<Rightarrow> (None, m)
           | Some b0 \<Rightarrow> let b = b0 \<lparr> b_dir_mask := b_dir_mask b0 AND NOT (dir_bit (ev_direction ev)) \<rparr> in
                 if b_dir_mask b \<noteq> 0 \<or> b_manual b then (Some b, put_ban (ev_target ev) b m)
                 else let (b', s) = withdraw_ban be now ''attack ended'' False b (m_io m)
                      in (Some b', put_ban (ev_target ev) b' (m \<lparr> m_io := s \<rparr>)))"

text \<open>Go's truncating halving of a duration.\<close>

definition half_dur :: "int \<Rightarrow> int" where
  "half_dur d = (if d < 0 then - ((- d) div 2) else d div 2)"

definition renew_ban :: "backend \<Rightarrow> nanos \<Rightarrow> int \<Rightarrow> (ban \<Rightarrow> bool) \<Rightarrow> ban \<Rightarrow> io \<Rightarrow> ban \<times> io" where
  "renew_ban be now ttl skip b s =
     (if skip b \<or> \<not> is_active b \<or> b_method b \<noteq> MitigateDataplane \<or> b_dry_run b then (b, s)
      else if time_sub now (b_dp_at b) < half_dur ttl then (b, s)
      else case install_dataplane be now b s of
             (Some e, b', s') \<Rightarrow> (b', s')
           | (None, b', s') \<Rightarrow> (b' \<lparr> b_dp_at := now \<rparr>, s'))"

definition renew_dataplane :: "backend \<Rightarrow> nanos \<Rightarrow> config \<Rightarrow> mit \<Rightarrow> mit" where
  "renew_dataplane be now cfg m =
     (let ttl = ban_ttl (c_ban cfg) in
      if \<not> be_dp be then m else if ttl \<le> 0 then m
      else let (t, s) = walk (renew_ban be now ttl (\<lambda>b. is_whitelisted cfg (b_target b))) (m_bans m) (m_io m);
               (pt, s') = walk (renew_ban be now ttl (\<lambda>b. prefix_contains_whitelisted cfg (b_prefix b))) (m_pbans m) s
           in m \<lparr> m_bans := t, m_pbans := pt, m_io := s' \<rparr>)"

text \<open>The refresh of one event: the new state when an active ban was found.\<close>

definition refresh_ban :: "nanos \<Rightarrow> config \<Rightarrow> event \<Rightarrow> mit \<Rightarrow> mit option" where
  "refresh_ban now cfg ev m =
     (if ev_scope ev = ScopePrefix then
        (case parse_prefix (ev_prefix ev) of
           None \<Rightarrow> None
         | Some p \<Rightarrow> if prefix_contains_whitelisted cfg p then None
             else case find_active (m_pbans m) p of
                    None \<Rightarrow> None
                  | Some b \<Rightarrow> Some (put_pban p (b \<lparr> b_expires := now + ban_ttl (c_ban cfg) \<rparr>) m))
      else case find_active (m_bans m) (ev_target ev) of
             None \<Rightarrow> None
           | Some b \<Rightarrow> Some (put_ban (ev_target ev) (b \<lparr> b_expires := now + ban_ttl (c_ban cfg),
                            b_dir_mask := b_dir_mask b OR dir_bit (ev_direction ev) \<rparr>) m))"

definition on_attack_ongoing :: "backend \<Rightarrow> nanos \<Rightarrow> config \<Rightarrow> event \<Rightarrow> mit \<Rightarrow> mit" where
  "on_attack_ongoing be now cfg ev m =
     (if ev_scope ev = ScopeGroup \<or> \<not> ev_ban_enabled ev then m
      else case refresh_ban now cfg ev m of
        None \<Rightarrow> m
      | Some m1 \<Rightarrow>
          let m2 = (if half_dur (ban_ttl (c_ban cfg)) \<le> time_sub now (m_last_persist m1)
                    then dirty (m1 \<lparr> m_last_persist := now \<rparr>) else m1)
          in renew_dataplane be now cfg m2)"

section \<open>Operator requests\<close>

definition manual_ban :: "backend \<Rightarrow> nanos \<Rightarrow> config \<Rightarrow> addr \<Rightarrow> mit \<Rightarrow> (ban option \<times> mit) outcome" where
  "manual_ban be now cfg target m =
     (if \<not> addr_valid target then Done (None, m)
      else case ban_host be now cfg target manual_opts m of
             Crash \<Rightarrow> Crash | Done (b, m') \<Rightarrow> Done (Some b, m'))"

definition unban :: "backend \<Rightarrow> nanos \<Rightarrow> addr \<Rightarrow> string \<Rightarrow> bool \<Rightarrow> mit \<Rightarrow> ban option \<times> mit" where
  "unban be now target why manual m =
     (case find_active (m_bans m) target of
        None \<Rightarrow> (None, m)
      | Some b \<Rightarrow> let (b', s) = withdraw_ban be now why manual b (m_io m)
               in (Some b', put_ban target b' (m \<lparr> m_io := s \<rparr>)))"

definition manual_unban :: "backend \<Rightarrow> nanos \<Rightarrow> addr \<Rightarrow> mit \<Rightarrow> ban option \<times> mit" where
  "manual_unban be now target m =
     (if \<not> addr_valid target then (None, m) else unban be now target ''manual unban'' True m)"

section \<open>The sweep\<close>

definition expired :: "nanos \<Rightarrow> ban \<Rightarrow> bool" where
  "expired now b \<longleftrightarrow> \<not> is_zero_time (b_expires b) \<and> b_expires b < now"

definition sweep_host :: "backend \<Rightarrow> nanos \<Rightarrow> config \<Rightarrow> ban \<Rightarrow> io \<Rightarrow> ban \<times> io" where
  "sweep_host be now cfg b s =
     (if \<not> is_active b then (b, s)
      else if expired now b then withdraw_ban be now ''ttl expired'' False b s
      else if \<not> in_networks cfg (b_target b) then withdraw_ban be now ''target left configured networks'' False b s
      else escalate be now cfg b s)"

definition sweep_prefix :: "backend \<Rightarrow> nanos \<Rightarrow> config \<Rightarrow> ban \<Rightarrow> io \<Rightarrow> ban \<times> io" where
  "sweep_prefix be now cfg b s =
     (if \<not> is_active b then (b, s)
      else if expired now b then withdraw_ban be now ''ttl expired'' False b s
      else if \<not> prefix_in_networks cfg (b_prefix b) then withdraw_ban be now ''prefix left configured networks'' False b s
      else if prefix_contains_whitelisted cfg (b_prefix b)
        then withdraw_ban be now ''prefix contains whitelisted member'' False b s
      else escalate be now cfg b s)"

definition sweep_expired :: "backend \<Rightarrow> nanos \<Rightarrow> config \<Rightarrow> mit \<Rightarrow> mit" where
  "sweep_expired be now cfg m =
     (let (t, s1) = walk (sweep_host be now cfg) (m_bans m) (m_io m);
          (pt, s2) = walk (sweep_prefix be now cfg) (m_pbans m) s1;
          (src, s3) = sweep_source_blocks be now cfg (m_src m, s2);
          (t', ns, s4) = sweep_nodes be now cfg t (m_nodes m, s3)
      in m \<lparr> m_bans := t', m_pbans := pt, m_src := src, m_nodes := ns, m_io := s4 \<rparr>)"

section \<open>Read-outs\<close>

record gauges =
  ga_real_bans :: nat
  ga_real_fs :: nat
  ga_dry_bans :: nat
  ga_dry_fs :: nat
  ga_real_dp :: nat
  ga_real_dp_rules :: nat
  ga_dry_dp :: nat
  ga_dry_dp_rules :: nat

definition gauges_zero :: gauges where
  "gauges_zero = \<lparr> ga_real_bans = 0, ga_real_fs = 0, ga_dry_bans = 0, ga_dry_fs = 0,
     ga_real_dp = 0, ga_real_dp_rules = 0, ga_dry_dp = 0, ga_dry_dp_rules = 0 \<rparr>"

definition gauge_count :: "gauges \<Rightarrow> ban \<Rightarrow> gauges" where
  "gauge_count g b =
     (if \<not> is_active b \<or> b_method b = NoMethod then g
      else if b_method b = MitigateDataplane then
        (if b_dry_run b then g \<lparr> ga_dry_dp := ga_dry_dp g + 1, ga_dry_dp_rules := ga_dry_dp_rules g + length (b_rules b) \<rparr>
         else g \<lparr> ga_real_dp := ga_real_dp g + 1, ga_real_dp_rules := ga_real_dp_rules g + length (b_rules b) \<rparr>)
      else let fs = (if b_method b = MitigateFlowSpec then length (b_rules b) else 0) in
        (if b_dry_run b then g \<lparr> ga_dry_bans := ga_dry_bans g + 1, ga_dry_fs := ga_dry_fs g + fs \<rparr>
         else g \<lparr> ga_real_bans := ga_real_bans g + 1, ga_real_fs := ga_real_fs g + fs \<rparr>))"

definition ban_gauges :: "mit \<Rightarrow> gauges" where
  "ban_gauges m = foldl gauge_count (foldl gauge_count gauges_zero (map snd (m_bans m))) (map snd (m_pbans m))"

text \<open>\<^verbatim>\<open>sort.Slice\<close> is not stable; the model keeps the stable one of its results.\<close>

definition active_bans :: "mit \<Rightarrow> ban list" where
  "active_bans m = sort_key b_target (filter is_active (map snd (m_bans m)) @ filter is_active (map snd (m_pbans m)))"

definition snapshot_bans :: "mit \<Rightarrow> ban list" where
  "snapshot_bans m = sort_key (\<lambda>b. - b_started b) (map snd (m_bans m) @ map snd (m_pbans m))"

end
