(* ===== verification/Enforce.thy ===== *)
theory Enforce
  imports Ban KernelSelect "HOL-Library.Sublist"
begin

text \<open>
  What the outside world holds for a ban. Each call of the log concerns one piece of state at the
  speaker or in the kernel (\<open>nlri\<close>): a host or prefix route, a FlowSpec rule (keyed by its match, as
  \<^verbatim>\<open>flowSpecNLRI\<close> in \<^verbatim>\<open>src/engine/internal/mitigate/bgp.go\<close> keys it), or the kernel policy block of a
  prefix. \<open>standing\<close> folds the log: a successful announce or install sets it up, a successful withdraw
  takes it down, a failed call leaves it as it was. The lemmas say which pieces each operation of a
  ban can touch, what a successful announce sets up, and that the climb never leaves a gap.
\<close>

section \<open>State outside the mitigator\<close>

datatype nlri = NUni prefix | NFs flowspec_rule | NDp prefix

definition fs_key :: "flowspec_rule \<Rightarrow> flowspec_rule" where
  "fs_key r = r \<lparr> r_action := FSNone, r_rate := Fin 0 \<rparr>"

fun nlri_of :: "call \<Rightarrow> nlri" where
  "nlri_of (Announce p a) = NUni p"
| "nlri_of (Withdraw p) = NUni p"
| "nlri_of (AnnounceFS r) = NFs (fs_key r)"
| "nlri_of (WithdrawFS r) = NFs (fs_key r)"
| "nlri_of (DpInstall p d) = NDp p"
| "nlri_of (DpWithdraw p) = NDp p"

fun adds :: "call \<Rightarrow> bool" where
  "adds (Announce p a) = True"
| "adds (AnnounceFS r) = True"
| "adds (DpInstall p d) = True"
| "adds (Withdraw p) = False"
| "adds (WithdrawFS r) = False"
| "adds (DpWithdraw p) = False"

fun standing :: "nlri \<Rightarrow> call_log \<Rightarrow> bool" where
  "standing n [] = False"
| "standing n (e # l) =
     (if nlri_of (fst e) \<noteq> n then standing n l
      else if adds (fst e) then snd e \<or> standing n l else \<not> snd e \<and> standing n l)"

definition method_nlris :: "ban \<Rightarrow> mitigation_method \<Rightarrow> nlri set" where
  "method_nlris b m = (case m of NoMethod \<Rightarrow> {}
     | MitigateDataplane \<Rightarrow> {NDp (b_prefix b)}
     | MitigateFlowSpec \<Rightarrow> (\<lambda>r. NFs (fs_key r)) ` set (b_rules b)
     | _ \<Rightarrow> {NUni (b_prefix b)})"

definition enforced :: "ban \<Rightarrow> mitigation_method \<Rightarrow> call_log \<Rightarrow> bool" where
  "enforced b m l \<longleftrightarrow> (\<forall>n \<in> method_nlris b m. standing n l)"

section \<open>Logs that grow\<close>

definition emits :: "io \<Rightarrow> io \<Rightarrow> (call \<Rightarrow> bool) \<Rightarrow> bool" where
  "emits s s' P \<longleftrightarrow> (\<exists>l. io_log s' = l @ io_log s \<and> (\<forall>e \<in> set l. P (fst e)))"

definition between :: "io \<Rightarrow> io \<Rightarrow> call_log \<Rightarrow> bool" where
  "between s s' l \<longleftrightarrow> suffix (io_log s) l \<and> suffix l (io_log s')"

named_theorems emit_rules "the calls an operation can make"

lemma emits_refl [simp, intro]: "emits s s P"
  by (simp add: emits_def)

lemma emits_trans: "emits s s1 P \<Longrightarrow> emits s1 s2 P \<Longrightarrow> emits s s2 P"
  unfolding emits_def by fastforce

lemma emits_mono: "emits s s' P \<Longrightarrow> (\<And>c. P c \<Longrightarrow> Q c) \<Longrightarrow> emits s s' Q"
  unfolding emits_def by blast

lemma emits_do_call: "do_call be c s = (r, s') \<Longrightarrow> P c \<Longrightarrow> emits s s' P"
  by (auto simp: do_call_def emits_def Let_def)

lemma emits_log: "io_log s' = io_log s \<Longrightarrow> emits s s' P"
  by (simp add: emits_def)

lemma mark_dirty_log [simp]: "io_log (mark_dirty s) = io_log s"
  by (simp add: mark_dirty_def)

lemma emits_mark_dirty [simp]: "emits s (mark_dirty s') P \<longleftrightarrow> emits s s' P"
  by (simp add: emits_def)

lemma between_same: "io_log s' = io_log s \<Longrightarrow> between s s' l \<longleftrightarrow> l = io_log s"
  by (auto simp: between_def intro: suffix_order.antisym)

lemma emits_suffix: "emits s s' P \<Longrightarrow> suffix (io_log s) (io_log s')"
  by (auto simp: emits_def suffix_def)

text \<open>A moment between three states lies in one of the two halves.\<close>

lemma between_split:
  assumes "between s s2 l" "suffix (io_log s1) (io_log s2)"
  shows "between s s1 l \<or> between s1 s2 l"
  using assms suffix_same_cases unfolding between_def by blast

lemma between_emits:
  assumes "emits s s' P" "between s s' l"
  shows "\<exists>k. l = k @ io_log s \<and> (\<forall>e \<in> set k. P (fst e))"
proof -
  obtain n where n: "io_log s' = n @ io_log s" "\<forall>e \<in> set n. P (fst e)"
    using assms(1) by (auto simp: emits_def)
  obtain k h where k: "l = k @ io_log s" "io_log s' = h @ l"
    using assms(2) by (auto simp: between_def suffix_def)
  then have "set k \<subseteq> set n" using n(1) by auto
  then show ?thesis using k(1) n(2) by blast
qed

lemma standing_append_other:
  "\<forall>e \<in> set k. nlri_of (fst e) \<noteq> n \<Longrightarrow> standing n (k @ l) = standing n l"
  by (induction k) auto

lemma standing_append_adds:
  "\<forall>e \<in> set k. nlri_of (fst e) = n \<longrightarrow> adds (fst e) \<Longrightarrow> standing n l \<Longrightarrow> standing n (k @ l)"
  by (induction k) auto

lemma standing_between:
  assumes "emits s s' (\<lambda>c. nlri_of c = n \<longrightarrow> adds c)" "standing n (io_log s)" "between s s' l"
  shows "standing n l"
  using between_emits [OF assms(1,3)] assms(2) standing_append_adds by blast

lemma standing_emits:
  "emits s s' (\<lambda>c. nlri_of c = n \<longrightarrow> adds c) \<Longrightarrow> standing n (io_log s) \<Longrightarrow> standing n (io_log s')"
  using standing_append_adds unfolding emits_def by metis

lemma standing_emits_other:
  "emits s s' (\<lambda>c. nlri_of c \<noteq> n) \<Longrightarrow> standing n (io_log s') = standing n (io_log s)"
  using standing_append_other unfolding emits_def by metis

lemma standing_do_call:
  "do_call be c s = (r, s') \<Longrightarrow> standing (nlri_of c) (io_log s') =
     (if adds c then r \<or> standing (nlri_of c) (io_log s) else \<not> r \<and> standing (nlri_of c) (io_log s))"
  by (auto simp: do_call_def Let_def)

section \<open>What announcing and withdrawing touch\<close>

lemma withdraw_flowspec_emits [emit_rules]:
  "emits s (withdraw_flowspec be rs s) (\<lambda>c. nlri_of c \<in> (\<lambda>r. NFs (fs_key r)) ` set rs)"
proof (induction rs arbitrary: s)
  case (Cons r rs)
  obtain ok s1 where c: "do_call be (WithdrawFS r) s = (ok, s1)" by (cases "do_call be (WithdrawFS r) s")
  have "emits s s1 (\<lambda>c. nlri_of c \<in> (\<lambda>r. NFs (fs_key r)) ` set (r # rs))"
    by (rule emits_do_call [OF c]) simp
  moreover have "emits s1 (withdraw_flowspec be rs s1) (\<lambda>c. nlri_of c \<in> (\<lambda>r. NFs (fs_key r)) ` set (r # rs))"
    by (rule emits_mono [OF Cons.IH]) auto
  ultimately show ?case using c emits_trans by simp
qed simp

lemma announce_flowspec_emits [emit_rules]:
  "announce_flowspec be sent rs s = (e, s') \<Longrightarrow>
   emits s s' (\<lambda>c. nlri_of c \<in> (\<lambda>r. NFs (fs_key r)) ` (set sent \<union> set rs))"
proof (induction rs arbitrary: sent s)
  case (Cons r rs)
  let ?P = "\<lambda>c. nlri_of c \<in> (\<lambda>r. NFs (fs_key r)) ` (set sent \<union> set (r # rs))"
  obtain ok s1 where c: "do_call be (AnnounceFS r) s = (ok, s1)" by (cases "do_call be (AnnounceFS r) s")
  have first: "emits s s1 ?P" by (rule emits_do_call [OF c]) simp
  show ?case
  proof (cases ok)
    case True
    then have "emits s1 s' ?P" using Cons.IH [of "sent @ [r]" s1] Cons.prems c by (auto simp: insert_commute)
    then show ?thesis using first emits_trans by blast
  next
    case False
    then have "s' = withdraw_flowspec be sent s1" using Cons.prems c by simp
    then have "emits s1 s' ?P" using emits_mono [OF withdraw_flowspec_emits [of s1 be sent], of ?P] by blast
    then show ?thesis using first emits_trans by blast
  qed
qed simp

lemma announce_flowspec_stands:
  "announce_flowspec be sent rs s = (None, s') \<Longrightarrow> \<forall>r \<in> set sent. standing (NFs (fs_key r)) (io_log s) \<Longrightarrow>
   \<forall>r \<in> set sent \<union> set rs. standing (NFs (fs_key r)) (io_log s')"
proof (induction rs arbitrary: sent s)
  case (Cons r rs)
  obtain ok s1 where c: "do_call be (AnnounceFS r) s = (ok, s1)" by (cases "do_call be (AnnounceFS r) s")
  have ok: ok and rec: "announce_flowspec be (sent @ [r]) rs s1 = (None, s')"
    using Cons.prems(1) c by (auto split: if_splits)
  have "standing (NFs (fs_key q)) (io_log s1)" if "q \<in> set sent \<or> q = r" for q
    using that Cons.prems(2) c ok by (auto simp: do_call_def Let_def)
  then show ?case using Cons.IH [OF rec] by auto
qed simp

lemma install_dataplane_emits [emit_rules]:
  "install_dataplane be now b s = (e, b', s') \<Longrightarrow> emits s s' (\<lambda>c. nlri_of c = NDp (b_prefix b) \<and> adds c)"
  by (auto simp: install_dataplane_def Let_def emits_do_call split: if_splits sum.splits prod.splits)

lemma install_dataplane_stands:
  "install_dataplane be now b s = (None, b', s') \<Longrightarrow> standing (NDp (b_prefix b)) (io_log s')"
  by (auto simp: install_dataplane_def Let_def do_call_def split: if_splits sum.splits prod.splits)

lemma announce_method_emits [emit_rules]:
  "announce_method be now cfg b m attrs s = (e, b', s') \<Longrightarrow>
   emits s s' (\<lambda>c. nlri_of c \<in> method_nlris b m \<and> (\<forall>p. nlri_of c = NUni p \<longrightarrow> adds c))"
  unfolding announce_method_def
  by (cases m)
    (auto simp: method_nlris_def Let_def emits_do_call split: if_splits prod.splits
       elim!: emits_mono [OF install_dataplane_emits] emits_mono [OF announce_flowspec_emits])

lemma announce_method_stands:
  assumes "announce_method be now cfg b m attrs s = (None, b', s')" "\<not> c_dry_run cfg"
  shows "enforced b m (io_log s')"
  using assms unfolding announce_method_def enforced_def
  by (cases m)
    (auto simp: method_nlris_def Let_def do_call_def install_dataplane_stands
       dest!: announce_flowspec_stands split: if_splits prod.splits)

lemma withdraw_method_emits [emit_rules]:
  "emits s (withdraw_method be b m s) (\<lambda>c. nlri_of c \<in> method_nlris b m)"
  unfolding withdraw_method_def
  by (cases m) (auto simp: method_nlris_def intro!: withdraw_flowspec_emits emits_do_call prod.collapse [symmetric])

section \<open>What stays of a ban\<close>

text \<open>The fields no rung changes.\<close>

definition same_ban :: "ban \<Rightarrow> ban \<Rightarrow> bool" where
  "same_ban b b' \<longleftrightarrow> b_target b' = b_target b \<and> b_prefix b' = b_prefix b \<and> b_state b' = b_state b
     \<and> b_dry_run b' = b_dry_run b \<and> b_manual b' = b_manual b \<and> b_started b' = b_started b
     \<and> b_expires b' = b_expires b \<and> b_rules b' = b_rules b \<and> b_escalation b' = b_escalation b
     \<and> b_dir_mask b' = b_dir_mask b \<and> b_bh b' = b_bh b \<and> b_div b' = b_div b"

lemma same_ban_refl [simp]: "same_ban b b"
  by (simp add: same_ban_def)

lemma same_ban_trans: "same_ban a b \<Longrightarrow> same_ban b c \<Longrightarrow> same_ban a c"
  by (simp add: same_ban_def)

lemma same_ban_upd [simp]:
  "same_ban b (set_active_stage i v b') = same_ban b b'"
  "same_ban b (note_fallback f m w b') = same_ban b b'"
  "same_ban b (b' \<lparr> b_step := i \<rparr>) = same_ban b b'"
  "same_ban b (b' \<lparr> b_dp_at := t \<rparr>) = same_ban b b'"
  by (simp_all add: same_ban_def set_active_stage_def note_fallback_def)

lemma method_nlris_same: "same_ban b b' \<Longrightarrow> method_nlris b' m = method_nlris b m"
  by (simp add: method_nlris_def same_ban_def split: mitigation_method.splits)

lemma enforced_same: "same_ban b b' \<Longrightarrow> enforced b' m l = enforced b m l"
  by (simp add: enforced_def method_nlris_same)

lemma install_dataplane_frame [frame]:
  "install_dataplane be now b s = (e, b', s') \<Longrightarrow> same_ban b b' \<and> b_method b' = b_method b \<and> b_step b' = b_step b"
  by (auto simp: install_dataplane_def Let_def split: if_splits sum.splits prod.splits)

lemma announce_method_frame [frame]:
  "announce_method be now cfg b m attrs s = (e, b', s') \<Longrightarrow>
   same_ban b b' \<and> b_method b' = b_method b \<and> b_step b' = b_step b"
  by (auto simp: announce_method_def Let_def split: if_splits prod.splits dest: install_dataplane_frame)

lemma announce_stage_frame [frame]:
  "announce_stage be now cfg b v s = (r, b', s') \<Longrightarrow>
   same_ban b b' \<and> b_method b' = b_method b \<and> b_step b' = b_step b"
  by (auto simp: announce_stage_def Let_def split: if_splits prod.splits option.splits
      dest!: announce_method_frame intro: same_ban_trans)

section \<open>Announcing a rung\<close>

lemma fallback_for_range: "fallback_for m cfg \<in> {NoMethod, MitigateBlackhole}"
  using fallback_method_range by (auto simp: fallback_for_def Let_def)

text \<open>The calls of a rung concern that rung's method, or the blackhole it falls back to.\<close>

lemma announce_stage_emits [emit_rules]:
  assumes "announce_stage be now cfg b v s = (r, b', s')"
  shows "emits s s' (\<lambda>c. (nlri_of c \<in> method_nlris b (v_method v) \<or> nlri_of c = NUni (b_prefix b))
           \<and> (\<forall>p. nlri_of c = NUni p \<longrightarrow> adds c))" (is "emits s s' ?P")
proof -
  obtain e b1 s1 where a: "announce_method be now cfg b (v_method v) (v_attrs v) s = (e, b1, s1)"
    by (cases "announce_method be now cfg b (v_method v) (v_attrs v) s") auto
  have first: "emits s s1 ?P" using announce_method_emits [OF a] by (rule emits_mono) auto
  have same: "same_ban b b1" using announce_method_frame [OF a] by simp
  obtain e2 b2 s2 where a2: "announce_method be now cfg b1 (v_method (blackhole_stage_view b1))
      (v_attrs (blackhole_stage_view b1)) s1 = (e2, b2, s2)"
    by (cases "announce_method be now cfg b1 (v_method (blackhole_stage_view b1)) (v_attrs (blackhole_stage_view b1)) s1") auto
  have second: "emits s1 s2 ?P" using announce_method_emits [OF a2] same
    by (elim emits_mono) (auto simp: blackhole_stage_view_def method_nlris_def same_ban_def)
  show ?thesis
    using assms a a2 first emits_trans [OF first second]
    by (auto simp: announce_stage_def Let_def split: option.splits if_splits)
qed

lemma announce_stage_stands:
  assumes "announce_stage be now cfg b v s = (Inr (applied, fell), b', s')" "\<not> c_dry_run cfg"
  shows "enforced b (v_method applied) (io_log s')"
proof -
  obtain e b1 s1 where a: "announce_method be now cfg b (v_method v) (v_attrs v) s = (e, b1, s1)"
    by (cases "announce_method be now cfg b (v_method v) (v_attrs v) s") auto
  have same: "same_ban b b1" using announce_method_frame [OF a] by simp
  show ?thesis
  proof (cases e)
    case None
    then show ?thesis using assms a announce_method_stands by (auto simp: announce_stage_def)
  next
    case (Some x)
    then obtain b2 where fb: "announce_method be now cfg b1 (v_method (blackhole_stage_view b1))
        (v_attrs (blackhole_stage_view b1)) s1 = (None, b2, s')" and ap: "applied = blackhole_stage_view b1"
      using assms(1) a by (auto simp: announce_stage_def Let_def split: option.splits if_splits prod.splits)
    show ?thesis
      using announce_method_stands [OF fb assms(2)] enforced_same [OF same] ap by simp
  qed
qed

lemma announce_stage_applied:
  "announce_stage be now cfg b v s = (Inr (applied, fell), b', s') \<Longrightarrow>
   applied = v \<and> \<not> fell \<or> v_method applied = MitigateBlackhole \<and> fell"
  by (auto simp: announce_stage_def Let_def blackhole_stage_view_def split: option.splits if_splits prod.splits)

section \<open>The climb leaves no gap\<close>

lemma due_step_bounds:
  "target < nxt \<Longrightarrow> target \<le> due_step el target nxt ss \<and> due_step el target nxt ss < nxt + length ss"
proof (induction ss arbitrary: target nxt)
  case (Cons x ss)
  have "nxt \<le> due_step el nxt (Suc nxt) ss \<and> due_step el nxt (Suc nxt) ss < Suc nxt + length ss"
    by (rule Cons.IH) simp
  then show ?case using Cons.prems by (cases "el < dur_secs (after_seconds x)") simp_all
qed simp

lemma due_target_bounds:
  "b_step b \<le> due_target b now \<and> (b_step b < length (b_escalation b) \<longrightarrow> due_target b now < length (b_escalation b))"
  using due_step_bounds [of "b_step b" "Suc (b_step b)" "time_sub now (b_started b)" "drop (Suc (b_step b)) (b_escalation b)"]
  unfolding due_target_def by auto

lemma due_step_elapsed:
  "due_step el target nxt ss \<noteq> target \<Longrightarrow>
   \<exists>i < length ss. due_step el target nxt ss = nxt + i \<and> (\<forall>j \<le> i. dur_secs (after_seconds (ss ! j)) \<le> el)"
proof (induction ss arbitrary: target nxt)
  case (Cons x ss)
  have el: "dur_secs (after_seconds x) \<le> el" using Cons.prems by (auto split: if_splits)
  show ?case
  proof (cases "due_step el nxt (Suc nxt) ss = nxt")
    case True
    then show ?thesis using el Cons.prems by (intro exI [of _ 0]) auto
  next
    case False
    then obtain i where i: "i < length ss" "due_step el nxt (Suc nxt) ss = Suc nxt + i"
      "\<forall>j \<le> i. dur_secs (after_seconds (ss ! j)) \<le> el"
      using Cons.IH by blast
    then have "dur_secs (after_seconds ((x # ss) ! j)) \<le> el" if "j \<le> Suc i" for j
      using that el by (cases j) auto
    then show ?thesis using i el Cons.prems by (intro exI [of _ "Suc i"]) auto
  qed
qed simp

text \<open>The first rung past the target whose delay has not passed stops the climb.\<close>

lemma due_step_next:
  "i < length ss \<Longrightarrow> due_step el target nxt ss = (if i = 0 then target else nxt + (i - 1)) \<Longrightarrow> target < nxt \<Longrightarrow>
   el < dur_secs (after_seconds (ss ! i))"
proof (induction ss arbitrary: target nxt i)
  case (Cons x ss)
  show ?case
  proof (cases i)
    case 0
    then show ?thesis using Cons.prems due_step_bounds [of nxt "Suc nxt" el ss] by (auto split: if_splits)
  next
    case (Suc k)
    have "\<not> el < dur_secs (after_seconds x)" using Cons.prems Suc by (auto split: if_splits)
    then show ?thesis using Cons.IH [of k nxt "Suc nxt"] Cons.prems Suc by (auto split: if_splits)
  qed
qed simp

lemma stage_view_of_method: "v_method (stage_view_of b s) = (case stage_action s of
    EscalateDataplane \<Rightarrow> MitigateDataplane | EscalateFlowSpec \<Rightarrow> MitigateFlowSpec | EscalateBlackhole \<Rightarrow> MitigateBlackhole
  | EscalateDivert \<Rightarrow> MitigateDivert | EscalateNone \<Rightarrow> NoMethod)"
  by (simp add: stage_view_of_def split: escalation_action.split)

text \<open>A failed escalation leaves the ban on its rung; a successful one moves it.\<close>

lemma escalate_cases:
  assumes "escalate be now cfg b s = (b', s')"
  obtains (stay) "due_target b now = b_step b" "b' = b" "s' = s"
  | (same_rung) "v_method (stage_view_of b (b_escalation b ! due_target b now)) = b_method b"
      "due_target b now \<noteq> b_step b" "b' = b \<lparr> b_step := due_target b now \<rparr>" "s' = mark_dirty s"
  | (failed) e where "announce_stage be now cfg b (stage_view_of b (b_escalation b ! due_target b now)) s = (Inl e, b', s')"
      "due_target b now \<noteq> b_step b" "v_method (stage_view_of b (b_escalation b ! due_target b now)) \<noteq> b_method b"
  | (moved) applied fell b1 s1 where
      "announce_stage be now cfg b (stage_view_of b (b_escalation b ! due_target b now)) s = (Inr (applied, fell), b1, s1)"
      "due_target b now \<noteq> b_step b" "v_method (stage_view_of b (b_escalation b ! due_target b now)) \<noteq> b_method b"
      "b_step b' = due_target b now" "b_method b' = v_method applied" "same_ban b b'"
      "s' = mark_dirty (if b_method b \<noteq> NoMethod \<and> route_family_of (b_method b) \<noteq> route_family_of (v_method applied)
                        then withdraw_method be b1 (b_method b) s1 else s1)"
proof -
  let ?v = "stage_view_of b (b_escalation b ! due_target b now)"
  consider "due_target b now = b_step b" | "due_target b now \<noteq> b_step b" "v_method ?v = b_method b"
    | "due_target b now \<noteq> b_step b" "v_method ?v \<noteq> b_method b" by blast
  then show thesis
  proof cases
    case 1
    then have "b' = b" "s' = s" using assms by (auto simp: escalate_def Let_def)
    then show thesis by (rule stay [OF 1])
  next
    case 2
    then have "b' = b \<lparr> b_step := due_target b now \<rparr>" "s' = mark_dirty s"
      using assms by (auto simp: escalate_def Let_def)
    then show thesis by (rule same_rung [OF 2(2,1)])
  next
    case 3
    obtain r b1 s1 where a: "announce_stage be now cfg b ?v s = (r, b1, s1)"
      by (cases "announce_stage be now cfg b ?v s") auto
    show thesis
    proof (cases r)
      case (Inl e)
      then have "b1 = b'" "s1 = s'" using assms 3 a by (auto simp: escalate_def Let_def)
      then show thesis using failed [OF _ 3] a Inl by blast
    next
      case (Inr q)
      then obtain applied fell where q: "r = Inr (applied, fell)" by (cases q) auto
      have same: "same_ban b b1" using announce_stage_frame [OF a] by simp
      have b': "b' = note_fallback fell (v_method ?v) ''primary announce rejected by peer during escalation''
          (set_active_stage (due_target b now) applied b1)"
        and s': "s' = mark_dirty (if b_method b \<noteq> NoMethod \<and> route_family_of (b_method b) \<noteq> route_family_of (v_method applied)
                        then withdraw_method be b1 (b_method b) s1 else s1)"
        using assms 3 a q by (simp_all add: escalate_def Let_def)
      show thesis
        by (rule moved [OF a [unfolded q] 3 _ _ _ s'])
          (use same in \<open>simp_all add: b' note_fallback_def set_active_stage_def same_ban_def\<close>)
    qed
  qed
qed

lemma escalate_frame [frame]: "escalate be now cfg b s = (b', s') \<Longrightarrow> same_ban b b'"
  by (erule escalate_cases) (auto dest: announce_stage_frame)

text \<open>A call about the rung being announced never takes down the rung in place.\<close>

lemma old_rung_kept:
  assumes "announce_stage be now cfg b v s = (r, b', s')" "v_method v \<noteq> b_method b"
    "enforced b (b_method b) (io_log s)" "between s s' l"
  shows "enforced b (b_method b) l"
  unfolding enforced_def
proof
  fix n assume n: "n \<in> method_nlris b (b_method b)"
  show "standing n l"
  proof (rule standing_between [OF emits_mono [OF announce_stage_emits [OF assms(1)]] _ assms(4)])
    show "standing n (io_log s)" using n assms(3) by (simp add: enforced_def)
    fix c assume "(nlri_of c \<in> method_nlris b (v_method v) \<or> nlri_of c = NUni (b_prefix b))
           \<and> (\<forall>p. nlri_of c = NUni p \<longrightarrow> adds c)"
    then show "nlri_of c = n \<longrightarrow> adds c"
      using n assms(2) by (auto simp: method_nlris_def split: mitigation_method.splits)
  qed
qed

lemma families_disjoint:
  "route_family_of m \<noteq> route_family_of k \<Longrightarrow> method_nlris b m \<inter> method_nlris b k = {}"
  by (cases m; cases k) (auto simp: method_nlris_def)

text \<open>Withdrawing a rung of another family leaves the new one up.\<close>

lemma new_rung_kept:
  assumes "route_family_of m \<noteq> route_family_of k" "enforced b k (io_log s)"
    "between s (withdraw_method be b m s) l"
  shows "enforced b k l"
  unfolding enforced_def
proof
  fix n assume n: "n \<in> method_nlris b k"
  have "emits s (withdraw_method be b m s) (\<lambda>c. nlri_of c = n \<longrightarrow> adds c)"
    by (rule emits_mono [OF withdraw_method_emits]) (use families_disjoint [OF assms(1), of b] n in auto)
  then show "standing n l" using standing_between n assms(2,3) unfolding enforced_def by blast
qed

lemma between_end: "suffix (io_log s) (io_log s') \<Longrightarrow> between s s' (io_log s')"
  by (simp add: between_def)

text \<open>Make before break.\<close>

lemma escalate_no_gap:
  assumes "escalate be now cfg b s = (b', s')" "\<not> c_dry_run cfg" "enforced b (b_method b) (io_log s)"
  shows "(\<forall>l. between s s' l \<longrightarrow> enforced b (b_method b) l \<or> enforced b (b_method b') l)
    \<and> enforced b' (b_method b') (io_log s')"
  using assms(1)
proof (cases rule: escalate_cases)
  case stay
  then show ?thesis using assms(3) by (simp add: between_same)
next
  case same_rung
  then show ?thesis using assms(3) enforced_same [of b b'] by (simp add: between_same)
next
  case (failed e)
  have fr: "same_ban b b'" "b_method b' = b_method b" using announce_stage_frame [OF failed(1)] by auto
  have "between s s' (io_log s')" by (rule between_end [OF emits_suffix [OF announce_stage_emits [OF failed(1)]]])
  then show ?thesis using old_rung_kept [OF failed(1,3) assms(3)] fr enforced_same [OF fr(1)] by auto
next
  case (moved applied fell b1 s1)
  have same: "same_ban b b1" using announce_stage_frame [OF moved(1)] by simp
  have up: "enforced b (b_method b') (io_log s1)" using announce_stage_stands [OF moved(1) assms(2)] moved(5) by simp
  have old: "between s s1 l \<Longrightarrow> enforced b (b_method b) l" for l by (rule old_rung_kept [OF moved(1,3) assms(3)])
  show ?thesis
  proof (cases "b_method b \<noteq> NoMethod \<and> route_family_of (b_method b) \<noteq> route_family_of (v_method applied)")
    case True
    let ?w = "withdraw_method be b1 (b_method b) s1"
    have log: "io_log s' = io_log ?w" using moved(7) True by simp
    have new: "between s1 s' l \<Longrightarrow> enforced b (b_method b') l" for l
      using new_rung_kept [of "b_method b" "v_method applied" b1 s1 be l] True up enforced_same [OF same] moved(5) log
      by (simp add: between_def)
    have suf: "suffix (io_log s1) (io_log s')" using log emits_suffix [OF withdraw_method_emits] by metis
    show ?thesis
      using between_split [of s s' _ s1] suf old new between_end [OF suf] enforced_same [OF moved(6)] by blast
  next
    case False
    then have "io_log s' = io_log s1" using moved(7) by (simp only: if_False mark_dirty_log)
    then show ?thesis using old up enforced_same [OF moved(6)] by (simp add: between_def)
  qed
qed

section \<open>What reaches the kernel\<close>

text \<open>Every install carries the compilation of the ban's own rules.\<close>

definition dp_from :: "ban \<Rightarrow> call \<Rightarrow> bool" where
  "dp_from b c \<longleftrightarrow> (\<forall>p d. c = DpInstall p d \<longrightarrow> (\<exists>ttl. dataplane_rules (b_rules b) ttl = Inr d))"

lemma emits_conj: "emits s s' P \<Longrightarrow> emits s s' Q \<Longrightarrow> emits s s' (\<lambda>c. P c \<and> Q c)"
  by (auto simp: emits_def)

lemma dp_from_other [simp]:
  "dp_from b (Announce p a)" "dp_from b (Withdraw p)" "dp_from b (AnnounceFS r)" "dp_from b (WithdrawFS r)"
  "dp_from b (DpWithdraw p)"
  by (simp_all add: dp_from_def)

lemma dp_from_FS: "nlri_of c = NFs r \<Longrightarrow> dp_from b c"
  by (cases c) simp_all

lemma dp_from_same: "b_rules b' = b_rules b \<Longrightarrow> dp_from b' c = dp_from b c"
  by (simp add: dp_from_def)

lemma install_dataplane_from:
  "install_dataplane be now b s = (e, b', s') \<Longrightarrow> emits s s' (dp_from b)"
  by (auto simp: install_dataplane_def Let_def dp_from_def intro!: emits_do_call
      split: if_splits sum.splits prod.splits)

lemma announce_method_from:
  "announce_method be now cfg b m attrs s = (e, b', s') \<Longrightarrow> emits s s' (dp_from b)"
  unfolding announce_method_def
  by (auto simp: Let_def emits_do_call split: if_splits prod.splits
       intro: install_dataplane_from elim!: emits_mono [OF announce_flowspec_emits] dp_from_FS)

lemma withdraw_flowspec_from: "emits s (withdraw_flowspec be rs s) (dp_from b)"
  by (rule emits_mono [OF withdraw_flowspec_emits]) (auto intro: dp_from_FS)

lemma emits_do_call_snd: "P c \<Longrightarrow> emits s (snd (do_call be c s)) P"
  by (cases "do_call be c s") (simp add: emits_do_call)

lemma withdraw_method_from: "emits s (withdraw_method be b m s) (dp_from b')"
  by (simp add: withdraw_method_def withdraw_flowspec_from emits_do_call_snd)

lemma announce_stage_from:
  assumes "announce_stage be now cfg b v s = (r, b', s')"
  shows "emits s s' (dp_from b)"
proof -
  obtain e b1 s1 where a: "announce_method be now cfg b (v_method v) (v_attrs v) s = (e, b1, s1)"
    by (cases "announce_method be now cfg b (v_method v) (v_attrs v) s") auto
  obtain e2 b2 s2 where a2: "announce_method be now cfg b1 (v_method (blackhole_stage_view b1))
      (v_attrs (blackhole_stage_view b1)) s1 = (e2, b2, s2)"
    by (cases "announce_method be now cfg b1 (v_method (blackhole_stage_view b1)) (v_attrs (blackhole_stage_view b1)) s1") auto
  have same: "b_rules b1 = b_rules b" using announce_method_frame [OF a] by (simp add: same_ban_def)
  show ?thesis
    using assms a a2 announce_method_from [OF a]
      emits_trans [OF announce_method_from [OF a] emits_mono [OF announce_method_from [OF a2]]]
    by (auto simp: announce_stage_def Let_def dp_from_same [OF same] split: option.splits if_splits)
qed

section \<open>A ban and its prefix\<close>

definition rule_anchor :: "flowspec_rule \<Rightarrow> prefix" where
  "rule_anchor r = (if pfx_valid (r_dst r) then r_dst r else r_src r)"

lemma rule_anchor_key [simp]: "rule_anchor (fs_key r) = rule_anchor r"
  by (simp add: rule_anchor_def fs_key_def)

definition anchored :: "ban \<Rightarrow> bool" where
  "anchored b \<longleftrightarrow> (\<forall>r \<in> set (b_rules b). rule_anchor r = b_prefix b)"

text \<open>The outside state that belongs to a prefix; two prefixes share nothing.\<close>

fun nlri_prefix :: "nlri \<Rightarrow> prefix" where
  "nlri_prefix (NUni p) = p"
| "nlri_prefix (NFs r) = rule_anchor r"
| "nlri_prefix (NDp p) = p"

definition own_call :: "ban \<Rightarrow> call \<Rightarrow> bool" where
  "own_call b c \<longleftrightarrow> nlri_prefix (nlri_of c) = b_prefix b \<and> dp_from b c"

lemma method_nlris_own: "anchored b \<Longrightarrow> n \<in> method_nlris b m \<Longrightarrow> nlri_prefix n = b_prefix b"
  by (auto simp: method_nlris_def anchored_def split: mitigation_method.splits)

lemma anchored_same: "same_ban b b' \<Longrightarrow> anchored b' = anchored b"
  by (simp add: anchored_def same_ban_def)

lemma own_call_same: "same_ban b b' \<Longrightarrow> own_call b' = own_call b"
  by (simp add: own_call_def dp_from_def same_ban_def fun_eq_iff)

lemma announce_method_own [emit_rules]:
  "announce_method be now cfg b m attrs s = (e, b', s') \<Longrightarrow> anchored b \<Longrightarrow> emits s s' (own_call b)"
  using emits_conj [OF announce_method_emits announce_method_from]
  by (rule emits_mono) (auto simp: own_call_def method_nlris_own)

lemma withdraw_method_own [emit_rules]: "anchored b \<Longrightarrow> emits s (withdraw_method be b m s) (own_call b)"
  using emits_conj [OF withdraw_method_emits withdraw_method_from]
  by (rule emits_mono) (auto simp: own_call_def method_nlris_own)

lemma announce_stage_own [emit_rules]:
  "announce_stage be now cfg b v s = (r, b', s') \<Longrightarrow> anchored b \<Longrightarrow> emits s s' (own_call b)"
  using emits_conj [OF announce_stage_emits announce_stage_from]
  by (rule emits_mono) (auto simp: own_call_def method_nlris_own)

lemma escalate_own [emit_rules]:
  assumes "escalate be now cfg b s = (b', s')" "anchored b"
  shows "emits s s' (own_call b)"
  using assms(1)
proof (cases rule: escalate_cases)
  case (moved applied fell b1 s1)
  have same: "same_ban b b1" using announce_stage_frame [OF moved(1)] by simp
  have "emits s1 (withdraw_method be b1 (b_method b) s1) (own_call b)"
    using withdraw_method_own anchored_same [OF same] assms(2) own_call_same [OF same] by metis
  then show ?thesis using announce_stage_own [OF moved(1) assms(2)] moved(7) by (auto intro: emits_trans)
qed (auto intro: announce_stage_own [OF _ assms(2)])

lemma install_dataplane_own [emit_rules]:
  "install_dataplane be now b s = (e, b', s') \<Longrightarrow> emits s s' (own_call b)"
  using emits_conj [OF install_dataplane_emits install_dataplane_from]
  by (rule emits_mono) (auto simp: own_call_def)

text \<open>A call about a prefix: its outside state belongs to the prefix, and the kernel rules it installs
  are anchored on it, by destination or, for an outgoing attack, by source.\<close>

definition spec_anchor :: "rule_spec \<Rightarrow> prefix" where
  "spec_anchor x = (if pfx_valid (sp_dst x) then sp_dst x else sp_src x)"

definition call_about :: "prefix \<Rightarrow> call \<Rightarrow> bool" where
  "call_about p c \<longleftrightarrow> nlri_prefix (nlri_of c) = p
     \<and> (\<forall>q d. c = DpInstall q d \<longrightarrow> (\<forall>x \<in> set (dr_specs d). spec_anchor x = p))"

lemma dataplane_rule_dst: "dataplane_rule r = Inr (x, b) \<Longrightarrow> sp_dst x = r_dst r \<and> sp_src x = r_src r"
  by (auto simp: dataplane_rule_def Let_def match_tcp_flags_def split: if_splits sum.splits)

lemma dataplane_rules_all2:
  "dataplane_rules rs ttl = Inr d \<Longrightarrow> list_all2 (\<lambda>r x. \<exists>b. dataplane_rule r = Inr (x, b)) rs (dr_specs d)"
  by (auto simp: dataplane_rules_def intro: dataplane_rules_loop_all2 split: if_splits sum.splits)

lemma dataplane_rules_dst:
  assumes "dataplane_rules rs ttl = Inr d" "x \<in> set (dr_specs d)"
  shows "\<exists>r \<in> set rs. sp_dst x = r_dst r \<and> sp_src x = r_src r"
proof -
  obtain i where i: "i < length (dr_specs d)" "dr_specs d ! i = x" using assms(2) by (auto simp: in_set_conv_nth)
  then show ?thesis
    using dataplane_rules_all2 [OF assms(1)] dataplane_rule_dst
    by (auto simp: list_all2_conv_all_nth) (metis nth_mem)
qed

lemma own_call_about: "anchored b \<Longrightarrow> own_call b c \<Longrightarrow> call_about (b_prefix b) c"
  using dataplane_rules_dst
  by (fastforce simp: own_call_def call_about_def dp_from_def anchored_def rule_anchor_def spec_anchor_def)

lemma own_calls_about: "emits s s' (own_call b) \<Longrightarrow> anchored b \<Longrightarrow> emits s s' (call_about (b_prefix b))"
  by (erule emits_mono) (rule own_call_about)

section \<open>Dry run\<close>

lemma announce_method_dry:
  "c_dry_run cfg \<Longrightarrow> announce_method be now cfg b m attrs s = (None, b, s)"
  by (simp add: announce_method_def)

lemma withdraw_method_dry: "b_dry_run b \<Longrightarrow> withdraw_method be b m s = s"
  by (simp add: withdraw_method_def)

lemma announce_stage_dry:
  "c_dry_run cfg \<Longrightarrow> announce_stage be now cfg b v s = (Inr (v, False), b, s)"
  by (simp add: announce_stage_def announce_method_dry)

lemma escalate_dry:
  "c_dry_run cfg \<Longrightarrow> b_dry_run b \<Longrightarrow> escalate be now cfg b s = (b', s') \<Longrightarrow> io_log s' = io_log s"
  by (auto simp: escalate_def Let_def announce_stage_dry withdraw_method_dry split: if_splits)

end
