(* ===== verification/BanTable.thy ===== *)
theory BanTable
  imports Enforce Lifecycle
begin

text \<open>
  The contract of everything that walks a ban table (the sweep, the renewal of kernel deadlines, the
  node-loss sweep of \<^verbatim>\<open>src/engine/internal/mitigate\<close>), as the locale \<open>sweep_body\<close>: a body may change
  the ban in hand but never its identity, revives nothing, calls the outside only about that ban's
  own prefix, and leaves an active ban's rung standing. The walk lemmas are proved once in the
  locale; each body is an interpretation.
\<close>

section \<open>What a walk may do to a ban\<close>

definition descends :: "ban \<Rightarrow> ban \<Rightarrow> bool" where
  "descends b b' \<longleftrightarrow> b_target b' = b_target b \<and> b_prefix b' = b_prefix b \<and> b_dry_run b' = b_dry_run b
     \<and> b_started b' = b_started b \<and> b_expires b' = b_expires b \<and> b_escalation b' = b_escalation b
     \<and> (is_active b' \<longrightarrow> is_active b) \<and> b_step b \<le> b_step b'
     \<and> (b_step b < length (b_escalation b) \<longrightarrow> b_step b' < length (b_escalation b'))"

lemma descends_refl [simp]: "descends b b"
  by (simp add: descends_def)

lemma descends_trans: "descends a b \<Longrightarrow> descends b c \<Longrightarrow> descends a c"
  by (auto simp: descends_def)

lemma same_ban_descends:
  "same_ban b b' \<Longrightarrow> b_step b \<le> b_step b' \<Longrightarrow>
   b_step b < length (b_escalation b) \<longrightarrow> b_step b' < length (b_escalation b') \<Longrightarrow> descends b b'"
  by (simp add: descends_def same_ban_def is_active_def)

text \<open>An active real ban has its rung standing outside.\<close>

definition up :: "ban \<Rightarrow> call_log \<Rightarrow> bool" where
  "up b l \<longleftrightarrow> (is_active b \<and> \<not> b_dry_run b \<longrightarrow> enforced b (b_method b) l)"

lemma up_same_log: "up b (io_log s) \<Longrightarrow> io_log s' = io_log s \<Longrightarrow> up b (io_log s')"
  by simp

lemma up_other:
  assumes "up b (io_log s)" "anchored b" "emits s s' (\<lambda>c. nlri_prefix (nlri_of c) \<noteq> b_prefix b)"
  shows "up b (io_log s')"
  unfolding up_def enforced_def
proof (intro impI ballI)
  fix n assume a: "is_active b \<and> \<not> b_dry_run b" "n \<in> method_nlris b (b_method b)"
  have "emits s s' (\<lambda>c. nlri_of c \<noteq> n)"
    using assms(3) method_nlris_own [OF assms(2) a(2)] by (elim emits_mono) auto
  then show "standing n (io_log s')"
    using standing_emits_other [of s s' n] assms(1) a by (auto simp: up_def enforced_def)
qed

section \<open>The contract\<close>

locale sweep_body =
  fixes body :: "ban \<Rightarrow> 's \<Rightarrow> ban \<times> 's"
    and io_of :: "'s \<Rightarrow> io"
    and shape :: "ban \<Rightarrow> bool"
    and live :: bool
  assumes body_descends: "body b s = (b', s') \<Longrightarrow> descends b b'"
    and body_shape: "body b s = (b', s') \<Longrightarrow> shape b \<Longrightarrow> shape b'"
    and body_calls: "body b s = (b', s') \<Longrightarrow> shape b \<Longrightarrow>
          emits (io_of s) (io_of s') (call_about (b_prefix b))"
    and shape_anchored: "shape b \<Longrightarrow> anchored b"
    and body_up: "live \<Longrightarrow> body b s = (b', s') \<Longrightarrow> shape b \<Longrightarrow> up b (io_log (io_of s)) \<Longrightarrow> up b' (io_log (io_of s'))"
begin

lemma walk_descends: "list_all2 (\<lambda>p q. fst q = fst p \<and> descends (snd p) (snd q)) t (fst (walk body t s))"
  using walk_inv [where I = "\<lambda>_. True" and Q = descends and f = body and t = t and s = s] body_descends
  by (metis prod.collapse)

lemma walk_active_le: "tcount is_active (fst (walk body t s)) \<le> tcount is_active t"
  by (rule tcount_list_all2, rule list_all2_mono [OF walk_descends]) (auto simp: descends_def)

lemma walk_shape: "\<forall>b \<in> snd ` set t. shape b \<Longrightarrow> \<forall>b \<in> snd ` set (fst (walk body t s)). shape b"
proof (induction t arbitrary: s)
  case (Cons p t)
  obtain k b where p: "p = (k, b)" by (cases p)
  obtain b' s1 where f: "body b s = (b', s1)" by (cases "body b s")
  show ?case using Cons.IH [of s1] Cons.prems body_shape [OF f] p f by (auto split: prod.splits)
qed simp

lemma walk_calls:
  "\<forall>b \<in> snd ` set t. shape b \<Longrightarrow>
   emits (io_of s) (io_of (snd (walk body t s))) (\<lambda>c. \<exists>p \<in> b_prefix ` snd ` set t. call_about p c)"
proof (induction t arbitrary: s)
  case (Cons p t)
  obtain k b where p: "p = (k, b)" by (cases p)
  obtain b' s1 where f: "body b s = (b', s1)" by (cases "body b s")
  let ?P = "\<lambda>c. \<exists>q \<in> b_prefix ` snd ` set (p # t). call_about q c"
  have "emits (io_of s) (io_of s1) ?P"
    using body_calls [OF f] Cons.prems p by (auto elim!: emits_mono)
  moreover have "emits (io_of s1) (io_of (snd (walk body t s1))) ?P"
    using Cons.IH [of s1] Cons.prems by (auto elim!: emits_mono)
  ultimately show ?case using p f emits_trans by (auto split: prod.splits)
qed simp

text \<open>Bans of pairwise different prefixes keep each other's rungs standing.\<close>

lemma walk_up:
  assumes "live" "\<forall>b \<in> snd ` set t. shape b" "distinct (map (b_prefix \<circ> snd) t)"
    "\<forall>b \<in> snd ` set t. up b (io_log (io_of s))"
  shows "\<forall>b \<in> snd ` set (fst (walk body t s)). up b (io_log (io_of (snd (walk body t s))))"
  using assms(2-)
proof (induction t arbitrary: s)
  case (Cons p t)
  obtain k b where p: "p = (k, b)" by (cases p)
  obtain b' s1 where f: "body b s = (b', s1)" by (cases "body b s")
  obtain t' s2 where w: "walk body t s1 = (t', s2)" by (cases "walk body t s1")
  have sb: "shape b" using Cons.prems p by simp
  have fresh: "b_prefix b \<notin> b_prefix ` snd ` set t" using Cons.prems(2) p by (auto simp: image_image)
  have first: "up b' (io_log (io_of s1))" using body_up [OF assms(1) f sb] Cons.prems p by simp
  have rest: "\<forall>c \<in> snd ` set t. up c (io_log (io_of s1))"
  proof
    fix c assume c: "c \<in> snd ` set t"
    have "emits (io_of s) (io_of s1) (\<lambda>x. nlri_prefix (nlri_of x) \<noteq> b_prefix c)"
      using body_calls [OF f sb] by (rule emits_mono) (use fresh c in \<open>auto simp: call_about_def\<close>)
    moreover have "up c (io_log (io_of s))" "anchored c" using c Cons.prems shape_anchored by auto
    ultimately show "up c (io_log (io_of s1))" using up_other by blast
  qed
  have tail: "\<forall>c \<in> snd ` set t'. up c (io_log (io_of s2))"
    using Cons.IH [of s1] Cons.prems rest w by simp
  have calls: "emits (io_of s1) (io_of s2) (\<lambda>x. \<exists>p \<in> b_prefix ` snd ` set t. call_about p x)"
    using walk_calls [of t s1] Cons.prems w by simp
  have "b_prefix b' = b_prefix b" using body_descends [OF f] by (simp add: descends_def)
  then have "b_prefix b' \<notin> b_prefix ` snd ` set t" using fresh by simp
  then have "emits (io_of s1) (io_of s2) (\<lambda>x. nlri_prefix (nlri_of x) \<noteq> b_prefix b')"
    by (intro emits_mono [OF calls] notI) (auto simp: call_about_def)
  then have "up b' (io_log (io_of s2))"
    using up_other first shape_anchored [OF body_shape [OF f sb]] by simp
  then show ?case using tail p f w by simp
qed simp

end

section \<open>The bodies\<close>

lemma withdraw_ban_descends: "withdraw_ban be now why man b s = (b', s') \<Longrightarrow> descends b b'"
  by (auto simp: withdraw_ban_def descends_def is_active_def)

lemma withdraw_ban_inactive: "withdraw_ban be now why man b s = (b', s') \<Longrightarrow> \<not> is_active b'"
  by (auto simp: withdraw_ban_def is_active_def)

lemma withdraw_ban_rules: "withdraw_ban be now why man b s = (b', s') \<Longrightarrow> b_rules b' = b_rules b \<and> b_prefix b' = b_prefix b"
  by (auto simp: withdraw_ban_def)

lemma withdraw_ban_own [emit_rules]:
  "withdraw_ban be now why man b s = (b', s') \<Longrightarrow> anchored b \<Longrightarrow> emits s s' (own_call b)"
  using withdraw_method_own by (auto simp: withdraw_ban_def)

lemma escalate_descends: "escalate be now cfg b s = (b', s') \<Longrightarrow> descends b b'"
  using due_target_bounds [of b now] escalate_frame [of be now cfg b s b' s']
  by (elim escalate_cases) (auto intro!: same_ban_descends dest: announce_stage_frame simp: same_ban_def)

lemma escalate_up:
  assumes "escalate be now cfg b s = (b', s')" "\<not> c_dry_run cfg" "up b (io_log s)"
  shows "up b' (io_log s')"
  using escalate_no_gap [OF assms(1,2)] escalate_frame [OF assms(1)] assms(3)
  by (auto simp: up_def same_ban_def is_active_def)

lemma up_inactive [simp]: "\<not> is_active b \<Longrightarrow> up b l"
  by (simp add: up_def)

lemma withdraw_ban_anchored: "withdraw_ban be now why man b s = (b', s') \<Longrightarrow> anchored b \<Longrightarrow> anchored b'"
  by (auto simp: withdraw_ban_def anchored_def)

lemma same_ban_anchored: "same_ban b b' \<Longrightarrow> anchored b \<Longrightarrow> anchored b'"
  by (simp add: anchored_same)

text \<open>The sweep of a host ban.\<close>

lemma sweep_host_cases:
  assumes "sweep_host be now cfg b s = (b', s')"
  obtains (idle) "\<not> is_active b" "b' = b" "s' = s"
  | (withdrawn) why where "is_active b" "expired now b \<or> \<not> in_networks cfg (b_target b)"
      "withdraw_ban be now why False b s = (b', s')"
  | (kept) "is_active b" "\<not> expired now b" "in_networks cfg (b_target b)" "escalate be now cfg b s = (b', s')"
  using assms unfolding sweep_host_def by (auto split: if_splits)

lemma sweep_prefix_cases:
  assumes "sweep_prefix be now cfg b s = (b', s')"
  obtains (idle) "\<not> is_active b" "b' = b" "s' = s"
  | (withdrawn) why where "is_active b"
      "expired now b \<or> \<not> prefix_in_networks cfg (b_prefix b) \<or> prefix_contains_whitelisted cfg (b_prefix b)"
      "withdraw_ban be now why False b s = (b', s')"
  | (kept) "is_active b" "\<not> expired now b" "prefix_in_networks cfg (b_prefix b)"
      "\<not> prefix_contains_whitelisted cfg (b_prefix b)" "escalate be now cfg b s = (b', s')"
  using assms unfolding sweep_prefix_def by (auto split: if_splits)

interpretation host_sweep: sweep_body "sweep_host be now cfg" "\<lambda>s. s" anchored "\<not> c_dry_run cfg"
  for be now cfg
proof
  fix b s b' s' assume f: "sweep_host be now cfg b s = (b', s')"
  show "descends b b'"
    using f by (cases rule: sweep_host_cases) (auto dest: withdraw_ban_descends escalate_descends)
  show "anchored b \<Longrightarrow> anchored b'"
    using f by (cases rule: sweep_host_cases)
      (auto intro: withdraw_ban_anchored same_ban_anchored [OF escalate_frame])
  show "anchored b \<Longrightarrow> emits s s' (call_about (b_prefix b))"
    using f by (cases rule: sweep_host_cases)
      (auto intro: own_calls_about withdraw_ban_own escalate_own)
  show "\<not> c_dry_run cfg \<Longrightarrow> anchored b \<Longrightarrow> up b (io_log s) \<Longrightarrow> up b' (io_log s')"
    using f by (cases rule: sweep_host_cases) (auto dest: withdraw_ban_inactive intro: escalate_up)
qed simp

interpretation prefix_sweep: sweep_body "sweep_prefix be now cfg" "\<lambda>s. s" anchored "\<not> c_dry_run cfg"
  for be now cfg
proof
  fix b s b' s' assume f: "sweep_prefix be now cfg b s = (b', s')"
  show "descends b b'"
    using f by (cases rule: sweep_prefix_cases) (auto dest: withdraw_ban_descends escalate_descends)
  show "anchored b \<Longrightarrow> anchored b'"
    using f by (cases rule: sweep_prefix_cases)
      (auto intro: withdraw_ban_anchored same_ban_anchored [OF escalate_frame])
  show "anchored b \<Longrightarrow> emits s s' (call_about (b_prefix b))"
    using f by (cases rule: sweep_prefix_cases)
      (auto intro: own_calls_about withdraw_ban_own escalate_own)
  show "\<not> c_dry_run cfg \<Longrightarrow> anchored b \<Longrightarrow> up b (io_log s) \<Longrightarrow> up b' (io_log s')"
    using f by (cases rule: sweep_prefix_cases) (auto dest: withdraw_ban_inactive intro: escalate_up)
qed simp

text \<open>The renewal of a kernel deadline.\<close>

lemma renew_ban_cases:
  assumes "renew_ban be now ttl skip b s = (b', s')"
  obtains (idle) "b' = b" "s' = s"
  | (install) e b1 where "install_dataplane be now b s = (e, b1, s')" "b' = b1 \<or> b' = b1 \<lparr> b_dp_at := now \<rparr>"
      "is_active b" "b_method b = MitigateDataplane" "\<not> b_dry_run b" "\<not> skip b"
proof -
  obtain e b1 s1 where i: "install_dataplane be now b s = (e, b1, s1)" by (cases "install_dataplane be now b s") auto
  show thesis
  proof (cases "skip b \<or> \<not> is_active b \<or> b_method b \<noteq> MitigateDataplane \<or> b_dry_run b
      \<or> time_sub now (b_dp_at b) < half_dur ttl")
    case True
    then have "b' = b" "s' = s" using assms unfolding renew_ban_def by (metis prod.inject)+
    then show thesis by (rule idle)
  next
    case False
    then have "s1 = s'" "b' = b1 \<or> b' = b1 \<lparr> b_dp_at := now \<rparr>"
      using assms i by (auto simp: renew_ban_def split: option.splits)
    then show thesis using install i False by blast
  qed
qed

lemma renew_ban_same: "renew_ban be now ttl skip b s = (b', s') \<Longrightarrow> same_ban b b' \<and> b_method b' = b_method b \<and> b_step b' = b_step b"
proof (erule renew_ban_cases)
  fix e b1
  assume i: "install_dataplane be now b s = (e, b1, s')" and b': "b' = b1 \<or> b' = b1 \<lparr> b_dp_at := now \<rparr>"
  show "same_ban b b' \<and> b_method b' = b_method b \<and> b_step b' = b_step b"
    using b' install_dataplane_frame [OF i] by (elim disjE) simp_all
qed simp

interpretation renewal: sweep_body "renew_ban be now ttl skip" "\<lambda>s. s" anchored True
  for be now ttl skip
proof
  fix b s b' s' assume f: "renew_ban be now ttl skip b s = (b', s')"
  note same = renew_ban_same [OF f]
  show "descends b b'" using same by (auto intro!: same_ban_descends simp: same_ban_def)
  show "anchored b \<Longrightarrow> anchored b'" using same same_ban_anchored by blast
  show "anchored b \<Longrightarrow> emits s s' (call_about (b_prefix b))"
    using f by (cases rule: renew_ban_cases) (auto intro: own_calls_about install_dataplane_own)
  have adds: "emits s s' adds"
    using f by (cases rule: renew_ban_cases) (auto intro: emits_mono [OF install_dataplane_emits])
  have "standing n (io_log s')" if "standing n (io_log s)" for n
    by (rule standing_emits [OF emits_mono [OF adds] that]) simp
  then show "up b (io_log s) \<Longrightarrow> up b' (io_log s')"
    using same enforced_same [of b b'] by (auto simp: up_def enforced_def same_ban_def is_active_def)
qed simp

end
