(* ===== verification/NodeSweep.thy ===== *)
theory NodeSweep
  imports BanTable
begin

text \<open>
  The node-loss sweep keeps the contract of a table walk (\<^verbatim>\<open>sweepNodesLocked\<close> and
  \<^verbatim>\<open>relocateBanLocked\<close> of \<^verbatim>\<open>src/engine/internal/mitigate/nodeselect.go\<close>), the choice of a node, and
  the judgement of a lost one.
\<close>

section \<open>Choosing a node\<close>

lemma select_loop_some:
  "select_loop now ns stale g t alive first nodes = Some n \<Longrightarrow>
   n \<in> set nodes \<and> node_eligible n g t \<and> (alive \<longrightarrow> node_alive now ns (sn_name n) stale) \<or> first = Some n \<and> \<not> alive"
proof (induction nodes arbitrary: first)
  case (Cons x rest)
  show ?case using Cons.prems Cons.IH [of first] Cons.IH [of "Some x"] by (auto split: if_splits)
qed (auto split: if_splits)

text \<open>An alive eligible node is preferred to any other, and the first of them is taken.\<close>

lemma select_loop_alive:
  "(\<exists>n \<in> set nodes. node_eligible n g t \<and> node_alive now ns (sn_name n) stale) \<Longrightarrow>
   \<exists>n. select_loop now ns stale g t alive first nodes = Some n \<and> node_alive now ns (sn_name n) stale \<and> node_eligible n g t"
proof (induction nodes arbitrary: first)
  case (Cons x rest)
  show ?case
  proof (cases "node_eligible x g t \<and> node_alive now ns (sn_name x) stale")
    case True
    then show ?thesis by simp
  next
    case False
    then have "\<exists>n \<in> set rest. node_eligible n g t \<and> node_alive now ns (sn_name n) stale"
      using Cons.prems by auto
    then show ?thesis using Cons.IH False by auto
  qed
qed simp

lemma select_loop_first:
  "\<exists>n \<in> set nodes. node_eligible n g t \<Longrightarrow> \<exists>n. select_loop now ns stale g t False first nodes = Some n"
proof (induction nodes arbitrary: first)
  case (Cons x rest)
  have keep: "\<exists>n. select_loop now ns stale g t False (Some y) ms = Some n" for y ms
    by (induction ms arbitrary: y) auto
  show ?case using Cons keep by (cases first) auto
qed simp

lemma select_loop_none_alive:
  "select_loop now ns stale g t True first nodes = None \<longleftrightarrow>
   (\<forall>n \<in> set nodes. node_eligible n g t \<longrightarrow> \<not> node_alive now ns (sn_name n) stale)"
  by (induction nodes arbitrary: first) auto

section \<open>A lost node\<close>

text \<open>A node that holds a poll, or was seen within the stale time, is never lost.\<close>

lemma node_lost_not_alive:
  assumes "0 < stale" "node_lost now name stale ns = (True, ns')" "int64_min < stale" "stale \<le> int64_max"
  shows "\<not> node_alive now ns name stale"
  using assms
  by (auto simp: node_lost_def node_alive_def node_seen_def presence_of_def presence_zero_def Let_def
      is_zero_time_def split: if_splits option.splits)

text \<open>A node that never polled is lost only after a whole appearance window.\<close>

lemma node_lost_opens_window:
  "presence_of ns name = presence_zero \<Longrightarrow>
   fst (node_lost now name stale ns) = False
   \<and> np_grace (presence_of (snd (node_lost now name stale ns)) name) = now + (stale + node_poll_slack)"
  by (simp add: node_lost_def presence_of_def presence_zero_def Let_def is_zero_time_def table_laws split: option.splits)

section \<open>The sweep body\<close>

definition host_shape :: "ban \<Rightarrow> bool" where
  "host_shape b \<longleftrightarrow> anchored b \<and> addr_valid (b_target b) \<and> b_prefix b = host_prefix (b_target b)"

lemma host_shape_descends: "descends b b' \<Longrightarrow> host_shape b \<Longrightarrow> anchored b' \<Longrightarrow> host_shape b'"
  by (simp add: host_shape_def descends_def)

lemma announce_unicast:
  "announce_method be now cfg b m attrs s = (e, b', s') \<Longrightarrow> m = MitigateDivert \<or> m = MitigateBlackhole \<Longrightarrow>
   b' = b \<and> emits s s' (\<lambda>c. nlri_of c = NUni (b_prefix b) \<and> adds c)"
  by (auto simp: announce_method_def Let_def intro: emits_do_call split: if_splits prod.splits)

lemma degrade_blackhole_cases:
  assumes "degrade_blackhole be now cfg b s = (b', s')"
  obtains (failed) e where "announce_method be now cfg b MitigateBlackhole (b_bh b) s = (Some e, b', s')"
  | (applied) s1 where "announce_method be now cfg b MitigateBlackhole (b_bh b) s = (None, b, s1)" "s' = mark_dirty s1"
      "b_method b' = MitigateBlackhole" "same_ban b b'" "b_step b' = b_step b"
proof -
  obtain e b1 s1 where a: "announce_method be now cfg b MitigateBlackhole (b_bh b) s = (e, b1, s1)"
    by (cases "announce_method be now cfg b MitigateBlackhole (b_bh b) s") auto
  have b1: "b1 = b" using announce_unicast [OF a] by simp
  show thesis
  proof (cases e)
    case None
    show thesis
      by (rule applied [of s1]; insert assms a b1 None)
        (auto simp: degrade_blackhole_def blackhole_stage_view_def Let_def set_active_stage_def note_fallback_def same_ban_def)
  next
    case (Some x)
    then have "b' = b1" "s' = s1" using assms a by (auto simp: degrade_blackhole_def blackhole_stage_view_def Let_def)
    then show thesis using failed a Some by blast
  qed
qed

definition with_rules :: "group \<Rightarrow> ban \<Rightarrow> ban" where
  "with_rules g b = (if b_rules b = []
     then b \<lparr> b_rules := generate_rules (b_target b) DirUnset None None (g_fs_action g) (g_fs_rate g) False (Fin 0) \<rparr>
     else b)"

lemma with_rules_frame:
  "descends b (with_rules g b) \<and> b_method (with_rules g b) = b_method b \<and> b_step (with_rules g b) = b_step b
   \<and> is_active (with_rules g b) = is_active b"
  by (simp add: with_rules_def descends_def is_active_def)

lemma generate_rules_anchor:
  assumes "addr_valid target"
  shows "\<forall>r \<in> set (generate_rules target dir cls sample act rate anch conc). rule_anchor r = host_prefix target"
proof (cases "dir = DirOutgoing")
  case False
  then show ?thesis
    using generate_rules_ok [OF assms, of dir cls sample act rate anch conc] host_prefix_valid [OF assms]
    by (auto simp: rule_anchor_def)
next
  case True
  have "rule_set_ok (anchor_rule prefix_none (host_prefix target) act rate)
      (generate_rules target dir cls sample act rate anch conc)"
    using True assms narrowed_rules_ok by (simp add: generate_rules_def)
  then show ?thesis
    using prefix_none_wf(2) by (auto simp: rule_set_ok_def list_all_iff refines_base_def rule_anchor_def anchor_rule_def)
qed

lemma with_rules_shape: "host_shape b \<Longrightarrow> host_shape (with_rules g b)"
  using generate_rules_anchor [of "b_target b"] by (auto simp: with_rules_def host_shape_def anchored_def)

lemma degrade_flowspec_cases:
  assumes "degrade_flowspec be now cfg g b0 s = (b', s')"
  obtains (failed) e where "announce_method be now cfg (with_rules g b0) MitigateFlowSpec no_attrs s = (Some e, b', s')"
  | (applied) b1 s1 where "announce_method be now cfg (with_rules g b0) MitigateFlowSpec no_attrs s = (None, b1, s1)"
      "s' = mark_dirty (withdraw_method be b1 MitigateDivert s1)" "b_method b' = MitigateFlowSpec"
      "same_ban (with_rules g b0) b1" "same_ban (with_rules g b0) b'" "b_step b' = b_step b0"
proof -
  obtain e b1 s1 where a: "announce_method be now cfg (with_rules g b0) MitigateFlowSpec no_attrs s = (e, b1, s1)"
    by (cases "announce_method be now cfg (with_rules g b0) MitigateFlowSpec no_attrs s") auto
  have fr: "same_ban (with_rules g b0) b1" "b_step b1 = b_step b0"
    using announce_method_frame [OF a] with_rules_frame by auto
  show thesis
  proof (cases e)
    case None
    then have "b' = set_active_stage (b_step b1) \<lparr> v_method = MitigateFlowSpec, v_route = flowspec_summary (b_rules (with_rules g b0)),
          v_attrs = no_attrs \<rparr> (note_fallback True MitigateDivert ''all scrubbing nodes lost'' b1)"
      "s' = mark_dirty (withdraw_method be b1 MitigateDivert s1)"
      using assms a unfolding degrade_flowspec_def with_rules_def [symmetric] Let_def by auto
    then show thesis using applied a None fr by (auto simp: set_active_stage_def note_fallback_def same_ban_def)
  next
    case (Some x)
    then have "b' = b1" "s' = s1"
      using assms a unfolding degrade_flowspec_def with_rules_def [symmetric] Let_def by auto
    then show thesis using failed a Some by blast
  qed
qed

text \<open>The outcomes of relocating a ban; the degradations happen only when every eligible node is lost.\<close>

lemma relocate_cases:
  assumes "relocate_ban be now cfg b (ns, s) = (b', ns', s')"
  obtains (idle) "b' = b" "s' = s"
  | (withdrawn) why where "withdraw_ban be now why False b s = (b', s')"
  | (failed) attrs e where "announce_method be now cfg b MitigateDivert attrs s = (Some e, b', s')"
  | (moved) n attrs s1 where "announce_method be now cfg b MitigateDivert attrs s = (None, b, s1)"
      "s' = mark_dirty s1" "descends b b'" "b_method b' = MitigateDivert" "b_rules b' = b_rules b"
      "select_scrub_node now ns cfg (group_for cfg (b_target b)) (b_target b) [] True = Some n" "b_node b' = sn_name n"
  | (blackhole) "degrade_blackhole be now cfg b s = (b', s')"
  | (flowspec) "degrade_flowspec be now cfg (group_for cfg (b_target b)) b s = (b', s')"
proof (cases "is_whitelisted cfg (b_target b)")
  case True
  then show thesis using withdrawn assms
    by (auto simp: relocate_ban_def split: prod.splits)
next
  case nw: False
  show thesis
  proof (cases "b_dry_run b = c_dry_run cfg")
    case False
    then show thesis using idle assms nw by (auto simp: relocate_ban_def)
  next
    case dry: True
    let ?g = "group_for cfg (b_target b)"
    show thesis
    proof (cases "select_scrub_node now ns cfg ?g (b_target b) [] True")
      case (Some n)
      let ?a = "node_divert_attrs n ?g (b_target b)"
      obtain e b1 s1 where a: "announce_method be now cfg b MitigateDivert ?a s = (e, b1, s1)"
        by (cases "announce_method be now cfg b MitigateDivert ?a s") auto
      have b1: "b1 = b" using announce_unicast [OF a] by simp
      show thesis
      proof (cases e)
        case None
        have b': "b' = set_active_stage (b_step b) \<lparr> v_method = MitigateDivert,
            v_route = unicast_route ''divert'' (b_prefix b) ?a @ '' node '' @ sn_name n, v_attrs = ?a \<rparr>
              (b \<lparr> b_node := sn_name n, b_div := ?a \<rparr>)" and s': "s' = mark_dirty s1"
          using assms nw dry Some a None b1 by (auto simp: relocate_ban_def Let_def)
        show thesis
          by (rule moved [OF a [unfolded None b1] s' _ _ _ Some])
            (simp_all add: b' set_active_stage_def descends_def is_active_def)
      next
        case (Some x)
        then have "b' = b1" "s' = s1"
          using assms nw dry \<open>select_scrub_node _ _ _ _ _ _ _ = _\<close> a by (auto simp: relocate_ban_def Let_def)
        then show thesis using failed a Some by blast
      qed
    next
      case None
      obtain lost ns1 where l: "all_lost now (stale_after cfg) ?g (b_target b) (sc_nodes (c_scrubbing cfg)) ns = (lost, ns1)"
        by (cases "all_lost now (stale_after cfg) ?g (b_target b) (sc_nodes (c_scrubbing cfg)) ns")
      have eq: "(b', ns', s') = (if \<not> lost then (b, ns1, s)
           else if sc_on_lost (c_scrubbing cfg) = ''blackhole'' then
             (let (b', s') = degrade_blackhole be now cfg b s in (b', ns1, s'))
           else if sc_on_lost (c_scrubbing cfg) = ''flowspec'' then
             (let (b', s') = degrade_flowspec be now cfg ?g b s in (b', ns1, s'))
           else (let (b', s') = withdraw_ban be now ''all scrubbing nodes lost'' False b s in (b', ns1, s')))"
        using assms nw dry None l by (simp add: relocate_ban_def Let_def)
      show thesis
        using eq idle blackhole flowspec withdrawn
        by (cases "degrade_blackhole be now cfg b s"; cases "degrade_flowspec be now cfg ?g b s";
            cases "withdraw_ban be now ''all scrubbing nodes lost'' False b s") (auto split: if_splits)
    qed
  qed
qed

lemma sweep_node_cases:
  assumes "sweep_node_ban be now cfg b (ns, s) = (b', ns', s')"
  obtains (idle) "b' = b" "s' = s"
  | (relocated) ns1 where "is_active b" "b_method b = MitigateDivert" "relocate_ban be now cfg b (ns1, s) = (b', ns', s')"
proof (cases "b_state b \<noteq> BanActive \<or> b_method b \<noteq> MitigateDivert \<or> b_node b = []")
  case True
  then show thesis using idle assms by (auto simp: sweep_node_ban_def)
next
  case False
  then have act: "is_active b" "b_method b = MitigateDivert" by (simp_all add: is_active_def)
  obtain lost ns1 where l: "node_lost now (b_node b) (stale_after cfg) ns = (lost, ns1)"
    by (cases "node_lost now (b_node b) (stale_after cfg) ns")
  show thesis
    using assms False l idle relocated [OF act]
    by (auto simp: sweep_node_ban_def Let_def split: option.splits if_splits)
qed

lemma relocate_descends:
  assumes "relocate_ban be now cfg b (ns, s) = (b', ns', s')"
  shows "descends b b'"
  using assms
proof (cases rule: relocate_cases)
  case (failed attrs e)
  then show ?thesis using announce_unicast by fastforce
next
  case blackhole
  then show ?thesis
    by (cases rule: degrade_blackhole_cases) (auto dest: announce_unicast intro: same_ban_descends simp: same_ban_def)
next
  case flowspec
  then show ?thesis
  proof (cases rule: degrade_flowspec_cases)
    case (failed e)
    then have "same_ban (with_rules (group_for cfg (b_target b)) b) b'" "b_step b' = b_step b"
      using announce_method_frame with_rules_frame by metis+
    then have "descends (with_rules (group_for cfg (b_target b)) b) b'"
      using with_rules_frame by (intro same_ban_descends) (auto simp: same_ban_def)
    then show ?thesis using with_rules_frame descends_trans by blast
  next
    case (applied b1 s1)
    then have "descends (with_rules (group_for cfg (b_target b)) b) b'"
      using with_rules_frame by (intro same_ban_descends) (auto simp: same_ban_def)
    then show ?thesis using with_rules_frame descends_trans by blast
  qed
qed (auto intro: withdraw_ban_descends)

lemma host_shape_same: "same_ban b b' \<Longrightarrow> host_shape b \<Longrightarrow> host_shape b'"
  by (simp add: host_shape_def same_ban_def anchored_def)

lemma relocate_shape:
  assumes "relocate_ban be now cfg b (ns, s) = (b', ns', s')" "host_shape b"
  shows "host_shape b'"
proof (rule host_shape_descends [OF relocate_descends [OF assms(1)] assms(2)])
  have a: "anchored b" using assms(2) by (simp add: host_shape_def)
  let ?w = "with_rules (group_for cfg (b_target b)) b"
  have w: "anchored ?w" using with_rules_shape [OF assms(2)] by (simp add: host_shape_def)
  show "anchored b'"
    using assms(1)
  proof (cases rule: relocate_cases)
    case (failed attrs e)
    then show ?thesis using announce_unicast a by fastforce
  next
    case (moved n attrs s1)
    then show ?thesis using a by (simp add: anchored_def descends_def)
  next
    case blackhole
    then show ?thesis
      by (cases rule: degrade_blackhole_cases) (use a in \<open>auto dest: announce_unicast intro: same_ban_anchored\<close>)
  next
    case flowspec
    then show ?thesis
      by (cases rule: degrade_flowspec_cases) (use w in \<open>auto dest: announce_method_frame intro: same_ban_anchored\<close>)
  qed (use a in \<open>auto intro: withdraw_ban_anchored\<close>)
qed

text \<open>Every call of a relocation is about the ban's own prefix.\<close>

lemma relocate_calls:
  assumes "relocate_ban be now cfg b (ns, s) = (b', ns', s')" "host_shape b"
  shows "emits s s' (call_about (b_prefix b))"
proof -
  have a: "anchored b" using assms(2) by (simp add: host_shape_def)
  let ?w = "with_rules (group_for cfg (b_target b)) b"
  have w: "anchored ?w" "b_prefix ?w = b_prefix b"
    using with_rules_shape [OF assms(2)] with_rules_frame by (auto simp: host_shape_def descends_def)
  show ?thesis
    using assms(1)
  proof (cases rule: relocate_cases)
    case (failed attrs e)
    then show ?thesis using own_calls_about announce_method_own a by blast
  next
    case (moved n attrs s1)
    then show ?thesis using own_calls_about [OF announce_method_own [OF moved(1) a] a] by simp
  next
    case blackhole
    then show ?thesis
      by (cases rule: degrade_blackhole_cases) (auto intro: own_calls_about announce_method_own a)
  next
    case flowspec
    then show ?thesis
    proof (cases rule: degrade_flowspec_cases)
      case (failed e)
      then show ?thesis using own_calls_about [OF announce_method_own [OF failed w(1)] w(1)] w(2) by simp
    next
      case (applied b1 s1)
      have "b_prefix b1 = b_prefix b" using applied(4) w(2) by (simp add: same_ban_def)
      then show ?thesis
        using own_calls_about [OF announce_method_own [OF applied(1) w(1)] w(1)] w(2) applied(2)
          own_calls_about [OF withdraw_method_own [OF same_ban_anchored [OF applied(4) w(1)], of s1 be MitigateDivert] same_ban_anchored [OF applied(4) w(1)]]
        by (auto intro: emits_trans)
    qed
  qed (auto intro: own_calls_about withdraw_ban_own a)
qed

text \<open>A relocation keeps a rung standing: the old route is replaced in place, or the rules are up first.\<close>

lemma enforced_unicast:
  "m = MitigateDivert \<or> m = MitigateBlackhole \<Longrightarrow> enforced b m l \<longleftrightarrow> standing (NUni (b_prefix b)) l"
  by (auto simp: enforced_def method_nlris_def)

lemma announce_unicast_keeps:
  assumes "announce_method be now cfg b m attrs s = (e, b', s')" "m = MitigateDivert \<or> m = MitigateBlackhole"
    "standing n (io_log s)"
  shows "standing n (io_log s')"
  by (rule standing_emits [OF emits_mono [OF conjunct2 [OF announce_unicast [OF assms(1,2)]]] assms(3)]) simp

lemma relocate_up:
  assumes "relocate_ban be now cfg b (ns, s) = (b', ns', s')" "\<not> c_dry_run cfg" "b_method b = MitigateDivert"
    "up b (io_log s)"
  shows "up b' (io_log s')"
  using assms(1)
proof (cases rule: relocate_cases)
  case (failed attrs e)
  have "b' = b" using announce_unicast [OF failed] by simp
  then show ?thesis using announce_unicast_keeps [OF failed] assms(3,4) by (auto simp: up_def enforced_unicast)
next
  case (moved n attrs s1)
  have "enforced b MitigateDivert (io_log s1)" by (rule announce_method_stands [OF moved(1) assms(2)])
  then show ?thesis using moved by (simp add: up_def enforced_unicast descends_def)
next
  case blackhole
  then show ?thesis
  proof (cases rule: degrade_blackhole_cases)
    case (failed e)
    have "b' = b" using announce_unicast [OF failed] by simp
    then show ?thesis using announce_unicast_keeps [OF failed] assms(3,4) by (auto simp: up_def enforced_unicast)
  next
    case (applied s1)
    have "enforced b MitigateBlackhole (io_log s1)" by (rule announce_method_stands [OF applied(1) assms(2)])
    then show ?thesis using applied by (simp add: up_def enforced_unicast same_ban_def)
  qed
next
  case flowspec
  let ?w = "with_rules (group_for cfg (b_target b)) b"
  have fr: "b_prefix ?w = b_prefix b" "b_method ?w = b_method b" "is_active ?w = is_active b" "b_dry_run ?w = b_dry_run b"
    using with_rules_frame by (auto simp: descends_def)
  from flowspec show ?thesis
  proof (cases rule: degrade_flowspec_cases)
    case (failed e)
    have k: "same_ban ?w b'" "b_method b' = b_method b" using announce_method_frame [OF failed] fr by auto
    have "emits s s' (\<lambda>c. nlri_of c \<noteq> NUni (b_prefix b))"
      using announce_method_emits [OF failed] by (rule emits_mono) (auto simp: method_nlris_def)
    then have "standing (NUni (b_prefix b)) (io_log s') = standing (NUni (b_prefix b)) (io_log s)"
      by (rule standing_emits_other)
    then show ?thesis using k fr assms(3,4) by (auto simp: up_def enforced_unicast same_ban_def is_active_def)
  next
    case (applied b1 s1)
    have "enforced ?w MitigateFlowSpec (io_log s1)" by (rule announce_method_stands [OF applied(1) assms(2)])
    then have "enforced b1 MitigateFlowSpec (io_log s1)" using enforced_same [OF applied(4)] by simp
    then have "enforced b1 MitigateFlowSpec (io_log s')"
      using new_rung_kept [of MitigateDivert MitigateFlowSpec b1 s1 be] applied(2) emits_suffix [OF withdraw_method_emits]
      by (metis between_end mark_dirty_log route_family.distinct(7) route_family_of.simps(1,3))
    then have "enforced b' MitigateFlowSpec (io_log s')"
      using enforced_same [OF applied(4)] enforced_same [OF applied(5)] by simp
    then show ?thesis using applied(3) by (simp add: up_def)
  qed
qed (use assms(4) withdraw_ban_inactive in \<open>auto simp: up_def\<close>)

interpretation node_sweep: sweep_body "sweep_node_ban be now cfg" snd host_shape "\<not> c_dry_run cfg"
  for be now cfg
proof
  fix b b' and st st' :: "nodes \<times> io"
  obtain ns s where st: "st = (ns, s)" by (cases st)
  obtain ns' s' where st': "st' = (ns', s')" by (cases st')
  assume f: "sweep_node_ban be now cfg b st = (b', st')"
  then have f: "sweep_node_ban be now cfg b (ns, s) = (b', ns', s')" using st st' by simp
  show "descends b b'" using f by (cases rule: sweep_node_cases) (auto intro: relocate_descends)
  show "host_shape b \<Longrightarrow> host_shape b'" using f by (cases rule: sweep_node_cases) (auto intro: relocate_shape)
  show "host_shape b \<Longrightarrow> emits (snd st) (snd st') (call_about (b_prefix b))"
    using f st st' by (cases rule: sweep_node_cases) (auto intro: relocate_calls)
  show "\<not> c_dry_run cfg \<Longrightarrow> host_shape b \<Longrightarrow> up b (io_log (snd st)) \<Longrightarrow> up b' (io_log (snd st'))"
    using f st st' by (cases rule: sweep_node_cases) (auto intro: relocate_up)
qed (simp add: host_shape_def)

end
