(* ===== verification/SourceInv.thy ===== *)
theory SourceInv
  imports SourceBlocks Enforce
begin

text \<open>
  The invariant of the source-block table (\<^verbatim>\<open>src/engine/internal/mitigate/sources.go\<close>) and that every
  operation keeps it: no empty entry, at most eight victims per source, the anchor and the
  fingerprint budgets, every pair allowed by the policy, and the two sets inside the table. A failed
  reinstall drops the source, so nothing is recorded that the kernel was not given.
\<close>

section \<open>Reinstalling a source\<close>

lemma drop_source_sel [simp]:
  "ss_blocks (drop_source s ss) = tdel s (ss_blocks ss)"
  "ss_installed (drop_source s ss) = removeAll s (ss_installed ss)"
  "ss_fp (drop_source s ss) = removeAll s (ss_fp ss)"
  by (simp_all add: drop_source_def)

lemma live_pairs_Nil [simp]: "live_pairs now [] = []"
  by (simp add: live_pairs_def List.map_filter_def)

lemma reinstall_live:
  assumes "live_pairs now (pairs_of ss source) = l" "l \<noteq> []"
    "dataplane_rules (source_rules source l) (Max (set (map snd l))) = Inr d"
    "do_call be (DpInstall (host_prefix source) (with_ttls (map snd l) d)) s = (ok, s1)"
  shows "reinstall_source be now source (ss, s) =
    (if ok then (None, ss \<lparr> ss_installed := List.insert source (ss_installed ss) \<rparr>, s1)
     else (Some (ErrCall (DpInstall (host_prefix source) (with_ttls (map snd l) d))), drop_source source ss, s1))"
  unfolding reinstall_source_def Let_def prod.case assms(1) assms(3) sum.case assms(4)
  using assms(2) by (simp split del: if_split)
definition install_of :: "nanos \<Rightarrow> src_state \<Rightarrow> addr \<Rightarrow> call \<Rightarrow> bool" where
  "install_of now ss source c \<longleftrightarrow> (\<exists>d. dataplane_rules (source_rules source (live_pairs now (pairs_of ss source)))
       (Max (set (map snd (live_pairs now (pairs_of ss source))))) = Inr d
     \<and> c = DpInstall (host_prefix source) (with_ttls (map snd (live_pairs now (pairs_of ss source))) d))"

text \<open>The four outcomes: nothing to do, withdrawn, installed, dropped.\<close>

lemma reinstall_cases:
  assumes "reinstall_source be now source (ss, s) = (e, ss', s')"
  obtains (idle) "e = None" "ss' = ss" "s' = s" "live_pairs now (pairs_of ss source) = []"
      "be_dp be \<longrightarrow> source \<notin> set (ss_installed ss)"
  | (withdrawn) "e = None" "ss' = ss \<lparr> ss_installed := removeAll source (ss_installed ss) \<rparr>" "be_dp be"
      "s' = snd (do_call be (DpWithdraw (host_prefix source)) s)" "live_pairs now (pairs_of ss source) = []"
      "source \<in> set (ss_installed ss)"
  | (installed) d where "e = None" "ss' = ss \<lparr> ss_installed := List.insert source (ss_installed ss) \<rparr>"
      "live_pairs now (pairs_of ss source) \<noteq> []"
      "dataplane_rules (source_rules source (live_pairs now (pairs_of ss source)))
         (Max (set (map snd (live_pairs now (pairs_of ss source))))) = Inr d"
      "do_call be (DpInstall (host_prefix source) (with_ttls (map snd (live_pairs now (pairs_of ss source))) d)) s = (True, s')"
  | (dropped) x where "e = Some x" "ss' = drop_source source ss" "live_pairs now (pairs_of ss source) \<noteq> []"
      "emits s s' (install_of now ss source)"
proof -
  let ?l = "live_pairs now (pairs_of ss source)"
  show thesis
  proof (cases "?l = []")
    case True
    show thesis
    proof (cases "\<not> be_dp be \<or> source \<notin> set (ss_installed ss)")
      case no: True
      then have "e = None" "ss' = ss" "s' = s" using assms True by (auto simp: reinstall_source_def Let_def)
      then show thesis using idle True no by blast
    next
      case yes: False
      then have "e = None" "ss' = ss \<lparr> ss_installed := removeAll source (ss_installed ss) \<rparr>"
        "s' = snd (do_call be (DpWithdraw (host_prefix source)) s)"
        using assms True by (auto simp: reinstall_source_def Let_def)
      then show thesis using withdrawn True yes by blast
    qed
  next
    case live: False
    show thesis
    proof (cases "dataplane_rules (source_rules source ?l) (Max (set (map snd ?l)))")
      case (Inl err)
      then have q: "e = Some (ErrCompile err)" "ss' = drop_source source ss" "s' = s"
        using assms live by (auto simp: reinstall_source_def Let_def)
      show thesis by (rule dropped [OF q(1,2) live]) (simp add: q(3))
    next
      case (Inr d)
      obtain ok s1 where c: "do_call be (DpInstall (host_prefix source) (with_ttls (map snd ?l) d)) s = (ok, s1)"
        by (cases "do_call be (DpInstall (host_prefix source) (with_ttls (map snd ?l) d)) s")
      show thesis
      proof (cases ok)
        case True
        have "(e, ss', s') = (None, ss \<lparr> ss_installed := List.insert source (ss_installed ss) \<rparr>, s1)"
          by (rule trans [OF assms [symmetric] reinstall_live [OF refl live Inr c], unfolded if_P [OF True]])
        then have q: "e = None" "ss' = ss \<lparr> ss_installed := List.insert source (ss_installed ss) \<rparr>" "s1 = s'" by simp_all
        show thesis by (rule installed [OF q(1,2) live Inr]) (use c True q(3) in simp)
      next
        case False
        have "(e, ss', s') = (Some (ErrCall (DpInstall (host_prefix source) (with_ttls (map snd ?l) d))),
            drop_source source ss, s1)"
          by (rule trans [OF assms [symmetric] reinstall_live [OF refl live Inr c], unfolded if_not_P [OF False]])
        then have e: "e = Some (ErrCall (DpInstall (host_prefix source) (with_ttls (map snd ?l) d)))"
          "ss' = drop_source source ss" "s1 = s'" by simp_all
        have "emits s s' (install_of now ss source)"
          by (rule emits_do_call [OF c [unfolded e(3)]]) (use Inr in \<open>auto simp: install_of_def\<close>)
        then show thesis by (rule dropped [OF e(1,2) live])
      qed
    qed
  qed
qed

lemma reinstall_emits [emit_rules]:
  "reinstall_source be now source (ss, s) = (e, ss', s') \<Longrightarrow> emits s s' (\<lambda>c. nlri_of c = NDp (host_prefix source))"
  by (erule reinstall_cases)
    (auto intro: emits_do_call emits_do_call_snd elim!: emits_mono simp: install_of_def)

text \<open>The rules of an install name the victims of the source, and nobody else, as destinations.\<close>

definition victims :: "(addr \<Rightarrow> bool) \<Rightarrow> src_state \<Rightarrow> bool" where
  "victims Z ss \<longleftrightarrow> (\<forall>s. list_all (\<lambda>p. Z (fst p)) (pairs_of ss s))"

definition call_on :: "addr \<Rightarrow> (addr \<Rightarrow> bool) \<Rightarrow> call \<Rightarrow> bool" where
  "call_on source Z c \<longleftrightarrow> nlri_of c = NDp (host_prefix source)
     \<and> (\<forall>q d. c = DpInstall q d \<longrightarrow> (\<forall>x \<in> set (dr_specs d). \<exists>v. Z v \<and> sp_dst x = host_prefix v))"

lemma live_pairs_set:
  "(v, t) \<in> set (live_pairs now ps) \<Longrightarrow>
   \<exists>b. (v, b) \<in> set ps \<and> \<not> sb_dry_run b \<and> 0 < t \<and> t = time_sub (sb_expires b) now"
  by (force simp: live_pairs_def List.map_filter_def Let_def split: if_splits)

lemma with_ttls_dst: "x \<in> set (dr_specs (with_ttls ts d)) \<Longrightarrow> \<exists>y \<in> set (dr_specs d). sp_dst x = sp_dst y"
  by (auto simp: with_ttls_def) (metis rule_spec.select_convs(7) rule_spec.surjective rule_spec.update_convs(5) set_zip_rightD)

lemma install_of_calls:
  assumes "victims Z ss" "install_of now ss source c"
  shows "call_on source Z c"
proof -
  let ?l = "live_pairs now (pairs_of ss source)"
  obtain d where d: "dataplane_rules (source_rules source ?l) (Max (set (map snd ?l))) = Inr d"
    "c = DpInstall (host_prefix source) (with_ttls (map snd ?l) d)"
    using assms(2) by (auto simp: install_of_def)
  have "\<exists>v. Z v \<and> sp_dst x = host_prefix v" if x: "x \<in> set (dr_specs (with_ttls (map snd ?l) d))" for x
  proof -
    obtain y where y: "y \<in> set (dr_specs d)" "sp_dst x = sp_dst y" using with_ttls_dst [OF x] by blast
    obtain r where r: "r \<in> set (source_rules source ?l)" "sp_dst y = r_dst r" using dataplane_rules_dst [OF d(1) y(1)] by blast
    then obtain v t where "(v, t) \<in> set ?l" "r_dst r = host_prefix v" by (auto simp: source_rules_def anchor_rule_def)
    moreover from this obtain b where "(v, b) \<in> set (pairs_of ss source)" using live_pairs_set by blast
    ultimately show ?thesis using assms(1) y r by (force simp: victims_def list_all_iff)
  qed
  then show ?thesis using d(2) by (auto simp: call_on_def)
qed

lemma reinstall_calls [emit_rules]:
  assumes "reinstall_source be now source (ss, s) = (e, ss', s')" "victims Z ss"
  shows "emits s s' (call_on source Z)"
  using assms(1)
proof (cases rule: reinstall_cases)
  case withdrawn
  then show ?thesis by (auto intro!: emits_do_call_snd simp: call_on_def)
next
  case (installed d)
  have "install_of now ss source (DpInstall (host_prefix source) (with_ttls (map snd (live_pairs now (pairs_of ss source))) d))"
    using installed(4) by (auto simp: install_of_def)
  then show ?thesis using emits_do_call [OF installed(5)] install_of_calls [OF assms(2)] by blast
next
  case (dropped x)
  then show ?thesis using emits_mono install_of_calls [OF assms(2)] by blast
qed simp

section \<open>The invariant\<close>

definition pair_ok :: "backend \<Rightarrow> config \<Rightarrow> addr \<Rightarrow> addr \<times> source_block \<Rightarrow> bool" where
  "pair_ok be cfg source p \<longleftrightarrow> sb_source (snd p) = source \<and> sb_victim (snd p) = fst p \<and> addr_valid (fst p)
     \<and> is4 (fst p) = is4 source \<and> source_block_policy be cfg (fst p) source = None"

definition entry_ok :: "backend \<Rightarrow> config \<Rightarrow> addr \<times> pairs \<Rightarrow> bool" where
  "entry_ok be cfg e \<longleftrightarrow> snd e \<noteq> [] \<and> table_ok (snd e) \<and> length (snd e) \<le> max_rules_per_attack
     \<and> addr_valid (fst e) \<and> list_all (pair_ok be cfg (fst e)) (snd e)"

definition src_inv :: "backend \<Rightarrow> config \<Rightarrow> src_state \<Rightarrow> bool" where
  "src_inv be cfg ss \<longleftrightarrow> table_ok (ss_blocks ss) \<and> list_all (entry_ok be cfg) (ss_blocks ss)
     \<and> distinct (ss_fp ss) \<and> set (ss_fp ss) \<subseteq> fst ` set (ss_blocks ss)
     \<and> set (ss_installed ss) \<subseteq> fst ` set (ss_blocks ss)
     \<and> int (length (ss_blocks ss)) \<le> max 0 (source_anchor_budget cfg)
     \<and> int (length (ss_fp ss)) \<le> fp_source_anchor_budget cfg"

lemma src_inv_empty: "src_inv be cfg src_empty"
  by (auto simp: src_inv_def src_empty_def fp_source_anchor_budget_def Let_def)

lemma length_tdel_le: "length (tdel k t) \<le> length t"
  by (simp add: tdel_def AList.length_delete_le)

lemma length_removeAll_le: "length (removeAll x xs) \<le> length xs"
  by (simp add: removeAll_filter_not_eq)

lemma keys_tdel: "fst ` set (tdel k t) = fst ` set t - {k}"
  by (auto simp: set_tdel)

lemma list_all_tput: "list_all P t \<Longrightarrow> P (k, v) \<Longrightarrow> list_all P (tput k v t)"
  using set_tput_subset [of k v t] by (auto simp: list_all_iff)

lemma list_all_tdel: "list_all P t \<Longrightarrow> list_all P (tdel k t)"
  by (simp add: list_all_iff set_tdel)

text \<open>Removing a source altogether keeps the invariant.\<close>

lemma drop_source_inv [inv_rules]: "src_inv be cfg ss \<Longrightarrow> src_inv be cfg (drop_source source ss)"
proof -
  assume i: "src_inv be cfg ss"
  have "int (length (tdel source (ss_blocks ss))) \<le> int (length (ss_blocks ss))"
    "int (length (removeAll source (ss_fp ss))) \<le> int (length (ss_fp ss))"
    using length_tdel_le length_removeAll_le by auto
  then have "int (length (tdel source (ss_blocks ss))) \<le> max 0 (source_anchor_budget cfg)"
    "int (length (removeAll source (ss_fp ss))) \<le> fp_source_anchor_budget cfg"
    using i unfolding src_inv_def by linarith+
  then show ?thesis using i by (auto simp: src_inv_def tbl.inv_del list_all_tdel keys_tdel distinct_removeAll)
qed

text \<open>The table without the two installed-sets' side, which a reinstall repairs.\<close>

definition src_pre :: "backend \<Rightarrow> config \<Rightarrow> addr \<Rightarrow> src_state \<Rightarrow> bool" where
  "src_pre be cfg source ss \<longleftrightarrow> src_inv be cfg (ss \<lparr> ss_installed := removeAll source (ss_installed ss) \<rparr>)"

lemma src_inv_pre: "src_inv be cfg ss \<Longrightarrow> src_pre be cfg source ss"
  by (auto simp: src_pre_def src_inv_def)

lemma pairs_of_keys: "pairs_of ss source \<noteq> [] \<Longrightarrow> source \<in> fst ` set (ss_blocks ss)"
  by (auto simp: pairs_of_def split: option.splits dest!: tget_in_set intro: rev_image_eqI)

lemma reinstall_inv:
  assumes "reinstall_source be now source (ss, s) = (e, ss', s')" "src_pre be cfg source ss"
    "source \<in> set (ss_installed ss) \<longrightarrow> be_dp be"
  shows "src_inv be cfg ss'"
  using assms(1)
proof (cases rule: reinstall_cases)
  case idle
  then show ?thesis using assms(2,3) by (auto simp: src_pre_def)
next
  case withdrawn
  then show ?thesis using assms(2) by (simp add: src_pre_def)
next
  case (installed d)
  have "pairs_of ss source \<noteq> []" using installed(3) by auto
  then have "source \<in> fst ` set (ss_blocks ss)" by (rule pairs_of_keys)
  then show ?thesis using assms(2) installed(2) by (auto simp: src_pre_def src_inv_def)
next
  case (dropped x)
  have "drop_source source ss = drop_source source (ss \<lparr> ss_installed := removeAll source (ss_installed ss) \<rparr>)"
    by (simp add: drop_source_def)
  then show ?thesis using drop_source_inv assms(2) dropped(2) unfolding src_pre_def by metis
qed

text \<open>The backend never changes, so nothing is installed without a data plane.\<close>

lemma installed_needs_dp:
  assumes "src_inv be cfg ss" "source \<in> set (ss_installed ss)"
  shows "be_dp be"
proof -
  obtain ps where ps: "(source, ps) \<in> set (ss_blocks ss)" using assms by (auto simp: src_inv_def)
  then have "entry_ok be cfg (source, ps)" using assms(1) by (simp add: src_inv_def list_all_iff)
  then obtain p where "p \<in> set ps" "pair_ok be cfg source p" by (cases ps) (auto simp: entry_ok_def)
  then show ?thesis by (auto simp: pair_ok_def source_block_policy_def split: if_splits)
qed

lemma entry_of:
  assumes "src_inv be cfg ss" "tget (ss_blocks ss) source = Some ps"
  shows "entry_ok be cfg (source, ps)"
  using assms tget_in_set [OF assms(2)] by (auto simp: src_inv_def list_all_iff)

section \<open>Blocking\<close>

lemma block_source_cases:
  assumes "block_source be now cfg v s ttl reason auto (ss, st) = (r, ss', st')"
  obtains (refused) e where "block_refusal be cfg (unmap v) (unmap s) ttl auto ss = Some e" "r = Inl e" "ss' = ss" "st' = st"
  | (tried) e s2 where "block_refusal be cfg (unmap v) (unmap s) ttl auto ss = None"
      "reinstall_source be now (unmap s)
         (entered (unmap v) (unmap s) auto (new_pair now cfg (unmap v) (unmap s) ttl reason auto ss) ss, st) = (e, ss', s2)"
      "st' = mark_dirty s2"
      "r = (case e of None \<Rightarrow> Inr (new_pair now cfg (unmap v) (unmap s) ttl reason auto ss) | Some x \<Rightarrow> Inl (ErrInstall x))"
proof (cases "block_refusal be cfg (unmap v) (unmap s) ttl auto ss")
  case (Some e)
  then have "(r, ss', st') = (Inl e, ss, st)" using assms by (simp add: block_source_def)
  then show thesis using refused Some by simp
next
  case None
  let ?sb = "new_pair now cfg (unmap v) (unmap s) ttl reason auto ss"
  obtain e ss2 s2 where q: "reinstall_source be now (unmap s) (entered (unmap v) (unmap s) auto ?sb ss, st) = (e, ss2, s2)"
    by (cases "reinstall_source be now (unmap s) (entered (unmap v) (unmap s) auto ?sb ss, st)") auto
  have "(r, ss', st') = (case e of None \<Rightarrow> Inr ?sb | Some x \<Rightarrow> Inl (ErrInstall x), ss2, mark_dirty s2)"
    using assms None q by (simp add: block_source_def)
  then show thesis using tried None q by simp
qed

text \<open>The guards a block has passed when it is not refused.\<close>

definition block_guards :: "backend \<Rightarrow> config \<Rightarrow> addr \<Rightarrow> addr \<Rightarrow> int \<Rightarrow> bool \<Rightarrow> src_state \<Rightarrow> bool" where
  "block_guards be cfg victim source ttl auto ss \<longleftrightarrow>
     addr_valid victim \<and> addr_valid source \<and> is4 victim = is4 source
     \<and> min_source_ttl \<le> ttl \<and> ttl \<le> max_source_ttl \<and> source_block_policy be cfg victim source = None
     \<and> (tget (pairs_of ss source) victim = None \<longrightarrow> length (pairs_of ss source) < max_rules_per_attack)
     \<and> (tget (ss_blocks ss) source = None \<longrightarrow> int (length (ss_blocks ss)) < source_anchor_budget cfg
          \<and> (auto \<longrightarrow> int (length (ss_fp ss)) < fp_source_anchor_budget cfg))"

lemma block_refusal_None: "block_refusal be cfg v s ttl auto ss = None \<longleftrightarrow> block_guards be cfg v s ttl auto ss"
  by (auto simp: block_refusal_def block_guards_def Let_def not_less not_le split: option.split)

lemma tget_pairs: "tget (ss_blocks ss) source = Some ps \<Longrightarrow> pairs_of ss source = ps"
  by (simp add: pairs_of_def)

lemma pairs_entry_ok:
  assumes "src_inv be cfg ss"
  shows "table_ok (pairs_of ss source) \<and> length (pairs_of ss source) \<le> max_rules_per_attack
    \<and> list_all (pair_ok be cfg source) (pairs_of ss source)"
  using entry_of [OF assms] by (cases "tget (ss_blocks ss) source") (auto simp: pairs_of_def entry_ok_def)

lemma entered_inv_gen:
  assumes i: "src_inv be cfg ss" and ok: "addr_valid victim" "addr_valid source" "is4 victim = is4 source"
    "source_block_policy be cfg victim source = None"
    and room: "tget (pairs_of ss source) victim = None \<longrightarrow> length (pairs_of ss source) < max_rules_per_attack"
    and len: "int (length (tput source (tput victim sb (pairs_of ss source)) (ss_blocks ss))) \<le> max 0 (source_anchor_budget cfg)"
    and fp: "tget (ss_blocks ss) source = None \<longrightarrow> auto \<longrightarrow> int (length (ss_fp ss)) < fp_source_anchor_budget cfg"
    and sb: "sb_source sb = source" "sb_victim sb = victim"
  shows "src_inv be cfg (entered victim source auto sb ss)"
proof -
  note ps = pairs_entry_ok [OF i, of source]
  let ?ps = "tput victim sb (pairs_of ss source)"
  have len1: "length ?ps \<le> max_rules_per_attack" using ps room by (auto simp: length_tput)
  have ent: "entry_ok be cfg (source, ?ps)"
  proof -
    have "?ps \<noteq> []" using keys_tput [of victim sb "pairs_of ss source"] by auto
    moreover have "list_all (pair_ok be cfg source) ?ps"
      by (rule list_all_tput) (use ps ok sb in \<open>simp_all add: pair_ok_def\<close>)
    ultimately show ?thesis using ps len1 ok(2) by (simp add: entry_ok_def tbl.inv_put)
  qed
  have keys: "fst ` set (ss_blocks ss) \<subseteq> fst ` set (tput source ?ps (ss_blocks ss))" by (auto simp: keys_tput)
  have "int (length (if tget (ss_blocks ss) source = None \<and> auto then List.insert source (ss_fp ss) else ss_fp ss))
      \<le> fp_source_anchor_budget cfg"
    using i fp by (auto simp: src_inv_def List.insert_def)
  then show ?thesis
    using i ent keys len unfolding src_inv_def entered_def
    by (auto simp: tbl.inv_put keys_tput intro!: list_all_tput)
qed

lemma entered_inv:
  assumes "src_inv be cfg ss" "block_guards be cfg victim source ttl auto ss" "sb_source sb = source" "sb_victim sb = victim"
  shows "src_inv be cfg (entered victim source auto sb ss)"
  by (rule entered_inv_gen [OF assms(1)])
    (use assms in \<open>auto simp: block_guards_def length_tput src_inv_def\<close>)

lemma block_source_inv [inv_rules]:
  assumes "block_source be now cfg v s ttl reason auto (ss, st) = (r, ss', st')" "src_inv be cfg ss"
  shows "src_inv be cfg ss'"
  using assms(1)
proof (cases rule: block_source_cases)
  case (tried e s2)
  let ?e = "entered (unmap v) (unmap s) auto (new_pair now cfg (unmap v) (unmap s) ttl reason auto ss) ss"
  have "src_inv be cfg ?e" by (rule entered_inv [OF assms(2) tried(1) [unfolded block_refusal_None]]) (simp_all add: new_pair_def)
  then show ?thesis using reinstall_inv [OF tried(2) src_inv_pre] installed_needs_dp by blast
qed (use assms(2) in simp)

section \<open>Unblocking and the sweep\<close>

lemma keep_pairs_pre:
  assumes "src_inv be cfg ss" "tget (ss_blocks ss) source \<noteq> None"
    "table_ok ps" "length ps \<le> max_rules_per_attack" "list_all (pair_ok be cfg source) ps"
  shows "src_pre be cfg source (keep_pairs source ps ss)"
proof (cases "ps = []")
  case True
  then show ?thesis
    using drop_source_inv [OF assms(1), of source] by (simp add: src_pre_def keep_pairs_def src_inv_def)
next
  case False
  obtain qs where qs: "tget (ss_blocks ss) source = Some qs" using assms(2) by auto
  have "entry_ok be cfg (source, ps)"
    using entry_of [OF assms(1) qs] False assms(3-) by (simp add: entry_ok_def)
  moreover have "source \<in> fst ` set (ss_blocks ss)" using tget_in_set [OF qs] by force
  ultimately show ?thesis
    using assms(1,2) False unfolding src_pre_def src_inv_def keep_pairs_def
    by (auto simp: tbl.inv_put keys_tput length_tput intro!: list_all_tput)
qed

lemma keep_pairs_installed [simp]: "ss_installed (keep_pairs source ps ss) = ss_installed ss"
  by (simp add: keep_pairs_def)

lemma list_all_filter: "list_all P xs \<Longrightarrow> list_all P (filter Q xs)"
  by (simp add: list_all_iff)

lemma unblock_cases:
  assumes "unblock_source be now v s (ss, st) = (r, ss', st')"
  obtains (missing) "r = Inl ErrNotFound" "ss' = ss" "st' = st" "tget (pairs_of ss (unmap s)) (unmap v) = None"
  | (removed) sb e s2 where "tget (pairs_of ss (unmap s)) (unmap v) = Some sb" "r = Inr sb"
      "reinstall_source be now (unmap s) (keep_pairs (unmap s) (tdel (unmap v) (pairs_of ss (unmap s))) ss, st) = (e, ss', s2)"
      "st' = mark_dirty s2"
proof (cases "tget (pairs_of ss (unmap s)) (unmap v)")
  case None
  then show thesis using missing assms by (auto simp: unblock_source_def Let_def)
next
  case (Some sb)
  obtain e ss2 s2 where q: "reinstall_source be now (unmap s)
      (keep_pairs (unmap s) (tdel (unmap v) (pairs_of ss (unmap s))) ss, st) = (e, ss2, s2)"
    by (cases "reinstall_source be now (unmap s) (keep_pairs (unmap s) (tdel (unmap v) (pairs_of ss (unmap s))) ss, st)") auto
  then have "(r, ss', st') = (Inr sb, ss2, mark_dirty s2)"
    using assms Some by (simp add: unblock_source_def Let_def)
  then show thesis using removed [OF Some] q by simp
qed

lemma pairs_of_known: "tget (pairs_of ss source) v = Some sb \<Longrightarrow> tget (ss_blocks ss) source \<noteq> None"
  by (auto simp: pairs_of_def split: option.splits)

lemma unblock_source_inv [inv_rules]:
  assumes "unblock_source be now v s (ss, st) = (r, ss', st')" "src_inv be cfg ss"
  shows "src_inv be cfg ss'"
  using assms(1)
proof (cases rule: unblock_cases)
  case (removed sb e s2)
  note ps = pairs_entry_ok [OF assms(2), of "unmap s"]
  have len: "length (tdel (unmap v) (pairs_of ss (unmap s))) \<le> max_rules_per_attack"
    by (rule le_trans [OF length_tdel_le]) (use ps in simp)
  show ?thesis
    by (rule reinstall_inv [OF removed(3) keep_pairs_pre [OF assms(2) pairs_of_known [OF removed(1)]]])
      (use ps len installed_needs_dp [OF assms(2)] in \<open>auto intro: tbl.inv_del list_all_tdel\<close>)
qed (use assms(2) in simp)

lemma filter_length_all: "length (filter P xs) = length xs \<Longrightarrow> list_all P xs"
  by (induction xs) (use length_filter_le in \<open>auto simp: Suc_le_eq split: if_splits\<close>, metis Suc_n_not_le_n length_filter_le)

lemma sweep_source_cases:
  assumes "sweep_source be now cfg source (ch, ss, st) = (ch', ss', st')"
  obtains (idle) "ss' = ss" "st' = st" "ch' = ch"
      "list_all (\<lambda>(v, b). \<not> retire_pair be now cfg source v b) (pairs_of ss source)"
  | (retired) e where "pairs_of ss source \<noteq> []" "ch'"
      "reinstall_source be now source
         (keep_pairs source (filter (\<lambda>(v, b). \<not> retire_pair be now cfg source v b) (pairs_of ss source)) ss, st) = (e, ss', st')"
proof -
  let ?k = "filter (\<lambda>(v, b). \<not> retire_pair be now cfg source v b) (pairs_of ss source)"
  obtain e ss2 s2 where q: "reinstall_source be now source (keep_pairs source ?k ss, st) = (e, ss2, s2)"
    by (cases "reinstall_source be now source (keep_pairs source ?k ss, st)") auto
  show thesis
  proof (cases "length ?k = length (pairs_of ss source)")
    case True
    then have "(ch', ss', st') = (ch, ss, st)" using assms by (simp add: sweep_source_def Let_def)
    moreover have "list_all (\<lambda>(v, b). \<not> retire_pair be now cfg source v b) (pairs_of ss source)"
      using True filter_length_all [of "\<lambda>(v, b). \<not> retire_pair be now cfg source v b"] by simp
    ultimately show thesis using idle by simp
  next
    case False
    then have "(ch', ss', st') = (True, ss2, s2)" using assms q by (simp add: sweep_source_def Let_def)
    then show thesis using retired q False by fastforce
  qed
qed

lemma sweep_source_inv:
  assumes "sweep_source be now cfg source (ch, ss, st) = (ch', ss', st')" "src_inv be cfg ss"
  shows "src_inv be cfg ss'"
  using assms(1)
proof (cases rule: sweep_source_cases)
  case (retired e)
  note ps = pairs_entry_ok [OF assms(2), of source]
  have known: "tget (ss_blocks ss) source \<noteq> None" using retired(1) by (auto simp: pairs_of_def split: option.splits)
  have len: "length (filter (\<lambda>(v, b). \<not> retire_pair be now cfg source v b) (pairs_of ss source)) \<le> max_rules_per_attack"
    by (rule le_trans [OF length_filter_le]) (use ps in simp)
  show ?thesis
    by (rule reinstall_inv [OF retired(3) keep_pairs_pre [OF assms(2) known]])
      (use ps len installed_needs_dp [OF assms(2)] in \<open>auto intro: table_ok_filter list_all_filter\<close>)
qed (use assms(2) in simp)

text \<open>A source left clean by the sweep, and what a sweep of one source does to the others.\<close>

definition clean :: "backend \<Rightarrow> nanos \<Rightarrow> config \<Rightarrow> addr \<Rightarrow> src_state \<Rightarrow> bool" where
  "clean be now cfg source ss \<longleftrightarrow> list_all (\<lambda>(v, b). \<not> retire_pair be now cfg source v b) (pairs_of ss source)"

lemma clean_Nil: "pairs_of ss source = [] \<Longrightarrow> clean be now cfg source ss"
  by (simp add: clean_def)

lemma clean_cong: "pairs_of ss' source = pairs_of ss source \<Longrightarrow> clean be now cfg source ss' = clean be now cfg source ss"
  by (simp add: clean_def)

lemma pairs_of_keep [simp]:
  "pairs_of (keep_pairs source ps ss) s = (if s = source then ps else pairs_of ss s)"
  by (auto simp: pairs_of_def keep_pairs_def table_laws)

lemma pairs_of_drop [simp]: "pairs_of (drop_source source ss) s = (if s = source then [] else pairs_of ss s)"
  by (auto simp: pairs_of_def table_laws)

lemma reinstall_pairs:
  "reinstall_source be now source (ss, st) = (e, ss', st') \<Longrightarrow>
   pairs_of ss' s = pairs_of ss s \<or> s = source \<and> pairs_of ss' s = []"
  by (erule reinstall_cases) (auto simp: pairs_of_def [of "ss_installed_update _ _"] pairs_of_def [of ss])

lemma reinstall_keys:
  "reinstall_source be now source (ss, st) = (e, ss', st') \<Longrightarrow> fst ` set (ss_blocks ss') \<subseteq> fst ` set (ss_blocks ss)"
  by (erule reinstall_cases) (auto simp: keys_tdel)

lemma keep_pairs_keys:
  "source \<in> fst ` set (ss_blocks ss) \<Longrightarrow> fst ` set (ss_blocks (keep_pairs source ps ss)) \<subseteq> fst ` set (ss_blocks ss)"
  by (auto simp: keep_pairs_def keys_tdel keys_tput)

lemma victims_shrink:
  "victims Z ss \<Longrightarrow> (\<And>s. set (pairs_of ss' s) \<subseteq> set (pairs_of ss s)) \<Longrightarrow> victims Z ss'"
  unfolding victims_def list_all_iff by blast

lemma reinstall_victims:
  assumes "reinstall_source be now source (ss, st) = (e, ss', st')" "victims Z ss"
  shows "victims Z ss'"
proof (rule victims_shrink [OF assms(2)])
  show "set (pairs_of ss' s) \<subseteq> set (pairs_of ss s)" for s using reinstall_pairs [OF assms(1), of s] by auto
qed

lemma keep_victims: "victims Z ss \<Longrightarrow> set ps \<subseteq> set (pairs_of ss source) \<Longrightarrow> victims Z (keep_pairs source ps ss)"
  by (erule victims_shrink) auto

text \<open>One source of the sweep: left clean, no source entered, no other source touched, calls about it only.\<close>

lemma sweep_source_clean:
  assumes "sweep_source be now cfg source (ch, ss, st) = (ch', ss', st')"
  shows "clean be now cfg source ss' \<and> (clean be now cfg s ss \<longrightarrow> clean be now cfg s ss')
    \<and> fst ` set (ss_blocks ss') \<subseteq> fst ` set (ss_blocks ss)"
  using assms
proof (cases rule: sweep_source_cases)
  case (retired e)
  let ?k = "filter (\<lambda>(v, b). \<not> retire_pair be now cfg source v b) (pairs_of ss source)"
  have k: "list_all (\<lambda>(v, b). \<not> retire_pair be now cfg source v b) ?k" by (auto simp: list_all_iff)
  have "pairs_of ss' q = (if q = source then ?k else pairs_of ss q) \<or> q = source \<and> pairs_of ss' q = []" for q
    using reinstall_pairs [OF retired(3), of q] by simp
  then have "pairs_of ss' source = ?k \<or> pairs_of ss' source = []" "s \<noteq> source \<longrightarrow> pairs_of ss' s = pairs_of ss s"
    by metis+
  then have "clean be now cfg source ss'" "clean be now cfg s ss \<longrightarrow> clean be now cfg s ss'"
    using k clean_cong [of ss' s ss be now cfg] by (auto simp: clean_def)
  moreover have "source \<in> fst ` set (ss_blocks ss)" using pairs_of_keys retired(1) by blast
  ultimately show ?thesis
    using reinstall_keys [OF retired(3)] keep_pairs_keys [of source ss ?k] by blast
qed (simp_all add: clean_def)

lemma sweep_source_calls [emit_rules]:
  assumes "sweep_source be now cfg source (ch, ss, st) = (ch', ss', st')" "victims Z ss"
  shows "emits st st' (call_on source Z) \<and> victims Z ss'"
  using assms(1)
proof (cases rule: sweep_source_cases)
  case (retired e)
  let ?k = "filter (\<lambda>(v, b). \<not> retire_pair be now cfg source v b) (pairs_of ss source)"
  have "victims Z (keep_pairs source ?k ss)" by (rule keep_victims [OF assms(2)]) auto
  then show ?thesis using reinstall_calls [OF retired(3)] reinstall_victims [OF retired(3)] by blast
qed (simp add: assms(2))

lemma fold_sweep:
  assumes "fold (sweep_source be now cfg) ks (ch, ss, st) = (ch', ss', st')" "src_inv be cfg ss" "victims Z ss"
  shows "src_inv be cfg ss' \<and> victims Z ss' \<and> (\<forall>s. s \<in> set ks \<or> clean be now cfg s ss \<longrightarrow> clean be now cfg s ss')
    \<and> fst ` set (ss_blocks ss') \<subseteq> fst ` set (ss_blocks ss)
    \<and> emits st st' (\<lambda>c. \<exists>s \<in> set ks. call_on s Z c)"
  using assms
proof (induction ks arbitrary: ch ss st)
  case (Cons k ks)
  obtain ch1 ss1 st1 where k: "sweep_source be now cfg k (ch, ss, st) = (ch1, ss1, st1)"
    by (cases "sweep_source be now cfg k (ch, ss, st)") auto
  note one = sweep_source_clean [OF k] and calls = sweep_source_calls [OF k Cons.prems(3)]
  have rest: "src_inv be cfg ss' \<and> victims Z ss' \<and> (\<forall>s. s \<in> set ks \<or> clean be now cfg s ss1 \<longrightarrow> clean be now cfg s ss')
    \<and> fst ` set (ss_blocks ss') \<subseteq> fst ` set (ss_blocks ss1)
    \<and> emits st1 st' (\<lambda>c. \<exists>s \<in> set ks. call_on s Z c)"
    by (rule Cons.IH [of ch1]) (use Cons.prems k sweep_source_inv [OF k] calls in simp_all)
  let ?P = "\<lambda>c. \<exists>s \<in> set (k # ks). call_on s Z c"
  have "emits st st1 ?P" by (rule emits_mono [OF conjunct1 [OF calls]]) simp
  moreover have "emits st1 st' ?P"
    by (rule emits_mono [of _ _ "\<lambda>c. \<exists>s \<in> set ks. call_on s Z c"]) (use rest in simp_all)
  ultimately have em: "emits st st' ?P" by (rule emits_trans)
  have "clean be now cfg s ss'" if "s \<in> set (k # ks) \<or> clean be now cfg s ss" for s
    using that one [of s] rest by (cases "s = k") auto
  moreover have "fst ` set (ss_blocks ss') \<subseteq> fst ` set (ss_blocks ss)"
    using one [of k] rest by (meson subset_trans)
  ultimately show ?case using em rest by simp
qed simp

lemma sweep_source_blocks_ok:
  assumes "sweep_source_blocks be now cfg (ss, st) = (ss', st')" "src_inv be cfg ss" "victims Z ss"
  shows "src_inv be cfg ss' \<and> victims Z ss' \<and> (\<forall>s. clean be now cfg s ss')
    \<and> fst ` set (ss_blocks ss') \<subseteq> fst ` set (ss_blocks ss)
    \<and> emits st st' (\<lambda>c. \<exists>s \<in> fst ` set (ss_blocks ss). call_on s Z c)"
proof -
  obtain ch1 st1 where f: "fold (sweep_source be now cfg) (map fst (ss_blocks ss)) (False, ss, st) = (ch1, ss', st1)"
    "st' = (if ch1 then mark_dirty st1 else st1)"
    using assms(1) by (auto simp: sweep_source_blocks_def Let_def split: prod.splits)
  note g = fold_sweep [OF f(1) assms(2,3)]
  have "clean be now cfg s ss'" for s
  proof (cases "s \<in> fst ` set (ss_blocks ss')")
    case True
    then have "s \<in> set (map fst (ss_blocks ss))" using g by auto
    then show ?thesis using g by blast
  next
    case False
    then show ?thesis using pairs_of_keys clean_Nil by blast
  qed
  then show ?thesis using g f(2) by auto
qed

text \<open>That every pair left is valid needs no invariant: the sweep cleans up after any reload.\<close>

lemma fold_sweep_clean:
  "fold (sweep_source be now cfg) ks (ch, ss, st) = (ch', ss', st') \<Longrightarrow>
   (\<forall>k \<in> set ks. clean be now cfg k ss') \<and> (clean be now cfg s ss \<longrightarrow> clean be now cfg s ss')
   \<and> fst ` set (ss_blocks ss') \<subseteq> fst ` set (ss_blocks ss)"
proof (induction ks arbitrary: ch ss st s)
  case (Cons k ks)
  obtain ch1 ss1 st1 where k: "sweep_source be now cfg k (ch, ss, st) = (ch1, ss1, st1)"
    by (cases "sweep_source be now cfg k (ch, ss, st)") auto
  have f: "fold (sweep_source be now cfg) ks (ch1, ss1, st1) = (ch', ss', st')" using Cons.prems k by simp
  have "clean be now cfg k ss'" by (rule mp [OF conjunct1 [OF conjunct2 [OF Cons.IH [OF f, of k]]]])
      (rule conjunct1 [OF sweep_source_clean [OF k]])
  moreover have "clean be now cfg s ss \<longrightarrow> clean be now cfg s ss'"
    using sweep_source_clean [OF k, of s] Cons.IH [OF f, of s] by simp
  moreover have "fst ` set (ss_blocks ss') \<subseteq> fst ` set (ss_blocks ss)"
    by (rule subset_trans [OF conjunct2 [OF conjunct2 [OF Cons.IH [OF f, of s]]]
          conjunct2 [OF conjunct2 [OF sweep_source_clean [OF k, of s]]]])
  ultimately show ?case using Cons.IH [OF f, of s] by simp
qed simp

lemma sweep_leaves_clean:
  "sweep_source_blocks be now cfg (ss, st) = (ss', st') \<Longrightarrow> clean be now cfg s ss'"
proof -
  assume "sweep_source_blocks be now cfg (ss, st) = (ss', st')"
  then obtain ch1 st1 where "fold (sweep_source be now cfg) (map fst (ss_blocks ss)) (False, ss, st) = (ch1, ss', st1)"
    by (auto simp: sweep_source_blocks_def Let_def split: prod.splits)
  note g = fold_sweep_clean [OF this, of s]
  show ?thesis
  proof (cases "s \<in> fst ` set (ss_blocks ss')")
    case True
    then have "s \<in> set (map fst (ss_blocks ss))" using g by auto
    then show ?thesis by (rule bspec [OF conjunct1 [OF g]])
  next
    case False
    then show ?thesis using pairs_of_keys [of ss' s] clean_Nil [of ss' s] by metis
  qed
qed

lemma pairs_of_entered:
  "pairs_of (entered victim source auto sb ss) s = (if s = source then tput victim sb (pairs_of ss source) else pairs_of ss s)"
  by (simp add: entered_def pairs_of_def table_laws)

lemma entered_victims: "victims Z ss \<Longrightarrow> Z victim \<Longrightarrow> victims Z (entered victim source auto sb ss)"
  unfolding victims_def pairs_of_entered by (auto intro: list_all_tput)

lemma block_source_calls [emit_rules]:
  assumes "block_source be now cfg v s ttl reason auto (ss, st) = (r, ss', st')" "victims Z ss"
    "block_guards be cfg (unmap v) (unmap s) ttl auto ss \<Longrightarrow> Z (unmap v)"
  shows "emits st st' (\<lambda>c. call_on (unmap s) Z c \<and> block_guards be cfg (unmap v) (unmap s) ttl auto ss) \<and> victims Z ss'
    \<and> fst ` set (ss_blocks ss') \<subseteq> insert (unmap s) (fst ` set (ss_blocks ss))"
  using assms(1)
proof (cases rule: block_source_cases)
  case (tried e s2)
  let ?e = "entered (unmap v) (unmap s) auto (new_pair now cfg (unmap v) (unmap s) ttl reason auto ss) ss"
  have g: "block_guards be cfg (unmap v) (unmap s) ttl auto ss" using tried(1) by (simp add: block_refusal_None)
  have v: "victims Z ?e" by (rule entered_victims [OF assms(2) assms(3) [OF g]])
  have "fst ` set (ss_blocks ?e) = insert (unmap s) (fst ` set (ss_blocks ss))" by (simp add: entered_def keys_tput)
  then show ?thesis
    using reinstall_calls [OF tried(2) v] reinstall_victims [OF tried(2) v] reinstall_keys [OF tried(2)] tried(3) g by auto
qed (use assms(2) in auto)

lemma unblock_source_calls [emit_rules]:
  assumes "unblock_source be now v s (ss, st) = (r, ss', st')" "victims Z ss"
  shows "emits st st' (\<lambda>c. call_on (unmap s) Z c \<and> unmap s \<in> fst ` set (ss_blocks ss)) \<and> victims Z ss'
    \<and> fst ` set (ss_blocks ss') \<subseteq> fst ` set (ss_blocks ss)"
  using assms(1)
proof (cases rule: unblock_cases)
  case (removed sb e s2)
  let ?k = "keep_pairs (unmap s) (tdel (unmap v) (pairs_of ss (unmap s))) ss"
  have v: "victims Z ?k" by (rule keep_victims [OF assms(2)]) (auto simp: set_tdel)
  have "unmap s \<in> fst ` set (ss_blocks ss)" by (rule pairs_of_keys) (use removed(1) in auto)
  then show ?thesis
    using reinstall_calls [OF removed(3) v] reinstall_victims [OF removed(3) v] reinstall_keys [OF removed(3)]
      keep_pairs_keys [of "unmap s" ss "tdel (unmap v) (pairs_of ss (unmap s))"] removed(4) by auto
qed (use assms(2) in auto)

text \<open>A dry run installs nothing.\<close>

lemma live_pairs_dry: "list_all (\<lambda>p. sb_dry_run (snd p)) ps \<Longrightarrow> live_pairs now ps = []"
proof (rule ccontr)
  assume q: "list_all (\<lambda>p. sb_dry_run (snd p)) ps" "live_pairs now ps \<noteq> []"
  then obtain v t where "(v, t) \<in> set (live_pairs now ps)" by (cases "live_pairs now ps") auto
  then show False using live_pairs_set q(1) by (fastforce simp: list_all_iff)
qed

definition quiet_src :: "src_state \<Rightarrow> bool" where
  "quiet_src ss \<longleftrightarrow> ss_installed ss = [] \<and> (\<forall>s. list_all (\<lambda>p. sb_dry_run (snd p)) (pairs_of ss s))"

lemma reinstall_quiet:
  "reinstall_source be now source (ss, st) = (e, ss', st') \<Longrightarrow> quiet_src ss \<Longrightarrow> ss' = ss \<and> st' = st"
  by (erule reinstall_cases) (auto simp: quiet_src_def live_pairs_dry)

lemma keep_quiet: "quiet_src ss \<Longrightarrow> set ps \<subseteq> set (pairs_of ss source) \<Longrightarrow> quiet_src (keep_pairs source ps ss)"
  by (auto simp: quiet_src_def list_all_iff)

lemma sweep_source_quiet:
  assumes "sweep_source be now cfg source (ch, ss, st) = (ch', ss', st')" "quiet_src ss"
  shows "st' = st \<and> quiet_src ss'"
  using assms(1)
proof (cases rule: sweep_source_cases)
  case (retired e)
  have "quiet_src (keep_pairs source (filter (\<lambda>(v, b). \<not> retire_pair be now cfg source v b) (pairs_of ss source)) ss)"
    by (rule keep_quiet [OF assms(2)]) auto
  then show ?thesis using reinstall_quiet [OF retired(3)] by simp
qed (simp add: assms(2))

lemma fold_sweep_quiet:
  "fold (sweep_source be now cfg) ks (ch, ss, st) = (ch', ss', st') \<Longrightarrow> quiet_src ss \<Longrightarrow> st' = st \<and> quiet_src ss'"
proof (induction ks arbitrary: ch ss st)
  case (Cons k ks)
  obtain ch1 ss1 st1 where k: "sweep_source be now cfg k (ch, ss, st) = (ch1, ss1, st1)"
    by (cases "sweep_source be now cfg k (ch, ss, st)") auto
  then show ?case using Cons.IH [of ch1 ss1 st1] Cons.prems sweep_source_quiet [OF k] by simp
qed simp

lemma sweep_source_blocks_quiet:
  "sweep_source_blocks be now cfg (ss, st) = (ss', st') \<Longrightarrow> quiet_src ss \<Longrightarrow> io_log st' = io_log st \<and> quiet_src ss'"
  by (auto simp: sweep_source_blocks_def Let_def dest: fold_sweep_quiet split: prod.splits if_splits)

lemma block_source_quiet:
  assumes "block_source be now cfg v s ttl reason auto (ss, st) = (r, ss', st')" "quiet_src ss" "c_dry_run cfg"
  shows "io_log st' = io_log st \<and> quiet_src ss'"
  using assms(1)
proof (cases rule: block_source_cases)
  case (tried e s2)
  have "quiet_src (entered (unmap v) (unmap s) auto (new_pair now cfg (unmap v) (unmap s) ttl reason auto ss) ss)"
    using assms(2,3) unfolding quiet_src_def pairs_of_entered
    by (auto simp: entered_def new_pair_def intro: list_all_tput)
  then show ?thesis using reinstall_quiet [OF tried(2)] tried(3) by simp
qed (use assms(2) in simp)

lemma unblock_source_quiet:
  assumes "unblock_source be now v s (ss, st) = (r, ss', st')" "quiet_src ss"
  shows "io_log st' = io_log st \<and> quiet_src ss'"
  using assms(1)
proof (cases rule: unblock_cases)
  case (removed sb e s2)
  have "quiet_src (keep_pairs (unmap s) (tdel (unmap v) (pairs_of ss (unmap s))) ss)"
    by (rule keep_quiet [OF assms(2)]) (auto simp: set_tdel)
  then show ?thesis using reinstall_quiet [OF removed(3)] removed(4) by simp
qed (use assms(2) in simp)

end
