(* ===== verification/System.thy ===== *)
theory System
  imports NodeSweep SourceInv
begin

text \<open>
  The mitigator as a transition system: any interleaving of its handlers under one configuration, and
  the invariant every state they lead to has. The invariant says what the tables hold, that the caps are
  kept, that no announcement or kernel rule covers a whitelisted address, that every active real ban
  has its rung standing outside, and that a dry run makes no call at all.
\<close>

section \<open>Steps\<close>

text \<open>The prefix of a carpet event is an aggregate, never a single address (\<^verbatim>\<open>carpet.min_hosts\<close> is at
  least 2), and the addresses of a source block carry no IPv6 zone.\<close>

definition aggregate_event :: "event \<Rightarrow> bool" where
  "aggregate_event ev \<longleftrightarrow> (case parse_prefix (ev_prefix ev) of
     None \<Rightarrow> True | Some p \<Rightarrow> pfx_bits p < int (bit_len (pfx_addr p)))"

inductive mstep :: "backend \<Rightarrow> config \<Rightarrow> mit \<Rightarrow> mit \<Rightarrow> bool" for be cfg where
  started: "on_attack_started be now cfg ev m = Done (r, m') \<Longrightarrow> aggregate_event ev \<Longrightarrow> mstep be cfg m m'"
| ended: "on_attack_ended be now ev m = (r, m') \<Longrightarrow> mstep be cfg m m'"
| ongoing: "on_attack_ongoing be now cfg ev m = m' \<Longrightarrow> mstep be cfg m m'"
| op_ban: "manual_ban be now cfg target m = Done (r, m') \<Longrightarrow> mstep be cfg m m'"
| op_unban: "manual_unban be now target m = (r, m') \<Longrightarrow> mstep be cfg m m'"
| blocked: "block_source be now cfg v s ttl why auto (m_src m, m_io m) = (r, ss, st)
    \<Longrightarrow> \<not> has_zone (unmap s) \<Longrightarrow> \<not> has_zone (unmap v)
    \<Longrightarrow> mstep be cfg m (m \<lparr> m_src := ss, m_io := st \<rparr>)"
| unblocked: "unblock_source be now v s (m_src m, m_io m) = (r, ss, st)
    \<Longrightarrow> mstep be cfg m (m \<lparr> m_src := ss, m_io := st \<rparr>)"
| polled: "mstep be cfg m (m \<lparr> m_nodes := node_poll_started now name (m_nodes m) \<rparr>)"
| poll_over: "mstep be cfg m (m \<lparr> m_nodes := node_poll_ended now name (m_nodes m) \<rparr>)"
| tick: "sweep_expired be now cfg m = m' \<Longrightarrow> mstep be cfg m m'"

inductive_cases mstepE: "mstep be cfg m m'"

section \<open>The invariant\<close>

definition host_entry :: "config \<Rightarrow> addr \<times> ban \<Rightarrow> bool" where
  "host_entry cfg e \<longleftrightarrow> b_target (snd e) = fst e \<and> host_shape (snd e) \<and> in_networks cfg (fst e)
     \<and> \<not> is_whitelisted cfg (fst e) \<and> b_dry_run (snd e) = c_dry_run cfg"

definition pfx_entry :: "config \<Rightarrow> prefix \<times> ban \<Rightarrow> bool" where
  "pfx_entry cfg e \<longleftrightarrow> b_prefix (snd e) = fst e \<and> anchored (snd e) \<and> prefix_in_networks cfg (fst e)
     \<and> \<not> prefix_contains_whitelisted cfg (fst e) \<and> b_dry_run (snd e) = c_dry_run cfg
     \<and> pfx_bits (fst e) < int (bit_len (pfx_addr (fst e)))"

definition shape_inv :: "backend \<Rightarrow> config \<Rightarrow> mit \<Rightarrow> bool" where
  "shape_inv be cfg m \<longleftrightarrow> table_ok (m_bans m) \<and> table_ok (m_pbans m)
     \<and> list_all (host_entry cfg) (m_bans m) \<and> list_all (pfx_entry cfg) (m_pbans m)
     \<and> src_inv be cfg (m_src m) \<and> list_all (\<lambda>e. \<not> has_zone (fst e)) (ss_blocks (m_src m))
     \<and> victims (\<lambda>v. \<not> is_whitelisted cfg v \<and> \<not> has_zone v \<and> addr_valid v) (m_src m)"

definition caps_inv :: "config \<Rightarrow> mit \<Rightarrow> bool" where
  "caps_inv cfg m \<longleftrightarrow> int (active_count m) \<le> max 0 (max_active_bans (c_ban cfg))
     \<and> int (active_prefix_bans m) \<le> (case c_carpet cfg of None \<Rightarrow> 0 | Some cp \<Rightarrow> max 0 (cp_max_active cp))"

definition all_bans :: "mit \<Rightarrow> ban set" where
  "all_bans m = snd ` set (m_bans m) \<union> snd ` set (m_pbans m)"

definition up_inv :: "config \<Rightarrow> mit \<Rightarrow> bool" where
  "up_inv cfg m \<longleftrightarrow> (\<not> c_dry_run cfg \<longrightarrow> (\<forall>b \<in> all_bans m. up b (io_log (m_io m))))"

text \<open>A call that announces, or installs a rule against, no whitelisted address.\<close>

fun spares :: "config \<Rightarrow> call \<Rightarrow> bool" where
  "spares cfg (Announce p a) \<longleftrightarrow> \<not> prefix_contains_whitelisted cfg p"
| "spares cfg (AnnounceFS r) \<longleftrightarrow> \<not> prefix_contains_whitelisted cfg (rule_anchor r)"
| "spares cfg (DpInstall p d) \<longleftrightarrow>
     (\<forall>x \<in> set (dr_specs d). \<not> prefix_contains_whitelisted cfg (spec_anchor x))"
| "spares cfg _ \<longleftrightarrow> True"

definition wire_inv :: "config \<Rightarrow> mit \<Rightarrow> bool" where
  "wire_inv cfg m \<longleftrightarrow> (\<forall>e \<in> set (io_log (m_io m)). spares cfg (fst e))"

definition quiet_inv :: "config \<Rightarrow> mit \<Rightarrow> bool" where
  "quiet_inv cfg m \<longleftrightarrow> (c_dry_run cfg \<longrightarrow> io_log (m_io m) = [] \<and> quiet_src (m_src m))"

definition good :: "backend \<Rightarrow> config \<Rightarrow> mit \<Rightarrow> bool" where
  "good be cfg m \<longleftrightarrow> shape_inv be cfg m \<and> caps_inv cfg m \<and> up_inv cfg m \<and> wire_inv cfg m \<and> quiet_inv cfg m"

lemmas good_defs = good_def shape_inv_def caps_inv_def up_inv_def wire_inv_def quiet_inv_def

lemma good_new: "good be cfg mit_new"
  using src_inv_empty [of be cfg]
  by (auto simp: good_defs mit_new_def all_bans_def active_count_def active_prefix_bans_def
      quiet_src_def victims_def src_empty_def pairs_of_def split: option.split)

text \<open>The fields the invariant reads.\<close>

lemma good_cong:
  "m_bans m' = m_bans m \<Longrightarrow> m_pbans m' = m_pbans m \<Longrightarrow> m_src m' = m_src m \<Longrightarrow> io_log (m_io m') = io_log (m_io m) \<Longrightarrow>
   good be cfg m' = good be cfg m"
  by (simp add: good_defs all_bans_def active_count_def active_prefix_bans_def)

lemma good_dirty [simp]: "good be cfg (dirty m) = good be cfg m"
  by (rule good_cong) (simp_all add: dirty_def)

lemma good_upd [simp]:
  "good be cfg (m \<lparr> m_window_start := x, m_in_window := y \<rparr>) = good be cfg m"
  "good be cfg (m \<lparr> m_in_window := y \<rparr>) = good be cfg m"
  "good be cfg (m \<lparr> m_last_persist := x \<rparr>) = good be cfg m"
  "good be cfg (m \<lparr> m_nodes := ns \<rparr>) = good be cfg m"
  by (rule good_cong; simp)+

section \<open>Prefixes of different bans\<close>

lemma contains_no_zone: "contains p a \<Longrightarrow> \<not> has_zone a"
  by (simp add: contains_def)

lemma in_networks_no_zone: "in_networks cfg a \<Longrightarrow> \<not> has_zone a"
  by (auto simp: in_networks_def dest: contains_no_zone)

lemma without_zone_id: "\<not> has_zone a \<Longrightarrow> without_zone a = a"
  by (cases a) auto

lemma host_prefix_inj:
  assumes "host_prefix a = host_prefix b" "addr_valid a" "addr_valid b" "\<not> has_zone a" "\<not> has_zone b"
  shows "a = b"
proof -
  have "contains (host_prefix b) b" using contains_host_prefix [OF assms(3,5)] without_zone_id [OF assms(5)] by simp
  then have "contains (host_prefix a) b" using assms(1) by simp
  then show ?thesis using contains_host_prefix [OF assms(2,5)] without_zone_id [OF assms(4)] by simp
qed

lemma host_prefix_bits: "addr_valid a \<Longrightarrow> pfx_bits (host_prefix a) = int (bit_len (pfx_addr (host_prefix a)))"
  by (cases a) (auto simp: host_prefix_def prefix_from_def)

lemma host_prefix_spared:
  "in_networks cfg a \<Longrightarrow> \<not> is_whitelisted cfg a \<Longrightarrow> \<not> prefix_contains_whitelisted cfg (host_prefix a)"
  using contains_host_prefix in_networks_no_zone in_networks_valid without_zone_id contains_no_zone
  by (metis (no_types, lifting) is_whitelisted_def prefix_contains_whitelisted_def)

lemma call_about_spares: "call_about p c \<Longrightarrow> \<not> prefix_contains_whitelisted cfg p \<Longrightarrow> spares cfg c"
  by (cases c) (auto simp: call_about_def)

lemma host_entry_prefix: "host_entry cfg e \<Longrightarrow> b_prefix (snd e) = host_prefix (fst e)"
  by (simp add: host_entry_def host_shape_def)

lemma entry_prefixes_differ:
  "host_entry cfg e \<Longrightarrow> pfx_entry cfg q \<Longrightarrow> b_prefix (snd e) \<noteq> b_prefix (snd q)"
  using host_prefix_bits in_networks_valid
  by (metis host_entry_def host_entry_prefix less_irrefl pfx_entry_def)

lemma host_entries_differ:
  "host_entry cfg e \<Longrightarrow> host_entry cfg f \<Longrightarrow> fst e \<noteq> fst f \<Longrightarrow> b_prefix (snd e) \<noteq> b_prefix (snd f)"
  using host_prefix_inj in_networks_valid in_networks_no_zone by (metis host_entry_def host_entry_prefix)

lemma host_distinct:
  "table_ok t \<Longrightarrow> list_all (host_entry cfg) t \<Longrightarrow> distinct (map (b_prefix \<circ> snd) t)"
proof (induction t)
  case (Cons e t)
  have "b_prefix (snd e) \<noteq> b_prefix (snd f)" if "f \<in> set t" for f
    using that Cons.prems host_entries_differ [of cfg e f] by (force simp: list_all_iff table_ok_def)
  then show ?case using Cons by (auto simp: table_ok_def)
qed simp

lemma pfx_distinct:
  "table_ok t \<Longrightarrow> list_all (pfx_entry cfg) t \<Longrightarrow> distinct (map (b_prefix \<circ> snd) t)"
proof -
  assume t: "table_ok t" "list_all (pfx_entry cfg) t"
  have "map (b_prefix \<circ> snd) t = map fst t" using t(2) by (auto simp: list_all_iff pfx_entry_def)
  then show ?thesis using t(1) unfolding table_ok_def by metis
qed

lemma host_entry_anchored: "host_entry cfg e \<Longrightarrow> anchored (snd e)"
  by (simp add: host_entry_def host_shape_def)

lemma pfx_entry_anchored: "pfx_entry cfg e \<Longrightarrow> anchored (snd e)"
  by (simp add: pfx_entry_def)

lemma host_entry_spared: "host_entry cfg e \<Longrightarrow> \<not> prefix_contains_whitelisted cfg (b_prefix (snd e))"
  using host_prefix_spared [of cfg "fst e"] host_entry_prefix [of cfg e] unfolding host_entry_def by simp

text \<open>Calls about other prefixes keep a ban up.\<close>

lemma up_calls_about:
  assumes "emits s s' (\<lambda>c. \<exists>p \<in> P. call_about p c)" "b_prefix b \<notin> P" "anchored b" "up b (io_log s)"
  shows "up b (io_log s')"
proof (rule up_other [OF assms(4,3)])
  show "emits s s' (\<lambda>c. nlri_prefix (nlri_of c) \<noteq> b_prefix b)"
    using assms(1) by (rule emits_mono) (use assms(2) in \<open>auto simp: call_about_def\<close>)
qed

lemma wire_emits:
  "wire_inv cfg m \<Longrightarrow> emits (m_io m) (m_io m') (spares cfg) \<Longrightarrow> wire_inv cfg m'"
  unfolding wire_inv_def emits_def by fastforce

section \<open>Entering a ban\<close>

lemma list_all_tputI: "list_all P t \<Longrightarrow> P (k, v) \<Longrightarrow> list_all P (tput k v t)"
  by (rule list_all_tput)

lemma tcount_put_le:
  assumes "tget t k \<noteq> None \<and> P (the (tget t k)) \<or> int (tcount P t) < n" "int (tcount P t) \<le> max 0 n"
  shows "int (tcount P (tput k v t)) \<le> max 0 n"
proof (cases "tget t k \<noteq> None \<and> P (the (tget t k))")
  case True
  then obtain w where "tget t k = Some w" "P w" by auto
  then show ?thesis using tcount_tput_mono [of t k w P v] assms(2) by simp
next
  case False
  then have "int (tcount P t) < n" using assms(1) by blast
  then show ?thesis using tcount_tput_le [of P k v t] by linarith
qed

lemma find_active_Some: "find_active t k = Some b \<longleftrightarrow> tget t k = Some b \<and> is_active b"
  by (auto simp: find_active_def split: option.splits)

text \<open>A host ban replaced or entered: the other bans stay up, since its calls are about its own prefix.\<close>

lemma good_put_host:
  assumes g: "good be cfg m" and e: "host_entry cfg (a, b')"
    and calls: "emits (m_io m) s (call_about (host_prefix a))"
    and cap: "is_active b' \<Longrightarrow> find_active (m_bans m) a \<noteq> None \<or> int (active_count m) < max_active_bans (c_ban cfg)"
    and up: "\<not> c_dry_run cfg \<Longrightarrow> up b' (io_log s)"
    and quiet: "c_dry_run cfg \<Longrightarrow> io_log s = io_log (m_io m)"
  shows "good be cfg (put_ban a b' (m \<lparr> m_io := s \<rparr>))"
proof -
  let ?m = "put_ban a b' (m \<lparr> m_io := s \<rparr>)"
  have inv: "shape_inv be cfg m" "caps_inv cfg m" "up_inv cfg m" "wire_inv cfg m" "quiet_inv cfg m"
    using g by (simp_all add: good_def)
  have bans: "m_bans ?m = tput a b' (m_bans m)" by (simp add: put_ban_def)
  have "shape_inv be cfg ?m"
    using inv(1) e by (auto simp: shape_inv_def put_ban_def tbl.inv_put intro: list_all_tputI)
  moreover have "caps_inv cfg ?m"
  proof -
    have "int (tcount is_active (tput a b' (m_bans m))) \<le> max 0 (max_active_bans (c_ban cfg))"
    proof (cases "is_active b'")
      case True
      then show ?thesis
        using cap inv(2) by (intro tcount_put_le) (auto simp: caps_inv_def active_count_def find_active_def split: option.splits if_splits)
    next
      case False
      then show ?thesis using tcount_tput_not [of is_active b' a "m_bans m"] inv(2)
        by (simp add: caps_inv_def active_count_def)
    qed
    then show ?thesis using inv(2) by (simp add: caps_inv_def active_count_def active_prefix_bans_def put_ban_def)
  qed
  moreover have "up_inv cfg ?m"
    unfolding up_inv_def
  proof (intro impI ballI)
    fix c assume live: "\<not> c_dry_run cfg" and c: "c \<in> all_bans ?m"
    have calls': "emits (m_io m) s (\<lambda>x. \<exists>p \<in> {host_prefix a}. call_about p x)"
      using calls by (rule emits_mono) simp
    consider "c = b'" | k where "(k, c) \<in> set (m_bans m)" "k \<noteq> a" | k where "(k, c) \<in> set (m_pbans m)"
      using c inv(1) set_tput [of "m_bans m" a b'] by (auto simp: all_bans_def put_ban_def shape_inv_def)
    then show "up c (io_log (m_io ?m))"
    proof cases
      case 1
      then show ?thesis using up live by (simp add: put_ban_def)
    next
      case 2
      then have k: "host_entry cfg (k, c)" using inv(1) by (auto simp: shape_inv_def list_all_iff)
      have "b_prefix c \<noteq> host_prefix a" using host_entries_differ [OF k e] host_entry_prefix [OF e] 2(2) by simp
      then have "up c (io_log s)"
        using up_calls_about [OF calls'] host_entry_anchored [OF k] inv(3) live 2(1) by (force simp: up_inv_def all_bans_def)
      then show ?thesis by (simp add: put_ban_def)
    next
      case 3
      then have k: "pfx_entry cfg (k, c)" using inv(1) by (auto simp: shape_inv_def list_all_iff)
      have "b_prefix c \<noteq> host_prefix a" using entry_prefixes_differ [OF e k] host_entry_prefix [OF e] by simp
      then have "up c (io_log s)"
        using up_calls_about [OF calls'] pfx_entry_anchored [OF k] inv(3) live 3 by (force simp: up_inv_def all_bans_def)
      then show ?thesis by (simp add: put_ban_def)
    qed
  qed
  moreover have "wire_inv cfg ?m"
  proof (rule wire_emits [OF inv(4)])
    show "emits (m_io m) (m_io ?m) (spares cfg)"
      using emits_mono [OF calls call_about_spares] host_entry_spared [OF e] host_entry_prefix [OF e]
      by (simp add: put_ban_def)
  qed
  moreover have "quiet_inv cfg ?m" using inv(5) quiet by (simp add: quiet_inv_def put_ban_def)
  ultimately show ?thesis by (simp add: good_def)
qed

lemma good_put_prefix:
  assumes g: "good be cfg m" and e: "pfx_entry cfg (p, b')"
    and calls: "emits (m_io m) s (call_about p)"
    and cap: "is_active b' \<Longrightarrow> find_active (m_pbans m) p \<noteq> None
      \<or> (\<exists>cp. c_carpet cfg = Some cp \<and> int (active_prefix_bans m) < cp_max_active cp)"
    and up: "\<not> c_dry_run cfg \<Longrightarrow> up b' (io_log s)"
    and quiet: "c_dry_run cfg \<Longrightarrow> io_log s = io_log (m_io m)"
  shows "good be cfg (put_pban p b' (m \<lparr> m_io := s \<rparr>))"
proof -
  let ?m = "put_pban p b' (m \<lparr> m_io := s \<rparr>)"
  have inv: "shape_inv be cfg m" "caps_inv cfg m" "up_inv cfg m" "wire_inv cfg m" "quiet_inv cfg m"
    using g by (simp_all add: good_def)
  have bp: "b_prefix b' = p" using e by (simp add: pfx_entry_def)
  have "shape_inv be cfg ?m"
    using inv(1) e by (auto simp: shape_inv_def put_pban_def tbl.inv_put intro: list_all_tputI)
  moreover have "caps_inv cfg ?m"
  proof -
    let ?n = "case c_carpet cfg of None \<Rightarrow> 0 | Some cp \<Rightarrow> cp_max_active cp"
    have le: "int (tcount is_active (m_pbans m)) \<le> max 0 ?n"
      using inv(2) by (auto simp: caps_inv_def active_prefix_bans_def split: option.splits)
    have "int (tcount is_active (tput p b' (m_pbans m))) \<le> max 0 ?n"
    proof (cases "is_active b'")
      case True
      then show ?thesis
        using cap le by (intro tcount_put_le) (auto simp: active_prefix_bans_def find_active_def split: option.splits if_splits)
    next
      case False
      then show ?thesis using tcount_tput_not [of is_active b' p "m_pbans m"] le by simp
    qed
    then show ?thesis using inv(2)
      by (auto simp: caps_inv_def active_count_def active_prefix_bans_def put_pban_def split: option.splits)
  qed
  moreover have "up_inv cfg ?m"
    unfolding up_inv_def
  proof (intro impI ballI)
    fix c assume live: "\<not> c_dry_run cfg" and c: "c \<in> all_bans ?m"
    have calls': "emits (m_io m) s (\<lambda>x. \<exists>q \<in> {p}. call_about q x)"
      using calls by (rule emits_mono) simp
    consider "c = b'" | k where "(k, c) \<in> set (m_pbans m)" "k \<noteq> p" | k where "(k, c) \<in> set (m_bans m)"
      using c inv(1) set_tput [of "m_pbans m" p b'] by (auto simp: all_bans_def put_pban_def shape_inv_def)
    then show "up c (io_log (m_io ?m))"
    proof cases
      case 1
      then show ?thesis using up live by (simp add: put_pban_def)
    next
      case 2
      then have k: "pfx_entry cfg (k, c)" using inv(1) by (auto simp: shape_inv_def list_all_iff)
      have "b_prefix c \<noteq> p" using k 2(2) by (simp add: pfx_entry_def)
      then have "up c (io_log s)"
        using up_calls_about [OF calls'] pfx_entry_anchored [OF k] inv(3) live 2(1) by (force simp: up_inv_def all_bans_def)
      then show ?thesis by (simp add: put_pban_def)
    next
      case 3
      then have k: "host_entry cfg (k, c)" using inv(1) by (auto simp: shape_inv_def list_all_iff)
      have "b_prefix c \<noteq> p" using entry_prefixes_differ [OF k e] bp by simp
      then have "up c (io_log s)"
        using up_calls_about [OF calls'] host_entry_anchored [OF k] inv(3) live 3 by (force simp: up_inv_def all_bans_def)
      then show ?thesis by (simp add: put_pban_def)
    qed
  qed
  moreover have "wire_inv cfg ?m"
  proof (rule wire_emits [OF inv(4)])
    show "emits (m_io m) (m_io ?m) (spares cfg)"
      using emits_mono [OF calls call_about_spares] e by (simp add: put_pban_def pfx_entry_def)
  qed
  moreover have "quiet_inv cfg ?m" using inv(5) quiet by (simp add: quiet_inv_def put_pban_def)
  ultimately show ?thesis by (simp add: good_def)
qed

section \<open>Walking a table\<close>

lemma host_entry_descends:
  "host_entry cfg e \<Longrightarrow> fst f = fst e \<Longrightarrow> descends (snd e) (snd f) \<Longrightarrow> anchored (snd f) \<Longrightarrow> host_entry cfg f"
  by (auto simp: host_entry_def host_shape_def descends_def)

lemma pfx_entry_descends:
  "pfx_entry cfg e \<Longrightarrow> fst f = fst e \<Longrightarrow> descends (snd e) (snd f) \<Longrightarrow> anchored (snd f) \<Longrightarrow> pfx_entry cfg f"
  by (auto simp: pfx_entry_def descends_def)

lemma list_all_all2:
  "list_all P xs \<Longrightarrow> list_all2 R xs ys \<Longrightarrow> (\<And>x y. P x \<Longrightarrow> R x y \<Longrightarrow> y \<in> set ys \<Longrightarrow> Q y) \<Longrightarrow> list_all Q ys"
  unfolding list_all_length list_all2_conv_all_nth by (metis nth_mem)

text \<open>A body that calls nothing for a dry-run ban leaves the log alone over a table of them.\<close>

lemma walk_quiet:
  assumes "\<And>b s b' s'. b_dry_run b \<Longrightarrow> body b s = (b', s') \<Longrightarrow> io_log (io_of s') = io_log (io_of s)"
    and "\<forall>b \<in> snd ` set t. b_dry_run b"
  shows "io_log (io_of (snd (walk body t st))) = io_log (io_of st)"
proof -
  have "io_log (io_of (snd (body v s))) = io_log (io_of st) \<and> True"
    if "io_log (io_of s) = io_log (io_of st)" "v \<in> snd ` set t" for v s
    using assms(1) [of v s "fst (body v s)" "snd (body v s)"] that assms(2) by auto
  then show ?thesis
    using walk_inv [where I = "\<lambda>s. io_log (io_of s) = io_log (io_of st)" and Q = "\<lambda>_ _. True" and f = body and t = t and s = st]
    by blast
qed

lemma good_walk_hosts:
  assumes g: "good be cfg m" and body: "sweep_body body io_of shape live" and live: "\<not> c_dry_run cfg \<Longrightarrow> live"
    and shapes: "\<And>e. host_entry cfg e \<Longrightarrow> shape (snd e)" and io: "io_of st = m_io m"
    and dry: "\<And>b s b' s'. c_dry_run cfg \<Longrightarrow> b_dry_run b \<Longrightarrow> body b s = (b', s') \<Longrightarrow> io_log (io_of s') = io_log (io_of s)"
    and w: "walk body (m_bans m) st = (t', st')"
  shows "good be cfg (m \<lparr> m_bans := t', m_io := io_of st' \<rparr>)"
proof -
  let ?m = "m \<lparr> m_bans := t', m_io := io_of st' \<rparr>"
  have inv: "shape_inv be cfg m" "caps_inv cfg m" "up_inv cfg m" "wire_inv cfg m" "quiet_inv cfg m"
    using g by (simp_all add: good_def)
  have hosts: "list_all (host_entry cfg) (m_bans m)" and pfxs: "list_all (pfx_entry cfg) (m_pbans m)"
    using inv(1) by (simp_all add: shape_inv_def)
  have sh: "\<forall>b \<in> snd ` set (m_bans m). shape b" using hosts shapes by (auto simp: list_all_iff)
  have desc: "list_all2 (\<lambda>e f. fst f = fst e \<and> descends (snd e) (snd f)) (m_bans m) t'"
    using sweep_body.walk_descends [OF body, of "m_bans m" st] w by simp
  have anch: "\<forall>b \<in> snd ` set t'. anchored b"
    using sweep_body.walk_shape [OF body sh, of st] sweep_body.shape_anchored [OF body] w by simp
  have calls: "emits (m_io m) (io_of st') (\<lambda>c. \<exists>p \<in> b_prefix ` snd ` set (m_bans m). call_about p c)"
    using sweep_body.walk_calls [OF body sh, of st] w io by simp
  have "list_all (host_entry cfg) t'"
    using list_all_all2 [OF hosts desc] host_entry_descends anch by blast
  moreover have "table_ok t'" using walk_table_ok [of "m_bans m" body st] w inv(1) by (simp add: shape_inv_def)
  ultimately have "shape_inv be cfg ?m" using inv(1) by (simp add: shape_inv_def)
  moreover have "caps_inv cfg ?m"
    using sweep_body.walk_active_le [OF body, of "m_bans m" st] w inv(2)
    by (simp add: caps_inv_def active_count_def active_prefix_bans_def)
  moreover have "up_inv cfg ?m"
    unfolding up_inv_def
  proof (intro impI ballI)
    fix c assume l: "\<not> c_dry_run cfg" and c: "c \<in> all_bans ?m"
    have ups: "\<forall>b \<in> snd ` set (m_bans m). up b (io_log (io_of st))"
      using inv(3) l io by (simp add: up_inv_def all_bans_def)
    have dist: "distinct (map (b_prefix \<circ> snd) (m_bans m))"
      by (rule host_distinct [OF _ hosts]) (use inv(1) in \<open>simp add: shape_inv_def\<close>)
    consider "c \<in> snd ` set t'" | k where "(k, c) \<in> set (m_pbans m)" using c by (auto simp: all_bans_def)
    then show "up c (io_log (m_io ?m))"
    proof cases
      case 1
      then show ?thesis using sweep_body.walk_up [OF body live [OF l] sh dist ups] w by auto
    next
      case 2
      then have k: "pfx_entry cfg (k, c)" using pfxs by (auto simp: list_all_iff)
      have "b_prefix c \<notin> b_prefix ` snd ` set (m_bans m)"
        using entry_prefixes_differ [OF _ k] hosts by (force simp: list_all_iff)
      then show ?thesis
        using up_calls_about [OF calls] pfx_entry_anchored [OF k] inv(3) l 2 by (force simp: up_inv_def all_bans_def)
    qed
  qed
  moreover have "wire_inv cfg ?m"
  proof (rule wire_emits [OF inv(4)])
    show "emits (m_io m) (m_io ?m) (spares cfg)"
      by (rule emits_mono [of _ _ "\<lambda>c. \<exists>p \<in> b_prefix ` snd ` set (m_bans m). call_about p c"])
        (use calls hosts host_entry_spared call_about_spares in \<open>auto simp: list_all_iff\<close>)
  qed
  moreover have "quiet_inv cfg ?m"
    using inv(5) walk_quiet [of body io_of "m_bans m" st] dry hosts w io
    by (auto simp: quiet_inv_def list_all_iff host_entry_def)
  ultimately show ?thesis by (simp add: good_def)
qed

lemma good_walk_prefixes:
  assumes g: "good be cfg m" and body: "sweep_body body io_of shape live" and live: "\<not> c_dry_run cfg \<Longrightarrow> live"
    and shapes: "\<And>e. pfx_entry cfg e \<Longrightarrow> shape (snd e)" and io: "io_of st = m_io m"
    and dry: "\<And>b s b' s'. c_dry_run cfg \<Longrightarrow> b_dry_run b \<Longrightarrow> body b s = (b', s') \<Longrightarrow> io_log (io_of s') = io_log (io_of s)"
    and w: "walk body (m_pbans m) st = (t', st')"
  shows "good be cfg (m \<lparr> m_pbans := t', m_io := io_of st' \<rparr>)"
proof -
  let ?m = "m \<lparr> m_pbans := t', m_io := io_of st' \<rparr>"
  have inv: "shape_inv be cfg m" "caps_inv cfg m" "up_inv cfg m" "wire_inv cfg m" "quiet_inv cfg m"
    using g by (simp_all add: good_def)
  have hosts: "list_all (host_entry cfg) (m_bans m)" and pfxs: "list_all (pfx_entry cfg) (m_pbans m)"
    using inv(1) by (simp_all add: shape_inv_def)
  have sh: "\<forall>b \<in> snd ` set (m_pbans m). shape b" using pfxs shapes by (auto simp: list_all_iff)
  have desc: "list_all2 (\<lambda>e f. fst f = fst e \<and> descends (snd e) (snd f)) (m_pbans m) t'"
    using sweep_body.walk_descends [OF body, of "m_pbans m" st] w by simp
  have anch: "\<forall>b \<in> snd ` set t'. anchored b"
    using sweep_body.walk_shape [OF body sh, of st] sweep_body.shape_anchored [OF body] w by simp
  have calls: "emits (m_io m) (io_of st') (\<lambda>c. \<exists>p \<in> b_prefix ` snd ` set (m_pbans m). call_about p c)"
    using sweep_body.walk_calls [OF body sh, of st] w io by simp
  have "list_all (pfx_entry cfg) t'"
    using list_all_all2 [OF pfxs desc] pfx_entry_descends anch by blast
  moreover have "table_ok t'" using walk_table_ok [of "m_pbans m" body st] w inv(1) by (simp add: shape_inv_def)
  ultimately have "shape_inv be cfg ?m" using inv(1) by (simp add: shape_inv_def)
  moreover have "caps_inv cfg ?m"
    using sweep_body.walk_active_le [OF body, of "m_pbans m" st] w inv(2)
    by (auto simp: caps_inv_def active_count_def active_prefix_bans_def split: option.splits)
  moreover have "up_inv cfg ?m"
    unfolding up_inv_def
  proof (intro impI ballI)
    fix c assume l: "\<not> c_dry_run cfg" and c: "c \<in> all_bans ?m"
    have ups: "\<forall>b \<in> snd ` set (m_pbans m). up b (io_log (io_of st))"
      using inv(3) l io by (simp add: up_inv_def all_bans_def)
    have dist: "distinct (map (b_prefix \<circ> snd) (m_pbans m))"
      by (rule pfx_distinct [OF _ pfxs]) (use inv(1) in \<open>simp add: shape_inv_def\<close>)
    consider "c \<in> snd ` set t'" | k where "(k, c) \<in> set (m_bans m)" using c by (auto simp: all_bans_def)
    then show "up c (io_log (m_io ?m))"
    proof cases
      case 1
      then show ?thesis using sweep_body.walk_up [OF body live [OF l] sh dist ups] w by auto
    next
      case 2
      then have k: "host_entry cfg (k, c)" using hosts by (auto simp: list_all_iff)
      have "b_prefix c \<notin> b_prefix ` snd ` set (m_pbans m)"
        using entry_prefixes_differ [OF k] pfxs by (force simp: list_all_iff)
      then show ?thesis
        using up_calls_about [OF calls] host_entry_anchored [OF k] inv(3) l 2 by (force simp: up_inv_def all_bans_def)
    qed
  qed
  moreover have "wire_inv cfg ?m"
  proof (rule wire_emits [OF inv(4)])
    show "emits (m_io m) (m_io ?m) (spares cfg)"
      by (rule emits_mono [of _ _ "\<lambda>c. \<exists>p \<in> b_prefix ` snd ` set (m_pbans m). call_about p c"])
        (use calls pfxs call_about_spares in \<open>auto simp: list_all_iff pfx_entry_def\<close>)
  qed
  moreover have "quiet_inv cfg ?m"
    using inv(5) walk_quiet [of body io_of "m_pbans m" st] dry pfxs w io
    by (auto simp: quiet_inv_def list_all_iff pfx_entry_def)
  ultimately show ?thesis by (simp add: good_def)
qed

section \<open>Source blocks\<close>

lemma good_src:
  assumes g: "good be cfg m" and src: "src_inv be cfg ss" "list_all (\<lambda>e. \<not> has_zone (fst e)) (ss_blocks ss)"
      "victims (\<lambda>v. \<not> is_whitelisted cfg v \<and> \<not> has_zone v \<and> addr_valid v) ss"
    and calls: "emits (m_io m) st (\<lambda>c. \<exists>s. addr_valid s \<and> \<not> has_zone s \<and> \<not> in_networks cfg s
      \<and> call_on s (\<lambda>v. \<not> is_whitelisted cfg v \<and> \<not> has_zone v \<and> addr_valid v) c)"
    and quiet: "c_dry_run cfg \<Longrightarrow> io_log st = io_log (m_io m) \<and> quiet_src ss"
  shows "good be cfg (m \<lparr> m_src := ss, m_io := st \<rparr>)"
proof -
  let ?m = "m \<lparr> m_src := ss, m_io := st \<rparr>"
  have inv: "shape_inv be cfg m" "caps_inv cfg m" "up_inv cfg m" "wire_inv cfg m" "quiet_inv cfg m"
    using g by (simp_all add: good_def)
  have "shape_inv be cfg ?m" using inv(1) src by (simp add: shape_inv_def)
  moreover have "caps_inv cfg ?m" using inv(2) by (simp add: caps_inv_def active_count_def active_prefix_bans_def)
  moreover have "up_inv cfg ?m"
    unfolding up_inv_def
  proof (intro impI ballI)
    fix c assume l: "\<not> c_dry_run cfg" and c: "c \<in> all_bans ?m"
    have up: "up c (io_log (m_io m))" using inv(3) l c by (simp add: up_inv_def all_bans_def)
    have differ: "b_prefix c \<noteq> host_prefix s \<and> anchored c" if "addr_valid s" "\<not> has_zone s" "\<not> in_networks cfg s" for s
    proof -
      consider k where "(k, c) \<in> set (m_bans m)" | k where "(k, c) \<in> set (m_pbans m)"
        using c by (auto simp: all_bans_def)
      then show ?thesis
      proof cases
        case 1
        then have k: "host_entry cfg (k, c)" using inv(1) by (auto simp: shape_inv_def list_all_iff)
        then have "in_networks cfg k" by (simp add: host_entry_def)
        then have "host_prefix k \<noteq> host_prefix s"
          using host_prefix_inj [of k s] in_networks_valid [of cfg k] in_networks_no_zone [of cfg k] that by auto
        then show ?thesis using host_entry_prefix [OF k] host_entry_anchored [OF k] by simp
      next
        case 2
        then have k: "pfx_entry cfg (k, c)" using inv(1) by (auto simp: shape_inv_def list_all_iff)
        then show ?thesis using host_prefix_bits [OF that(1)] by (auto simp: pfx_entry_def)
      qed
    qed
    have "emits (m_io m) st (\<lambda>x. \<exists>p \<in> {host_prefix s | s. addr_valid s \<and> \<not> has_zone s \<and> \<not> in_networks cfg s}.
        nlri_prefix (nlri_of x) = p)"
      using calls by (rule emits_mono) (auto simp: call_on_def)
    then have em: "emits (m_io m) st (\<lambda>x. nlri_prefix (nlri_of x) \<noteq> b_prefix c)"
      by (rule emits_mono) (use differ in auto)
    have "anchored c"
      using c inv(1) host_entry_anchored pfx_entry_anchored by (fastforce simp: all_bans_def shape_inv_def list_all_iff)
    then show "up c (io_log (m_io ?m))" using up_other [OF up _ em] by simp
  qed
  moreover have "wire_inv cfg ?m"
  proof (rule wire_emits [OF inv(4)])
    have spared: "\<not> prefix_contains_whitelisted cfg (host_prefix v)"
      if "\<not> is_whitelisted cfg v" "\<not> has_zone v" "addr_valid v" for v
      using that contains_host_prefix [OF that(3)] without_zone_id [OF that(2)] contains_no_zone
      by (auto simp: prefix_contains_whitelisted_def is_whitelisted_def)
    have "spares cfg c" if "call_on s (\<lambda>v. \<not> is_whitelisted cfg v \<and> \<not> has_zone v \<and> addr_valid v) c" for s c
      using that spared host_prefix_valid by (cases c) (fastforce simp: call_on_def spec_anchor_def)+
    then have "emits (m_io m) st (spares cfg)" by (intro emits_mono [OF calls]) blast
    then show "emits (m_io m) (m_io ?m) (spares cfg)" by simp
  qed
  moreover have "quiet_inv cfg ?m" using inv(5) quiet by (simp add: quiet_inv_def)
  ultimately show ?thesis by (simp add: good_def)
qed

lemma src_keys:
  "good be cfg m \<Longrightarrow> s \<in> fst ` set (ss_blocks (m_src m)) \<Longrightarrow> addr_valid s \<and> \<not> has_zone s \<and> \<not> in_networks cfg s"
proof -
  assume g: "good be cfg m" and s: "s \<in> fst ` set (ss_blocks (m_src m))"
  obtain ps where ps: "(s, ps) \<in> set (ss_blocks (m_src m))" using s by auto
  have e: "entry_ok be cfg (s, ps)" "\<not> has_zone s"
    using g ps by (auto simp: good_def shape_inv_def src_inv_def list_all_iff)
  then obtain p where "pair_ok be cfg s p" by (cases ps) (auto simp: entry_ok_def)
  then show ?thesis using e by (auto simp: entry_ok_def pair_ok_def source_block_policy_def split: if_splits)
qed

lemma guards_policy:
  "block_guards be cfg v s ttl auto ss \<Longrightarrow>
   addr_valid v \<and> addr_valid s \<and> \<not> is_whitelisted cfg v \<and> \<not> in_networks cfg s"
  by (auto simp: block_guards_def source_block_policy_def split: if_splits)

lemma good_block:
  assumes g: "good be cfg m" and b: "block_source be now cfg v s ttl why auto (m_src m, m_io m) = (r, ss, st)"
    and z: "\<not> has_zone (unmap s)" "\<not> has_zone (unmap v)"
  shows "good be cfg (m \<lparr> m_src := ss, m_io := st \<rparr>)"
proof -
  let ?Z = "\<lambda>v. \<not> is_whitelisted cfg v \<and> \<not> has_zone v \<and> addr_valid v"
  have src: "src_inv be cfg (m_src m)" "victims ?Z (m_src m)" "quiet_inv cfg m"
    and zone: "list_all (\<lambda>e. \<not> has_zone (fst e)) (ss_blocks (m_src m))"
    using g by (simp_all add: good_def shape_inv_def)
  have c: "emits (m_io m) st (\<lambda>c. call_on (unmap s) ?Z c \<and> block_guards be cfg (unmap v) (unmap s) ttl auto (m_src m))
      \<and> victims ?Z ss \<and> fst ` set (ss_blocks ss) \<subseteq> insert (unmap s) (fst ` set (ss_blocks (m_src m)))"
    by (rule block_source_calls [OF b src(2)]) (use guards_policy z in blast)
  show ?thesis
  proof (rule good_src [OF g block_source_inv [OF b src(1)]])
    show "list_all (\<lambda>e. \<not> has_zone (fst e)) (ss_blocks ss)"
      using c zone z(1) by (force simp: list_all_iff)
    show "victims ?Z ss" using c by simp
    show "emits (m_io m) st (\<lambda>c. \<exists>s. addr_valid s \<and> \<not> has_zone s \<and> \<not> in_networks cfg s \<and> call_on s ?Z c)"
      by (rule emits_mono [OF conjunct1 [OF c]]) (use guards_policy z(1) in blast)
    show "c_dry_run cfg \<Longrightarrow> io_log st = io_log (m_io m) \<and> quiet_src ss"
      using block_source_quiet [OF b] src(3) by (simp add: quiet_inv_def)
  qed
qed

lemma good_unblock:
  assumes g: "good be cfg m" and b: "unblock_source be now v s (m_src m, m_io m) = (r, ss, st)"
  shows "good be cfg (m \<lparr> m_src := ss, m_io := st \<rparr>)"
proof -
  let ?Z = "\<lambda>v. \<not> is_whitelisted cfg v \<and> \<not> has_zone v \<and> addr_valid v"
  have src: "src_inv be cfg (m_src m)" "victims ?Z (m_src m)" "quiet_inv cfg m"
    and zone: "list_all (\<lambda>e. \<not> has_zone (fst e)) (ss_blocks (m_src m))"
    using g by (simp_all add: good_def shape_inv_def)
  note c = unblock_source_calls [OF b src(2)]
  show ?thesis
  proof (rule good_src [OF g unblock_source_inv [OF b src(1)]])
    show "list_all (\<lambda>e. \<not> has_zone (fst e)) (ss_blocks ss)" using c zone by (force simp: list_all_iff)
    show "victims ?Z ss" using c by simp
    show "emits (m_io m) st (\<lambda>c. \<exists>s. addr_valid s \<and> \<not> has_zone s \<and> \<not> in_networks cfg s \<and> call_on s ?Z c)"
      by (rule emits_mono [OF conjunct1 [OF c]]) (use src_keys [OF g] in blast)
    show "c_dry_run cfg \<Longrightarrow> io_log st = io_log (m_io m) \<and> quiet_src ss"
      using unblock_source_quiet [OF b] src(3) by (simp add: quiet_inv_def)
  qed
qed

lemma good_sweep_sources:
  assumes g: "good be cfg m" and b: "sweep_source_blocks be now cfg (m_src m, m_io m) = (ss, st)"
  shows "good be cfg (m \<lparr> m_src := ss, m_io := st \<rparr>)"
proof -
  let ?Z = "\<lambda>v. \<not> is_whitelisted cfg v \<and> \<not> has_zone v \<and> addr_valid v"
  have src: "src_inv be cfg (m_src m)" "victims ?Z (m_src m)" "quiet_inv cfg m"
    and zone: "list_all (\<lambda>e. \<not> has_zone (fst e)) (ss_blocks (m_src m))"
    using g by (simp_all add: good_def shape_inv_def)
  note c = sweep_source_blocks_ok [OF b src(1,2)]
  show ?thesis
  proof (rule good_src [OF g conjunct1 [OF c]])
    show "list_all (\<lambda>e. \<not> has_zone (fst e)) (ss_blocks ss)" using c zone by (force simp: list_all_iff)
    show "victims ?Z ss" using c by simp
    show "emits (m_io m) st (\<lambda>c. \<exists>s. addr_valid s \<and> \<not> has_zone s \<and> \<not> in_networks cfg s \<and> call_on s ?Z c)"
      by (rule emits_mono [of _ _ "\<lambda>c. \<exists>s \<in> fst ` set (ss_blocks (m_src m)). call_on s ?Z c"])
        (use c src_keys [OF g] in blast)+
    show "c_dry_run cfg \<Longrightarrow> io_log st = io_log (m_io m) \<and> quiet_src ss"
      using sweep_source_blocks_quiet [OF b] src(3) by (simp add: quiet_inv_def)
  qed
qed

section \<open>The handlers keep the invariant\<close>

lemma refresh_simps [simp]:
  "anchored (b \<lparr> b_expires := x \<rparr>) = anchored b" "anchored (b \<lparr> b_dir_mask := y \<rparr>) = anchored b"
  "is_active (b \<lparr> b_expires := x \<rparr>) = is_active b" "is_active (b \<lparr> b_dir_mask := y \<rparr>) = is_active b"
  "host_shape (b \<lparr> b_expires := x \<rparr>) = host_shape b" "host_shape (b \<lparr> b_dir_mask := y \<rparr>) = host_shape b"
  by (simp_all add: anchored_def is_active_def host_shape_def)

lemma up_refresh [simp]: "up (b \<lparr> b_expires := x \<rparr>) l = up b l" "up (b \<lparr> b_dir_mask := y \<rparr>) l = up b l"
  by (simp_all add: up_def enforced_def method_nlris_def cong: mitigation_method.case_cong)

lemma host_entry_refresh [simp]:
  "host_entry cfg (a, b \<lparr> b_expires := x \<rparr>) = host_entry cfg (a, b)"
  "host_entry cfg (a, b \<lparr> b_dir_mask := y \<rparr>) = host_entry cfg (a, b)"
  by (simp_all add: host_entry_def)

lemma pfx_entry_refresh [simp]: "pfx_entry cfg (p, b \<lparr> b_expires := x \<rparr>) = pfx_entry cfg (p, b)"
  by (simp add: pfx_entry_def)

lemma find_host:
  "good be cfg m \<Longrightarrow> find_active (m_bans m) a = Some b \<Longrightarrow>
   is_active b \<and> host_entry cfg (a, b) \<and> (\<not> c_dry_run cfg \<longrightarrow> up b (io_log (m_io m)))"
  using tget_in_set [of "m_bans m" a b]
  by (force simp: find_active_Some good_def shape_inv_def up_inv_def all_bans_def list_all_iff)

lemma find_prefix:
  "good be cfg m \<Longrightarrow> find_active (m_pbans m) p = Some b \<Longrightarrow>
   is_active b \<and> pfx_entry cfg (p, b) \<and> (\<not> c_dry_run cfg \<longrightarrow> up b (io_log (m_io m)))"
  using tget_in_set [of "m_pbans m" p b]
  by (force simp: find_active_Some good_def shape_inv_def up_inv_def all_bans_def list_all_iff)

text \<open>A ban whose expiry or holds change.\<close>

lemma good_refresh_host:
  assumes "good be cfg m" "find_active (m_bans m) a = Some b" "host_entry cfg (a, b')" "\<And>l. up b' l = up b l"
  shows "good be cfg (put_ban a b' m)"
  using good_put_host [of be cfg m a b' "m_io m"] assms find_host [OF assms(1,2)] by simp

lemma good_refresh_prefix:
  assumes "good be cfg m" "find_active (m_pbans m) p = Some b"
  shows "good be cfg (put_pban p (b \<lparr> b_expires := x \<rparr>) m)"
  using good_put_prefix [of be cfg m p "b \<lparr> b_expires := x \<rparr>" "m_io m"] assms find_prefix [OF assms] by simp

text \<open>A withdrawal.\<close>

lemma withdraw_entry_host:
  "host_entry cfg (a, b) \<Longrightarrow> withdraw_ban be now why man b s = (b', s') \<Longrightarrow> host_entry cfg (a, b')"
  by (auto simp: host_entry_def host_shape_def withdraw_ban_def anchored_def)

lemma withdraw_entry_prefix:
  "pfx_entry cfg (p, b) \<Longrightarrow> withdraw_ban be now why man b s = (b', s') \<Longrightarrow> pfx_entry cfg (p, b')"
  by (auto simp: pfx_entry_def withdraw_ban_def anchored_def)

lemma withdraw_ban_dry: "b_dry_run b \<Longrightarrow> withdraw_ban be now why man b s = (b', s') \<Longrightarrow> io_log s' = io_log s"
  by (auto simp: withdraw_ban_def withdraw_method_dry)

lemma good_withdraw_host:
  assumes g: "good be cfg m" and e: "host_entry cfg (a, b)" and w: "withdraw_ban be now why man b (m_io m) = (b', s)"
  shows "good be cfg (put_ban a b' (m \<lparr> m_io := s \<rparr>))"
proof (rule good_put_host [OF g withdraw_entry_host [OF e w]])
  show "emits (m_io m) s (call_about (host_prefix a))"
    using own_calls_about [OF withdraw_ban_own [OF w]] host_entry_anchored [OF e] host_entry_prefix [OF e] by simp
  show "c_dry_run cfg \<Longrightarrow> io_log s = io_log (m_io m)"
    using withdraw_ban_dry [OF _ w] e by (simp add: host_entry_def)
qed (use withdraw_ban_inactive [OF w] in simp_all)

lemma good_withdraw_prefix:
  assumes g: "good be cfg m" and e: "pfx_entry cfg (p, b)" and w: "withdraw_ban be now why man b (m_io m) = (b', s)"
  shows "good be cfg (put_pban p b' (m \<lparr> m_io := s \<rparr>))"
proof (rule good_put_prefix [OF g withdraw_entry_prefix [OF e w]])
  show "emits (m_io m) s (call_about p)"
    using own_calls_about [OF withdraw_ban_own [OF w]] e by (simp add: pfx_entry_def)
  show "c_dry_run cfg \<Longrightarrow> io_log s = io_log (m_io m)"
    using withdraw_ban_dry [OF _ w] e by (simp add: pfx_entry_def)
qed (use withdraw_ban_inactive [OF w] in simp_all)

text \<open>Calls about a prefix no active ban has.\<close>

lemma good_io:
  assumes g: "good be cfg m" and p: "\<not> prefix_contains_whitelisted cfg p" and calls: "emits (m_io m) s (call_about p)"
    and free: "\<And>b. b \<in> all_bans m \<Longrightarrow> is_active b \<Longrightarrow> b_prefix b \<noteq> p"
    and quiet: "c_dry_run cfg \<Longrightarrow> io_log s = io_log (m_io m)"
  shows "good be cfg (m \<lparr> m_io := s \<rparr>)"
proof -
  let ?m = "m \<lparr> m_io := s \<rparr>"
  have inv: "shape_inv be cfg m" "caps_inv cfg m" "up_inv cfg m" "wire_inv cfg m" "quiet_inv cfg m"
    using g by (simp_all add: good_def)
  have "up_inv cfg ?m"
    unfolding up_inv_def
  proof (intro impI ballI)
    fix c assume l: "\<not> c_dry_run cfg" and c: "c \<in> all_bans ?m"
    have c': "c \<in> all_bans m" using c by (simp add: all_bans_def)
    have em: "emits (m_io m) s (\<lambda>x. \<exists>q \<in> {p}. call_about q x)" using calls by (rule emits_mono) simp
    have a: "anchored c"
      using c' inv(1) host_entry_anchored pfx_entry_anchored by (fastforce simp: all_bans_def shape_inv_def list_all_iff)
    show "up c (io_log (m_io ?m))"
    proof (cases "is_active c")
      case True
      then show ?thesis using up_calls_about [OF em _ a] free [OF c'] inv(3) l c' by (simp add: up_inv_def)
    qed simp
  qed
  moreover have "wire_inv cfg ?m"
    by (rule wire_emits [OF inv(4)]) (use emits_mono [OF calls call_about_spares] p in simp)
  ultimately show ?thesis
    using inv quiet by (simp add: good_def shape_inv_def caps_inv_def quiet_inv_def active_count_def active_prefix_bans_def)
qed

text \<open>The first rung.\<close>

lemma apply_stage_cases:
  assumes "apply_stage be now cfg b0 i s = (e, b, s')"
  obtains (panic) "e = Some ErrPanic" "length (b_escalation b0) \<le> i"
  | (failed) x where "announce_stage be now cfg b0 (stage_view_of b0 (b_escalation b0 ! i)) s = (Inl x, b, s')" "e = Some x"
  | (up) ap fell b1 where "announce_stage be now cfg b0 (stage_view_of b0 (b_escalation b0 ! i)) s = (Inr (ap, fell), b1, s')"
      "e = None" "same_ban b0 b" "b_method b = v_method ap" "b_step b = i" "i < length (b_escalation b0)"
proof (cases "length (b_escalation b0) \<le> i")
  case True
  then show thesis using panic assms by (simp add: apply_stage_def)
next
  case False
  obtain r b1 s1 where a: "announce_stage be now cfg b0 (stage_view_of b0 (b_escalation b0 ! i)) s = (r, b1, s1)"
    by (cases "announce_stage be now cfg b0 (stage_view_of b0 (b_escalation b0 ! i)) s") auto
  have same: "same_ban b0 b1" using announce_stage_frame [OF a] by simp
  show thesis
  proof (cases r)
    case (Inl x)
    then have "e = Some x" "b = b1" "s' = s1" using assms False a by (auto simp: apply_stage_def Let_def)
    then show thesis using failed a Inl by simp
  next
    case (Inr q)
    obtain ap fell where q: "q = (ap, fell)" by (cases q)
    have r: "e = None" "s1 = s'" "b = note_fallback fell (v_method (stage_view_of b0 (b_escalation b0 ! i)))
        ''primary announce rejected by peer'' (set_active_stage i ap b1)"
      using assms False a Inr q by (auto simp: apply_stage_def Let_def)
    show thesis
      by (rule up [OF a [unfolded Inr q r(2)] r(1)])
        (use same False in \<open>simp_all add: r(3) note_fallback_def set_active_stage_def same_ban_def\<close>)
  qed
qed

lemma freeze_frame:
  "let b' = freeze_unicast_attrs now ns cfg g t b in
   b_target b' = b_target b \<and> b_prefix b' = b_prefix b \<and> b_state b' = b_state b \<and> b_dry_run b' = b_dry_run b
   \<and> b_rules b' = b_rules b \<and> b_escalation b' = b_escalation b \<and> b_expires b' = b_expires b \<and> b_started b' = b_started b
   \<and> b_manual b' = b_manual b \<and> b_dir_mask b' = b_dir_mask b \<and> b_step b' = b_step b \<and> b_method b' = b_method b"
  by (simp add: freeze_unicast_attrs_def Let_def split: option.split)

lemma draft_ban_frame:
  assumes "addr_valid target"
  shows "host_shape (draft_ban now ns cfg target opts) \<and> b_target (draft_ban now ns cfg target opts) = target
    \<and> b_dry_run (draft_ban now ns cfg target opts) = c_dry_run cfg \<and> is_active (draft_ban now ns cfg target opts)
    \<and> b_expires (draft_ban now ns cfg target opts) = now + ban_ttl (c_ban cfg)
    \<and> b_escalation (draft_ban now ns cfg target opts) = g_escalation (group_for cfg target)"
  using freeze_frame [unfolded Let_def] generate_rules_anchor [OF assms] assms
  by (simp add: draft_ban_def Let_def host_shape_def anchored_def is_active_def ban_zero_def)

end
