(* ===== verification/SystemSteps.thy ===== *)
theory SystemSteps
  imports System
begin

text \<open>
  Every handler keeps the invariant \<open>good\<close>, so every reachable state of the mitigator has it.
\<close>

section \<open>Creating a ban\<close>

lemma good_count_host: "good be cfg (put_ban a b (count_creation cfg m)) = good be cfg (put_ban a b m)"
  by (rule good_cong) (simp_all add: put_ban_def count_creation_def)

lemma good_count_prefix: "good be cfg (put_pban p b (count_creation cfg m)) = good be cfg (put_pban p b m)"
  by (rule good_cong) (simp_all add: put_pban_def count_creation_def)

lemma good_install_host:
  assumes g: "good be cfg m" and i: "install_ban be now cfg (put_ban a) b0 m = Done (b, m')"
    and d: "host_entry cfg (a, b0)" and free: "find_active (m_bans m) a = None"
    and cap: "int (active_count m) < max_active_bans (c_ban cfg)"
  shows "good be cfg m'"
proof -
  obtain e b1 s where a: "apply_stage be now cfg b0 0 (m_io m) = (e, b1, s)"
    by (cases "apply_stage be now cfg b0 0 (m_io m)") auto
  have bp: "b_prefix b0 = host_prefix a" "anchored b0" using host_entry_prefix [OF d] host_entry_anchored [OF d] by auto
  have spared: "\<not> prefix_contains_whitelisted cfg (host_prefix a)" using host_entry_spared [OF d] bp by simp
  have others: "b_prefix c \<noteq> host_prefix a" if c: "c \<in> all_bans m" "is_active c" for c
  proof -
    consider k where "(k, c) \<in> set (m_bans m)" | k where "(k, c) \<in> set (m_pbans m)" using c(1) by (auto simp: all_bans_def)
    then show ?thesis
    proof cases
      case 1
      then have k: "host_entry cfg (k, c)" "tget (m_bans m) k = Some c"
        using g in_set_tget by (auto simp: good_def shape_inv_def list_all_iff)
      then have "k \<noteq> a" using free c(2) by (auto simp: find_active_def)
      then show ?thesis using host_entries_differ [OF k(1) d] bp by simp
    next
      case 2
      then have "pfx_entry cfg (k, c)" using g by (auto simp: good_def shape_inv_def list_all_iff)
      then show ?thesis using entry_prefixes_differ [OF d] bp by fastforce
    qed
  qed
  from a show ?thesis
  proof (cases rule: apply_stage_cases)
    case panic
    then show ?thesis using i a by (simp add: install_ban_def)
  next
    case (failed x)
    have "emits (m_io m) s (call_about (host_prefix a))"
      using own_calls_about [OF announce_stage_own [OF failed(1)]] bp by simp
    moreover have "c_dry_run cfg \<Longrightarrow> io_log s = io_log (m_io m)" using failed(1) announce_stage_dry by simp
    ultimately have "good be cfg (m \<lparr> m_io := s \<rparr>)" by (intro good_io [OF g spared _ others]) auto
    moreover have "m' = m \<lparr> m_io := s \<rparr>"
      using i a failed(2) by (cases x) (auto simp: install_ban_def)
    ultimately show ?thesis by simp
  next
    case (up ap fell b2)
    have em: "emits (m_io m) s (call_about (host_prefix a))"
      using own_calls_about [OF announce_stage_own [OF up(1)]] bp by simp
    have dry: "c_dry_run cfg \<Longrightarrow> io_log s = io_log (m_io m)" using up(1) announce_stage_dry by simp
    have entry: "host_entry cfg (a, b1)"
      using d up(3) host_shape_same [OF up(3)] by (auto simp: host_entry_def same_ban_def)
    have "up b1 (io_log s)" if "\<not> c_dry_run cfg"
      using announce_stage_stands [OF up(1) that] up(4) enforced_same [OF up(3)] by (simp add: up_def)
    then have "good be cfg (put_ban a b1 (m \<lparr> m_io := s \<rparr>))"
      using good_put_host [OF g entry em] cap dry by blast
    moreover have "m' = dirty (put_ban a b1 (count_creation cfg (m \<lparr> m_io := s \<rparr>)))"
      using i a up(2) by (auto simp: install_ban_def)
    ultimately show ?thesis by (simp only: good_dirty good_count_host)
  qed
qed

lemma good_install_prefix:
  assumes g: "good be cfg m" and i: "install_ban be now cfg (put_pban p) b0 m = Done (b, m')"
    and d: "pfx_entry cfg (p, b0)" and free: "find_active (m_pbans m) p = None"
    and cap: "c_carpet cfg = Some cp" "int (active_prefix_bans m) < cp_max_active cp"
  shows "good be cfg m'"
proof -
  obtain e b1 s where a: "apply_stage be now cfg b0 0 (m_io m) = (e, b1, s)"
    by (cases "apply_stage be now cfg b0 0 (m_io m)") auto
  have bp: "b_prefix b0 = p" "anchored b0" "\<not> prefix_contains_whitelisted cfg p" using d by (auto simp: pfx_entry_def)
  have others: "b_prefix c \<noteq> p" if c: "c \<in> all_bans m" "is_active c" for c
  proof -
    consider k where "(k, c) \<in> set (m_bans m)" | k where "(k, c) \<in> set (m_pbans m)" using c(1) by (auto simp: all_bans_def)
    then show ?thesis
    proof cases
      case 1
      then have "host_entry cfg (k, c)" using g by (auto simp: good_def shape_inv_def list_all_iff)
      then show ?thesis using entry_prefixes_differ [OF _ d] bp by fastforce
    next
      case 2
      then have k: "pfx_entry cfg (k, c)" "tget (m_pbans m) k = Some c"
        using g in_set_tget by (auto simp: good_def shape_inv_def list_all_iff)
      then have "k \<noteq> p" using free c(2) by (auto simp: find_active_def)
      then show ?thesis using k(1) by (simp add: pfx_entry_def)
    qed
  qed
  from a show ?thesis
  proof (cases rule: apply_stage_cases)
    case panic
    then show ?thesis using i a by (simp add: install_ban_def)
  next
    case (failed x)
    have "emits (m_io m) s (call_about p)"
      using own_calls_about [OF announce_stage_own [OF failed(1)]] bp by simp
    moreover have "c_dry_run cfg \<Longrightarrow> io_log s = io_log (m_io m)" using failed(1) announce_stage_dry by simp
    ultimately have "good be cfg (m \<lparr> m_io := s \<rparr>)" by (intro good_io [OF g bp(3) _ others]) auto
    moreover have "m' = m \<lparr> m_io := s \<rparr>"
      using i a failed(2) by (cases x) (auto simp: install_ban_def)
    ultimately show ?thesis by simp
  next
    case (up ap fell b2)
    have em: "emits (m_io m) s (call_about p)"
      using own_calls_about [OF announce_stage_own [OF up(1)]] bp by simp
    have dry: "c_dry_run cfg \<Longrightarrow> io_log s = io_log (m_io m)" using up(1) announce_stage_dry by simp
    have entry: "pfx_entry cfg (p, b1)"
      using d up(3) same_ban_anchored [OF up(3)] by (auto simp: pfx_entry_def same_ban_def)
    have "up b1 (io_log s)" if "\<not> c_dry_run cfg"
      using announce_stage_stands [OF up(1) that] up(4) enforced_same [OF up(3)] by (simp add: up_def)
    then have "good be cfg (put_pban p b1 (m \<lparr> m_io := s \<rparr>))"
      using good_put_prefix [OF g entry em] cap dry by blast
    moreover have "m' = dirty (put_pban p b1 (count_creation cfg (m \<lparr> m_io := s \<rparr>)))"
      using i a up(2) by (auto simp: install_ban_def)
    ultimately show ?thesis by (simp only: good_dirty good_count_prefix)
  qed
qed

lemma rate_guard_frame:
  "rate_guard now cfg m = (ok, m') \<Longrightarrow>
   m_bans m' = m_bans m \<and> m_pbans m' = m_pbans m \<and> m_src m' = m_src m \<and> m_io m' = m_io m \<and> m_nodes m' = m_nodes m"
  by (auto simp: rate_guard_def Let_def split: if_splits)

lemma good_rate_guard: "rate_guard now cfg m = (ok, m') \<Longrightarrow> good be cfg m' = good be cfg m"
  using rate_guard_frame good_cong by metis

lemma draft_entry:
  assumes "in_networks cfg a" "\<not> is_whitelisted cfg a"
  shows "host_entry cfg (a, draft_ban now ns cfg a opts)"
  using draft_ban_frame [OF in_networks_valid [OF assms(1)]] assms by (simp add: host_entry_def)

lemma draft_prefix_entry:
  assumes "pfx_valid p" "prefix_in_networks cfg p" "\<not> prefix_contains_whitelisted cfg p"
    "pfx_bits p < int (bit_len (pfx_addr p))"
  shows "pfx_entry cfg (p, draft_prefix_ban now ns cfg p meth opts)"
proof -
  have rules: "\<forall>r \<in> set (generate_carpet_rules p cl sa FSDiscard (Fin 0)). rule_anchor r = p" for cl sa
    using narrowed_rules_ok assms(1)
    by (auto simp: generate_carpet_rules_def rule_set_ok_def list_all_iff refines_base_def anchor_rule_def rule_anchor_def)
  show ?thesis
    using freeze_frame [unfolded Let_def] rules assms
    by (simp add: draft_prefix_ban_def Let_def pfx_entry_def anchored_def ban_zero_def)
qed

lemma ban_host_good:
  assumes g: "good be cfg m" and b: "ban_host be now cfg a opts m = Done (r, m')"
  shows "good be cfg m'"
proof (cases "is_whitelisted cfg a \<or> \<not> in_networks cfg a")
  case True
  then show ?thesis using b g by (auto simp: ban_host_def split: if_splits)
next
  case policy: False
  show ?thesis
  proof (cases "find_active (m_bans m) a")
    case (Some old)
    let ?b = "old \<lparr> b_expires := now + ban_ttl (c_ban cfg), b_dir_mask := b_dir_mask old OR o_dir_mask opts \<rparr>"
    have "good be cfg (put_ban a ?b m)"
      by (rule good_refresh_host [OF g Some]) (use find_host [OF g Some] in simp_all)
    moreover have "m' = dirty (put_ban a ?b m)" using b policy Some by (auto simp: ban_host_def Let_def)
    ultimately show ?thesis by simp
  next
    case None
    obtain ok m1 where rg: "rate_guard now cfg m = (ok, m1)" by (cases "rate_guard now cfg m")
    note fr = rate_guard_frame [OF rg]
    have g1: "good be cfg m1" using g good_rate_guard [OF rg] by simp
    show ?thesis
    proof (cases "max_active_bans (c_ban cfg) \<le> int (active_count m) \<or> fraction_exceeded cfg m (is6 a) (Fin 1) \<or> \<not> ok")
      case True
      then have "m' = m \<or> m' = m1" using b policy None rg by (auto simp: ban_host_def split: if_splits)
      then show ?thesis using g g1 by auto
    next
      case False
      then have "install_ban be now cfg (put_ban a) (draft_ban now (m_nodes m1) cfg a opts) m1 = Done (r, m')"
        using b policy None rg by (simp add: ban_host_def)
      moreover have "int (active_count m1) < max_active_bans (c_ban cfg)" using False fr by (simp add: active_count_def)
      ultimately show ?thesis
        using good_install_host [OF g1] draft_entry policy None fr by metis
    qed
  qed
qed

lemma ban_prefix_good:
  assumes g: "good be cfg m" and b: "ban_prefix be now cfg p opts m = Done (r, m')"
    and p: "pfx_valid p" "pfx_bits p < int (bit_len (pfx_addr p))"
  shows "good be cfg m'"
proof -
  obtain cp where cp: "c_carpet cfg = Some cp" using b by (auto simp: ban_prefix_def split: option.splits)
  show ?thesis
  proof (cases "carpet_method cp = NoMethod \<or> prefix_contains_whitelisted cfg p \<or> \<not> prefix_in_networks cfg p")
    case True
    then show ?thesis using b g cp by (auto simp: ban_prefix_def split: if_splits)
  next
    case policy: False
    show ?thesis
    proof (cases "find_active (m_pbans m) p")
      case (Some old)
      have "m' = dirty (put_pban p (old \<lparr> b_expires := now + ban_ttl (c_ban cfg) \<rparr>) m)"
        using b policy cp Some by (simp add: ban_prefix_def Let_def)
      then show ?thesis using good_refresh_prefix [OF g Some] by simp
    next
      case None
      obtain ok m1 where rg: "rate_guard now cfg m = (ok, m1)" by (cases "rate_guard now cfg m")
      note fr = rate_guard_frame [OF rg]
      have g1: "good be cfg m1" using g good_rate_guard [OF rg] by simp
      show ?thesis
      proof (cases "cp_max_active cp \<le> int (active_prefix_bans m)
          \<or> fraction_exceeded cfg m (is6 (pfx_addr p)) (address_count_for_prefix p) \<or> \<not> ok")
        case True
        then have "m' = m \<or> m' = m1" using b policy cp None rg by (auto simp: ban_prefix_def split: if_splits)
        then show ?thesis using g g1 by auto
      next
        case False
        let ?d = "draft_prefix_ban now (m_nodes m1) cfg p (carpet_method cp) opts"
        obtain b1 where "install_ban be now cfg (put_pban p) ?d m1 = Done (b1, m')"
          using b policy cp None rg False by (auto simp: ban_prefix_def split: outcome.splits)
        moreover have "int (active_prefix_bans m1) < cp_max_active cp" using False fr by (simp add: active_prefix_bans_def)
        ultimately show ?thesis
          using good_install_prefix [OF g1 _ _ _ cp] draft_prefix_entry p policy None fr by metis
      qed
    qed
  qed
qed

section \<open>Events and operator requests\<close>

lemma started_good:
  assumes g: "good be cfg m" and s: "on_attack_started be now cfg ev m = Done (r, m')" and a: "aggregate_event ev"
  shows "good be cfg m'"
proof (cases "ev_scope ev = ScopeGroup \<or> \<not> ev_ban_enabled ev")
  case True
  then show ?thesis using s g by (simp add: on_attack_started_def)
next
  case open': False
  show ?thesis
  proof (cases "ev_scope ev = ScopePrefix")
    case True
    show ?thesis
    proof (cases "parse_prefix (ev_prefix ev)")
      case None
      then show ?thesis using s g open' True by (simp add: on_attack_started_def)
    next
      case (Some p)
      then have "ban_prefix be now cfg p ((opts_of_event ev) \<lparr> o_dir_mask := 0 \<rparr>) m = Done (r, m')"
        using s open' True by (simp add: on_attack_started_def)
      then show ?thesis using ban_prefix_good [OF g] parse_prefix_valid [OF Some] a Some by (simp add: aggregate_event_def)
    qed
  next
    case False
    then obtain b where "ban_host be now cfg (ev_target ev) (opts_of_event ev) m = Done (b, m')"
      using s open' by (auto simp: on_attack_started_def split: outcome.splits)
    then show ?thesis by (rule ban_host_good [OF g])
  qed
qed

lemma manual_ban_good:
  assumes g: "good be cfg m" and s: "manual_ban be now cfg a m = Done (r, m')"
  shows "good be cfg m'"
proof (cases "addr_valid a")
  case True
  then obtain b where "ban_host be now cfg a manual_opts m = Done (b, m')"
    using s by (auto simp: manual_ban_def split: outcome.splits)
  then show ?thesis by (rule ban_host_good [OF g])
qed (use s g in \<open>simp add: manual_ban_def\<close>)

lemma ended_good:
  assumes g: "good be cfg m" and s: "on_attack_ended be now ev m = (r, m')"
  shows "good be cfg m'"
proof (cases "ev_scope ev = ScopeGroup")
  case True
  then show ?thesis using s g by (simp add: on_attack_ended_def)
next
  case scoped: False
  show ?thesis
  proof (cases "ev_scope ev = ScopePrefix")
    case True
    show ?thesis
    proof (cases "parse_prefix (ev_prefix ev)")
      case None
      then show ?thesis using s g True by (simp add: on_attack_ended_def)
    next
      case (Some p)
      show ?thesis
      proof (cases "find_active (m_pbans m) p")
        case None
        then show ?thesis using s g True Some by (simp add: on_attack_ended_def)
      next
        case b: (Some b)
        obtain b' t where w: "withdraw_ban be now ''carpet attack ended'' False b (m_io m) = (b', t)"
          by (cases "withdraw_ban be now ''carpet attack ended'' False b (m_io m)")
        have "m' = put_pban p b' (m \<lparr> m_io := t \<rparr>)" using s True Some b w by (simp add: on_attack_ended_def)
        then show ?thesis using good_withdraw_prefix [OF g _ w] find_prefix [OF g b] by simp
      qed
    qed
  next
    case host: False
    show ?thesis
    proof (cases "find_active (m_bans m) (ev_target ev)")
      case None
      then show ?thesis using s g scoped host by (simp add: on_attack_ended_def)
    next
      case b: (Some b)
      let ?b = "b \<lparr> b_dir_mask := b_dir_mask b AND NOT (dir_bit (ev_direction ev)) \<rparr>"
      show ?thesis
      proof (cases "b_dir_mask ?b \<noteq> 0 \<or> b_manual ?b")
        case True
        then have "m' = put_ban (ev_target ev) ?b m" using s scoped host b by (auto simp: on_attack_ended_def Let_def)
        then show ?thesis using good_refresh_host [OF g b] find_host [OF g b] by simp
      next
        case False
        obtain b' t where w: "withdraw_ban be now ''attack ended'' False ?b (m_io m) = (b', t)"
          by (cases "withdraw_ban be now ''attack ended'' False ?b (m_io m)")
        have "m' = put_ban (ev_target ev) b' (m \<lparr> m_io := t \<rparr>)"
          using s scoped host b w False by (simp add: on_attack_ended_def Let_def)
        then show ?thesis using good_withdraw_host [OF g _ w] find_host [OF g b] by simp
      qed
    qed
  qed
qed

lemma manual_unban_good:
  assumes g: "good be cfg m" and s: "manual_unban be now a m = (r, m')"
  shows "good be cfg m'"
proof (cases "addr_valid a \<and> find_active (m_bans m) a \<noteq> None")
  case True
  then obtain b where b: "find_active (m_bans m) a = Some b" by auto
  obtain b' t where w: "withdraw_ban be now ''manual unban'' True b (m_io m) = (b', t)"
    by (cases "withdraw_ban be now ''manual unban'' True b (m_io m)")
  have "m' = put_ban a b' (m \<lparr> m_io := t \<rparr>)" using s True b w by (simp add: manual_unban_def unban_def)
  then show ?thesis using good_withdraw_host [OF g _ w] find_host [OF g b] by simp
next
  case False
  then show ?thesis using s g by (auto simp: manual_unban_def unban_def split: if_splits)
qed

section \<open>Renewal and the sweep\<close>

lemma renew_ban_dry: "b_dry_run b \<Longrightarrow> renew_ban be now ttl skip b s = (b', s') \<Longrightarrow> io_log s' = io_log s"
  by (simp add: renew_ban_def)

lemma renew_dataplane_good:
  assumes g: "good be cfg m"
  shows "good be cfg (renew_dataplane be now cfg m)"
proof (cases "\<not> be_dp be \<or> ban_ttl (c_ban cfg) \<le> 0")
  case True
  then show ?thesis using g by (auto simp: renew_dataplane_def Let_def)
next
  case False
  let ?f = "\<lambda>skip. renew_ban be now (ban_ttl (c_ban cfg)) skip"
  let ?h = "\<lambda>b. is_whitelisted cfg (b_target b)" and ?q = "\<lambda>b. prefix_contains_whitelisted cfg (b_prefix b)"
  obtain t s where t: "walk (?f ?h) (m_bans m) (m_io m) = (t, s)" by (cases "walk (?f ?h) (m_bans m) (m_io m)")
  obtain pt s' where pt: "walk (?f ?q) (m_pbans m) s = (pt, s')" by (cases "walk (?f ?q) (m_pbans m) s")
  have g1: "good be cfg (m \<lparr> m_bans := t, m_io := s \<rparr>)"
    by (rule good_walk_hosts [OF g renewal.sweep_body_axioms _ host_entry_anchored refl _ t]) (auto intro: renew_ban_dry)
  have "walk (?f ?q) (m_pbans (m \<lparr> m_bans := t, m_io := s \<rparr>)) s = (pt, s')" using pt by simp
  then have "good be cfg ((m \<lparr> m_bans := t, m_io := s \<rparr>) \<lparr> m_pbans := pt, m_io := s' \<rparr>)"
    by (intro good_walk_prefixes [OF g1 renewal.sweep_body_axioms _ pfx_entry_anchored]) (auto intro: renew_ban_dry)
  then show ?thesis using False t pt by (simp add: renew_dataplane_def Let_def)
qed

lemma ongoing_good:
  assumes g: "good be cfg m"
  shows "good be cfg (on_attack_ongoing be now cfg ev m)"
proof (cases "refresh_ban now cfg ev m")
  case None
  then show ?thesis using g by (simp add: on_attack_ongoing_def)
next
  case (Some m1)
  consider (prefix) p b x where "find_active (m_pbans m) p = Some b" "m1 = put_pban p (b \<lparr> b_expires := x \<rparr>) m"
    | (host) b x y where "find_active (m_bans m) (ev_target ev) = Some b"
        "m1 = put_ban (ev_target ev) (b \<lparr> b_expires := x, b_dir_mask := y \<rparr>) m"
    using Some by (auto simp: refresh_ban_def split: if_splits option.splits)
  then have "good be cfg m1"
  proof cases
    case prefix
    then show ?thesis using good_refresh_prefix [OF g prefix(1)] by simp
  next
    case host
    then show ?thesis using good_refresh_host [OF g host(1)] find_host [OF g host(1)] by simp
  qed
  then show ?thesis using Some g by (simp add: on_attack_ongoing_def Let_def renew_dataplane_good)
qed

lemma sweep_host_dry:
  assumes "c_dry_run cfg" "b_dry_run b" "sweep_host be now cfg b s = (b', s')"
  shows "io_log s' = io_log s"
  using assms(3) by (cases rule: sweep_host_cases) (auto dest: withdraw_ban_dry [OF assms(2)] escalate_dry [OF assms(1,2)])

lemma sweep_prefix_dry:
  assumes "c_dry_run cfg" "b_dry_run b" "sweep_prefix be now cfg b s = (b', s')"
  shows "io_log s' = io_log s"
  using assms(3) by (cases rule: sweep_prefix_cases) (auto dest: withdraw_ban_dry [OF assms(2)] escalate_dry [OF assms(1,2)])

lemma relocate_dry:
  assumes "c_dry_run cfg" "b_dry_run b" "relocate_ban be now cfg b (ns, s) = (b', ns', s')"
  shows "io_log s' = io_log s"
  using assms(3)
proof (cases rule: relocate_cases)
  case (moved n attrs s1)
  then show ?thesis using announce_method_dry [OF assms(1)] by simp
next
  case (failed attrs e)
  then show ?thesis using announce_method_dry [OF assms(1)] by simp
next
  case blackhole
  then show ?thesis by (cases rule: degrade_blackhole_cases) (auto simp: announce_method_dry [OF assms(1)])
next
  case flowspec
  have w: "b_dry_run (with_rules (group_for cfg (b_target b)) b)" using with_rules_frame assms(2) by (simp add: descends_def)
  from flowspec show ?thesis
    by (cases rule: degrade_flowspec_cases) (auto simp: w announce_method_dry [OF assms(1)] withdraw_method_dry)
qed (auto dest: withdraw_ban_dry [OF assms(2)])

lemma sweep_node_dry:
  assumes "c_dry_run cfg" "b_dry_run b" "sweep_node_ban be now cfg b st = (b', st')"
  shows "io_log (snd st') = io_log (snd st)"
proof -
  obtain ns s where st: "st = (ns, s)" by (cases st)
  obtain ns' s' where st': "st' = (ns', s')" by (cases st')
  have "sweep_node_ban be now cfg b (ns, s) = (b', ns', s')" using assms(3) st st' by simp
  then show ?thesis using st st' by (cases rule: sweep_node_cases) (auto dest: relocate_dry [OF assms(1,2)])
qed

lemma host_entry_shape: "host_entry cfg e \<Longrightarrow> host_shape (snd e)"
  by (simp add: host_entry_def)

lemma sweep_expired_good:
  assumes g: "good be cfg m"
  shows "good be cfg (sweep_expired be now cfg m)"
proof -
  obtain t s1 where t: "walk (sweep_host be now cfg) (m_bans m) (m_io m) = (t, s1)"
    by (cases "walk (sweep_host be now cfg) (m_bans m) (m_io m)")
  obtain pt s2 where pt: "walk (sweep_prefix be now cfg) (m_pbans m) s1 = (pt, s2)"
    by (cases "walk (sweep_prefix be now cfg) (m_pbans m) s1")
  obtain ss s3 where ss: "sweep_source_blocks be now cfg (m_src m, s2) = (ss, s3)"
    by (cases "sweep_source_blocks be now cfg (m_src m, s2)")
  let ?ns = "touch_nodes now (stale_after cfg) (sc_nodes (c_scrubbing cfg)) (m_nodes m)"
  obtain t' ns s4 where t': "walk (sweep_node_ban be now cfg) t (?ns, s3) = (t', ns, s4)"
    by (cases "walk (sweep_node_ban be now cfg) t (?ns, s3)") auto
  let ?m1 = "m \<lparr> m_bans := t, m_io := s1 \<rparr>"
  let ?m2 = "?m1 \<lparr> m_pbans := pt, m_io := s2 \<rparr>"
  let ?m3 = "?m2 \<lparr> m_src := ss, m_io := s3 \<rparr>"
  let ?m4 = "?m3 \<lparr> m_bans := t', m_io := snd (ns, s4) \<rparr>"
  have g1: "good be cfg ?m1"
    by (rule good_walk_hosts [OF g host_sweep.sweep_body_axioms _ host_entry_anchored refl _ t]) (auto intro: sweep_host_dry)
  have pt': "walk (sweep_prefix be now cfg) (m_pbans ?m1) s1 = (pt, s2)" using pt by simp
  have g2: "good be cfg ?m2"
    by (rule good_walk_prefixes [OF g1 prefix_sweep.sweep_body_axioms _ pfx_entry_anchored _ _ pt']) (auto intro: sweep_prefix_dry)
  have g3: "good be cfg ?m3" by (rule good_sweep_sources [OF g2]) (use ss in simp)
  have w: "walk (sweep_node_ban be now cfg) (m_bans ?m3) (?ns, s3) = (t', ns, s4)" using t' by simp
  have g4: "good be cfg ?m4"
    by (rule good_walk_hosts [OF g3 node_sweep.sweep_body_axioms _ host_entry_shape _ _ w]) (auto intro: sweep_node_dry)
  have "sweep_expired be now cfg m = ?m4 \<lparr> m_nodes := ns \<rparr>"
    using t pt ss t' by (simp add: sweep_expired_def sweep_nodes_def)
  then show ?thesis using g4 by (simp only: good_upd)
qed

section \<open>Every step\<close>

lemma mstep_good: "mstep be cfg m m' \<Longrightarrow> good be cfg m \<Longrightarrow> good be cfg m'"
  by (induction rule: mstep.induct)
    (auto intro: started_good ended_good ongoing_good manual_ban_good manual_unban_good good_block good_unblock sweep_expired_good)

section \<open>What one handler leaves\<close>

text \<open>No ban that ran out, left the networks or, for a prefix, holds a whitelisted address survives a sweep.\<close>

definition host_fresh :: "nanos \<Rightarrow> config \<Rightarrow> ban \<Rightarrow> bool" where
  "host_fresh now cfg b \<longleftrightarrow> (is_active b \<longrightarrow> \<not> expired now b \<and> in_networks cfg (b_target b))"

definition pfx_fresh :: "nanos \<Rightarrow> config \<Rightarrow> ban \<Rightarrow> bool" where
  "pfx_fresh now cfg b \<longleftrightarrow> (is_active b \<longrightarrow> \<not> expired now b \<and> prefix_in_networks cfg (b_prefix b)
     \<and> \<not> prefix_contains_whitelisted cfg (b_prefix b))"

lemma fresh_descends: "descends b b' \<Longrightarrow> host_fresh now cfg b \<Longrightarrow> host_fresh now cfg b'"
  by (auto simp: descends_def host_fresh_def expired_def)

lemma sweep_host_fresh: "sweep_host be now cfg b s = (b', s') \<Longrightarrow> host_fresh now cfg b'"
  by (erule sweep_host_cases)
    (auto simp: host_fresh_def dest: withdraw_ban_inactive escalate_frame simp: same_ban_def expired_def)

lemma sweep_prefix_fresh: "sweep_prefix be now cfg b s = (b', s') \<Longrightarrow> pfx_fresh now cfg b'"
  by (erule sweep_prefix_cases)
    (auto simp: pfx_fresh_def dest: withdraw_ban_inactive escalate_frame simp: same_ban_def expired_def)

text \<open>What holds of every result of the body holds of every entry after the walk.\<close>

lemma walk_all:
  assumes "\<And>b s. Q (fst (body b s))"
  shows "\<forall>b \<in> snd ` set (fst (walk body t s)). Q b"
  using assms by (induction t arbitrary: s) (fastforce simp: case_prod_unfold Let_def)+

lemma walk_keeps:
  assumes "\<And>b s. Q b \<Longrightarrow> Q (fst (body b s))" "\<forall>b \<in> snd ` set t. Q b"
  shows "\<forall>b \<in> snd ` set (fst (walk body t s)). Q b"
  using assms by (induction t arbitrary: s) (fastforce simp: case_prod_unfold Let_def)+

lemma sweep_expired_fresh:
  "(\<forall>b \<in> snd ` set (m_bans (sweep_expired be now cfg m)). host_fresh now cfg b)
   \<and> (\<forall>b \<in> snd ` set (m_pbans (sweep_expired be now cfg m)). pfx_fresh now cfg b)"
proof -
  have hosts: "\<forall>b \<in> snd ` set (fst (walk (sweep_host be now cfg) (m_bans m) s)). host_fresh now cfg b" for s
    by (rule walk_all) (metis prod.collapse sweep_host_fresh)
  have pfxs: "\<forall>b \<in> snd ` set (fst (walk (sweep_prefix be now cfg) (m_pbans m) s)). pfx_fresh now cfg b" for s
    by (rule walk_all) (metis prod.collapse sweep_prefix_fresh)
  have nodes: "\<forall>b \<in> snd ` set (fst (walk (sweep_node_ban be now cfg) t st)). host_fresh now cfg b"
    if "\<forall>b \<in> snd ` set t. host_fresh now cfg b" for t st
    by (rule walk_keeps [OF _ that]) (metis fresh_descends node_sweep.body_descends prod.collapse)
  have "m_bans (sweep_expired be now cfg m) = fst (walk (sweep_node_ban be now cfg)
      (fst (walk (sweep_host be now cfg) (m_bans m) (m_io m)))
      (touch_nodes now (stale_after cfg) (sc_nodes (c_scrubbing cfg)) (m_nodes m),
       snd (sweep_source_blocks be now cfg (m_src m,
         snd (walk (sweep_prefix be now cfg) (m_pbans m) (snd (walk (sweep_host be now cfg) (m_bans m) (m_io m))))))))"
    "m_pbans (sweep_expired be now cfg m) = fst (walk (sweep_prefix be now cfg) (m_pbans m)
      (snd (walk (sweep_host be now cfg) (m_bans m) (m_io m))))"
    by (simp_all add: sweep_expired_def sweep_nodes_def split_beta)
  then show ?thesis using nodes [OF hosts] pfxs by metis
qed

text \<open>A refresh enters nothing and revives nothing; renewal only moves a kernel deadline.\<close>

lemma renew_ban_descends: "renew_ban be now ttl skip b s = (b', s') \<Longrightarrow> descends b b'"
  by (rule renewal.body_descends)

lemma renew_dataplane_tables:
  "map fst (m_bans (renew_dataplane be now cfg m)) = map fst (m_bans m)
   \<and> map fst (m_pbans (renew_dataplane be now cfg m)) = map fst (m_pbans m)
   \<and> active_count (renew_dataplane be now cfg m) \<le> active_count m
   \<and> active_prefix_bans (renew_dataplane be now cfg m) \<le> active_prefix_bans m"
  by (simp add: renew_dataplane_def Let_def split_beta active_count_def active_prefix_bans_def renewal.walk_active_le)

lemma tput_known: "tget t k = Some v \<Longrightarrow> map fst (tput k w t) = map fst t"
  by (induction t) (auto simp: tget_def tput_def split: if_splits)

lemma refresh_ban_tables:
  assumes "refresh_ban now cfg ev m = Some m1"
  shows "map fst (m_bans m1) = map fst (m_bans m) \<and> map fst (m_pbans m1) = map fst (m_pbans m)
    \<and> active_count m1 \<le> active_count m \<and> active_prefix_bans m1 \<le> active_prefix_bans m \<and> m_io m1 = m_io m"
  using assms
  by (auto simp: refresh_ban_def find_active_Some put_ban_def put_pban_def tput_known active_count_def
      active_prefix_bans_def intro!: tcount_tput_mono split: if_splits option.splits)

lemma ongoing_tables:
  "map fst (m_bans (on_attack_ongoing be now cfg ev m)) = map fst (m_bans m)
   \<and> map fst (m_pbans (on_attack_ongoing be now cfg ev m)) = map fst (m_pbans m)
   \<and> active_count (on_attack_ongoing be now cfg ev m) \<le> active_count m
   \<and> active_prefix_bans (on_attack_ongoing be now cfg ev m) \<le> active_prefix_bans m"
proof (cases "(ev_scope ev = ScopeGroup \<or> \<not> ev_ban_enabled ev) \<or> refresh_ban now cfg ev m = None")
  case True
  then show ?thesis by (auto simp: on_attack_ongoing_def)
next
  case False
  then obtain m1 where m1: "refresh_ban now cfg ev m = Some m1" by auto
  let ?m2 = "if half_dur (ban_ttl (c_ban cfg)) \<le> time_sub now (m_last_persist m1)
    then dirty (m1 \<lparr> m_last_persist := now \<rparr>) else m1"
  have m2: "m_bans ?m2 = m_bans m1" "m_pbans ?m2 = m_pbans m1" by (simp_all add: dirty_def)
  have "on_attack_ongoing be now cfg ev m = renew_dataplane be now cfg ?m2"
    using False m1 by (simp add: on_attack_ongoing_def Let_def)
  then show ?thesis
    using renew_dataplane_tables [of be now cfg ?m2] refresh_ban_tables [OF m1] m2
    by (simp add: active_count_def active_prefix_bans_def del: if_split)
qed

end
