(* ===== verification/Persist.thy ===== *)
theory Persist
  imports Lifecycle
begin

text \<open>
  Ban persistence (\<^verbatim>\<open>src/engine/internal/mitigate/persist.go\<close>): the state file, its atomic rewrite, and
  the rehydration that restores and re-announces the bans of the previous process under the
  configuration of the new one. JSON encoding is a bijection on the documents (\<open>FileDoc\<close>); the kernel
  counters a ban carries for display are not part of the model's ban, so not of its snapshot.
\<close>

section \<open>The document\<close>

record ban_snapshot =
  pb_target :: addr
  pb_prefix :: prefix
  pb_metric :: metric
  pb_rate :: f64
  pb_threshold :: f64
  pb_started :: nanos
  pb_expires :: nanos
  pb_manual :: bool
  pb_dry_run :: bool
  pb_method :: mitigation_method
  pb_rules :: "flowspec_rule list"
  pb_escalation :: "escalation_stage list"
  pb_step :: int
  pb_fell_from :: mitigation_method
  pb_fell_reason :: string
  pb_node :: string

text \<open>\<^verbatim>\<open>sourceBlockSnapshot\<close> has the fields of \<^verbatim>\<open>SourceBlock\<close>, and the conversion is the identity.\<close>

type_synonym source_snapshot = source_block

record persist_state =
  ps_version :: int
  ps_saved_at :: nanos
  ps_hosts :: "ban_snapshot list"
  ps_prefixes :: "ban_snapshot list"
  ps_sources :: "source_snapshot list"

definition persist_version :: int where "persist_version = 1"

definition snapshot_core :: "ban \<Rightarrow> ban_snapshot" where
  "snapshot_core b = \<lparr> pb_target = b_target b, pb_prefix = b_prefix b, pb_metric = b_metric b, pb_rate = b_rate b,
     pb_threshold = b_threshold b, pb_started = b_started b, pb_expires = b_expires b, pb_manual = b_manual b,
     pb_dry_run = b_dry_run b, pb_method = b_method b, pb_rules = b_rules b, pb_escalation = b_escalation b,
     pb_step = int (b_step b), pb_fell_from = b_fell_from b, pb_fell_reason = b_fell_reason b, pb_node = b_node b \<rparr>"

definition active_snapshots :: "('k, ban) table \<Rightarrow> ban_snapshot list" where
  "active_snapshots t = map snapshot_core (filter is_active (map snd t))"

definition snapshot_locked :: "nanos \<Rightarrow> mit \<Rightarrow> persist_state" where
  "snapshot_locked now m = \<lparr> ps_version = persist_version, ps_saved_at = now,
     ps_hosts = sort_key pb_target (active_snapshots (m_bans m)),
     ps_prefixes = sort_key (\<lambda>s. pfx_string (pb_prefix s)) (active_snapshots (m_pbans m)),
     ps_sources = source_blocks (m_src m) \<rparr>"

section \<open>The file\<close>

text \<open>What reading the file gives, and the steps of a rewrite, each of which may fail. A process that
  dies inside a rewrite looks like a step and the removal failing.\<close>

datatype file_read = FileMissing | FileUnreadable | FileMalformed | FileDoc persist_state

datatype save_step = MkdirAll | MarshalDoc | CreateTemp | WriteTemp | SyncTemp | CloseTemp | RenameTemp | RemoveTemp

record disk =
  dk_file :: file_read
  dk_temps :: nat

datatype load_error = ErrRead | ErrParse | ErrVersion int

definition persist_empty :: persist_state where
  "persist_empty = \<lparr> ps_version = 0, ps_saved_at = 0, ps_hosts = [], ps_prefixes = [], ps_sources = [] \<rparr>"

definition load :: "disk \<Rightarrow> load_error + persist_state" where
  "load d = (case dk_file d of
     FileMissing \<Rightarrow> Inr persist_empty
   | FileUnreadable \<Rightarrow> Inl ErrRead
   | FileMalformed \<Rightarrow> Inl ErrParse
   | FileDoc st \<Rightarrow> if ps_version st \<noteq> persist_version then Inl (ErrVersion (ps_version st)) else Inr st)"

definition save :: "(save_step \<Rightarrow> bool) \<Rightarrow> persist_state \<Rightarrow> disk \<Rightarrow> bool \<times> disk" where
  "save ok st d =
     (if \<not> ok MkdirAll then (False, d)
      else if \<not> ok MarshalDoc then (False, d)
      else if \<not> ok CreateTemp then (False, d)
      else let failed = (False, d \<lparr> dk_temps := dk_temps d + (if ok RemoveTemp then 0 else 1) \<rparr>) in
        if \<not> ok WriteTemp then failed
        else if \<not> ok SyncTemp then failed
        else if \<not> ok CloseTemp then failed
        else if \<not> ok RenameTemp then failed
        else (True, d \<lparr> dk_file := FileDoc st \<rparr>))"

text \<open>The persist loop takes the pending signal and writes the table as it is then.\<close>

definition flush_persist :: "nanos \<Rightarrow> (save_step \<Rightarrow> bool) \<Rightarrow> mit \<Rightarrow> disk \<Rightarrow> disk" where
  "flush_persist now ok m d = snd (save ok (snapshot_locked now m) d)"

definition persist_turn :: "nanos \<Rightarrow> (save_step \<Rightarrow> bool) \<Rightarrow> mit \<Rightarrow> disk \<Rightarrow> mit \<times> disk" where
  "persist_turn now ok m d =
     (if io_dirty (m_io m)
      then let m' = m \<lparr> m_io := (m_io m) \<lparr> io_dirty := False \<rparr> \<rparr> in (m', flush_persist now ok m' d)
      else (m, d))"

section \<open>Rehydration\<close>

definition ban_from_snapshot :: "ban_snapshot \<Rightarrow> prefix \<Rightarrow> ban" where
  "ban_from_snapshot s p = ban_zero \<lparr> b_target := pb_target s, b_prefix := p, b_metric := pb_metric s,
     b_rate := pb_rate s, b_threshold := pb_threshold s, b_state := BanActive, b_dry_run := pb_dry_run s,
     b_manual := pb_manual s, b_started := pb_started s, b_expires := pb_expires s, b_method := pb_method s,
     b_rules := pb_rules s, b_escalation := pb_escalation s, b_step := nat (pb_step s),
     b_fell_from := pb_fell_from s, b_fell_reason := pb_fell_reason s, b_node := pb_node s \<rparr>"

definition valid_escalation_step :: "ban_snapshot \<Rightarrow> bool" where
  "valid_escalation_step s \<longleftrightarrow>
     0 < length (pb_escalation s) \<and> 0 \<le> pb_step s \<and> pb_step s < int (length (pb_escalation s))"

text \<open>The view to re-announce: the rung's, or that of the method the ban had fallen back to.\<close>

definition reannounce_view :: "ban \<Rightarrow> stage_view" where
  "reannounce_view b =
     (let v = stage_view_of b (b_escalation b ! b_step b) in
      if b_method b \<noteq> NoMethod \<and> b_method b \<noteq> v_method v then
        (case b_method b of
           MitigateBlackhole \<Rightarrow> blackhole_stage_view b
         | MitigateFlowSpec \<Rightarrow>
             \<lparr> v_method = MitigateFlowSpec, v_route = flowspec_summary (b_rules b), v_attrs = no_attrs \<rparr>
         | _ \<Rightarrow> v)
      else v)"

definition reannounce :: "backend \<Rightarrow> nanos \<Rightarrow> config \<Rightarrow> ban \<Rightarrow> io \<Rightarrow> bool \<times> ban \<times> io" where
  "reannounce be now cfg b s =
     (let v = reannounce_view b in
      case announce_method be now cfg b (v_method v) (v_attrs v) s of
        (Some e, b', s') \<Rightarrow> (False, b', s')
      | (None, b', s') \<Rightarrow> (True, set_active_stage (b_step b') v b', s'))"

definition fraction_allows :: "config \<Rightarrow> mit \<Rightarrow> bool \<Rightarrow> f64 \<Rightarrow> bool" where
  "fraction_allows cfg m six addrs =
     (if fle (max_banned_fraction (c_ban cfg)) (Fin 0) then True
      else let total = protected_addrs cfg six in
        if fle total (Fin 0) then True
        else fle (fdiv (fadd (active_addresses_by_family m six) addrs) total) (max_banned_fraction (c_ban cfg)))"

definition snapshot_expired :: "nanos \<Rightarrow> ban_snapshot \<Rightarrow> bool" where
  "snapshot_expired now s \<longleftrightarrow> \<not> is_zero_time (pb_expires s) \<and> pb_expires s < now"

text \<open>The last part of restoring a ban: freeze it under the new configuration, re-announce, enter.\<close>

definition restore_ban ::
  "backend \<Rightarrow> nanos \<Rightarrow> config \<Rightarrow> group \<Rightarrow> addr \<Rightarrow> (ban \<Rightarrow> mit \<Rightarrow> mit) \<Rightarrow> ban \<Rightarrow> mit \<Rightarrow> mit" where
  "restore_ban be now cfg g target put b0 m =
     (let b = freeze_unicast_attrs now (m_nodes m) cfg g target (b0 \<lparr> b_dry_run := c_dry_run cfg \<rparr>);
          (ok, b', s) = reannounce be now cfg b (m_io m)
      in if ok then put b' (m \<lparr> m_io := s \<rparr>) else m \<lparr> m_io := s \<rparr>)"

definition host_refused :: "nanos \<Rightarrow> config \<Rightarrow> ban_snapshot \<Rightarrow> mit \<Rightarrow> bool" where
  "host_refused now cfg s m =
     (let target = pb_target s in
      if \<not> addr_valid target then True
      else if snapshot_expired now s then True
      else if is_whitelisted cfg target then True
      else if \<not> in_networks cfg target then True
      else if max_active_bans (c_ban cfg) \<le> int (active_count m) then True
      else if \<not> fraction_allows cfg m (is6 target) (address_count_for_prefix (host_prefix target)) then True
      else \<not> valid_escalation_step s)"

definition rehydrate_host :: "backend \<Rightarrow> nanos \<Rightarrow> config \<Rightarrow> ban_snapshot \<Rightarrow> mit \<Rightarrow> mit" where
  "rehydrate_host be now cfg s m =
     (if host_refused now cfg s m then m
      else restore_ban be now cfg (group_for cfg (pb_target s)) (pb_target s) (put_ban (pb_target s))
             (ban_from_snapshot s (host_prefix (pb_target s))) m)"

text \<open>The checks before the carpet cap, which reads \<^verbatim>\<open>cfg.Carpet\<close> without a nil check.\<close>

definition prefix_refused :: "nanos \<Rightarrow> config \<Rightarrow> ban_snapshot \<Rightarrow> bool" where
  "prefix_refused now cfg s =
     (let p = pb_prefix s in
      if \<not> pfx_valid p then True
      else if snapshot_expired now s then True
      else if prefix_contains_whitelisted cfg p then True
      else \<not> prefix_in_networks cfg p)"

definition rehydrate_prefix :: "backend \<Rightarrow> nanos \<Rightarrow> config \<Rightarrow> ban_snapshot \<Rightarrow> mit \<Rightarrow> mit outcome" where
  "rehydrate_prefix be now cfg s m =
     (let p = pb_prefix s in
      if prefix_refused now cfg s then Done m
      else case c_carpet cfg of
        None \<Rightarrow> Crash
      | Some cp \<Rightarrow>
          if cp_max_active cp \<le> int (active_prefix_bans m) then Done m
          else if \<not> fraction_allows cfg m (is6 (pfx_addr p)) (address_count_for_prefix p) then Done m
          else if \<not> valid_escalation_step s then Done m
          else Done (restore_ban be now cfg (c_groups cfg ! 0) (pfx_addr p) (put_pban p) (ban_from_snapshot s p) m))"

fun rehydrate_prefixes :: "backend \<Rightarrow> nanos \<Rightarrow> config \<Rightarrow> ban_snapshot list \<Rightarrow> mit \<Rightarrow> mit outcome" where
  "rehydrate_prefixes be now cfg [] m = Done m"
| "rehydrate_prefixes be now cfg (s # ss) m =
     (case rehydrate_prefix be now cfg s m of
        Crash \<Rightarrow> Crash | Done m' \<Rightarrow> rehydrate_prefixes be now cfg ss m')"

definition source_refused :: "backend \<Rightarrow> nanos \<Rightarrow> config \<Rightarrow> source_snapshot \<Rightarrow> src_state \<Rightarrow> bool" where
  "source_refused be now cfg s ss =
     (let source = unmap (sb_source s); victim = unmap (sb_victim s) in
      if \<not> addr_valid source \<or> \<not> addr_valid victim \<or> is4 victim \<noteq> is4 source then True
      else if sb_expires s < now then True
      else if source_block_policy be cfg victim source \<noteq> None then True
      else case tget (ss_blocks ss) source of
        None \<Rightarrow> sb_auto s \<and> fp_source_anchor_budget cfg \<le> int (length (ss_fp ss))
      | Some pairs \<Rightarrow> tget pairs victim = None \<and> max_rules_per_attack \<le> length pairs)"

definition rehydrate_source :: "backend \<Rightarrow> nanos \<Rightarrow> config \<Rightarrow> source_snapshot \<Rightarrow> src_state \<Rightarrow> src_state" where
  "rehydrate_source be now cfg s ss =
     (if source_refused be now cfg s ss then ss
      else let source = unmap (sb_source s); victim = unmap (sb_victim s) in
        entered victim source (sb_auto s)
          \<lparr> sb_source = source, sb_victim = victim, sb_created = sb_created s, sb_expires = sb_expires s,
            sb_dry_run = c_dry_run cfg, sb_auto = sb_auto s, sb_reason = sb_reason s \<rparr> ss)"

definition reinstall_all :: "backend \<Rightarrow> nanos \<Rightarrow> addr list \<Rightarrow> src_state \<times> io \<Rightarrow> src_state \<times> io" where
  "reinstall_all be now sources st = fold (\<lambda>source st. snd (reinstall_source be now source st)) sources st"

text \<open>\<open>None\<close> is a mitigator without a state file.\<close>

definition rehydrate :: "backend \<Rightarrow> nanos \<Rightarrow> config \<Rightarrow> disk option \<Rightarrow> mit \<Rightarrow> mit outcome" where
  "rehydrate be now cfg file m = (case file of
     None \<Rightarrow> Done m
   | Some d \<Rightarrow> (case load d of
       Inl e \<Rightarrow> Done m
     | Inr st \<Rightarrow>
         if ps_hosts st = [] \<and> ps_prefixes st = [] \<and> ps_sources st = [] then Done m
         else case rehydrate_prefixes be now cfg (ps_prefixes st) (fold (rehydrate_host be now cfg) (ps_hosts st) m) of
           Crash \<Rightarrow> Crash
         | Done m1 \<Rightarrow>
             let ss = fold (rehydrate_source be now cfg) (ps_sources st) (m_src m1);
                 (ss', s) = reinstall_all be now (map fst (ss_blocks ss)) (ss, m_io m1)
             in Done (m1 \<lparr> m_src := ss', m_io := s \<rparr>)))"

end
