(* ===== verification/Restart.thy ===== *)
theory Restart
  imports SystemSteps Persist
begin

text \<open>
  Restarts (\<^verbatim>\<open>src/engine/internal/mitigate/persist.go\<close>): what rehydration restores from any file, that
  it keeps the invariant \<open>good\<close> when the file was written by a process that had it, and \<open>reachable\<close>,
  the states of a mitigator that runs, restarts and runs again.
\<close>

section \<open>Restoring one ban\<close>

lemma announce_method_quiet:
  "announce_method be now cfg b m attrs s = (e, b', s') \<Longrightarrow> c_dry_run cfg \<Longrightarrow> io_log s' = io_log s"
  by (simp add: announce_method_dry)

lemma reannounce_facts:
  assumes "reannounce be now cfg b s = (ok, b', s')"
  shows "same_ban b b' \<and> b_step b' = b_step b"
    and "anchored b \<Longrightarrow> emits s s' (call_about (b_prefix b))"
    and "c_dry_run cfg \<Longrightarrow> io_log s' = io_log s \<and> ok"
    and "ok \<Longrightarrow> b_method b' = v_method (reannounce_view b)"
    and "ok \<Longrightarrow> \<not> c_dry_run cfg \<Longrightarrow> enforced b' (b_method b') (io_log s')"
proof -
  let ?v = "reannounce_view b"
  obtain e b1 s1 where a: "announce_method be now cfg b (v_method ?v) (v_attrs ?v) s = (e, b1, s1)"
    by (cases "announce_method be now cfg b (v_method ?v) (v_attrs ?v) s") auto
  have r: "ok = (e = None)" "s' = s1" "b' = (if e = None then set_active_stage (b_step b1) ?v b1 else b1)"
    using assms a by (auto simp: reannounce_def Let_def split: option.splits)
  have f: "same_ban b b1" "b_method b1 = b_method b" "b_step b1 = b_step b" using announce_method_frame [OF a] by auto
  show same: "same_ban b b' \<and> b_step b' = b_step b" using f r(3) by (simp add: set_active_stage_def same_ban_def)
  show "anchored b \<Longrightarrow> emits s s' (call_about (b_prefix b))"
    using own_calls_about [OF announce_method_own [OF a]] r(2) by simp
  show "c_dry_run cfg \<Longrightarrow> io_log s' = io_log s \<and> ok" using a r by (simp add: announce_method_dry)
  show m: "ok \<Longrightarrow> b_method b' = v_method ?v" using r by (simp add: set_active_stage_def)
  show "enforced b' (b_method b') (io_log s')" if o: ok and l: "\<not> c_dry_run cfg"
    using announce_method_stands [OF a [unfolded o [unfolded r(1)]] l] enforced_same [OF conjunct1 [OF same]] m [OF o] r(2)
    by simp
qed

text \<open>The ban that is re-announced, and the two outcomes.\<close>

definition refrozen :: "nanos \<Rightarrow> config \<Rightarrow> group \<Rightarrow> addr \<Rightarrow> ban \<Rightarrow> mit \<Rightarrow> ban" where
  "refrozen now cfg g target b0 m = freeze_unicast_attrs now (m_nodes m) cfg g target (b0 \<lparr> b_dry_run := c_dry_run cfg \<rparr>)"

lemma refrozen_frame:
  "b_target (refrozen now cfg g t b m) = b_target b" "b_prefix (refrozen now cfg g t b m) = b_prefix b"
  "b_state (refrozen now cfg g t b m) = b_state b" "b_dry_run (refrozen now cfg g t b m) = c_dry_run cfg"
  "b_rules (refrozen now cfg g t b m) = b_rules b" "b_escalation (refrozen now cfg g t b m) = b_escalation b"
  "b_expires (refrozen now cfg g t b m) = b_expires b" "b_started (refrozen now cfg g t b m) = b_started b"
  "b_manual (refrozen now cfg g t b m) = b_manual b" "b_step (refrozen now cfg g t b m) = b_step b"
  "b_method (refrozen now cfg g t b m) = b_method b"
  using freeze_frame [of now "m_nodes m" cfg g t "b \<lparr> b_dry_run := c_dry_run cfg \<rparr>"] by (auto simp: refrozen_def Let_def)

lemma restore_cases:
  assumes "restore_ban be now cfg g t put b0 m = m'"
  obtains (failed) b' s where "reannounce be now cfg (refrozen now cfg g t b0 m) (m_io m) = (False, b', s)" "m' = m \<lparr> m_io := s \<rparr>"
  | (restored) b' s where "reannounce be now cfg (refrozen now cfg g t b0 m) (m_io m) = (True, b', s)" "m' = put b' (m \<lparr> m_io := s \<rparr>)"
proof -
  obtain ok b' s where r: "reannounce be now cfg (refrozen now cfg g t b0 m) (m_io m) = (ok, b', s)"
    by (cases "reannounce be now cfg (refrozen now cfg g t b0 m) (m_io m)") auto
  then have "m' = (if ok then put b' (m \<lparr> m_io := s \<rparr>) else m \<lparr> m_io := s \<rparr>)"
    using assms by (simp add: restore_ban_def refrozen_def)
  then show thesis using r failed restored by (cases ok) auto
qed

lemma host_refused_iff:
  "host_refused now cfg s m \<longleftrightarrow> \<not> (addr_valid (pb_target s) \<and> \<not> snapshot_expired now s
     \<and> \<not> is_whitelisted cfg (pb_target s) \<and> in_networks cfg (pb_target s)
     \<and> int (active_count m) < max_active_bans (c_ban cfg)
     \<and> fraction_allows cfg m (is6 (pb_target s)) (address_count_for_prefix (host_prefix (pb_target s)))
     \<and> valid_escalation_step s)"
  by (auto simp: host_refused_def Let_def)

lemma prefix_refused_iff:
  "prefix_refused now cfg s \<longleftrightarrow> \<not> (pfx_valid (pb_prefix s) \<and> \<not> snapshot_expired now s
     \<and> \<not> prefix_contains_whitelisted cfg (pb_prefix s) \<and> prefix_in_networks cfg (pb_prefix s))"
  by (auto simp: prefix_refused_def Let_def)

lemma ban_from_snapshot_sel:
  "b_target (ban_from_snapshot s p) = pb_target s" "b_prefix (ban_from_snapshot s p) = p"
  "b_state (ban_from_snapshot s p) = BanActive" "b_rules (ban_from_snapshot s p) = pb_rules s"
  "b_escalation (ban_from_snapshot s p) = pb_escalation s" "b_expires (ban_from_snapshot s p) = pb_expires s"
  "b_started (ban_from_snapshot s p) = pb_started s" "b_manual (ban_from_snapshot s p) = pb_manual s"
  "b_step (ban_from_snapshot s p) = nat (pb_step s)" "b_method (ban_from_snapshot s p) = pb_method s"
  by (simp_all add: ban_from_snapshot_def)

lemmas restored_sel = refrozen_frame ban_from_snapshot_sel

lemma rehydrate_prefix_cases:
  assumes "rehydrate_prefix be now cfg s m = Done m'"
  obtains (refused) "m' = m"
  | (tried) cp where "c_carpet cfg = Some cp" "int (active_prefix_bans m) < cp_max_active cp" "\<not> prefix_refused now cfg s"
      "valid_escalation_step s"
      "restore_ban be now cfg (c_groups cfg ! 0) (pfx_addr (pb_prefix s)) (put_pban (pb_prefix s))
         (ban_from_snapshot s (pb_prefix s)) m = m'"
  using assms by (auto simp: rehydrate_prefix_def Let_def split: if_splits option.splits)

section \<open>What any file gives\<close>

text \<open>A restored ban obeys the rules of the new process's configuration.\<close>

definition host_lawful :: "nanos \<Rightarrow> config \<Rightarrow> addr \<times> ban \<Rightarrow> bool" where
  "host_lawful now cfg e \<longleftrightarrow> is_active (snd e) \<and> b_target (snd e) = fst e \<and> b_prefix (snd e) = host_prefix (fst e)
     \<and> in_networks cfg (fst e) \<and> \<not> is_whitelisted cfg (fst e) \<and> b_dry_run (snd e) = c_dry_run cfg \<and> \<not> expired now (snd e)"

definition pfx_lawful :: "nanos \<Rightarrow> config \<Rightarrow> prefix \<times> ban \<Rightarrow> bool" where
  "pfx_lawful now cfg e \<longleftrightarrow> is_active (snd e) \<and> b_prefix (snd e) = fst e \<and> prefix_in_networks cfg (fst e)
     \<and> \<not> prefix_contains_whitelisted cfg (fst e) \<and> b_dry_run (snd e) = c_dry_run cfg \<and> \<not> expired now (snd e)"

definition lawful :: "nanos \<Rightarrow> config \<Rightarrow> mit \<Rightarrow> bool" where
  "lawful now cfg m \<longleftrightarrow> list_all (host_lawful now cfg) (m_bans m) \<and> list_all (pfx_lawful now cfg) (m_pbans m)
     \<and> caps_inv cfg m \<and> (c_dry_run cfg \<longrightarrow> io_log (m_io m) = [])"

lemma tcount_put_room: "int (tcount P t) < n \<Longrightarrow> int (tcount P (tput k v t)) \<le> n"
  using tcount_tput_le [of P k v t] by simp

lemma same_ban_sel: "same_ban b b' \<Longrightarrow> b_target b' = b_target b \<and> b_prefix b' = b_prefix b \<and> b_state b' = b_state b
    \<and> b_dry_run b' = b_dry_run b \<and> b_expires b' = b_expires b"
  by (simp add: same_ban_def)

lemma restored_live:
  assumes "reannounce be now cfg (refrozen now cfg g t (ban_from_snapshot s p) m) st = (ok, b', st')" "\<not> snapshot_expired now s"
  shows "is_active b' \<and> b_target b' = pb_target s \<and> b_prefix b' = p \<and> b_dry_run b' = c_dry_run cfg \<and> \<not> expired now b'"
  using same_ban_sel [OF conjunct1 [OF reannounce_facts(1) [OF assms(1)]]] assms(2)
  by (simp add: restored_sel is_active_def expired_def snapshot_expired_def)

lemma rehydrate_host_lawful: "lawful now cfg m \<Longrightarrow> lawful now cfg (rehydrate_host be now cfg s m)"
proof -
  assume l: "lawful now cfg m"
  show ?thesis
  proof (cases "host_refused now cfg s m")
    case False
    note ok = False [unfolded host_refused_iff not_not]
    have "restore_ban be now cfg (group_for cfg (pb_target s)) (pb_target s) (put_ban (pb_target s))
        (ban_from_snapshot s (host_prefix (pb_target s))) m = rehydrate_host be now cfg s m"
      using False by (simp add: rehydrate_host_def)
    then show ?thesis
    proof (cases rule: restore_cases)
      case (failed b' st)
      then show ?thesis using l reannounce_facts(3) [OF failed(1)]
        by (auto simp: lawful_def caps_inv_def active_count_def active_prefix_bans_def)
    next
      case (restored b' st)
      have b: "host_lawful now cfg (pb_target s, b')" using restored_live [OF restored(1)] ok by (simp add: host_lawful_def)
      show ?thesis
        using l b reannounce_facts(3) [OF restored(1)] ok tcount_put_room
        by (auto simp: restored(2) lawful_def put_ban_def caps_inv_def active_count_def active_prefix_bans_def
            intro: list_all_tputI)
    qed
  qed (use l in \<open>simp add: rehydrate_host_def\<close>)
qed

lemma rehydrate_prefix_lawful: "rehydrate_prefix be now cfg s m = Done m' \<Longrightarrow> lawful now cfg m \<Longrightarrow> lawful now cfg m'"
proof (erule rehydrate_prefix_cases)
  fix cp assume l: "lawful now cfg m" and c: "c_carpet cfg = Some cp" "int (active_prefix_bans m) < cp_max_active cp"
    and r: "\<not> prefix_refused now cfg s"
    and b: "restore_ban be now cfg (c_groups cfg ! 0) (pfx_addr (pb_prefix s)) (put_pban (pb_prefix s))
         (ban_from_snapshot s (pb_prefix s)) m = m'"
  note ok = r [unfolded prefix_refused_iff not_not]
  from b show "lawful now cfg m'"
  proof (cases rule: restore_cases)
    case (failed b' st)
    then show ?thesis using l reannounce_facts(3) [OF failed(1)]
      by (auto simp: lawful_def caps_inv_def active_count_def active_prefix_bans_def)
  next
    case (restored b' st)
    have "pfx_lawful now cfg (pb_prefix s, b')" using restored_live [OF restored(1)] ok by (simp add: pfx_lawful_def)
    then show ?thesis
      using l reannounce_facts(3) [OF restored(1)] c tcount_put_room
      by (auto simp: restored(2) lawful_def put_pban_def caps_inv_def active_count_def active_prefix_bans_def
          intro: list_all_tputI)
  qed
qed simp

text \<open>The pairs of the source table, before and after the reinstallation.\<close>

definition pair_lawful :: "backend \<Rightarrow> nanos \<Rightarrow> config \<Rightarrow> addr \<Rightarrow> addr \<times> source_block \<Rightarrow> bool" where
  "pair_lawful be now cfg source p \<longleftrightarrow> pair_ok be cfg source p \<and> now \<le> sb_expires (snd p)
     \<and> sb_dry_run (snd p) = c_dry_run cfg"

definition pairs_lawful :: "backend \<Rightarrow> nanos \<Rightarrow> config \<Rightarrow> src_state \<Rightarrow> bool" where
  "pairs_lawful be now cfg ss \<longleftrightarrow> (\<forall>s. list_all (pair_lawful be now cfg s) (pairs_of ss s))"

lemma source_refused_not:
  assumes "\<not> source_refused be now cfg s ss"
  shows "addr_valid (unmap (sb_source s))" "addr_valid (unmap (sb_victim s))"
    "is4 (unmap (sb_victim s)) = is4 (unmap (sb_source s))" "now \<le> sb_expires s"
    "source_block_policy be cfg (unmap (sb_victim s)) (unmap (sb_source s)) = None"
    "tget (pairs_of ss (unmap (sb_source s))) (unmap (sb_victim s)) = None \<longrightarrow>
       length (pairs_of ss (unmap (sb_source s))) < max_rules_per_attack"
    "tget (ss_blocks ss) (unmap (sb_source s)) = None \<longrightarrow> sb_auto s \<longrightarrow> int (length (ss_fp ss)) < fp_source_anchor_budget cfg"
  using assms
  by (auto simp: source_refused_def Let_def pairs_of_def max_rules_per_attack_def split: if_splits option.splits)

lemma rehydrate_source_lawful:
  assumes "pairs_lawful be now cfg ss"
  shows "pairs_lawful be now cfg (rehydrate_source be now cfg s ss)"
proof (cases "source_refused be now cfg s ss")
  case False
  note ok = source_refused_not [OF False]
  show ?thesis
    using assms ok False
    by (auto simp: rehydrate_source_def Let_def pairs_lawful_def pairs_of_entered pair_lawful_def pair_ok_def
        intro!: list_all_tput)
qed (use assms in \<open>simp add: rehydrate_source_def\<close>)

lemma fold_inv: "P x \<Longrightarrow> (\<And>a x. a \<in> set l \<Longrightarrow> P x \<Longrightarrow> P (f a x)) \<Longrightarrow> P (fold f l x)"
  by (induction l arbitrary: x) auto

lemma reinstall_all_Cons:
  "reinstall_all be now (k # ks) (ss, s) =
   (case reinstall_source be now k (ss, s) of (e, ss', s') \<Rightarrow> reinstall_all be now ks (ss', s'))"
  by (cases "reinstall_source be now k (ss, s)") (simp add: reinstall_all_def)

lemma reinstall_all_pairs:
  "reinstall_all be now ks (ss, s) = (ss', s') \<Longrightarrow> set (pairs_of ss' k) \<subseteq> set (pairs_of ss k)"
proof (induction ks arbitrary: ss s)
  case (Cons x ks)
  obtain e ss1 s1 where r: "reinstall_source be now x (ss, s) = (e, ss1, s1)"
    by (cases "reinstall_source be now x (ss, s)") auto
  have "set (pairs_of ss1 k) \<subseteq> set (pairs_of ss k)" using reinstall_pairs [OF r, of k] by auto
  then show ?case using Cons.IH [of ss1 s1] Cons.prems r by (auto simp: reinstall_all_Cons)
qed (simp add: reinstall_all_def)

lemma reinstall_all_quiet:
  "reinstall_all be now ks (ss, s) = (ss', s') \<Longrightarrow> quiet_src ss \<Longrightarrow> ss' = ss \<and> s' = s"
proof (induction ks arbitrary: ss s)
  case (Cons x ks)
  obtain e ss1 s1 where r: "reinstall_source be now x (ss, s) = (e, ss1, s1)"
    by (cases "reinstall_source be now x (ss, s)") auto
  then show ?case using Cons reinstall_quiet [OF r] by (simp add: reinstall_all_Cons)
qed (simp add: reinstall_all_def)

lemma rehydrate_source_installed [simp]: "ss_installed (rehydrate_source be now cfg s ss) = ss_installed ss"
  by (simp add: rehydrate_source_def Let_def entered_def)

lemma fold_rehydrate_installed [simp]: "ss_installed (fold (rehydrate_source be now cfg) l ss) = ss_installed ss"
  by (induction l arbitrary: ss) auto

lemma lawful_quiet: "pairs_lawful be now cfg ss \<Longrightarrow> c_dry_run cfg \<Longrightarrow> ss_installed ss = [] \<Longrightarrow> quiet_src ss"
  by (auto simp: quiet_src_def pairs_lawful_def pair_lawful_def list_all_iff)

text \<open>The three phases of a rehydration that had something to do.\<close>

lemma rehydrate_cases:
  assumes "rehydrate be now cfg file m = Done m'"
  obtains (unread) "m' = m" "\<forall>d st. file = Some d \<longrightarrow> load d = Inr st \<longrightarrow> ps_hosts st = []"
  | (document) d st m1 ss ss' s where "file = Some d" "load d = Inr st"
      "rehydrate_prefixes be now cfg (ps_prefixes st) (fold (rehydrate_host be now cfg) (ps_hosts st) m) = Done m1"
      "ss = fold (rehydrate_source be now cfg) (ps_sources st) (m_src m1)"
      "reinstall_all be now (map fst (ss_blocks ss)) (ss, m_io m1) = (ss', s)"
      "m' = m1 \<lparr> m_src := ss', m_io := s \<rparr>"
proof (cases "\<exists>d st. file = Some d \<and> load d = Inr st \<and> \<not> (ps_hosts st = [] \<and> ps_prefixes st = [] \<and> ps_sources st = [])")
  case False
  then have "m' = m" using assms by (auto simp: rehydrate_def split: option.splits sum.splits if_splits)
  then show thesis by (rule unread) (use False in blast)
next
  case True
  then obtain d st where d: "file = Some d" "load d = Inr st"
    "\<not> (ps_hosts st = [] \<and> ps_prefixes st = [] \<and> ps_sources st = [])" by blast
  let ?r = "rehydrate_prefixes be now cfg (ps_prefixes st) (fold (rehydrate_host be now cfg) (ps_hosts st) m)"
  show thesis
  proof (cases ?r)
    case Crash
    then show ?thesis using assms d by (simp add: rehydrate_def)
  next
    case (Done m1)
    let ?ss = "fold (rehydrate_source be now cfg) (ps_sources st) (m_src m1)"
    obtain ss' s where r: "reinstall_all be now (map fst (ss_blocks ?ss)) (?ss, m_io m1) = (ss', s)"
      by (cases "reinstall_all be now (map fst (ss_blocks ?ss)) (?ss, m_io m1)")
    have "rehydrate be now cfg file m = Done (m1 \<lparr> m_src := ss', m_io := s \<rparr>)"
      by (simp only: rehydrate_def d(1,2) option.case sum.case if_not_P [OF d(3)] Done outcome.case Let_def r prod.case)
    then have "m' = m1 \<lparr> m_src := ss', m_io := s \<rparr>" using assms by simp
    then show ?thesis by (rule document [OF d(1,2) Done refl r])
  qed
qed

lemma rehydrate_prefixes_inv:
  "rehydrate_prefixes be now cfg l m = Done m' \<Longrightarrow> P m \<Longrightarrow>
   (\<And>s m m'. s \<in> set l \<Longrightarrow> P m \<Longrightarrow> rehydrate_prefix be now cfg s m = Done m' \<Longrightarrow> P m') \<Longrightarrow> P m'"
proof (induction l arbitrary: m)
  case (Cons s l)
  obtain m1 where "rehydrate_prefix be now cfg s m = Done m1" "rehydrate_prefixes be now cfg l m1 = Done m'"
    using Cons.prems(1) by (auto split: outcome.splits)
  moreover have "P m1" by (rule Cons.prems(3) [OF _ Cons.prems(2) calculation(1)]) simp
  ultimately show ?case by (intro Cons.IH [of m1]) (auto intro: Cons.prems(3))
qed simp

lemma restore_src: "restore_ban be now cfg g t put b m = m' \<Longrightarrow> (\<And>b m. m_src (put b m) = m_src m) \<Longrightarrow> m_src m' = m_src m"
  by (erule restore_cases) auto

lemma rehydrate_host_src: "m_src (rehydrate_host be now cfg s m) = m_src m"
  by (auto simp: rehydrate_host_def put_ban_def intro: restore_src [OF refl])

lemma rehydrate_prefix_src: "rehydrate_prefix be now cfg s m = Done m' \<Longrightarrow> m_src m' = m_src m"
  by (erule rehydrate_prefix_cases) (auto simp: put_pban_def intro: restore_src [OF refl])

lemma rehydrated_src:
  assumes "rehydrate_prefixes be now cfg ps (fold (rehydrate_host be now cfg) hs m) = Done m1"
  shows "m_src m1 = m_src m"
proof -
  have "m_src (fold (rehydrate_host be now cfg) hs m) = m_src m"
    by (rule fold_inv [where P = "\<lambda>x. m_src x = m_src m"]) (simp_all add: rehydrate_host_src)
  then show ?thesis
    by (intro rehydrate_prefixes_inv [OF assms, where P = "\<lambda>x. m_src x = m_src m"]) (simp_all add: rehydrate_prefix_src)
qed

lemma rehydrate_lawful:
  assumes "rehydrate be now cfg file mit_new = Done m'"
  shows "lawful now cfg m' \<and> pairs_lawful be now cfg (m_src m')"
  using assms
proof (cases rule: rehydrate_cases)
  case unread
  then show ?thesis
    by (auto simp: lawful_def caps_inv_def mit_new_def active_count_def active_prefix_bans_def pairs_lawful_def pairs_of_def
        src_empty_def split: option.split)
next
  case (document d st m1 ss ss' s)
  have "lawful now cfg mit_new"
    by (auto simp: lawful_def caps_inv_def mit_new_def active_count_def active_prefix_bans_def split: option.split)
  then have "lawful now cfg (fold (rehydrate_host be now cfg) (ps_hosts st) mit_new)"
    by (rule fold_inv) (rule rehydrate_host_lawful)
  then have l: "lawful now cfg m1" by (rule rehydrate_prefixes_inv [OF document(3)]) (rule rehydrate_prefix_lawful)
  have src: "m_src m1 = src_empty" using rehydrated_src [OF document(3)] by (simp add: mit_new_def)
  have "pairs_lawful be now cfg src_empty" by (simp add: pairs_lawful_def pairs_of_def src_empty_def)
  then have p: "pairs_lawful be now cfg ss"
    unfolding document(4) src by (rule fold_inv) (rule rehydrate_source_lawful)
  have p': "pairs_lawful be now cfg ss'"
    using p reinstall_all_pairs [OF document(5)] unfolding pairs_lawful_def list_all_iff by blast
  have "quiet_src ss" if "c_dry_run cfg"
    using lawful_quiet [OF p that] document(4) src by (simp add: src_empty_def)
  then have "c_dry_run cfg \<longrightarrow> io_log s = []"
    using reinstall_all_quiet [OF document(5)] l by (auto simp: lawful_def)
  then show ?thesis using l p' document(6)
    by (simp add: lawful_def caps_inv_def active_count_def active_prefix_bans_def)
qed

section \<open>When a restart crashes\<close>

lemma rehydrate_prefix_Crash:
  "rehydrate_prefix be now cfg s m = Crash \<longleftrightarrow> c_carpet cfg = None \<and> \<not> prefix_refused now cfg s"
  by (auto simp: rehydrate_prefix_def Let_def split: option.splits)

lemma rehydrate_prefixes_Crash:
  "rehydrate_prefixes be now cfg l m = Crash \<longleftrightarrow> c_carpet cfg = None \<and> (\<exists>s \<in> set l. \<not> prefix_refused now cfg s)"
proof (induction l arbitrary: m)
  case (Cons s l)
  show ?case using rehydrate_prefix_Crash [of be now cfg s m] Cons.IH
    by (cases "rehydrate_prefix be now cfg s m") auto
qed simp

lemma rehydrate_Crash:
  "rehydrate be now cfg (Some d) m = Crash \<longleftrightarrow> c_carpet cfg = None
     \<and> (\<exists>st. load d = Inr st \<and> (\<exists>s \<in> set (ps_prefixes st). \<not> prefix_refused now cfg s))"
proof (cases "load d")
  case (Inr st)
  let ?r = "rehydrate_prefixes be now cfg (ps_prefixes st) (fold (rehydrate_host be now cfg) (ps_hosts st) m)"
  have "rehydrate be now cfg (Some d) m = Crash \<longleftrightarrow> ps_prefixes st \<noteq> [] \<and> ?r = Crash"
    using Inr by (cases ?r) (auto simp: rehydrate_def Let_def split: prod.splits)
  then show ?thesis using rehydrate_prefixes_Crash [of be now cfg "ps_prefixes st"] Inr by auto
qed (simp add: rehydrate_def)

section \<open>A file the mitigator wrote\<close>

text \<open>What a snapshot of a good state promises, whatever the configuration it was taken under.\<close>

definition written_hosts :: "ban_snapshot list \<Rightarrow> bool" where
  "written_hosts l \<longleftrightarrow> distinct (map pb_target l) \<and>
     list_all (\<lambda>s. list_all (\<lambda>r. rule_anchor r = host_prefix (pb_target s)) (pb_rules s)) l"

definition written_prefixes :: "ban_snapshot list \<Rightarrow> bool" where
  "written_prefixes l \<longleftrightarrow> distinct (map pb_prefix l) \<and>
     list_all (\<lambda>s. list_all (\<lambda>r. rule_anchor r = pb_prefix s) (pb_rules s)
       \<and> pfx_bits (pb_prefix s) < int (bit_len (pfx_addr (pb_prefix s)))) l"

definition written_sources :: "config \<Rightarrow> source_snapshot list \<Rightarrow> bool" where
  "written_sources cfg l \<longleftrightarrow> list_all (\<lambda>b. \<not> has_zone (sb_source b) \<and> \<not> has_zone (sb_victim b)) l
     \<and> int (card (sb_source ` set l)) \<le> max 0 (source_anchor_budget cfg)"

text \<open>A restored host ban joins a good table.\<close>

lemma good_free_io:
  assumes g: "good be cfg m" and p: "\<not> prefix_contains_whitelisted cfg p" and calls: "emits (m_io m) s (call_about p)"
    and hosts: "\<And>k b. (k, b) \<in> set (m_bans m) \<Longrightarrow> b_prefix b \<noteq> p"
    and pfxs: "\<And>k b. (k, b) \<in> set (m_pbans m) \<Longrightarrow> b_prefix b \<noteq> p"
    and quiet: "c_dry_run cfg \<Longrightarrow> io_log s = io_log (m_io m)"
  shows "good be cfg (m \<lparr> m_io := s \<rparr>)"
proof (rule good_io [OF g p calls _ quiet])
  show "b_prefix b \<noteq> p" if "b \<in> all_bans m" for b
    using that hosts pfxs unfolding all_bans_def by (metis UnE imageE prod.collapse)
qed

lemma entries:
  assumes "good be cfg m"
  shows "(k, b) \<in> set (m_bans m) \<Longrightarrow> host_entry cfg (k, b)" "(p, c) \<in> set (m_pbans m) \<Longrightarrow> pfx_entry cfg (p, c)"
    "table_ok (m_bans m)" "table_ok (m_pbans m)"
  using assms by (auto simp: good_def shape_inv_def list_all_iff)

lemma rehydrate_host_good:
  assumes g: "good be cfg m" and w: "list_all (\<lambda>r. rule_anchor r = host_prefix (pb_target s)) (pb_rules s)"
    and free: "tget (m_bans m) (pb_target s) = None"
  shows "good be cfg (rehydrate_host be now cfg s m)"
proof (cases "host_refused now cfg s m")
  case False
  note ok = False [unfolded host_refused_iff not_not]
  let ?a = "pb_target s" and ?b = "ban_from_snapshot s (host_prefix (pb_target s))"
  let ?f = "refrozen now cfg (group_for cfg ?a) ?a ?b m"
  have anch: "anchored ?f" "b_prefix ?f = host_prefix ?a"
    using w by (simp_all add: anchored_def restored_sel list_all_iff)
  have d: "host_entry cfg (?a, ?f)"
    using ok anch by (simp add: host_entry_def host_shape_def restored_sel)
  have others: "b_prefix c \<noteq> host_prefix ?a" if "(k, c) \<in> set (m_bans m)" for k c
  proof -
    have "k \<noteq> ?a" using free in_set_tget [OF entries(3) [OF g] that] by auto
    then show ?thesis using host_entries_differ [OF entries(1) [OF g that] d] anch by simp
  qed
  have pfxs: "b_prefix c \<noteq> host_prefix ?a" if "(k, c) \<in> set (m_pbans m)" for k c
    using entry_prefixes_differ [OF d entries(2) [OF g that]] anch by simp
  have "restore_ban be now cfg (group_for cfg ?a) ?a (put_ban ?a) ?b m = rehydrate_host be now cfg s m"
    using False by (simp add: rehydrate_host_def)
  then show ?thesis
  proof (cases rule: restore_cases)
    case (failed b' st)
    note r = reannounce_facts [OF failed(1)]
    have em: "emits (m_io m) st (call_about (host_prefix ?a))" using r(2) [OF anch(1)] anch(2) by simp
    show ?thesis
      unfolding failed(2)
      by (rule good_free_io [OF g _ em others pfxs]) (use host_entry_spared [OF d] anch(2) r(3) in auto)
  next
    case (restored b' st)
    note r = reannounce_facts [OF restored(1)]
    have entry: "host_entry cfg (?a, b')"
      using d same_ban_sel [OF conjunct1 [OF r(1)]] host_shape_same [OF conjunct1 [OF r(1)]] by (simp add: host_entry_def)
    show ?thesis
      unfolding restored(2)
    proof (rule good_put_host [OF g entry])
      show "emits (m_io m) st (call_about (host_prefix ?a))" using r(2) [OF anch(1)] anch(2) by simp
    qed (use ok r(3,5) in \<open>auto simp: up_def\<close>)
  qed
qed (use g in \<open>simp add: rehydrate_host_def\<close>)

lemma rehydrate_prefix_good:
  assumes g: "good be cfg m" and w: "list_all (\<lambda>r. rule_anchor r = pb_prefix s) (pb_rules s)"
    "pfx_bits (pb_prefix s) < int (bit_len (pfx_addr (pb_prefix s)))"
    and free: "tget (m_pbans m) (pb_prefix s) = None" and r: "rehydrate_prefix be now cfg s m = Done m'"
  shows "good be cfg m'"
  using r
proof (cases rule: rehydrate_prefix_cases)
  case (tried cp)
  note ok = tried(3) [unfolded prefix_refused_iff not_not]
  let ?p = "pb_prefix s" and ?b = "ban_from_snapshot s (pb_prefix s)"
  let ?f = "refrozen now cfg (c_groups cfg ! 0) (pfx_addr ?p) ?b m"
  have d: "pfx_entry cfg (?p, ?f)"
    using ok w by (simp add: pfx_entry_def anchored_def restored_sel list_all_iff)
  have anch: "anchored ?f" "b_prefix ?f = ?p" using d by (simp_all add: pfx_entry_def)
  have hosts: "b_prefix c \<noteq> ?p" if "(k, c) \<in> set (m_bans m)" for k c
    using entry_prefixes_differ [OF entries(1) [OF g that] d] anch by simp
  have others: "b_prefix c \<noteq> ?p" if c: "(k, c) \<in> set (m_pbans m)" for k c
  proof -
    have "k \<noteq> ?p" using free in_set_tget [OF entries(4) [OF g] c] by auto
    then show ?thesis using entries(2) [OF g c] by (simp add: pfx_entry_def)
  qed
  from tried(5) show ?thesis
  proof (cases rule: restore_cases)
    case (failed b' st)
    note r = reannounce_facts [OF failed(1)]
    have em: "emits (m_io m) st (call_about ?p)" using r(2) [OF anch(1)] anch(2) by simp
    show ?thesis
      unfolding failed(2) by (rule good_free_io [OF g _ em hosts others]) (use ok r(3) in auto)
  next
    case (restored b' st)
    note r = reannounce_facts [OF restored(1)]
    have entry: "pfx_entry cfg (?p, b')"
      using d same_ban_sel [OF conjunct1 [OF r(1)]] same_ban_anchored [OF conjunct1 [OF r(1)]] by (simp add: pfx_entry_def)
    show ?thesis
      unfolding restored(2)
    proof (rule good_put_prefix [OF g entry])
      show "emits (m_io m) st (call_about ?p)" using r(2) [OF anch(1)] anch(2) by simp
    qed (use tried(1,2) r(3,5) in \<open>auto simp: up_def\<close>)
  qed
qed (use g in simp)

text \<open>The loops over the document.\<close>

lemma restore_put:
  assumes "restore_ban be now cfg g t put b m = m'" "\<And>c m. F (put c m) = F' c (F m)" "\<And>m s. F (m \<lparr> m_io := s \<rparr>) = F m"
  shows "F m' = F m \<or> (\<exists>c. F m' = F' c (F m))"
  using assms(1) by (cases rule: restore_cases) (auto simp: assms(2,3))

lemma rehydrate_host_table:
  "m_bans (rehydrate_host be now cfg s m) = m_bans m
   \<or> (\<exists>b. m_bans (rehydrate_host be now cfg s m) = tput (pb_target s) b (m_bans m))"
proof (cases "host_refused now cfg s m")
  case False
  have "m_bans (restore_ban be now cfg g t (put_ban (pb_target s)) b m) = m_bans m
      \<or> (\<exists>c. m_bans (restore_ban be now cfg g t (put_ban (pb_target s)) b m) = tput (pb_target s) c (m_bans m))" for g t b
    by (rule restore_put [OF refl]) (simp_all add: put_ban_def)
  then show ?thesis using False by (simp add: rehydrate_host_def)
qed (simp add: rehydrate_host_def)

lemma rehydrate_host_others:
  "k \<noteq> pb_target s \<Longrightarrow> tget (m_bans (rehydrate_host be now cfg s m)) k = tget (m_bans m) k"
  using rehydrate_host_table [of be now cfg s m] by (auto simp: table_laws)

lemma rehydrate_host_pbans: "m_pbans (rehydrate_host be now cfg s m) = m_pbans m"
  using restore_put [OF refl, where F = m_pbans and F' = "\<lambda>c t. t" and put = "put_ban (pb_target s)"]
  by (auto simp: rehydrate_host_def put_ban_def)

lemma rehydrate_hosts_good:
  assumes "good be cfg m" "written_hosts l" "\<forall>s \<in> set l. tget (m_bans m) (pb_target s) = None"
  shows "good be cfg (fold (rehydrate_host be now cfg) l m)"
  using assms
proof (induction l arbitrary: m)
  case (Cons s l)
  have "good be cfg (rehydrate_host be now cfg s m)"
    by (rule rehydrate_host_good) (use Cons.prems in \<open>auto simp: written_hosts_def\<close>)
  moreover have "tget (m_bans (rehydrate_host be now cfg s m)) (pb_target x) = None" if x: "x \<in> set l" for x
  proof -
    have "pb_target x \<noteq> pb_target s" using Cons.prems(2) imageI [OF x, of pb_target] by (auto simp: written_hosts_def)
    then show ?thesis using rehydrate_host_others [of "pb_target x" s] Cons.prems(3) x by simp
  qed
  ultimately show ?case using Cons.IH Cons.prems(2) by (simp add: written_hosts_def)
qed simp

lemma rehydrate_prefix_others:
  assumes "rehydrate_prefix be now cfg s m = Done m'" "k \<noteq> pb_prefix s"
  shows "tget (m_pbans m') k = tget (m_pbans m) k"
  using assms(1)
proof (cases rule: rehydrate_prefix_cases)
  case (tried cp)
  have "m_pbans m' = m_pbans m \<or> (\<exists>c. m_pbans m' = tput (pb_prefix s) c (m_pbans m))"
    by (rule restore_put [OF tried(5)]) (simp_all add: put_pban_def)
  then show ?thesis using assms(2) by (auto simp: table_laws)
qed simp

lemma rehydrate_prefix_bans: "rehydrate_prefix be now cfg s m = Done m' \<Longrightarrow> m_bans m' = m_bans m"
proof (erule rehydrate_prefix_cases)
  assume "restore_ban be now cfg (c_groups cfg ! 0) (pfx_addr (pb_prefix s)) (put_pban (pb_prefix s))
      (ban_from_snapshot s (pb_prefix s)) m = m'"
  then have "m_bans m' = m_bans m \<or> (\<exists>c :: ban. m_bans m' = m_bans m)"
    by (rule restore_put) (simp_all add: put_pban_def)
  then show ?thesis by blast
qed simp

lemma rehydrate_prefixes_good:
  assumes "rehydrate_prefixes be now cfg l m = Done m'" "good be cfg m" "written_prefixes l"
    "\<forall>s \<in> set l. tget (m_pbans m) (pb_prefix s) = None"
  shows "good be cfg m'"
  using assms
proof (induction l arbitrary: m)
  case (Cons s l)
  obtain m1 where m1: "rehydrate_prefix be now cfg s m = Done m1" "rehydrate_prefixes be now cfg l m1 = Done m'"
    using Cons.prems(1) by (auto split: outcome.splits)
  have "good be cfg m1"
    by (rule rehydrate_prefix_good [OF Cons.prems(2) _ _ _ m1(1)]) (use Cons.prems in \<open>auto simp: written_prefixes_def\<close>)
  moreover have "tget (m_pbans m1) (pb_prefix x) = None" if x: "x \<in> set l" for x
  proof -
    have "pb_prefix x \<noteq> pb_prefix s" using Cons.prems(3) imageI [OF x, of pb_prefix] by (auto simp: written_prefixes_def)
    then show ?thesis using rehydrate_prefix_others [OF m1(1), of "pb_prefix x"] Cons.prems(4) x by simp
  qed
  ultimately show ?case using Cons.IH [OF m1(2)] Cons.prems(3) by (simp add: written_prefixes_def)
qed simp

text \<open>The source pairs; \<open>K\<close> bounds the sources, since the anchor budget is not checked again.\<close>

lemma rehydrate_source_inv:
  assumes i: "src_inv be cfg ss" and k: "fst ` set (ss_blocks ss) \<subseteq> K" "finite K" "int (card K) \<le> max 0 (source_anchor_budget cfg)"
    "unmap (sb_source s) \<in> K"
  shows "src_inv be cfg (rehydrate_source be now cfg s ss) \<and> fst ` set (ss_blocks (rehydrate_source be now cfg s ss)) \<subseteq> K"
proof (cases "source_refused be now cfg s ss")
  case False
  note ok = source_refused_not [OF False]
  let ?s = "unmap (sb_source s)" and ?v = "unmap (sb_victim s)"
  let ?sb = "\<lparr> sb_source = ?s, sb_victim = ?v, sb_created = sb_created s, sb_expires = sb_expires s,
     sb_dry_run = c_dry_run cfg, sb_auto = sb_auto s, sb_reason = sb_reason s \<rparr>"
  have e: "rehydrate_source be now cfg s ss = entered ?v ?s (sb_auto s) ?sb ss"
    using False by (simp add: rehydrate_source_def Let_def)
  let ?t = "tput ?s (tput ?v ?sb (pairs_of ss ?s)) (ss_blocks ss)"
  have keys: "fst ` set ?t \<subseteq> K" using k(1,4) by (simp add: keys_tput)
  have "table_ok ?t" using i by (simp add: src_inv_def tbl.inv_put)
  then have "length ?t = card (fst ` set ?t)" by (metis table_ok_def distinct_card length_map set_map)
  then have len: "int (length ?t) \<le> max 0 (source_anchor_budget cfg)"
    using card_mono [OF k(2) keys] k(3) by linarith
  have "src_inv be cfg (entered ?v ?s (sb_auto s) ?sb ss)"
    by (rule entered_inv_gen [OF i]) (use ok len in simp_all)
  then show ?thesis using e keys by (simp add: entered_def)
qed (use i k in \<open>simp add: rehydrate_source_def\<close>)

lemma rehydrate_sources_inv:
  assumes "unmap ` sb_source ` set l \<subseteq> K" "finite K" "int (card K) \<le> max 0 (source_anchor_budget cfg)"
  shows "src_inv be cfg (fold (rehydrate_source be now cfg) l src_empty)
    \<and> fst ` set (ss_blocks (fold (rehydrate_source be now cfg) l src_empty)) \<subseteq> K"
proof (rule fold_inv [where P = "\<lambda>x. src_inv be cfg x \<and> fst ` set (ss_blocks x) \<subseteq> K"])
  show "src_inv be cfg src_empty \<and> fst ` set (ss_blocks src_empty) \<subseteq> K"
    using src_inv_empty by (simp add: src_empty_def)
  fix s ss assume "s \<in> set l" "src_inv be cfg ss \<and> fst ` set (ss_blocks ss) \<subseteq> K"
  then show "src_inv be cfg (rehydrate_source be now cfg s ss) \<and> fst ` set (ss_blocks (rehydrate_source be now cfg s ss)) \<subseteq> K"
    by (intro rehydrate_source_inv [OF _ _ assms(2,3)]) (use assms(1) in auto)
qed

lemma rehydrate_sources_victims:
  assumes "list_all (\<lambda>b. \<not> has_zone (sb_victim b)) l"
  shows "victims (\<lambda>v. \<not> is_whitelisted cfg v \<and> \<not> has_zone v \<and> addr_valid v) (fold (rehydrate_source be now cfg) l src_empty)"
proof (rule fold_inv)
  show "victims (\<lambda>v. \<not> is_whitelisted cfg v \<and> \<not> has_zone v \<and> addr_valid v) src_empty"
    by (simp add: victims_def pairs_of_def src_empty_def)
  fix s ss assume s: "s \<in> set l" and v: "victims (\<lambda>v. \<not> is_whitelisted cfg v \<and> \<not> has_zone v \<and> addr_valid v) ss"
  show "victims (\<lambda>v. \<not> is_whitelisted cfg v \<and> \<not> has_zone v \<and> addr_valid v) (rehydrate_source be now cfg s ss)"
  proof (cases "source_refused be now cfg s ss")
    case False
    note ok = source_refused_not [OF False]
    have "\<not> has_zone (unmap (sb_victim s))" using assms s unmap_no_zone by (auto simp: list_all_iff)
    moreover have "\<not> is_whitelisted cfg (unmap (sb_victim s))"
      using ok(5) by (auto simp: source_block_policy_def split: if_splits)
    ultimately show ?thesis using ok(2) False entered_victims [OF v] by (simp add: rehydrate_source_def Let_def)
  qed (use v in \<open>simp add: rehydrate_source_def\<close>)
qed

lemma reinstall_all_ok:
  assumes "reinstall_all be now ks (ss, st) = (ss', st')" "src_inv be cfg ss" "victims Z ss"
  shows "src_inv be cfg ss' \<and> victims Z ss' \<and> fst ` set (ss_blocks ss') \<subseteq> fst ` set (ss_blocks ss)
    \<and> emits st st' (\<lambda>c. \<exists>s \<in> set ks. call_on s Z c)"
  using assms
proof (induction ks arbitrary: ss st)
  case (Cons k ks)
  obtain e ss1 st1 where r: "reinstall_source be now k (ss, st) = (e, ss1, st1)"
    by (cases "reinstall_source be now k (ss, st)") auto
  have "src_inv be cfg ss1" by (rule reinstall_inv [OF r src_inv_pre]) (use Cons.prems(2) installed_needs_dp in blast)+
  moreover have "reinstall_all be now ks (ss1, st1) = (ss', st')" using Cons.prems(1) r by (simp add: reinstall_all_Cons)
  ultimately have ih: "src_inv be cfg ss'" "victims Z ss'" "fst ` set (ss_blocks ss') \<subseteq> fst ` set (ss_blocks ss1)"
    "emits st1 st' (\<lambda>c. \<exists>s \<in> set ks. call_on s Z c)"
    using Cons.IH [of ss1 st1] reinstall_victims [OF r Cons.prems(3)] by auto
  have "emits st st1 (\<lambda>c. \<exists>s \<in> set (k # ks). call_on s Z c)"
    by (rule emits_mono [OF reinstall_calls [OF r Cons.prems(3)]]) simp
  moreover have "emits st1 st' (\<lambda>c. \<exists>s \<in> set (k # ks). call_on s Z c)" by (rule emits_mono [OF ih(4)]) simp
  ultimately have "emits st st' (\<lambda>c. \<exists>s \<in> set (k # ks). call_on s Z c)" by (rule emits_trans)
  then show ?case using ih(1-3) reinstall_keys [OF r] by (simp add: subset_trans)
qed (simp add: reinstall_all_def)

lemma rehydrate_good:
  assumes r: "rehydrate be now cfg (Some d) mit_new = Done m'" and d: "load d = Inr st"
    and w: "written_hosts (ps_hosts st)" "written_prefixes (ps_prefixes st)" "written_sources cfg (ps_sources st)"
  shows "good be cfg m'"
  using r
proof (cases rule: rehydrate_cases)
  case unread
  then show ?thesis by (simp add: good_new)
next
  case (document d' st' m1 ss ss' s)
  have st: "st' = st" using document(1,2) d by simp
  note doc = document(3-6) [unfolded st]
  let ?Z = "\<lambda>v. \<not> is_whitelisted cfg v \<and> \<not> has_zone v \<and> addr_valid v"
  have pb: "m_pbans (fold (rehydrate_host be now cfg) (ps_hosts st) mit_new) = []"
    by (rule fold_inv [where P = "\<lambda>x. m_pbans x = []"]) (simp_all add: rehydrate_host_pbans mit_new_def)
  have g: "good be cfg m1"
    by (rule rehydrate_prefixes_good [OF doc(1) rehydrate_hosts_good [OF good_new w(1)] w(2)])
      (simp_all add: pb, simp add: mit_new_def)
  have src: "m_src m1 = src_empty" using rehydrated_src [OF doc(1)] by (simp add: mit_new_def)
  let ?K = "unmap ` sb_source ` set (ps_sources st)"
  have "card ?K \<le> card (sb_source ` set (ps_sources st))" by (rule card_image_le) simp
  then have card: "int (card ?K) \<le> max 0 (source_anchor_budget cfg)" using w(3) by (simp add: written_sources_def)
  have inv: "src_inv be cfg ss" "fst ` set (ss_blocks ss) \<subseteq> ?K"
    using rehydrate_sources_inv [OF order_refl _ card] by (simp_all add: doc(2) src)
  have vic: "victims ?Z ss"
    unfolding doc(2) src by (rule rehydrate_sources_victims) (use w(3) in \<open>simp add: written_sources_def list_all_iff\<close>)
  note c = reinstall_all_ok [OF doc(3) inv(1) vic]
  have zone: "list_all (\<lambda>e. \<not> has_zone (fst e)) (ss_blocks ss)"
    using inv(2) w(3) unmap_no_zone by (fastforce simp: written_sources_def list_all_iff)
  have fresh: "good be cfg (m1 \<lparr> m_src := ss, m_io := m_io m1 \<rparr>)"
  proof (rule good_src [OF g inv(1) zone vic])
    show "c_dry_run cfg \<Longrightarrow> io_log (m_io m1) = io_log (m_io m1) \<and> quiet_src ss"
    proof -
      assume "c_dry_run cfg"
      moreover have "pairs_lawful be now cfg ss"
        unfolding doc(2) src
        by (rule fold_inv) (simp add: pairs_lawful_def pairs_of_def src_empty_def, rule rehydrate_source_lawful)
      ultimately show ?thesis using lawful_quiet doc(2) src by (simp add: src_empty_def)
    qed
  qed simp
  have "good be cfg (m1 \<lparr> m_src := ss', m_io := s \<rparr>)"
  proof (rule good_src [OF g conjunct1 [OF c]])
    show "list_all (\<lambda>e. \<not> has_zone (fst e)) (ss_blocks ss')" using c zone by (force simp: list_all_iff)
    show "victims ?Z ss'" using c by simp
    show "emits (m_io m1) s (\<lambda>c. \<exists>s. addr_valid s \<and> \<not> has_zone s \<and> \<not> in_networks cfg s \<and> call_on s ?Z c)"
      by (rule emits_mono [of _ _ "\<lambda>c. \<exists>s \<in> fst ` set (ss_blocks ss). call_on s ?Z c"])
        (use c src_keys [OF fresh] in \<open>auto simp del: set_map simp add: set_map [symmetric]\<close>)
    show "c_dry_run cfg \<Longrightarrow> io_log s = io_log (m_io m1) \<and> quiet_src ss'"
      using reinstall_all_quiet [OF doc(3)] fresh by (auto simp: good_def quiet_inv_def)
  qed
  then show ?thesis by (simp add: doc(4))
qed

text \<open>A snapshot of a good state.\<close>

lemma distinct_map_sort_key: "distinct (map f (sort_key g xs)) \<longleftrightarrow> distinct (map f xs)"
  by (simp add: distinct_map)

lemma active_keys:
  assumes "table_ok t" "\<And>k b. (k, b) \<in> set t \<Longrightarrow> f (snapshot_core b) = k"
  shows "distinct (map f (active_snapshots t))"
proof -
  have "map f (active_snapshots t) = map fst (filter (is_active \<circ> snd) t)"
    using assms(2) by (induction t) (auto simp: active_snapshots_def)
  moreover have "distinct (map fst (filter (is_active \<circ> snd) t))"
    using assms(1) by (simp add: table_ok_def distinct_map_filter)
  ultimately show ?thesis by simp
qed

lemma active_snapshots_from:
  assumes "s \<in> set (active_snapshots t)"
  obtains k b where "(k, b) \<in> set t" "is_active b" "s = snapshot_core b"
  using assms by (auto simp: active_snapshots_def)

lemma set_source_blocks: "set (source_blocks ss) = {b. \<exists>s ps v. (s, ps) \<in> set (ss_blocks ss) \<and> (v, b) \<in> set ps}"
  by (force simp: source_blocks_def)

lemma snapshot_written:
  assumes g: "good be0 cfg0 m0"
  shows "written_hosts (ps_hosts (snapshot_locked now m0))" "written_prefixes (ps_prefixes (snapshot_locked now m0))"
    "source_anchor_budget cfg0 \<le> source_anchor_budget cfg \<Longrightarrow> written_sources cfg (ps_sources (snapshot_locked now m0))"
proof -
  show "written_hosts (ps_hosts (snapshot_locked now m0))"
    unfolding written_hosts_def list_all_iff
  proof (intro conjI ballI)
    show "distinct (map pb_target (ps_hosts (snapshot_locked now m0)))"
      using active_keys [OF entries(3) [OF g], of pb_target] entries(1) [OF g]
      by (simp add: snapshot_locked_def distinct_map_sort_key snapshot_core_def host_entry_def)
    fix s r assume s: "s \<in> set (ps_hosts (snapshot_locked now m0))" "r \<in> set (pb_rules s)"
    then obtain k b where "(k, b) \<in> set (m_bans m0)" "s = snapshot_core b"
      by (auto simp: snapshot_locked_def elim: active_snapshots_from)
    then show "rule_anchor r = host_prefix (pb_target s)"
      using entries(1) [OF g] s(2) by (fastforce simp: snapshot_core_def host_entry_def host_shape_def anchored_def)
  qed
  show "written_prefixes (ps_prefixes (snapshot_locked now m0))"
    unfolding written_prefixes_def list_all_iff
  proof (intro conjI ballI)
    show "distinct (map pb_prefix (ps_prefixes (snapshot_locked now m0)))"
      using active_keys [OF entries(4) [OF g], of pb_prefix] entries(2) [OF g]
      by (simp add: snapshot_locked_def distinct_map_sort_key snapshot_core_def pfx_entry_def)
    fix s assume s: "s \<in> set (ps_prefixes (snapshot_locked now m0))"
    then obtain k b where b: "(k, b) \<in> set (m_pbans m0)" "s = snapshot_core b"
      by (auto simp: snapshot_locked_def elim: active_snapshots_from)
    then show "pfx_bits (pb_prefix s) < int (bit_len (pfx_addr (pb_prefix s)))"
      using entries(2) [OF g b(1)] by (simp add: snapshot_core_def pfx_entry_def)
    show "rule_anchor r = pb_prefix s" if "r \<in> set (pb_rules s)" for r
      using entries(2) [OF g b(1)] b(2) that by (simp add: snapshot_core_def pfx_entry_def anchored_def)
  qed
  show "written_sources cfg (ps_sources (snapshot_locked now m0))" if le: "source_anchor_budget cfg0 \<le> source_anchor_budget cfg"
  proof -
    have inv: "src_inv be0 cfg0 (m_src m0)" and zone: "list_all (\<lambda>e. \<not> has_zone (fst e)) (ss_blocks (m_src m0))"
      and vic: "victims (\<lambda>v. \<not> is_whitelisted cfg0 v \<and> \<not> has_zone v \<and> addr_valid v) (m_src m0)"
      using g by (simp_all add: good_def shape_inv_def)
    have b: "sb_source b \<in> fst ` set (ss_blocks (m_src m0)) \<and> \<not> has_zone (sb_source b) \<and> \<not> has_zone (sb_victim b)"
      if "b \<in> set (source_blocks (m_src m0))" for b
    proof -
      obtain s ps v where p: "(s, ps) \<in> set (ss_blocks (m_src m0))" "(v, b) \<in> set ps"
        using \<open>b \<in> set (source_blocks (m_src m0))\<close> by (auto simp: set_source_blocks)
      have "entry_ok be0 cfg0 (s, ps)" using inv p(1) by (simp add: src_inv_def list_all_iff)
      then have "pair_ok be0 cfg0 s (v, b)" using p(2) by (simp add: entry_ok_def list_all_iff)
      then have ok: "sb_source b = s" "sb_victim b = v" by (simp_all add: pair_ok_def)
      have "pairs_of (m_src m0) s = ps"
        using in_set_tget [OF _ p(1)] inv by (simp add: pairs_of_def src_inv_def)
      then have "list_all (\<lambda>q. \<not> is_whitelisted cfg0 (fst q) \<and> \<not> has_zone (fst q) \<and> addr_valid (fst q)) ps"
        using vic unfolding victims_def by (elim allE [of _ s]) simp
      then have "\<not> has_zone v" using p(2) by (auto simp: list_all_iff)
      moreover have "\<not> has_zone s" using zone p(1) by (auto simp: list_all_iff)
      moreover have "s \<in> fst ` set (ss_blocks (m_src m0))" by (rule rev_image_eqI [OF p(1)]) simp
      ultimately show ?thesis by (simp only: ok simp_thms)
    qed
    then have "sb_source ` set (source_blocks (m_src m0)) \<subseteq> fst ` set (ss_blocks (m_src m0))" by auto
    then have "card (sb_source ` set (source_blocks (m_src m0))) \<le> card (fst ` set (ss_blocks (m_src m0)))"
      by (rule card_mono [rotated]) simp
    also have "\<dots> \<le> length (ss_blocks (m_src m0))" by (metis card_image_le card_length finite_set le_trans)
    finally show ?thesis
      using b inv le by (auto simp: written_sources_def snapshot_locked_def list_all_iff src_inv_def)
  qed
qed

section \<open>Reachable states\<close>

text \<open>A mitigator runs under one configuration; a restart loads the last file under a possibly different
  one and a possibly different backend. Rehydration does not check the source budget again, so a restart
  here does not shrink it. The log is that of the running process.\<close>

inductive reachable :: "backend \<Rightarrow> config \<Rightarrow> mit \<Rightarrow> bool" where
  reach_new: "reachable be cfg mit_new"
| reach_step: "reachable be cfg m \<Longrightarrow> mstep be cfg m m' \<Longrightarrow> reachable be cfg m'"
| reach_restart: "reachable be0 cfg0 m0 \<Longrightarrow> source_anchor_budget cfg0 \<le> source_anchor_budget cfg
    \<Longrightarrow> dk_file d = FileDoc (snapshot_locked now0 m0)
    \<Longrightarrow> rehydrate be now cfg (Some d) mit_new = Done m \<Longrightarrow> reachable be cfg m"

lemma snapshot_loads: "dk_file d = FileDoc (snapshot_locked now m) \<Longrightarrow> load d = Inr (snapshot_locked now m)"
  by (simp add: load_def snapshot_locked_def)

lemma reachable_good: "reachable be cfg m \<Longrightarrow> good be cfg m"
proof (induction rule: reachable.induct)
  case (reach_restart be0 cfg0 m0 cfg d now0 be now m)
  then show ?case using rehydrate_good snapshot_loads snapshot_written by metis
qed (auto intro: good_new mstep_good)

end
