(* ===== verification/Deployment.thy ===== *)
theory Deployment
  imports Restart
begin

text \<open>
  A small deployment on which the properties are instantiated: one protected network, one whitelisted
  resolver, a three-rung ladder (kernel rules, FlowSpec after 30 s, blackhole after 60 s), and a
  speaker and a data plane that accept every call.
\<close>

definition ex_net :: prefix where "ex_net = Pfx (V4 0x0A000000) 8"
definition ex_resolver :: addr where "ex_resolver = V4 0x0A000035"
definition ex_victim :: addr where "ex_victim = V4 0x0A000005"
definition ex_attacker :: addr where "ex_attacker = V4 0xC6336401"

definition ex_ladder :: "escalation_stage list" where
  "ex_ladder = [\<lparr> after_seconds = 0, stage_action = EscalateDataplane \<rparr>,
     \<lparr> after_seconds = 30, stage_action = EscalateFlowSpec \<rparr>,
     \<lparr> after_seconds = 60, stage_action = EscalateBlackhole \<rparr>]"

definition ex_group :: group where
  "ex_group = \<lparr> g_name = ''global'', g_calc = CalcPerHost, g_networks = [''10.0.0.0/8''],
     g_thresholds = thresholds_none \<lparr> th_pps := 1000 \<rparr>, g_out = None, g_baseline = None,
     g_mitigation = MitigateDataplane, g_fs_action = FSDiscard, g_fs_rate = Fin 0, g_src_anchored = False,
     g_min_conc = Fin 0, g_escalation = ex_ladder, g_bh_next_hop = ''192.0.2.1'', g_bh_next_hop6 = [],
     g_bh_comms = [], g_bh_comm_str = [], g_local_pref = 0, g_scrub_next_hop = [], g_scrub_next_hop6 = [],
     g_scrub_comms = [], g_scrub_comm_str = [], g_scrub_local_pref = 0, g_tenant = [], g_ban_enabled = True \<rparr>"

definition ex_ban :: ban_cfg where
  "ex_ban = \<lparr> ttl_seconds = 600, unban_hysteresis_seconds = 60, max_active_bans = 2, fallback_str = ''none'',
     max_banned_fraction = Fin 0, max_bans_per_window = 10, ban_window_seconds = 60 \<rparr>"

definition ex_scrubbing :: scrubbing where
  "ex_scrubbing = \<lparr> sc_next_hop = [], sc_next_hop6 = [], sc_nodes = [], sc_selection = [], sc_on_lost = [],
     sc_stale_after = 60, sc_comms = [], sc_comm_str = [], sc_local_pref = 0 \<rparr>"

definition ex_cfg :: config where
  "ex_cfg = \<lparr> c_dry_run = False, c_window = 10, c_networks = [''10.0.0.0/8''], c_whitelist = [''10.0.0.53''],
     c_thresholds = thresholds_none \<lparr> th_pps := 1000 \<rparr>, c_out = None, c_baseline = None,
     c_carpet = Some \<lparr> cp_v4 = 24, cp_v6 = 64, cp_min_hosts = 4, cp_thresholds = thresholds_none \<lparr> th_pps := 5000 \<rparr>,
       cp_mitigation = ''blackhole'', cp_max_active = 1 \<rparr>,
     c_mitigation = ''dataplane'', c_flowspec = None, c_escalation = None, c_tenant = [], c_hostgroups = [],
     c_ban = ex_ban,
     c_bgp = \<lparr> bgp_next_hop = ''192.0.2.1'', bgp_next_hop6 = [], bgp_comms = [], bgp_comm_str = [], bgp_local_pref = 0 \<rparr>,
     c_scrubbing = ex_scrubbing, c_dataplane = Some True, network_prefixes = [ex_net],
     whitelist_addrs = [ex_resolver], protected4 = Fin 16777216, protected6 = Fin 0, c_boundary = [],
     c_groups = [ex_group], outgoing_enabled = False, dp_allowlist = [], dp_max_rules = 100, group_routes = [],
     at_mode = ''interface'', iface_labels = [], vlan_labels = [], open_members = [] \<rparr>"

definition ex_backend :: backend where
  "ex_backend = \<lparr> be_dp = True, be_ok = (\<lambda>c l. True), be_err = (\<lambda>c. []) \<rparr>"

definition ex_event :: event where
  "ex_event = \<lparr> ev_kind = AttackStarted, ev_id = ''a1'', ev_scope = ScopeHost, ev_target = ex_victim, ev_prefix = [], ev_hosts = 0,
     ev_direction = DirIncoming, ev_group = ''global'', ev_ban_enabled = True, ev_metric = MetricPPS,
     ev_rate = Fin 2000, ev_threshold = Fin 1000, ev_rates = rates_zero, ev_peak = rates_zero,
     ev_at = 100 * second, ev_started = 100 * second, ev_sample = None, ev_class = None,
     ev_reason = None \<rparr>"

lemmas ex_defs = ex_net_def ex_resolver_def ex_victim_def ex_attacker_def ex_ladder_def ex_group_def ex_ban_def
  ex_scrubbing_def ex_cfg_def ex_backend_def ex_event_def

text \<open>The state once the attack on \<open>ex_victim\<close> is under way, live and in a dry run, and after the sweep
  that climbs to the FlowSpec rung.\<close>

definition landed :: "('a \<times> mit) outcome \<Rightarrow> mit" where
  "landed x = (case x of Done (r, m) \<Rightarrow> m | Crash \<Rightarrow> mit_new)"

definition crashed :: "'a outcome \<Rightarrow> bool" where
  "crashed x = (case x of Done y \<Rightarrow> False | Crash \<Rightarrow> True)"

definition ex_started :: mit where
  "ex_started = landed (on_attack_started ex_backend (100 * second) ex_cfg ex_event mit_new)"

definition ex_dry :: config where "ex_dry = ex_cfg \<lparr> c_dry_run := True \<rparr>"

definition ex_dry_started :: mit where
  "ex_dry_started = landed (on_attack_started ex_backend (100 * second) ex_dry ex_event mit_new)"

definition ex_climbed :: mit where
  "ex_climbed = sweep_expired ex_backend (131 * second) ex_cfg ex_started"

lemma landed_Done: "\<not> crashed x \<Longrightarrow> \<exists>r. x = Done (r, landed x)"
  by (auto simp: crashed_def landed_def split: outcome.splits prod.splits)

lemma started_reachable:
  "\<not> crashed (on_attack_started be now cfg ev mit_new) \<Longrightarrow> aggregate_event ev \<Longrightarrow>
   reachable be cfg (landed (on_attack_started be now cfg ev mit_new))"
  using landed_Done reach_step [OF reach_new started] by blast

lemma ex_event_aggregate: "aggregate_event ex_event"
  by code_simp

lemma ex_started_reachable: "reachable ex_backend ex_cfg ex_started"
proof -
  have "\<not> crashed (on_attack_started ex_backend (100 * second) ex_cfg ex_event mit_new)" by code_simp
  then show ?thesis unfolding ex_started_def by (rule started_reachable [OF _ ex_event_aggregate])
qed

lemma ex_dry_reachable: "reachable ex_backend ex_dry ex_dry_started"
proof -
  have "\<not> crashed (on_attack_started ex_backend (100 * second) ex_dry ex_event mit_new)" by code_simp
  then show ?thesis unfolding ex_dry_started_def by (rule started_reachable [OF _ ex_event_aggregate])
qed

lemma ex_climbed_reachable: "reachable ex_backend ex_cfg ex_climbed"
  by (rule reach_step [OF ex_started_reachable tick]) (simp add: ex_climbed_def)

text \<open>The state after an operator blocked \<open>ex_attacker\<close> towards the victim for ten minutes.\<close>

definition ex_block :: "(src_error + source_block) \<times> src_state \<times> io" where
  "ex_block = block_source ex_backend (110 * second) ex_cfg ex_victim ex_attacker (600 * second) ''operator'' False
     (m_src ex_started, m_io ex_started)"

definition ex_blocked :: mit where
  "ex_blocked = ex_started \<lparr> m_src := fst (snd ex_block), m_io := snd (snd ex_block) \<rparr>"

lemma ex_blocked_reachable: "reachable ex_backend ex_cfg ex_blocked"
  unfolding ex_blocked_def
  by (rule reach_step [OF ex_started_reachable blocked [where v = ex_victim and s = ex_attacker
        and ttl = "600 * second" and why = "''operator''" and auto = False and now = "110 * second" and r = "fst ex_block"]])
    (simp_all add: ex_block_def ex_attacker_def ex_victim_def)

lemma ex_blocked_sources: "map fst (ss_blocks (m_src ex_blocked)) = [ex_attacker]"
  by code_simp

text \<open>The one ban on file.\<close>

definition the_ban :: "mit \<Rightarrow> ban" where
  "the_ban m = snd (hd (m_bans m))"

lemma ex_started_ban: "m_bans ex_started = [(ex_victim, the_ban ex_started)]"
proof -
  have "map fst (m_bans ex_started) = [ex_victim]" by code_simp
  then show ?thesis by (auto simp: the_ban_def)
qed

lemma ex_climbed_ban: "m_bans ex_climbed = [(ex_victim, the_ban ex_climbed)]"
proof -
  have "map fst (m_bans ex_climbed) = [ex_victim]" by code_simp
  then show ?thesis by (auto simp: the_ban_def)
qed

lemma ex_started_facts:
  "is_active (the_ban ex_started)" "b_method (the_ban ex_started) = MitigateDataplane"
  "b_prefix (the_ban ex_started) = Pfx ex_victim 32" "b_dry_run (the_ban ex_started) = False"
  by code_simp+

lemma ex_climbed_facts:
  "is_active (the_ban ex_climbed)" "b_method (the_ban ex_climbed) = MitigateFlowSpec" "b_step (the_ban ex_climbed) = 1"
  by code_simp+

section \<open>A raw configuration\<close>

text \<open>One hostgroup over half of the network, and its validation step by step.\<close>

definition ex_hostgroup :: hostgroup where
  "ex_hostgroup = \<lparr> hg_name = ''dns'', hg_networks = [''10.128.0.0/9''], hg_calc = [], hg_thresholds = None,
     hg_thresholds_out = None, hg_baseline = None, hg_mitigation = ''blackhole'', hg_flowspec = None,
     hg_escalation = None, hg_bgp = None, hg_scrubbing = None, hg_tenant = [], hg_ban = None \<rparr>"

definition ex_raw :: config where
  "ex_raw = ex_cfg \<lparr> c_groups := [], group_routes := [], c_hostgroups := [ex_hostgroup] \<rparr>"

lemma bindc_weak: "r = r' \<Longrightarrow> bindc r f = bindc r' f"
  by simp

lemma ex_raw_sel [simp]:
  "c_baseline ex_raw = None" "c_tenant ex_raw = []" "c_mitigation ex_raw = ''dataplane''" "c_flowspec ex_raw = None"
  "c_escalation ex_raw = None" "c_scrubbing ex_raw = ex_scrubbing" "c_dataplane ex_raw = Some True"
  "network_prefixes ex_raw = [ex_net]" "c_out ex_raw = None" "c_hostgroups ex_raw = [ex_hostgroup]"
  by (simp_all add: ex_raw_def ex_cfg_def)

lemmas resolve_defs = resolve_baseline_def check_def resolve_mitigation_def parse_method_def all_mitigation_methods_def
  resolve_escalation_def steps_of_def rules_policy_def needs_rules_def uses_flowspec_def uses_dataplane_def uses_divert_def
  divert_generates_rules_def method_action_def resolve_flowspec_policy_def resolve_bgp_attrs_def require_dataplane_def
  resolve_source_anchor_def

lemma ex_route: "parse_prefix ''10.128.0.0/9'' = Some (Pfx (V4 0x0A800000) 9)"
  by (simp add: parse_prefix_def parse_addr_def parse_v4_def dig_val_def parse_uint_def num_of_bytes_def prefix_from_def)

lemma ex_raw_global: "\<exists>g. global_group (\<lambda>x. x) ex_raw = Inr g"
  by (simp add: global_group_def resolve_defs cong: bindc_weak)

lemma ex_route_masked: "pfx_masked (Pfx (V4 0x0A800000) 9) = Pfx (V4 0x0A800000) 9" "contains ex_net (V4 0x0A800000)" "pfx_bits ex_net = 8"
  by code_simp+

lemma ex_raw_group:
  "\<exists>st. resolve_group (\<lambda>x. x) ex_raw gl ex_hostgroup \<lparr> gs_groups = [gl], gs_names = [], gs_seen = [], gs_routes = [] \<rparr> = Inr st
     \<and> gs_routes st = [\<lparr> rt_prefix = Pfx (V4 0x0A800000) 9, rt_group = 1 \<rparr>]"
  by (simp add: resolve_group_def ex_hostgroup_def resolve_defs group_name_ok_def name_char_def global_group_name_def
      parse_calc_def group_method_def group_ladder_def ex_route ex_route_masked Let_def cong: bindc_weak)

lemma ex_raw_valid:
  "\<exists>c'. validate_hostgroups (\<lambda>x. x) ex_raw = Inr c' \<and> group_routes c' = [\<lparr> rt_prefix = Pfx (V4 0x0A800000) 9, rt_group = 1 \<rparr>]"
proof -
  obtain gl where gl: "global_group (\<lambda>x. x) ex_raw = Inr gl" using ex_raw_global by blast
  obtain st where "resolve_group (\<lambda>x. x) ex_raw gl ex_hostgroup \<lparr> gs_groups = [gl], gs_names = [], gs_seen = [], gs_routes = [] \<rparr> = Inr st"
    "gs_routes st = [\<lparr> rt_prefix = Pfx (V4 0x0A800000) 9, rt_group = 1 \<rparr>]" using ex_raw_group by blast
  then show ?thesis by (simp add: validate_hostgroups_def gl in_group_def)
qed

section \<open>A packet\<close>

definition ex_packet :: packet where
  "ex_packet = \<lparr> pk_src = ex_attacker, pk_dst = ex_victim, pk_proto = 17, pk_ports = Some (53, 4000),
     pk_tcp_flags = 0, pk_frag = False, pk_tls = False, pk_quic = False \<rparr>"

lemma ex_packet_selected:
  "fs_selects (anchor_rule (host_prefix ex_victim) prefix_none act rate) ex_packet"
  "fs_selects ((anchor_rule (host_prefix ex_victim) prefix_none act rate) \<lparr> r_proto := 17, r_src_port := 53 \<rparr>) ex_packet"
  by (simp_all add: fs_selects_def anchor_rule_def ex_packet_def ex_victim_def host_prefix_def prefix_from_def contains_def
      pfx_valid_def prefix_none_def)

end
