(* ===== verification/Counters.thy ===== *)
theory Counters
  imports Events
begin

text \<open>
  The per-host traffic ring of \<^verbatim>\<open>src/engine/internal/engine/engine.go\<close>: one bucket per second, both
  directions, six protocol classes, sampling-corrected and modulo \<open>2 ^ 64\<close> as the Go counters are.
  A ring of \<open>window + 1\<close> buckets refines the whole history of recorded flows: the windowed sum
  equals the sum over the history, as long as the clock does not step back. The Go remainder of a
  negative second is not modelled (the clock is past 1970).
\<close>

section \<open>Counters\<close>

datatype proto_class = ClTotal | ClTCP | ClUDP | ClICMP | ClSYN | ClFrag

record counters =
  cn_bytes :: "proto_class \<Rightarrow> 64 word"
  cn_packets :: "proto_class \<Rightarrow> 64 word"
  cn_flows :: "64 word"

definition counters_zero :: counters where
  "counters_zero = \<lparr> cn_bytes = (\<lambda>k. 0), cn_packets = (\<lambda>k. 0), cn_flows = 0 \<rparr>"

definition add_counters :: "counters \<Rightarrow> counters \<Rightarrow> counters" where
  "add_counters c d = \<lparr> cn_bytes = (\<lambda>k. cn_bytes c k + cn_bytes d k),
     cn_packets = (\<lambda>k. cn_packets c k + cn_packets d k), cn_flows = cn_flows c + cn_flows d \<rparr>"

definition counter_rates :: "counters \<Rightarrow> f64 \<Rightarrow> rates" where
  "counter_rates c w =
     (let pps = (\<lambda>k. fdiv (f64_of_u64 (cn_packets c k)) w);
          mbps = (\<lambda>k. fdiv (fdiv (fmul (f64_of_u64 (cn_bytes c k)) (Fin 8)) (Fin 1000000)) w)
      in \<lparr> rt_pps = pps ClTotal, rt_mbps = mbps ClTotal, rt_fps = fdiv (f64_of_u64 (cn_flows c)) w,
           rt_tcp_pps = pps ClTCP, rt_tcp_mbps = mbps ClTCP, rt_udp_pps = pps ClUDP, rt_udp_mbps = mbps ClUDP,
           rt_icmp_pps = pps ClICMP, rt_icmp_mbps = mbps ClICMP, rt_syn_pps = pps ClSYN, rt_syn_mbps = mbps ClSYN,
           rt_frag_pps = pps ClFrag, rt_frag_mbps = mbps ClFrag \<rparr>)"

definition bump_class :: "proto_class \<Rightarrow> 64 word \<Rightarrow> 64 word \<Rightarrow> counters \<Rightarrow> counters" where
  "bump_class k bytes packets c =
     c \<lparr> cn_bytes := (cn_bytes c)(k := cn_bytes c k + bytes), cn_packets := (cn_packets c)(k := cn_packets c k + packets) \<rparr>"

text \<open>What one flow adds, in the order of the code.\<close>

definition count_flow :: "flow \<Rightarrow> 64 word \<Rightarrow> counters \<Rightarrow> counters" where
  "count_flow f rate c =
     (let bytes = f_bytes f * rate; packets = f_packets f * rate;
          c1 = bump_class ClTotal bytes packets c;
          c2 = (if aggregates_flows (f_wire f) then c1 \<lparr> cn_flows := cn_flows c1 + rate \<rparr> else c1);
          c3 = (if f_proto f = 6 then
                  (let t = bump_class ClTCP bytes packets c2 in
                   if f_tcp_flags f AND 0x12 = 0x02 then bump_class ClSYN bytes packets t else t)
                else if f_proto f = 17 then bump_class ClUDP bytes packets c2
                else if f_proto f = 1 \<or> f_proto f = 58 then bump_class ClICMP bytes packets c2
                else c2)
      in if f_fragment f then bump_class ClFrag bytes packets c3 else c3)"

section \<open>Buckets\<close>

record upstream_counter =
  uc_key :: string
  uc_bytes :: "64 word"
  uc_packets :: "64 word"

record bucket =
  bk_epoch :: int
  bk_dirs :: "nat \<Rightarrow> counters"
  bk_ups :: "nat \<Rightarrow> upstream_counter list"

definition bucket_at :: "int \<Rightarrow> bucket" where
  "bucket_at e = \<lparr> bk_epoch = e, bk_dirs = (\<lambda>d. counters_zero), bk_ups = (\<lambda>d. []) \<rparr>"

definition new_ring :: "nat \<Rightarrow> bucket list" where
  "new_ring n = replicate n (bucket_at 0)"

text \<open>A bucket of another second is stale: it starts over.\<close>

definition claim_bucket :: "int \<Rightarrow> bucket \<Rightarrow> bucket" where
  "claim_bucket epoch b = (if bk_epoch b \<noteq> epoch then bucket_at epoch else b)"

fun bump_upstream :: "string \<Rightarrow> 64 word \<Rightarrow> 64 word \<Rightarrow> upstream_counter list \<Rightarrow> upstream_counter list" where
  "bump_upstream key bytes packets [] = [\<lparr> uc_key = key, uc_bytes = bytes, uc_packets = packets \<rparr>]"
| "bump_upstream key bytes packets (u # us) =
     (if uc_key u = key then u \<lparr> uc_bytes := uc_bytes u + bytes, uc_packets := uc_packets u + packets \<rparr> # us
      else u # bump_upstream key bytes packets us)"

definition record_bucket :: "nat \<Rightarrow> flow \<Rightarrow> 64 word \<Rightarrow> string \<Rightarrow> bucket \<Rightarrow> bucket" where
  "record_bucket dir f rate upstream b =
     (let b1 = (if upstream = [] then b
                else b \<lparr> bk_ups := (bk_ups b)(dir := bump_upstream upstream (f_bytes f * rate) (f_packets f * rate) (bk_ups b dir)) \<rparr>)
      in b1 \<lparr> bk_dirs := (bk_dirs b1)(dir := count_flow f rate (bk_dirs b1 dir)) \<rparr>)"

definition slot :: "bucket list \<Rightarrow> int \<Rightarrow> nat" where
  "slot ring s = nat (s mod int (length ring))"

definition ring_record :: "nat \<Rightarrow> flow \<Rightarrow> 64 word \<Rightarrow> int \<Rightarrow> string \<Rightarrow> bucket list \<Rightarrow> bucket list" where
  "ring_record dir f rate epoch upstream ring =
     ring[slot ring epoch := record_bucket dir f rate upstream (claim_bucket epoch (ring ! slot ring epoch))]"

section \<open>The window\<close>

text \<open>One second of the loop of \<^verbatim>\<open>windowedRates\<close>.\<close>

definition window_step :: "bucket list \<Rightarrow> int \<Rightarrow> counters \<times> counters \<times> bool \<Rightarrow> counters \<times> counters \<times> bool" where
  "window_step ring s acc = (case acc of (cin, cout, ok) \<Rightarrow>
     let b = ring ! slot ring s in
     if bk_epoch b = s then (add_counters cin (bk_dirs b dir_in), add_counters cout (bk_dirs b dir_out), True) else acc)"

definition window_counters :: "bucket list \<Rightarrow> int \<Rightarrow> int \<Rightarrow> counters \<times> counters \<times> bool" where
  "window_counters ring w now = fold (window_step ring) [now - w..now - 1] (counters_zero, counters_zero, False)"

definition windowed_rates :: "bucket list \<Rightarrow> int \<Rightarrow> int \<Rightarrow> rates \<times> rates \<times> bool" where
  "windowed_rates ring w now = (case window_counters ring w now of
     (cin, cout, ok) \<Rightarrow> (counter_rates cin (f64_of_int w), counter_rates cout (f64_of_int w), ok))"

section \<open>Laws\<close>

interpretation ctr: comm_monoid add_counters counters_zero
  by unfold_locales (simp_all add: add_counters_def counters_zero_def fun_eq_iff algebra_simps)

lemma counters_eqI: "(\<And>k. cn_bytes c k = cn_bytes d k) \<Longrightarrow> (\<And>k. cn_packets c k = cn_packets d k) \<Longrightarrow> cn_flows c = cn_flows d \<Longrightarrow> c = (d :: counters)"
  by (rule counters.equality) auto

text \<open>Counting a flow adds what it counts to.\<close>

definition flow_counters :: "flow \<Rightarrow> 64 word \<Rightarrow> counters" where
  "flow_counters f rate = count_flow f rate counters_zero"

lemma bump_class_add:
  "bump_class k b p (add_counters c d) = add_counters c (bump_class k b p d)"
  by (rule counters_eqI) (simp_all add: bump_class_def add_counters_def)

lemma flows_add:
  "(add_counters c d) \<lparr> cn_flows := cn_flows (add_counters c d) + r \<rparr> = add_counters c (d \<lparr> cn_flows := cn_flows d + r \<rparr>)"
  by (simp add: add_counters_def)

lemma count_flow_add: "count_flow f rate (add_counters c d) = add_counters c (count_flow f rate d)"
  unfolding count_flow_def Let_def by (simp add: bump_class_add flows_add del: fun_upd_apply)

lemma count_flow_eq: "count_flow f rate c = add_counters c (flow_counters f rate)"
  using count_flow_add [of f rate c counters_zero] by (simp add: flow_counters_def ctr.right_neutral)

text \<open>Every class carries the flows it is made of, and a class is part of the total.\<close>

definition in_class :: "flow \<Rightarrow> proto_class \<Rightarrow> bool" where
  "in_class f k = (case k of ClTotal \<Rightarrow> True | ClTCP \<Rightarrow> f_proto f = 6
     | ClSYN \<Rightarrow> f_proto f = 6 \<and> f_tcp_flags f AND 0x12 = 0x02 | ClUDP \<Rightarrow> f_proto f = 17
     | ClICMP \<Rightarrow> f_proto f = 1 \<or> f_proto f = 58 | ClFrag \<Rightarrow> f_fragment f)"

lemma flow_counters_class:
  "cn_bytes (flow_counters f rate) k = (if in_class f k then f_bytes f * rate else 0)"
  "cn_packets (flow_counters f rate) k = (if in_class f k then f_packets f * rate else 0)"
  "cn_flows (flow_counters f rate) = (if aggregates_flows (f_wire f) then rate else 0)"
  by (cases k; auto simp: flow_counters_def count_flow_def Let_def bump_class_def in_class_def counters_zero_def)+

section \<open>The ring refines the history\<close>

record entry =
  en_epoch :: int
  en_dir :: nat
  en_flow :: flow
  en_rate :: "64 word"
  en_up :: string

definition replay :: "bucket list \<Rightarrow> entry list \<Rightarrow> bucket list" where
  "replay ring past = fold (\<lambda>x. ring_record (en_dir x) (en_flow x) (en_rate x) (en_epoch x) (en_up x)) past ring"

definition entry_counters :: "int \<Rightarrow> nat \<Rightarrow> entry \<Rightarrow> counters" where
  "entry_counters s d x = (if en_epoch x = s \<and> en_dir x = d then flow_counters (en_flow x) (en_rate x) else counters_zero)"

text \<open>The abstract state: what the history holds of one second and direction.\<close>

definition hist :: "entry list \<Rightarrow> int \<Rightarrow> nat \<Rightarrow> counters" where
  "hist past s d = foldr add_counters (map (entry_counters s d) past) counters_zero"

lemma hist_append: "hist (xs @ ys) s d = add_counters (hist xs s d) (hist ys s d)"
  unfolding hist_def by (induction xs) (simp_all add: ctr.left_neutral ctr.assoc)

lemma hist_single: "hist [x] s d = entry_counters s d x"
  by (simp add: hist_def ctr.right_neutral)

lemma hist_absent: "\<forall>x \<in> set past. en_epoch x \<noteq> s \<Longrightarrow> hist past s d = counters_zero"
  unfolding hist_def by (induction past) (auto simp: entry_counters_def ctr.left_neutral)

definition ring_inv :: "entry list \<Rightarrow> int \<Rightarrow> bucket list \<Rightarrow> bool" where
  "ring_inv past newest ring \<longleftrightarrow> ring \<noteq> [] \<and> (\<forall>x \<in> set past. en_epoch x \<le> newest)
     \<and> (\<forall>s d. 0 \<le> s \<longrightarrow> bk_epoch (ring ! slot ring s) = s \<longrightarrow> bk_dirs (ring ! slot ring s) d = hist past s d)
     \<and> (\<forall>x \<in> set past. newest - int (length ring) < en_epoch x \<longrightarrow> bk_epoch (ring ! slot ring (en_epoch x)) = en_epoch x)"

lemma slot_less: "ring \<noteq> [] \<Longrightarrow> slot ring s < length ring"
  by (simp add: slot_def nat_less_iff)

lemma slot_near:
  assumes "ring \<noteq> []" "slot ring s = slot ring t" "\<bar>s - t\<bar> < int (length ring)"
  shows "s = t"
proof -
  have n: "0 < int (length ring)" using assms(1) by simp
  have "s mod int (length ring) = t mod int (length ring)"
    using assms(2) n pos_mod_sign [OF n] unfolding slot_def by (metis int_nat_eq)
  then have "int (length ring) dvd s - t" by (simp add: mod_eq_dvd_iff)
  then show ?thesis using assms(3) by (metis dvd_imp_le_int eq_iff_diff_eq_0 int_nat_eq linorder_not_less nat_int abs_of_nat)
qed

lemma new_ring_inv: "0 < n \<Longrightarrow> ring_inv [] newest (new_ring n)"
  using slot_less [of "new_ring n"]
  by (auto simp: ring_inv_def new_ring_def bucket_at_def hist_def)

lemma slot_update [simp]: "slot (ring[i := b]) s = slot ring s"
  by (simp add: slot_def)

lemma record_bucket_dirs:
  "bk_dirs (record_bucket dir f rate u b) d = (if d = dir then add_counters (bk_dirs b d) (flow_counters f rate) else bk_dirs b d)"
  "bk_epoch (record_bucket dir f rate u b) = bk_epoch b"
  by (simp_all add: record_bucket_def Let_def count_flow_eq)

lemma record_inv:
  assumes inv: "ring_inv past newest ring" and e: "newest \<le> en_epoch x" "0 \<le> en_epoch x"
  shows "ring_inv (past @ [x]) (en_epoch x) (ring_record (en_dir x) (en_flow x) (en_rate x) (en_epoch x) (en_up x) ring)"
proof -
  let ?e = "en_epoch x" and ?ring = "ring_record (en_dir x) (en_flow x) (en_rate x) (en_epoch x) (en_up x) ring"
  let ?b = "record_bucket (en_dir x) (en_flow x) (en_rate x) (en_up x) (claim_bucket ?e (ring ! slot ring ?e))"
  have ne: "ring \<noteq> []" using inv by (simp add: ring_inv_def)
  have nth: "?ring ! slot ?ring s = (if slot ring s = slot ring ?e then ?b else ring ! slot ring s)" for s
    using slot_less [OF ne] by (simp add: ring_record_def)
  have epoch: "bk_epoch ?b = ?e" by (simp add: record_bucket_dirs claim_bucket_def bucket_at_def)
  have old: "bk_dirs (claim_bucket ?e (ring ! slot ring ?e)) d = hist past ?e d" for d
  proof (cases "bk_epoch (ring ! slot ring ?e) = ?e")
    case True
    then show ?thesis using inv e(2) by (simp add: ring_inv_def claim_bucket_def)
  next
    case False
    have "en_epoch y \<noteq> ?e" if "y \<in> set past" for y
    proof
      assume y: "en_epoch y = ?e"
      have "0 < int (length ring)" using ne by simp
      then have "newest - int (length ring) < en_epoch y" using e(1) y by linarith
      then show False using inv that y False by (auto simp: ring_inv_def)
    qed
    then have "hist past ?e d = counters_zero" by (simp add: hist_absent)
    then show ?thesis using False by (simp add: claim_bucket_def bucket_at_def)
  qed
  have "bk_dirs (?ring ! slot ?ring s) d = hist (past @ [x]) s d" if "0 \<le> s" "bk_epoch (?ring ! slot ?ring s) = s" for s d
  proof (cases "slot ring s = slot ring ?e")
    case True
    have "?ring ! slot ?ring s = ?b" by (rule trans [OF nth]) (rule if_P [OF True])
    then have s: "s = ?e" "bk_dirs (?ring ! slot ?ring s) d = bk_dirs ?b d" using that(2) epoch by simp_all
    have "bk_dirs ?b d = add_counters (hist past ?e d) (entry_counters ?e d x)"
      unfolding record_bucket_dirs(1) old by (simp add: entry_counters_def ctr.right_neutral)
    then show ?thesis unfolding s(2) hist_append hist_single using s(1) by simp
  next
    case False
    then have "s \<noteq> ?e" by auto
    then have h: "hist (past @ [x]) s d = hist past s d"
      by (simp add: hist_append hist_single entry_counters_def ctr.right_neutral)
    have b: "?ring ! slot ?ring s = ring ! slot ring s" by (rule trans [OF nth]) (rule if_not_P [OF False])
    show ?thesis unfolding h b using inv that(1) that(2) [unfolded b] by (simp add: ring_inv_def)
  qed
  moreover have "bk_epoch (?ring ! slot ?ring (en_epoch y)) = en_epoch y"
    if y: "y \<in> set (past @ [x])" "?e - int (length ?ring) < en_epoch y" for y
  proof (cases "slot ring (en_epoch y) = slot ring ?e")
    case True
    have "en_epoch y \<le> ?e" using y(1) inv e(1) by (auto simp: ring_inv_def)
    then have "en_epoch y = ?e" using slot_near [OF ne True] y(2) by (simp add: ring_record_def)
    moreover have "?ring ! slot ?ring (en_epoch y) = ?b" by (rule trans [OF nth]) (rule if_P [OF True])
    ultimately show ?thesis using epoch by simp
  next
    case False
    then have "y \<in> set past" using y(1) by auto
    moreover have "newest - int (length ring) < en_epoch y" using y(2) e(1) by (simp add: ring_record_def)
    ultimately have "bk_epoch (ring ! slot ring (en_epoch y)) = en_epoch y" using inv by (simp add: ring_inv_def)
    moreover have "?ring ! slot ?ring (en_epoch y) = ring ! slot ring (en_epoch y)"
      by (rule trans [OF nth]) (rule if_not_P [OF False])
    ultimately show ?thesis by simp
  qed
  moreover have "\<forall>y \<in> set (past @ [x]). en_epoch y \<le> ?e" using inv e(1) by (auto simp: ring_inv_def)
  moreover have "?ring \<noteq> []" using ne by (simp add: ring_record_def)
  ultimately show ?thesis by (simp add: ring_inv_def)
qed

text \<open>Histories whose clock never steps back.\<close>

definition monotone_past :: "entry list \<Rightarrow> bool" where
  "monotone_past past \<longleftrightarrow> sorted (map en_epoch past) \<and> (\<forall>x \<in> set past. 0 \<le> en_epoch x)"

lemma replay_inv:
  "monotone_past past \<Longrightarrow> 0 < n \<Longrightarrow> \<forall>x \<in> set past. en_epoch x \<le> newest \<Longrightarrow> ring_inv past newest (replay (new_ring n) past)
     \<and> length (replay (new_ring n) past) = n"
proof (induction past arbitrary: newest rule: rev_induct)
  case Nil
  then show ?case using new_ring_inv by (simp add: replay_def new_ring_def)
next
  case (snoc x past)
  have m: "monotone_past past" "\<forall>y \<in> set past. en_epoch y \<le> en_epoch x" "0 \<le> en_epoch x"
    using snoc.prems(1) by (auto simp: monotone_past_def sorted_append)
  note prev = snoc.IH [OF m(1) snoc.prems(2) m(2)]
  let ?r = "replay (new_ring n) (past @ [x])"
  have "ring_inv (past @ [x]) (en_epoch x) ?r"
    using record_inv [OF conjunct1 [OF prev] _ m(3)] by (simp add: replay_def)
  moreover have "length ?r = n" using prev by (simp add: replay_def ring_record_def)
  moreover have "en_epoch x \<le> newest" using snoc.prems(3) by simp
  ultimately show ?case using snoc.prems(3) by (auto simp: ring_inv_def)
qed

text \<open>The sum of the history over a range of seconds.\<close>

definition hist_window :: "entry list \<Rightarrow> int list \<Rightarrow> nat \<Rightarrow> counters" where
  "hist_window past ss d = foldr add_counters (map (\<lambda>s. hist past s d) ss) counters_zero"

lemma fold_window:
  assumes "\<forall>s \<in> set ss. (bk_epoch (ring ! slot ring s) = s \<longrightarrow> (\<forall>d. bk_dirs (ring ! slot ring s) d = hist past s d))
      \<and> (bk_epoch (ring ! slot ring s) \<noteq> s \<longrightarrow> (\<forall>x \<in> set past. en_epoch x \<noteq> s))"
  shows "\<exists>ok'. fold (window_step ring) ss (cin, cout, ok) =
      (add_counters cin (hist_window past ss dir_in), add_counters cout (hist_window past ss dir_out), ok')
    \<and> (ok' \<longleftrightarrow> ok \<or> (\<exists>s \<in> set ss. bk_epoch (ring ! slot ring s) = s))"
  using assms
proof (induction ss arbitrary: cin cout ok)
  case Nil
  then show ?case by (simp add: hist_window_def ctr.right_neutral)
next
  case (Cons s ss)
  have rest: "\<forall>t \<in> set ss. (bk_epoch (ring ! slot ring t) = t \<longrightarrow> (\<forall>d. bk_dirs (ring ! slot ring t) d = hist past t d))
      \<and> (bk_epoch (ring ! slot ring t) \<noteq> t \<longrightarrow> (\<forall>x \<in> set past. en_epoch x \<noteq> t))"
    using Cons.prems by simp
  have hw: "hist_window past (s # ss) d = add_counters (hist past s d) (hist_window past ss d)" for d
    by (simp add: hist_window_def)
  show ?case
  proof (cases "bk_epoch (ring ! slot ring s) = s")
    case True
    then show ?thesis
      using Cons.IH [OF rest, of "add_counters cin (hist past s dir_in)" "add_counters cout (hist past s dir_out)" True] Cons.prems
      by (simp add: window_step_def hw ctr.assoc)
  next
    case False
    then have "hist past s d = counters_zero" for d using Cons.prems by (simp add: hist_absent)
    then show ?thesis using Cons.IH [OF rest, of cin cout ok] False
      by (simp add: window_step_def hw ctr.left_neutral)
  qed
qed

text \<open>The windowed rates are the rates of the history: nothing in the window is lost, nothing else counts.\<close>

lemma ring_inv_rates:
  assumes r: "ring_inv past now ring" "length ring = nat (w + 1)" and w: "0 < w" "w \<le> now"
  shows "\<exists>ok. windowed_rates ring w now =
      (counter_rates (hist_window past [now - w..now - 1] dir_in) (f64_of_int w),
       counter_rates (hist_window past [now - w..now - 1] dir_out) (f64_of_int w), ok)
    \<and> ((\<exists>x \<in> set past. now - w \<le> en_epoch x \<and> en_epoch x < now) \<longrightarrow> ok)"
proof -
  have kept: "bk_epoch (ring ! slot ring (en_epoch x)) = en_epoch x" if "x \<in> set past" "now - w \<le> en_epoch x" for x
    using r that w(1) by (auto simp: ring_inv_def)
  have "\<forall>s \<in> set [now - w..now - 1]. (bk_epoch (ring ! slot ring s) = s \<longrightarrow> (\<forall>d. bk_dirs (ring ! slot ring s) d = hist past s d))
      \<and> (bk_epoch (ring ! slot ring s) \<noteq> s \<longrightarrow> (\<forall>x \<in> set past. en_epoch x \<noteq> s))"
    using r(1) kept w(2) by (auto simp: ring_inv_def)
  from fold_window [OF this, of counters_zero counters_zero False] obtain ok where
    f: "window_counters ring w now = (hist_window past [now - w..now - 1] dir_in, hist_window past [now - w..now - 1] dir_out, ok)"
    "ok \<longleftrightarrow> (\<exists>s \<in> set [now - w..now - 1]. bk_epoch (ring ! slot ring s) = s)"
    by (auto simp: window_counters_def ctr.left_neutral)
  have "(\<exists>x \<in> set past. now - w \<le> en_epoch x \<and> en_epoch x < now) \<longrightarrow> ok"
    using f(2) kept by fastforce
  then show ?thesis using f(1) by (simp add: windowed_rates_def)
qed

lemma windowed_rates_history:
  assumes "monotone_past past" "\<forall>x \<in> set past. en_epoch x \<le> now" "0 < w" "w \<le> now"
  shows "\<exists>ok. windowed_rates (replay (new_ring (nat (w + 1))) past) w now =
      (counter_rates (hist_window past [now - w..now - 1] dir_in) (f64_of_int w),
       counter_rates (hist_window past [now - w..now - 1] dir_out) (f64_of_int w), ok)
    \<and> ((\<exists>x \<in> set past. now - w \<le> en_epoch x \<and> en_epoch x < now) \<longrightarrow> ok)"
  by (rule ring_inv_rates) (use replay_inv [OF assms(1) _ assms(2)] assms(3,4) in simp_all)

lemma ring_inv_later: "ring_inv past newest ring \<Longrightarrow> newest \<le> now \<Longrightarrow> ring_inv past now ring"
  by (auto simp: ring_inv_def)

lemma hist_window_absent: "\<forall>x \<in> set past. en_epoch x \<notin> set ss \<Longrightarrow> hist_window past ss d = counters_zero"
  unfolding hist_window_def by (induction ss) (auto simp: hist_absent ctr.left_neutral)

end
