(* ===== verification/Baseline.thy ===== *)
theory Baseline
  imports Events
begin

text \<open>
  The learned normal level of a host or a total group (\<^verbatim>\<open>src/engine/internal/engine/baseline.go\<close>): an
  EWMA with clamped inputs, its warm-up, and the thresholds it tightens. The lemmas: a tightened
  threshold never passes the static one, never falls below the floor, never becomes the zero that
  disables a metric; one sample, however large, moves the level no further than the clamp does.
\<close>

record baseline_state =
  ba_pps :: f64
  ba_mbps :: f64
  ba_fps :: f64
  ba_first :: int
  ba_valid :: bool

definition baseline_new :: baseline_state where
  "baseline_new = \<lparr> ba_pps = Fin 0, ba_mbps = Fin 0, ba_fps = Fin 0, ba_first = 0, ba_valid = False \<rparr>"

text \<open>The closure \<^verbatim>\<open>up\<close> of \<^verbatim>\<open>learn\<close>.\<close>

definition ewma_up :: "baseline_settings \<Rightarrow> f64 \<Rightarrow> f64 \<Rightarrow> f64" where
  "ewma_up bc cur sample =
     (let cap = fmul cur (bs_factor bc);
          s = (if flt (Fin 0) cap \<and> flt cap sample then cap else sample)
      in fadd cur (fmul (bs_alpha bc) (fsub s cur)))"

definition learn :: "rates \<Rightarrow> baseline_settings \<Rightarrow> int \<Rightarrow> baseline_state \<Rightarrow> baseline_state" where
  "learn r bc now b =
     (if \<not> ba_valid b
      then \<lparr> ba_pps = rt_pps r, ba_mbps = rt_mbps r, ba_fps = rt_fps r, ba_first = now, ba_valid = True \<rparr>
      else b \<lparr> ba_pps := ewma_up bc (ba_pps b) (rt_pps r), ba_mbps := ewma_up bc (ba_mbps b) (rt_mbps r),
             ba_fps := ewma_up bc (ba_fps b) (rt_fps r) \<rparr>)"

definition warmed_up :: "baseline_settings \<Rightarrow> int \<Rightarrow> baseline_state \<Rightarrow> bool" where
  "warmed_up bc now b \<longleftrightarrow> ba_valid b \<and> bs_warmup bc \<le> now - ba_first b"

definition base_rates :: "baseline_state \<Rightarrow> rates option" where
  "base_rates b = (if \<not> ba_valid b then None
     else Some (rates_zero \<lparr> rt_pps := ba_pps b, rt_mbps := ba_mbps b, rt_fps := ba_fps b \<rparr>))"

definition floor_clamped :: "64 word \<Rightarrow> 64 word \<Rightarrow> 64 word" where
  "floor_clamped flr static = (if static < flr then static else flr)"

text \<open>The closure \<^verbatim>\<open>adj\<close> of \<^verbatim>\<open>effectiveThresholds\<close>.\<close>

definition adjust :: "f64 \<Rightarrow> 64 word \<Rightarrow> f64 \<Rightarrow> 64 word \<Rightarrow> 64 word" where
  "adjust factor static base flr =
     (let prod = fmul base factor in
      if is_nan prod \<or> fle (f64_of_u64 static) prod then static
      else if flt prod (f64_of_u64 flr) then floor_clamped flr static
      else u64_of_f64 prod)"

definition effective_thresholds :: "thresholds \<Rightarrow> baseline_state \<Rightarrow> baseline_settings option \<Rightarrow> int \<Rightarrow> thresholds" where
  "effective_thresholds th b bc now = (case bc of None \<Rightarrow> th | Some c \<Rightarrow>
     if \<not> warmed_up c now b then th
     else th \<lparr> th_pps := adjust (bs_factor c) (th_pps th) (ba_pps b) (fl_pps (bs_floor c)),
               th_mbps := adjust (bs_factor c) (th_mbps th) (ba_mbps b) (fl_mbps (bs_floor c)),
               th_fps := adjust (bs_factor c) (th_fps th) (ba_fps b) (fl_fps (bs_floor c)) \<rparr>)"

section \<open>Bounds of a tightened threshold\<close>

lemma u64_of_f64_floor:
  "0 \<le> q \<Longrightarrow> q < 2 ^ 64 \<Longrightarrow> uint (u64_of_f64 (Fin q)) = \<lfloor>q\<rfloor>"
proof -
  assume q: "0 \<le> q" "q < 2 ^ 64"
  have "\<lfloor>q\<rfloor> < 2 ^ 64" using q(2) by (simp add: floor_less_iff)
  moreover have "0 \<le> \<lfloor>q\<rfloor>" using q(1) by simp
  ultimately show ?thesis using q(1) by (simp add: Let_def uint_word_of_int_eq take_bit_int_eq_self)
qed

text \<open>The three branches, with the product as a rational.\<close>

lemma adjust_bounds:
  fixes static flr :: "64 word"
  assumes "0 < flr"
  shows "adjust factor static base flr \<le> static \<and> (adjust factor static base flr = 0 \<longrightarrow> static = 0)
    \<and> (uint flr < 2 ^ 53 \<longrightarrow> min flr static \<le> adjust factor static base flr)"
proof -
  let ?p = "fmul base factor" and ?r = "adjust factor static base flr"
  consider (static) "is_nan ?p \<or> fle (f64_of_u64 static) ?p"
    | (low) "\<not> (is_nan ?p \<or> fle (f64_of_u64 static) ?p)" "flt ?p (f64_of_u64 flr)"
    | (prod) "\<not> (is_nan ?p \<or> fle (f64_of_u64 static) ?p)" "\<not> flt ?p (f64_of_u64 flr)" by blast
  then show ?thesis
  proof cases
    case static
    then show ?thesis by (simp add: adjust_def Let_def)
  next
    case low
    then have "?r = floor_clamped flr static" by (simp add: adjust_def Let_def)
    then show ?thesis using assms by (auto simp: floor_clamped_def min_def not_less)
  next
    case prod
    then have r: "?r = u64_of_f64 ?p" by (simp add: adjust_def Let_def)
    have "?p \<noteq> NaN" using prod(1) by (simp add: is_nan_def)
    then have low: "fle (f64_of_u64 flr) ?p" and high: "flt ?p (f64_of_u64 static)"
      using prod not_flt_iff [of ?p "f64_of_u64 flr"] not_flt_iff [of ?p "f64_of_u64 static"]
      by (auto simp: f64_of_u64_Fin)
    obtain q where q: "?p = Fin q" using low high by (cases ?p) (auto simp: f64_of_u64_Fin)
    have ok: "rnd64 q = q" using f64_ok_fmul [of base factor] q by (simp add: f64_ok_def)
    have fq: "rnd64 (of_int (uint flr)) \<le> q" "q < rnd64 (of_int (uint static))"
      using low high q by (simp_all add: f64_of_u64_Fin)
    have le: "q \<le> of_int (uint static)" by (rule f64r.less_rnd_le [OF ok fq(2)])
    have "(1 :: rat) \<le> of_int (uint flr)"
      using assms word_less_def [of 0 flr] by (simp only: of_int_1_le_iff) simp
    then have "rnd64 1 \<le> rnd64 (of_int (uint flr))" by (rule rnd64_mono)
    then have one: "1 \<le> q" using fq(1) rnd64_int [of 1] by simp
    have "uint static < 2 ^ 64" using uint_lt2p [of static] by simp
    then have "of_int (uint static) < (of_int (2 ^ 64) :: rat)" by (simp only: of_int_less_iff)
    then have "of_int (uint static) < (2 ^ 64 :: rat)" by simp
    then have u: "uint ?r = \<lfloor>q\<rfloor>" using u64_of_f64_floor [of q] one le r q by simp
    have "\<lfloor>q\<rfloor> \<le> uint static" using le by (simp add: floor_le_iff le_less_trans)
    then have "?r \<le> static" using u by (simp add: word_le_def)
    moreover have "?r \<noteq> 0"
    proof
      assume "?r = 0"
      then have "\<lfloor>q\<rfloor> = 0" using u by simp
      then show False using one by linarith
    qed
    moreover have "min flr static \<le> ?r" if "uint flr < 2 ^ 53"
    proof -
      have "rnd64 (of_int (uint flr)) = of_int (uint flr)" using that by (intro rnd64_int) simp
      then have "of_int (uint flr) \<le> q" using fq(1) by simp
      then have "flr \<le> ?r" using u by (simp add: word_le_def le_floor_iff)
      then show ?thesis by (auto simp: min_def)
    qed
    ultimately show ?thesis by blast
  qed
qed

definition floors_set :: "baseline_settings \<Rightarrow> bool" where
  "floors_set bc \<longleftrightarrow> 0 < fl_pps (bs_floor bc) \<and> 0 < fl_mbps (bs_floor bc) \<and> 0 < fl_fps (bs_floor bc)"

lemma effective_thresholds_bounds:
  assumes "\<forall>c \<in> set_option bc. floors_set c"
  shows "th_pps (effective_thresholds th b bc now) \<le> th_pps th \<and> th_mbps (effective_thresholds th b bc now) \<le> th_mbps th
    \<and> th_fps (effective_thresholds th b bc now) \<le> th_fps th
    \<and> (th_pps (effective_thresholds th b bc now) = 0 \<longrightarrow> th_pps th = 0)
    \<and> (th_mbps (effective_thresholds th b bc now) = 0 \<longrightarrow> th_mbps th = 0)
    \<and> (th_fps (effective_thresholds th b bc now) = 0 \<longrightarrow> th_fps th = 0)"
proof (cases "\<exists>c. bc = Some c \<and> warmed_up c now b")
  case True
  then obtain c where c: "bc = Some c" "warmed_up c now b" by blast
  then have "floors_set c" using assms by simp
  then have f: "0 < fl_pps (bs_floor c)" "0 < fl_mbps (bs_floor c)" "0 < fl_fps (bs_floor c)"
    by (simp_all add: floors_set_def)
  note a = adjust_bounds [OF f(1), THEN conjunct1] adjust_bounds [OF f(2), THEN conjunct1]
    adjust_bounds [OF f(3), THEN conjunct1]
  note z = adjust_bounds [OF f(1), THEN conjunct2, THEN conjunct1] adjust_bounds [OF f(2), THEN conjunct2, THEN conjunct1]
    adjust_bounds [OF f(3), THEN conjunct2, THEN conjunct1]
  have e: "effective_thresholds th b bc now
      = th \<lparr> th_pps := adjust (bs_factor c) (th_pps th) (ba_pps b) (fl_pps (bs_floor c)),
             th_mbps := adjust (bs_factor c) (th_mbps th) (ba_mbps b) (fl_mbps (bs_floor c)),
             th_fps := adjust (bs_factor c) (th_fps th) (ba_fps b) (fl_fps (bs_floor c)) \<rparr>"
    using c by (simp add: effective_thresholds_def)
  have p: "th_pps (effective_thresholds th b bc now) = adjust (bs_factor c) (th_pps th) (ba_pps b) (fl_pps (bs_floor c))"
      "th_mbps (effective_thresholds th b bc now) = adjust (bs_factor c) (th_mbps th) (ba_mbps b) (fl_mbps (bs_floor c))"
      "th_fps (effective_thresholds th b bc now) = adjust (bs_factor c) (th_fps th) (ba_fps b) (fl_fps (bs_floor c))"
    by (simp_all add: e)
  show ?thesis unfolding p by (intro conjI a z)
next
  case False
  then have "effective_thresholds th b bc now = th" by (cases bc) (auto simp: effective_thresholds_def)
  then show ?thesis by simp
qed

text \<open>The per-protocol limits are never touched.\<close>

lemma effective_thresholds_proto:
  "effective_thresholds th b bc now = (effective_thresholds th b bc now) \<lparr> th_tcp_pps := th_tcp_pps th,
     th_tcp_mbps := th_tcp_mbps th, th_udp_pps := th_udp_pps th, th_udp_mbps := th_udp_mbps th,
     th_icmp_pps := th_icmp_pps th, th_icmp_mbps := th_icmp_mbps th, th_syn_pps := th_syn_pps th,
     th_syn_mbps := th_syn_mbps th, th_frag_pps := th_frag_pps th, th_frag_mbps := th_frag_mbps th \<rparr>"
  by (auto simp: effective_thresholds_def split: option.split)

section \<open>Poisoning\<close>

text \<open>Monotonicity of the float operations the EWMA uses.\<close>

lemma f64_of_mono: "p \<le> q \<Longrightarrow> fle (f64_of p) (f64_of q)"
  using rnd64_mono [of p q] by (auto simp: f64_of_def Let_def)

lemma f64_of_not_nan [simp]: "f64_of q \<noteq> NaN"
  by (simp add: f64_of_def Let_def)

lemma fle_refl: "x \<noteq> NaN \<Longrightarrow> fle x x"
  by (cases x) simp_all

lemma fle_bounds [simp]: "fle (f64_of q) PosInf" "fle NegInf (f64_of q)"
  using f64_of_not_nan [of q] by (cases "f64_of q"; simp)+

lemma fadd_mono: "fle x y \<Longrightarrow> fle (fadd (Fin a) x) (fadd (Fin a) y)"
  by (cases x; cases y) (auto intro: f64_of_mono)

lemma fsub_mono: "fle x y \<Longrightarrow> fle (fsub x (Fin a)) (fsub y (Fin a))"
  by (cases x; cases y) (auto simp: fsub_def intro!: f64_of_mono)

lemma fmul_mono: "fle x y \<Longrightarrow> 0 < a \<Longrightarrow> fle (fmul (Fin a) x) (fmul (Fin a) y)"
  by (cases x; cases y) (auto intro!: f64_of_mono mult_left_mono simp: inf_of_sign_def)

text \<open>However large the sample, the level moves no further than a sample at the clamp moves it.\<close>

lemma ewma_up_clamped:
  assumes "bs_alpha bc = Fin a" "0 < a" "cur = Fin c" "flt (Fin 0) (fmul cur (bs_factor bc))" "sample \<noteq> NaN"
  shows "fle (ewma_up bc cur sample) (ewma_up bc cur (fmul cur (bs_factor bc)))"
proof -
  let ?cap = "fmul cur (bs_factor bc)"
  let ?s = "if flt (Fin 0) ?cap \<and> flt ?cap sample then ?cap else sample"
  have cap: "?cap \<noteq> NaN" using assms(4) by auto
  have "fle ?s ?cap"
    using not_flt_iff [OF cap assms(5)] fle_refl [OF cap] assms(4) by auto
  then have "fle (fadd (Fin c) (fmul (Fin a) (fsub ?s (Fin c)))) (fadd (Fin c) (fmul (Fin a) (fsub ?cap (Fin c))))"
    by (intro fadd_mono fmul_mono fsub_mono) (use assms(2) in simp_all)
  moreover have "ewma_up bc cur sample = fadd (Fin c) (fmul (Fin a) (fsub ?s (Fin c)))"
    by (simp add: ewma_up_def Let_def assms(1,3))
  moreover have "ewma_up bc cur ?cap = fadd (Fin c) (fmul (Fin a) (fsub ?cap (Fin c)))"
    by (simp add: ewma_up_def Let_def assms(1,3) flt_irrefl)
  ultimately show ?thesis by (simp only:)
qed

end
