(* ===== verification/Ordering.thy ===== *)
theory Ordering
  imports Prelude "HOL-Library.List_Lexorder" "HOL-Library.Char_ord"
begin

text \<open>
  \<^verbatim>\<open>sort.Slice\<close> with a comparator. Go's sort is not stable; every slice modelled here is sorted by
  a comparator that separates its elements, so a stable sort gives the same slice. Strings are
  compared byte by byte.
\<close>

fun insert_by :: "('a \<Rightarrow> 'a \<Rightarrow> bool) \<Rightarrow> 'a \<Rightarrow> 'a list \<Rightarrow> 'a list" where
  "insert_by lt x [] = [x]"
| "insert_by lt x (y # ys) = (if lt y x then y # insert_by lt x ys else x # y # ys)"

definition sort_by :: "('a \<Rightarrow> 'a \<Rightarrow> bool) \<Rightarrow> 'a list \<Rightarrow> 'a list" where
  "sort_by lt xs = foldr (insert_by lt) xs []"

lemma set_insert_by [simp]: "set (insert_by lt x ys) = insert x (set ys)"
  by (induction ys) auto

lemma set_sort_by [simp]: "set (sort_by lt xs) = set xs"
  unfolding sort_by_def by (induction xs) auto

lemma length_insert_by [simp]: "length (insert_by lt x ys) = Suc (length ys)"
  by (induction ys) auto

lemma length_sort_by [simp]: "length (sort_by lt xs) = length xs"
  unfolding sort_by_def by (induction xs) auto

lemma distinct_insert_by [simp]: "distinct (insert_by lt x ys) \<longleftrightarrow> x \<notin> set ys \<and> distinct ys"
  by (induction ys) auto

lemma distinct_sort_by [simp]: "distinct (sort_by lt xs) = distinct xs"
proof -
  have "set (foldr (insert_by lt) ys []) = set ys" for ys by (induction ys) auto
  then show ?thesis unfolding sort_by_def by (induction xs) auto
qed

text \<open>The result is a permutation: it holds every element as often.\<close>

lemma count_insert_by: "count_list (insert_by lt x ys) z = count_list (x # ys) z"
  by (induction ys) auto

lemma count_sort_by: "count_list (sort_by lt xs) z = count_list xs z"
  unfolding sort_by_def by (induction xs) (simp_all add: count_insert_by)

lemma sort_by_Nil [simp]: "sort_by lt [] = []"
  by (simp add: sort_by_def)

lemma sort_by_Cons: "sort_by lt (x # xs) = insert_by lt x (sort_by lt xs)"
  by (simp add: sort_by_def)

text \<open>The contract of a comparator: a strict order whose incomparability is transitive.\<close>

locale comparator =
  fixes lt :: "'a \<Rightarrow> 'a \<Rightarrow> bool"
  assumes asym: "lt x y \<Longrightarrow> \<not> lt y x"
    and neg_trans: "\<not> lt x y \<Longrightarrow> \<not> lt y z \<Longrightarrow> \<not> lt x z"
begin

lemma insert_by_sorted:
  "sorted_wrt (\<lambda>a b. \<not> lt b a) ys \<Longrightarrow> sorted_wrt (\<lambda>a b. \<not> lt b a) (insert_by lt x ys)"
proof (induction ys)
  case (Cons y ys)
  show ?case using Cons.IH Cons.prems asym [of y x] neg_trans [of _ y x]
    by (cases "lt y x") simp_all
qed simp

lemma sort_by_sorted: "sorted_wrt (\<lambda>a b. \<not> lt b a) (sort_by lt xs)"
  unfolding sort_by_def by (induction xs) (auto intro: insert_by_sorted)

lemma head_first: "sort_by lt xs = y # ys \<Longrightarrow> x \<in> set xs \<Longrightarrow> \<not> lt x y"
proof
  assume s: "sort_by lt xs = y # ys" "x \<in> set xs" "lt x y"
  then have "x \<in> set (y # ys)" using set_sort_by [of lt xs] by simp
  then show False using sort_by_sorted [of xs] asym [of y y] s(1,3) by auto
qed

text \<open>What a cut keeps is never behind what it drops.\<close>

lemma take_heaviest:
  "x \<in> set (take k (sort_by lt xs)) \<Longrightarrow> y \<in> set (drop k (sort_by lt xs)) \<Longrightarrow> \<not> lt y x"
proof -
  assume xy: "x \<in> set (take k (sort_by lt xs))" "y \<in> set (drop k (sort_by lt xs))"
  have "sorted_wrt (\<lambda>a b. \<not> lt b a) (take k (sort_by lt xs) @ drop k (sort_by lt xs))"
    unfolding append_take_drop_id by (rule sort_by_sorted)
  then show ?thesis using xy unfolding sorted_wrt_append by blast
qed

end

text \<open>Heaviest first, ties by name.\<close>

definition by_weight :: "('a \<Rightarrow> 'w :: linorder) \<Rightarrow> ('a \<Rightarrow> 'n :: linorder) \<Rightarrow> 'a \<Rightarrow> 'a \<Rightarrow> bool" where
  "by_weight weight name x y \<longleftrightarrow> (if weight x \<noteq> weight y then weight y < weight x else name x < name y)"

lemma by_weight_iff: "by_weight weight name x y \<longleftrightarrow> weight y < weight x \<or> weight x = weight y \<and> name x < name y"
  by (auto simp: by_weight_def)

interpretation heavy: comparator "by_weight weight name"
proof
  show "by_weight weight name x y \<Longrightarrow> \<not> by_weight weight name y x" for x y
    by (auto simp: by_weight_iff)
  show "\<not> by_weight weight name x z" if xy: "\<not> by_weight weight name x y" and yz: "\<not> by_weight weight name y z" for x y z
  proof
    assume xz: "by_weight weight name x z"
    have le: "weight x \<le> weight y" "weight y \<le> weight z" using xy yz by (simp_all add: by_weight_iff not_less)
    moreover have "weight z \<le> weight x" using xz by (auto simp: by_weight_iff)
    ultimately have eq: "weight x = weight y" "weight y = weight z" by auto
    then have "name y \<le> name x" "name z \<le> name y" "name x < name z"
      using xy yz xz by (simp_all add: by_weight_iff not_less)
    then show False by auto
  qed
qed

lemma heaviest_head:
  "sort_by (by_weight weight name) xs = y # ys \<Longrightarrow> x \<in> set xs \<Longrightarrow> weight x \<le> weight y"
  using heavy.head_first [of weight name xs y ys x] by (auto simp: by_weight_def split: if_splits)

end
