(* ===== verification/Classify.thy ===== *)
theory Classify
  imports FlowRules
begin

text \<open>
  The attack classifier (\<^verbatim>\<open>src/engine/internal/engine/classify.go\<close>): the vector inferred from the
  per-protocol rates and the flow sample. The lemmas: which signature wins and when there is none,
  and that the vector names the port the mitigation rules filter.
\<close>

definition dominant_share :: f64 where "dominant_share = Fin (1 / 2)"
definition amplified_min_bytes :: "64 word" where "amplified_min_bytes = 200"

definition amplification_ports :: "16 word \<Rightarrow> attack_type option" where
  "amplification_ports p = (if p = 123 then Some AttackNTP else if p = 53 then Some AttackDNS
     else if p = 389 then Some AttackCLDAP else if p = 11211 then Some AttackMemcached
     else if p = 1900 then Some AttackSSDP else if p = 19 then Some AttackChargen else None)"

definition amplification_signature :: "attack_sample option \<Rightarrow> (attack_type \<times> 16 word \<times> f64) option" where
  "amplification_signature sample = (case sample of None \<Rightarrow> None | Some s \<Rightarrow>
     (case sm_src_ports s of [] \<Rightarrow> None | head # _ \<Rightarrow>
        if sm_total s = 0 then None
        else case parse_uint 16 (ct_key head) of None \<Rightarrow> None | Some n \<Rightarrow>
          (case amplification_ports (of_nat n) of None \<Rightarrow> None | Some typ \<Rightarrow>
             let share = fdiv (f64_of_u64 (ct_packets head)) (f64_of_u64 (sm_total s)) in
             if flt share dominant_share then None
             else if ct_packets head = 0 \<or> ct_bytes head div ct_packets head < amplified_min_bytes then None
             else Some (typ, of_nat n, share))))"

definition verdict :: "attack_type \<Rightarrow> f64 \<Rightarrow> 16 word \<Rightarrow> classification" where
  "verdict typ conf port = \<lparr> cl_type = typ, cl_confidence = conf, cl_src_port = port \<rparr>"

definition classify :: "rates \<Rightarrow> attack_sample option \<Rightarrow> classification option" where
  "classify r s =
     (if fle (rt_pps r) (Fin 0) then None
      else let udp = fdiv (rt_udp_pps r) (rt_pps r); syn = fdiv (rt_syn_pps r) (rt_pps r);
               tcp = fdiv (rt_tcp_pps r) (rt_pps r); icmp = fdiv (rt_icmp_pps r) (rt_pps r);
               frag = fdiv (rt_frag_pps r) (rt_pps r) in
        Some (case if fle dominant_share udp then amplification_signature s else None of
          Some (typ, port, share) \<Rightarrow> verdict typ share port
        | None \<Rightarrow>
            if fle dominant_share syn then verdict AttackSYNFlood syn 0
            else if fle dominant_share frag then verdict AttackFragmentFlood frag 0
            else if fle dominant_share icmp then verdict AttackICMPFlood icmp 0
            else if fle dominant_share udp then verdict AttackUDPFlood udp 0
            else if fle dominant_share tcp then verdict AttackTCPFlood tcp 0
            else verdict AttackMixed (Fin 0) 0))"

fun attack_type_name :: "attack_type \<Rightarrow> string" where
  "attack_type_name AttackNone = ''''"
| "attack_type_name AttackNTP = ''ntp_amplification''"
| "attack_type_name AttackDNS = ''dns_amplification''"
| "attack_type_name AttackCLDAP = ''cldap_amplification''"
| "attack_type_name AttackMemcached = ''memcached_amplification''"
| "attack_type_name AttackSSDP = ''ssdp_amplification''"
| "attack_type_name AttackChargen = ''chargen_amplification''"
| "attack_type_name AttackSYNFlood = ''syn_flood''"
| "attack_type_name AttackFragmentFlood = ''fragment_flood''"
| "attack_type_name AttackICMPFlood = ''icmp_flood''"
| "attack_type_name AttackUDPFlood = ''udp_flood''"
| "attack_type_name AttackTCPFlood = ''tcp_flood''"
| "attack_type_name AttackMixed = ''mixed''"

definition attack_types :: "attack_type list" where
  "attack_types = [AttackNTP, AttackDNS, AttackCLDAP, AttackMemcached, AttackSSDP, AttackChargen,
     AttackSYNFlood, AttackFragmentFlood, AttackICMPFlood, AttackUDPFlood, AttackTCPFlood, AttackMixed]"

definition cls_type :: "classification option \<Rightarrow> string" where
  "cls_type c = (case c of None \<Rightarrow> ''unclassified'' | Some x \<Rightarrow> attack_type_name (cl_type x))"

section \<open>Laws\<close>

text \<open>Detection and mitigation agree on the reflected ports.\<close>

lemma amplification_ports_reflected:
  "amplification_ports p = Some t \<longleftrightarrow> reflected_port t = Some p"
  by (cases t) (auto simp: amplification_ports_def reflected_port_def)

lemma amplification_signature_sound:
  assumes "amplification_signature s = Some (t, p, share)"
  shows "reflected_port t = Some p \<and> \<not> flt share dominant_share
    \<and> (\<exists>x head rest. s = Some x \<and> sm_src_ports x = head # rest \<and> sm_total x \<noteq> 0 \<and> ct_packets head \<noteq> 0
         \<and> share = fdiv (f64_of_u64 (ct_packets head)) (f64_of_u64 (sm_total x))
         \<and> amplified_min_bytes \<le> ct_bytes head div ct_packets head)"
  using assms
  by (auto simp: amplification_signature_def amplification_ports_reflected Let_def not_less
      split: option.splits list.splits if_splits)

lemma rnd64_u64_ge_1: "(w :: 64 word) \<noteq> 0 \<Longrightarrow> 1 \<le> rnd64 (of_int (uint w))"
proof -
  assume "w \<noteq> 0"
  then have "1 \<le> uint w" using uint_ge_0 [of w] by (metis int_one_le_iff_zero_less linorder_not_le uint_0_iff order_antisym)
  then have "(1 :: rat) \<le> of_int (uint w)" by (simp only: of_int_1_le_iff)
  then have "rnd64 1 \<le> rnd64 (of_int (uint w))" by (rule rnd64_mono)
  then show ?thesis using rnd64_int [of 1] by simp
qed

lemma share_not_nan:
  fixes a b :: "64 word"
  assumes "b \<noteq> 0" shows "fdiv (f64_of_u64 a) (f64_of_u64 b) \<noteq> NaN"
proof -
  have "rnd64 (of_int (uint b)) \<noteq> 0" using rnd64_u64_ge_1 [OF assms] by simp
  then show ?thesis by (simp add: f64_of_u64_Fin f64_of_def Let_def del: of_int_uint)
qed

lemma amplification_signature_dominant:
  "amplification_signature s = Some (t, p, share) \<Longrightarrow> fle dominant_share share"
proof -
  assume a: "amplification_signature s = Some (t, p, share)"
  then obtain x :: attack_sample and head :: counter where "sm_total x \<noteq> 0" "share = fdiv (f64_of_u64 (ct_packets head)) (f64_of_u64 (sm_total x))"
    "\<not> flt share dominant_share"
    using amplification_signature_sound [OF a] by blast
  then show ?thesis using not_flt_iff [of share dominant_share] share_not_nan by (simp add: dominant_share_def)
qed

lemma classify_None_iff: "classify r s = None \<longleftrightarrow> fle (rt_pps r) (Fin 0)"
  by (simp add: classify_def Let_def)

text \<open>The winner of \<open>classify\<close>, one rule per branch.\<close>

lemma classify_cases:
  assumes "classify r s = Some c"
  obtains (amplified) t port share where "amplification_signature s = Some (t, port, share)" "c = verdict t share port"
      "fle dominant_share (fdiv (rt_udp_pps r) (rt_pps r))"
  | (syn) "fle dominant_share (fdiv (rt_syn_pps r) (rt_pps r))" "c = verdict AttackSYNFlood (fdiv (rt_syn_pps r) (rt_pps r)) 0"
  | (frag) "fle dominant_share (fdiv (rt_frag_pps r) (rt_pps r))" "c = verdict AttackFragmentFlood (fdiv (rt_frag_pps r) (rt_pps r)) 0"
  | (icmp) "fle dominant_share (fdiv (rt_icmp_pps r) (rt_pps r))" "c = verdict AttackICMPFlood (fdiv (rt_icmp_pps r) (rt_pps r)) 0"
  | (udp) "fle dominant_share (fdiv (rt_udp_pps r) (rt_pps r))" "c = verdict AttackUDPFlood (fdiv (rt_udp_pps r) (rt_pps r)) 0"
  | (tcp) "fle dominant_share (fdiv (rt_tcp_pps r) (rt_pps r))" "c = verdict AttackTCPFlood (fdiv (rt_tcp_pps r) (rt_pps r)) 0"
  | (mixed) "c = verdict AttackMixed (Fin 0) 0"
      "\<not> fle dominant_share (fdiv (rt_syn_pps r) (rt_pps r))" "\<not> fle dominant_share (fdiv (rt_frag_pps r) (rt_pps r))"
      "\<not> fle dominant_share (fdiv (rt_icmp_pps r) (rt_pps r))" "\<not> fle dominant_share (fdiv (rt_udp_pps r) (rt_pps r))"
      "\<not> fle dominant_share (fdiv (rt_tcp_pps r) (rt_pps r))"
  using assms unfolding classify_def Let_def
  by (force split: if_splits option.splits prod.splits)

lemma verdict_simps [simp]:
  "cl_type (verdict t f p) = t" "cl_confidence (verdict t f p) = f" "cl_src_port (verdict t f p) = p"
  by (simp_all add: verdict_def)

text \<open>What a classification says of the traffic.\<close>

definition classified :: "classification \<Rightarrow> bool" where
  "classified c \<longleftrightarrow> cl_type c \<in> set attack_types
     \<and> (if cl_type c = AttackMixed then cl_confidence c = Fin 0 else fle dominant_share (cl_confidence c))
     \<and> (if is_amplification (cl_type c) then reflected_port (cl_type c) = Some (cl_src_port c) else cl_src_port c = 0)"

lemma reflected_type: "reflected_port t = Some p \<Longrightarrow> t \<in> set attack_types \<and> t \<noteq> AttackMixed"
  by (cases t) (simp_all add: reflected_port_def attack_types_def)

lemma classify_sound: "classify r s = Some c \<Longrightarrow> classified c"
proof (erule classify_cases)
  fix t port share
  assume a: "amplification_signature s = Some (t, port, share)" and c: "c = verdict t share port"
  have "reflected_port t = Some port" using amplification_signature_sound [OF a] by (rule conjunct1)
  then show ?thesis using c amplification_signature_dominant [OF a] reflected_type
    by (simp add: classified_def is_amplification_def)
qed (simp_all add: classified_def is_amplification_def reflected_port_def attack_types_def)

end
