(* ===== verification/SampleRing.thy ===== *)
theory SampleRing
  imports Events Ordering
begin

text \<open>
  The per-shard ring of recent flows and the split of the raw-flow budget over the shards
  (\<^verbatim>\<open>src/engine/internal/engine/sample.go\<close>: \<open>scan_ring\<close>, \<open>group_quotas\<close>; the write is the end of
  \<^verbatim>\<open>record\<close> in \<^verbatim>\<open>engine.go\<close>). The ring refines the list of recorded flows, newest first and cut at its
  capacity; the scan that stops early misses nothing of the window; the quotas spend the budget exactly.
\<close>

section \<open>The ring\<close>

definition flow_zero :: flow where
  "flow_zero = \<lparr> f_src = AddrNone, f_dst = AddrNone, f_exporter = AddrNone, f_bytes = 0, f_packets = 0, f_rate = 0,
     f_in_if = 0, f_out_if = 0, f_src_vlan = 0, f_dst_vlan = 0, f_src_mac = 0, f_dst_mac = 0, f_src_port = 0,
     f_dst_port = 0, f_proto = 0, f_tcp_flags = 0, f_fragment = False, f_wire = ProtoUnknown \<rparr>"

record sample_entry =
  se_flow :: flow
  se_epoch :: int
  se_dir :: nat

definition sample_zero :: sample_entry where
  "sample_zero = \<lparr> se_flow = flow_zero, se_epoch = 0, se_dir = 0 \<rparr>"

text \<open>A shard's ring and its write position. An empty ring is sampling switched off.\<close>

record sample_ring =
  sr_ring :: "sample_entry list"
  sr_pos :: nat

definition new_sample_ring :: "nat \<Rightarrow> sample_ring" where
  "new_sample_ring n = \<lparr> sr_ring = replicate n sample_zero, sr_pos = 0 \<rparr>"

definition push_sample :: "sample_entry \<Rightarrow> sample_ring \<Rightarrow> sample_ring" where
  "push_sample e sr =
     (if sr_ring sr = [] then sr
      else let pos = sr_pos sr + 1 in
        sr \<lparr> sr_ring := (sr_ring sr)[sr_pos sr := e], sr_pos := (if pos = length (sr_ring sr) then 0 else pos) \<rparr>)"

text \<open>The backwards walk of \<^verbatim>\<open>scanRing\<close>, as the list of the entries it visits.\<close>

definition scan_index :: "sample_ring \<Rightarrow> nat \<Rightarrow> nat" where
  "scan_index sr i = (let idx = int (sr_pos sr) - 1 - int i in
     nat (if idx < 0 then idx + int (length (sr_ring sr)) else idx))"

definition newest_first :: "sample_ring \<Rightarrow> sample_entry list" where
  "newest_first sr = map (\<lambda>i. sr_ring sr ! scan_index sr i) [0..<length (sr_ring sr)]"

fun scan_list :: "int \<Rightarrow> sample_entry list \<Rightarrow> sample_entry list" where
  "scan_list since [] = []"
| "scan_list since (e # es) =
     (if se_epoch e = 0 \<or> se_epoch e < since - 1 then []
      else if se_epoch e < since then scan_list since es
      else e # scan_list since es)"

definition scan_ring :: "sample_ring \<Rightarrow> int \<Rightarrow> sample_entry list" where
  "scan_ring sr since = scan_list since (newest_first sr)"

section \<open>The ring refines the record of the flows\<close>

definition ring_wf :: "sample_ring \<Rightarrow> bool" where
  "ring_wf sr \<longleftrightarrow> (sr_ring sr = [] \<longrightarrow> sr_pos sr = 0) \<and> (sr_ring sr \<noteq> [] \<longrightarrow> sr_pos sr < length (sr_ring sr))"

lemma new_sample_ring_wf [intro]: "ring_wf (new_sample_ring n)"
  by (simp add: ring_wf_def new_sample_ring_def)

lemma push_wf [inv_rules]: "ring_wf sr \<Longrightarrow> ring_wf (push_sample e sr)"
  by (cases "length (sr_ring sr)") (auto simp: ring_wf_def push_sample_def Let_def)

lemma push_length [simp]: "length (sr_ring (push_sample e sr)) = length (sr_ring sr)"
  by (simp add: push_sample_def Let_def)

lemma length_newest [simp]: "length (newest_first sr) = length (sr_ring sr)"
  by (simp add: newest_first_def)

lemma newest_nth:
  "i < length (sr_ring sr) \<Longrightarrow> newest_first sr ! i = sr_ring sr ! scan_index sr i"
  by (simp add: newest_first_def)

lemma push_newest:
  assumes "ring_wf sr"
  shows "newest_first (push_sample e sr) = take (length (sr_ring sr)) (e # newest_first sr)"
proof (cases "sr_ring sr = []")
  case True
  then show ?thesis by (simp add: push_sample_def newest_first_def)
next
  case False
  let ?n = "length (sr_ring sr)" and ?sr = "push_sample e sr"
  have pos: "sr_pos sr < ?n" using assms False by (simp add: ring_wf_def)
  have ring: "sr_ring ?sr = (sr_ring sr)[sr_pos sr := e]" using False by (simp add: push_sample_def Let_def)
  show ?thesis
  proof (rule nth_equalityI)
    fix i assume "i < length (newest_first ?sr)"
    then have i: "i < ?n" by simp
    show "newest_first ?sr ! i = take ?n (e # newest_first sr) ! i"
    proof (cases i)
      case 0
      have "scan_index ?sr 0 = sr_pos sr" using False pos
        by (auto simp: scan_index_def push_sample_def Let_def)
      then show ?thesis using 0 i pos by (simp add: newest_nth ring)
    next
      case (Suc j)
      have "scan_index ?sr i = scan_index sr j" using False pos i Suc
        by (auto simp: scan_index_def push_sample_def Let_def)
      moreover have "scan_index sr j \<noteq> sr_pos sr" using False pos i Suc
        by (auto simp: scan_index_def Let_def)
      ultimately show ?thesis using Suc i by (simp add: newest_nth ring)
    qed
  qed simp
qed

definition push_all :: "sample_entry list \<Rightarrow> sample_ring \<Rightarrow> sample_ring" where
  "push_all es sr = fold push_sample es sr"

lemma push_all_length [simp]: "length (sr_ring (push_all es sr)) = length (sr_ring sr)"
  unfolding push_all_def by (induction es arbitrary: sr) simp_all

lemma push_all_newest:
  "ring_wf sr \<Longrightarrow> newest_first (push_all es sr) = take (length (sr_ring sr)) (rev es @ newest_first sr)"
proof (induction es rule: rev_induct)
  case Nil
  then show ?case by (simp add: push_all_def)
next
  case (snoc e es)
  have "ring_wf (push_all es sr)" using snoc.prems unfolding push_all_def
    by (induction es arbitrary: sr) (auto intro: inv_rules)
  then have "newest_first (push_sample e (push_all es sr))
      = take (length (sr_ring sr)) (e # newest_first (push_all es sr))"
    using push_newest by fastforce
  also have "\<dots> = take (length (sr_ring sr)) (e # rev es @ newest_first sr)"
    unfolding snoc.IH [OF snoc.prems] by (cases "length (sr_ring sr)") (simp_all del: take_append)
  finally show ?case by (simp add: push_all_def)
qed

text \<open>Epochs that disagree by at most a second with every older one.\<close>

fun nearly_ordered :: "int list \<Rightarrow> bool" where
  "nearly_ordered [] = True"
| "nearly_ordered (t # ts) \<longleftrightarrow> (\<forall>u \<in> set ts. u \<le> t + 1) \<and> nearly_ordered ts"

lemma scan_list_complete:
  "nearly_ordered (map se_epoch es) \<Longrightarrow> \<forall>e \<in> set es. 0 < se_epoch e
   \<Longrightarrow> scan_list since es = filter (\<lambda>e. since \<le> se_epoch e) es"
proof (induction es)
  case (Cons e es)
  show ?case
  proof (cases "se_epoch e < since - 1")
    case True
    then have "\<forall>x \<in> set es. \<not> since \<le> se_epoch x" using Cons.prems(1) by auto
    then show ?thesis using True by (simp add: filter_empty_conv)
  qed (use Cons in auto)
qed simp

lemma scan_list_prefix_zero:
  "\<forall>e \<in> set es. 0 < se_epoch e \<Longrightarrow> \<forall>z \<in> set zs. se_epoch z = 0 \<Longrightarrow> scan_list since (es @ zs) = scan_list since es"
  by (induction es) (cases zs; auto)+

lemma nearly_ordered_take: "nearly_ordered ts \<Longrightarrow> nearly_ordered (take n ts)"
  by (induction ts arbitrary: n) (auto simp: take_Cons' dest: in_set_takeD)

text \<open>The scan returns exactly the flows of the window among the last ones the ring holds.\<close>

lemma scan_ring_refines:
  assumes "nearly_ordered (map se_epoch (rev es))" "\<forall>e \<in> set es. 0 < se_epoch e"
  shows "scan_ring (push_all es (new_sample_ring n)) since
    = filter (\<lambda>e. since \<le> se_epoch e) (take n (rev es))"
proof -
  have "newest_first (new_sample_ring n) = replicate n sample_zero"
    by (rule nth_equalityI) (auto simp: newest_nth new_sample_ring_def scan_index_def)
  then have "newest_first (push_all es (new_sample_ring n)) = take n (rev es) @ replicate (n - length es) sample_zero"
    using push_all_newest [OF new_sample_ring_wf, of es n]
    by (simp add: new_sample_ring_def take_replicate min_def)
  moreover have "\<forall>e \<in> set (take n (rev es)). 0 < se_epoch e" using assms(2) by (auto dest: in_set_takeD)
  ultimately have "scan_ring (push_all es (new_sample_ring n)) since = scan_list since (take n (rev es))"
    unfolding scan_ring_def by (simp add: scan_list_prefix_zero sample_zero_def)
  moreover have "nearly_ordered (map se_epoch (take n (rev es)))"
    using nearly_ordered_take [OF assms(1)] by (simp add: take_map)
  moreover have "\<forall>e \<in> set (take n (rev es)). 0 < se_epoch e" using assms(2) by (auto dest: in_set_takeD)
  ultimately show ?thesis by (simp only: scan_list_complete)
qed

section \<open>Quotas\<close>

text \<open>Shards as pairs of index and match count, heaviest first.\<close>

definition quota_shards :: "int list \<Rightarrow> (nat \<times> int) list" where
  "quota_shards counts = sort_by (by_weight snd fst) (filter (\<lambda>s. 0 < snd s) (enumerate 0 counts))"

fun guarantee :: "(nat \<times> int) list \<Rightarrow> int list \<Rightarrow> int \<Rightarrow> int list \<times> int" where
  "guarantee [] q r = (q, r)"
| "guarantee ((i, c) # ss) q r = guarantee ss (q[i := 1]) (r - 1)"

text \<open>One round of proportional shares, and one of the leftovers.\<close>

fun share_pass :: "int \<Rightarrow> int \<Rightarrow> (nat \<times> int) list \<Rightarrow> int list \<Rightarrow> int \<Rightarrow> int \<Rightarrow> int list \<times> int \<times> int" where
  "share_pass budget tot [] q r g = (q, r, g)"
| "share_pass budget tot ((i, c) # ss) q r g =
     (if r = 0 then (q, r, g)
      else if budget * c div tot - q ! i \<le> 0 then share_pass budget tot ss q r g
      else share_pass budget tot ss (q[i := q ! i + 1]) (r - 1) (g + 1))"

fun leftover_pass :: "(nat \<times> int) list \<Rightarrow> int list \<Rightarrow> int \<Rightarrow> int \<Rightarrow> int list \<times> int \<times> int" where
  "leftover_pass [] q r g = (q, r, g)"
| "leftover_pass ((i, c) # ss) q r g =
     (if r = 0 then (q, r, g)
      else if q ! i < c then leftover_pass ss (q[i := q ! i + 1]) (r - 1) (g + 1)
      else leftover_pass ss q r g)"

text \<open>Every grant is paid for, and a pass grants no more than what is left.\<close>

definition paid :: "int list \<times> int \<Rightarrow> int list \<times> int \<times> int \<Rightarrow> int \<Rightarrow> bool" where
  "paid s t g = (case (s, t) of ((q, r), (q', r', g')) \<Rightarrow>
     length q' = length q \<and> r' = r - (g' - g) \<and> g \<le> g' \<and> 0 \<le> r' \<and> sum_list q' + r' = sum_list q + r
     \<and> (\<forall>i < length q. q ! i \<le> q' ! i))"

lemma paid_trans:
  "paid (q, r) (q1, r1, g1) g \<Longrightarrow> paid (q1, r1) (q2, r2, g2) g1 \<Longrightarrow> paid (q, r) (q2, r2, g2) g"
  by (fastforce simp: paid_def)

lemma sum_list_bump: "i < length q \<Longrightarrow> sum_list (q[i := q ! i + (x :: int)]) = sum_list q + x"
  by (induction q arbitrary: i) (auto split: nat.split)

lemma paid_grant:
  "i < length q \<Longrightarrow> 0 < r \<Longrightarrow> paid (q, r) (q[i := q ! i + 1], r - 1, g + 1) g"
  by (auto simp: paid_def sum_list_bump nth_list_update)

lemma paid_refl: "0 \<le> r \<Longrightarrow> paid (q, r) (q, r, g) g"
  by (simp add: paid_def)

lemma share_pass_paid:
  "0 \<le> r \<Longrightarrow> \<forall>s \<in> set ss. fst s < length q \<Longrightarrow> paid (q, r) (share_pass budget tot ss q r g) g"
proof (induction budget tot ss q r g rule: share_pass.induct)
  case (2 budget tot i c ss q r g)
  then show ?case
    using paid_trans [OF paid_grant [of i q r g]] paid_refl
    by (cases "share_pass budget tot ss (q[i := q ! i + 1]) (r - 1) (g + 1)") simp
qed (simp add: paid_refl)

lemma leftover_pass_paid:
  "0 \<le> r \<Longrightarrow> \<forall>s \<in> set ss. fst s < length q \<Longrightarrow> paid (q, r) (leftover_pass ss q r g) g"
proof (induction ss q r g rule: leftover_pass.induct)
  case (2 i c ss q r g)
  then show ?case
    using paid_trans [OF paid_grant [of i q r g]] paid_refl
    by (cases "leftover_pass ss (q[i := q ! i + 1]) (r - 1) (g + 1)") simp
qed (simp add: paid_refl)

text \<open>What a pass takes off the rest is what it grants, so the rounds end.\<close>

lemma share_pass_rest: "share_pass budget tot ss q r g = (q1, r1, g1) \<Longrightarrow> r1 = r - (g1 - g) \<and> g \<le> g1"
  by (induction budget tot ss q r g rule: share_pass.induct) (force split: if_splits)+

lemma leftover_pass_rest: "leftover_pass ss q r g = (q1, r1, g1) \<Longrightarrow> r1 = r - (g1 - g) \<and> g \<le> g1"
  by (induction ss q r g rule: leftover_pass.induct) (force split: if_splits)+

function quota_rounds :: "int \<Rightarrow> int \<Rightarrow> (nat \<times> int) list \<Rightarrow> int list \<Rightarrow> int \<Rightarrow> int list" where
  "quota_rounds budget tot ss q r =
     (if r \<le> 0 then q
      else case share_pass budget tot ss q r 0 of (q1, r1, g1) \<Rightarrow>
        if g1 \<noteq> 0 then quota_rounds budget tot ss q1 r1
        else case leftover_pass ss q1 r1 0 of (q2, r2, g2) \<Rightarrow>
          if g2 \<noteq> 0 then quota_rounds budget tot ss q2 r2 else q2)"
  by pat_completeness auto
termination
  by (relation "measure (\<lambda>(budget, tot, ss, q, r). nat r)")
    (auto dest!: share_pass_rest [OF sym] leftover_pass_rest [OF sym])

declare quota_rounds.simps [simp del]

definition group_quotas :: "int list \<Rightarrow> int \<Rightarrow> int \<Rightarrow> int list" where
  "group_quotas counts tot budget =
     (let all = quota_shards counts;
          ss = (if budget < int (length all) then take (nat budget) all else all);
          (q, r) = guarantee ss (replicate (length counts) 0) budget
      in quota_rounds budget tot ss q r)"

section \<open>The quotas spend the budget\<close>

lemma quota_rounds_spends:
  "0 \<le> r \<Longrightarrow> \<forall>s \<in> set ss. fst s < length q \<Longrightarrow>
     length (quota_rounds budget tot ss q r) = length q
     \<and> sum_list (quota_rounds budget tot ss q r) \<le> sum_list q + r
     \<and> (\<forall>i < length q. q ! i \<le> quota_rounds budget tot ss q r ! i)"
proof (induction budget tot ss q r rule: quota_rounds.induct)
  case (1 budget tot ss q r)
  obtain q1 r1 g1 where p1: "share_pass budget tot ss q r 0 = (q1, r1, g1)" by (metis prod_cases3)
  obtain q2 r2 g2 where p2: "leftover_pass ss q1 r1 0 = (q2, r2, g2)" by (metis prod_cases3)
  have s1: "paid (q, r) (q1, r1, g1) 0" using share_pass_paid [of r ss q budget tot 0] 1(3,4) p1 by simp
  then have s2: "paid (q1, r1) (q2, r2, g2) 0" using leftover_pass_paid [of r1 ss q1 0] 1(4) p2
    by (auto simp: paid_def)
  show ?case
  proof (cases "r \<le> 0")
    case True
    then show ?thesis using 1(3) by (simp add: quota_rounds.simps [of _ _ _ q])
  next
    case False
    consider "g1 \<noteq> 0" | "g1 = 0" "g2 \<noteq> 0" | "g1 = 0" "g2 = 0" by blast
    then show ?thesis
    proof cases
      case 1
      then show ?thesis using "1.IH"(1) [OF False p1 [symmetric]] s1 1 p1 False "1.prems"
        by (fastforce simp: quota_rounds.simps [of _ _ _ q] paid_def)
    next
      case 2
      then show ?thesis using "1.IH"(2) [OF False p1 [symmetric]] s1 s2 p1 p2 False "1.prems"
        by (fastforce simp: quota_rounds.simps [of _ _ _ q] paid_def)
    next
      case 3
      then show ?thesis using s1 s2 p1 p2 False by (fastforce simp: quota_rounds.simps [of _ _ _ q] paid_def)
    qed
  qed
qed

lemma share_pass_none:
  "share_pass budget tot ss q r g = (q1, r1, g1) \<Longrightarrow> g1 = g \<Longrightarrow> q1 = q \<and> r1 = r"
proof (induction budget tot ss q r g rule: share_pass.induct)
  case (2 budget tot i c ss q r g)
  then show ?case using share_pass_rest [of budget tot ss "q[i := q ! i + 1]" "r - 1" "g + 1" q1 r1 g1]
    by (simp split: if_splits)
qed simp

lemma leftover_pass_none:
  "leftover_pass ss q r g = (q1, r1, g1) \<Longrightarrow> g1 = g \<Longrightarrow> q1 = q \<and> (r \<noteq> 0 \<longrightarrow> (\<forall>s \<in> set ss. snd s \<le> q ! fst s))"
proof (induction ss q r g rule: leftover_pass.induct)
  case (2 i c ss q r g)
  then show ?case using leftover_pass_rest [of ss "q[i := q ! i + 1]" "r - 1" "g + 1" q1 r1 g1]
    by (simp split: if_splits)
qed simp

text \<open>The rounds stop only when the budget is spent or nothing is left to take.\<close>

lemma quota_rounds_exact:
  "0 \<le> r \<Longrightarrow> \<forall>s \<in> set ss. fst s < length q \<Longrightarrow>
     sum_list (quota_rounds budget tot ss q r) = sum_list q + r
     \<or> (\<forall>s \<in> set ss. snd s \<le> quota_rounds budget tot ss q r ! fst s)"
proof (induction budget tot ss q r rule: quota_rounds.induct)
  case (1 budget tot ss q r)
  obtain q1 r1 g1 where p1: "share_pass budget tot ss q r 0 = (q1, r1, g1)" by (metis prod_cases3)
  obtain q2 r2 g2 where p2: "leftover_pass ss q1 r1 0 = (q2, r2, g2)" by (metis prod_cases3)
  have s1: "paid (q, r) (q1, r1, g1) 0" using share_pass_paid [of r ss q budget tot 0] 1(3,4) p1 by simp
  then have s2: "paid (q1, r1) (q2, r2, g2) 0" using leftover_pass_paid [of r1 ss q1 0] 1(4) p2
    by (auto simp: paid_def)
  show ?case
  proof (cases "r \<le> 0")
    case True
    then show ?thesis using 1(3) by (simp add: quota_rounds.simps [of _ _ _ q])
  next
    case False
    consider "g1 \<noteq> 0" | "g1 = 0" "g2 \<noteq> 0" | "g1 = 0" "g2 = 0" by blast
    then show ?thesis
    proof cases
      case 1
      then have e: "quota_rounds budget tot ss q r = quota_rounds budget tot ss q1 r1"
        using p1 False by (simp add: quota_rounds.simps [of _ _ _ q])
      have b: "sum_list q + r = sum_list q1 + r1" using s1 by (simp add: paid_def)
      show ?thesis unfolding e b
        by (rule "1.IH"(1) [OF False p1 [symmetric] refl 1]) (use s1 "1.prems" in \<open>simp_all add: paid_def\<close>)
    next
      case 2
      then have e: "quota_rounds budget tot ss q r = quota_rounds budget tot ss q2 r2"
        using p1 p2 False by (simp add: quota_rounds.simps [of _ _ _ q])
      have b: "sum_list q + r = sum_list q2 + r2" using s1 s2 by (simp add: paid_def)
      show ?thesis unfolding e b
        by (rule "1.IH"(2) [OF False p1 [symmetric] refl _ p2 [symmetric] refl])
          (use 2 s1 s2 "1.prems" in \<open>simp_all add: paid_def\<close>)
    next
      case 3
      then have "quota_rounds budget tot ss q r = q2"
        using p1 p2 False by (simp add: quota_rounds.simps [of _ _ _ q])
      then show ?thesis using share_pass_none [OF p1 3(1)] leftover_pass_none [OF p2 3(2)] False by auto
    qed
  qed
qed

lemma guarantee_grants:
  "guarantee ss q r = (q', r') \<Longrightarrow> distinct (map fst ss) \<Longrightarrow> \<forall>s \<in> set ss. fst s < length q \<and> q ! fst s = 0 \<Longrightarrow>
     length q' = length q \<and> r' = r - int (length ss) \<and> sum_list q' = sum_list q + int (length ss)
     \<and> (\<forall>s \<in> set ss. q' ! fst s = 1) \<and> (\<forall>i < length q. i \<notin> fst ` set ss \<longrightarrow> q' ! i = q ! i)"
proof (induction ss q r rule: guarantee.induct)
  case (2 i c ss q r)
  have "sum_list (q[i := 1]) = sum_list q + 1" using "2.prems" sum_list_bump [of i q 1] by simp
  moreover have "\<forall>s \<in> set ss. fst s < length (q[i := 1]) \<and> q[i := 1] ! fst s = 0"
    using "2.prems" by (auto simp: nth_list_update)
  ultimately show ?case using "2.IH" "2.prems" by (auto simp: nth_list_update)
qed simp

lemma quota_shards_facts:
  "distinct (map fst (quota_shards counts))"
  "s \<in> set (quota_shards counts) \<longleftrightarrow> fst s < length counts \<and> snd s = counts ! fst s \<and> 0 < snd s"
proof -
  have "distinct (map fst (filter P (enumerate 0 counts)))" for P
    using distinct_enumerate [of 0 counts]
    by (auto simp: distinct_map inj_on_def in_set_enumerate_eq intro: distinct_filter)
  then have "distinct (filter P (enumerate 0 counts)) \<and> inj_on fst (set (filter P (enumerate 0 counts)))" for P
    by (simp add: distinct_map)
  then show "distinct (map fst (quota_shards counts))"
    unfolding quota_shards_def distinct_map by simp
  show "s \<in> set (quota_shards counts) \<longleftrightarrow> fst s < length counts \<and> snd s = counts ! fst s \<and> 0 < snd s"
    by (cases s) (auto simp: quota_shards_def in_set_enumerate_eq)
qed

lemma sum_take_shards:
  assumes "\<forall>s \<in> set (quota_shards counts). counts ! fst s \<le> q ! fst s" "\<forall>i < length counts. 0 \<le> q ! i"
    and "length q = length counts"
  shows "sum_list counts \<le> sum_list q"
proof -
  have "counts ! i \<le> q ! i" if "i < length counts" for i
    using assms quota_shards_facts(2) [of "(i, counts ! i)" counts] that by (cases "0 < counts ! i") force+
  then have "sum_list (map ((!) counts) [0..<length counts]) \<le> sum_list (map ((!) q) [0..<length counts])"
    by (intro sum_list_mono) simp
  then show ?thesis using map_nth [of counts] map_nth [of q] assms(3) by simp
qed

lemma group_quotas_laws:
  assumes budget: "0 \<le> budget"
  shows "length (group_quotas counts tot budget) = length counts
    \<and> sum_list (group_quotas counts tot budget) \<le> budget
    \<and> (\<forall>i < length counts. 0 \<le> group_quotas counts tot budget ! i)
    \<and> (\<forall>s \<in> set (take (nat budget) (quota_shards counts)). 1 \<le> group_quotas counts tot budget ! fst s)
    \<and> (budget \<le> sum_list counts \<longrightarrow> sum_list (group_quotas counts tot budget) = budget)"
proof -
  let ?all = "quota_shards counts"
  let ?ss = "take (nat budget) ?all" and ?z = "replicate (length counts) (0 :: int)"
  have ss: "(if budget < int (length ?all) then ?ss else ?all) = ?ss" by auto
  have d: "distinct (map fst ?ss)"
    using quota_shards_facts(1) [of counts] by (simp add: take_map [symmetric])
  have z: "\<forall>s \<in> set ?ss. fst s < length ?z \<and> ?z ! fst s = 0"
    by (auto dest!: in_set_takeD simp: quota_shards_facts)
  obtain q r where g: "guarantee ?ss ?z budget = (q, r)" by fastforce
  note grant = guarantee_grants [OF g d z]
  have r: "0 \<le> r" "sum_list q + r = budget" "length q = length counts"
    using grant budget by (auto simp: sum_list_replicate)
  have len: "\<forall>s \<in> set ?ss. fst s < length q" using z r(3) by simp
  let ?Q = "quota_rounds budget tot ?ss q r"
  have Q: "group_quotas counts tot budget = ?Q" by (simp add: group_quotas_def Let_def ss g)
  note spend = quota_rounds_spends [OF r(1) len, of budget tot]
  have q0: "0 \<le> q ! i" if "i < length counts" for i
    using grant that by (cases "i \<in> fst ` set ?ss") auto
  have nonneg: "\<forall>i < length counts. 0 \<le> ?Q ! i" using spend q0 r(3) by (metis order_trans)
  moreover have "\<forall>s \<in> set ?ss. 1 \<le> ?Q ! fst s"
    using spend grant len by (metis order_refl order_trans)
  moreover have "sum_list ?Q = budget" if le: "budget \<le> sum_list counts"
  proof (cases "sum_list ?Q = sum_list q + r")
    case False
    then have all: "\<forall>s \<in> set ?ss. snd s \<le> ?Q ! fst s" using quota_rounds_exact [OF r(1) len] by blast
    show ?thesis
    proof (cases "budget < int (length ?all)")
      case True
      then have "r = 0" using grant budget by simp
      then have "?Q = q" by (simp add: quota_rounds.simps)
      then show ?thesis using r \<open>r = 0\<close> by simp
    next
      case full: False
      then have "?ss = ?all" by simp
      then have "\<forall>s \<in> set ?all. counts ! fst s \<le> ?Q ! fst s" using all quota_shards_facts(2) by fastforce
      then have "sum_list counts \<le> sum_list ?Q" using sum_take_shards nonneg spend r(3) by metis
      then show ?thesis using le spend r(2) by simp
    qed
  qed (use r in simp)
  ultimately show ?thesis unfolding Q using spend r by simp
qed

end
