(* ===== verification/Sampling.thy ===== *)
theory Sampling
  imports SampleRing FlowRules
begin

text \<open>
  The attack sample (\<^verbatim>\<open>src/engine/internal/engine/sample.go\<close>): the aggregator, its top lists and the
  host, group and prefix collectors. The GeoIP database and the MAC-to-IP collector are parameters
  (\<open>enrichment\<close>); the memo of the lookups is not kept, since a lookup of the read-only database gives
  the same answer each time. A map of counters is a list with one entry per key.
\<close>

definition top_k :: nat where "top_k = 5"
definition upstream_top_k :: nat where "upstream_top_k = 16"
definition open_peering_mac_top_k :: nat where "open_peering_mac_top_k = 20"

record geo_info =
  gi_asn :: "32 word"
  gi_org :: string
  gi_country :: string

record geo_db =
  geo_has_asn :: bool
  geo_lookup :: "addr \<Rightarrow> geo_info"

record enrichment =
  en_geo :: "geo_db option"
  en_mac_ip :: "(string \<Rightarrow> string list) option"

definition proto_name :: "8 word \<Rightarrow> string" where
  "proto_name p = (if p = 1 then ''icmp'' else if p = 6 then ''tcp'' else if p = 17 then ''udp''
     else if p = 58 then ''icmpv6'' else dec (unat p))"

text \<open>\<^verbatim>\<open>net.HardwareAddr.String\<close> and the peer addresses worth counting.\<close>

definition mac_byte :: "48 word \<Rightarrow> nat \<Rightarrow> 8 word" where
  "mac_byte m i = ucast (drop_bit (40 - 8 * i) m)"

definition mac_string :: "48 word \<Rightarrow> string" where
  "mac_string m = join '':'' (map (\<lambda>i. hex2 (mac_byte m i)) [0..<6])"

definition usable_peer_mac :: "48 word \<Rightarrow> bool" where
  "usable_peer_mac m \<longleftrightarrow> m \<noteq> 0 \<and> mac_byte m 0 AND 1 = 0"

section \<open>The aggregator\<close>

fun bump :: "string \<Rightarrow> 64 word \<Rightarrow> 64 word \<Rightarrow> counter list \<Rightarrow> counter list" where
  "bump key packets bytes [] = [\<lparr> ct_key = key, ct_packets = packets, ct_bytes = bytes \<rparr>]"
| "bump key packets bytes (c # cs) =
     (if ct_key c = key then c \<lparr> ct_packets := ct_packets c + packets, ct_bytes := ct_bytes c + bytes \<rparr> # cs
      else c # bump key packets bytes cs)"

record peer_counter =
  pc_packets :: "64 word"
  pc_bytes :: "64 word"
  pc_unknown_packets :: "64 word"
  pc_unknown_bytes :: "64 word"
  pc_macs :: "counter list"

definition peer_zero :: peer_counter where
  "peer_zero = \<lparr> pc_packets = 0, pc_bytes = 0, pc_unknown_packets = 0, pc_unknown_bytes = 0, pc_macs = [] \<rparr>"

record aggregator =
  ag_max :: nat
  ag_flows :: "sample_flow list"
  ag_sources :: "counter list"
  ag_src_ports :: "counter list"
  ag_dst_ports :: "counter list"
  ag_protocols :: "counter list"
  ag_asns :: "counter list"
  ag_upstreams :: "counter list"
  ag_open :: "(string, peer_counter) table"
  ag_total :: "64 word"

definition new_aggregator :: "nat \<Rightarrow> aggregator" where
  "new_aggregator n = \<lparr> ag_max = n, ag_flows = [], ag_sources = [], ag_src_ports = [], ag_dst_ports = [],
     ag_protocols = [], ag_asns = [], ag_upstreams = [], ag_open = [], ag_total = 0 \<rparr>"

definition asn_key :: "geo_info \<Rightarrow> string" where
  "asn_key i = (if gi_asn i = 0 then ''unknown''
     else ''AS'' @ dec (unat (gi_asn i)) @ (if gi_org i \<noteq> [] then '' '' @ gi_org i else []))"

definition flow_vlan :: "flow \<Rightarrow> 32 word" where
  "flow_vlan f = (if f_src_vlan f \<noteq> 0 then f_src_vlan f else f_dst_vlan f)"

definition asn_enabled :: "enrichment \<Rightarrow> bool" where
  "asn_enabled en \<longleftrightarrow> (case en_geo en of None \<Rightarrow> False | Some g \<Rightarrow> geo_has_asn g)"

definition sample_rate :: "flow \<Rightarrow> 64 word" where
  "sample_rate f = (if f_rate f = 0 then 1 else f_rate f)"

definition remote_addr :: "flow \<Rightarrow> nat \<Rightarrow> addr" where
  "remote_addr f dir = (if dir = dir_out then f_dst f else f_src f)"

text \<open>The OpenPeering part of \<^verbatim>\<open>add\<close>.\<close>

definition bump_peer :: "48 word \<Rightarrow> 64 word \<Rightarrow> 64 word \<Rightarrow> peer_counter \<Rightarrow> peer_counter" where
  "bump_peer mac packets bytes c0 =
     (let c = c0 \<lparr> pc_packets := pc_packets c0 + packets, pc_bytes := pc_bytes c0 + bytes \<rparr> in
      if \<not> usable_peer_mac mac
      then c \<lparr> pc_unknown_packets := pc_unknown_packets c + packets, pc_unknown_bytes := pc_unknown_bytes c + bytes \<rparr>
      else c \<lparr> pc_macs := bump (mac_string mac) packets bytes (pc_macs c) \<rparr>)"

definition add_open :: "config \<Rightarrow> flow \<Rightarrow> nat \<Rightarrow> 64 word \<Rightarrow> 64 word \<Rightarrow> (string, peer_counter) table \<Rightarrow> (string, peer_counter) table" where
  "add_open cfg f dir packets bytes t =
     (case open_peering_member cfg (f_exporter f) (if dir = dir_out then f_out_if f else f_in_if f) (flow_vlan f) of
        None \<Rightarrow> t
      | Some member \<Rightarrow>
          let c = (case tget t member of None \<Rightarrow> peer_zero | Some c \<Rightarrow> c)
          in tput member (bump_peer (if dir = dir_out then f_dst_mac f else f_src_mac f) packets bytes c) t)"

definition captured_flow :: "enrichment \<Rightarrow> flow \<Rightarrow> sample_flow" where
  "captured_flow en f =
     (let info = (case en_geo en of None \<Rightarrow> \<lparr> gi_asn = 0, gi_org = [], gi_country = [] \<rparr> | Some g \<Rightarrow> geo_lookup g (f_src f))
      in \<lparr> sf_src = addr_string (f_src f), sf_dst = addr_string (f_dst f), sf_src_port = f_src_port f,
           sf_dst_port = f_dst_port f, sf_proto = proto_name (f_proto f), sf_tcp_flags = f_tcp_flags f,
           sf_fragment = f_fragment f, sf_bytes = f_bytes f, sf_packets = f_packets f, sf_rate = f_rate f,
           sf_exporter = addr_string (f_exporter f), sf_in_if = f_in_if f, sf_out_if = f_out_if f,
           sf_src_vlan = f_src_vlan f, sf_dst_vlan = f_dst_vlan f, sf_asn = gi_asn info, sf_org = gi_org info,
           sf_country = gi_country info \<rparr>)"

definition add_sample :: "enrichment \<Rightarrow> config \<Rightarrow> flow \<Rightarrow> nat \<Rightarrow> bool \<Rightarrow> aggregator \<Rightarrow> aggregator" where
  "add_sample en cfg f dir capture a =
     (let rate = sample_rate f; packets = f_packets f * rate; bytes = f_bytes f * rate;
          iface = (if dir = dir_out then f_out_if f else f_in_if f); vlan = flow_vlan f
      in a \<lparr> ag_total := ag_total a + packets,
             ag_sources := bump (addr_string (remote_addr f dir)) packets bytes (ag_sources a),
             ag_src_ports := bump (dec (unat (f_src_port f))) packets bytes (ag_src_ports a),
             ag_dst_ports := bump (dec (unat (f_dst_port f))) packets bytes (ag_dst_ports a),
             ag_protocols := bump (proto_name (f_proto f)) packets bytes (ag_protocols a),
             ag_upstreams := (if at_mode cfg \<noteq> ''vlan'' \<or> vlan \<noteq> 0
               then bump (attribution_key cfg (f_exporter f) iface vlan) packets bytes (ag_upstreams a)
               else ag_upstreams a),
             ag_open := add_open cfg f dir packets bytes (ag_open a),
             ag_asns := (case en_geo en of
                 Some g \<Rightarrow> if geo_has_asn g then bump (asn_key (geo_lookup g (remote_addr f dir))) packets bytes (ag_asns a)
                           else ag_asns a
               | None \<Rightarrow> ag_asns a),
             ag_flows := (if capture \<and> length (ag_flows a) < ag_max a then ag_flows a @ [captured_flow en f]
               else ag_flows a) \<rparr>)"

definition top_counters :: "counter list \<Rightarrow> nat \<Rightarrow> counter list" where
  "top_counters cs k = take k (sort_by (by_weight ct_packets ct_key) cs)"

section \<open>The finished sample\<close>

definition peer_row :: "enrichment \<Rightarrow> counter \<Rightarrow> peer_mac" where
  "peer_row en m = \<lparr> pm_mac = ct_key m,
     pm_ips = (case en_mac_ip en of None \<Rightarrow> [] | Some look \<Rightarrow> look (ct_key m)),
     pm_packets = ct_packets m, pm_bytes = ct_bytes m \<rparr>"

definition open_peering_row :: "enrichment \<Rightarrow> string \<times> peer_counter \<Rightarrow> peer_member" where
  "open_peering_row en e =
     (case e of (name, c) \<Rightarrow>
      let all = top_counters (pc_macs c) (length (pc_macs c)); limit = min open_peering_mac_top_k (length all);
          rest = drop limit all
      in \<lparr> pe_member = name, pe_packets = pc_packets c, pe_bytes = pc_bytes c,
           pe_unknown_packets = pc_unknown_packets c, pe_unknown_bytes = pc_unknown_bytes c,
           pe_other_packets = sum_list (map ct_packets rest), pe_other_bytes = sum_list (map ct_bytes rest),
           pe_macs = map (peer_row en) (take limit all) \<rparr>)"

definition open_peering_sample :: "enrichment \<Rightarrow> (string, peer_counter) table \<Rightarrow> peer_member list" where
  "open_peering_sample en t = sort_by (by_weight pe_packets pe_member) (map (open_peering_row en) t)"

definition finish_sample :: "enrichment \<Rightarrow> aggregator \<Rightarrow> attack_sample option" where
  "finish_sample en a =
     (if ag_flows a = [] \<and> ag_sources a = [] then None
      else Some \<lparr> sm_flows = ag_flows a, sm_sources = top_counters (ag_sources a) top_k,
             sm_src_ports = top_counters (ag_src_ports a) top_k, sm_dst_ports = top_counters (ag_dst_ports a) top_k,
             sm_protocols = top_counters (ag_protocols a) top_k,
             sm_asns = (if asn_enabled en then top_counters (ag_asns a) top_k else []),
             sm_upstreams = top_counters (ag_upstreams a) upstream_top_k,
             sm_open = open_peering_sample en (ag_open a), sm_total = ag_total a \<rparr>)"

section \<open>Collectors\<close>

definition monitored_addr :: "flow \<Rightarrow> nat \<Rightarrow> addr" where
  "monitored_addr f dir = (if dir = dir_out then f_src f else f_dst f)"

definition host_match :: "addr \<Rightarrow> nat \<Rightarrow> sample_entry \<Rightarrow> bool" where
  "host_match target dir e \<longleftrightarrow> se_dir e = dir \<and> monitored_addr (se_flow e) dir = target"

definition collect_host_sample :: "enrichment \<Rightarrow> config \<Rightarrow> nat \<Rightarrow> sample_ring \<Rightarrow> addr \<Rightarrow> nat \<Rightarrow> int \<Rightarrow> attack_sample option" where
  "collect_host_sample en cfg max_flows sr target dir since =
     (if sr_ring sr = [] then None
      else finish_sample en (fold (\<lambda>e. add_sample en cfg (se_flow e) (se_dir e) True)
             (filter (host_match target dir) (scan_ring sr since)) (new_aggregator max_flows)))"

text \<open>One shard of the second pass: the first \<open>quota\<close> matches are captured.\<close>

fun add_shard :: "enrichment \<Rightarrow> config \<Rightarrow> int \<Rightarrow> int \<Rightarrow> sample_entry list \<Rightarrow> aggregator \<Rightarrow> aggregator" where
  "add_shard en cfg quota taken [] a = a"
| "add_shard en cfg quota taken (e # es) a =
     (let capture = taken < quota
      in add_shard en cfg quota (if capture then taken + 1 else taken) es
           (add_sample en cfg (se_flow e) (se_dir e) capture a))"

definition collect_by_match ::
  "enrichment \<Rightarrow> config \<Rightarrow> nat \<Rightarrow> sample_ring list \<Rightarrow> int \<Rightarrow> (sample_entry \<Rightarrow> bool) \<Rightarrow> attack_sample option" where
  "collect_by_match en cfg max_flows rings since match =
     (let found = map (\<lambda>sr. filter match (scan_ring sr since)) rings;
          counts = map (\<lambda>es. int (length es)) found; matches = sum_list counts in
      if matches = 0 then None
      else let quotas = group_quotas counts matches (int max_flows) in
        finish_sample en (fold (\<lambda>(es, quota). add_shard en cfg quota 0 es) (zip found quotas) (new_aggregator max_flows)))"

definition group_match :: "config \<Rightarrow> nat \<Rightarrow> nat \<Rightarrow> sample_entry \<Rightarrow> bool" where
  "group_match cfg gi dir e \<longleftrightarrow> se_dir e = dir \<and> group_index_for cfg (monitored_addr (se_flow e) dir) = gi"

definition prefix_match :: "prefix \<Rightarrow> nat \<Rightarrow> sample_entry \<Rightarrow> bool" where
  "prefix_match p dir e \<longleftrightarrow> se_dir e = dir \<and> contains p (monitored_addr (se_flow e) dir)"

section \<open>Laws\<close>

text \<open>What a list of counters holds under a key.\<close>

definition held :: "(counter \<Rightarrow> 64 word) \<Rightarrow> counter list \<Rightarrow> string \<Rightarrow> 64 word" where
  "held w cs k = sum_list (map w (filter (\<lambda>c. ct_key c = k) cs))"

lemma held_bump:
  "held ct_packets (bump key p b cs) k = held ct_packets cs k + (if k = key then p else 0)"
  "held ct_bytes (bump key p b cs) k = held ct_bytes cs k + (if k = key then b else 0)"
  by (induction cs) (auto simp: held_def algebra_simps)

lemma sum_bump:
  "sum_list (map ct_packets (bump key p b cs)) = sum_list (map ct_packets cs) + p"
  "sum_list (map ct_bytes (bump key p b cs)) = sum_list (map ct_bytes cs) + b"
  by (induction cs) (auto simp: algebra_simps)

lemma keys_bump: "ct_key ` set (bump key p b cs) = insert key (ct_key ` set cs)"
  by (induction cs) auto

lemma distinct_bump: "distinct (map ct_key cs) \<Longrightarrow> distinct (map ct_key (bump key p b cs))"
proof (induction cs)
  case (Cons c cs)
  then show ?case using keys_bump [of key p b cs] by auto
qed simp

lemma bump_nonempty [simp]: "bump key p b cs \<noteq> []"
  by (cases cs) simp_all

lemma held_Cons: "held w (c # cs) k = (if ct_key c = k then w c else 0) + held w cs k"
  by (simp add: held_def)

lemma held_absent: "k \<notin> ct_key ` set cs \<Longrightarrow> held w cs k = 0"
  by (induction cs) (auto simp: held_def)

lemma held_in: "distinct (map ct_key cs) \<Longrightarrow> c \<in> set cs \<Longrightarrow> held w cs (ct_key c) = w c"
proof (induction cs)
  case (Cons d cs)
  show ?case
  proof (cases "c = d")
    case True
    then show ?thesis using Cons.prems by (simp add: held_Cons held_absent)
  next
    case False
    then have "c \<in> set cs" "ct_key d \<noteq> ct_key c" using Cons.prems by auto
    then show ?thesis using Cons.IH Cons.prems by (simp add: held_Cons)
  qed
qed simp

text \<open>The correction of a flow: what it adds to every total.\<close>

definition corrected :: "flow \<Rightarrow> 64 word" where
  "corrected f = f_packets f * sample_rate f"

definition flow_source :: "sample_entry \<Rightarrow> string" where
  "flow_source e = addr_string (remote_addr (se_flow e) (se_dir e))"

text \<open>The invariant of an aggregation that has seen the entries \<open>es\<close>.\<close>

definition aggregates :: "sample_entry list \<Rightarrow> aggregator \<Rightarrow> bool" where
  "aggregates es a \<longleftrightarrow> ag_total a = sum_list (map (corrected \<circ> se_flow) es)
     \<and> (es = [] \<longrightarrow> ag_flows a = []) \<and> flow_source ` set es = ct_key ` set (ag_sources a) \<and> length (ag_flows a) \<le> ag_max a
     \<and> distinct (map ct_key (ag_sources a)) \<and> distinct (map ct_key (ag_src_ports a))
     \<and> sum_list (map ct_packets (ag_src_ports a)) = ag_total a
     \<and> sum_list (map ct_packets (ag_protocols a)) = ag_total a
     \<and> (\<forall>k. held ct_packets (ag_sources a) k = sum_list (map (corrected \<circ> se_flow) (filter (\<lambda>e. flow_source e = k) es)))
     \<and> (\<forall>k. held ct_packets (ag_src_ports a) k
             = sum_list (map (corrected \<circ> se_flow) (filter (\<lambda>e. dec (unat (f_src_port (se_flow e))) = k) es)))"

lemma new_aggregates: "aggregates [] (new_aggregator n)"
  by (simp add: aggregates_def new_aggregator_def held_def)

lemma add_aggregates:
  "aggregates es a \<Longrightarrow> aggregates (es @ [e]) (add_sample en cfg (se_flow e) (se_dir e) capture a)"
  by (auto simp: aggregates_def add_sample_def Let_def held_bump sum_bump distinct_bump keys_bump corrected_def flow_source_def
      algebra_simps)

lemma add_sample_max [simp]: "ag_max (add_sample en cfg f d c a) = ag_max a"
  by (simp add: add_sample_def Let_def)

lemma fold_aggregates:
  "aggregates es0 a \<Longrightarrow>
   aggregates (es0 @ es) (fold (\<lambda>e. add_sample en cfg (se_flow e) (se_dir e) True) es a)"
proof (induction es arbitrary: es0 a)
  case (Cons e es)
  then show ?case using add_aggregates [OF Cons.prems, of e en cfg True] Cons.IH by fastforce
qed simp

lemma shard_aggregates:
  "aggregates es0 a \<Longrightarrow> aggregates (es0 @ es) (add_shard en cfg quota taken es a)"
proof (induction en cfg quota taken es a arbitrary: es0 rule: add_shard.induct)
  case (2 en cfg quota taken e es a)
  then show ?case using add_aggregates [OF "2.prems", of e en cfg "taken < quota"] by (fastforce simp: Let_def)
qed simp

lemma shards_aggregate:
  "length found = length quotas \<Longrightarrow> aggregates es0 a \<Longrightarrow>
   aggregates (es0 @ concat found) (fold (\<lambda>(es, quota). add_shard en cfg quota 0 es) (zip found quotas) a)"
proof (induction found quotas arbitrary: es0 a rule: list_induct2)
  case (Cons es found q quotas)
  then show ?case using shard_aggregates [OF Cons.prems, of es en cfg q 0] by fastforce
qed simp

text \<open>The raw flows of a host sample are the newest matches.\<close>

lemma fold_flows:
  "length (ag_flows a) \<le> ag_max a \<Longrightarrow>
   ag_flows (fold (\<lambda>e. add_sample en cfg (se_flow e) (se_dir e) True) es a)
     = take (ag_max a) (ag_flows a @ map (captured_flow en \<circ> se_flow) es)"
proof (induction es arbitrary: a)
  case (Cons e es)
  let ?a = "add_sample en cfg (se_flow e) (se_dir e) True a"
  have f: "ag_flows ?a = take (ag_max a) (ag_flows a @ [captured_flow en (se_flow e)])"
    using Cons.prems by (auto simp: add_sample_def Let_def take_Cons')
  then have "length (ag_flows ?a) \<le> ag_max ?a" by simp
  then show ?case using Cons.IH [of ?a] f by (auto simp: take_Cons' min_def split: if_splits)
qed simp

text \<open>A finished sample speaks for the entries it was made of.\<close>

definition sample_of :: "sample_entry list \<Rightarrow> nat \<Rightarrow> attack_sample \<Rightarrow> bool" where
  "sample_of es n s \<longleftrightarrow> sm_total s = sum_list (map (corrected \<circ> se_flow) es) \<and> length (sm_flows s) \<le> n
     \<and> length (sm_sources s) \<le> top_k
     \<and> (\<forall>c \<in> set (sm_sources s). ct_packets c = sum_list (map (corrected \<circ> se_flow) (filter (\<lambda>e. flow_source e = ct_key c) es)))
     \<and> (\<forall>c \<in> set (sm_src_ports s).
          ct_packets c = sum_list (map (corrected \<circ> se_flow) (filter (\<lambda>e. dec (unat (f_src_port (se_flow e))) = ct_key c) es)))
     \<and> (\<forall>e \<in> set es. \<forall>c \<in> set (sm_sources s). flow_source e \<notin> ct_key ` set (sm_sources s) \<longrightarrow>
          sum_list (map (corrected \<circ> se_flow) (filter (\<lambda>x. flow_source x = flow_source e) es)) \<le> ct_packets c)"

lemma top_subset: "set (top_counters cs k) \<subseteq> set cs"
  by (auto simp: top_counters_def dest: in_set_takeD)

lemma top_cut:
  assumes "d \<in> set cs" "c \<in> set (top_counters cs k)" "d \<notin> set (top_counters cs k)"
  shows "ct_packets d \<le> ct_packets c"
proof -
  have "set cs = set (take k (sort_by (by_weight ct_packets ct_key) cs)) \<union> set (drop k (sort_by (by_weight ct_packets ct_key) cs))"
    by (metis append_take_drop_id set_append set_sort_by)
  then have "d \<in> set (drop k (sort_by (by_weight ct_packets ct_key) cs))"
    using assms by (auto simp: top_counters_def)
  then have "\<not> by_weight ct_packets ct_key d c"
    using heavy.take_heaviest [of c k ct_packets ct_key cs d] assms(2) by (simp add: top_counters_def)
  then show ?thesis by (simp add: by_weight_iff not_less)
qed

lemma finish_sample_None: "aggregates es a \<Longrightarrow> finish_sample en a = None \<longleftrightarrow> es = []"
  by (auto simp: finish_sample_def aggregates_def)

lemma finish_sample_of:
  assumes agg: "aggregates es a" and s: "finish_sample en a = Some s" and n: "ag_max a = n"
  shows "sample_of es n s"
proof -
  have sources: "sm_sources s = top_counters (ag_sources a) top_k"
    and ports: "sm_src_ports s = top_counters (ag_src_ports a) top_k"
    and rest: "sm_total s = ag_total a" "sm_flows s = ag_flows a"
    using s by (auto simp: finish_sample_def split: if_splits)
  have total: "ag_total a = sum_list (map (corrected \<circ> se_flow) es)" "length (ag_flows a) \<le> n"
    and dist: "distinct (map ct_key (ag_sources a))" "distinct (map ct_key (ag_src_ports a))"
    and keys: "flow_source ` set es = ct_key ` set (ag_sources a)"
    and by_source: "held ct_packets (ag_sources a) k = sum_list (map (corrected \<circ> se_flow) (filter (\<lambda>e. flow_source e = k) es))"
    and by_port: "held ct_packets (ag_src_ports a) k
      = sum_list (map (corrected \<circ> se_flow) (filter (\<lambda>e. dec (unat (f_src_port (se_flow e))) = k) es))" for k
    using agg n by (simp_all add: aggregates_def)
  have exact: "ct_packets c = sum_list (map (corrected \<circ> se_flow) (filter (\<lambda>e. flow_source e = ct_key c) es))"
    if "c \<in> set (ag_sources a)" for c
    using held_in [OF dist(1) that, of ct_packets] by_source by simp
  have exact_port: "ct_packets c
      = sum_list (map (corrected \<circ> se_flow) (filter (\<lambda>e. dec (unat (f_src_port (se_flow e))) = ct_key c) es))"
    if "c \<in> set (ag_src_ports a)" for c
    using held_in [OF dist(2) that, of ct_packets] by_port by simp
  have cut: "sum_list (map (corrected \<circ> se_flow) (filter (\<lambda>x. flow_source x = flow_source e) es)) \<le> ct_packets c"
    if e: "e \<in> set es" and c: "c \<in> set (sm_sources s)" and out: "flow_source e \<notin> ct_key ` set (sm_sources s)" for e c
  proof -
    have "flow_source e \<in> ct_key ` set (ag_sources a)" using keys e by auto
    then obtain d where d: "d \<in> set (ag_sources a)" "ct_key d = flow_source e" by auto
    then have "d \<notin> set (sm_sources s)" using out by (metis imageI)
    then have "ct_packets d \<le> ct_packets c" using top_cut d(1) c by (simp add: sources)
    then show ?thesis using exact [OF d(1)] d(2) by simp
  qed
  show ?thesis unfolding sample_of_def
    using total rest exact exact_port top_subset [of "ag_sources a" top_k] top_subset [of "ag_src_ports a" top_k] cut
    by (auto simp: sources ports top_counters_def)
qed

text \<open>What each collector speaks for.\<close>

lemma host_sample_of:
  assumes "sr_ring sr \<noteq> []"
  shows "case collect_host_sample en cfg n sr target dir since of
      None \<Rightarrow> filter (host_match target dir) (scan_ring sr since) = []
    | Some s \<Rightarrow> sample_of (filter (host_match target dir) (scan_ring sr since)) n s
        \<and> sm_flows s = take n (map (captured_flow en \<circ> se_flow) (filter (host_match target dir) (scan_ring sr since)))"
proof -
  let ?es = "filter (host_match target dir) (scan_ring sr since)"
  let ?a = "fold (\<lambda>e. add_sample en cfg (se_flow e) (se_dir e) True) ?es (new_aggregator n)"
  have agg: "aggregates ?es ?a" using fold_aggregates [OF new_aggregates] by simp
  have mx: "ag_max (fold (\<lambda>e. add_sample en cfg (se_flow e) (se_dir e) True) es a) = ag_max a" for es a
    by (induction es arbitrary: a) simp_all
  have n: "ag_max ?a = n" by (simp add: mx) (simp add: new_aggregator_def)
  have f: "ag_flows ?a = take n (map (captured_flow en \<circ> se_flow) ?es)"
    by (subst fold_flows) (simp_all add: new_aggregator_def)
  have c: "collect_host_sample en cfg n sr target dir since = finish_sample en ?a"
    using assms by (simp add: collect_host_sample_def)
  show ?thesis
  proof (cases "finish_sample en ?a")
    case None
    then show ?thesis using finish_sample_None [OF agg, of en] c by simp
  next
    case (Some s)
    then have "sm_flows s = ag_flows ?a" by (auto simp: finish_sample_def split: if_splits)
    then show ?thesis using finish_sample_of [OF agg Some n] Some c f by simp
  qed
qed

lemma match_sample_of:
  "case collect_by_match en cfg n rings since match of
      None \<Rightarrow> concat (map (\<lambda>sr. filter match (scan_ring sr since)) rings) = []
    | Some s \<Rightarrow> sample_of (concat (map (\<lambda>sr. filter match (scan_ring sr since)) rings)) n s"
proof -
  let ?found = "map (\<lambda>sr. filter match (scan_ring sr since)) rings"
  let ?counts = "map (\<lambda>es. int (length es)) ?found"
  have count: "sum_list (map (\<lambda>es. int (length es)) xss) = int (length (concat xss))" for xss :: "sample_entry list list"
    by (induction xss) simp_all
  show ?thesis
  proof (cases "sum_list ?counts = 0")
    case True
    then have "concat ?found = []" using count [of ?found] by (simp del: concat_eq_Nil_conv)
    then show ?thesis using True by (simp add: collect_by_match_def Let_def del: concat_eq_Nil_conv)
  next
    case False
    let ?q = "group_quotas ?counts (sum_list ?counts) (int n)"
    let ?a = "fold (\<lambda>(es, quota). add_shard en cfg quota 0 es) (zip ?found ?q) (new_aggregator n)"
    have "length ?found = length ?q" using group_quotas_laws [of "int n" ?counts] by simp
    then have agg: "aggregates (concat ?found) ?a" using shards_aggregate [OF _ new_aggregates] by fastforce
    have shard: "ag_max (add_shard en cfg q t es a) = ag_max a" for q t es a
      by (induction en cfg q t es a rule: add_shard.induct) (simp_all add: Let_def)
    have mx: "ag_max (fold (\<lambda>(es, quota). add_shard en cfg quota 0 es) ps a) = ag_max a" for ps a
      by (induction ps arbitrary: a) (auto simp: shard)
    have n: "ag_max ?a = n" unfolding mx by (simp add: new_aggregator_def)
    have c: "collect_by_match en cfg n rings since match = finish_sample en ?a"
      using False by (simp add: collect_by_match_def Let_def)
    show ?thesis
      using finish_sample_None [OF agg, of en] finish_sample_of [OF agg _ n, of en] c
      by (cases "finish_sample en ?a") simp_all
  qed
qed

end
