(* ===== verification/OpenPeering.thy ===== *)
theory OpenPeering
  imports Counters Sampling
begin

text \<open>
  The live OpenPeering view (\<^verbatim>\<open>src/engine/internal/engine/openpeering.go\<close>): per-second counters by
  member and peer MAC address, and the windowed snapshot. The lemmas: a counter accounts for every
  byte and packet, known or unknown, in at most 4096 addresses, and so does the merge of a window.
\<close>

definition max_macs_per_bucket :: nat where "max_macs_per_bucket = 4096"

record mac_counter =
  mc_bytes :: "64 word"
  mc_packets :: "64 word"

record traffic_counter =
  tc_bytes :: "64 word"
  tc_packets :: "64 word"
  tc_unknown_bytes :: "64 word"
  tc_unknown_packets :: "64 word"
  tc_macs :: "(48 word, mac_counter) table"

definition traffic_zero :: traffic_counter where
  "traffic_zero = \<lparr> tc_bytes = 0, tc_packets = 0, tc_unknown_bytes = 0, tc_unknown_packets = 0, tc_macs = [] \<rparr>"

record open_counter =
  oc_traffic :: traffic_counter
  oc_members :: "(string, traffic_counter) table"

definition open_counter_zero :: open_counter where
  "open_counter_zero = \<lparr> oc_traffic = traffic_zero, oc_members = [] \<rparr>"

record open_bucket =
  ob_epoch :: int
  ob_dirs :: "nat \<Rightarrow> open_counter"

definition open_bucket_at :: "int \<Rightarrow> open_bucket" where
  "open_bucket_at e = \<lparr> ob_epoch = e, ob_dirs = (\<lambda>d. open_counter_zero) \<rparr>"

definition mac_entry :: "traffic_counter \<Rightarrow> 48 word \<Rightarrow> mac_counter" where
  "mac_entry c mac = (case tget (tc_macs c) mac of None \<Rightarrow> \<lparr> mc_bytes = 0, mc_packets = 0 \<rparr> | Some m \<Rightarrow> m)"

definition traffic_add :: "48 word \<Rightarrow> 64 word \<Rightarrow> 64 word \<Rightarrow> traffic_counter \<Rightarrow> traffic_counter" where
  "traffic_add mac bytes packets c0 =
     (let c = c0 \<lparr> tc_bytes := tc_bytes c0 + bytes, tc_packets := tc_packets c0 + packets \<rparr>;
          unknown = c \<lparr> tc_unknown_bytes := tc_unknown_bytes c + bytes, tc_unknown_packets := tc_unknown_packets c + packets \<rparr>
      in if \<not> usable_peer_mac mac then unknown
         else if tget (tc_macs c) mac = None \<and> max_macs_per_bucket \<le> length (tc_macs c) then unknown
         else c \<lparr> tc_macs := tput mac \<lparr> mc_bytes = mc_bytes (mac_entry c mac) + bytes,
                                       mc_packets = mc_packets (mac_entry c mac) + packets \<rparr> (tc_macs c) \<rparr>)"

definition open_record_bucket :: "nat \<Rightarrow> string \<Rightarrow> 48 word \<Rightarrow> 64 word \<Rightarrow> 64 word \<Rightarrow> open_bucket \<Rightarrow> open_bucket" where
  "open_record_bucket dir member mac bytes packets b =
     (let c = ob_dirs b dir;
          m = (case tget (oc_members c) member of None \<Rightarrow> traffic_zero | Some m \<Rightarrow> m)
      in b \<lparr> ob_dirs := (ob_dirs b)(dir := \<lparr> oc_traffic = traffic_add mac bytes packets (oc_traffic c),
             oc_members = tput member (traffic_add mac bytes packets m) (oc_members c) \<rparr>) \<rparr>)"

definition open_record ::
  "nat \<Rightarrow> int \<Rightarrow> string \<Rightarrow> 48 word \<Rightarrow> 64 word \<Rightarrow> 64 word \<Rightarrow> 64 word \<Rightarrow> open_bucket list \<Rightarrow> open_bucket list" where
  "open_record dir epoch member mac bytes packets rate ring =
     (let i = nat (epoch mod int (length ring)); b = ring ! i;
          b1 = (if ob_epoch b \<noteq> epoch then open_bucket_at epoch else b)
      in ring[i := open_record_bucket dir member mac (bytes * rate) (packets * rate) b1])"

section \<open>The snapshot\<close>

record open_mac =
  om_mac :: string
  om_ips :: "string list"
  om_mbps :: f64
  om_pps :: f64
  om_share :: f64

record open_member_snapshot =
  os_name :: string
  os_mbps :: f64
  os_pps :: f64
  os_unknown_share :: f64
  os_distinct :: nat
  os_quality :: string
  os_top :: "open_mac list"

record open_direction =
  od_mbps :: f64
  od_pps :: f64
  od_unknown_mbps :: f64
  od_unknown_pps :: f64
  od_unknown_share :: f64
  od_distinct :: nat
  od_quality :: string
  od_top :: "open_mac list"
  od_all :: "open_mac list"
  od_members :: "open_member_snapshot list"

record open_snapshot =
  on_enabled :: bool
  on_window :: int
  on_ingress :: open_direction
  on_egress :: open_direction

definition empty_open_direction :: open_direction where
  "empty_open_direction = \<lparr> od_mbps = Fin 0, od_pps = Fin 0, od_unknown_mbps = Fin 0, od_unknown_pps = Fin 0,
     od_unknown_share = Fin 0, od_distinct = 0, od_quality = ''unavailable'', od_top = [], od_all = [], od_members = [] \<rparr>"

definition merge_mac :: "48 word \<times> mac_counter \<Rightarrow> traffic_counter \<Rightarrow> traffic_counter" where
  "merge_mac e dst = (case e of (mac, v) \<Rightarrow>
     dst \<lparr> tc_macs := tput mac \<lparr> mc_bytes = mc_bytes (mac_entry dst mac) + mc_bytes v,
                              mc_packets = mc_packets (mac_entry dst mac) + mc_packets v \<rparr> (tc_macs dst) \<rparr>)"

definition merge_traffic :: "traffic_counter \<Rightarrow> traffic_counter \<Rightarrow> traffic_counter" where
  "merge_traffic dst src =
     fold merge_mac (tc_macs src) (dst \<lparr> tc_bytes := tc_bytes dst + tc_bytes src, tc_packets := tc_packets dst + tc_packets src,
       tc_unknown_bytes := tc_unknown_bytes dst + tc_unknown_bytes src,
       tc_unknown_packets := tc_unknown_packets dst + tc_unknown_packets src \<rparr>)"

definition mbps_of :: "64 word \<Rightarrow> f64 \<Rightarrow> f64" where
  "mbps_of bytes window = fdiv (fdiv (fmul (f64_of_u64 bytes) (Fin 8)) (Fin 1000000)) window"

definition pps_of :: "64 word \<Rightarrow> f64 \<Rightarrow> f64" where
  "pps_of packets window = fdiv (f64_of_u64 packets) window"

text \<open>The comparators: by rate downwards, then by name.\<close>

definition feq :: "f64 \<Rightarrow> f64 \<Rightarrow> bool" where
  "feq x y \<longleftrightarrow> fle x y \<and> fle y x"

definition by_rate :: "('a \<Rightarrow> f64) \<Rightarrow> ('a \<Rightarrow> string) \<Rightarrow> 'a \<Rightarrow> 'a \<Rightarrow> bool" where
  "by_rate rate name x y \<longleftrightarrow> (if feq (rate x) (rate y) then name x < name y else flt (rate y) (rate x))"

definition mac_row :: "traffic_counter \<Rightarrow> f64 \<Rightarrow> 48 word \<times> mac_counter \<Rightarrow> open_mac" where
  "mac_row c window e = (case e of (mac, v) \<Rightarrow>
     \<lparr> om_mac = mac_string mac, om_ips = [], om_mbps = mbps_of (mc_bytes v) window, om_pps = pps_of (mc_packets v) window,
       om_share = (if 0 < tc_bytes c then fdiv (f64_of_u64 (mc_bytes v)) (f64_of_u64 (tc_bytes c)) else Fin 0) \<rparr>)"

definition sorted_macs :: "traffic_counter \<Rightarrow> f64 \<Rightarrow> open_mac list" where
  "sorted_macs c window = sort_by (by_rate om_mbps om_mac) (map (mac_row c window) (tc_macs c))"

definition open_direction_of :: "traffic_counter \<Rightarrow> f64 \<Rightarrow> nat \<Rightarrow> open_direction" where
  "open_direction_of c window limit =
     \<lparr> od_mbps = mbps_of (tc_bytes c) window, od_pps = pps_of (tc_packets c) window,
       od_unknown_mbps = mbps_of (tc_unknown_bytes c) window, od_unknown_pps = pps_of (tc_unknown_packets c) window,
       od_unknown_share = (if 0 < tc_bytes c then fdiv (f64_of_u64 (tc_unknown_bytes c)) (f64_of_u64 (tc_bytes c)) else Fin 0),
       od_distinct = length (tc_macs c),
       od_quality = (if tc_macs c = [] then ''unavailable'' else if 0 < tc_unknown_bytes c then ''partial'' else ''ok''),
       od_top = take limit (sorted_macs c window), od_all = [], od_members = [] \<rparr>"

definition member_snapshot :: "f64 \<Rightarrow> string \<times> traffic_counter \<Rightarrow> open_member_snapshot" where
  "member_snapshot window e = (case e of (name, m) \<Rightarrow>
     let d = open_direction_of m window 10
     in \<lparr> os_name = name, os_mbps = od_mbps d, os_pps = od_pps d, os_unknown_share = od_unknown_share d,
          os_distinct = od_distinct d, os_quality = od_quality d, os_top = od_top d \<rparr>)"

definition merge_member :: "string \<times> traffic_counter \<Rightarrow> (string, traffic_counter) table \<Rightarrow> (string, traffic_counter) table" where
  "merge_member e t = (case e of (name, m) \<Rightarrow>
     tput name (merge_traffic (case tget t name of None \<Rightarrow> traffic_zero | Some c \<Rightarrow> c) m) t)"

definition open_step ::
  "open_bucket list \<Rightarrow> nat \<Rightarrow> int \<Rightarrow> traffic_counter \<times> (string, traffic_counter) table
     \<Rightarrow> traffic_counter \<times> (string, traffic_counter) table" where
  "open_step ring dir s acc = (let b = ring ! nat (s mod int (length ring)) in
     if ob_epoch b \<noteq> s then acc
     else (case acc of (all, members) \<Rightarrow>
       (merge_traffic all (oc_traffic (ob_dirs b dir)), fold merge_member (oc_members (ob_dirs b dir)) members)))"

definition window_total :: "open_bucket list \<Rightarrow> nat \<Rightarrow> int list \<Rightarrow> traffic_counter \<times> (string, traffic_counter) table" where
  "window_total ring dir ss = fold (open_step ring dir) ss (traffic_zero, [])"

definition open_peering_direction :: "open_bucket list \<Rightarrow> int \<Rightarrow> int \<Rightarrow> nat \<Rightarrow> open_direction" where
  "open_peering_direction ring w now dir =
     (case window_total ring dir [now - w..now - 1] of (all, members) \<Rightarrow>
       (open_direction_of all (f64_of_int w) 20)
         \<lparr> od_all := sorted_macs all (f64_of_int w),
           od_members := sort_by (by_rate os_mbps os_name) (map (member_snapshot (f64_of_int w)) members) \<rparr>)"

definition with_ips :: "(string \<Rightarrow> string list) \<Rightarrow> open_mac list \<Rightarrow> open_mac list" where
  "with_ips look rows = map (\<lambda>r. r \<lparr> om_ips := look (om_mac r) \<rparr>) rows"

definition enrich_direction :: "enrichment \<Rightarrow> open_direction \<Rightarrow> open_direction" where
  "enrich_direction en d = (case en_mac_ip en of None \<Rightarrow> d | Some look \<Rightarrow>
     d \<lparr> od_top := with_ips look (od_top d), od_all := with_ips look (od_all d),
         od_members := map (\<lambda>m. m \<lparr> os_top := with_ips look (os_top m) \<rparr>) (od_members d) \<rparr>)"

definition open_peering_snapshot :: "enrichment \<Rightarrow> config \<Rightarrow> int \<Rightarrow> open_bucket list \<Rightarrow> int \<Rightarrow> open_snapshot" where
  "open_peering_snapshot en cfg w ring now =
     (if \<not> open_peering_enabled cfg
      then \<lparr> on_enabled = False, on_window = w, on_ingress = empty_open_direction, on_egress = empty_open_direction \<rparr>
      else \<lparr> on_enabled = True, on_window = w,
             on_ingress = enrich_direction en (open_peering_direction ring w now dir_in),
             on_egress = enrich_direction en (open_peering_direction ring w now dir_out) \<rparr>)"

section \<open>Every byte is accounted for\<close>

definition mac_sum :: "(mac_counter \<Rightarrow> 64 word) \<Rightarrow> traffic_counter \<Rightarrow> 64 word" where
  "mac_sum w c = sum_list (map (w \<circ> snd) (tc_macs c))"

definition traffic_ok :: "traffic_counter \<Rightarrow> bool" where
  "traffic_ok c \<longleftrightarrow> table_ok (tc_macs c) \<and> (\<forall>e \<in> set (tc_macs c). usable_peer_mac (fst e))
     \<and> tc_bytes c = tc_unknown_bytes c + mac_sum mc_bytes c
     \<and> tc_packets c = tc_unknown_packets c + mac_sum mc_packets c"

lemma traffic_zero_ok: "traffic_ok traffic_zero"
  by (simp add: traffic_ok_def traffic_zero_def mac_sum_def)

lemma sum_tput:
  fixes w :: "'v \<Rightarrow> 64 word"
  shows "table_ok t \<Longrightarrow> sum_list (map (w \<circ> snd) (tput k v t))
     = sum_list (map (w \<circ> snd) t) + (w v - (case tget t k of None \<Rightarrow> 0 | Some u \<Rightarrow> w u))"
  by (induction t) (auto simp: tput_def tget_def table_ok_def algebra_simps)

lemma mac_sum_tput:
  "table_ok (tc_macs c) \<Longrightarrow> w \<lparr> mc_bytes = 0, mc_packets = 0 \<rparr> = 0 \<Longrightarrow>
   sum_list (map (w \<circ> snd) (tput mac v (tc_macs c))) = mac_sum w c + (w v - w (mac_entry c mac))"
  by (simp add: sum_tput mac_sum_def mac_entry_def split: option.split)

lemma traffic_add_ok: "traffic_ok c \<Longrightarrow> traffic_ok (traffic_add mac b p c)"
  using set_tput [of "tc_macs c" mac]
  by (auto simp: traffic_ok_def traffic_add_def Let_def mac_sum_def [of _ "_\<lparr>tc_macs := _\<rparr>"] mac_sum_tput
      mac_sum_def mac_entry_def algebra_simps intro: inv_rules)

definition macs_bounded :: "traffic_counter \<Rightarrow> bool" where
  "macs_bounded c \<longleftrightarrow> length (tc_macs c) \<le> max_macs_per_bucket"

lemma traffic_add_bounded: "macs_bounded c \<Longrightarrow> macs_bounded (traffic_add mac b p c)"
  by (auto simp: macs_bounded_def traffic_add_def Let_def length_tput)

definition counter_ok :: "traffic_counter \<Rightarrow> bool" where
  "counter_ok c \<longleftrightarrow> traffic_ok c \<and> macs_bounded c"

lemma counter_ok_add: "counter_ok c \<Longrightarrow> counter_ok (traffic_add mac b p c)"
  by (simp add: counter_ok_def traffic_add_ok traffic_add_bounded)

lemma counter_ok_zero: "counter_ok traffic_zero"
  unfolding counter_ok_def by (simp add: traffic_zero_ok) (simp add: macs_bounded_def traffic_zero_def)

text \<open>Every counter of every bucket is in order, whatever was recorded.\<close>

definition bucket_ok :: "open_bucket \<Rightarrow> bool" where
  "bucket_ok b \<longleftrightarrow> (\<forall>d. counter_ok (oc_traffic (ob_dirs b d)) \<and> (\<forall>e \<in> set (oc_members (ob_dirs b d)). counter_ok (snd e)))"

lemma bucket_ok_new: "bucket_ok (open_bucket_at e)"
  by (simp add: bucket_ok_def open_bucket_at_def open_counter_zero_def counter_ok_zero)

lemma bucket_ok_record: "bucket_ok b \<Longrightarrow> bucket_ok (open_record_bucket dir member mac bytes packets b)"
proof -
  assume b: "bucket_ok b"
  let ?c = "ob_dirs b dir"
  have m: "counter_ok (case tget (oc_members ?c) member of None \<Rightarrow> traffic_zero | Some m \<Rightarrow> m)"
    using b by (fastforce simp: bucket_ok_def counter_ok_zero dest: tget_in_set split: option.split)
  have "counter_ok (snd e)"
    if "e \<in> set (tput member (traffic_add mac bytes packets (case tget (oc_members ?c) member of None \<Rightarrow> traffic_zero | Some m \<Rightarrow> m)) (oc_members ?c))" for e
    using that set_tput_subset counter_ok_add [OF m] b unfolding bucket_ok_def by fastforce
  then show ?thesis using b counter_ok_add
    by (auto simp: bucket_ok_def open_record_bucket_def Let_def)
qed

lemma ring_ok_record:
  "\<forall>b \<in> set ring. bucket_ok b \<Longrightarrow> \<forall>b \<in> set (open_record dir epoch member mac bytes packets rate ring). bucket_ok b"
proof (cases "ring = []")
  case False
  assume ok: "\<forall>b \<in> set ring. bucket_ok b"
  have "nat (epoch mod int (length ring)) < length ring" using False by (simp add: nat_less_iff)
  then have "bucket_ok (ring ! nat (epoch mod int (length ring)))" using ok by simp
  then show ?thesis using ok bucket_ok_new [of epoch]
    by (auto simp: open_record_def Let_def bucket_ok_record dest: set_update_subset_insert [THEN subsetD])
qed (simp add: open_record_def)

lemma merge_mac_ok:
  assumes "table_ok (tc_macs c)" "usable_peer_mac mac" "\<forall>e \<in> set (tc_macs c). usable_peer_mac (fst e)"
  shows "table_ok (tc_macs (merge_mac (mac, v) c)) \<and> (\<forall>e \<in> set (tc_macs (merge_mac (mac, v) c)). usable_peer_mac (fst e))
    \<and> mac_sum mc_bytes (merge_mac (mac, v) c) = mac_sum mc_bytes c + mc_bytes v
    \<and> mac_sum mc_packets (merge_mac (mac, v) c) = mac_sum mc_packets c + mc_packets v
    \<and> tc_bytes (merge_mac (mac, v) c) = tc_bytes c \<and> tc_packets (merge_mac (mac, v) c) = tc_packets c
    \<and> tc_unknown_bytes (merge_mac (mac, v) c) = tc_unknown_bytes c
    \<and> tc_unknown_packets (merge_mac (mac, v) c) = tc_unknown_packets c"
  using assms set_tput [OF assms(1), of mac]
  by (simp add: merge_mac_def mac_sum_def [of _ "_\<lparr>tc_macs := _\<rparr>"] mac_sum_tput inv_rules)

lemma merge_macs_ok:
  "table_ok (tc_macs c) \<Longrightarrow> \<forall>e \<in> set (tc_macs c). usable_peer_mac (fst e) \<Longrightarrow> \<forall>e \<in> set ms. usable_peer_mac (fst e)
   \<Longrightarrow> table_ok (tc_macs (fold merge_mac ms c)) \<and> (\<forall>e \<in> set (tc_macs (fold merge_mac ms c)). usable_peer_mac (fst e))
    \<and> mac_sum mc_bytes (fold merge_mac ms c) = mac_sum mc_bytes c + sum_list (map (mc_bytes \<circ> snd) ms)
    \<and> mac_sum mc_packets (fold merge_mac ms c) = mac_sum mc_packets c + sum_list (map (mc_packets \<circ> snd) ms)
    \<and> tc_bytes (fold merge_mac ms c) = tc_bytes c \<and> tc_packets (fold merge_mac ms c) = tc_packets c
    \<and> tc_unknown_bytes (fold merge_mac ms c) = tc_unknown_bytes c
    \<and> tc_unknown_packets (fold merge_mac ms c) = tc_unknown_packets c"
proof (induction ms arbitrary: c)
  case (Cons e ms)
  obtain mac v where e: "e = (mac, v)" by (cases e)
  have u: "usable_peer_mac mac" using Cons.prems(3) e by simp
  note one = merge_mac_ok [OF Cons.prems(1) u Cons.prems(2), of v]
  have "table_ok (tc_macs (merge_mac e c))" "\<forall>x \<in> set (tc_macs (merge_mac e c)). usable_peer_mac (fst x)"
    using one by (simp_all add: e)
  note rest = Cons.IH [OF this] 
  show ?case using rest Cons.prems(3) one by (simp add: e algebra_simps)
qed simp

lemma merge_traffic_ok: "traffic_ok c \<Longrightarrow> traffic_ok d \<Longrightarrow> traffic_ok (merge_traffic c d)"
  using merge_macs_ok [of "c \<lparr> tc_bytes := tc_bytes c + tc_bytes d, tc_packets := tc_packets c + tc_packets d,
       tc_unknown_bytes := tc_unknown_bytes c + tc_unknown_bytes d,
       tc_unknown_packets := tc_unknown_packets c + tc_unknown_packets d \<rparr>" "tc_macs d"]
  by (simp add: traffic_ok_def merge_traffic_def mac_sum_def)

text \<open>The window's total of a direction accounts for all of its traffic.\<close>

lemma open_step_ok:
  assumes "ring \<noteq> []" "\<forall>b \<in> set ring. bucket_ok b" "traffic_ok (fst acc)"
  shows "traffic_ok (fst (open_step ring dir s acc))"
proof -
  have "nat (s mod int (length ring)) < length ring" using assms(1) by (simp add: nat_less_iff)
  then have "bucket_ok (ring ! nat (s mod int (length ring)))" using assms(2) by simp
  then show ?thesis using assms(3) merge_traffic_ok
    by (cases acc) (auto simp: open_step_def Let_def bucket_ok_def counter_ok_def)
qed

lemma window_total_ok:
  "ring \<noteq> [] \<Longrightarrow> \<forall>b \<in> set ring. bucket_ok b \<Longrightarrow> traffic_ok (fst (window_total ring dir ss))"
proof -
  assume ring: "ring \<noteq> []" "\<forall>b \<in> set ring. bucket_ok b"
  have "traffic_ok (fst acc) \<Longrightarrow> traffic_ok (fst (fold (open_step ring dir) ss acc))" for acc
    by (induction ss arbitrary: acc) (auto simp: open_step_ok [OF ring])
  then show ?thesis unfolding window_total_def by (simp add: traffic_zero_ok)
qed

end
