(* ===== verification/Attack.thy ===== *)
theory Attack
  imports Baseline Classify
begin

text \<open>
  The lifecycle of one attack as \<^verbatim>\<open>src/engine/internal/engine/engine.go\<close> keeps it for a host, a total
  group or a carpet prefix: the metric table and its evaluation, the attack state with its peak and
  its frozen thresholds, the reason recorded at the start, attack identifiers, and the output
  channels. \<open>runs\<close> is the abstract lifecycle: starts and ends alternate, and an end repeats what its
  start recorded.
\<close>

section \<open>Rates\<close>

definition fmax :: "f64 \<Rightarrow> f64 \<Rightarrow> f64" where
  "fmax cur sample = (if flt cur sample then sample else cur)"

definition zip_rates :: "(f64 \<Rightarrow> f64 \<Rightarrow> f64) \<Rightarrow> rates \<Rightarrow> rates \<Rightarrow> rates" where
  "zip_rates f a b = \<lparr> rt_pps = f (rt_pps a) (rt_pps b), rt_mbps = f (rt_mbps a) (rt_mbps b),
     rt_fps = f (rt_fps a) (rt_fps b), rt_tcp_pps = f (rt_tcp_pps a) (rt_tcp_pps b),
     rt_tcp_mbps = f (rt_tcp_mbps a) (rt_tcp_mbps b), rt_udp_pps = f (rt_udp_pps a) (rt_udp_pps b),
     rt_udp_mbps = f (rt_udp_mbps a) (rt_udp_mbps b), rt_icmp_pps = f (rt_icmp_pps a) (rt_icmp_pps b),
     rt_icmp_mbps = f (rt_icmp_mbps a) (rt_icmp_mbps b), rt_syn_pps = f (rt_syn_pps a) (rt_syn_pps b),
     rt_syn_mbps = f (rt_syn_mbps a) (rt_syn_mbps b), rt_frag_pps = f (rt_frag_pps a) (rt_frag_pps b),
     rt_frag_mbps = f (rt_frag_mbps a) (rt_frag_mbps b) \<rparr>"

definition peak_rates :: "rates \<Rightarrow> rates \<Rightarrow> rates" where
  "peak_rates = zip_rates fmax"

definition add_rates :: "rates \<Rightarrow> rates \<Rightarrow> rates" where
  "add_rates = zip_rates fadd"

section \<open>Thresholds\<close>

definition metric_table :: "(metric \<times> (rates \<Rightarrow> f64) \<times> (thresholds \<Rightarrow> 64 word)) list" where
  "metric_table =
     [(MetricPPS, rt_pps, th_pps), (MetricMbps, rt_mbps, th_mbps), (MetricFPS, rt_fps, th_fps),
      (MetricTCPPPS, rt_tcp_pps, th_tcp_pps), (MetricTCPMbps, rt_tcp_mbps, th_tcp_mbps),
      (MetricUDPPPS, rt_udp_pps, th_udp_pps), (MetricUDPMbps, rt_udp_mbps, th_udp_mbps),
      (MetricICMPPPS, rt_icmp_pps, th_icmp_pps), (MetricICMPMbps, rt_icmp_mbps, th_icmp_mbps),
      (MetricSYNPPS, rt_syn_pps, th_syn_pps), (MetricSYNMbps, rt_syn_mbps, th_syn_mbps),
      (MetricFragPPS, rt_frag_pps, th_frag_pps), (MetricFragMbps, rt_frag_mbps, th_frag_mbps)]"

fun evaluate_loop ::
  "(metric \<times> (rates \<Rightarrow> f64) \<times> (thresholds \<Rightarrow> 64 word)) list \<Rightarrow> rates \<Rightarrow> thresholds \<Rightarrow> (metric \<times> f64 \<times> f64) option" where
  "evaluate_loop [] r th = None"
| "evaluate_loop ((m, rate, limit) # ms) r th =
     (if limit th = 0 then evaluate_loop ms r th
      else if flt (f64_of_u64 (limit th)) (rate r) then Some (m, rate r, f64_of_u64 (limit th))
      else evaluate_loop ms r th)"

definition evaluate :: "rates \<Rightarrow> thresholds \<Rightarrow> (metric \<times> f64 \<times> f64) option" where
  "evaluate r th = evaluate_loop metric_table r th"

fun rate_loop :: "(metric \<times> (rates \<Rightarrow> f64) \<times> (thresholds \<Rightarrow> 64 word)) list \<Rightarrow> rates \<Rightarrow> metric \<Rightarrow> f64" where
  "rate_loop [] r m = rt_pps r"
| "rate_loop ((k, rate, limit) # ms) r m = (if k = m then rate r else rate_loop ms r m)"

definition rate_for :: "rates \<Rightarrow> metric \<Rightarrow> f64" where
  "rate_for r m = rate_loop metric_table r m"

definition thresholds_for :: "group \<Rightarrow> nat \<Rightarrow> thresholds option" where
  "thresholds_for g dir = (if dir = dir_out then g_out g else Some (g_thresholds g))"

section \<open>The reason of a detection\<close>

definition shares_none :: protocol_shares where
  "shares_none = \<lparr> ps_udp = Fin 0, ps_syn = Fin 0, ps_tcp = Fin 0, ps_icmp = Fin 0, ps_frag = Fin 0 \<rparr>"

definition shares_of :: "rates \<Rightarrow> protocol_shares" where
  "shares_of r = (if fle (rt_pps r) (Fin 0) then shares_none
     else \<lparr> ps_udp = fdiv (rt_udp_pps r) (rt_pps r), ps_syn = fdiv (rt_syn_pps r) (rt_pps r),
            ps_tcp = fdiv (rt_tcp_pps r) (rt_pps r), ps_icmp = fdiv (rt_icmp_pps r) (rt_pps r),
            ps_frag = fdiv (rt_frag_pps r) (rt_pps r) \<rparr>)"

definition baseline_params_for ::
  "metric \<Rightarrow> baseline_state \<Rightarrow> baseline_settings \<Rightarrow> thresholds \<Rightarrow> (f64 \<times> f64 \<times> f64) option" where
  "baseline_params_for m b bc th = (case m of
     MetricPPS \<Rightarrow> Some (ba_pps b, f64_of_u64 (fl_pps (bs_floor bc)), f64_of_u64 (th_pps th))
   | MetricMbps \<Rightarrow> Some (ba_mbps b, f64_of_u64 (fl_mbps (bs_floor bc)), f64_of_u64 (th_mbps th))
   | MetricFPS \<Rightarrow> Some (ba_fps b, f64_of_u64 (fl_fps (bs_floor bc)), f64_of_u64 (th_fps th))
   | _ \<Rightarrow> None)"

definition build_reason ::
  "metric \<Rightarrow> rates \<Rightarrow> thresholds \<Rightarrow> baseline_state option \<Rightarrow> baseline_settings option \<Rightarrow> int \<Rightarrow> reason" where
  "build_reason m r th b bc now =
     (let base = \<lparr> rs_source = ''static'', rs_baseline = None, rs_configured = False, rs_warming = False,
                   rs_remaining = 0, rs_shares = shares_of r, rs_gate = dominant_share \<rparr> in
      case (bc, b) of
        (Some c, Some s) \<Rightarrow>
          if \<not> warmed_up c now s then
            (let left = bs_warmup c - (now - ba_first s)
             in base \<lparr> rs_configured := True, rs_warming := True, rs_remaining := (if 0 < left then left else 0) \<rparr>)
          else (case baseline_params_for m s c th of
              None \<Rightarrow> base \<lparr> rs_configured := True \<rparr>
            | Some (normal, flr, top_limit) \<Rightarrow> base \<lparr> rs_configured := True, rs_source := ''baseline'',
                rs_baseline := Some \<lparr> rb_normal = normal, rb_factor = bs_factor c, rb_floor = flr, rb_ceiling = top_limit \<rparr> \<rparr>)
      | _ \<Rightarrow> base)"

section \<open>Attack identifiers\<close>

text \<open>The random source is a parameter: what its n-th read of sixteen bytes returns. A failed read
  falls back to the clock and a sequence number.\<close>

record id_source =
  id_random :: "nat \<Rightarrow> 8 word list option"
  id_reads :: nat
  id_sequence :: "64 word"

definition format_int36 :: "int \<Rightarrow> string" where
  "format_int36 n = (if n < 0 then ''-'' @ digits_of 36 (nat (- n)) else digits_of 36 (nat n))"

definition new_attack_id :: "nanos \<Rightarrow> id_source \<Rightarrow> string \<times> id_source" where
  "new_attack_id now s = (let s1 = s \<lparr> id_reads := Suc (id_reads s) \<rparr> in
     case id_random s (id_reads s) of
       Some bytes \<Rightarrow> (concat (map hex2 bytes), s1)
     | None \<Rightarrow> (let k = id_sequence s + 1
                in (format_int36 now @ ''-'' @ digits_of 36 (unat k), s1 \<lparr> id_sequence := k \<rparr>)))"

section \<open>The state of an attack\<close>

record attack_state =
  at_in :: bool
  at_id :: string
  at_metric :: metric
  at_threshold :: f64
  at_eff :: thresholds
  at_started :: nanos
  at_peak :: rates
  at_below :: nanos

definition attack_idle :: attack_state where
  "attack_idle = \<lparr> at_in = False, at_id = [], at_metric = MetricNone, at_threshold = Fin 0, at_eff = thresholds_none,
     at_started = 0, at_peak = rates_zero, at_below = 0 \<rparr>"

definition begin_attack :: "metric \<Rightarrow> f64 \<Rightarrow> thresholds \<Rightarrow> nanos \<Rightarrow> string \<Rightarrow> rates \<Rightarrow> attack_state \<Rightarrow> attack_state" where
  "begin_attack m lmt eff now ident r st = st \<lparr> at_in := True, at_metric := m, at_threshold := lmt, at_eff := eff,
     at_started := now, at_id := ident, at_peak := r, at_below := 0 \<rparr>"

definition hold_attack :: "rates \<Rightarrow> attack_state \<Rightarrow> attack_state" where
  "hold_attack r st = st \<lparr> at_peak := peak_rates (at_peak st) r, at_below := 0 \<rparr>"

definition fall_below :: "nanos \<Rightarrow> attack_state \<Rightarrow> attack_state" where
  "fall_below now st = (if is_zero_time (at_below st) then st \<lparr> at_below := now \<rparr> else st)"

definition tail_over :: "int \<Rightarrow> nanos \<Rightarrow> attack_state \<Rightarrow> bool" where
  "tail_over hysteresis now st \<longleftrightarrow> hysteresis \<le> time_sub now (at_below st)"

definition close_attack :: "rates \<Rightarrow> attack_state \<Rightarrow> attack_state" where
  "close_attack r st = st \<lparr> at_peak := peak_rates (at_peak st) r, at_in := False, at_below := 0 \<rparr>"

section \<open>Events and channels\<close>

definition event_zero :: event where
  "event_zero = \<lparr> ev_kind = AttackStarted, ev_id = [], ev_scope = ScopeHost, ev_target = AddrNone, ev_prefix = [],
     ev_hosts = 0, ev_direction = DirUnset, ev_group = [], ev_ban_enabled = False, ev_metric = MetricNone,
     ev_rate = Fin 0, ev_threshold = Fin 0, ev_rates = rates_zero, ev_peak = rates_zero, ev_at = 0, ev_started = 0,
     ev_sample = None, ev_class = None, ev_reason = None \<rparr>"

text \<open>The fields that every start, and every end, takes from the attack state.\<close>

definition started_event :: "attack_state \<Rightarrow> f64 \<Rightarrow> rates \<Rightarrow> nanos \<Rightarrow> attack_sample option \<Rightarrow> reason \<Rightarrow> event" where
  "started_event st rate r now sample why = event_zero \<lparr> ev_kind := AttackStarted, ev_id := at_id st,
     ev_metric := at_metric st, ev_rate := rate, ev_threshold := at_threshold st, ev_rates := r, ev_peak := at_peak st,
     ev_at := now, ev_sample := sample, ev_class := classify r sample, ev_reason := Some why \<rparr>"

definition ended_event :: "attack_state \<Rightarrow> rates \<Rightarrow> nanos \<Rightarrow> event" where
  "ended_event st r now = event_zero \<lparr> ev_kind := AttackEnded, ev_id := at_id st, ev_metric := at_metric st,
     ev_rate := rate_for r (at_metric st), ev_threshold := at_threshold st, ev_rates := r, ev_peak := at_peak st,
     ev_at := now, ev_started := at_started st \<rparr>"

text \<open>The two buffered channels. \<open>ch_log\<close> is what the drop metric and the log lines record: every
  lifecycle event in order, with whether the channel had room.\<close>

record channels =
  ch_events :: "event list"
  ch_ongoing :: "event list"
  ch_cap :: nat
  ch_log :: "(event \<times> bool) list"
  ch_ids :: id_source

definition emit :: "event \<Rightarrow> channels \<Rightarrow> channels" where
  "emit ev c = (let room = length (ch_events c) < ch_cap c
     in c \<lparr> ch_events := (if room then ch_events c @ [ev] else ch_events c), ch_log := ch_log c @ [(ev, room)] \<rparr>)"

definition emit_ongoing :: "event \<Rightarrow> channels \<Rightarrow> channels" where
  "emit_ongoing ev c = (if length (ch_ongoing c) < ch_cap c then c \<lparr> ch_ongoing := ch_ongoing c @ [ev] \<rparr> else c)"

definition take_id :: "nanos \<Rightarrow> channels \<Rightarrow> string \<times> channels" where
  "take_id now c = (case new_attack_id now (ch_ids c) of (ident, s) \<Rightarrow> (ident, c \<lparr> ch_ids := s \<rparr>))"

section \<open>Laws\<close>

lemma evaluate_loop_sound:
  "evaluate_loop ms r th = Some (m, x, lmt) \<Longrightarrow>
   \<exists>rate limit. (m, rate, limit) \<in> set ms \<and> x = rate r \<and> limit th \<noteq> 0 \<and> lmt = f64_of_u64 (limit th) \<and> flt lmt x"
  by (induction ms r th rule: evaluate_loop.induct) (auto split: if_splits)

lemma evaluate_loop_None:
  "evaluate_loop ms r th = None \<longleftrightarrow> (\<forall>(m, rate, limit) \<in> set ms. limit th = 0 \<or> \<not> flt (f64_of_u64 (limit th)) (rate r))"
  by (induction ms r th rule: evaluate_loop.induct) auto

text \<open>A detection names a metric whose limit is on and passed, and its rate is the rate of that metric.\<close>

lemma rate_for_table: "(m, rate, limit) \<in> set metric_table \<Longrightarrow> rate_for r m = rate r"
  by (auto simp: metric_table_def rate_for_def)

lemma evaluate_sound:
  "evaluate r th = Some (m, x, lmt) \<Longrightarrow> x = rate_for r m \<and> flt lmt x \<and>
     (\<exists>rate limit. (m, rate, limit) \<in> set metric_table \<and> limit th \<noteq> 0 \<and> lmt = f64_of_u64 (limit th))"
  unfolding evaluate_def using evaluate_loop_sound rate_for_table by fastforce

lemma emit_log: "ch_log (emit ev c) = ch_log c @ [(ev, length (ch_events c) < ch_cap c)]"
  by (simp add: emit_def Let_def)

lemma log_frame [simp]:
  "ch_log (emit_ongoing ev c) = ch_log c"
  "take_id now c = (ident, c') \<Longrightarrow> ch_log c' = ch_log c"
  by (auto simp: emit_ongoing_def take_id_def split: prod.splits)

text \<open>The lifecycle events of one subject: starts and ends alternate, and the end repeats the start.\<close>

definition closes :: "event \<Rightarrow> event \<Rightarrow> bool" where
  "closes s e \<longleftrightarrow> ev_id e = ev_id s \<and> ev_metric e = ev_metric s \<and> ev_threshold e = ev_threshold s \<and> ev_started e = ev_at s"

fun runs :: "event option \<Rightarrow> event list \<Rightarrow> event option option" where
  "runs cur [] = Some cur"
| "runs None (e # es) = (if ev_kind e = AttackStarted then runs (Some e) es else None)"
| "runs (Some s) (e # es) = (if ev_kind e = AttackEnded \<and> closes s e then runs None es else None)"

lemma runs_append: "runs cur (xs @ ys) = Option.bind (runs cur xs) (\<lambda>c. runs c ys)"
  by (induction cur xs rule: runs.induct) auto

text \<open>The attack state knows the open start.\<close>

definition agrees :: "event option \<Rightarrow> attack_state \<Rightarrow> bool" where
  "agrees cur st \<longleftrightarrow> (case cur of None \<Rightarrow> \<not> at_in st
     | Some s \<Rightarrow> at_in st \<and> ev_id s = at_id st \<and> ev_metric s = at_metric st \<and> ev_threshold s = at_threshold st
         \<and> ev_at s = at_started st)"

definition tracks :: "event list \<Rightarrow> attack_state \<Rightarrow> bool" where
  "tracks es st \<longleftrightarrow> (\<exists>cur. runs None es = Some cur \<and> agrees cur st)"

text \<open>What one step does to an attack: nothing, a start, or an end.\<close>

definition same_attack :: "attack_state \<Rightarrow> attack_state \<Rightarrow> bool" where
  "same_attack st st' \<longleftrightarrow> at_in st' = at_in st \<and> (at_in st \<longrightarrow> at_id st' = at_id st \<and> at_metric st' = at_metric st
     \<and> at_threshold st' = at_threshold st \<and> at_started st' = at_started st \<and> at_eff st' = at_eff st)"

definition attack_move :: "attack_state \<Rightarrow> event list \<Rightarrow> attack_state \<Rightarrow> bool" where
  "attack_move st es st' \<longleftrightarrow> (es = [] \<and> same_attack st st')
     \<or> (\<exists>e. es = [e] \<and> \<not> at_in st \<and> at_in st' \<and> ev_kind e = AttackStarted \<and> ev_id e = at_id st'
         \<and> ev_metric e = at_metric st' \<and> ev_threshold e = at_threshold st' \<and> ev_at e = at_started st')
     \<or> (\<exists>e. es = [e] \<and> at_in st \<and> \<not> at_in st' \<and> ev_kind e = AttackEnded \<and> ev_id e = at_id st
         \<and> ev_metric e = at_metric st \<and> ev_threshold e = at_threshold st \<and> ev_started e = at_started st)"

lemma tracks_move: "tracks es st \<Longrightarrow> attack_move st fs st' \<Longrightarrow> tracks (es @ fs) st'"
  unfolding attack_move_def
proof (elim disjE exE conjE)
  assume t: "tracks es st"
  show "tracks (es @ fs) st'" if "fs = []" "same_attack st st'"
    using t that by (auto simp: tracks_def runs_append agrees_def same_attack_def split: option.splits)
  show "tracks (es @ fs) st'" if "fs = [e]" "\<not> at_in st" "at_in st'" "ev_kind e = AttackStarted" "ev_id e = at_id st'"
    "ev_metric e = at_metric st'" "ev_threshold e = at_threshold st'" "ev_at e = at_started st'" for e
    using t that by (auto simp: tracks_def runs_append agrees_def split: option.splits)
  show "tracks (es @ fs) st'" if "fs = [e]" "at_in st" "\<not> at_in st'" "ev_kind e = AttackEnded" "ev_id e = at_id st"
    "ev_metric e = at_metric st" "ev_threshold e = at_threshold st" "ev_started e = at_started st" for e
    using t that by (auto simp: tracks_def runs_append agrees_def closes_def split: option.splits)
qed

lemma tracks_idle [simp]: "tracks [] st \<longleftrightarrow> \<not> at_in st"
  by (auto simp: tracks_def agrees_def)

lemma attack_idle_simps [simp]: "\<not> at_in attack_idle" "at_below attack_idle = 0"
  by (simp_all add: attack_idle_def)

end
