(* ===== verification/Engine.thy ===== *)
theory Engine
  imports Attack OpenPeering
begin

text \<open>
  The detection engine of \<^verbatim>\<open>src/engine/internal/engine/engine.go\<close>: shards, the recording of flows and
  the per-second evaluation of hosts, total groups and carpet prefixes.

  \<^item> \<^verbatim>\<open>Process\<close> is the step \<open>process\<close>, one tick of \<^verbatim>\<open>Run\<close> is \<open>eval_tick\<close>. The code locks a shard
    at a time; here a whole tick is one step, so flows recorded between the scans of two shards fall
    before or after the tick. Ranging over a map follows the table's order.
  \<^item> The configuration a tick reads is one snapshot. The code reads it again for the sample and for the
    group name of a carpet end; the model takes the same snapshot there.
  \<^item> The clock is past 1970 (a bucket index is never negative).
\<close>

definition num_shards :: nat where "num_shards = 256"

record host_state =
  hs_ring :: "bucket list"
  hs_seen :: int
  hs_attacks :: "nat \<Rightarrow> attack_state"
  hs_base :: "nat \<Rightarrow> baseline_state"

definition new_host :: "nat \<Rightarrow> host_state" where
  "new_host n = \<lparr> hs_ring = new_ring n, hs_seen = 0, hs_attacks = (\<lambda>d. attack_idle), hs_base = (\<lambda>d. baseline_new) \<rparr>"

definition in_any_attack :: "host_state \<Rightarrow> bool" where
  "in_any_attack hs \<longleftrightarrow> at_in (hs_attacks hs dir_in) \<or> at_in (hs_attacks hs dir_out)"

record shard =
  sh_hosts :: "(addr, host_state) table"
  sh_samples :: sample_ring

record group_state =
  gs_attacks :: "nat \<Rightarrow> attack_state"
  gs_base :: "nat \<Rightarrow> baseline_state"
  gs_last :: "nat \<Rightarrow> rates"

definition new_group_state :: group_state where
  "new_group_state = \<lparr> gs_attacks = (\<lambda>d. attack_idle), gs_base = (\<lambda>d. baseline_new), gs_last = (\<lambda>d. rates_zero) \<rparr>"

record carpet_state =
  cs_attack :: attack_state
  cs_last :: rates
  cs_hosts :: int

definition new_carpet_state :: carpet_state where
  "new_carpet_state = \<lparr> cs_attack = attack_idle, cs_last = rates_zero, cs_hosts = 0 \<rparr>"

record carpet_accum =
  ca_rates :: rates
  ca_hosts :: int

record engine =
  eg_shards :: "shard list"
  eg_window :: int
  eg_ring_size :: nat
  eg_max_flows :: nat
  eg_groups :: "(string, group_state) table"
  eg_carpets :: "(prefix, carpet_state) table"
  eg_live_groups :: "(string, nat \<Rightarrow> rates) table"
  eg_live_carpets :: "(addr, rates) table"
  eg_open :: "open_bucket list"
  eg_out :: channels
  eg_enrich :: enrichment

record sample_cfg =
  sc_enabled :: bool
  sc_flows_per_attack :: nat
  sc_buffer_flows :: nat

text \<open>\<^verbatim>\<open>New\<close> with its options: window, channel size, enrichment.\<close>

definition new_engine :: "sample_cfg \<Rightarrow> nat \<Rightarrow> nat \<Rightarrow> enrichment \<Rightarrow> id_source \<Rightarrow> engine" where
  "new_engine sc window cap en ids =
     (let per_shard = (if sc_enabled sc then (sc_buffer_flows sc + num_shards - 1) div num_shards else 0)
      in \<lparr> eg_shards = replicate num_shards \<lparr> sh_hosts = [], sh_samples = new_sample_ring per_shard \<rparr>,
           eg_window = int window, eg_ring_size = window + 1,
           eg_max_flows = (if sc_enabled sc then sc_flows_per_attack sc else 0),
           eg_groups = [], eg_carpets = [], eg_live_groups = [], eg_live_carpets = [],
           eg_open = replicate (window + 1) (open_bucket_at 0),
           eg_out = \<lparr> ch_events = [], ch_ongoing = [], ch_cap = cap, ch_log = [], ch_ids = ids \<rparr>, eg_enrich = en \<rparr>)"

section \<open>Shards\<close>

text \<open>\<^verbatim>\<open>Addr.As16\<close> and the FNV-1a hash over it.\<close>

definition v6_bytes :: "128 word \<Rightarrow> 8 word list" where
  "v6_bytes w = map (\<lambda>i. ucast (drop_bit (120 - 8 * i) w)) [0..<16]"

fun as16 :: "addr \<Rightarrow> 8 word list" where
  "as16 AddrNone = replicate 16 0"
| "as16 (V4 w) = v6_bytes (0xFFFF00000000 OR ucast w)"
| "as16 (V6 w z) = v6_bytes w"

definition fnv_step :: "8 word \<Rightarrow> 32 word \<Rightarrow> 32 word" where
  "fnv_step b h = (h XOR ucast b) * 16777619"

definition shard_index :: "addr \<Rightarrow> nat" where
  "shard_index a = unat (fold fnv_step (as16 a) 2166136261 AND 255)"

definition carpet_key :: "addr \<Rightarrow> carpet \<Rightarrow> prefix" where
  "carpet_key a c = (case addr_prefix a (if is6 a then cp_v6 c else cp_v4 c) of
     Some p \<Rightarrow> p | None \<Rightarrow> prefix_from a (int (bit_len a)))"

section \<open>Recording a flow\<close>

definition record_host :: "nat \<Rightarrow> addr \<Rightarrow> nat \<Rightarrow> flow \<Rightarrow> 64 word \<Rightarrow> int \<Rightarrow> string \<Rightarrow> shard \<Rightarrow> shard" where
  "record_host n a dir f rate epoch upstream sh =
     (let hs = (case tget (sh_hosts sh) a of None \<Rightarrow> new_host n | Some h \<Rightarrow> h);
          hs1 = hs \<lparr> hs_ring := ring_record dir f rate epoch upstream (hs_ring hs), hs_seen := epoch \<rparr>
      in sh \<lparr> sh_hosts := tput a hs1 (sh_hosts sh),
              sh_samples := push_sample \<lparr> se_flow = f \<lparr> f_rate := rate \<rparr>, se_epoch = epoch, se_dir = dir \<rparr> (sh_samples sh) \<rparr>)"

definition record_flow :: "addr \<Rightarrow> nat \<Rightarrow> flow \<Rightarrow> 64 word \<Rightarrow> int \<Rightarrow> string \<Rightarrow> engine \<Rightarrow> engine" where
  "record_flow a dir f rate epoch upstream e =
     e \<lparr> eg_shards := (eg_shards e)[shard_index a :=
           record_host (eg_ring_size e) a dir f rate epoch upstream (eg_shards e ! shard_index a)] \<rparr>"

definition flow_attribution :: "config \<Rightarrow> flow \<Rightarrow> 32 word \<Rightarrow> string" where
  "flow_attribution cfg f iface =
     (if at_mode cfg = ''vlan'' \<and> flow_vlan f = 0 then []
      else attribution_key cfg (f_exporter f) iface (flow_vlan f))"

definition record_peer :: "config \<Rightarrow> nat \<Rightarrow> flow \<Rightarrow> 32 word \<Rightarrow> 48 word \<Rightarrow> 64 word \<Rightarrow> int \<Rightarrow> engine \<Rightarrow> engine" where
  "record_peer cfg dir f iface mac r epoch e =
     (case open_peering_member cfg (f_exporter f) iface (flow_vlan f) of
        None \<Rightarrow> e
      | Some member \<Rightarrow> e \<lparr> eg_open := open_record dir epoch member mac (f_bytes f) (f_packets f) r (eg_open e) \<rparr>)"

definition process :: "config \<Rightarrow> nanos \<Rightarrow> flow \<Rightarrow> engine \<Rightarrow> engine" where
  "process cfg now f e =
     (let rate = sample_rate f; epoch = now div second;
          e1 = (if addr_valid (f_dst f) \<and> in_networks cfg (f_dst f) then
                  (case inbound_rate cfg (f_exporter f) (f_in_if f) (flow_vlan f) rate of (r, ok) \<Rightarrow>
                     if ok then record_peer cfg dir_in f (f_in_if f) (f_src_mac f) r epoch
                       (record_flow (f_dst f) dir_in f r epoch (flow_attribution cfg f (f_in_if f)) e)
                     else e)
                else e)
      in if (outgoing_enabled cfg \<or> open_peering_enabled cfg) \<and> addr_valid (f_src f) \<and> in_networks cfg (f_src f) then
           (case outbound_rate cfg (f_exporter f) (f_out_if f) (flow_vlan f) rate of (r, ok) \<Rightarrow>
              if ok then record_peer cfg dir_out f (f_out_if f) (f_dst_mac f) r epoch
                (if outgoing_enabled cfg
                 then record_flow (f_src f) dir_out f r epoch (flow_attribution cfg f (f_out_if f)) e1 else e1)
              else e1)
         else e1)"

definition process_batch :: "config \<Rightarrow> nanos \<Rightarrow> flow list \<Rightarrow> engine \<Rightarrow> engine" where
  "process_batch cfg now fs e = fold (process cfg now) fs e"

section \<open>Evaluating a host\<close>

definition host_event :: "addr \<Rightarrow> group \<Rightarrow> nat \<Rightarrow> event \<Rightarrow> event" where
  "host_event a g d ev = ev \<lparr> ev_scope := ScopeHost, ev_target := a, ev_group := g_name g, ev_direction := dir_name d,
     ev_ban_enabled := g_ban_enabled g \<rparr>"

definition emit_host_ongoing :: "addr \<Rightarrow> group \<Rightarrow> nat \<Rightarrow> nanos \<Rightarrow> channels \<Rightarrow> channels" where
  "emit_host_ongoing a g d now c =
     (if \<not> g_ban_enabled g then c
      else emit_ongoing (event_zero \<lparr> ev_kind := AttackOngoing, ev_scope := ScopeHost, ev_target := a, ev_group := g_name g,
             ev_direction := dir_name d, ev_ban_enabled := True, ev_at := now \<rparr>) c)"

definition end_attack :: "addr \<Rightarrow> group \<Rightarrow> nat \<Rightarrow> rates \<Rightarrow> nanos \<Rightarrow> host_state \<times> channels \<Rightarrow> host_state \<times> channels" where
  "end_attack a g d r now s = (case s of (hs, c) \<Rightarrow>
     let st = close_attack r (hs_attacks hs d)
     in (hs \<lparr> hs_attacks := (hs_attacks hs)(d := st) \<rparr>, emit (host_event a g d (ended_event st r now)) c))"

definition end_both :: "addr \<Rightarrow> group \<Rightarrow> (nat \<Rightarrow> rates) \<Rightarrow> nanos \<Rightarrow> host_state \<times> channels \<Rightarrow> host_state \<times> channels" where
  "end_both a g r now s =
     fold (\<lambda>d s. if at_in (hs_attacks (fst s) d) then end_attack a g d (r d) now s else s) [dir_in, dir_out] s"

text \<open>What a tick reads and does not change.\<close>

record tick =
  tk_cfg :: config
  tk_now :: nanos
  tk_window :: int
  tk_max_flows :: nat
  tk_enrich :: enrichment

definition tk_sec :: "tick \<Rightarrow> int" where "tk_sec t = tk_now t div second"
definition tk_hysteresis :: "tick \<Rightarrow> int" where "tk_hysteresis t = unban_hysteresis (c_ban (tk_cfg t))"

definition host_starts ::
  "tick \<Rightarrow> sample_ring \<Rightarrow> addr \<Rightarrow> group \<Rightarrow> nat \<Rightarrow> rates \<Rightarrow> thresholds \<Rightarrow> thresholds \<Rightarrow> metric \<times> f64 \<times> f64
     \<Rightarrow> host_state \<times> channels \<Rightarrow> host_state \<times> channels" where
  "host_starts t sr a g d r th eff hit s = (case (s, hit) of ((hs, c), (m, rate, lmt)) \<Rightarrow>
     case take_id (tk_now t) c of (ident, c1) \<Rightarrow>
     let st = begin_attack m lmt eff (tk_now t) ident r (hs_attacks hs d);
         sample = collect_host_sample (tk_enrich t) (tk_cfg t) (tk_max_flows t) sr a d (tk_sec t - tk_window t);
         why = build_reason m r th (Some (hs_base hs d)) (g_baseline g) (tk_sec t)
     in (hs \<lparr> hs_attacks := (hs_attacks hs)(d := st) \<rparr>,
         emit (host_event a g d (started_event st rate r (tk_now t) sample why)) c1))"

text \<open>The thresholds a direction is judged by: frozen at the start of an attack, else tightened by the
  baseline. And what it learns: only outside attacks, only from traffic.\<close>

definition effective_of :: "tick \<Rightarrow> group \<Rightarrow> thresholds \<Rightarrow> attack_state \<Rightarrow> baseline_state \<Rightarrow> thresholds" where
  "effective_of t g th st b = (if at_in st then at_eff st else effective_thresholds th b (g_baseline g) (tk_sec t))"

definition relearn :: "tick \<Rightarrow> group \<Rightarrow> rates \<Rightarrow> attack_state \<Rightarrow> baseline_state \<Rightarrow> baseline_state" where
  "relearn t g r st b = (case g_baseline g of
     Some bc \<Rightarrow> if \<not> at_in st \<and> flt (Fin 0) (rt_pps r) then learn r bc (tk_sec t) b else b
   | None \<Rightarrow> b)"

definition host_learns :: "tick \<Rightarrow> group \<Rightarrow> rates \<Rightarrow> nat \<Rightarrow> host_state \<Rightarrow> host_state" where
  "host_learns t g r d hs = hs \<lparr> hs_base := (hs_base hs)(d := relearn t g r (hs_attacks hs d) (hs_base hs d)) \<rparr>"

definition host_judged ::
  "tick \<Rightarrow> sample_ring \<Rightarrow> addr \<Rightarrow> group \<Rightarrow> rates \<Rightarrow> nat \<Rightarrow> thresholds
     \<Rightarrow> host_state \<times> channels \<Rightarrow> (host_state \<times> channels) \<times> int" where
  "host_judged t sr a g r d th s = (case s of (hs, c) \<Rightarrow>
     let st = hs_attacks hs d; eff = effective_of t g th st (hs_base hs d) in
     case evaluate r eff of
       Some hit \<Rightarrow>
         (if \<not> at_in st then host_starts t sr a g d r th eff hit (hs, c)
          else (hs \<lparr> hs_attacks := (hs_attacks hs)(d := hold_attack r st) \<rparr>, emit_host_ongoing a g d (tk_now t) c), 1)
     | None \<Rightarrow>
         if \<not> at_in st then ((hs, c), 0)
         else let st1 = fall_below (tk_now t) st; hs1 = hs \<lparr> hs_attacks := (hs_attacks hs)(d := st1) \<rparr> in
           if tail_over (tk_hysteresis t) (tk_now t) st1 then (end_attack a g d r (tk_now t) (hs1, c), 0)
           else ((hs1, emit_host_ongoing a g d (tk_now t) c), 1))"

definition host_direction ::
  "tick \<Rightarrow> sample_ring \<Rightarrow> addr \<Rightarrow> group \<Rightarrow> (nat \<Rightarrow> rates) \<Rightarrow> nat
     \<Rightarrow> (host_state \<times> channels) \<times> int \<Rightarrow> (host_state \<times> channels) \<times> int" where
  "host_direction t sr a g r d x = (case x of (s, active) \<Rightarrow>
     case thresholds_for g d of
       None \<Rightarrow> (if at_in (hs_attacks (fst s) d) then end_attack a g d (r d) (tk_now t) s else s, active)
     | Some th \<Rightarrow> (case host_judged t sr a g (r d) d th s of
         ((hs, c), n) \<Rightarrow> ((host_learns t g (r d) d hs, c), active + n)))"

text \<open>The running sums of a tick.\<close>

record tally =
  ty_channels :: channels
  ty_totals :: "(nat \<Rightarrow> rates) list"
  ty_carpet :: "(prefix, carpet_accum) table"
  ty_active :: int
  ty_tracked :: int

definition fold_carpet :: "carpet \<Rightarrow> addr \<Rightarrow> rates \<Rightarrow> (prefix, carpet_accum) table \<Rightarrow> (prefix, carpet_accum) table" where
  "fold_carpet cp a r agg =
     (let key = carpet_key a cp;
          acc = (case tget agg key of None \<Rightarrow> \<lparr> ca_rates = rates_zero, ca_hosts = 0 \<rparr> | Some x \<Rightarrow> x)
      in tput key \<lparr> ca_rates = add_rates (ca_rates acc) r, ca_hosts = ca_hosts acc + 1 \<rparr> agg)"

text \<open>One host of the scan. The first component is the host's state, or \<open>None\<close> when it is evicted.\<close>

definition evict_or_track :: "tick \<Rightarrow> bool \<Rightarrow> host_state \<Rightarrow> tally \<Rightarrow> host_state option \<times> tally" where
  "evict_or_track t ok hs y =
     (if \<not> in_any_attack hs \<and> \<not> ok \<and> hs_seen hs < tk_sec t - tk_window t then (None, y)
      else (Some hs, y \<lparr> ty_tracked := ty_tracked y + 1 \<rparr>))"

definition end_both_tally :: "tick \<Rightarrow> addr \<Rightarrow> group \<Rightarrow> (nat \<Rightarrow> rates) \<Rightarrow> host_state \<Rightarrow> tally \<Rightarrow> host_state \<times> tally" where
  "end_both_tally t a g r hs y = (case end_both a g r (tk_now t) (hs, ty_channels y) of (hs1, c) \<Rightarrow> (hs1, y \<lparr> ty_channels := c \<rparr>))"

definition scan_host :: "tick \<Rightarrow> sample_ring \<Rightarrow> addr \<Rightarrow> host_state \<Rightarrow> tally \<Rightarrow> host_state option \<times> tally" where
  "scan_host t sr a hs y =
     (case windowed_rates (hs_ring hs) (tk_window t) (tk_sec t) of (rin, rout, ok) \<Rightarrow>
      let cfg = tk_cfg t; r = (\<lambda>d. if d = dir_out then rout else rin); gi = group_index_for cfg a; g = c_groups cfg ! gi in
      if \<not> in_networks cfg a then
        (case end_both_tally t a g r hs y of (hs1, y1) \<Rightarrow> evict_or_track t ok hs1 y1)
      else if g_calc g = CalcTotal then
        (case end_both_tally t a g r hs (y \<lparr> ty_totals := (ty_totals y)[gi := (\<lambda>d. add_rates ((ty_totals y ! gi) d) (r d))] \<rparr>)
           of (hs1, y1) \<Rightarrow> evict_or_track t ok hs1 y1)
      else if is_whitelisted cfg a then
        (case end_both_tally t a g r hs y of (hs1, y1) \<Rightarrow> evict_or_track t ok hs1 y1)
      else
        let y1 = (case c_carpet cfg of
                Some cp \<Rightarrow> if ok \<and> flt (Fin 0) (rt_pps rin) then y \<lparr> ty_carpet := fold_carpet cp a rin (ty_carpet y) \<rparr> else y
              | None \<Rightarrow> y)
        in case fold (host_direction t sr a g r) [dir_in, dir_out] ((hs, ty_channels y1), ty_active y1) of
             ((hs1, c), active) \<Rightarrow> evict_or_track t ok hs1 (y1 \<lparr> ty_channels := c, ty_active := active \<rparr>))"

fun scan_hosts :: "tick \<Rightarrow> sample_ring \<Rightarrow> (addr, host_state) table \<Rightarrow> tally \<Rightarrow> (addr, host_state) table \<times> tally" where
  "scan_hosts t sr [] y = ([], y)"
| "scan_hosts t sr ((a, hs) # rest) y =
     (case scan_host t sr a hs y of (kept, y1) \<Rightarrow>
      case scan_hosts t sr rest y1 of (rest1, y2) \<Rightarrow>
        (case kept of None \<Rightarrow> rest1 | Some hs1 \<Rightarrow> (a, hs1) # rest1, y2))"

fun scan_shards :: "tick \<Rightarrow> shard list \<Rightarrow> tally \<Rightarrow> shard list \<times> tally" where
  "scan_shards t [] y = ([], y)"
| "scan_shards t (sh # shs) y =
     (case scan_hosts t (sh_samples sh) (sh_hosts sh) y of (hosts, y1) \<Rightarrow>
      case scan_shards t shs y1 of (shs1, y2) \<Rightarrow> (sh \<lparr> sh_hosts := hosts \<rparr> # shs1, y2))"

end
