(* ===== verification/EngineTick.thy ===== *)
theory EngineTick
  imports Engine
begin

text \<open>
  One tick of \<^verbatim>\<open>src/engine/internal/engine/engine.go\<close> as a whole: after the host scan, total groups
  and carpet prefixes, the rates republished for readers, and the read-only views
  (\<^verbatim>\<open>LiveRates\<close>, \<^verbatim>\<open>Snapshot\<close>). The order in which Go ranges over its tables of groups and
  carpets is the table order.
\<close>

section \<open>Total groups\<close>

definition group_event :: "string \<Rightarrow> nat \<Rightarrow> event \<Rightarrow> event" where
  "group_event name d ev = ev \<lparr> ev_scope := ScopeGroup, ev_group := name, ev_direction := dir_name d \<rparr>"

definition end_group_attack :: "string \<Rightarrow> nat \<Rightarrow> rates \<Rightarrow> nanos \<Rightarrow> group_state \<times> channels \<Rightarrow> group_state \<times> channels" where
  "end_group_attack name d r now s = (case s of (gs, c) \<Rightarrow>
     let st = close_attack r (gs_attacks gs d)
     in (gs \<lparr> gs_attacks := (gs_attacks gs)(d := st) \<rparr>, emit (group_event name d (ended_event st r now)) c))"

definition group_starts ::
  "tick \<Rightarrow> sample_ring list \<Rightarrow> nat \<Rightarrow> group \<Rightarrow> nat \<Rightarrow> rates \<Rightarrow> thresholds \<Rightarrow> thresholds \<Rightarrow> metric \<times> f64 \<times> f64
     \<Rightarrow> group_state \<times> channels \<Rightarrow> group_state \<times> channels" where
  "group_starts t rings gi g d r th eff hit s = (case (s, hit) of ((gs, c), (m, rate, lmt)) \<Rightarrow>
     case take_id (tk_now t) c of (ident, c1) \<Rightarrow>
     let st = begin_attack m lmt eff (tk_now t) ident r (gs_attacks gs d);
         sample = collect_by_match (tk_enrich t) (tk_cfg t) (tk_max_flows t) rings (tk_sec t - tk_window t)
                    (group_match (tk_cfg t) gi d);
         why = build_reason m r th (Some (gs_base gs d)) (g_baseline g) (tk_sec t)
     in (gs \<lparr> gs_attacks := (gs_attacks gs)(d := st) \<rparr>,
         emit (group_event (g_name g) d (started_event st rate r (tk_now t) sample why)) c1))"

definition group_judged ::
  "tick \<Rightarrow> sample_ring list \<Rightarrow> nat \<Rightarrow> group \<Rightarrow> rates \<Rightarrow> nat \<Rightarrow> thresholds
     \<Rightarrow> group_state \<times> channels \<Rightarrow> (group_state \<times> channels) \<times> int" where
  "group_judged t rings gi g r d th s = (case s of (gs, c) \<Rightarrow>
     let st = gs_attacks gs d; eff = effective_of t g th st (gs_base gs d) in
     case evaluate r eff of
       Some hit \<Rightarrow>
         (if \<not> at_in st then group_starts t rings gi g d r th eff hit (gs, c)
          else (gs \<lparr> gs_attacks := (gs_attacks gs)(d := hold_attack r st) \<rparr>, c), 1)
     | None \<Rightarrow>
         if \<not> at_in st then ((gs, c), 0)
         else let st1 = fall_below (tk_now t) st; gs1 = gs \<lparr> gs_attacks := (gs_attacks gs)(d := st1) \<rparr> in
           if tail_over (tk_hysteresis t) (tk_now t) st1 then (end_group_attack (g_name g) d r (tk_now t) (gs1, c), 0)
           else ((gs1, c), 1))"

definition group_direction ::
  "tick \<Rightarrow> sample_ring list \<Rightarrow> nat \<Rightarrow> group \<Rightarrow> (nat \<Rightarrow> rates) \<Rightarrow> nat
     \<Rightarrow> (group_state \<times> channels) \<times> int \<Rightarrow> (group_state \<times> channels) \<times> int" where
  "group_direction t rings gi g r d x = (case x of (s, active) \<Rightarrow>
     case thresholds_for g d of
       None \<Rightarrow> (if at_in (gs_attacks (fst s) d) then end_group_attack (g_name g) d (r d) (tk_now t) s else s, active)
     | Some th \<Rightarrow> (case group_judged t rings gi g (r d) d th s of
         ((gs, c), n) \<Rightarrow>
           ((gs \<lparr> gs_base := (gs_base gs)(d := relearn t g (r d) (gs_attacks gs d) (gs_base gs d)) \<rparr>, c), active + n)))"

text \<open>The configured total groups, then the groups a reload removed.\<close>

definition eval_group ::
  "tick \<Rightarrow> sample_ring list \<Rightarrow> (nat \<Rightarrow> rates) list \<Rightarrow> nat
     \<Rightarrow> (string, group_state) table \<times> channels \<times> int \<Rightarrow> (string, group_state) table \<times> channels \<times> int" where
  "eval_group t rings totals gi s = (case s of (groups, c, active) \<Rightarrow>
     let g = c_groups (tk_cfg t) ! gi in
     if g_calc g \<noteq> CalcTotal then s
     else
       let gs = (case tget groups (g_name g) of None \<Rightarrow> new_group_state | Some x \<Rightarrow> x) \<lparr> gs_last := totals ! gi \<rparr>
       in case fold (group_direction t rings gi g (totals ! gi)) [dir_in, dir_out] ((gs, c), active) of
            ((gs1, c1), active1) \<Rightarrow> (tput (g_name g) gs1 groups, c1, active1))"

definition total_names :: "config \<Rightarrow> string set" where
  "total_names cfg = g_name ` set (filter (\<lambda>g. g_calc g = CalcTotal) (c_groups cfg))"

definition close_group :: "nanos \<Rightarrow> string \<times> group_state \<Rightarrow> channels \<Rightarrow> channels" where
  "close_group now e c = (case e of (name, gs) \<Rightarrow>
     snd (fold (\<lambda>d s. if at_in (gs_attacks (fst s) d) then end_group_attack name d (gs_last (fst s) d) now s else s)
            [dir_in, dir_out] (gs, c)))"

definition eval_groups ::
  "tick \<Rightarrow> sample_ring list \<Rightarrow> (nat \<Rightarrow> rates) list \<Rightarrow> (string, group_state) table \<Rightarrow> channels
     \<Rightarrow> (string, group_state) table \<times> channels \<times> int" where
  "eval_groups t rings totals groups c =
     (case fold (eval_group t rings totals) [0..<length (c_groups (tk_cfg t))] (groups, c, 0) of (groups1, c1, active) \<Rightarrow>
      let gone = filter (\<lambda>e. fst e \<notin> total_names (tk_cfg t)) groups1
      in (filter (\<lambda>e. fst e \<in> total_names (tk_cfg t)) groups1, fold (close_group (tk_now t)) gone c1, active))"

section \<open>Carpet prefixes\<close>

definition carpet_event :: "config \<Rightarrow> prefix \<Rightarrow> int \<Rightarrow> event \<Rightarrow> event" where
  "carpet_event cfg p hosts ev = ev \<lparr> ev_scope := ScopePrefix, ev_target := pfx_addr p, ev_prefix := pfx_string p,
     ev_hosts := hosts, ev_direction := DirIncoming, ev_group := g_name (group_for cfg (pfx_addr p)) \<rparr>"

definition emit_carpet_ongoing :: "config \<Rightarrow> carpet \<Rightarrow> prefix \<Rightarrow> nanos \<Rightarrow> channels \<Rightarrow> channels" where
  "emit_carpet_ongoing cfg cp p now c =
     (if cp_mitigation cp = [] then c
      else emit_ongoing (event_zero \<lparr> ev_kind := AttackOngoing, ev_scope := ScopePrefix, ev_target := pfx_addr p,
             ev_prefix := pfx_string p, ev_direction := DirIncoming, ev_group := g_name (group_for cfg (pfx_addr p)),
             ev_ban_enabled := True, ev_at := now \<rparr>) c)"

definition end_carpet ::
  "config \<Rightarrow> prefix \<Rightarrow> carpet_state \<Rightarrow> rates \<Rightarrow> nanos \<Rightarrow> (prefix, carpet_state) table \<times> channels
     \<Rightarrow> (prefix, carpet_state) table \<times> channels" where
  "end_carpet cfg p cs r now s = (case s of (carpets, c) \<Rightarrow>
     (tdel p carpets, emit (carpet_event cfg p (cs_hosts cs) (ended_event (close_attack r (cs_attack cs)) r now)) c))"

definition carpet_starts ::
  "tick \<Rightarrow> sample_ring list \<Rightarrow> carpet \<Rightarrow> prefix \<Rightarrow> carpet_accum \<Rightarrow> metric \<times> f64 \<times> f64
     \<Rightarrow> attack_state \<Rightarrow> channels \<Rightarrow> attack_state \<times> channels" where
  "carpet_starts t rings cp p acc hit st0 c = (case hit of (m, rate, lmt) \<Rightarrow>
     case take_id (tk_now t) c of (ident, c1) \<Rightarrow>
     let st = begin_attack m lmt (cp_thresholds cp) (tk_now t) ident (ca_rates acc) st0;
         sample = collect_by_match (tk_enrich t) (tk_cfg t) (tk_max_flows t) rings (tk_sec t - tk_window t)
                    (prefix_match p dir_in);
         why = build_reason m (ca_rates acc) (cp_thresholds cp) None None (tk_sec t)
     in (st, emit ((carpet_event (tk_cfg t) p (ca_hosts acc)
                     (started_event st rate (ca_rates acc) (tk_now t) sample why)) \<lparr> ev_ban_enabled := cp_mitigation cp \<noteq> [] \<rparr>) c1))"

text \<open>A prefix below its limit, or one with no traffic, and in an attack.\<close>

definition carpet_tail ::
  "tick \<Rightarrow> carpet \<Rightarrow> prefix \<Rightarrow> rates \<Rightarrow> carpet_state
     \<Rightarrow> (prefix, carpet_state) table \<times> channels \<times> int \<Rightarrow> (prefix, carpet_state) table \<times> channels \<times> int" where
  "carpet_tail t cp p r cs s = (case s of (carpets, c, active) \<Rightarrow>
     let cs1 = cs \<lparr> cs_attack := fall_below (tk_now t) (cs_attack cs) \<rparr> in
     if tail_over (tk_hysteresis t) (tk_now t) (cs_attack cs1)
     then (case end_carpet (tk_cfg t) p cs1 r (tk_now t) (carpets, c) of (carpets1, c1) \<Rightarrow> (carpets1, c1, active))
     else (tput p cs1 carpets, emit_carpet_ongoing (tk_cfg t) cp p (tk_now t) c, active + 1))"

definition eval_carpet ::
  "tick \<Rightarrow> sample_ring list \<Rightarrow> carpet \<Rightarrow> prefix \<times> carpet_accum
     \<Rightarrow> (prefix, carpet_state) table \<times> channels \<times> int \<Rightarrow> (prefix, carpet_state) table \<times> channels \<times> int" where
  "eval_carpet t rings cp e s = (case (e, s) of ((p, acc), (carpets, c, active)) \<Rightarrow>
     case (if cp_min_hosts cp \<le> ca_hosts acc then evaluate (ca_rates acc) (cp_thresholds cp) else None) of
       Some hit \<Rightarrow>
         (let cs = (case tget carpets p of None \<Rightarrow> new_carpet_state | Some x \<Rightarrow> x)
                     \<lparr> cs_last := ca_rates acc, cs_hosts := ca_hosts acc \<rparr>
          in if \<not> at_in (cs_attack cs) then
               (case carpet_starts t rings cp p acc hit (cs_attack cs) c of (st, c1) \<Rightarrow>
                  (tput p (cs \<lparr> cs_attack := st \<rparr>) carpets, c1, active + 1))
             else (tput p (cs \<lparr> cs_attack := hold_attack (ca_rates acc) (cs_attack cs) \<rparr>) carpets,
                   emit_carpet_ongoing (tk_cfg t) cp p (tk_now t) c, active + 1))
     | None \<Rightarrow>
         (case tget carpets p of
            None \<Rightarrow> s
          | Some cs \<Rightarrow>
              if \<not> at_in (cs_attack cs) then s
              else carpet_tail t cp p (ca_rates acc) (cs \<lparr> cs_last := ca_rates acc, cs_hosts := ca_hosts acc \<rparr>) s))"

definition quiet_carpet ::
  "tick \<Rightarrow> carpet \<Rightarrow> (prefix, carpet_accum) table \<Rightarrow> prefix \<times> carpet_state
     \<Rightarrow> (prefix, carpet_state) table \<times> channels \<times> int \<Rightarrow> (prefix, carpet_state) table \<times> channels \<times> int" where
  "quiet_carpet t cp agg e s = (case e of (p, cs) \<Rightarrow>
     if tget agg p \<noteq> None \<or> \<not> at_in (cs_attack cs) then s else carpet_tail t cp p rates_zero cs s)"

definition eval_carpets ::
  "tick \<Rightarrow> sample_ring list \<Rightarrow> carpet \<Rightarrow> (prefix, carpet_accum) table \<Rightarrow> (prefix, carpet_state) table \<Rightarrow> channels
     \<Rightarrow> (prefix, carpet_state) table \<times> channels \<times> int" where
  "eval_carpets t rings cp agg carpets c =
     (case fold (eval_carpet t rings cp) agg (carpets, c, 0) of (carpets1, c1, active1) \<Rightarrow>
      fold (quiet_carpet t cp agg) carpets1 (carpets1, c1, active1))"

definition close_all_carpets :: "config \<Rightarrow> nanos \<Rightarrow> (prefix, carpet_state) table \<Rightarrow> channels \<Rightarrow> (prefix, carpet_state) table \<times> channels" where
  "close_all_carpets cfg now carpets c =
     fold (\<lambda>(p, cs) s. if at_in (cs_attack cs) then end_carpet cfg p cs (cs_last cs) now s else (tdel p (fst s), snd s))
       carpets (carpets, c)"

section \<open>The tick\<close>

definition publish_live_rates :: "engine \<Rightarrow> engine" where
  "publish_live_rates e = e \<lparr> eg_live_groups := map (\<lambda>(name, gs). (name, gs_last gs)) (eg_groups e),
     eg_live_carpets := fold (\<lambda>(p, cs). tput (pfx_addr p) (cs_last cs)) (eg_carpets e) [] \<rparr>"

text \<open>The gauges of a tick: active attacks and tracked hosts.\<close>

definition eval_tick :: "config \<Rightarrow> nanos \<Rightarrow> engine \<Rightarrow> engine \<times> int \<times> int" where
  "eval_tick cfg now e =
     (let t = \<lparr> tk_cfg = cfg, tk_now = now, tk_window = eg_window e, tk_max_flows = eg_max_flows e, tk_enrich = eg_enrich e \<rparr>;
          y0 = \<lparr> ty_channels = eg_out e, ty_totals = replicate (length (c_groups cfg)) (\<lambda>d. rates_zero), ty_carpet = [],
                 ty_active = 0, ty_tracked = 0 \<rparr>
      in case scan_shards t (eg_shards e) y0 of (shards, y) \<Rightarrow>
         let rings = map sh_samples shards in
         case eval_groups t rings (ty_totals y) (eg_groups e) (ty_channels y) of (groups, c, active_groups) \<Rightarrow>
         case (case c_carpet cfg of
                 Some cp \<Rightarrow> eval_carpets t rings cp (ty_carpet y) (eg_carpets e) c
               | None \<Rightarrow> (case close_all_carpets cfg now (eg_carpets e) c of (carpets, c1) \<Rightarrow> (carpets, c1, 0)))
           of (carpets, c2, active_carpets) \<Rightarrow>
         (publish_live_rates (e \<lparr> eg_shards := shards, eg_groups := groups, eg_carpets := carpets, eg_out := c2 \<rparr>),
          ty_active y + active_groups + active_carpets, ty_tracked y))"

section \<open>Views\<close>

definition live_rates :: "engine \<Rightarrow> nanos \<Rightarrow> scope \<Rightarrow> addr \<Rightarrow> string \<Rightarrow> direction \<Rightarrow> rates option" where
  "live_rates e now sc target grp dir = (case sc of
     ScopeGroup \<Rightarrow> map_option (\<lambda>r. r (dir_index dir)) (tget (eg_live_groups e) grp)
   | ScopePrefix \<Rightarrow> tget (eg_live_carpets e) target
   | ScopeHost \<Rightarrow>
       (case tget (sh_hosts (eg_shards e ! shard_index target)) target of
          None \<Rightarrow> None
        | Some hs \<Rightarrow> (case windowed_rates (hs_ring hs) (eg_window e) (now div second) of (rin, rout, ok) \<Rightarrow>
            Some (if dir = DirOutgoing then rout else rin))))"

record upstream_rate =
  ur_key :: string
  ur_mbps :: f64
  ur_pps :: f64

definition windowed_upstreams :: "bucket list \<Rightarrow> int \<Rightarrow> int \<Rightarrow> nat \<Rightarrow> upstream_rate list" where
  "windowed_upstreams ring w now d =
     (let us = fold (\<lambda>s acc. let b = ring ! slot ring s in
                  if bk_epoch b \<noteq> s then acc
                  else fold (\<lambda>u. bump_upstream (uc_key u) (uc_bytes u) (uc_packets u)) (bk_ups b d) acc)
                [now - w..now - 1] []
      in sort_by (by_rate ur_mbps ur_key) (map (\<lambda>u. \<lparr> ur_key = uc_key u, ur_mbps = mbps_of (uc_bytes u) (f64_of_int w),
           ur_pps = pps_of (uc_packets u) (f64_of_int w) \<rparr>) us))"

record host_stat =
  ht_target :: addr
  ht_group :: string
  ht_rates :: rates
  ht_out_rates :: rates
  ht_upstreams :: "upstream_rate list"
  ht_out_upstreams :: "upstream_rate list"
  ht_in_attack :: bool
  ht_metric :: metric
  ht_direction :: direction
  ht_baseline :: "rates option"
  ht_out_baseline :: "rates option"

definition host_snapshot :: "config \<Rightarrow> int \<Rightarrow> int \<Rightarrow> addr \<times> host_state \<Rightarrow> host_stat" where
  "host_snapshot cfg w now e = (case e of (a, hs) \<Rightarrow>
     case windowed_rates (hs_ring hs) w now of (rin, rout, ok) \<Rightarrow>
     let g = group_for cfg a; base = (\<lambda>d. if g_baseline g \<noteq> None then base_rates (hs_base hs d) else None)
     in \<lparr> ht_target = a, ht_group = g_name g, ht_rates = rin, ht_out_rates = rout,
          ht_upstreams = windowed_upstreams (hs_ring hs) w now dir_in,
          ht_out_upstreams = windowed_upstreams (hs_ring hs) w now dir_out, ht_in_attack = in_any_attack hs,
          ht_metric = (if at_in (hs_attacks hs dir_in) then at_metric (hs_attacks hs dir_in)
            else if at_in (hs_attacks hs dir_out) then at_metric (hs_attacks hs dir_out) else MetricNone),
          ht_direction = (if at_in (hs_attacks hs dir_in) then dir_name dir_in
            else if at_in (hs_attacks hs dir_out) then dir_name dir_out else DirUnset),
          ht_baseline = base dir_in, ht_out_baseline = base dir_out \<rparr>)"

definition engine_snapshot :: "config \<Rightarrow> nanos \<Rightarrow> engine \<Rightarrow> host_stat list" where
  "engine_snapshot cfg now e =
     concat (map (\<lambda>sh. map (host_snapshot cfg (eg_window e) (now div second)) (sh_hosts sh)) (eg_shards e))"

end
