(* ===== verification/AttackLog.thy ===== *)
theory AttackLog
  imports EngineTick
begin

text \<open>
  What the handlers of one subject (a host, a group) do to the log of lifecycle events: the contract
  \<open>attack_subject\<close>, its interpretations on the handlers of the engine, and the scan of the hosts.
\<close>

section \<open>The log\<close>

definition events_of :: "channels \<Rightarrow> event list" where
  "events_of c = map fst (ch_log c)"

definition sent :: "(event \<Rightarrow> bool) \<Rightarrow> channels \<Rightarrow> channels \<Rightarrow> bool" where
  "sent Q c c' \<longleftrightarrow> (\<exists>es. events_of c' = events_of c @ es \<and> (\<forall>e \<in> set es. Q e))"

lemma sent_refl [intro, simp]: "sent Q c c"
  by (simp add: sent_def)

lemma sent_trans: "sent Q c c' \<Longrightarrow> sent Q c' c'' \<Longrightarrow> sent Q c c''"
  unfolding sent_def by (metis Un_iff append_assoc set_append)

lemma sent_mono: "sent Q c c' \<Longrightarrow> (\<And>e. Q e \<Longrightarrow> R e) \<Longrightarrow> sent R c c'"
  unfolding sent_def by blast

lemma sent_filter: "sent Q c c' \<Longrightarrow> (\<And>e. Q e \<Longrightarrow> \<not> K e) \<Longrightarrow> filter K (events_of c') = filter K (events_of c)"
  unfolding sent_def by (auto simp: filter_empty_conv)

lemma events_emit [simp]: "events_of (emit ev c) = events_of c @ [ev]"
  by (simp add: events_of_def emit_log)

lemma events_ongoing [simp]: "events_of (emit_ongoing ev c) = events_of c"
  by (simp add: events_of_def)

lemma events_take_id [simp]: "take_id now c = (ident, c') \<Longrightarrow> events_of c' = events_of c"
  by (simp add: events_of_def)

lemma events_host_ongoing [simp]: "events_of (emit_host_ongoing a g d now c) = events_of c"
  by (simp add: emit_host_ongoing_def)

lemma events_carpet_ongoing [simp]: "events_of (emit_carpet_ongoing cfg cp p now c) = events_of c"
  by (simp add: emit_carpet_ongoing_def)

text \<open>Whose event it is.\<close>

definition host_key :: "addr \<Rightarrow> nat \<Rightarrow> event \<Rightarrow> bool" where
  "host_key a d e \<longleftrightarrow> ev_scope e = ScopeHost \<and> ev_target e = a \<and> ev_direction e = dir_name d"

definition group_key :: "string \<Rightarrow> nat \<Rightarrow> event \<Rightarrow> bool" where
  "group_key name d e \<longleftrightarrow> ev_scope e = ScopeGroup \<and> ev_group e = name \<and> ev_direction e = dir_name d"

definition prefix_key :: "prefix \<Rightarrow> event \<Rightarrow> bool" where
  "prefix_key p e \<longleftrightarrow> ev_scope e = ScopePrefix \<and> ev_target e = pfx_addr p \<and> ev_prefix e = pfx_string p"

abbreviation dirs :: "nat list" where "dirs \<equiv> [dir_in, dir_out]"

lemma dir_name_inj: "d \<in> set dirs \<Longrightarrow> d' \<in> set dirs \<Longrightarrow> dir_name d = dir_name d' \<Longrightarrow> d = d'"
  by (auto simp: dir_name_def dir_in_def dir_out_def split: if_splits)

section \<open>The contract of a subject\<close>

locale attack_subject =
  fixes chan :: "'x \<Rightarrow> channels"
    and attacks :: "'x \<Rightarrow> nat \<Rightarrow> attack_state"
    and key :: "nat \<Rightarrow> event \<Rightarrow> bool"
    and move :: "nat \<Rightarrow> 'x \<Rightarrow> 'x"
  assumes moves: "\<exists>es. events_of (chan (move d x)) = events_of (chan x) @ es \<and> (\<forall>e \<in> set es. key d e)
      \<and> attack_move (attacks x d) es (attacks (move d x) d)"
    and frame: "d' \<noteq> d \<Longrightarrow> attacks (move d x) d' = attacks x d'"
    and keys: "d \<in> set dirs \<Longrightarrow> d' \<in> set dirs \<Longrightarrow> key d e \<Longrightarrow> key d' e \<Longrightarrow> d = d'"
begin

definition tracked :: "'x \<Rightarrow> bool" where
  "tracked x \<longleftrightarrow> (\<forall>d \<in> set dirs. tracks (filter (key d) (events_of (chan x))) (attacks x d))"

lemma move_tracked: "tracked x \<Longrightarrow> d \<in> set dirs \<Longrightarrow> tracked (move d x)"
  unfolding tracked_def
proof
  fix d' assume t: "\<forall>d \<in> set dirs. tracks (filter (key d) (events_of (chan x))) (attacks x d)"
    and d: "d \<in> set dirs" "d' \<in> set dirs"
  obtain es where es: "events_of (chan (move d x)) = events_of (chan x) @ es" "\<forall>e \<in> set es. key d e"
    "attack_move (attacks x d) es (attacks (move d x) d)" using moves by blast
  show "tracks (filter (key d') (events_of (chan (move d x)))) (attacks (move d x) d')"
  proof (cases "d' = d")
    case True
    have "tracks (filter (key d) (events_of (chan x))) (attacks x d)" using t d(1) by blast
    then have "tracks (filter (key d) (events_of (chan x)) @ es) (attacks (move d x) d)" by (rule tracks_move [OF _ es(3)])
    moreover have "filter (key d) es = es" using es(2) by (simp add: filter_id_conv)
    ultimately show ?thesis using True es(1) by simp
  next
    case False
    have "\<not> key d' e" if "e \<in> set es" for e
    proof
      assume "key d' e"
      then have "d' = d" using keys [OF d(2) d(1)] es(2) that by blast
      then show False using False by simp
    qed
    then have "filter (key d') es = []" by (simp add: filter_empty_conv)
    moreover have "tracks (filter (key d') (events_of (chan x))) (attacks x d')" using t d(2) by blast
    ultimately show ?thesis using es(1) frame [OF False] by simp
  qed
qed

lemma fold_tracked: "tracked x \<Longrightarrow> set ds \<subseteq> set dirs \<Longrightarrow> tracked (fold move ds x)"
proof (induction ds arbitrary: x)
  case (Cons d ds)
  have "tracked (move d x)" using move_tracked Cons.prems by simp
  then show ?case using Cons by simp
qed simp

lemma fold_sent: "set ds \<subseteq> set dirs \<Longrightarrow> sent (\<lambda>e. \<exists>d \<in> set dirs. key d e) (chan x) (chan (fold move ds x))"
proof (induction ds arbitrary: x)
  case (Cons d ds)
  have "sent (\<lambda>e. \<exists>d \<in> set dirs. key d e) (chan x) (chan (move d x))"
    using moves [of d x] Cons.prems by (fastforce simp: sent_def)
  then show ?case using Cons by (auto intro: sent_trans)
qed simp

end

section \<open>Hosts\<close>

lemma end_attack_moves:
  "\<exists>es. events_of (snd (end_attack a g d r now s)) = events_of (snd s) @ es \<and> (\<forall>e \<in> set es. host_key a d e)
     \<and> (at_in (hs_attacks (fst s) d) \<longrightarrow> attack_move (hs_attacks (fst s) d) es (hs_attacks (fst (end_attack a g d r now s)) d))"
  by (cases s) (auto simp: end_attack_def Let_def host_key_def host_event_def ended_event_def event_zero_def
      attack_move_def close_attack_def)

lemma end_attack_frame: "d' \<noteq> d \<Longrightarrow> hs_attacks (fst (end_attack a g d r now s)) d' = hs_attacks (fst s) d'"
  by (cases s) (simp add: end_attack_def Let_def)

definition end_one :: "addr \<Rightarrow> group \<Rightarrow> (nat \<Rightarrow> rates) \<Rightarrow> nanos \<Rightarrow> nat \<Rightarrow> host_state \<times> channels \<Rightarrow> host_state \<times> channels" where
  "end_one a g r now d s = (if at_in (hs_attacks (fst s) d) then end_attack a g d (r d) now s else s)"

lemma same_attack_refl [simp]: "same_attack st st"
  by (simp add: same_attack_def)

lemma attack_move_stay: "same_attack st st' \<Longrightarrow> attack_move st [] st'"
  by (simp add: attack_move_def)

lemma same_attack_upd [simp]:
  "same_attack st (hold_attack r st)" "same_attack st (fall_below now st)"
  by (simp_all add: same_attack_def hold_attack_def fall_below_def)

interpretation ending: attack_subject snd "\<lambda>s. hs_attacks (fst s)" "host_key a" "end_one a g r now" for a g r now
proof
  fix d :: nat and s :: "host_state \<times> channels"
  show "\<exists>es. events_of (snd (end_one a g r now d s)) = events_of (snd s) @ es \<and> (\<forall>e \<in> set es. host_key a d e)
      \<and> attack_move (hs_attacks (fst s) d) es (hs_attacks (fst (end_one a g r now d s)) d)"
    using end_attack_moves [of a g d "r d" now s]
    by (cases "at_in (hs_attacks (fst s) d)") (auto simp: end_one_def intro: exI [of _ "[]"] attack_move_stay)
  show "d' \<noteq> d \<Longrightarrow> hs_attacks (fst (end_one a g r now d s)) d' = hs_attacks (fst s) d'" for d'
    by (simp add: end_one_def end_attack_frame)
next
  show "d \<in> set dirs \<Longrightarrow> d' \<in> set dirs \<Longrightarrow> host_key a d e \<Longrightarrow> host_key a d' e \<Longrightarrow> d = d'" for d d' e
    using dir_name_inj [of d d'] by (simp add: host_key_def)
qed

lemma end_both_fold: "end_both a g r now s = fold (end_one a g r now) dirs s"
  by (simp add: end_both_def end_one_def)

lemma begin_attack_simps [simp]:
  "at_in (begin_attack m l eff now i r st)" "at_id (begin_attack m l eff now i r st) = i"
  "at_metric (begin_attack m l eff now i r st) = m" "at_threshold (begin_attack m l eff now i r st) = l"
  "at_started (begin_attack m l eff now i r st) = now" "at_eff (begin_attack m l eff now i r st) = eff"
  by (simp_all add: begin_attack_def)

lemma host_starts_moves:
  assumes "\<not> at_in (hs_attacks hs d)"
  shows "\<exists>e. events_of (snd (host_starts t sr a g d r th eff hit (hs, c))) = events_of c @ [e] \<and> host_key a d e
    \<and> attack_move (hs_attacks hs d) [e] (hs_attacks (fst (host_starts t sr a g d r th eff hit (hs, c))) d)"
  using assms by (cases hit) (auto simp: host_starts_def Let_def host_key_def host_event_def started_event_def event_zero_def
      attack_move_def split: prod.splits)

lemma host_starts_frame: "d' \<noteq> d \<Longrightarrow> hs_attacks (fst (host_starts t sr a g d r th eff hit (hs, c))) d' = hs_attacks hs d'"
  by (cases hit) (auto simp: host_starts_def Let_def split: prod.splits)

lemma host_learns_frame [simp]: "hs_attacks (host_learns t g r d hs) = hs_attacks hs"
  "hs_ring (host_learns t g r d hs) = hs_ring hs" "hs_seen (host_learns t g r d hs) = hs_seen hs"
  by (simp_all add: host_learns_def)

text \<open>One rule per branch of the judgement.\<close>

lemma host_judged_cases:
  obtains (starts) hit where "\<not> at_in (hs_attacks hs d)"
      "evaluate r (effective_thresholds th (hs_base hs d) (g_baseline g) (tk_sec t)) = Some hit"
      "host_judged t sr a g r d th (hs, c) =
        (host_starts t sr a g d r th (effective_thresholds th (hs_base hs d) (g_baseline g) (tk_sec t)) hit (hs, c), 1)"
  | (held) hit where "at_in (hs_attacks hs d)" "evaluate r (at_eff (hs_attacks hs d)) = Some hit"
      "host_judged t sr a g r d th (hs, c) = ((hs \<lparr> hs_attacks := (hs_attacks hs)(d := hold_attack r (hs_attacks hs d)) \<rparr>,
          emit_host_ongoing a g d (tk_now t) c), 1)"
  | (over) "at_in (hs_attacks hs d)" "evaluate r (at_eff (hs_attacks hs d)) = None"
      "tail_over (tk_hysteresis t) (tk_now t) (fall_below (tk_now t) (hs_attacks hs d))"
      "host_judged t sr a g r d th (hs, c) = (end_attack a g d r (tk_now t)
          (hs \<lparr> hs_attacks := (hs_attacks hs)(d := fall_below (tk_now t) (hs_attacks hs d)) \<rparr>, c), 0)"
  | (below) "at_in (hs_attacks hs d)" "evaluate r (at_eff (hs_attacks hs d)) = None"
      "\<not> tail_over (tk_hysteresis t) (tk_now t) (fall_below (tk_now t) (hs_attacks hs d))"
      "host_judged t sr a g r d th (hs, c) = ((hs \<lparr> hs_attacks := (hs_attacks hs)(d := fall_below (tk_now t) (hs_attacks hs d)) \<rparr>,
          emit_host_ongoing a g d (tk_now t) c), 1)"
  | (quiet) "\<not> at_in (hs_attacks hs d)"
      "evaluate r (effective_thresholds th (hs_base hs d) (g_baseline g) (tk_sec t)) = None"
      "host_judged t sr a g r d th (hs, c) = ((hs, c), 0)"
proof (cases "at_in (hs_attacks hs d)")
  case True
  then show ?thesis using held over below
    by (cases "evaluate r (at_eff (hs_attacks hs d))") (auto simp: host_judged_def Let_def effective_of_def split: if_splits)
next
  case False
  then show ?thesis using starts quiet
    by (cases "evaluate r (effective_thresholds th (hs_base hs d) (g_baseline g) (tk_sec t))")
      (auto simp: host_judged_def Let_def effective_of_def)
qed

lemma host_judged_moves:
  "\<exists>es. events_of (snd (fst (host_judged t sr a g r d th (hs, c)))) = events_of c @ es \<and> (\<forall>e \<in> set es. host_key a d e)
     \<and> attack_move (hs_attacks hs d) es (hs_attacks (fst (fst (host_judged t sr a g r d th (hs, c)))) d)"
proof (cases rule: host_judged_cases [of hs d r th g t sr a c])
  case (starts hit)
  then show ?thesis
    using host_starts_moves [of hs d t sr a g r th "effective_thresholds th (hs_base hs d) (g_baseline g) (tk_sec t)" hit c]
    by force
next
  case over
  let ?hs = "hs \<lparr> hs_attacks := (hs_attacks hs)(d := fall_below (tk_now t) (hs_attacks hs d)) \<rparr>"
  have "same_attack (hs_attacks hs d) (fall_below (tk_now t) (hs_attacks hs d))" by simp
  then show ?thesis using over end_attack_moves [of a g d r "tk_now t" "(?hs, c)"]
    by (auto simp: attack_move_def same_attack_def)
qed (auto intro!: attack_move_stay)

lemma host_judged_frame:
  "d' \<noteq> d \<Longrightarrow> hs_attacks (fst (fst (host_judged t sr a g r d th s))) d' = hs_attacks (fst s) d'"
proof -
  assume d: "d' \<noteq> d"
  obtain hs c where s: "s = (hs, c)" by (cases s)
  show ?thesis unfolding s
    by (cases rule: host_judged_cases [of hs d r th g t sr a c])
      (use d in \<open>simp_all add: host_starts_frame end_attack_frame\<close>)
qed

lemma host_direction_judged:
  "host_direction t sr a g r d x = (case thresholds_for g d of
     None \<Rightarrow> (end_one a g r (tk_now t) d (fst x), snd x)
   | Some th \<Rightarrow> ((host_learns t g (r d) d (fst (fst (host_judged t sr a g (r d) d th (fst x)))),
        snd (fst (host_judged t sr a g (r d) d th (fst x)))), snd x + snd (host_judged t sr a g (r d) d th (fst x))))"
  by (cases x) (auto simp: host_direction_def end_one_def split: option.split prod.split)

interpretation judged: attack_subject "\<lambda>x. snd (fst x)" "\<lambda>x. hs_attacks (fst (fst x))" "host_key a" "host_direction t sr a g r"
  for t sr a g r
proof
  fix d :: nat and x :: "(host_state \<times> channels) \<times> int"
  show "\<exists>es. events_of (snd (fst (host_direction t sr a g r d x))) = events_of (snd (fst x)) @ es \<and> (\<forall>e \<in> set es. host_key a d e)
      \<and> attack_move (hs_attacks (fst (fst x)) d) es (hs_attacks (fst (fst (host_direction t sr a g r d x))) d)"
    using ending.moves [where a = a and g = g and r = r and now = "tk_now t" and d = d and x = "fst x"]
      host_judged_moves [of t sr a g "r d" d _ "fst (fst x)" "snd (fst x)"]
    by (cases "thresholds_for g d") (simp_all add: host_direction_judged)
  show "d' \<noteq> d \<Longrightarrow> hs_attacks (fst (fst (host_direction t sr a g r d x))) d' = hs_attacks (fst (fst x)) d'" for d'
    by (cases "thresholds_for g d") (simp_all add: host_direction_judged host_judged_frame ending.frame)
next
  show "d \<in> set dirs \<Longrightarrow> d' \<in> set dirs \<Longrightarrow> host_key a d e \<Longrightarrow> host_key a d' e \<Longrightarrow> d = d'" for d d' e
    by (rule ending.keys)
qed

section \<open>One host of the scan\<close>

definition host_rates :: "tick \<Rightarrow> host_state \<Rightarrow> nat \<Rightarrow> rates" where
  "host_rates t hs = (case windowed_rates (hs_ring hs) (tk_window t) (tk_sec t) of (rin, rout, ok) \<Rightarrow>
     (\<lambda>d. if d = dir_out then rout else rin))"

definition host_data :: "tick \<Rightarrow> host_state \<Rightarrow> bool" where
  "host_data t hs = snd (snd (windowed_rates (hs_ring hs) (tk_window t) (tk_sec t)))"

text \<open>The hosts whose rates are judged one by one.\<close>

definition judged_host :: "config \<Rightarrow> addr \<Rightarrow> bool" where
  "judged_host cfg a \<longleftrightarrow> in_networks cfg a \<and> g_calc (group_for cfg a) \<noteq> CalcTotal \<and> \<not> is_whitelisted cfg a"

lemma scan_host_cases:
  obtains (policy) y1 where "\<not> judged_host (tk_cfg t) a"
      "ty_channels y1 = snd (end_both a (group_for (tk_cfg t) a) (host_rates t hs) (tk_now t) (hs, ty_channels y))"
      "scan_host t sr a hs y = evict_or_track t (host_data t hs)
         (fst (end_both a (group_for (tk_cfg t) a) (host_rates t hs) (tk_now t) (hs, ty_channels y))) y1"
  | (judged) y1 n where "judged_host (tk_cfg t) a"
      "ty_channels y1 = snd (fst (fold (host_direction t sr a (group_for (tk_cfg t) a) (host_rates t hs)) dirs ((hs, ty_channels y), n)))"
      "scan_host t sr a hs y = evict_or_track t (host_data t hs)
         (fst (fst (fold (host_direction t sr a (group_for (tk_cfg t) a) (host_rates t hs)) dirs ((hs, ty_channels y), n)))) y1"
proof -
  let ?g = "group_for (tk_cfg t) a" and ?r = "host_rates t hs"
  obtain rin rout ok where w: "windowed_rates (hs_ring hs) (tk_window t) (tk_sec t) = (rin, rout, ok)" by (metis prod_cases3)
  have r: "?r = (\<lambda>d. if d = dir_out then rout else rin)" and ok: "host_data t hs = ok"
    using w by (simp_all add: host_rates_def host_data_def)
  obtain hs1 c1 where e: "end_both a ?g ?r (tk_now t) (hs, ty_channels y) = (hs1, c1)" by fastforce
  have end_tally: "end_both_tally t a ?g (\<lambda>d. if d = dir_out then rout else rin) hs z = (hs1, z \<lparr> ty_channels := c1 \<rparr>)"
    if "ty_channels z = ty_channels y" for z
    using e that by (simp add: end_both_tally_def r)
  have g: "c_groups (tk_cfg t) ! group_index_for (tk_cfg t) a = ?g" by (simp add: group_for_def)
  show ?thesis
  proof (cases "judged_host (tk_cfg t) a")
    case True
    let ?y = "case c_carpet (tk_cfg t) of
       Some cp \<Rightarrow> if ok \<and> flt (Fin 0) (rt_pps rin) then y \<lparr> ty_carpet := fold_carpet cp a rin (ty_carpet y) \<rparr> else y
     | None \<Rightarrow> y"
    have yc: "ty_channels ?y = ty_channels y" by (simp split: option.split)
    let ?x = "fold (host_direction t sr a ?g ?r) dirs ((hs, ty_channels y), ty_active ?y)"
    obtain hs2 c2 n2 where x: "?x = ((hs2, c2), n2)" by (metis prod.exhaust)
    have "scan_host t sr a hs y = evict_or_track t ok hs2 (?y \<lparr> ty_channels := c2, ty_active := n2 \<rparr>)"
      using True x yc by (simp add: scan_host_def w Let_def g judged_host_def r)
    then show ?thesis
      using judged [of "?y \<lparr> ty_channels := c2, ty_active := n2 \<rparr>" "ty_active ?y"] True x ok by simp
  next
    case False
    let ?y = "if in_networks (tk_cfg t) a \<and> g_calc ?g = CalcTotal
      then y \<lparr> ty_totals := (ty_totals y)[group_index_for (tk_cfg t) a :=
             (\<lambda>d. add_rates ((ty_totals y ! group_index_for (tk_cfg t) a) d) (if d = dir_out then rout else rin))] \<rparr>
      else y"
    have "scan_host t sr a hs y = evict_or_track t ok hs1 (?y \<lparr> ty_channels := c1 \<rparr>)"
      using False by (auto simp: scan_host_def w Let_def g judged_host_def end_tally)
    then show ?thesis using policy [of "?y \<lparr> ty_channels := c1 \<rparr>"] False e ok by simp
  qed
qed

definition att_of :: "host_state option \<Rightarrow> nat \<Rightarrow> attack_state" where
  "att_of kept d = (case kept of None \<Rightarrow> attack_idle | Some hs \<Rightarrow> hs_attacks hs d)"

lemma tracks_not_in: "tracks es st \<Longrightarrow> \<not> at_in st \<Longrightarrow> \<not> at_in st' \<Longrightarrow> tracks es st'"
  by (auto simp: tracks_def agrees_def split: option.splits)

lemma evict_or_track_channels [simp]: "ty_channels (snd (evict_or_track t ok hs y)) = ty_channels y"
  by (simp add: evict_or_track_def)

lemma evict_tracks:
  assumes "tracks es (hs_attacks hs d)" "d \<in> set dirs"
  shows "tracks es (att_of (fst (evict_or_track t ok hs y)) d)"
  using assms tracks_not_in [OF assms(1), of attack_idle] by (auto simp: evict_or_track_def att_of_def in_any_attack_def)

definition host_tracked :: "channels \<Rightarrow> addr \<Rightarrow> host_state option \<Rightarrow> bool" where
  "host_tracked c a h \<longleftrightarrow> (\<forall>d \<in> set dirs. tracks (filter (host_key a d) (events_of c)) (att_of h d))"

definition of_host :: "addr \<Rightarrow> event \<Rightarrow> bool" where
  "of_host a e \<longleftrightarrow> (\<exists>d \<in> set dirs. host_key a d e)"

lemma scan_host_log:
  "sent (of_host a) (ty_channels y) (ty_channels (snd (scan_host t sr a hs y)))
   \<and> (host_tracked (ty_channels y) a (Some hs) \<longrightarrow>
      host_tracked (ty_channels (snd (scan_host t sr a hs y))) a (fst (scan_host t sr a hs y)))"
proof (cases rule: scan_host_cases [of t a hs y sr])
  case (policy y1)
  let ?s = "end_both a (group_for (tk_cfg t) a) (host_rates t hs) (tk_now t) (hs, ty_channels y)"
  have "sent (of_host a) (ty_channels y) (snd ?s)"
    using ending.fold_sent [of dirs a "(hs, ty_channels y)"] by (simp add: end_both_fold of_host_def [abs_def])
  moreover have "host_tracked (snd ?s) a (fst (evict_or_track t (host_data t hs) (fst ?s) y1))"
    if "host_tracked (ty_channels y) a (Some hs)"
    using ending.fold_tracked [of a "(hs, ty_channels y)" dirs "group_for (tk_cfg t) a" "host_rates t hs" "tk_now t"] that
      evict_tracks [where hs = "fst ?s"]
    by (simp add: end_both_fold host_tracked_def ending.tracked_def att_of_def)
  ultimately show ?thesis using policy(2,3) by simp
next
  case (judged y1 n)
  let ?s = "fold (host_direction t sr a (group_for (tk_cfg t) a) (host_rates t hs)) dirs ((hs, ty_channels y), n)"
  have "sent (of_host a) (ty_channels y) (snd (fst ?s))"
    using judged.fold_sent [of dirs a "((hs, ty_channels y), n)"] by (simp add: of_host_def [abs_def])
  moreover have "host_tracked (snd (fst ?s)) a (fst (evict_or_track t (host_data t hs) (fst (fst ?s)) y1))"
    if "host_tracked (ty_channels y) a (Some hs)"
    using judged.fold_tracked [of a "((hs, ty_channels y), n)" dirs t sr "group_for (tk_cfg t) a" "host_rates t hs"] that
      evict_tracks [where hs = "fst (fst ?s)"]
    by (simp add: host_tracked_def judged.tracked_def att_of_def)
  ultimately show ?thesis using judged(2,3) by simp
qed

end
