(* ===== verification/GroupLog.thy ===== *)
theory GroupLog
  imports AttackLog
begin

text \<open>
  The lifecycle events of total groups: both ways an attack of a group ends or starts meet the contract
  \<open>attack_subject\<close>, and \<open>eval_groups\<close> keeps the log of every group in step with its table.
\<close>

section \<open>One group\<close>

lemma end_group_attack_moves:
  "\<exists>es. events_of (snd (end_group_attack n d r now s)) = events_of (snd s) @ es \<and> (\<forall>e \<in> set es. group_key n d e)
     \<and> (at_in (gs_attacks (fst s) d) \<longrightarrow> attack_move (gs_attacks (fst s) d) es (gs_attacks (fst (end_group_attack n d r now s)) d))"
  by (cases s) (auto simp: end_group_attack_def Let_def group_key_def group_event_def ended_event_def event_zero_def
      attack_move_def close_attack_def)

lemma end_group_attack_frame:
  "d' \<noteq> d \<Longrightarrow> gs_attacks (fst (end_group_attack n d r now s)) d' = gs_attacks (fst s) d'"
  "gs_last (fst (end_group_attack n d r now s)) = gs_last (fst s)"
  by (cases s, simp add: end_group_attack_def Let_def)+

definition end_group :: "string \<Rightarrow> (group_state \<Rightarrow> nat \<Rightarrow> rates) \<Rightarrow> nanos \<Rightarrow> nat \<Rightarrow> group_state \<times> channels \<Rightarrow> group_state \<times> channels" where
  "end_group n r now d s = (if at_in (gs_attacks (fst s) d) then end_group_attack n d (r (fst s) d) now s else s)"

interpretation group_ending: attack_subject snd "\<lambda>s. gs_attacks (fst s)" "group_key n" "end_group n r now" for n r now
proof
  fix d :: nat and s :: "group_state \<times> channels"
  show "\<exists>es. events_of (snd (end_group n r now d s)) = events_of (snd s) @ es \<and> (\<forall>e \<in> set es. group_key n d e)
      \<and> attack_move (gs_attacks (fst s) d) es (gs_attacks (fst (end_group n r now d s)) d)"
    using end_group_attack_moves [of n d "r (fst s) d" now s]
    by (cases "at_in (gs_attacks (fst s) d)") (auto simp: end_group_def intro: exI [of _ "[]"] attack_move_stay)
  show "d' \<noteq> d \<Longrightarrow> gs_attacks (fst (end_group n r now d s)) d' = gs_attacks (fst s) d'" for d'
    by (simp add: end_group_def end_group_attack_frame)
next
  show "d \<in> set dirs \<Longrightarrow> d' \<in> set dirs \<Longrightarrow> group_key n d e \<Longrightarrow> group_key n d' e \<Longrightarrow> d = d'" for d d' e
    using dir_name_inj [of d d'] by (simp add: group_key_def)
qed

lemma end_group_ends: "\<not> at_in (gs_attacks (fst (end_group n r now d s)) d)"
  by (cases s) (auto simp: end_group_def end_group_attack_def Let_def close_attack_def)

lemma close_group_fold: "close_group now (n, gs) c = snd (fold (end_group n gs_last now) dirs (gs, c))"
  by (simp add: close_group_def end_group_def [abs_def])

lemma group_starts_moves:
  assumes "\<not> at_in (gs_attacks gs d)"
  shows "\<exists>e. events_of (snd (group_starts t rings gi g d r th eff hit (gs, c))) = events_of c @ [e] \<and> group_key (g_name g) d e
    \<and> attack_move (gs_attacks gs d) [e] (gs_attacks (fst (group_starts t rings gi g d r th eff hit (gs, c))) d)"
  using assms by (cases hit) (auto simp: group_starts_def Let_def group_key_def group_event_def started_event_def event_zero_def
      attack_move_def split: prod.splits)

lemma group_starts_frame: "d' \<noteq> d \<Longrightarrow> gs_attacks (fst (group_starts t rings gi g d r th eff hit (gs, c))) d' = gs_attacks gs d'"
  by (cases hit) (auto simp: group_starts_def Let_def split: prod.splits)

lemma group_judged_moves:
  "\<exists>es. events_of (snd (fst (group_judged t rings gi g r d th (gs, c)))) = events_of c @ es \<and> (\<forall>e \<in> set es. group_key (g_name g) d e)
     \<and> attack_move (gs_attacks gs d) es (gs_attacks (fst (fst (group_judged t rings gi g r d th (gs, c)))) d)"
proof (cases "evaluate r (effective_of t g th (gs_attacks gs d) (gs_base gs d))")
  case None
  let ?gs = "gs \<lparr> gs_attacks := (gs_attacks gs)(d := fall_below (tk_now t) (gs_attacks gs d)) \<rparr>"
  have "same_attack (gs_attacks gs d) (fall_below (tk_now t) (gs_attacks gs d))" by simp
  then show ?thesis using None end_group_attack_moves [of "g_name g" d r "tk_now t" "(?gs, c)"]
    by (auto simp: group_judged_def Let_def attack_move_def same_attack_def)
next
  case (Some hit)
  show ?thesis
  proof (cases "at_in (gs_attacks gs d)")
    case True
    then show ?thesis using Some by (auto simp: group_judged_def Let_def intro!: attack_move_stay)
  next
    case False
    show ?thesis
      using group_starts_moves [OF False, of t rings gi g r th "effective_of t g th (gs_attacks gs d) (gs_base gs d)" hit c]
        Some False by (force simp: group_judged_def Let_def)
  qed
qed

lemma group_judged_frame:
  "d' \<noteq> d \<Longrightarrow> gs_attacks (fst (fst (group_judged t rings gi g r d th s))) d' = gs_attacks (fst s) d'"
  by (cases s) (auto simp: group_judged_def Let_def group_starts_frame end_group_attack_frame split: option.split)

lemma group_direction_judged:
  "group_direction t rings gi g r d x = (case thresholds_for g d of
     None \<Rightarrow> (end_group (g_name g) (\<lambda>_. r) (tk_now t) d (fst x), snd x)
   | Some th \<Rightarrow> let gs = fst (fst (group_judged t rings gi g (r d) d th (fst x))) in
        ((gs \<lparr> gs_base := (gs_base gs)(d := relearn t g (r d) (gs_attacks gs d) (gs_base gs d)) \<rparr>,
          snd (fst (group_judged t rings gi g (r d) d th (fst x)))), snd x + snd (group_judged t rings gi g (r d) d th (fst x))))"
  by (cases x) (auto simp: group_direction_def end_group_def Let_def split: option.split prod.split)

interpretation group_judging: attack_subject "\<lambda>x. snd (fst x)" "\<lambda>x. gs_attacks (fst (fst x))" "group_key (g_name g)"
  "group_direction t rings gi g r" for t rings gi g r
proof
  fix d :: nat and x :: "(group_state \<times> channels) \<times> int"
  show "\<exists>es. events_of (snd (fst (group_direction t rings gi g r d x))) = events_of (snd (fst x)) @ es
      \<and> (\<forall>e \<in> set es. group_key (g_name g) d e)
      \<and> attack_move (gs_attacks (fst (fst x)) d) es (gs_attacks (fst (fst (group_direction t rings gi g r d x))) d)"
    using group_ending.moves [where n = "g_name g" and r = "\<lambda>_. r" and now = "tk_now t" and d = d and x = "fst x"]
      group_judged_moves [of t rings gi g "r d" d _ "fst (fst x)" "snd (fst x)"]
    by (cases "thresholds_for g d") (simp_all add: group_direction_judged Let_def)
  show "d' \<noteq> d \<Longrightarrow> gs_attacks (fst (fst (group_direction t rings gi g r d x))) d' = gs_attacks (fst (fst x)) d'" for d'
    using group_judged_frame [of d' d t rings gi g "r d" _ "fst x"]
    by (cases "thresholds_for g d") (simp_all add: group_direction_judged Let_def group_ending.frame)
next
  show "d \<in> set dirs \<Longrightarrow> d' \<in> set dirs \<Longrightarrow> group_key (g_name g) d e \<Longrightarrow> group_key (g_name g) d' e \<Longrightarrow> d = d'" for d d' e
    by (rule group_ending.keys)
qed

section \<open>The table of groups\<close>

definition group_att :: "group_state option \<Rightarrow> nat \<Rightarrow> attack_state" where
  "group_att h d = (case h of None \<Rightarrow> attack_idle | Some gs \<Rightarrow> gs_attacks gs d)"

definition group_tracked :: "channels \<Rightarrow> string \<Rightarrow> group_state option \<Rightarrow> bool" where
  "group_tracked c n h \<longleftrightarrow> (\<forall>d \<in> set dirs. tracks (filter (group_key n d) (events_of c)) (group_att h d))"

definition of_group :: "string \<Rightarrow> event \<Rightarrow> bool" where
  "of_group n e \<longleftrightarrow> (\<exists>d \<in> set dirs. group_key n d e)"

lemma of_group_scope: "of_group n e \<Longrightarrow> ev_scope e = ScopeGroup \<and> ev_group e = n"
  by (auto simp: of_group_def group_key_def)

lemma group_tracked_sent:
  "group_tracked c n h \<Longrightarrow> sent (of_group m) c c' \<Longrightarrow> n \<noteq> m \<Longrightarrow> group_tracked c' n h"
  unfolding group_tracked_def
proof
  fix d assume t: "\<forall>d \<in> set dirs. tracks (filter (group_key n d) (events_of c)) (group_att h d)"
    and s: "sent (of_group m) c c'" "n \<noteq> m" and d: "d \<in> set dirs"
  have "filter (group_key n d) (events_of c') = filter (group_key n d) (events_of c)"
    by (rule sent_filter [OF s(1)]) (use s(2) in \<open>auto simp: of_group_def group_key_def\<close>)
  then show "tracks (filter (group_key n d) (events_of c')) (group_att h d)" using t d by metis
qed

definition groups_tracked :: "channels \<Rightarrow> (string, group_state) table \<Rightarrow> bool" where
  "groups_tracked c groups \<longleftrightarrow> (\<forall>n. group_tracked c n (tget groups n))"

lemma new_group_tracked: "group_tracked c n None \<Longrightarrow> group_tracked c n (Some (new_group_state \<lparr> gs_last := r \<rparr>))"
  by (simp add: group_tracked_def group_att_def new_group_state_def)

lemma eval_group_tracked:
  assumes t: "groups_tracked (fst (snd s)) (fst s)"
  shows "groups_tracked (fst (snd (eval_group t rings totals gi s))) (fst (eval_group t rings totals gi s))"
proof -
  obtain groups c active where s: "s = (groups, c, active)" by (cases s)
  let ?g = "c_groups (tk_cfg t) ! gi"
  let ?gs = "(case tget groups (g_name ?g) of None \<Rightarrow> new_group_state | Some x \<Rightarrow> x) \<lparr> gs_last := totals ! gi \<rparr>"
  let ?f = "fold (group_direction t rings gi ?g (totals ! gi)) dirs ((?gs, c), active)"
  obtain gs1 c1 active1 where f: "?f = ((gs1, c1), active1)" by (metis prod.exhaust)
  have "group_tracked c (g_name ?g) (Some ?gs)"
    using t s by (cases "tget groups (g_name ?g)")
      (auto simp: groups_tracked_def group_tracked_def group_att_def new_group_state_def split: option.splits elim!: allE [of _ "g_name ?g"])
  then have "group_judging.tracked ?g ((?gs, c), active)"
    by (simp add: group_judging.tracked_def group_tracked_def group_att_def)
  then have "group_judging.tracked ?g ?f" by (rule group_judging.fold_tracked) simp
  then have one: "group_tracked c1 (g_name ?g) (Some gs1)"
    using f by (simp add: group_judging.tracked_def group_tracked_def group_att_def)
  have log: "sent (of_group (g_name ?g)) c c1"
    using group_judging.fold_sent [of dirs ?g "((?gs, c), active)" t rings gi "totals ! gi"] f by (simp add: of_group_def [abs_def])
  have "groups_tracked c1 (tput (g_name ?g) gs1 groups)"
    using t s one log by (auto simp: groups_tracked_def table_laws intro: group_tracked_sent)
  then show ?thesis using t s f by (simp add: eval_group_def Let_def)
qed

lemma close_group_tracked:
  "(\<forall>d \<in> set dirs. tracks (filter (group_key n d) (events_of c)) (gs_attacks gs d)) \<Longrightarrow>
   sent (of_group n) c (close_group now (n, gs) c) \<and> group_tracked (close_group now (n, gs) c) n None"
proof -
  assume "\<forall>d \<in> set dirs. tracks (filter (group_key n d) (events_of c)) (gs_attacks gs d)"
  then have "group_ending.tracked n (gs, c)" by (simp add: group_ending.tracked_def)
  then have t: "group_ending.tracked n (fold (end_group n gs_last now) dirs (gs, c))" by (rule group_ending.fold_tracked) simp
  have "\<not> at_in (gs_attacks (fst (fold (end_group n gs_last now) dirs (gs, c))) d)" if "d \<in> set dirs" for d
  proof -
    let ?s = "end_group n gs_last now dir_in (gs, c)"
    have "gs_attacks (fst (end_group n gs_last now dir_out ?s)) dir_in = gs_attacks (fst ?s) dir_in"
      by (rule group_ending.frame) (simp add: dir_in_def dir_out_def)
    then have "\<not> at_in (gs_attacks (fst (end_group n gs_last now dir_out ?s)) dir_in)"
      "\<not> at_in (gs_attacks (fst (end_group n gs_last now dir_out ?s)) dir_out)" by (simp_all add: end_group_ends del: split_paired_All)
    then show ?thesis using that by auto
  qed
  then have "group_tracked (close_group now (n, gs) c) n None"
    using t tracks_not_in [where st' = attack_idle]
    unfolding close_group_fold group_ending.tracked_def group_tracked_def group_att_def option.case by (metis attack_idle_simps(1))
  moreover have "sent (of_group n) c (close_group now (n, gs) c)"
    using group_ending.fold_sent [of dirs n "(gs, c)" gs_last now] by (simp add: close_group_fold of_group_def [abs_def])
  ultimately show ?thesis by blast
qed

lemma close_groups_tracked:
  assumes "table_ok gone" "\<And>n. group_tracked c n (tget (gone @ left) n)" "table_ok (gone @ left)"
  shows "groups_tracked (fold (close_group now) gone c) left
    \<and> sent (\<lambda>e. ev_scope e = ScopeGroup) c (fold (close_group now) gone c)"
  using assms
proof (induction gone arbitrary: c)
  case Nil
  then show ?case by (simp add: groups_tracked_def)
next
  case (Cons e gone)
  obtain n gs where e: "e = (n, gs)" by fastforce
  have "group_tracked c n (Some gs)" using Cons.prems(2) [of n] e by (simp add: tget_def)
  then have one: "sent (of_group n) c (close_group now (n, gs) c)" "group_tracked (close_group now (n, gs) c) n None"
    using close_group_tracked [of n c gs now] by (auto simp: group_tracked_def group_att_def)
  have fresh: "tget (gone @ left) n = None" using Cons.prems(3) e by (auto simp: table_ok_def tget_def map_of_eq_None_iff)
  have "group_tracked (close_group now (n, gs) c) m (tget (gone @ left) m)" for m
  proof (cases "m = n")
    case False
    then show ?thesis using group_tracked_sent [OF _ one(1) False, of "tget (gone @ left) m"] Cons.prems(2) [of m] e
      by (simp add: tget_def)
  qed (use one fresh in simp)
  then have "groups_tracked (fold (close_group now) gone (close_group now (n, gs) c)) left
      \<and> sent (\<lambda>e. ev_scope e = ScopeGroup) (close_group now (n, gs) c) (fold (close_group now) gone (close_group now (n, gs) c))"
    using Cons.IH [of "close_group now (n, gs) c"] Cons.prems(1,3) e by (simp add: table_ok_def)
  moreover have "sent (\<lambda>e. ev_scope e = ScopeGroup) c (close_group now (n, gs) c)"
    using one(1) of_group_scope by (blast intro: sent_mono)
  ultimately show ?case using sent_trans e by auto
qed

lemma eval_group_frame:
  "table_ok (fst s) \<Longrightarrow> table_ok (fst (eval_group t rings totals gi s))"
  "sent (\<lambda>e. ev_scope e = ScopeGroup) (fst (snd s)) (fst (snd (eval_group t rings totals gi s)))"
proof -
  obtain groups c active where s: "s = (groups, c, active)" by (cases s)
  let ?g = "c_groups (tk_cfg t) ! gi"
  let ?gs = "(case tget groups (g_name ?g) of None \<Rightarrow> new_group_state | Some x \<Rightarrow> x) \<lparr> gs_last := totals ! gi \<rparr>"
  obtain gs1 c1 active1 where f: "fold (group_direction t rings gi ?g (totals ! gi)) dirs ((?gs, c), active) = ((gs1, c1), active1)"
    by (metis prod.exhaust)
  have "sent (of_group (g_name ?g)) c c1"
    using group_judging.fold_sent [of dirs ?g "((?gs, c), active)" t rings gi "totals ! gi"] f by (simp add: of_group_def [abs_def])
  then have log: "sent (\<lambda>e. ev_scope e = ScopeGroup) c c1" using of_group_scope by (blast intro: sent_mono)
  show "table_ok (fst s) \<Longrightarrow> table_ok (fst (eval_group t rings totals gi s))"
    using s f by (simp add: eval_group_def Let_def tbl.inv_put)
  show "sent (\<lambda>e. ev_scope e = ScopeGroup) (fst (snd s)) (fst (snd (eval_group t rings totals gi s)))"
    using s f log by (simp add: eval_group_def Let_def)
qed

lemma fold_groups_tracked:
  "groups_tracked (fst (snd s)) (fst s) \<Longrightarrow> table_ok (fst s) \<Longrightarrow>
   (let s' = fold (eval_group t rings totals) gis s in groups_tracked (fst (snd s')) (fst s') \<and> table_ok (fst s')
      \<and> sent (\<lambda>e. ev_scope e = ScopeGroup) (fst (snd s)) (fst (snd s')))"
proof (induction gis arbitrary: s)
  case (Cons gi gis)
  let ?s = "eval_group t rings totals gi s"
  have "groups_tracked (fst (snd ?s)) (fst ?s)" "table_ok (fst ?s)" "sent (\<lambda>e. ev_scope e = ScopeGroup) (fst (snd s)) (fst (snd ?s))"
    using eval_group_tracked [OF Cons.prems(1)] eval_group_frame Cons.prems(2) by blast+
  then show ?case using Cons.IH [of ?s] sent_trans by (fastforce simp: Let_def)
qed simp

lemma tget_filter_keys: "table_ok t \<Longrightarrow> tget (filter (\<lambda>e. P (fst e)) t) k = (if P k then tget t k else None)"
  by (induction t) (auto simp: tget_def table_ok_def map_of_eq_None_iff)

lemma eval_groups_tracked:
  assumes "groups_tracked c groups" "table_ok groups" "eval_groups t rings totals groups c = (groups', c', active)"
  shows "groups_tracked c' groups' \<and> table_ok groups' \<and> sent (\<lambda>e. ev_scope e = ScopeGroup) c c'"
proof -
  obtain groups1 c1 active1 where f: "fold (eval_group t rings totals) [0..<length (c_groups (tk_cfg t))] (groups, c, 0) = (groups1, c1, active1)"
    by (metis prod_cases3)
  have one: "groups_tracked c1 groups1" "table_ok groups1" "sent (\<lambda>e. ev_scope e = ScopeGroup) c c1"
    using fold_groups_tracked [of "(groups, c, 0)" t rings totals "[0..<length (c_groups (tk_cfg t))]"] assms(1,2) f by (simp_all add: Let_def)
  let ?gone = "filter (\<lambda>e. fst e \<notin> total_names (tk_cfg t)) groups1" and ?left = "filter (\<lambda>e. fst e \<in> total_names (tk_cfg t)) groups1"
  have ok: "table_ok ?gone" "table_ok ?left" "table_ok (?gone @ ?left)"
    using one(2) by (auto simp: table_ok_def distinct_map_filter)
  have "tget (?gone @ ?left) n = tget groups1 n" for n
    using tget_filter_keys [OF one(2), of "\<lambda>n. n \<notin> total_names (tk_cfg t)" n] tget_filter_keys [OF one(2), of "\<lambda>n. n \<in> total_names (tk_cfg t)" n]
    by (auto simp: tget_def map_add_def split: option.split)
  then have "\<And>n. group_tracked c1 n (tget (?gone @ ?left) n)" using one(1) by (simp add: groups_tracked_def)
  from close_groups_tracked [OF ok(1) this ok(3), of "tk_now t"]
  show ?thesis using assms(3) f ok(2) one(3) sent_trans by (auto simp: eval_groups_def Let_def)
qed

end
