(* ===== verification/CarpetLog.thy ===== *)
theory CarpetLog
  imports AttackLog NetParse
begin

text \<open>
  The lifecycle events of carpet prefixes: what one evaluation does to the entry of its prefix and to the
  log, and that every entry of the table stands for an attack whose start is logged and open.
\<close>

section \<open>One prefix\<close>

definition carpet_att :: "carpet_state option \<Rightarrow> attack_state" where
  "carpet_att h = (case h of None \<Rightarrow> attack_idle | Some cs \<Rightarrow> cs_attack cs)"

text \<open>What a step about prefix \<open>p\<close> may do.\<close>

definition carpet_move :: "prefix \<Rightarrow> (prefix, carpet_state) table \<times> channels \<Rightarrow> (prefix, carpet_state) table \<times> channels \<Rightarrow> bool" where
  "carpet_move p s s' \<longleftrightarrow> (\<exists>es. events_of (snd s') = events_of (snd s) @ es \<and> (\<forall>e \<in> set es. prefix_key p e)
     \<and> attack_move (carpet_att (tget (fst s) p)) es (carpet_att (tget (fst s') p)))
   \<and> (\<forall>q. q \<noteq> p \<longrightarrow> tget (fst s') q = tget (fst s) q)
   \<and> (tget (fst s') p = None \<or> at_in (carpet_att (tget (fst s') p)) \<or> fst s' = fst s)
   \<and> (table_ok (fst s) \<longrightarrow> table_ok (fst s'))"

lemma carpet_move_refl [simp]: "carpet_move p s s"
  by (auto simp: carpet_move_def intro: exI [of _ "[]"] attack_move_stay)

lemma end_carpet_move:
  assumes "tget carpets p = Some cs0" "same_attack (cs_attack cs0) (cs_attack cs)" "at_in (cs_attack cs0)"
  shows "carpet_move p (carpets, c) (end_carpet cfg p cs r now (carpets, c))"
  using assms by (auto simp: carpet_move_def end_carpet_def table_laws tbl.inv_del carpet_att_def carpet_event_def ended_event_def
      event_zero_def close_attack_def attack_move_def same_attack_def prefix_key_def)

lemma put_carpet_move:
  assumes "same_attack (carpet_att (tget carpets p)) (cs_attack cs)" "at_in (cs_attack cs)" "events_of c' = events_of c"
  shows "carpet_move p (carpets, c) (tput p cs carpets, c')"
  using assms by (auto simp: carpet_move_def table_laws tbl.inv_put carpet_att_def intro!: attack_move_stay)

lemma start_carpet_move:
  assumes "carpet_starts t rings cp p acc hit st0 c = (st, c1)" "\<not> at_in (carpet_att (tget carpets p))"
  shows "carpet_move p (carpets, c) (tput p (cs \<lparr> cs_attack := st \<rparr>) carpets, c1)"
  using assms by (cases hit) (auto simp: carpet_move_def table_laws tbl.inv_put carpet_att_def carpet_starts_def Let_def carpet_event_def
      started_event_def event_zero_def attack_move_def prefix_key_def split: prod.splits)

abbreviation carpet_view :: "(prefix, carpet_state) table \<times> channels \<times> int \<Rightarrow> (prefix, carpet_state) table \<times> channels" where
  "carpet_view s \<equiv> (fst s, fst (snd s))"

lemma carpet_tail_move:
  assumes "tget (fst s) p = Some cs0" "same_attack (cs_attack cs0) (cs_attack cs)" "at_in (cs_attack cs0)"
  shows "carpet_move p (carpet_view s) (carpet_view (carpet_tail t cp p r cs s))"
proof -
  obtain carpets c active where s: "s = (carpets, c, active)" by (cases s)
  let ?cs = "cs \<lparr> cs_attack := fall_below (tk_now t) (cs_attack cs) \<rparr>"
  have same: "same_attack (cs_attack cs0) (cs_attack ?cs)"
    using assms(2) same_attack_upd(2) [of "cs_attack cs" "tk_now t"] by (auto simp: same_attack_def)
  have "carpet_move p (carpets, c) (end_carpet (tk_cfg t) p ?cs r (tk_now t) (carpets, c))"
    using end_carpet_move [OF _ same assms(3)] assms(1) s by simp
  moreover have "carpet_move p (carpets, c) (tput p ?cs carpets, emit_carpet_ongoing (tk_cfg t) cp p (tk_now t) c)"
    by (rule put_carpet_move) (use assms(1,3) same s in \<open>simp_all add: carpet_att_def same_attack_def\<close>)
  ultimately show ?thesis using s by (auto simp: carpet_tail_def Let_def split: prod.split)
qed

lemma eval_carpet_move: "carpet_move p (carpet_view s) (carpet_view (eval_carpet t rings cp (p, acc) s))"
proof -
  obtain carpets c active where s: "s = (carpets, c, active)" by (cases s)
  let ?hit = "if cp_min_hosts cp \<le> ca_hosts acc then evaluate (ca_rates acc) (cp_thresholds cp) else None"
  let ?old = "case tget carpets p of None \<Rightarrow> new_carpet_state | Some x \<Rightarrow> x"
  let ?cs = "?old \<lparr> cs_last := ca_rates acc, cs_hosts := ca_hosts acc \<rparr>"
  have old: "cs_attack ?old = carpet_att (tget carpets p)"
    by (simp add: carpet_att_def new_carpet_state_def split: option.split)
  show ?thesis
  proof (cases ?hit)
    case None
    then show ?thesis using carpet_tail_move [where s = s] s
      by (auto simp: eval_carpet_def Let_def split: option.split)
  next
    case (Some hit)
    show ?thesis
    proof (cases "at_in (carpet_att (tget carpets p))")
      case True
      have "carpet_move p (carpets, c) (tput p (?cs \<lparr> cs_attack := hold_attack (ca_rates acc) (cs_attack ?cs) \<rparr>) carpets,
          emit_carpet_ongoing (tk_cfg t) cp p (tk_now t) c)"
        by (rule put_carpet_move) (use old True in \<open>simp_all add: hold_attack_def same_attack_def\<close>)
      then show ?thesis using Some True s old by (simp add: eval_carpet_def Let_def)
    next
      case False
      obtain st c1 where st: "carpet_starts t rings cp p acc hit (cs_attack ?cs) c = (st, c1)" by fastforce
      show ?thesis using start_carpet_move [OF st False, of ?cs] Some False s old st by (simp add: eval_carpet_def Let_def)
    qed
  qed
qed

lemma quiet_carpet_move:
  assumes "tget (fst s) p = Some cs"
  shows "carpet_move p (carpet_view s) (carpet_view (quiet_carpet t cp agg (p, cs) s))"
  using carpet_tail_move [OF assms, of cs t cp rates_zero] by (simp add: quiet_carpet_def)

section \<open>The table of prefixes\<close>

lemma dec_inj: "dec m = dec n \<Longrightarrow> m = n"
  by (metis dec_acc_dec option.inject)

lemma prefix_key_inj:
  assumes "pfx_valid p" "pfx_valid q" "prefix_key p e" "prefix_key q e"
  shows "p = q"
proof -
  have a: "pfx_addr p = pfx_addr q" and "pfx_string p = pfx_string q" using assms(3,4) by (simp_all add: prefix_key_def)
  then have "dec (nat (pfx_bits p)) = dec (nat (pfx_bits q))"
    using assms(1,2) by (simp add: pfx_string_def)
  then have "pfx_bits p = pfx_bits q" using dec_inj assms(1,2) by (force simp: pfx_valid_def)
  with a show ?thesis by (cases p; cases q) simp
qed

definition carpets_tracked :: "channels \<Rightarrow> (prefix, carpet_state) table \<Rightarrow> bool" where
  "carpets_tracked c carpets \<longleftrightarrow> table_ok carpets
     \<and> (\<forall>p cs. tget carpets p = Some cs \<longrightarrow> pfx_valid p \<and> at_in (cs_attack cs))
     \<and> (\<forall>p. pfx_valid p \<longrightarrow> tracks (filter (prefix_key p) (events_of c)) (carpet_att (tget carpets p)))"

lemma carpet_move_tracked:
  assumes t: "carpets_tracked (snd s) (fst s)" and p: "pfx_valid p" and m: "carpet_move p s s'"
  shows "carpets_tracked (snd s') (fst s') \<and> sent (\<lambda>e. ev_scope e = ScopePrefix) (snd s) (snd s')"
proof -
  obtain es where es: "events_of (snd s') = events_of (snd s) @ es" "\<forall>e \<in> set es. prefix_key p e"
    "attack_move (carpet_att (tget (fst s) p)) es (carpet_att (tget (fst s') p))" using m unfolding carpet_move_def by blast
  have other: "\<And>q. q \<noteq> p \<Longrightarrow> tget (fst s') q = tget (fst s) q" and ok: "table_ok (fst s')"
    using m t unfolding carpet_move_def carpets_tracked_def by blast+
  have entries: "pfx_valid q \<and> at_in (cs_attack cs)" if q: "tget (fst s') q = Some cs" for q cs
  proof (cases "q = p")
    case True
    have "tget (fst s') p = None \<or> at_in (carpet_att (tget (fst s') p)) \<or> fst s' = fst s" using m by (simp add: carpet_move_def)
    then show ?thesis using q p True t by (auto simp: carpet_att_def carpets_tracked_def)
  next
    case False
    then show ?thesis using q other t by (auto simp: carpets_tracked_def)
  qed
  have "tracks (filter (prefix_key q) (events_of (snd s'))) (carpet_att (tget (fst s') q))" if q: "pfx_valid q" for q
  proof (cases "q = p")
    case True
    have "tracks (filter (prefix_key p) (events_of (snd s)) @ es) (carpet_att (tget (fst s') p))"
      by (rule tracks_move [OF _ es(3)]) (use t p in \<open>simp add: carpets_tracked_def\<close>)
    moreover have "filter (prefix_key p) es = es" using es(2) by (simp add: filter_id_conv)
    ultimately show ?thesis using True es(1) by simp
  next
    case False
    then have "filter (prefix_key q) es = []" using es(2) prefix_key_inj [OF q p] by (auto simp: filter_empty_conv)
    then show ?thesis using t q es(1) other [OF False] by (simp add: carpets_tracked_def)
  qed
  moreover have "sent (\<lambda>e. ev_scope e = ScopePrefix) (snd s) (snd s')"
    using es(1,2) by (auto simp: sent_def prefix_key_def)
  ultimately show ?thesis using ok entries unfolding carpets_tracked_def by blast
qed

definition carpet_state_ok :: "(prefix, carpet_state) table \<times> channels \<Rightarrow> (prefix, carpet_state) table \<times> channels \<Rightarrow> bool" where
  "carpet_state_ok s s' \<longleftrightarrow> carpets_tracked (snd s') (fst s') \<and> sent (\<lambda>e. ev_scope e = ScopePrefix) (snd s) (snd s')"

lemma carpet_step_ok:
  "carpet_state_ok s0 s \<Longrightarrow> pfx_valid p \<Longrightarrow> carpet_move p s s' \<Longrightarrow> carpet_state_ok s0 s'"
  unfolding carpet_state_ok_def using carpet_move_tracked sent_trans by blast

lemma fold_eval_carpets:
  "carpet_state_ok s0 (carpet_view s) \<Longrightarrow> \<forall>e \<in> set agg. pfx_valid (fst e) \<Longrightarrow>
   carpet_state_ok s0 (carpet_view (fold (eval_carpet t rings cp) agg s))"
proof (induction agg arbitrary: s)
  case (Cons e agg)
  have "carpet_state_ok s0 (carpet_view (eval_carpet t rings cp e s))"
    using carpet_step_ok [OF Cons.prems(1), of "fst e"] eval_carpet_move [of "fst e" s t rings cp "snd e"] Cons.prems(2) by simp
  then show ?case using Cons by simp
qed simp

text \<open>A walk over a snapshot of the table whose steps touch only their own entry.\<close>

lemma carpet_walk:
  assumes step: "\<And>p cs s. tget (fst s) p = Some cs \<Longrightarrow> carpet_move p (v s) (v (f (p, cs) s))"
    and v: "\<And>s. fst (v s) = fst s"
  shows "table_ok es \<Longrightarrow> (\<And>p cs. (p, cs) \<in> set es \<Longrightarrow> tget (fst s) p = Some cs) \<Longrightarrow> carpet_state_ok s0 (v s) \<Longrightarrow>
   carpet_state_ok s0 (v (fold f es s))"
proof (induction es arbitrary: s)
  case (Cons e es)
  obtain p cs where e: "e = (p, cs)" by fastforce
  have here: "tget (fst s) p = Some cs" using Cons.prems(2) e by simp
  then have p: "pfx_valid p" using Cons.prems(3) v unfolding carpet_state_ok_def carpets_tracked_def by metis
  have m: "carpet_move p (v s) (v (f (p, cs) s))" by (rule step [OF here])
  have "tget (fst (f (p, cs) s)) q = Some cq" if "(q, cq) \<in> set es" for q cq
  proof -
    have "q \<noteq> p" using Cons.prems(1) e that by (force simp: table_ok_def)
    then show ?thesis using m Cons.prems(2) [of q cq] that unfolding carpet_move_def by (simp add: v)
  qed
  then show ?case using Cons.IH [of "f (p, cs) s"] Cons.prems(1) carpet_step_ok [OF Cons.prems(3) p m] e by (simp add: table_ok_def)
qed simp

lemma quiet_carpets_ok:
  assumes "carpet_state_ok s0 (carpet_view s)"
  shows "carpet_state_ok s0 (carpet_view (fold (quiet_carpet t cp agg) (fst s) s))"
proof (rule carpet_walk [where v = carpet_view])
  show "carpet_move p (carpet_view s) (carpet_view (quiet_carpet t cp agg (p, cs) s))" if "tget (fst s) p = Some cs" for p cs and s :: "(prefix, carpet_state) table \<times> channels \<times> int"
    using quiet_carpet_move that by blast
  show "table_ok (fst s)" using assms by (simp add: carpet_state_ok_def carpets_tracked_def)
  then show "\<And>p cs. (p, cs) \<in> set (fst s) \<Longrightarrow> tget (fst s) p = Some cs" by (rule in_set_tget)
  show "carpet_state_ok s0 (carpet_view s)" by (rule assms)
qed simp

lemma eval_carpets_tracked:
  assumes "carpets_tracked c carpets" "\<forall>e \<in> set agg. pfx_valid (fst e)" "eval_carpets t rings cp agg carpets c = (carpets', c', active)"
  shows "carpets_tracked c' carpets' \<and> sent (\<lambda>e. ev_scope e = ScopePrefix) c c'"
proof -
  let ?s = "fold (eval_carpet t rings cp) agg (carpets, c, 0)"
  have "carpet_state_ok (carpets, c) (carpet_view (carpets, c, 0 :: int))" using assms(1) by (simp add: carpet_state_ok_def)
  then have "carpet_state_ok (carpets, c) (carpet_view ?s)" using assms(2) by (rule fold_eval_carpets)
  from quiet_carpets_ok [OF this, of t cp agg]
  show ?thesis using assms(3) by (auto simp: eval_carpets_def carpet_state_ok_def split: prod.splits)
qed

lemma close_all_carpets_tracked:
  assumes "carpets_tracked c carpets" "close_all_carpets cfg now carpets c = (carpets', c')"
  shows "carpets_tracked c' carpets' \<and> sent (\<lambda>e. ev_scope e = ScopePrefix) c c'"
proof -
  let ?f = "\<lambda>(p, cs) s. if at_in (cs_attack cs) then end_carpet cfg p cs (cs_last cs) now s else (tdel p (fst s), snd s)"
  have "carpet_state_ok (carpets, c) ((\<lambda>s. s) (fold ?f carpets (carpets, c)))"
  proof (rule carpet_walk)
    show "carpet_move p s (?f (p, cs) s)" if "tget (fst s) p = Some cs" for p cs and s :: "(prefix, carpet_state) table \<times> channels"
      using end_carpet_move [of "fst s" p cs cs "snd s"] that
      by (auto simp: carpet_move_def table_laws tbl.inv_del carpet_att_def attack_move_def same_attack_def)
  qed (use assms(1) in \<open>auto simp: carpets_tracked_def carpet_state_ok_def in_set_tget\<close>)
  then show ?thesis using assms(2) by (simp add: close_all_carpets_def carpet_state_ok_def)
qed

end
