(* ===== verification/EngineInv.thy ===== *)
theory EngineInv
  imports GroupLog CarpetLog
begin

text \<open>
  The engine's hosts across steps. Every host stays in the shard its address hashes to, recording a flow
  leaves the attacks alone, and a tick visits each host exactly once: \<open>tick_host\<close> says which
  \<open>scan_host\<close> a host goes through and that nothing else of the tick logs an event of that host.
  The laws of ticks about one host are read off from there.
\<close>

section \<open>Shards\<close>

definition shards_ok :: "shard list \<Rightarrow> bool" where
  "shards_ok shs \<longleftrightarrow> length shs = num_shards \<and> (\<forall>i < num_shards. table_ok (sh_hosts (shs ! i))
     \<and> (\<forall>a \<in> fst ` set (sh_hosts (shs ! i)). shard_index a = i))"

definition all_hosts :: "shard list \<Rightarrow> (addr, host_state) table" where
  "all_hosts shs = concat (map sh_hosts shs)"

definition host_at :: "engine \<Rightarrow> addr \<Rightarrow> host_state option" where
  "host_at e a = tget (sh_hosts (eg_shards e ! shard_index a)) a"

lemma shard_index_lt [simp]: "shard_index a < num_shards"
proof -
  have "x AND 255 \<le> 255" for x :: "32 word" by (rule word_and_le1)
  then have "unat (x AND 255) \<le> unat (255 :: 32 word)" for x :: "32 word" by (simp add: word_le_nat_alt)
  from order_le_less_trans [OF this, of 256] show ?thesis by (simp add: shard_index_def num_shards_def)
qed

lemma tget_append: "tget (xs @ ys) a = (case tget xs a of None \<Rightarrow> tget ys a | Some v \<Rightarrow> Some v)"
  by (simp add: tget_def map_add_def split: option.split)

lemma tget_None_iff: "tget t k = None \<longleftrightarrow> k \<notin> fst ` set t"
  by (simp add: tget_def map_of_eq_None_iff)

lemma table_ok_append: "table_ok (xs @ ys) \<longleftrightarrow> table_ok xs \<and> table_ok ys \<and> fst ` set xs \<inter> fst ` set ys = {}"
  by (auto simp: table_ok_def)

lemma all_hosts_simps [simp]: "all_hosts [] = []" "all_hosts (sh # shs) = sh_hosts sh @ all_hosts shs"
  by (simp_all add: all_hosts_def)

lemma all_hosts_keys: "fst ` set (all_hosts shs) = (\<Union>sh \<in> set shs. fst ` set (sh_hosts sh))"
  by (auto simp: all_hosts_def)

lemma all_hosts_offset:
  "(\<forall>i < length shs. table_ok (sh_hosts (shs ! i)) \<and> (\<forall>a \<in> fst ` set (sh_hosts (shs ! i)). shard_index a = k + i)) \<Longrightarrow>
   table_ok (all_hosts shs) \<and> (\<forall>i < length shs. \<forall>a. shard_index a = k + i \<longrightarrow> tget (all_hosts shs) a = tget (sh_hosts (shs ! i)) a)"
proof (induction shs arbitrary: k)
  case (Cons sh shs)
  have rest: "\<forall>i < length shs. table_ok (sh_hosts (shs ! i)) \<and> (\<forall>a \<in> fst ` set (sh_hosts (shs ! i)). shard_index a = Suc k + i)"
    using Cons.prems by fastforce
  note ih = Cons.IH [OF rest]
  have here: "table_ok (sh_hosts sh)" "\<And>a. a \<in> fst ` set (sh_hosts sh) \<Longrightarrow> shard_index a = k"
    using Cons.prems [rule_format, of 0] by auto
  have later: "shard_index a \<noteq> k" if a: "a \<in> fst ` set (all_hosts shs)" for a
  proof -
    obtain s where "s \<in> set shs" "a \<in> fst ` set (sh_hosts s)" using a by (auto simp: all_hosts_keys)
    then obtain i where "i < length shs" "a \<in> fst ` set (sh_hosts (shs ! i))" by (metis in_set_conv_nth)
    then show ?thesis using rest by fastforce
  qed
  have "table_ok (all_hosts (sh # shs))" using here later ih by (auto simp: table_ok_append)
  moreover have "tget (all_hosts (sh # shs)) a = tget (sh_hosts ((sh # shs) ! i)) a"
    if i: "i < length (sh # shs)" "shard_index a = k + i" for i a
  proof (cases i)
    case 0
    then have "tget (all_hosts shs) a = None" using later i(2) by (auto simp: tget_None_iff)
    then show ?thesis using 0 by (simp add: tget_append split: option.split)
  next
    case (Suc j)
    then have "shard_index a \<noteq> k" using i(2) by simp
    then have "tget (sh_hosts sh) a = None" using here(2) unfolding tget_None_iff by blast
    then show ?thesis using ih i Suc by (simp add: tget_append)
  qed
  ultimately show ?case by blast
qed simp

lemma shards_ok_all: "shards_ok shs \<Longrightarrow> table_ok (all_hosts shs)"
  using all_hosts_offset [of shs 0] by (simp add: shards_ok_def)

lemma shards_ok_tget: "shards_ok shs \<Longrightarrow> tget (sh_hosts (shs ! shard_index a)) a = tget (all_hosts shs) a"
  unfolding shards_ok_def using all_hosts_offset [of shs 0] shard_index_lt [of a] by (metis add_0)

section \<open>The scan visits every host once\<close>

abbreviation not_of :: "addr \<Rightarrow> event \<Rightarrow> bool" where
  "not_of a e \<equiv> \<not> of_host a e"

definition scanned :: "tick \<Rightarrow> (addr, host_state) table \<Rightarrow> channels \<Rightarrow> (addr, host_state) table \<Rightarrow> channels \<Rightarrow> bool" where
  "scanned t hosts c hosts' c' \<longleftrightarrow> table_ok hosts' \<and> fst ` set hosts' \<subseteq> fst ` set hosts
     \<and> sent (\<lambda>e. \<exists>a \<in> fst ` set hosts. of_host a e) c c'
     \<and> (\<forall>a hs. tget hosts a = Some hs \<longrightarrow> (\<exists>sr y. tget hosts' a = fst (scan_host t sr a hs y)
          \<and> sent (not_of a) c (ty_channels y) \<and> sent (not_of a) (ty_channels (snd (scan_host t sr a hs y))) c'))"

lemma of_host_target: "of_host a e \<Longrightarrow> ev_target e = a \<and> ev_scope e = ScopeHost"
  by (auto simp: of_host_def host_key_def)

lemma sent_others: "sent (\<lambda>e. \<exists>a \<in> K. of_host a e) c c' \<Longrightarrow> a \<notin> K \<Longrightarrow> sent (not_of a) c c'"
  by (erule sent_mono) (metis of_host_target)

lemma scanned_Nil [simp]: "scanned t [] c [] c"
  by (simp add: scanned_def)

lemma scanned_append:
  assumes one: "scanned t xs c xs' c1" and two: "scanned t ys c1 ys' c2" and apart: "fst ` set xs \<inter> fst ` set ys = {}"
  shows "scanned t (xs @ ys) c (xs' @ ys') c2"
proof -
  have subs: "fst ` set xs' \<subseteq> fst ` set xs" "fst ` set ys' \<subseteq> fst ` set ys" "table_ok xs'" "table_ok ys'"
    using one two by (simp_all add: scanned_def)
  then have "fst ` set xs' \<inter> fst ` set ys' = {}" using apart by blast
  then have keys: "table_ok (xs' @ ys')" "fst ` set (xs' @ ys') \<subseteq> fst ` set (xs @ ys)"
    using subs by (auto simp: table_ok_append)
  have "sent (\<lambda>e. \<exists>a \<in> fst ` set (xs @ ys). of_host a e) c c1" "sent (\<lambda>e. \<exists>a \<in> fst ` set (xs @ ys). of_host a e) c1 c2"
    using one two by (auto simp: scanned_def intro: sent_mono)
  then have log: "sent (\<lambda>e. \<exists>a \<in> fst ` set (xs @ ys). of_host a e) c c2" by (rule sent_trans)
  have "\<exists>sr y. tget (xs' @ ys') a = fst (scan_host t sr a hs y) \<and> sent (not_of a) c (ty_channels y)
      \<and> sent (not_of a) (ty_channels (snd (scan_host t sr a hs y))) c2" if a: "tget (xs @ ys) a = Some hs" for a hs
  proof (cases "tget xs a")
    case None
    then have out: "a \<notin> fst ` set xs" by (simp add: tget_None_iff)
    then have "tget xs' a = None" using one by (auto simp: scanned_def tget_None_iff)
    moreover have "sent (not_of a) c c1" using one out unfolding scanned_def by (blast intro: sent_others)
    moreover have "tget ys a = Some hs" using a None by (simp add: tget_append)
    ultimately show ?thesis using two unfolding scanned_def by (metis (no_types, lifting) tget_append option.simps(4) sent_trans)
  next
    case (Some v)
    then have v: "tget xs a = Some hs" and in_xs: "a \<in> fst ` set xs" using a tget_None_iff [of xs a] by (auto simp: tget_append)
    then have out: "a \<notin> fst ` set ys" using apart by blast
    then have gone: "tget ys' a = None" using two by (auto simp: scanned_def tget_None_iff)
    have after: "sent (not_of a) c1 c2" using two out unfolding scanned_def by (blast intro: sent_others)
    obtain sr y where y: "tget xs' a = fst (scan_host t sr a hs y)" "sent (not_of a) c (ty_channels y)"
      "sent (not_of a) (ty_channels (snd (scan_host t sr a hs y))) c1" using one v unfolding scanned_def by blast
    have "tget (xs' @ ys') a = fst (scan_host t sr a hs y)" using y(1) gone by (simp add: tget_append split: option.split)
    then show ?thesis using y(2) sent_trans [OF y(3) after] by blast
  qed
  then show ?thesis using keys log by (simp add: scanned_def)
qed

lemma scanned_one:
  "scanned t [(a, hs)] (ty_channels y) (case fst (scan_host t sr a hs y) of None \<Rightarrow> [] | Some h \<Rightarrow> [(a, h)])
     (ty_channels (snd (scan_host t sr a hs y)))"
proof -
  let ?hosts = "case fst (scan_host t sr a hs y) of None \<Rightarrow> [] | Some h \<Rightarrow> [(a, h)]"
  have "tget ?hosts a = fst (scan_host t sr a hs y)" by (simp add: tget_def split: option.split)
  then have "\<exists>sr' y'. tget ?hosts a = fst (scan_host t sr' a hs y') \<and> sent (not_of a) (ty_channels y) (ty_channels y')
      \<and> sent (not_of a) (ty_channels (snd (scan_host t sr' a hs y'))) (ty_channels (snd (scan_host t sr a hs y)))"
    by (intro exI [of _ sr] exI [of _ y]) simp
  moreover have "sent (\<lambda>e. of_host a e) (ty_channels y) (ty_channels (snd (scan_host t sr a hs y)))"
    using scan_host_log by blast
  moreover have "table_ok ?hosts" "fst ` set ?hosts \<subseteq> {a}"
    by (cases "fst (scan_host t sr a hs y)"; simp add: table_ok_def)+
  ultimately show ?thesis by (simp add: scanned_def tget_def [of "[(a, hs)]"])
qed

lemma scan_hosts_scanned:
  "table_ok hosts \<Longrightarrow> scanned t hosts (ty_channels y) (fst (scan_hosts t sr hosts y)) (ty_channels (snd (scan_hosts t sr hosts y)))"
proof (induction hosts arbitrary: y)
  case (Cons e rest)
  obtain a hs where e: "e = (a, hs)" by fastforce
  obtain kept y1 where k: "scan_host t sr a hs y = (kept, y1)" by fastforce
  obtain rest1 y2 where r: "scan_hosts t sr rest y1 = (rest1, y2)" by fastforce
  have tail: "scanned t rest (ty_channels y1) rest1 (ty_channels y2)" using Cons.IH [of y1] Cons.prems r by (simp add: table_ok_def)
  have "fst ` set [(a, hs)] \<inter> fst ` set rest = {}" using Cons.prems e by (simp add: table_ok_def)
  from scanned_append [OF scanned_one [of t a hs y sr, unfolded k fst_conv snd_conv] tail this]
  show ?case by (simp add: e k r split: option.splits)
qed simp

lemma scan_shards_scanned:
  "table_ok (all_hosts shs) \<Longrightarrow>
   scanned t (all_hosts shs) (ty_channels y) (all_hosts (fst (scan_shards t shs y))) (ty_channels (snd (scan_shards t shs y)))"
proof (induction shs arbitrary: y)
  case (Cons sh shs)
  obtain hosts y1 where h: "scan_hosts t (sh_samples sh) (sh_hosts sh) y = (hosts, y1)" by fastforce
  obtain shs1 y2 where r: "scan_shards t shs y1 = (shs1, y2)" by fastforce
  have ok: "table_ok (sh_hosts sh)" "table_ok (all_hosts shs)" "fst ` set (sh_hosts sh) \<inter> fst ` set (all_hosts shs) = {}"
    using Cons.prems by (simp_all add: table_ok_append)
  have "scanned t (sh_hosts sh) (ty_channels y) hosts (ty_channels y1)"
    using scan_hosts_scanned [OF ok(1), of t y "sh_samples sh"] h by simp
  moreover have "scanned t (all_hosts shs) (ty_channels y1) (all_hosts shs1) (ty_channels y2)"
    using Cons.IH [OF ok(2), of y1] r by simp
  ultimately show ?case using scanned_append [OF _ _ ok(3)] h r by simp
qed simp

lemma scan_hosts_keys: "table_ok hosts \<Longrightarrow> table_ok (fst (scan_hosts t sr hosts y)) \<and> fst ` set (fst (scan_hosts t sr hosts y)) \<subseteq> fst ` set hosts"
  using scan_hosts_scanned [of hosts t y sr] by (simp add: scanned_def)

lemma scan_shards_nth:
  "length (fst (scan_shards t shs y)) = length shs \<and>
   (\<forall>i < length shs. \<exists>y'. fst (scan_shards t shs y) ! i = (shs ! i) \<lparr> sh_hosts := fst (scan_hosts t (sh_samples (shs ! i)) (sh_hosts (shs ! i)) y') \<rparr>)"
proof (induction shs arbitrary: y)
  case (Cons sh shs)
  obtain hosts y1 where h: "scan_hosts t (sh_samples sh) (sh_hosts sh) y = (hosts, y1)" by fastforce
  obtain shs1 y2 where r: "scan_shards t shs y1 = (shs1, y2)" by fastforce
  have ih: "length shs1 = length shs" "\<forall>i < length shs. \<exists>y'. shs1 ! i = (shs ! i) \<lparr> sh_hosts := fst (scan_hosts t (sh_samples (shs ! i)) (sh_hosts (shs ! i)) y') \<rparr>"
    using Cons.IH [of y1] r by simp_all
  have "\<exists>y'. hosts = fst (scan_hosts t (sh_samples sh) (sh_hosts sh) y')" using h by (metis fst_conv)
  then show ?case using ih h r by (auto simp: nth_Cons split: nat.split)
qed simp

lemma scan_shards_ok: "shards_ok shs \<Longrightarrow> shards_ok (fst (scan_shards t shs y))"
proof -
  assume ok: "shards_ok shs"
  note nth = scan_shards_nth [of t shs y]
  have len: "length (fst (scan_shards t shs y)) = num_shards" using ok nth by (simp add: shards_ok_def)
  have "table_ok (sh_hosts (fst (scan_shards t shs y) ! i)) \<and> (\<forall>a \<in> fst ` set (sh_hosts (fst (scan_shards t shs y) ! i)). shard_index a = i)"
    if i: "i < num_shards" for i
  proof -
    obtain y' where "fst (scan_shards t shs y) ! i = (shs ! i) \<lparr> sh_hosts := fst (scan_hosts t (sh_samples (shs ! i)) (sh_hosts (shs ! i)) y') \<rparr>"
      using nth i ok unfolding shards_ok_def by metis
    then show ?thesis using scan_hosts_keys [of "sh_hosts (shs ! i)"] ok i unfolding shards_ok_def by fastforce
  qed
  then show ?thesis using len by (simp add: shards_ok_def)
qed

section \<open>Recording a flow\<close>

text \<open>Recording changes counters only: no attack, no event, no group.\<close>

definition same_detection :: "engine \<Rightarrow> engine \<Rightarrow> bool" where
  "same_detection e e' \<longleftrightarrow> eg_out e' = eg_out e \<and> eg_groups e' = eg_groups e \<and> eg_carpets e' = eg_carpets e
     \<and> eg_window e' = eg_window e \<and> (\<forall>a d. att_of (host_at e' a) d = att_of (host_at e a) d)
     \<and> (shards_ok (eg_shards e) \<longrightarrow> shards_ok (eg_shards e'))"

lemma same_detection_refl [simp]: "same_detection e e"
  by (simp add: same_detection_def)

lemma same_detection_trans: "same_detection e e' \<Longrightarrow> same_detection e' e'' \<Longrightarrow> same_detection e e''"
  by (simp add: same_detection_def)

lemma record_host_table:
  "sh_hosts (record_host n a dir f rate epoch upstream sh) =
     tput a ((case tget (sh_hosts sh) a of None \<Rightarrow> new_host n | Some h \<Rightarrow> h)
       \<lparr> hs_ring := ring_record dir f rate epoch upstream (hs_ring (case tget (sh_hosts sh) a of None \<Rightarrow> new_host n | Some h \<Rightarrow> h)),
         hs_seen := epoch \<rparr>) (sh_hosts sh)"
  by (simp add: record_host_def Let_def)

lemma record_flow_same: "same_detection e (record_flow a dir f rate epoch upstream e)"
proof -
  let ?e = "record_flow a dir f rate epoch upstream e"
  have nth: "eg_shards ?e ! i = (if i = shard_index a \<and> i < length (eg_shards e)
      then record_host (eg_ring_size e) a dir f rate epoch upstream (eg_shards e ! i) else eg_shards e ! i)" for i
    by (cases "shard_index a < length (eg_shards e)"; cases "i = shard_index a")
      (simp_all add: record_flow_def list_update_beyond)
  have "att_of (host_at ?e b) d = att_of (host_at e b) d" for b d
    by (auto simp: host_at_def nth record_host_table table_laws att_of_def new_host_def split: option.splits)
  moreover have "shards_ok (eg_shards ?e)" if ok: "shards_ok (eg_shards e)"
  proof -
    have "table_ok (sh_hosts (eg_shards ?e ! i)) \<and> (\<forall>b \<in> fst ` set (sh_hosts (eg_shards ?e ! i)). shard_index b = i)"
      if i: "i < num_shards" for i
    proof (cases "i = shard_index a")
      case True
      then show ?thesis using ok i unfolding shards_ok_def nth
        by (simp add: record_host_table keys_tput tbl.inv_put del: shard_index_lt)
    next
      case False
      then show ?thesis using ok i by (simp add: nth shards_ok_def)
    qed
    moreover have "length (eg_shards ?e) = length (eg_shards e)" by (simp add: record_flow_def)
    ultimately show ?thesis using ok by (simp add: shards_ok_def)
  qed
  ultimately show ?thesis by (simp add: same_detection_def record_flow_def)
qed

lemma record_peer_same: "same_detection e (record_peer cfg dir f iface mac r epoch e)"
  by (simp add: record_peer_def same_detection_def host_at_def split: option.split)

lemma process_same: "same_detection e (process cfg now f e)"
  unfolding process_def Let_def
  by (auto split: prod.split intro!: same_detection_trans [OF _ record_peer_same] record_flow_same
      same_detection_trans [OF _ record_flow_same] same_detection_trans [OF record_flow_same record_peer_same])

section \<open>A tick\<close>

definition tick_of :: "config \<Rightarrow> nanos \<Rightarrow> engine \<Rightarrow> tick" where
  "tick_of cfg now e = \<lparr> tk_cfg = cfg, tk_now = now, tk_window = eg_window e, tk_max_flows = eg_max_flows e, tk_enrich = eg_enrich e \<rparr>"

definition tally_start :: "config \<Rightarrow> engine \<Rightarrow> tally" where
  "tally_start cfg e = \<lparr> ty_channels = eg_out e, ty_totals = replicate (length (c_groups cfg)) (\<lambda>d. rates_zero), ty_carpet = [],
     ty_active = 0, ty_tracked = 0 \<rparr>"

lemma carpet_key_valid: "addr_valid a \<Longrightarrow> pfx_valid (carpet_key a cp)"
  by (cases a) (auto simp: carpet_key_def addr_prefix_def prefix_from_def pfx_valid_def split: option.split)

definition carpet_keys_ok :: "tally \<Rightarrow> bool" where
  "carpet_keys_ok y \<longleftrightarrow> (\<forall>e \<in> set (ty_carpet y). pfx_valid (fst e))"

lemma scan_host_carpet: "carpet_keys_ok y \<Longrightarrow> carpet_keys_ok (snd (scan_host t sr a hs y))"
proof -
  assume ok: "carpet_keys_ok y"
  have fold: "pfx_valid (fst e)" if "in_networks (tk_cfg t) a" "e \<in> set (fold_carpet cp a r (ty_carpet y))" for cp r e
    using that ok carpet_key_valid [OF in_networks_valid] set_tput_subset [of "carpet_key a cp"]
    by (fastforce simp: fold_carpet_def Let_def carpet_keys_ok_def)
  show ?thesis using ok fold
    by (auto simp: scan_host_def Let_def evict_or_track_def end_both_tally_def carpet_keys_ok_def
        split: prod.splits if_splits option.splits)
qed

lemma scan_hosts_carpet: "carpet_keys_ok y \<Longrightarrow> carpet_keys_ok (snd (scan_hosts t sr hosts y))"
proof (induction hosts arbitrary: y)
  case (Cons e rest)
  obtain a hs where e: "e = (a, hs)" by fastforce
  show ?case using Cons.IH [OF scan_host_carpet [OF Cons.prems, of t sr a hs]] by (auto simp: e split: prod.split)
qed simp

lemma scan_shards_carpet: "carpet_keys_ok y \<Longrightarrow> carpet_keys_ok (snd (scan_shards t shs y))"
proof (induction shs arbitrary: y)
  case (Cons sh shs)
  show ?case using Cons.IH [OF scan_hosts_carpet [OF Cons.prems, of t "sh_samples sh" "sh_hosts sh"]] by (auto split: prod.split)
qed simp

definition engine_ok :: "engine \<Rightarrow> bool" where
  "engine_ok e \<longleftrightarrow> shards_ok (eg_shards e) \<and> (\<forall>a. host_tracked (eg_out e) a (host_at e a))
     \<and> groups_tracked (eg_out e) (eg_groups e) \<and> table_ok (eg_groups e) \<and> carpets_tracked (eg_out e) (eg_carpets e)"

text \<open>The three stages of a tick.\<close>

lemma eval_tick_stages:
  obtains shards y groups c carpets where
    "scan_shards (tick_of cfg now e) (eg_shards e) (tally_start cfg e) = (shards, y)"
    "\<exists>active. eval_groups (tick_of cfg now e) (map sh_samples shards) (ty_totals y) (eg_groups e) (ty_channels y) = (groups, c, active)"
    "(\<exists>cp active. eval_carpets (tick_of cfg now e) (map sh_samples shards) cp (ty_carpet y) (eg_carpets e) c
        = (carpets, eg_out (fst (eval_tick cfg now e)), active))
     \<or> close_all_carpets cfg now (eg_carpets e) c = (carpets, eg_out (fst (eval_tick cfg now e)))"
    "eg_shards (fst (eval_tick cfg now e)) = shards" "eg_groups (fst (eval_tick cfg now e)) = groups"
    "eg_carpets (fst (eval_tick cfg now e)) = carpets" "eg_window (fst (eval_tick cfg now e)) = eg_window e"
proof -
  obtain shards y where s: "scan_shards (tick_of cfg now e) (eg_shards e) (tally_start cfg e) = (shards, y)" by fastforce
  obtain groups c n where g: "eval_groups (tick_of cfg now e) (map sh_samples shards) (ty_totals y) (eg_groups e) (ty_channels y) = (groups, c, n)"
    by (metis prod_cases3)
  show ?thesis
  proof (cases "c_carpet cfg")
    case None
    obtain carpets c2 where k: "close_all_carpets cfg now (eg_carpets e) c = (carpets, c2)" by fastforce
    show ?thesis using that [OF s, of groups c carpets] g k None s
      by (auto simp: eval_tick_def Let_def publish_live_rates_def tick_of_def tally_start_def)
  next
    case (Some cp)
    obtain carpets c2 m where k: "eval_carpets (tick_of cfg now e) (map sh_samples shards) cp (ty_carpet y) (eg_carpets e) c = (carpets, c2, m)"
      by (metis prod_cases3)
    show ?thesis using that [OF s, of groups c carpets] g k Some s
      by (auto simp: eval_tick_def Let_def publish_live_rates_def tick_of_def tally_start_def)
  qed
qed

text \<open>A tracked table stays tracked while other kinds of events are sent.\<close>

lemma tracked_sent:
  "host_tracked c a h \<Longrightarrow> sent (not_of a) c c' \<Longrightarrow> host_tracked c' a h"
  "groups_tracked c groups \<Longrightarrow> sent (\<lambda>e. ev_scope e \<noteq> ScopeGroup) c c' \<Longrightarrow> groups_tracked c' groups"
  "carpets_tracked c carpets \<Longrightarrow> sent (\<lambda>e. ev_scope e \<noteq> ScopePrefix) c c' \<Longrightarrow> carpets_tracked c' carpets"
proof -
  show "host_tracked c a h \<Longrightarrow> sent (not_of a) c c' \<Longrightarrow> host_tracked c' a h"
    unfolding host_tracked_def using sent_filter [of "not_of a" c c'] by (metis of_host_def)
  show "groups_tracked c groups \<Longrightarrow> sent (\<lambda>e. ev_scope e \<noteq> ScopeGroup) c c' \<Longrightarrow> groups_tracked c' groups"
    unfolding groups_tracked_def group_tracked_def using sent_filter [of "\<lambda>e. ev_scope e \<noteq> ScopeGroup" c c'] by (metis group_key_def)
  show "carpets_tracked c carpets \<Longrightarrow> sent (\<lambda>e. ev_scope e \<noteq> ScopePrefix) c c' \<Longrightarrow> carpets_tracked c' carpets"
    unfolding carpets_tracked_def using sent_filter [of "\<lambda>e. ev_scope e \<noteq> ScopePrefix" c c'] by (metis prefix_key_def)
qed

text \<open>The stages of a tick from a good state: the scan, then group events, then prefix events.\<close>

lemma tick_stages_ok:
  assumes ok: "engine_ok e" and e': "e' = fst (eval_tick cfg now e)"
  obtains y :: tally and c where
    "scanned (tick_of cfg now e) (all_hosts (eg_shards e)) (eg_out e) (all_hosts (eg_shards e')) (ty_channels y)"
    "shards_ok (eg_shards e')" "sent (\<lambda>e. ev_scope e = ScopeHost) (eg_out e) (ty_channels y)"
    "groups_tracked c (eg_groups e')" "table_ok (eg_groups e')" "sent (\<lambda>e. ev_scope e = ScopeGroup) (ty_channels y) c"
    "carpets_tracked (eg_out e') (eg_carpets e')" "sent (\<lambda>e. ev_scope e = ScopePrefix) c (eg_out e')"
proof -
  let ?t = "tick_of cfg now e" and ?y0 = "tally_start cfg e"
  obtain shards y groups c carpets n where s: "scan_shards ?t (eg_shards e) ?y0 = (shards, y)"
    and g: "eval_groups ?t (map sh_samples shards) (ty_totals y) (eg_groups e) (ty_channels y) = (groups, c, n)"
    and k: "(\<exists>cp active. eval_carpets ?t (map sh_samples shards) cp (ty_carpet y) (eg_carpets e) c = (carpets, eg_out e', active))
     \<or> close_all_carpets cfg now (eg_carpets e) c = (carpets, eg_out e')"
    and sh: "eg_shards e' = shards" "eg_groups e' = groups" "eg_carpets e' = carpets"
    using eval_tick_stages [of cfg now e] unfolding e' by metis
  have shards: "shards_ok (eg_shards e)" using ok by (simp add: engine_ok_def)
  have "eg_out e = ty_channels ?y0" by (simp add: tally_start_def)
  then have sc: "scanned ?t (all_hosts (eg_shards e)) (eg_out e) (all_hosts shards) (ty_channels y)"
    using scan_shards_scanned [OF shards_ok_all [OF shards], of ?t ?y0] s by simp
  then have hosts: "sent (\<lambda>e. ev_scope e = ScopeHost) (eg_out e) (ty_channels y)"
    unfolding scanned_def using of_host_target by (blast intro: sent_mono)
  have "groups_tracked (ty_channels y) (eg_groups e)"
    by (rule tracked_sent(2) [OF _ sent_mono [OF hosts]]) (use ok in \<open>auto simp: engine_ok_def\<close>)
  then have groups: "groups_tracked c groups" "table_ok groups" "sent (\<lambda>e. ev_scope e = ScopeGroup) (ty_channels y) c"
    using eval_groups_tracked [OF _ _ g] ok by (simp_all add: engine_ok_def)
  have "sent (\<lambda>e. ev_scope e \<noteq> ScopePrefix) (eg_out e) c"
    by (rule sent_trans [OF sent_mono [OF hosts] sent_mono [OF groups(3)]]) auto
  then have tracked: "carpets_tracked c (eg_carpets e)" by (rule tracked_sent(3) [rotated]) (use ok in \<open>simp add: engine_ok_def\<close>)
  have keys: "\<forall>e \<in> set (ty_carpet y). pfx_valid (fst e)"
    using scan_shards_carpet [of ?y0 ?t "eg_shards e"] s by (simp add: carpet_keys_ok_def tally_start_def)
  have "carpets_tracked (eg_out e') carpets \<and> sent (\<lambda>e. ev_scope e = ScopePrefix) c (eg_out e')"
    using k eval_carpets_tracked [OF tracked keys] close_all_carpets_tracked [OF tracked] by blast
  then show ?thesis
    using that [of y c] sc hosts groups sh scan_shards_ok [OF shards, of ?t ?y0] s by simp
qed

text \<open>What a tick does to one host: one \<open>scan_host\<close>, and no other event of that host.\<close>

lemma tick_host_cases:
  assumes ok: "engine_ok e" and e': "e' = fst (eval_tick cfg now e)"
  obtains (absent) "host_at e a = None" "host_at e' a = None" "sent (not_of a) (eg_out e) (eg_out e')"
  | (present) hs sr and y :: tally where "host_at e a = Some hs" "host_at e' a = fst (scan_host (tick_of cfg now e) sr a hs y)"
      "sent (not_of a) (eg_out e) (ty_channels y)"
      "sent (not_of a) (ty_channels (snd (scan_host (tick_of cfg now e) sr a hs y))) (eg_out e')"
proof -
  obtain y :: tally and c where sc: "scanned (tick_of cfg now e) (all_hosts (eg_shards e)) (eg_out e) (all_hosts (eg_shards e')) (ty_channels y)"
    and oks: "shards_ok (eg_shards e')" and late: "sent (\<lambda>e. ev_scope e = ScopeGroup) (ty_channels y) c"
      "sent (\<lambda>e. ev_scope e = ScopePrefix) c (eg_out e')"
    using tick_stages_ok [OF ok e'] by metis
  have shards: "shards_ok (eg_shards e)" using ok by (simp add: engine_ok_def)
  have at: "host_at e a = tget (all_hosts (eg_shards e)) a" "host_at e' a = tget (all_hosts (eg_shards e')) a"
    using shards_ok_tget [OF shards] shards_ok_tget [OF oks] by (simp_all add: host_at_def)
  have late: "sent (not_of a) (ty_channels y) (eg_out e')"
    by (rule sent_trans [OF sent_mono [OF late(1)] sent_mono [OF late(2)]]) (auto dest: of_host_target)
  show ?thesis
  proof (cases "host_at e a")
    case None
    then have out: "a \<notin> fst ` set (all_hosts (eg_shards e))" using at by (simp add: tget_None_iff)
    moreover have "fst ` set (all_hosts (eg_shards e')) \<subseteq> fst ` set (all_hosts (eg_shards e))" using sc by (simp add: scanned_def)
    ultimately have "host_at e' a = None" unfolding at tget_None_iff by blast
    moreover have "sent (not_of a) (eg_out e) (ty_channels y)" using sc out unfolding scanned_def by (blast intro: sent_others)
    ultimately show ?thesis using absent None sent_trans [OF _ late] by blast
  next
    case (Some hs)
    then have "tget (all_hosts (eg_shards e)) a = Some hs" using at by simp
    then obtain sr and y0 :: tally where "tget (all_hosts (eg_shards e')) a = fst (scan_host (tick_of cfg now e) sr a hs y0)"
      "sent (not_of a) (eg_out e) (ty_channels y0)"
      "sent (not_of a) (ty_channels (snd (scan_host (tick_of cfg now e) sr a hs y0))) (ty_channels y)"
      using sc unfolding scanned_def by blast
    then show ?thesis using present [OF Some] at(2) sent_trans [OF _ late] by simp
  qed
qed

lemma tick_ok:
  assumes ok: "engine_ok e"
  shows "engine_ok (fst (eval_tick cfg now e))"
proof -
  let ?e = "fst (eval_tick cfg now e)"
  obtain y :: tally and c where st: "shards_ok (eg_shards ?e)" "groups_tracked c (eg_groups ?e)" "table_ok (eg_groups ?e)"
    "carpets_tracked (eg_out ?e) (eg_carpets ?e)" "sent (\<lambda>e. ev_scope e = ScopePrefix) c (eg_out ?e)"
    using tick_stages_ok [OF ok refl] by metis
  have "groups_tracked (eg_out ?e) (eg_groups ?e)" by (rule tracked_sent(2) [OF st(2) sent_mono [OF st(5)]]) auto
  moreover have "host_tracked (eg_out ?e) a (host_at ?e a)" for a
  proof (rule tick_host_cases [OF ok refl, where cfg = cfg and now = now and a = a])
    assume "host_at e a = None" "host_at ?e a = None" "sent (not_of a) (eg_out e) (eg_out ?e)"
    then show ?thesis using ok tracked_sent(1) by (metis engine_ok_def)
  next
    fix hs sr and y :: tally assume h: "host_at e a = Some hs" "host_at ?e a = fst (scan_host (tick_of cfg now e) sr a hs y)"
      "sent (not_of a) (eg_out e) (ty_channels y)"
      "sent (not_of a) (ty_channels (snd (scan_host (tick_of cfg now e) sr a hs y))) (eg_out ?e)"
    have "host_tracked (ty_channels y) a (Some hs)" using ok h(1,3) tracked_sent(1) by (metis engine_ok_def)
    then show ?thesis using scan_host_log h(2) tracked_sent(1) [OF _ h(4)] by metis
  qed
  ultimately show ?thesis using st by (simp add: engine_ok_def)
qed

end
