(* ===== verification/Detection.thy ===== *)
theory Detection
  imports EngineInv
begin

text \<open>
  What a tick decides about a host. \<open>judged_step\<close> is the abstract machine of one direction of one host
  (start, hold, hysteresis tail, end); a tick of the engine makes exactly one of its steps for every
  host whose rates are judged, and ends the attacks of every other host. The theorems about reachable
  engines follow: the lifecycle log, detection within one tick, the end of an attack, eviction.
\<close>

section \<open>The abstract machine of one direction\<close>

inductive judged_step :: "tick \<Rightarrow> group \<Rightarrow> addr \<Rightarrow> nat \<Rightarrow> rates \<Rightarrow> baseline_state \<Rightarrow> attack_state \<Rightarrow> event list \<Rightarrow> attack_state \<Rightarrow> bool"
  for t g a d r b where
  starts: "\<not> at_in st \<Longrightarrow> thresholds_for g d = Some th \<Longrightarrow> eff = effective_thresholds th b (g_baseline g) (tk_sec t) \<Longrightarrow>
    evaluate r eff = Some (m, x, l) \<Longrightarrow> st' = begin_attack m l eff (tk_now t) ident r st \<Longrightarrow>
    judged_step t g a d r b st [host_event a g d (started_event st' x r (tk_now t) sample why)] st'"
| held: "at_in st \<Longrightarrow> thresholds_for g d = Some th \<Longrightarrow> evaluate r (at_eff st) = Some hit \<Longrightarrow>
    judged_step t g a d r b st [] (hold_attack r st)"
| below: "at_in st \<Longrightarrow> thresholds_for g d = Some th \<Longrightarrow> evaluate r (at_eff st) = None \<Longrightarrow>
    \<not> tail_over (tk_hysteresis t) (tk_now t) (fall_below (tk_now t) st) \<Longrightarrow>
    judged_step t g a d r b st [] (fall_below (tk_now t) st)"
| over: "at_in st \<Longrightarrow> thresholds_for g d = Some th \<Longrightarrow> evaluate r (at_eff st) = None \<Longrightarrow>
    tail_over (tk_hysteresis t) (tk_now t) (fall_below (tk_now t) st) \<Longrightarrow> \<not> at_in st' \<Longrightarrow>
    judged_step t g a d r b st [host_event a g d (ended_event (close_attack r (fall_below (tk_now t) st)) r (tk_now t))] st'"
| off: "at_in st \<Longrightarrow> thresholds_for g d = None \<Longrightarrow> \<not> at_in st' \<Longrightarrow>
    judged_step t g a d r b st [host_event a g d (ended_event (close_attack r st) r (tk_now t))] st'"
| quiet: "\<not> at_in st \<Longrightarrow> (\<And>th. thresholds_for g d = Some th \<Longrightarrow> evaluate r (effective_thresholds th b (g_baseline g) (tk_sec t)) = None) \<Longrightarrow>
    \<not> at_in st' \<Longrightarrow> judged_step t g a d r b st [] st'"

inductive_cases judged_idle: "judged_step t g a d r b st [] st'"
inductive_cases judged_event: "judged_step t g a d r b st (e # es) st'"

lemma close_attack_idle [simp]: "\<not> at_in (close_attack r st)"
  by (simp add: close_attack_def)

lemma end_attack_step:
  "events_of (snd (end_attack a g d r now (hs, c))) = events_of c @ [host_event a g d (ended_event (close_attack r (hs_attacks hs d)) r now)]"
  "hs_attacks (fst (end_attack a g d r now (hs, c))) d = close_attack r (hs_attacks hs d)"
  "hs_base (fst (end_attack a g d r now (hs, c))) = hs_base hs" "hs_ring (fst (end_attack a g d r now (hs, c))) = hs_ring hs"
  "hs_seen (fst (end_attack a g d r now (hs, c))) = hs_seen hs"
  by (simp_all add: end_attack_def Let_def)

lemma host_starts_step:
  "\<exists>ident sample why. events_of (snd (host_starts t sr a g d r th eff (m, x, l) (hs, c))) = events_of c
      @ [host_event a g d (started_event (begin_attack m l eff (tk_now t) ident r (hs_attacks hs d)) x r (tk_now t) sample why)]
   \<and> hs_attacks (fst (host_starts t sr a g d r th eff (m, x, l) (hs, c))) d = begin_attack m l eff (tk_now t) ident r (hs_attacks hs d)"
  "hs_base (fst (host_starts t sr a g d r th eff (m, x, l) (hs, c))) = hs_base hs"
  "hs_ring (fst (host_starts t sr a g d r th eff (m, x, l) (hs, c))) = hs_ring hs"
  "hs_seen (fst (host_starts t sr a g d r th eff (m, x, l) (hs, c))) = hs_seen hs"
  by (auto simp: host_starts_def Let_def split: prod.split)

text \<open>What stays of a host when one direction is judged.\<close>

definition host_frame :: "host_state \<Rightarrow> host_state \<Rightarrow> bool" where
  "host_frame hs hs' \<longleftrightarrow> hs_ring hs' = hs_ring hs \<and> hs_seen hs' = hs_seen hs"

lemma host_direction_step:
  "\<exists>es. events_of (snd (fst (host_direction t sr a g r d x))) = events_of (snd (fst x)) @ es
     \<and> judged_step t g a d (r d) (hs_base (fst (fst x)) d) (hs_attacks (fst (fst x)) d) es
         (hs_attacks (fst (fst (host_direction t sr a g r d x))) d)
     \<and> host_frame (fst (fst x)) (fst (fst (host_direction t sr a g r d x)))
     \<and> (\<forall>d'. d' \<noteq> d \<longrightarrow> hs_base (fst (fst (host_direction t sr a g r d x))) d' = hs_base (fst (fst x)) d')"
proof -
  obtain hs c n where x: "x = ((hs, c), n)" by (metis prod.exhaust)
  show ?thesis
  proof (cases "thresholds_for g d")
    case None
    then show ?thesis
      by (cases "at_in (hs_attacks hs d)")
        (auto simp: x host_direction_judged end_one_def end_attack_step host_frame_def intro: off quiet)
  next
    case (Some th)
    show ?thesis
    proof (cases rule: host_judged_cases [of hs d "r d" th g t sr a c])
      case (starts hit)
      obtain m y l where hit: "hit = (m, y, l)" by (cases hit)
      note st = host_starts_step [of t sr a g d "r d" th "effective_thresholds th (hs_base hs d) (g_baseline g) (tk_sec t)" m y l hs c]
      obtain ident sample why where "events_of (snd (host_starts t sr a g d (r d) th (effective_thresholds th (hs_base hs d) (g_baseline g) (tk_sec t)) (m, y, l) (hs, c))) = events_of c
          @ [host_event a g d (started_event (begin_attack m l (effective_thresholds th (hs_base hs d) (g_baseline g) (tk_sec t)) (tk_now t) ident (r d) (hs_attacks hs d)) y (r d) (tk_now t) sample why)]"
        "hs_attacks (fst (host_starts t sr a g d (r d) th (effective_thresholds th (hs_base hs d) (g_baseline g) (tk_sec t)) (m, y, l) (hs, c))) d
          = begin_attack m l (effective_thresholds th (hs_base hs d) (g_baseline g) (tk_sec t)) (tk_now t) ident (r d) (hs_attacks hs d)"
        using st(1) by blast
      then show ?thesis using starts Some hit st(2-)
        by (auto simp: x host_direction_judged host_frame_def host_learns_def intro!: judged_step.starts)
    next
      case (over)
      then show ?thesis using Some
        by (auto simp: x host_direction_judged end_attack_step host_frame_def host_learns_def fun_upd_same intro!: judged_step.over)
    next
      case (held hit)
      then show ?thesis using Some
        by (auto simp: x host_direction_judged host_frame_def host_learns_def intro: judged_step.held)
    next
      case below
      then show ?thesis using Some
        by (auto simp: x host_direction_judged host_frame_def host_learns_def intro: judged_step.below)
    next
      case quiet
      then show ?thesis using Some
        by (auto simp: x host_direction_judged host_frame_def host_learns_def intro!: judged_step.quiet)
    qed
  qed
qed

lemma host_event_key: "host_key a d (host_event a g d (started_event st x r now sample why))"
  "host_key a d (host_event a g d (ended_event st r now))"
  by (simp_all add: host_key_def host_event_def started_event_def ended_event_def event_zero_def)

lemma judged_step_key: "judged_step t g a d r b st es st' \<Longrightarrow> \<forall>e \<in> set es. host_key a d e"
  by (induction rule: judged_step.induct) (simp_all add: host_event_key)

lemma attack_in_simps [simp]: "at_in (hold_attack r st) = at_in st" "at_in (fall_below now st) = at_in st"
  by (simp_all add: hold_attack_def fall_below_def)

lemma judged_step_out: "judged_step t g a d r b st es st' \<Longrightarrow> \<not> at_in st' \<Longrightarrow> judged_step t g a d r b st es attack_idle"
  by (induction rule: judged_step.induct) (auto intro: judged_step.intros)

lemma host_key_other: "d \<in> set dirs \<Longrightarrow> d' \<in> set dirs \<Longrightarrow> d' \<noteq> d \<Longrightarrow> host_key a d' e \<Longrightarrow> \<not> host_key a d e"
  using ending.keys by blast

lemma filter_keys: "\<forall>e \<in> set es. host_key a d e \<Longrightarrow> filter (host_key a d) es = es"
  "\<forall>e \<in> set es. host_key a d' e \<Longrightarrow> d \<in> set dirs \<Longrightarrow> d' \<in> set dirs \<Longrightarrow> d' \<noteq> d \<Longrightarrow> filter (host_key a d) es = []"
  using host_key_other by (auto simp: filter_id_conv filter_empty_conv)

lemma dir_neq [simp]: "dir_in \<noteq> dir_out" "dir_out \<noteq> dir_in"
  by (simp_all add: dir_in_def dir_out_def)

text \<open>Both directions of a judged host.\<close>

lemma both_directions:
  assumes d: "d \<in> set dirs"
  shows "\<exists>es. filter (host_key a d) (events_of (snd (fst (fold (host_direction t sr a g r) dirs x))))
      = filter (host_key a d) (events_of (snd (fst x))) @ es
    \<and> judged_step t g a d (r d) (hs_base (fst (fst x)) d) (hs_attacks (fst (fst x)) d) es
        (hs_attacks (fst (fst (fold (host_direction t sr a g r) dirs x))) d)
    \<and> host_frame (fst (fst x)) (fst (fst (fold (host_direction t sr a g r) dirs x)))"
proof -
  let ?x1 = "host_direction t sr a g r dir_in x" and ?x2 = "host_direction t sr a g r dir_out (host_direction t sr a g r dir_in x)"
  obtain es1 where one: "events_of (snd (fst ?x1)) = events_of (snd (fst x)) @ es1"
    "judged_step t g a dir_in (r dir_in) (hs_base (fst (fst x)) dir_in) (hs_attacks (fst (fst x)) dir_in) es1 (hs_attacks (fst (fst ?x1)) dir_in)"
    "host_frame (fst (fst x)) (fst (fst ?x1))" "hs_base (fst (fst ?x1)) dir_out = hs_base (fst (fst x)) dir_out"
    using host_direction_step [of t sr a g r dir_in x] dir_neq by blast
  obtain es2 where two: "events_of (snd (fst ?x2)) = events_of (snd (fst ?x1)) @ es2"
    "judged_step t g a dir_out (r dir_out) (hs_base (fst (fst ?x1)) dir_out) (hs_attacks (fst (fst ?x1)) dir_out) es2 (hs_attacks (fst (fst ?x2)) dir_out)"
    "host_frame (fst (fst ?x1)) (fst (fst ?x2))"
    using host_direction_step [of t sr a g r dir_out ?x1] by blast
  note keys = judged_step_key [OF one(2)] judged_step_key [OF two(2)]
  have frames: "hs_attacks (fst (fst ?x1)) dir_out = hs_attacks (fst (fst x)) dir_out"
    "hs_attacks (fst (fst ?x2)) dir_in = hs_attacks (fst (fst ?x1)) dir_in" by (rule judged.frame; simp)+
  have fold: "fold (host_direction t sr a g r) dirs x = ?x2" by simp
  have frame: "host_frame (fst (fst x)) (fst (fst ?x2))" using one(3) two(3) by (simp add: host_frame_def)
  show ?thesis
  proof (cases "d = dir_in")
    case True
    then show ?thesis unfolding fold using one(1,2) two(1) frames(2) frame filter_keys(1) [OF keys(1)] filter_keys(2) [OF keys(2), of dir_in]
      by (intro exI [of _ es1]) simp
  next
    case False
    then have "d = dir_out" using d by simp
    then show ?thesis unfolding fold using one(1,4) two(1,2) frames(1) frame filter_keys(1) [OF keys(2)] filter_keys(2) [OF keys(1), of dir_out]
      by (intro exI [of _ es2]) simp
  qed
qed

lemma evict_att:
  "att_of (fst (evict_or_track t ok hs y)) d = hs_attacks hs d \<or>
   att_of (fst (evict_or_track t ok hs y)) d = attack_idle \<and> (d \<in> set dirs \<longrightarrow> \<not> at_in (hs_attacks hs d))"
  by (auto simp: evict_or_track_def att_of_def in_any_attack_def)

lemma scan_judged:
  assumes j: "judged_host (tk_cfg t) a" and d: "d \<in> set dirs"
  shows "\<exists>es. filter (host_key a d) (events_of (ty_channels (snd (scan_host t sr a hs y)))) = filter (host_key a d) (events_of (ty_channels y)) @ es
    \<and> judged_step t (group_for (tk_cfg t) a) a d (host_rates t hs d) (hs_base hs d) (hs_attacks hs d) es (att_of (fst (scan_host t sr a hs y)) d)"
proof (cases rule: scan_host_cases [of t a hs y sr])
  case (policy y1)
  then show ?thesis using j by simp
next
  case (judged y1 n)
  let ?x = "fold (host_direction t sr a (group_for (tk_cfg t) a) (host_rates t hs)) dirs ((hs, ty_channels y), n)"
  obtain es where es: "filter (host_key a d) (events_of (snd (fst ?x))) = filter (host_key a d) (events_of (ty_channels y)) @ es"
    "judged_step t (group_for (tk_cfg t) a) a d (host_rates t hs d) (hs_base hs d) (hs_attacks hs d) es (hs_attacks (fst (fst ?x)) d)"
    using both_directions [OF d, of a t sr "group_for (tk_cfg t) a" "host_rates t hs" "((hs, ty_channels y), n)"] by auto
  have "judged_step t (group_for (tk_cfg t) a) a d (host_rates t hs d) (hs_base hs d) (hs_attacks hs d) es (att_of (fst (scan_host t sr a hs y)) d)"
    using evict_att [of t "host_data t hs" "fst (fst ?x)" y1 d] es(2) judged_step_out [OF es(2)] d judged(3) by auto
  then show ?thesis using es(1) judged(2,3) by auto
qed

text \<open>A host that is not judged leaves every attack it is in.\<close>

lemma end_both_step:
  assumes d: "d \<in> set dirs"
  shows "filter (host_key a d) (events_of (snd (end_both a g r now (hs, c)))) = filter (host_key a d) (events_of c)
      @ (if at_in (hs_attacks hs d) then [host_event a g d (ended_event (close_attack (r d) (hs_attacks hs d)) (r d) now)] else [])
    \<and> \<not> at_in (hs_attacks (fst (end_both a g r now (hs, c))) d)
    \<and> host_frame hs (fst (end_both a g r now (hs, c)))"
proof -
  have one: "events_of (snd (end_one a g r now d' s)) = events_of (snd s)
      @ (if at_in (hs_attacks (fst s) d') then [host_event a g d' (ended_event (close_attack (r d') (hs_attacks (fst s) d')) (r d') now)] else [])
    \<and> \<not> at_in (hs_attacks (fst (end_one a g r now d' s)) d') \<and> host_frame (fst s) (fst (end_one a g r now d' s))" for d' s
    by (cases s) (simp add: end_one_def end_attack_step host_frame_def)
  let ?s1 = "end_one a g r now dir_in (hs, c)"
  have frames: "hs_attacks (fst ?s1) dir_out = hs_attacks hs dir_out"
    "hs_attacks (fst (end_one a g r now dir_out ?s1)) dir_in = hs_attacks (fst ?s1) dir_in"
    using ending.frame [of dir_out dir_in a g r now "(hs, c)"] ending.frame [of dir_in dir_out a g r now ?s1] by simp_all
  have no: "\<not> host_key a dir_in (host_event a g dir_out (ended_event st x now))" "\<not> host_key a dir_out (host_event a g dir_in (ended_event st x now))" for st x
    using dir_name_inj [of dir_in dir_out] by (auto simp: host_key_def host_event_def)
  have "d = dir_in \<or> d = dir_out" using d by simp
  then show ?thesis unfolding end_both_fold
    using one [of dir_in "(hs, c)"] one [of dir_out ?s1] frames by (auto simp: no host_event_key host_frame_def)
qed

lemma scan_policy:
  assumes j: "\<not> judged_host (tk_cfg t) a" and d: "d \<in> set dirs"
  shows "filter (host_key a d) (events_of (ty_channels (snd (scan_host t sr a hs y)))) = filter (host_key a d) (events_of (ty_channels y))
      @ (if at_in (hs_attacks hs d) then [host_event a (group_for (tk_cfg t) a) d
           (ended_event (close_attack (host_rates t hs d) (hs_attacks hs d)) (host_rates t hs d) (tk_now t))] else [])
    \<and> \<not> at_in (att_of (fst (scan_host t sr a hs y)) d)"
proof (cases rule: scan_host_cases [of t a hs y sr])
  case (policy y1)
  let ?s = "end_both a (group_for (tk_cfg t) a) (host_rates t hs) (tk_now t) (hs, ty_channels y)"
  show ?thesis using end_both_step [OF d, of a "group_for (tk_cfg t) a" "host_rates t hs" "tk_now t" hs "ty_channels y"] policy
    evict_att [of t "host_data t hs" "fst ?s" y1 d] by auto
next
  case (judged y1 n)
  then show ?thesis using j by simp
qed

section \<open>Reachable engines\<close>

text \<open>Flows, ticks under any configuration, and a consumer taking events off either channel.\<close>

inductive engine_step :: "engine \<Rightarrow> engine \<Rightarrow> bool" where
  flow: "engine_step e (process cfg now f e)"
| eval: "engine_step e (fst (eval_tick cfg now e))"
| take_event: "ch_events (eg_out e) = ev # rest \<Longrightarrow> engine_step e (e \<lparr> eg_out := (eg_out e) \<lparr> ch_events := rest \<rparr> \<rparr>)"
| take_ongoing: "ch_ongoing (eg_out e) = ev # rest \<Longrightarrow> engine_step e (e \<lparr> eg_out := (eg_out e) \<lparr> ch_ongoing := rest \<rparr> \<rparr>)"

inductive engine_reach :: "engine \<Rightarrow> bool" where
  init: "engine_reach (new_engine sc window cap en ids)"
| step: "engine_reach e \<Longrightarrow> engine_step e e' \<Longrightarrow> engine_reach e'"

lemma new_engine_ok: "engine_ok (new_engine sc window cap en ids)"
proof -
  let ?e = "new_engine sc window cap en ids"
  have none: "host_at ?e a = None" for a by (simp add: host_at_def new_engine_def Let_def)
  have "events_of (eg_out ?e) = []" by (simp add: events_of_def new_engine_def Let_def)
  then show ?thesis using none
    by (simp add: engine_ok_def host_tracked_def att_of_def groups_tracked_def group_tracked_def group_att_def carpets_tracked_def carpet_att_def)
      (simp add: new_engine_def Let_def shards_ok_def)
qed

lemma same_detection_ok: "same_detection e e' \<Longrightarrow> engine_ok e \<Longrightarrow> engine_ok e'"
  by (simp add: same_detection_def engine_ok_def host_tracked_def)

lemma taken_ok:
  assumes "engine_ok e" "events_of c = events_of (eg_out e)"
  shows "engine_ok (e \<lparr> eg_out := c \<rparr>)"
  using assms by (simp add: engine_ok_def host_tracked_def host_at_def groups_tracked_def group_tracked_def carpets_tracked_def)

lemma step_ok: "engine_step e e' \<Longrightarrow> engine_ok e \<Longrightarrow> engine_ok e'"
  by (induction rule: engine_step.induct) (auto intro: same_detection_ok [OF process_same] tick_ok taken_ok simp: events_of_def)

lemma reach_ok: "engine_reach e \<Longrightarrow> engine_ok e"
  by (induction rule: engine_reach.induct) (auto intro: new_engine_ok step_ok)

section \<open>A tick and one host\<close>

definition logged :: "addr \<Rightarrow> nat \<Rightarrow> engine \<Rightarrow> event list" where
  "logged a d e = filter (host_key a d) (events_of (eg_out e))"

lemma logged_sent: "sent (not_of a) (eg_out e) c \<Longrightarrow> d \<in> set dirs \<Longrightarrow> filter (host_key a d) (events_of c) = logged a d e"
  unfolding logged_def by (erule sent_filter) (auto simp: of_host_def)

lemma sent_logged: "sent (not_of a) c (eg_out e) \<Longrightarrow> d \<in> set dirs \<Longrightarrow> logged a d e = filter (host_key a d) (events_of c)"
  unfolding logged_def by (erule sent_filter) (auto simp: of_host_def)

lemma tick_cfg [simp]: "tk_cfg (tick_of cfg now e) = cfg" "tk_now (tick_of cfg now e) = now" "tk_window (tick_of cfg now e) = eg_window e"
  "tk_sec (tick_of cfg now e) = now div second" "tk_hysteresis (tick_of cfg now e) = unban_hysteresis (c_ban cfg)"
  by (simp_all add: tick_of_def tk_sec_def tk_hysteresis_def)

lemma tick_judged:
  assumes ok: "engine_ok e" and h: "host_at e a = Some hs" and j: "judged_host cfg a" and d: "d \<in> set dirs"
  shows "\<exists>es. logged a d (fst (eval_tick cfg now e)) = logged a d e @ es
    \<and> judged_step (tick_of cfg now e) (group_for cfg a) a d (host_rates (tick_of cfg now e) hs d) (hs_base hs d) (hs_attacks hs d) es
        (att_of (host_at (fst (eval_tick cfg now e)) a) d)"
proof (rule tick_host_cases [OF ok refl, where cfg = cfg and now = now and a = a])
  fix hs' sr and y :: tally assume p: "host_at e a = Some hs'" "host_at (fst (eval_tick cfg now e)) a = fst (scan_host (tick_of cfg now e) sr a hs' y)"
    "sent (not_of a) (eg_out e) (ty_channels y)"
    "sent (not_of a) (ty_channels (snd (scan_host (tick_of cfg now e) sr a hs' y))) (eg_out (fst (eval_tick cfg now e)))"
  have "hs' = hs" using p(1) h by simp
  then show ?thesis using scan_judged [of "tick_of cfg now e" a d sr hs y] j d p(2) logged_sent [OF p(3) d] sent_logged [OF p(4) d]
    by auto
qed (use h in auto)

lemma tick_unjudged:
  assumes ok: "engine_ok e" and h: "host_at e a = Some hs" and j: "\<not> judged_host cfg a" and d: "d \<in> set dirs"
  shows "logged a d (fst (eval_tick cfg now e)) = logged a d e
      @ (if at_in (hs_attacks hs d) then [host_event a (group_for cfg a) d
           (ended_event (close_attack (host_rates (tick_of cfg now e) hs d) (hs_attacks hs d)) (host_rates (tick_of cfg now e) hs d) now)] else [])
    \<and> \<not> at_in (att_of (host_at (fst (eval_tick cfg now e)) a) d)"
proof (rule tick_host_cases [OF ok refl, where cfg = cfg and now = now and a = a])
  fix hs' sr and y :: tally assume p: "host_at e a = Some hs'" "host_at (fst (eval_tick cfg now e)) a = fst (scan_host (tick_of cfg now e) sr a hs' y)"
    "sent (not_of a) (eg_out e) (ty_channels y)"
    "sent (not_of a) (ty_channels (snd (scan_host (tick_of cfg now e) sr a hs' y))) (eg_out (fst (eval_tick cfg now e)))"
  have "hs' = hs" using p(1) h by simp
  then show ?thesis using scan_policy [of "tick_of cfg now e" a d sr hs y] j d p(2) logged_sent [OF p(3) d] sent_logged [OF p(4) d]
    by simp
qed (use h in auto)

lemma tick_absent:
  assumes ok: "engine_ok e" and h: "host_at e a = None" and d: "d \<in> set dirs"
  shows "logged a d (fst (eval_tick cfg now e)) = logged a d e \<and> host_at (fst (eval_tick cfg now e)) a = None"
proof (rule tick_host_cases [OF ok refl, where cfg = cfg and now = now and a = a])
  assume "host_at (fst (eval_tick cfg now e)) a = None" "sent (not_of a) (eg_out e) (eg_out (fst (eval_tick cfg now e)))"
  then show ?thesis using logged_sent [OF _ d] by (simp add: logged_def)
qed (use h in auto)

text \<open>Eviction looks at the host the tick leaves.\<close>

lemma fold_host_frame: "host_frame (fst (fst x)) (fst (fst (fold (host_direction t sr a g r) dirs x)))"
  using both_directions [of dir_in a t sr g r x] by auto

lemma end_both_frame: "host_frame hs (fst (end_both a g r now (hs, c)))"
  using end_both_step [of dir_in a g r now hs c] by auto

lemma tick_keeps:
  assumes ok: "engine_ok e" and h: "host_at e a = Some hs"
  shows "case host_at (fst (eval_tick cfg now e)) a of
     None \<Rightarrow> \<not> host_data (tick_of cfg now e) hs \<and> hs_seen hs < now div second - eg_window e
   | Some hs' \<Rightarrow> host_frame hs hs' \<and> (in_any_attack hs' \<or> host_data (tick_of cfg now e) hs \<or> now div second - eg_window e \<le> hs_seen hs)"
proof (rule tick_host_cases [OF ok refl, where cfg = cfg and now = now and a = a])
  fix hs' sr and y :: tally assume p: "host_at e a = Some hs'" "host_at (fst (eval_tick cfg now e)) a = fst (scan_host (tick_of cfg now e) sr a hs' y)"
  have hs: "hs' = hs" using p(1) h by simp
  have evict: "case fst (evict_or_track (tick_of cfg now e) (host_data (tick_of cfg now e) hs) k z) of
     None \<Rightarrow> \<not> host_data (tick_of cfg now e) hs \<and> hs_seen hs < now div second - eg_window e
   | Some hs' \<Rightarrow> host_frame hs hs' \<and> (in_any_attack hs' \<or> host_data (tick_of cfg now e) hs \<or> now div second - eg_window e \<le> hs_seen hs)"
    if "host_frame hs k" for k z
    using that by (auto simp: evict_or_track_def host_frame_def)
  have "case fst (scan_host (tick_of cfg now e) sr a hs y) of
     None \<Rightarrow> \<not> host_data (tick_of cfg now e) hs \<and> hs_seen hs < now div second - eg_window e
   | Some hs' \<Rightarrow> host_frame hs hs' \<and> (in_any_attack hs' \<or> host_data (tick_of cfg now e) hs \<or> now div second - eg_window e \<le> hs_seen hs)"
  proof (cases rule: scan_host_cases [of "tick_of cfg now e" a hs y sr])
    case (policy y1)
    show ?thesis unfolding policy(3) by (rule evict [OF end_both_frame])
  next
    case (judged y1 n)
    show ?thesis unfolding judged(3) by (rule evict) (use fold_host_frame [of "((hs, ty_channels y), n)"] in simp)
  qed
  then show ?thesis unfolding p(2) hs .
qed (use h in auto)

section \<open>An attack whose traffic stays below its thresholds\<close>

text \<open>A tick that finds the attack, if it is still on, below the thresholds frozen at its start.\<close>

definition calm_tick :: "addr \<Rightarrow> nat \<Rightarrow> int \<Rightarrow> config \<Rightarrow> nanos \<Rightarrow> engine \<Rightarrow> bool" where
  "calm_tick a d h cfg now e \<longleftrightarrow> unban_hysteresis (c_ban cfg) \<le> h \<and> (case host_at e a of None \<Rightarrow> True
     | Some hs \<Rightarrow> judged_host cfg a \<longrightarrow> at_in (hs_attacks hs d) \<longrightarrow>
         evaluate (host_rates (tick_of cfg now e) hs d) (at_eff (hs_attacks hs d)) = None)"

inductive calm_run :: "addr \<Rightarrow> nat \<Rightarrow> int \<Rightarrow> engine \<Rightarrow> engine \<Rightarrow> bool" for a d h e0 where
  calm_refl: "calm_run a d h e0 e0"
| calm_flow: "calm_run a d h e0 e \<Longrightarrow> calm_run a d h e0 (process cfg now f e)"
| calm_eval: "calm_run a d h e0 e \<Longrightarrow> calm_tick a d h cfg now e \<Longrightarrow> calm_run a d h e0 (fst (eval_tick cfg now e))"

text \<open>Either the end of the attack is logged, or it is still on and below since \<open>t0\<close> at the latest.\<close>

definition winding_down :: "addr \<Rightarrow> nat \<Rightarrow> string \<Rightarrow> nanos \<Rightarrow> engine \<Rightarrow> bool" where
  "winding_down a d i t0 e \<longleftrightarrow> (\<exists>ev \<in> set (logged a d e). ev_kind ev = AttackEnded \<and> ev_id ev = i)
     \<or> at_in (att_of (host_at e a) d) \<and> at_id (att_of (host_at e a) d) = i
        \<and> at_below (att_of (host_at e a) d) \<noteq> 0 \<and> at_below (att_of (host_at e a) d) \<le> t0"

lemma ended_event_fields [simp]:
  "ev_kind (host_event a g d (ended_event st r now)) = AttackEnded" "ev_id (host_event a g d (ended_event st r now)) = at_id st"
  "ev_metric (host_event a g d (ended_event st r now)) = at_metric st" "ev_threshold (host_event a g d (ended_event st r now)) = at_threshold st"
  "ev_started (host_event a g d (ended_event st r now)) = at_started st" "ev_at (host_event a g d (ended_event st r now)) = now"
  by (simp_all add: host_event_def ended_event_def event_zero_def)

lemma attack_keep [simp]:
  "at_id (hold_attack r st) = at_id st" "at_id (fall_below now st) = at_id st" "at_id (close_attack r st) = at_id st"
  "at_metric (fall_below now st) = at_metric st" "at_metric (close_attack r st) = at_metric st"
  "at_threshold (fall_below now st) = at_threshold st" "at_threshold (close_attack r st) = at_threshold st"
  "at_started (fall_below now st) = at_started st" "at_started (close_attack r st) = at_started st"
  "at_eff (fall_below now st) = at_eff st"
  by (simp_all add: hold_attack_def fall_below_def close_attack_def)

lemma fall_below_since: "at_below (fall_below now st) = (if at_below st = 0 then now else at_below st)"
  by (simp add: fall_below_def is_zero_time_def)

text \<open>A calm tick ends the attack, or leaves it in its hysteresis tail.\<close>

lemma calm_tick_cases:
  assumes ok: "engine_ok e" and c: "calm_tick a d h cfg now e" and d: "d \<in> set dirs"
    and inn: "at_in (att_of (host_at e a) d)"
  obtains (ends) ev where "ev \<in> set (logged a d (fst (eval_tick cfg now e)))" "ev_kind ev = AttackEnded" "ev_id ev = at_id (att_of (host_at e a) d)"
  | (tail) "att_of (host_at (fst (eval_tick cfg now e)) a) d = fall_below now (att_of (host_at e a) d)"
      "\<not> tail_over (unban_hysteresis (c_ban cfg)) now (fall_below now (att_of (host_at e a) d))"
proof -
  obtain hs where hs: "host_at e a = Some hs" using inn by (cases "host_at e a") (simp_all add: att_of_def)
  then have a: "at_in (hs_attacks hs d)" "att_of (host_at e a) d = hs_attacks hs d" using inn by (simp_all add: att_of_def)
  have endsI: thesis if "logged a d (fst (eval_tick cfg now e)) = logged a d e @ [ev]" "ev_kind ev = AttackEnded" "ev_id ev = at_id (hs_attacks hs d)" for ev
    by (rule ends [of ev]) (use that a in simp_all)
  show ?thesis
  proof (cases "judged_host cfg a")
    case False
    then show ?thesis using endsI tick_unjudged [OF ok hs False d, of now] a by simp
  next
    case True
    obtain es where es: "logged a d (fst (eval_tick cfg now e)) = logged a d e @ es"
      "judged_step (tick_of cfg now e) (group_for cfg a) a d (host_rates (tick_of cfg now e) hs d) (hs_base hs d) (hs_attacks hs d) es
        (att_of (host_at (fst (eval_tick cfg now e)) a) d)" using tick_judged [OF ok hs True d] by blast
    have none: "evaluate (host_rates (tick_of cfg now e) hs d) (at_eff (hs_attacks hs d)) = None" using c hs True a by (simp add: calm_tick_def)
    from es(2) show ?thesis
    proof (cases rule: judged_step.cases)
      case (over th)
      then show ?thesis using endsI es(1) by simp
    next
      case off
      then show ?thesis using endsI es(1) by simp
    next
      case (below th)
      then show ?thesis using tail a by simp
    qed (use a none in auto)
  qed
qed

lemma logged_grows: "engine_ok e \<Longrightarrow> d \<in> set dirs \<Longrightarrow> \<exists>es. logged a d (fst (eval_tick cfg now e)) = logged a d e @ es"
  using tick_judged tick_unjudged tick_absent by (cases "host_at e a"; cases "judged_host cfg a") (metis append_Nil2)+

lemma winding_tick:
  assumes ok: "engine_ok e" and c: "calm_tick a d h cfg now e" and d: "d \<in> set dirs" and w: "winding_down a d i t0 e"
  shows "winding_down a d i t0 (fst (eval_tick cfg now e))"
proof (cases "\<exists>ev \<in> set (logged a d e). ev_kind ev = AttackEnded \<and> ev_id ev = i")
  case True
  then show ?thesis using logged_grows [OF ok d, of a cfg now] by (auto simp: winding_down_def)
next
  case False
  then have st: "at_in (att_of (host_at e a) d)" "at_id (att_of (host_at e a) d) = i"
    "at_below (att_of (host_at e a) d) \<noteq> 0" "at_below (att_of (host_at e a) d) \<le> t0" using w by (auto simp: winding_down_def)
  show ?thesis
    by (rule calm_tick_cases [OF ok c d st(1)]) (use st in \<open>auto simp: winding_down_def fall_below_since\<close>)
qed

lemma calm_run_ok: "calm_run a d h e0 e \<Longrightarrow> engine_ok e0 \<Longrightarrow> d \<in> set dirs \<Longrightarrow> winding_down a d i t0 e0 \<Longrightarrow>
  engine_ok e \<and> winding_down a d i t0 e"
proof (induction rule: calm_run.induct)
  case (calm_flow e cfg now f)
  have same: "same_detection e (process cfg now f e)" by (rule process_same)
  then have "winding_down a d i t0 (process cfg now f e) = winding_down a d i t0 e"
    by (simp add: same_detection_def winding_down_def logged_def)
  then show ?case using calm_flow same_detection_ok [OF same] by blast
next
  case (calm_eval e cfg now)
  then show ?case using winding_tick tick_ok by blast
qed simp_all

lemma calm_attack_ends:
  assumes ok: "engine_ok e0" and d: "d \<in> set dirs" and inn: "at_in (att_of (host_at e0 a) d)"
    and past: "at_below (att_of (host_at e0 a) d) \<le> t0" "0 < t0"
    and first: "calm_tick a d h cfg0 t0 e0" and run: "calm_run a d h (fst (eval_tick cfg0 t0 e0)) e1"
    and h: "0 \<le> h" "h \<le> int64_max" and final: "calm_tick a d h cfg now e1" "t0 + h \<le> now"
  shows "\<exists>ev \<in> set (logged a d (fst (eval_tick cfg now e1))). ev_kind ev = AttackEnded \<and> ev_id ev = at_id (att_of (host_at e0 a) d)"
proof -
  let ?i = "at_id (att_of (host_at e0 a) d)"
  have "winding_down a d ?i t0 (fst (eval_tick cfg0 t0 e0))"
    by (rule calm_tick_cases [OF ok first d inn]) (use inn past in \<open>auto simp: winding_down_def fall_below_since\<close>)
  from calm_run_ok [OF run tick_ok [OF ok] d this]
  have ok1: "engine_ok e1" and w: "winding_down a d ?i t0 e1" by blast+
  show ?thesis
  proof (cases "\<exists>ev \<in> set (logged a d e1). ev_kind ev = AttackEnded \<and> ev_id ev = ?i")
    case True
    then show ?thesis using logged_grows [OF ok1 d, of a cfg now] by auto
  next
    case False
    then have st: "at_in (att_of (host_at e1 a) d)" "at_id (att_of (host_at e1 a) d) = ?i"
      "at_below (att_of (host_at e1 a) d) \<noteq> 0" "at_below (att_of (host_at e1 a) d) \<le> t0" using w by (auto simp: winding_down_def)
    have "tail_over (unban_hysteresis (c_ban cfg)) now (fall_below now (att_of (host_at e1 a) d))"
    proof -
      have "unban_hysteresis (c_ban cfg) \<le> h" using final(1) by (simp add: calm_tick_def)
      moreover have "h \<le> time_sub now (at_below (att_of (host_at e1 a) d))"
        using h st(4) final(2) by (simp add: time_sub_ge_iff int64_min_def)
      ultimately show ?thesis using st(3) by (simp add: tail_over_def fall_below_since)
    qed
    then show ?thesis by - (rule calm_tick_cases [OF ok1 final(1) d st(1)], use st(2) in auto)
  qed
qed

end
