(* ===== verification/Traffic.thy ===== *)
theory Traffic
  imports Detection
begin

text \<open>
  From flows to rates: the ledger of what the engine was told about every address, and that the rates a
  tick judges are the rates of that ledger over the window, however hosts were evicted and met again in
  between, as long as the clock does not step back.
\<close>

section \<open>The ledger\<close>

type_synonym ledger = "addr \<Rightarrow> entry list"

definition enter :: "addr \<Rightarrow> nat \<Rightarrow> flow \<Rightarrow> 64 word \<Rightarrow> int \<Rightarrow> string \<Rightarrow> ledger \<Rightarrow> ledger" where
  "enter a dir f r epoch up p = p(a := p a @ [\<lparr> en_epoch = epoch, en_dir = dir, en_flow = f, en_rate = r, en_up = up \<rparr>])"

text \<open>What a flow says: inbound about its destination, outbound about its source.\<close>

definition enter_flow :: "config \<Rightarrow> nanos \<Rightarrow> flow \<Rightarrow> ledger \<Rightarrow> ledger" where
  "enter_flow cfg now f p =
     (let epoch = now div second;
          p1 = (case inbound_rate cfg (f_exporter f) (f_in_if f) (flow_vlan f) (sample_rate f) of (r, ok) \<Rightarrow>
            if addr_valid (f_dst f) \<and> in_networks cfg (f_dst f) \<and> ok
            then enter (f_dst f) dir_in f r epoch (flow_attribution cfg f (f_in_if f)) p else p)
      in case outbound_rate cfg (f_exporter f) (f_out_if f) (flow_vlan f) (sample_rate f) of (r, ok) \<Rightarrow>
           if outgoing_enabled cfg \<and> addr_valid (f_src f) \<and> in_networks cfg (f_src f) \<and> ok
           then enter (f_src f) dir_out f r epoch (flow_attribution cfg f (f_out_if f)) p1 else p1)"

inductive traffic :: "engine \<Rightarrow> ledger \<Rightarrow> nanos \<Rightarrow> bool" where
  t_new: "0 < window \<Longrightarrow> second \<le> now \<Longrightarrow> traffic (new_engine sc window cap en ids) (\<lambda>a. []) now"
| t_flow: "traffic e p now0 \<Longrightarrow> now0 \<le> now \<Longrightarrow> traffic (process cfg now f e) (enter_flow cfg now f p) now"
| t_eval: "traffic e p now0 \<Longrightarrow> now0 \<le> now \<Longrightarrow> traffic (fst (eval_tick cfg now e)) p now"
| t_event: "traffic e p now0 \<Longrightarrow> ch_events (eg_out e) = ev # rest \<Longrightarrow> traffic (e \<lparr> eg_out := (eg_out e) \<lparr> ch_events := rest \<rparr> \<rparr>) p now0"
| t_ongoing: "traffic e p now0 \<Longrightarrow> ch_ongoing (eg_out e) = ev # rest \<Longrightarrow> traffic (e \<lparr> eg_out := (eg_out e) \<lparr> ch_ongoing := rest \<rparr> \<rparr>) p now0"

lemma traffic_reach: "traffic e p now \<Longrightarrow> engine_reach e"
  by (induction rule: traffic.induct) (auto intro: engine_reach.intros engine_step.intros)

section \<open>Every ring agrees with the ledger\<close>

definition host_agrees :: "int \<Rightarrow> entry list \<Rightarrow> int \<Rightarrow> host_state option \<Rightarrow> bool" where
  "host_agrees w past sec h \<longleftrightarrow> (\<forall>x \<in> set past. 1 \<le> en_epoch x \<and> en_epoch x \<le> sec) \<and> (case h of
     None \<Rightarrow> \<forall>x \<in> set past. en_epoch x < sec - w
   | Some hs \<Rightarrow> ring_inv past sec (hs_ring hs) \<and> length (hs_ring hs) = nat (w + 1) \<and> (\<forall>x \<in> set past. en_epoch x \<le> hs_seen hs))"

definition ledger_ok :: "engine \<Rightarrow> ledger \<Rightarrow> int \<Rightarrow> bool" where
  "ledger_ok e p sec \<longleftrightarrow> 0 < eg_window e \<and> eg_ring_size e = nat (eg_window e + 1) \<and> 1 \<le> sec
     \<and> (\<forall>a. host_agrees (eg_window e) (p a) sec (host_at e a))"

lemma host_agrees_later: "host_agrees w past sec h \<Longrightarrow> sec \<le> now \<Longrightarrow> host_agrees w past now h"
  by (fastforce simp: host_agrees_def intro: ring_inv_later split: option.splits)

text \<open>A ring without the seconds the ledger has, if those are all out of the window.\<close>

lemma fresh_ring_inv:
  assumes "0 < w" "\<forall>x \<in> set past. 1 \<le> en_epoch x \<and> en_epoch x < sec - w"
  shows "ring_inv past sec (new_ring (nat (w + 1)))"
proof -
  have "hist past 0 d = counters_zero" for d by (rule hist_absent) (use assms(2) in force)
  then show ?thesis using assms slot_less [of "new_ring (nat (w + 1))"]
    by (fastforce simp: ring_inv_def new_ring_def bucket_at_def)
qed

definition recorded :: "nat \<Rightarrow> nat \<Rightarrow> flow \<Rightarrow> 64 word \<Rightarrow> int \<Rightarrow> string \<Rightarrow> host_state option \<Rightarrow> host_state" where
  "recorded n dir f r epoch up h = (let hs = (case h of None \<Rightarrow> new_host n | Some hs \<Rightarrow> hs)
     in hs \<lparr> hs_ring := ring_record dir f r epoch up (hs_ring hs), hs_seen := epoch \<rparr>)"

lemma record_host_at:
  assumes "shards_ok (eg_shards e)"
  shows "host_at (record_flow a dir f r epoch up e) b
    = (if b = a then Some (recorded (eg_ring_size e) dir f r epoch up (host_at e a)) else host_at e b)"
proof -
  have "shard_index a < length (eg_shards e)" using assms by (simp add: shards_ok_def)
  then show ?thesis
    by (cases "shard_index b = shard_index a")
      (auto simp: host_at_def record_flow_def record_host_table table_laws recorded_def Let_def)
qed

lemma recorded_agrees:
  assumes w: "0 < w" and h: "host_agrees w past epoch h" and e: "1 \<le> epoch"
  shows "host_agrees w (past @ [\<lparr> en_epoch = epoch, en_dir = dir, en_flow = f, en_rate = r, en_up = up \<rparr>]) epoch
    (Some (recorded (nat (w + 1)) dir f r epoch up h))"
proof -
  let ?hs = "case h of None \<Rightarrow> new_host (nat (w + 1)) | Some hs \<Rightarrow> hs"
  have inv: "ring_inv past epoch (hs_ring ?hs)" "length (hs_ring ?hs) = nat (w + 1)"
    using h fresh_ring_inv [OF w, of past epoch] by (auto simp: host_agrees_def new_host_def new_ring_def split: option.splits)
  have past: "\<forall>x \<in> set past. 1 \<le> en_epoch x \<and> en_epoch x \<le> epoch" using h by (simp add: host_agrees_def)
  show ?thesis
    using record_inv [OF inv(1), of "\<lparr> en_epoch = epoch, en_dir = dir, en_flow = f, en_rate = r, en_up = up \<rparr>"] inv(2) past e
    by (auto simp: host_agrees_def recorded_def Let_def ring_record_def)
qed

lemma enter_ok:
  assumes "ledger_ok e p epoch" "shards_ok (eg_shards e)"
  shows "ledger_ok (record_flow a dir f r epoch up e) (enter a dir f r epoch up p) epoch"
  using assms recorded_agrees [of "eg_window e" "p a" epoch "host_at e a" dir f r up]
  by (auto simp: ledger_ok_def record_host_at enter_def) (simp_all add: record_flow_def)

lemma peer_ok: "ledger_ok (record_peer cfg dir f iface mac r epoch e) p sec = ledger_ok e p sec"
  by (simp add: record_peer_def ledger_ok_def host_at_def split: option.split)

lemma process_ledger:
  assumes l: "ledger_ok e p (now div second)" and ok: "shards_ok (eg_shards e)"
  shows "ledger_ok (process cfg now f e) (enter_flow cfg now f p) (now div second)"
proof -
  define e1 where "e1 = (if addr_valid (f_dst f) \<and> in_networks cfg (f_dst f) then
        (case inbound_rate cfg (f_exporter f) (f_in_if f) (flow_vlan f) (sample_rate f) of (r, ok) \<Rightarrow>
           if ok then record_peer cfg dir_in f (f_in_if f) (f_src_mac f) r (now div second)
             (record_flow (f_dst f) dir_in f r (now div second) (flow_attribution cfg f (f_in_if f)) e)
           else e)
      else e)"
  define p1 where "p1 = (case inbound_rate cfg (f_exporter f) (f_in_if f) (flow_vlan f) (sample_rate f) of (r, ok) \<Rightarrow>
      if addr_valid (f_dst f) \<and> in_networks cfg (f_dst f) \<and> ok
      then enter (f_dst f) dir_in f r (now div second) (flow_attribution cfg f (f_in_if f)) p else p)"
  have one: "ledger_ok e1 p1 (now div second)"
    using l enter_ok [OF l ok] by (auto simp: e1_def p1_def peer_ok split: prod.split)
  have "same_detection e e1"
    unfolding e1_def by (auto split: prod.split intro: same_detection_trans [OF record_flow_same record_peer_same])
  then have "shards_ok (eg_shards e1)" using ok by (simp add: same_detection_def)
  note two = enter_ok [OF one this]
  have "process cfg now f e = (if (outgoing_enabled cfg \<or> open_peering_enabled cfg) \<and> addr_valid (f_src f) \<and> in_networks cfg (f_src f) then
        (case outbound_rate cfg (f_exporter f) (f_out_if f) (flow_vlan f) (sample_rate f) of (r, ok) \<Rightarrow>
           if ok then record_peer cfg dir_out f (f_out_if f) (f_dst_mac f) r (now div second)
             (if outgoing_enabled cfg then record_flow (f_src f) dir_out f r (now div second) (flow_attribution cfg f (f_out_if f)) e1 else e1)
           else e1)
      else e1)"
    unfolding process_def Let_def e1_def by (rule refl)
  moreover have "enter_flow cfg now f p = (case outbound_rate cfg (f_exporter f) (f_out_if f) (flow_vlan f) (sample_rate f) of (r, ok) \<Rightarrow>
      if outgoing_enabled cfg \<and> addr_valid (f_src f) \<and> in_networks cfg (f_src f) \<and> ok
      then enter (f_src f) dir_out f r (now div second) (flow_attribution cfg f (f_out_if f)) p1 else p1)"
    unfolding enter_flow_def Let_def p1_def by (rule refl)
  ultimately show ?thesis using one two by (auto simp: peer_ok split: prod.split)
qed

lemma tick_size: "eg_window (fst (eval_tick cfg now e)) = eg_window e" "eg_ring_size (fst (eval_tick cfg now e)) = eg_ring_size e"
  by (auto simp: eval_tick_def Let_def publish_live_rates_def split: prod.splits option.splits)

lemma tick_ledger:
  assumes l: "ledger_ok e p (now div second)" and ok: "engine_ok e"
  shows "ledger_ok (fst (eval_tick cfg now e)) p (now div second)"
proof -
  have "host_agrees (eg_window e) (p a) (now div second) (host_at (fst (eval_tick cfg now e)) a)" for a
  proof (cases "host_at e a")
    case None
    then have "host_agrees (eg_window e) (p a) (now div second) None" using l by (metis ledger_ok_def)
    then show ?thesis using tick_absent [OF ok None, of dir_in cfg now] by simp
  next
    case (Some hs)
    have "host_agrees (eg_window e) (p a) (now div second) (Some hs)" using l Some by (metis ledger_ok_def)
    then show ?thesis using tick_keeps [OF ok Some, of cfg now]
      by (fastforce simp: host_agrees_def host_frame_def split: option.splits)
  qed
  then show ?thesis using l by (simp add: ledger_ok_def tick_size)
qed

lemma second_mono: "now0 \<le> now \<Longrightarrow> now0 div second \<le> now div second"
  by (simp add: second_def zdiv_mono1)

lemma traffic_ok: "traffic e p now \<Longrightarrow> ledger_ok e p (now div second)"
proof (induction rule: traffic.induct)
  case (t_new window now sc cap en ids)
  have "1 \<le> now div second" using second_mono [OF t_new(2)] by (simp add: second_def)
  then show ?case using t_new(1)
    by (simp add: ledger_ok_def host_agrees_def new_engine_def Let_def host_at_def nat_add_distrib)
next
  case (t_flow e p now0 now cfg f)
  have "shards_ok (eg_shards e)" using reach_ok [OF traffic_reach [OF t_flow(1)]] by (simp add: engine_ok_def)
  moreover have "ledger_ok e p (now div second)"
    using t_flow(3) host_agrees_later second_mono [OF t_flow(2)] unfolding ledger_ok_def by (meson order_trans)
  ultimately show ?case by (rule process_ledger [rotated])
next
  case (t_eval e p now0 now cfg)
  have "ledger_ok e p (now div second)"
    using t_eval(3) host_agrees_later second_mono [OF t_eval(2)] unfolding ledger_ok_def by (meson order_trans)
  then show ?case by (rule tick_ledger [OF _ reach_ok [OF traffic_reach [OF t_eval(1)]]])
qed (simp_all add: ledger_ok_def host_at_def)

section \<open>The rates a tick judges\<close>

definition ledger_rates :: "int \<Rightarrow> int \<Rightarrow> entry list \<Rightarrow> nat \<Rightarrow> rates" where
  "ledger_rates w sec past d = counter_rates (hist_window past [sec - w..sec - 1] d) (f64_of_int w)"

lemma traffic_window:
  assumes t: "traffic e p now0" "now0 \<le> now" and w: "eg_window e \<le> now div second" and d: "d \<in> set dirs"
  shows "case host_at e a of
     Some hs \<Rightarrow> host_rates (tick_of cfg now e) hs d = ledger_rates (eg_window e) (now div second) (p a) d
   | None \<Rightarrow> hist_window (p a) [now div second - eg_window e..now div second - 1] d = counters_zero"
proof -
  have l: "0 < eg_window e" "host_agrees (eg_window e) (p a) (now div second) (host_at e a)"
    using traffic_ok [OF t(1)] host_agrees_later second_mono [OF t(2)] unfolding ledger_ok_def by blast+
  show ?thesis
  proof (cases "host_at e a")
    case None
    then have "hist_window (p a) [now div second - eg_window e..now div second - 1] d = counters_zero"
      by (intro hist_window_absent) (use l(2) in \<open>auto simp: host_agrees_def\<close>)
    then show ?thesis using None by simp
  next
    case (Some hs)
    then have "ring_inv (p a) (now div second) (hs_ring hs)" "length (hs_ring hs) = nat (eg_window e + 1)"
      using l(2) by (simp_all add: host_agrees_def)
    from ring_inv_rates [OF this l(1) w] show ?thesis
      using d Some by (auto simp: host_rates_def ledger_rates_def)
  qed
qed

lemma traffic_rates:
  assumes "traffic e p now0" "now0 \<le> now" "eg_window e \<le> now div second" "d \<in> set dirs"
  shows "case host_at e a of
     Some hs \<Rightarrow> host_rates (tick_of cfg now e) hs d = ledger_rates (eg_window e) (now div second) (p a) d
   | None \<Rightarrow> ledger_rates (eg_window e) (now div second) (p a) d = counter_rates counters_zero (f64_of_int (eg_window e))"
  using traffic_window [OF assms, of a cfg] by (auto simp: ledger_rates_def split: option.splits)

lemma evaluate_loop_zero:
  "\<forall>(m, rate, limit) \<in> set ms. \<not> flt (Fin 0) (rate r) \<Longrightarrow> evaluate_loop ms r th = None"
proof (induction ms)
  case (Cons x ms)
  obtain m rate limit where x: "x = (m, rate, limit)" by (metis prod_cases3)
  have "\<not> flt (f64_of_u64 (limit th)) (rate r)"
  proof
    assume "flt (f64_of_u64 (limit th)) (rate r)"
    moreover have "fle (Fin 0) (f64_of_u64 (limit th))"
      unfolding f64_of_u64_Fin fle.simps by (intro rnd64_nonneg) (simp only: of_int_0_le_iff uint_ge_0)
    ultimately have "flt (Fin 0) (rate r)" by (cases "f64_of_u64 (limit th)"; cases "rate r") auto
    then show False using Cons.prems x by simp
  qed
  then show ?case using Cons x by simp
qed simp

lemma evaluate_zero: "evaluate (counter_rates counters_zero w) th = None"
proof -
  have "\<not> flt (Fin 0) (fdiv (Fin 0) w)" using f64_of_small [of 0] by (cases w) (auto simp: inf_of_sign_def)
  then show ?thesis unfolding evaluate_def
    using f64_of_small [of 0] by (intro evaluate_loop_zero) (simp add: metric_table_def counter_rates_def Let_def counters_zero_def f64_of_u64_Fin)
qed

text \<open>The step a judged address takes, known to the engine or not, is a step of the abstract machine on
  the rates of its ledger.\<close>

definition base_of :: "host_state option \<Rightarrow> nat \<Rightarrow> baseline_state" where
  "base_of h d = (case h of None \<Rightarrow> baseline_new | Some hs \<Rightarrow> hs_base hs d)"

lemma traffic_step:
  assumes t: "traffic e p now0" "now0 \<le> now" and w: "eg_window e \<le> now div second" and j: "judged_host cfg a" and d: "d \<in> set dirs"
  shows "\<exists>es. logged a d (fst (eval_tick cfg now e)) = logged a d e @ es
    \<and> judged_step (tick_of cfg now e) (group_for cfg a) a d (ledger_rates (eg_window e) (now div second) (p a) d)
        (base_of (host_at e a) d) (att_of (host_at e a) d) es (att_of (host_at (fst (eval_tick cfg now e)) a) d)"
proof (cases "host_at e a")
  case None
  have "ledger_rates (eg_window e) (now div second) (p a) d = counter_rates counters_zero (f64_of_int (eg_window e))"
    using traffic_rates [OF t w d, of a] None by simp
  then have "judged_step (tick_of cfg now e) (group_for cfg a) a d (ledger_rates (eg_window e) (now div second) (p a) d) b attack_idle [] attack_idle" for b
    by (intro quiet) (simp_all add: evaluate_zero)
  then show ?thesis using tick_absent [OF reach_ok [OF traffic_reach [OF t(1)]] None d, of cfg now] None by (simp add: att_of_def)
next
  case (Some hs)
  then show ?thesis using tick_judged [OF reach_ok [OF traffic_reach [OF t(1)]] Some j d, of now] traffic_rates [OF t w d, of a]
    by (simp add: base_of_def att_of_def)
qed

lemma started_event_fields [simp]:
  "ev_kind (host_event a g d (started_event st x r now sample why)) = AttackStarted"
  "ev_id (host_event a g d (started_event st x r now sample why)) = at_id st"
  "ev_metric (host_event a g d (started_event st x r now sample why)) = at_metric st"
  "ev_threshold (host_event a g d (started_event st x r now sample why)) = at_threshold st"
  "ev_rate (host_event a g d (started_event st x r now sample why)) = x"
  "ev_rates (host_event a g d (started_event st x r now sample why)) = r"
  "ev_at (host_event a g d (started_event st x r now sample why)) = now"
  "ev_target (host_event a g d ev) = a" "ev_scope (host_event a g d ev) = ScopeHost" "ev_group (host_event a g d ev) = g_name g"
  "ev_direction (host_event a g d ev) = dir_name d" "ev_ban_enabled (host_event a g d ev) = g_ban_enabled g"
  by (simp_all add: host_event_def started_event_def event_zero_def)

text \<open>Outside an attack, a passed threshold starts one.\<close>

lemma traffic_starts:
  assumes t: "traffic e p now0" "now0 \<le> now" and w: "eg_window e \<le> now div second" and j: "judged_host cfg a" and d: "d \<in> set dirs"
    and th: "thresholds_for (group_for cfg a) d = Some th" and idle: "\<not> at_in (att_of (host_at e a) d)"
    and hit: "evaluate (ledger_rates (eg_window e) (now div second) (p a) d)
      (effective_thresholds th (base_of (host_at e a) d) (g_baseline (group_for cfg a)) (now div second)) = Some (m, x, l)"
  shows "\<exists>ev. logged a d (fst (eval_tick cfg now e)) = logged a d e @ [ev] \<and> ev_kind ev = AttackStarted
    \<and> ev_metric ev = m \<and> ev_rate ev = x \<and> ev_threshold ev = l \<and> ev_at ev = now
    \<and> ev_rates ev = ledger_rates (eg_window e) (now div second) (p a) d
    \<and> ev_scope ev = ScopeHost \<and> ev_target ev = a \<and> ev_direction ev = dir_name d \<and> ev_group ev = g_name (group_for cfg a)
    \<and> ev_ban_enabled ev = g_ban_enabled (group_for cfg a)
    \<and> at_in (att_of (host_at (fst (eval_tick cfg now e)) a) d) \<and> at_id (att_of (host_at (fst (eval_tick cfg now e)) a) d) = ev_id ev
    \<and> at_eff (att_of (host_at (fst (eval_tick cfg now e)) a) d)
        = effective_thresholds th (base_of (host_at e a) d) (g_baseline (group_for cfg a)) (now div second)
    \<and> at_below (att_of (host_at (fst (eval_tick cfg now e)) a) d) = 0"
proof -
  obtain es where es: "logged a d (fst (eval_tick cfg now e)) = logged a d e @ es"
    "judged_step (tick_of cfg now e) (group_for cfg a) a d (ledger_rates (eg_window e) (now div second) (p a) d)
        (base_of (host_at e a) d) (att_of (host_at e a) d) es (att_of (host_at (fst (eval_tick cfg now e)) a) d)"
    using traffic_step [OF t w j d] by blast
  from es(2) show ?thesis by cases (use es(1) th idle hit in \<open>auto simp: begin_attack_def\<close>)
qed

text \<open>In an attack, an elapsed hysteresis tail ends it.\<close>

lemma traffic_ends:
  assumes t: "traffic e p now0" "now0 \<le> now" and w: "eg_window e \<le> now div second" and j: "judged_host cfg a" and d: "d \<in> set dirs"
    and th: "thresholds_for (group_for cfg a) d \<noteq> None" and on: "at_in (att_of (host_at e a) d)"
    and none: "evaluate (ledger_rates (eg_window e) (now div second) (p a) d) (at_eff (att_of (host_at e a) d)) = None"
    and over: "tail_over (unban_hysteresis (c_ban cfg)) now (fall_below now (att_of (host_at e a) d))"
  shows "\<exists>ev. logged a d (fst (eval_tick cfg now e)) = logged a d e @ [ev] \<and> ev_kind ev = AttackEnded
    \<and> ev_id ev = at_id (att_of (host_at e a) d) \<and> \<not> at_in (att_of (host_at (fst (eval_tick cfg now e)) a) d)"
proof -
  obtain es where es: "logged a d (fst (eval_tick cfg now e)) = logged a d e @ es"
    "judged_step (tick_of cfg now e) (group_for cfg a) a d (ledger_rates (eg_window e) (now div second) (p a) d)
        (base_of (host_at e a) d) (att_of (host_at e a) d) es (att_of (host_at (fst (eval_tick cfg now e)) a) d)"
    using traffic_step [OF t w j d] by blast
  from es(2) show ?thesis by cases (use es(1) th on none over in auto)
qed

end
