(* ===== verification/EngineTheorems.thy ===== *)
theory EngineTheorems
  imports Deployment Traffic
begin

text \<open>
  The properties of the detection engine over its reachable states, and a small run on which they are
  instantiated: one flood of 40,000 packets towards \<open>ex_victim\<close>, seen by a window of ten seconds.
\<close>

section \<open>A run\<close>

definition ex_flood :: flow where
  "ex_flood = \<lparr> f_src = ex_attacker, f_dst = ex_victim, f_exporter = V4 0xC0000263, f_bytes = 40000000, f_packets = 40000, f_rate = 1,
     f_in_if = 1, f_out_if = 2, f_src_vlan = 0, f_dst_vlan = 0, f_src_mac = 0, f_dst_mac = 0, f_src_port = 53, f_dst_port = 4444,
     f_proto = 17, f_tcp_flags = 0, f_fragment = False, f_wire = ProtoSFlow5 \<rparr>"

definition ex_engine :: engine where
  "ex_engine = new_engine \<lparr> sc_enabled = True, sc_flows_per_attack = 4, sc_buffer_flows = 256 \<rparr> 10 16
     \<lparr> en_geo = None, en_mac_ip = None \<rparr> \<lparr> id_random = (\<lambda>n. None), id_reads = 0, id_sequence = 0 \<rparr>"

definition ex_flooded :: engine where
  "ex_flooded = process ex_cfg (100 * second) ex_flood ex_engine"

definition ex_ledger :: ledger where
  "ex_ledger = enter_flow ex_cfg (100 * second) ex_flood (\<lambda>a. [])"

definition ex_detected :: engine where
  "ex_detected = fst (eval_tick ex_cfg (105 * second) ex_flooded)"

text \<open>The same configuration without a hysteresis.\<close>

definition ex_eager :: config where
  "ex_eager = ex_cfg \<lparr> c_ban := ex_ban \<lparr> unban_hysteresis_seconds := 0 \<rparr> \<rparr>"

lemma second_simps [simp]: "(n * second) div second = n" "m * second \<le> n * second \<longleftrightarrow> m \<le> n"
  by (simp_all add: second_def)

lemma ex_flooded_traffic: "traffic ex_flooded ex_ledger (100 * second)"
  unfolding ex_flooded_def ex_ledger_def ex_engine_def
  by (rule t_flow [OF t_new [where now = "100 * second"]]) (simp_all add: second_def)

lemma ex_detected_traffic: "traffic ex_detected ex_ledger (105 * second)"
  unfolding ex_detected_def by (rule t_eval [OF ex_flooded_traffic]) (simp add: second_def)

lemma ex_windows: "eg_window ex_flooded = 10" "eg_window ex_detected = 10"
proof -
  show w: "eg_window ex_flooded = 10"
    using process_same [of ex_engine ex_cfg "100 * second" ex_flood]
    by (simp add: same_detection_def ex_flooded_def ex_engine_def new_engine_def Let_def)
  then show "eg_window ex_detected = 10" by (simp add: ex_detected_def tick_size)
qed

lemma ex_ledger_victim: "ex_ledger ex_victim = [\<lparr> en_epoch = 100, en_dir = dir_in, en_flow = ex_flood, en_rate = 1, en_up = ''192.0.2.99:1'' \<rparr>]"
  by code_simp

lemma ex_judged: "judged_host ex_cfg ex_victim" "judged_host ex_eager ex_victim" "\<not> is_whitelisted ex_cfg ex_victim"
  by code_simp+

lemma ex_group_thresholds: "group_for ex_cfg ex_victim = ex_group" "group_for ex_eager ex_victim = ex_group"
  by code_simp+

lemma evaluate_pps:
  assumes "l \<noteq> 0"
  shows "evaluate r (thresholds_none \<lparr> th_pps := l \<rparr>) = (if flt (f64_of_u64 l) (rt_pps r) then Some (MetricPPS, rt_pps r, f64_of_u64 l) else None)"
  using assms by (simp add: evaluate_def metric_table_def thresholds_none_def)

lemma ledger_pps: "rt_pps (ledger_rates w s past d) = fdiv (f64_of_u64 (cn_packets (hist_window past [s - w..s - 1] d) ClTotal)) (f64_of_int w)"
  by (simp add: ledger_rates_def counter_rates_def Let_def)

lemma ex_rates:
  "rt_pps (ledger_rates 10 105 (ex_ledger ex_victim) dir_in) = Fin 4000"
  "rt_pps (ledger_rates 10 120 (ex_ledger ex_victim) dir_in) = Fin 0"
proof -
  have "cn_packets (hist_window (ex_ledger ex_victim) [95..104] dir_in) ClTotal = 40000"
    unfolding ex_ledger_victim by code_simp
  moreover have "cn_packets (hist_window (ex_ledger ex_victim) [110..119] dir_in) ClTotal = 0"
    unfolding ex_ledger_victim by code_simp
  moreover have "f64_of_u64 40000 = Fin 40000" "f64_of_u64 0 = Fin 0" "f64_of_int 10 = Fin 10"
    using f64_of_small [of 40000] f64_of_small [of 0] f64_of_small [of 10] by (simp_all add: f64_of_u64_def f64_of_int_def)
  moreover have "fdiv (Fin 40000) (Fin 10) = Fin 4000" "fdiv (Fin 0) (Fin 10) = Fin 0"
    using f64_of_small [of 4000] f64_of_small [of 0] by simp_all
  ultimately show "rt_pps (ledger_rates 10 105 (ex_ledger ex_victim) dir_in) = Fin 4000"
    "rt_pps (ledger_rates 10 120 (ex_ledger ex_victim) dir_in) = Fin 0" by (simp_all add: ledger_pps)
qed

lemma ex_thresholds: "thresholds_for ex_group dir_in = Some (thresholds_none \<lparr> th_pps := 1000 \<rparr>)" "g_baseline ex_group = None"
  "effective_thresholds th b None s = th"
  by (simp_all add: thresholds_for_def ex_group_def effective_thresholds_def)

lemma f64_1000: "f64_of_u64 1000 = Fin 1000"
  by code_simp

lemma ex_hits:
  "evaluate (ledger_rates 10 105 (ex_ledger ex_victim) dir_in) (thresholds_none \<lparr> th_pps := 1000 \<rparr>)
     = Some (MetricPPS, Fin 4000, Fin 1000)"
  "evaluate (ledger_rates 10 120 (ex_ledger ex_victim) dir_in) (thresholds_none \<lparr> th_pps := 1000 \<rparr>) = None"
  by (simp_all add: evaluate_pps ex_thresholds ex_rates f64_1000)

lemma ex_idle: "\<not> at_in (att_of (host_at ex_flooded ex_victim) d)"
proof -
  have "att_of (host_at ex_flooded ex_victim) d = att_of (host_at ex_engine ex_victim) d"
    using process_same [of ex_engine ex_cfg "100 * second" ex_flood] by (simp add: same_detection_def ex_flooded_def)
  then show ?thesis by (simp add: host_at_def ex_engine_def new_engine_def Let_def att_of_def)
qed

lemmas ex_run = ex_windows ex_group_thresholds ex_thresholds ex_hits

lemma ex_starts:
  "\<exists>ev. logged ex_victim dir_in ex_detected = logged ex_victim dir_in ex_flooded @ [ev] \<and> ev_kind ev = AttackStarted"
  "at_in (att_of (host_at ex_detected ex_victim) dir_in)"
  "at_eff (att_of (host_at ex_detected ex_victim) dir_in) = thresholds_none \<lparr> th_pps := 1000 \<rparr>"
  "at_below (att_of (host_at ex_detected ex_victim) dir_in) = 0"
proof -
  note traffic_starts [OF ex_flooded_traffic _ _ ex_judged(1) _ _ ex_idle, where now = "105 * second" and d = dir_in and m = MetricPPS
      and x = "Fin 4000" and l = "Fin 1000" and th = "thresholds_none \<lparr> th_pps := 1000 \<rparr>"]
  then obtain ev where "logged ex_victim dir_in (fst (eval_tick ex_cfg (105 * second) ex_flooded)) = logged ex_victim dir_in ex_flooded @ [ev]"
    "ev_kind ev = AttackStarted" "at_in (att_of (host_at (fst (eval_tick ex_cfg (105 * second) ex_flooded)) ex_victim) dir_in)"
    "at_eff (att_of (host_at (fst (eval_tick ex_cfg (105 * second) ex_flooded)) ex_victim) dir_in) = thresholds_none \<lparr> th_pps := 1000 \<rparr>"
    "at_below (att_of (host_at (fst (eval_tick ex_cfg (105 * second) ex_flooded)) ex_victim) dir_in) = 0"
    by (auto simp: ex_run)
  then show "\<exists>ev. logged ex_victim dir_in ex_detected = logged ex_victim dir_in ex_flooded @ [ev] \<and> ev_kind ev = AttackStarted"
    "at_in (att_of (host_at ex_detected ex_victim) dir_in)"
    "at_eff (att_of (host_at ex_detected ex_victim) dir_in) = thresholds_none \<lparr> th_pps := 1000 \<rparr>"
    "at_below (att_of (host_at ex_detected ex_victim) dir_in) = 0"
    unfolding ex_detected_def by blast+
qed

lemma silent_rates: "\<forall>x \<in> set past. en_epoch x \<notin> {sec - w..sec - 1} \<Longrightarrow> evaluate (ledger_rates w sec past d) th = None"
  unfolding ledger_rates_def by (subst hist_window_absent) (simp_all add: evaluate_zero)

text \<open>No packet in the window is a calm tick.\<close>

lemma silent_calm:
  assumes t: "traffic e p now0" "now0 \<le> now" and w: "eg_window e \<le> now div second" and d: "d \<in> set dirs"
    and h: "unban_hysteresis (c_ban cfg) \<le> h" and silent: "\<forall>x \<in> set (p a). en_epoch x \<notin> {now div second - eg_window e..now div second - 1}"
  shows "calm_tick a d h cfg now e"
  using traffic_rates [OF t w d, of a cfg] h silent_rates [OF silent] by (auto simp: calm_tick_def split: option.splits)

lemma ex_hysteresis: "unban_hysteresis (c_ban ex_cfg) = 60 * second" "unban_hysteresis (c_ban ex_eager) = 0"
  by code_simp+

section \<open>Refinement\<close>

text \<open>C20: in every reachable engine the lifecycle events of a host and direction alternate between starts and ends, every end
  repeats the identifier, metric, threshold and start time of its start, and the state of the host holds exactly the start that is
  still open (none, if the host was evicted).\<close>

theorem host_lifecycle:
  assumes "engine_reach e" and "d \<in> {dir_in, dir_out}"
  shows "\<exists>cur. runs None (filter (host_key a d) (events_of (eg_out e))) = Some cur \<and> agrees cur (att_of (host_at e a) d)"
proof -
  have "host_tracked (eg_out e) a (host_at e a)" using reach_ok [OF assms(1)] by (simp add: engine_ok_def)
  then show ?thesis using assms(2) unfolding host_tracked_def tracks_def by auto
qed

theorem host_lifecycle_witness:
  "at_in (att_of (host_at ex_detected ex_victim) dir_in)
   \<and> (\<exists>cur. runs None (filter (host_key ex_victim dir_in) (events_of (eg_out ex_detected))) = Some cur
        \<and> agrees cur (att_of (host_at ex_detected ex_victim) dir_in))"
  using host_lifecycle [OF traffic_reach [OF ex_detected_traffic], of dir_in ex_victim] ex_starts(2) by simp

text \<open>C29: the same holds for the attacks of total groups, by name and direction, and for carpet attacks, by prefix; the table of
  carpets holds only prefixes under attack.\<close>

theorem group_and_prefix_lifecycle:
  assumes "engine_reach e"
  shows "(\<forall>name. \<forall>d \<in> {dir_in, dir_out}. \<exists>cur. runs None (filter (group_key name d) (events_of (eg_out e))) = Some cur
       \<and> agrees cur (group_att (tget (eg_groups e) name) d))
   \<and> (\<forall>p. pfx_valid p \<longrightarrow> (\<exists>cur. runs None (filter (prefix_key p) (events_of (eg_out e))) = Some cur
       \<and> agrees cur (carpet_att (tget (eg_carpets e) p))))
   \<and> (\<forall>(p, cs) \<in> set (eg_carpets e). at_in (cs_attack cs))"
proof -
  have ok: "groups_tracked (eg_out e) (eg_groups e)" "carpets_tracked (eg_out e) (eg_carpets e)"
    using reach_ok [OF assms] by (simp_all add: engine_ok_def)
  have "at_in (cs_attack cs)" if "(p, cs) \<in> set (eg_carpets e)" for p cs
    using ok(2) that in_set_tget by (fastforce simp: carpets_tracked_def)
  then show ?thesis
    using ok by (fastforce simp: groups_tracked_def group_tracked_def carpets_tracked_def tracks_def)
qed

theorem group_and_prefix_lifecycle_witness:
  "\<exists>cur. runs None (filter (group_key ''global'' dir_in) (events_of (eg_out ex_detected))) = Some cur
     \<and> agrees cur (group_att (tget (eg_groups ex_detected) ''global'') dir_in)"
  using group_and_prefix_lifecycle [OF traffic_reach [OF ex_detected_traffic]] by blast

text \<open>C3: a tick judges a host by the traffic and nothing else: if the clock does not step back, the rates of the scan are the
  rates of exactly the flows recorded for that address within the window, although the counters live in a ring of window + 1
  buckets and idle hosts are evicted and met again; an address the engine does not hold had no flow in the window.\<close>

theorem rates_are_the_traffic:
  assumes "traffic e p now0" and "now0 \<le> now" and "eg_window e \<le> now div second" and "d \<in> {dir_in, dir_out}"
  shows "case host_at e a of
     Some hs \<Rightarrow> host_rates (tick_of cfg now e) hs d = ledger_rates (eg_window e) (now div second) (p a) d
   | None \<Rightarrow> hist_window (p a) [now div second - eg_window e..now div second - 1] d = counters_zero"
  using traffic_window [OF assms(1-3)] assms(4) by simp

theorem rates_are_the_traffic_witness:
  "host_at ex_flooded ex_victim \<noteq> None \<and> rt_pps (host_rates (tick_of ex_cfg (105 * second) ex_flooded) (the (host_at ex_flooded ex_victim)) dir_in) = Fin 4000"
proof -
  have h: "host_at ex_flooded ex_victim \<noteq> None" by code_simp
  show ?thesis
    using rates_are_the_traffic [OF ex_flooded_traffic, of "105 * second" dir_in ex_victim ex_cfg] h by (auto simp: ex_windows ex_rates)
qed

text \<open>C4: a tick moves each direction of each judged address by exactly one step of the abstract attack machine (start, hold,
  hysteresis tail, end, or stay quiet) on the rates of its traffic, and logs the events of that step and no other.\<close>

theorem tick_refines_machine:
  assumes "traffic e p now0" and "now0 \<le> now" and "eg_window e \<le> now div second"
    and "judged_host cfg a" and "d \<in> {dir_in, dir_out}"
  shows "\<exists>es. filter (host_key a d) (events_of (eg_out (fst (eval_tick cfg now e)))) = filter (host_key a d) (events_of (eg_out e)) @ es
    \<and> judged_step (tick_of cfg now e) (group_for cfg a) a d (ledger_rates (eg_window e) (now div second) (p a) d)
        (base_of (host_at e a) d) (att_of (host_at e a) d) es (att_of (host_at (fst (eval_tick cfg now e)) a) d)"
  using traffic_step [OF assms(1-4)] assms(5) by (simp add: logged_def)

theorem tick_refines_machine_witness:
  "\<exists>es. filter (host_key ex_victim dir_in) (events_of (eg_out ex_detected)) = filter (host_key ex_victim dir_in) (events_of (eg_out ex_flooded)) @ es
    \<and> es \<noteq> [] \<and> judged_step (tick_of ex_cfg (105 * second) ex_flooded) ex_group ex_victim dir_in (ledger_rates 10 105 (ex_ledger ex_victim) dir_in)
        (base_of (host_at ex_flooded ex_victim) dir_in) (att_of (host_at ex_flooded ex_victim) dir_in) es (att_of (host_at ex_detected ex_victim) dir_in)"
  using tick_refines_machine [OF ex_flooded_traffic, of "105 * second" ex_cfg ex_victim dir_in] ex_judged ex_starts(1)
  by (auto simp: ex_run ex_detected_def logged_def)

section \<open>Detection\<close>

text \<open>C5: detection is complete and prompt. If the traffic of a judged address in the window passes one of its current limits
  (the configured thresholds, tightened by its baseline) and no attack is on, the very next tick starts one: a single event is
  logged, with the metric, the measured rate, the limit and the time, carrying the group's permission to ban, and the address is
  in attack under the event's identifier with those limits frozen.\<close>

theorem detection_is_complete:
  assumes "traffic e p now0" and "now0 \<le> now" and "eg_window e \<le> now div second"
    and "judged_host cfg a" and "d \<in> {dir_in, dir_out}" and "thresholds_for (group_for cfg a) d = Some th"
    and "\<not> at_in (att_of (host_at e a) d)"
    and "eff = effective_thresholds th (base_of (host_at e a) d) (g_baseline (group_for cfg a)) (now div second)"
    and "evaluate (ledger_rates (eg_window e) (now div second) (p a) d) eff = Some (m, x, l)"
    and "e' = fst (eval_tick cfg now e)"
  shows "\<exists>ev. filter (host_key a d) (events_of (eg_out e')) = filter (host_key a d) (events_of (eg_out e)) @ [ev]
    \<and> ev_kind ev = AttackStarted \<and> ev_metric ev = m \<and> ev_rate ev = x \<and> ev_threshold ev = l \<and> ev_at ev = now
    \<and> ev_target ev = a \<and> ev_ban_enabled ev = g_ban_enabled (group_for cfg a)
    \<and> at_in (att_of (host_at e' a) d) \<and> at_id (att_of (host_at e' a) d) = ev_id ev \<and> at_eff (att_of (host_at e' a) d) = eff"
  using traffic_starts [OF assms(1-4) _ assms(6,7), of m x l] assms(5,8,9,10) by (auto simp: logged_def)

theorem detection_is_complete_witness:
  "\<exists>ev. filter (host_key ex_victim dir_in) (events_of (eg_out ex_detected)) = filter (host_key ex_victim dir_in) (events_of (eg_out ex_flooded)) @ [ev]
    \<and> ev_kind ev = AttackStarted \<and> ev_metric ev = MetricPPS \<and> ev_rate ev = Fin 4000 \<and> ev_threshold ev = Fin 1000"
  using detection_is_complete [OF ex_flooded_traffic _ _ ex_judged(1) _ _ ex_idle refl _ refl, where now = "105 * second" and d = dir_in
      and m = MetricPPS and x = "Fin 4000" and l = "Fin 1000" and th = "thresholds_none \<lparr> th_pps := 1000 \<rparr>"]
  by (auto simp: ex_run ex_detected_def)





text \<open>C21: no attack outlives its traffic by more than the hysteresis. Take an attack, a tick that finds it below its frozen limits
  at time t0, then any flows and ticks as long as every tick that finds the attack still on finds it below, and one such tick h
  after t0: by then the end of that attack has been logged.\<close>

theorem quiet_attack_ends:
  assumes "engine_reach e0" and "d \<in> {dir_in, dir_out}" and "at_in (att_of (host_at e0 a) d)"
    and "at_below (att_of (host_at e0 a) d) \<le> t0" and "0 < t0" and "calm_tick a d h cfg0 t0 e0"
    and "calm_run a d h (fst (eval_tick cfg0 t0 e0)) e1" and "0 \<le> h" and "h \<le> int64_max"
    and "calm_tick a d h cfg now e1" and "t0 + h \<le> now"
  shows "\<exists>ev \<in> set (filter (host_key a d) (events_of (eg_out (fst (eval_tick cfg now e1))))).
    ev_kind ev = AttackEnded \<and> ev_id ev = at_id (att_of (host_at e0 a) d)"
  using calm_attack_ends [OF reach_ok [OF assms(1)] _ assms(3-11)] assms(2) by (simp add: logged_def)

definition ex_tail :: engine where
  "ex_tail = fst (eval_tick ex_cfg (120 * second) ex_detected)"

lemma ex_tail_traffic: "traffic ex_tail ex_ledger (120 * second)" "eg_window ex_tail = 10"
  unfolding ex_tail_def using t_eval [OF ex_detected_traffic] by (simp_all add: tick_size ex_windows)

theorem quiet_attack_ends_witness:
  "\<exists>ev \<in> set (filter (host_key ex_victim dir_in) (events_of (eg_out (fst (eval_tick ex_cfg (180 * second) ex_tail))))).
    ev_kind ev = AttackEnded \<and> ev_id ev = at_id (att_of (host_at ex_detected ex_victim) dir_in)"
proof -
  have calm: "calm_tick ex_victim dir_in (60 * second) ex_cfg (120 * second) ex_detected"
    "calm_tick ex_victim dir_in (60 * second) ex_cfg (180 * second) ex_tail"
    by (rule silent_calm [OF ex_detected_traffic]; simp add: ex_windows ex_hysteresis ex_ledger_victim)
      (rule silent_calm [OF ex_tail_traffic(1)]; simp add: ex_tail_traffic ex_hysteresis ex_ledger_victim)
  show ?thesis
    using quiet_attack_ends [OF traffic_reach [OF ex_detected_traffic] _ ex_starts(2) _ _ calm(1) calm_refl, where cfg = ex_cfg and now = "180 * second"]
      calm(2) by (simp add: ex_starts(4) ex_tail_def second_def int64_max_def)
qed

text \<open>C30: eviction loses nothing and bounds memory. A tick forgets an address only if it has no attack, had no traffic in the
  window and was last seen before it; an address it keeps has the counters it had, and is in an attack, or had traffic in the
  window, or was seen since it began.\<close>

theorem eviction_is_safe:
  assumes "engine_reach e" and "host_at e a = Some hs" and "e' = fst (eval_tick cfg now e)"
  shows "case host_at e' a of
     None \<Rightarrow> \<not> snd (snd (windowed_rates (hs_ring hs) (eg_window e) (now div second))) \<and> hs_seen hs < now div second - eg_window e
       \<and> (\<forall>d \<in> {dir_in, dir_out}. runs None (filter (host_key a d) (events_of (eg_out e'))) = Some None)
   | Some hs' \<Rightarrow> hs_ring hs' = hs_ring hs \<and> hs_seen hs' = hs_seen hs
       \<and> (in_any_attack hs' \<or> snd (snd (windowed_rates (hs_ring hs) (eg_window e) (now div second))) \<or> now div second - eg_window e \<le> hs_seen hs)"
proof -
  have ok: "engine_ok e" "engine_ok e'" using reach_ok assms(1,3) tick_ok by auto
  have closed: "runs None (filter (host_key a d) (events_of (eg_out e'))) = Some None" if "host_at e' a = None" "d \<in> {dir_in, dir_out}" for d
  proof -
    have "tracks (filter (host_key a d) (events_of (eg_out e'))) attack_idle"
      using ok(2) that by (auto simp: engine_ok_def host_tracked_def att_of_def dest: spec [of _ a])
    then show ?thesis by (auto simp: tracks_def agrees_def split: option.splits)
  qed
  show ?thesis using tick_keeps [OF ok(1) assms(2), of cfg now] closed assms(3)
    by (auto simp: host_data_def host_frame_def split: option.splits)
qed

theorem eviction_is_safe_witness:
  "host_at ex_flooded ex_victim \<noteq> None \<and> (case host_at ex_detected ex_victim of None \<Rightarrow> False
     | Some hs' \<Rightarrow> hs_ring hs' = hs_ring (the (host_at ex_flooded ex_victim)))"
proof -
  have h: "host_at ex_flooded ex_victim \<noteq> None" by code_simp
  have "host_at ex_detected ex_victim \<noteq> None" using ex_starts(2) by (auto simp: att_of_def split: option.splits)
  then show ?thesis
    using eviction_is_safe [OF traffic_reach [OF ex_flooded_traffic] _ ex_detected_def, of ex_victim] h by (auto split: option.splits)
qed

end
