(* ===== verification/TelemetryTheorems.thy ===== *)
theory TelemetryTheorems
  imports EngineTheorems
begin

text \<open>
  The properties of what a detection rests on and reports: learned baselines, the classification of the
  vector, the flow samples and their quotas, and the per-peer accounting of OpenPeering traffic.
\<close>

section \<open>Baselines\<close>

definition ex_settings :: baseline_settings where
  "ex_settings = \<lparr> bs_factor = Fin 2, bs_alpha = Fin (1 / 2), bs_warmup = 60, bs_floor = \<lparr> fl_pps = 100, fl_mbps = 10, fl_fps = 10 \<rparr> \<rparr>"

text \<open>C38: a baseline can only make detection more sensitive, never less, and never switches a metric off: with non-zero floors,
  each effective limit is at most the configured one, and zero (disabled) only if the configured one is; the per-protocol limits
  are left alone.\<close>

theorem baselines_only_tighten:
  assumes "\<forall>c \<in> set_option bc. 0 < fl_pps (bs_floor c) \<and> 0 < fl_mbps (bs_floor c) \<and> 0 < fl_fps (bs_floor c)"
    and "eff = effective_thresholds th b bc now"
  shows "th_pps eff \<le> th_pps th \<and> th_mbps eff \<le> th_mbps th \<and> th_fps eff \<le> th_fps th
    \<and> (th_pps eff = 0 \<longrightarrow> th_pps th = 0) \<and> (th_mbps eff = 0 \<longrightarrow> th_mbps th = 0) \<and> (th_fps eff = 0 \<longrightarrow> th_fps th = 0)
    \<and> th_tcp_pps eff = th_tcp_pps th \<and> th_udp_pps eff = th_udp_pps th \<and> th_icmp_pps eff = th_icmp_pps th
    \<and> th_syn_pps eff = th_syn_pps th \<and> th_frag_pps eff = th_frag_pps th"
proof -
  have f: "\<forall>c \<in> set_option bc. floors_set c" using assms(1) by (simp add: floors_set_def)
  have p: "th_tcp_pps eff = th_tcp_pps th" "th_udp_pps eff = th_udp_pps th" "th_icmp_pps eff = th_icmp_pps th"
    "th_syn_pps eff = th_syn_pps th" "th_frag_pps eff = th_frag_pps th"
    unfolding assms(2) by (subst effective_thresholds_proto; simp)+
  show ?thesis using effective_thresholds_bounds [OF f, of th b now] p unfolding assms(2) by simp
qed

theorem baselines_only_tighten_witness:
  "th_pps (effective_thresholds (thresholds_none \<lparr> th_pps := 1000 \<rparr>) (baseline_new \<lparr> ba_pps := Fin 200, ba_valid := True \<rparr>) (Some ex_settings) 60) \<le> 1000
   \<and> th_pps (effective_thresholds (thresholds_none \<lparr> th_pps := 1000 \<rparr>) (baseline_new \<lparr> ba_pps := Fin 200, ba_valid := True \<rparr>) (Some ex_settings) 60) \<noteq> 0"
  using baselines_only_tighten [OF _ refl, of "Some ex_settings" "thresholds_none \<lparr> th_pps := 1000 \<rparr>"
      "baseline_new \<lparr> ba_pps := Fin 200, ba_valid := True \<rparr>" 60]
  by (auto simp: ex_settings_def)

text \<open>A flood cannot poison a baseline in one step: a sample however large (not NaN) moves a positive finite level no further
  than a sample at the clamp, factor times the level, would.\<close>

theorem poisoning_is_clamped:
  assumes "bs_alpha bc = Fin a" and "0 < a" and "ba_pps b = Fin c" and "ba_valid b"
    and "flt (Fin 0) (fmul (ba_pps b) (bs_factor bc))" and "rt_pps r \<noteq> NaN"
    and "clamp = fmul (ba_pps b) (bs_factor bc)"
  shows "fle (ba_pps (learn r bc now b)) (ba_pps (learn (r \<lparr> rt_pps := clamp \<rparr>) bc now b))"
  using ewma_up_clamped [OF assms(1-3,5,6)] assms(4,7) by (simp add: learn_def)

theorem poisoning_is_clamped_witness:
  "fle (ba_pps (learn (rates_zero \<lparr> rt_pps := Fin 1000000 \<rparr>) ex_settings 60 (baseline_new \<lparr> ba_pps := Fin 200, ba_valid := True \<rparr>)))
     (ba_pps (learn (rates_zero \<lparr> rt_pps := Fin 400 \<rparr>) ex_settings 60 (baseline_new \<lparr> ba_pps := Fin 200, ba_valid := True \<rparr>)))"
proof -
  let ?b = "baseline_new \<lparr> ba_pps := Fin 200, ba_valid := True \<rparr>"
  have clamp: "fmul (ba_pps ?b) (bs_factor ex_settings) = Fin 400" using f64_of_small [of 400] by (simp add: ex_settings_def)
  have settings: "bs_alpha ex_settings = Fin (1 / 2)" by (simp add: ex_settings_def)
  have "fle (ba_pps (learn (rates_zero \<lparr> rt_pps := Fin 1000000 \<rparr>) ex_settings 60 ?b))
      (ba_pps (learn (rates_zero \<lparr> rt_pps := Fin 1000000, rt_pps := Fin 400 \<rparr>) ex_settings 60 ?b))"
    by (rule poisoning_is_clamped [OF settings _ _ _ _ _ clamp [symmetric]]) (simp_all only: clamp flt.simps, simp_all)
  then show ?thesis by simp
qed

section \<open>Classification\<close>

text \<open>What a classification claims holds of the traffic: it is absent only for a rate of zero (or below); a named vector other
  than mixed has a share of at least one half; a reflection vector names the port of its service and comes from a sample whose
  heaviest source port is that port with packets of at least 200 bytes on average, under dominant UDP; no other vector names a port.\<close>

theorem classification_is_sound:
  assumes "classify r s = Some c"
  shows "\<not> fle (rt_pps r) (Fin 0) \<and> cl_type c \<in> set attack_types
    \<and> (cl_type c \<noteq> AttackMixed \<longrightarrow> fle (Fin (1 / 2)) (cl_confidence c))
    \<and> (\<not> is_amplification (cl_type c) \<longrightarrow> cl_src_port c = 0)
    \<and> (is_amplification (cl_type c) \<longrightarrow> reflected_port (cl_type c) = Some (cl_src_port c)
        \<and> fle (Fin (1 / 2)) (fdiv (rt_udp_pps r) (rt_pps r))
        \<and> (\<exists>x head rest. s = Some x \<and> sm_src_ports x = head # rest \<and> ct_packets head \<noteq> 0
             \<and> 200 \<le> ct_bytes head div ct_packets head
             \<and> cl_confidence c = fdiv (f64_of_u64 (ct_packets head)) (f64_of_u64 (sm_total x))))"
proof -
  have cl: "classified c" by (rule classify_sound [OF assms])
  have pos: "\<not> fle (rt_pps r) (Fin 0)" using assms classify_None_iff [of r s] by auto
  have amp: "fle (Fin (1 / 2)) (fdiv (rt_udp_pps r) (rt_pps r))
      \<and> (\<exists>x head rest. s = Some x \<and> sm_src_ports x = head # rest \<and> ct_packets head \<noteq> 0
             \<and> 200 \<le> ct_bytes head div ct_packets head
             \<and> cl_confidence c = fdiv (f64_of_u64 (ct_packets head)) (f64_of_u64 (sm_total x)))"
    if a: "is_amplification (cl_type c)"
  proof (rule classify_cases [OF assms])
    fix t port share assume sig: "amplification_signature s = Some (t, port, share)" "c = verdict t share port"
      "fle dominant_share (fdiv (rt_udp_pps r) (rt_pps r))"
    then show ?thesis using amplification_signature_sound [OF sig(1)] by (auto simp: dominant_share_def amplified_min_bytes_def)
  qed (use a in \<open>simp_all add: is_amplification_def reflected_port_def\<close>)
  show ?thesis using cl pos amp by (auto simp: classified_def dominant_share_def)
qed

definition ex_rates_udp :: rates where
  "ex_rates_udp = rates_zero \<lparr> rt_pps := Fin 4, rt_udp_pps := Fin 4 \<rparr>"

theorem classification_is_sound_witness:
  "\<exists>c. classify ex_rates_udp None = Some c \<and> cl_type c = AttackUDPFlood \<and> cl_src_port c = 0"
proof -
  have "fdiv (Fin 4) (Fin 4) = Fin 1" using f64_of_small [of 1] by simp
  then have c: "classify ex_rates_udp None = Some (verdict AttackUDPFlood (Fin 1) 0)"
    using f64_of_small [of 0]
    by (simp add: classify_def ex_rates_udp_def rates_zero_def dominant_share_def amplification_signature_def Let_def)
  show ?thesis using classification_is_sound [OF c] c by (auto simp: is_amplification_def reflected_port_def)
qed

section \<open>Samples\<close>

text \<open>C37: the sample ring is a window onto the history: after any sequence of pushes whose seconds arrive in order up to one second
  of jitter, a scan from the newest back to the first stale entry returns exactly the flows of the window among the last n recorded,
  newest first.\<close>

theorem sample_ring_is_the_recent_history:
  assumes "nearly_ordered (map se_epoch (rev es))" and "\<forall>e \<in> set es. 0 < se_epoch e"
  shows "scan_ring (fold push_sample es (new_sample_ring n)) since = filter (\<lambda>e. since \<le> se_epoch e) (take n (rev es))"
  using scan_ring_refines [OF assms] by (simp add: push_all_def)

definition ex_entry :: "int \<Rightarrow> sample_entry" where
  "ex_entry s = \<lparr> se_flow = ex_flood, se_epoch = s, se_dir = dir_in \<rparr>"

theorem sample_ring_is_the_recent_history_witness:
  "map se_epoch (scan_ring (fold push_sample [ex_entry 5, ex_entry 7, ex_entry 6, ex_entry 9] (new_sample_ring 3)) 6) = [9, 6, 7]"
  using sample_ring_is_the_recent_history [of "[ex_entry 5, ex_entry 7, ex_entry 6, ex_entry 9]" 3 6]
  by (simp add: ex_entry_def numeral_3_eq_3)

text \<open>C36: the quotas of a cross-shard sample: the rounds of sharing always end, no quota is negative, the busiest shards are
  guaranteed one flow each as far as the budget goes, the total is never more than the budget and is exactly the budget when there
  are that many flows.\<close>

theorem quotas_spend_the_budget:
  assumes "0 \<le> budget" and "q = group_quotas counts tot budget"
  shows "length q = length counts \<and> (\<forall>x \<in> set q. 0 \<le> x) \<and> sum_list q \<le> budget
    \<and> (\<forall>s \<in> set (take (nat budget) (quota_shards counts)). 1 \<le> q ! fst s)
    \<and> (budget \<le> sum_list counts \<longrightarrow> sum_list q = budget)"
  using group_quotas_laws [OF assms(1), of counts tot] unfolding assms(2) by (auto simp: in_set_conv_nth)

theorem quotas_spend_the_budget_witness:
  "sum_list (group_quotas [7, 0, 3] 10 5) = 5 \<and> length (group_quotas [7, 0, 3] 10 5) = 3"
  using quotas_spend_the_budget [of 5 "group_quotas [7, 0, 3] 10 5" "[7, 0, 3]" 10] by simp

text \<open>The sample attached to a host attack speaks for exactly the flows of that host and direction still in the ring's window:
  its total is their sampling-corrected packet count, its flow list is the newest n of them, every listed source carries the packets
  of all flows from that source, at most five sources are listed, and none left out is heavier than one listed.\<close>

theorem host_samples_add_up:
  assumes "sr_ring sr \<noteq> []" and "es = filter (host_match a d) (scan_ring sr since)"
    and "collect_host_sample en cfg n sr a d since = Some s"
  shows "sm_total s = sum_list (map (corrected \<circ> se_flow) es)
    \<and> sm_flows s = take n (map (captured_flow en \<circ> se_flow) es) \<and> length (sm_sources s) \<le> 5
    \<and> (\<forall>c \<in> set (sm_sources s). ct_packets c = sum_list (map (corrected \<circ> se_flow) (filter (\<lambda>e. flow_source e = ct_key c) es)))
    \<and> (\<forall>e \<in> set es. \<forall>c \<in> set (sm_sources s). flow_source e \<notin> ct_key ` set (sm_sources s) \<longrightarrow>
         sum_list (map (corrected \<circ> se_flow) (filter (\<lambda>x. flow_source x = flow_source e) es)) \<le> ct_packets c)"
proof -
  have "sample_of es n s \<and> sm_flows s = take n (map (captured_flow en \<circ> se_flow) es)"
    using host_sample_of [OF assms(1), where en = en and cfg = cfg and n = n and target = a and dir = d and since = since] assms(2,3) by simp
  then show ?thesis unfolding sample_of_def top_k_def by blast
qed

theorem host_samples_add_up_witness:
  "\<exists>s. collect_host_sample \<lparr> en_geo = None, en_mac_ip = None \<rparr> ex_cfg 4 (push_sample (ex_entry 5) (new_sample_ring 3)) ex_victim dir_in 1 = Some s
     \<and> sm_total s = 40000"
proof -
  let ?sr = "push_sample (ex_entry 5) (new_sample_ring 3)" and ?en = "\<lparr> en_geo = None, en_mac_ip = None \<rparr> :: enrichment"
  have r: "sr_ring ?sr \<noteq> []" by code_simp
  have es: "filter (host_match ex_victim dir_in) (scan_ring ?sr 1) = [ex_entry 5]" by code_simp
  have total: "sum_list (map (corrected \<circ> se_flow) [ex_entry 5]) = 40000" by code_simp
  obtain s where s: "collect_host_sample ?en ex_cfg 4 ?sr ex_victim dir_in 1 = Some s"
    using host_sample_of [OF r, where en = ?en and cfg = ex_cfg and n = 4 and target = ex_victim and dir = dir_in and since = 1] es by (cases "collect_host_sample ?en ex_cfg 4 ?sr ex_victim dir_in 1") auto
  then show ?thesis using host_samples_add_up [OF r refl s] es total by auto
qed

section \<open>OpenPeering\<close>

definition peers_ok :: "engine \<Rightarrow> bool" where
  "peers_ok e \<longleftrightarrow> (\<forall>b \<in> set (eg_open e). bucket_ok b)"

lemma peers_ok_record: "peers_ok e \<Longrightarrow> peers_ok (record_peer cfg dir f iface mac r epoch e)"
  "peers_ok (record_flow a dir f r epoch upstream e) = peers_ok e"
  using ring_ok_record [of "eg_open e"] by (auto simp: peers_ok_def record_peer_def record_flow_def split: option.split)

lemma peers_ok_step: "engine_step e e' \<Longrightarrow> peers_ok e \<Longrightarrow> peers_ok e'"
proof (induction rule: engine_step.induct)
  case (flow e cfg now f)
  then show ?case unfolding process_def Let_def by (auto simp: peers_ok_record split: prod.split)
next
  case (eval e cfg now)
  have "eg_open (fst (eval_tick cfg now e)) = eg_open e"
    by (auto simp: eval_tick_def Let_def publish_live_rates_def split: prod.splits option.splits)
  then show ?case using eval by (simp add: peers_ok_def)
qed (simp_all add: peers_ok_def)

lemma peers_ok_reach: "engine_reach e \<Longrightarrow> peers_ok e"
proof (induction rule: engine_reach.induct)
  case init
  then show ?case by (simp add: peers_ok_def new_engine_def Let_def bucket_ok_new)
next
  case step
  then show ?case using peers_ok_step by blast
qed

text \<open>C35: the peering accounts balance in every reachable engine: in every second, for both directions, and for every member, the
  bytes and packets (modulo 2^64, as the code counts) are those of the listed peer addresses plus the unknown remainder; at most
  4096 addresses are listed, each once and none of them the zero or a group address; and the total of any span of seconds balances too.\<close>

theorem peer_accounts_balance:
  assumes "engine_reach e" and "b \<in> set (eg_open e)"
    and "c = oc_traffic (ob_dirs b d) \<or> (\<exists>member. (member, c) \<in> set (oc_members (ob_dirs b d)))"
  shows "tc_bytes c = tc_unknown_bytes c + sum_list (map (mc_bytes \<circ> snd) (tc_macs c))
    \<and> tc_packets c = tc_unknown_packets c + sum_list (map (mc_packets \<circ> snd) (tc_macs c))
    \<and> length (tc_macs c) \<le> 4096 \<and> distinct (map fst (tc_macs c)) \<and> (\<forall>(mac, v) \<in> set (tc_macs c). usable_peer_mac mac)
    \<and> (\<forall>ss. tc_bytes (fst (window_total (eg_open e) d ss)) = tc_unknown_bytes (fst (window_total (eg_open e) d ss))
         + sum_list (map (mc_bytes \<circ> snd) (tc_macs (fst (window_total (eg_open e) d ss)))))"
proof -
  have ring: "\<forall>b \<in> set (eg_open e). bucket_ok b" "eg_open e \<noteq> []" using peers_ok_reach [OF assms(1)] assms(2) by (auto simp: peers_ok_def)
  then have "counter_ok c" using assms(2,3) by (fastforce simp: bucket_ok_def)
  moreover have "traffic_ok (fst (window_total (eg_open e) d ss))" for ss by (rule window_total_ok [OF ring(2,1)])
  ultimately show ?thesis
    by (auto simp: counter_ok_def traffic_ok_def macs_bounded_def max_macs_per_bucket_def mac_sum_def table_ok_def)
qed

definition ex_peering :: config where
  "ex_peering = ex_cfg \<lparr> open_members := [(''192.0.2.99:1'', ''transit'')] \<rparr>"

definition ex_peered :: engine where
  "ex_peered = process ex_peering (100 * second) (ex_flood \<lparr> f_src_mac := 0x020000000001 \<rparr>) ex_engine"

theorem peer_accounts_balance_witness:
  "\<exists>b \<in> set (eg_open ex_peered). tc_bytes (oc_traffic (ob_dirs b dir_in))
     = tc_unknown_bytes (oc_traffic (ob_dirs b dir_in)) + sum_list (map (mc_bytes \<circ> snd) (tc_macs (oc_traffic (ob_dirs b dir_in))))"
proof -
  have reach: "engine_reach ex_peered" unfolding ex_peered_def ex_engine_def by (rule engine_reach.step [OF engine_reach.init engine_step.flow])
  have "eg_open ex_peered \<noteq> []" by code_simp
  then obtain b where "b \<in> set (eg_open ex_peered)" by (meson list.set_sel(1))
  then show ?thesis using peer_accounts_balance [OF reach, of b "oc_traffic (ob_dirs b dir_in)" dir_in] by blast
qed

end
