(* ===== verification/Pipeline.thy ===== *)
theory Pipeline
  imports EngineTheorems
begin













end
