(* ===== verification/RestartTheorems.thy ===== *)
theory RestartTheorems
  imports Deployment
begin

text \<open>
  The properties of ban persistence (\<^verbatim>\<open>src/engine/internal/mitigate/persist.go\<close>): a restart with the same
  configuration brings an active ban back, no file overrides a live safety rule, and when a restart
  panics.
\<close>

section \<open>An accepting backend\<close>

lemma announce_flowspec_accepts:
  "be_ok be = (\<lambda>c l. True) \<Longrightarrow> \<exists>s'. announce_flowspec be sent rs s = (None, s')"
  by (induction rs arbitrary: sent s) (auto simp: do_call_def Let_def)

definition dp_ready :: "backend \<Rightarrow> nanos \<Rightarrow> ban \<Rightarrow> bool" where
  "dp_ready be now b \<longleftrightarrow> be_dp be \<and> 0 < time_sub (b_expires b) now
     \<and> (case dataplane_rules (b_rules b) (time_sub (b_expires b) now) of Inl e \<Rightarrow> False | Inr d \<Rightarrow> True)"

lemma announce_method_accepts:
  assumes "be_ok be = (\<lambda>c l. True)" "m = MitigateDataplane \<longrightarrow> dp_ready be now b"
  shows "\<exists>b' s'. announce_method be now cfg b m attrs s = (None, b', s')"
proof (cases "m = MitigateDataplane")
  case True
  then show ?thesis using assms
    by (auto simp: announce_method_def install_dataplane_def dp_ready_def Let_def do_call_def split: sum.splits)
next
  case False
  obtain s' where "announce_flowspec be [] (b_rules b) s = (None, s')" using announce_flowspec_accepts [OF assms(1)] by blast
  then show ?thesis using assms(1) False by (auto simp: announce_method_def Let_def do_call_def)
qed

lemma reannounce_accepts:
  assumes "be_ok be = (\<lambda>c l. True)" "v_method (reannounce_view b) = MitigateDataplane \<longrightarrow> dp_ready be now b"
  shows "\<exists>b' s'. reannounce be now cfg b s = (True, b', s')"
  using announce_method_accepts [OF assms, of cfg "v_attrs (reannounce_view b)" s] by (auto simp: reannounce_def Let_def)

section \<open>One ban through a restart\<close>

text \<open>The method on record is the rung's own or one of the two a ban can have fallen back to.\<close>

definition method_kept :: "ban \<Rightarrow> bool" where
  "method_kept b \<longleftrightarrow> b_step b < length (b_escalation b)
     \<and> (b_method b \<in> {MitigateBlackhole, MitigateFlowSpec}
        \<or> b_method b = v_method (stage_view_of b (b_escalation b ! b_step b)))"

text \<open>What a restart keeps of a ban.\<close>

definition resumed :: "ban \<Rightarrow> ban \<Rightarrow> bool" where
  "resumed b b' \<longleftrightarrow> is_active b' \<and> b_target b' = b_target b \<and> b_prefix b' = b_prefix b \<and> b_method b' = b_method b
     \<and> b_step b' = b_step b \<and> b_escalation b' = b_escalation b \<and> b_rules b' = b_rules b \<and> b_expires b' = b_expires b
     \<and> b_started b' = b_started b \<and> b_manual b' = b_manual b"

lemma reannounce_view_method:
  "method_kept b \<Longrightarrow> b_method c = b_method b \<Longrightarrow> b_step c = b_step b \<Longrightarrow> b_escalation c = b_escalation b
   \<Longrightarrow> v_method (reannounce_view c) = b_method b"
  by (auto simp: method_kept_def reannounce_view_def Let_def stage_view_of_method blackhole_stage_view_def
      split: mitigation_method.split)

lemma rehydrate_host_count: "active_count (rehydrate_host be now cfg s m) \<le> Suc (active_count m)"
  using rehydrate_host_table [of be now cfg s m] tcount_tput_le by (auto simp: active_count_def)

lemma rehydrate_hosts_count: "active_count (fold (rehydrate_host be now cfg) l m) \<le> active_count m + length l"
proof (induction l arbitrary: m)
  case (Cons s l)
  show ?case using Cons.IH [of "rehydrate_host be now cfg s m"] rehydrate_host_count [of be now cfg s m] by simp
qed simp

lemma rehydrate_hosts_others:
  "k \<notin> pb_target ` set l \<Longrightarrow> tget (m_bans (fold (rehydrate_host be now cfg) l m)) k = tget (m_bans m) k"
  by (induction l arbitrary: m) (auto simp: rehydrate_host_others)

lemma rehydrate_prefixes_bans: "rehydrate_prefixes be now cfg l m = Done m' \<Longrightarrow> m_bans m' = m_bans m"
  by (erule rehydrate_prefixes_inv [where P = "\<lambda>x. m_bans x = m_bans m"]) (auto dest: rehydrate_prefix_bans)

lemma rehydrate_host_resumes:
  assumes ok: "be_ok be = (\<lambda>c l. True)" and e: "host_entry cfg (a, b)" and act: "\<not> expired now b"
    and k: "method_kept b" "b_method b = MitigateDataplane \<longrightarrow> dp_ready be now b"
    and room: "int (active_count m) < max_active_bans (c_ban cfg)"
    and frac: "fle (max_banned_fraction (c_ban cfg)) (Fin 0)"
  shows "\<exists>b'. tget (m_bans (rehydrate_host be now cfg (snapshot_core b) m)) a = Some b' \<and> resumed b b'"
proof -
  let ?s = "snapshot_core b"
  have t: "pb_target ?s = a" "b_target b = a" "b_prefix b = host_prefix a" "addr_valid a"
    using e by (auto simp: snapshot_core_def host_entry_def host_shape_def)
  have ref: "\<not> host_refused now cfg ?s m"
    using e act k(1) room frac t
    by (simp add: host_refused_iff host_entry_def snapshot_expired_def expired_def fraction_allows_def
        valid_escalation_step_def method_kept_def snapshot_core_def) auto
  let ?f = "refrozen now cfg (group_for cfg a) a (ban_from_snapshot ?s (host_prefix a)) m"
  have f: "b_method ?f = b_method b" "b_step ?f = b_step b" "b_escalation ?f = b_escalation b" "b_rules ?f = b_rules b"
    "b_expires ?f = b_expires b" "b_started ?f = b_started b" "b_manual ?f = b_manual b" "b_target ?f = a"
    "b_prefix ?f = host_prefix a" "b_state ?f = BanActive"
    using t by (simp_all add: restored_sel snapshot_core_def)
  have v: "v_method (reannounce_view ?f) = b_method b" by (rule reannounce_view_method [OF k(1) f(1-3)])
  have "dp_ready be now ?f = dp_ready be now b" by (simp add: dp_ready_def f)
  then obtain b' st where r: "reannounce be now cfg ?f (m_io m) = (True, b', st)"
    using reannounce_accepts [OF ok, of ?f now cfg "m_io m"] v k(2) by auto
  note p = reannounce_facts [OF r]
  have "rehydrate_host be now cfg ?s m = put_ban a b' (m \<lparr> m_io := st \<rparr>)"
    using ref t r by (simp add: rehydrate_host_def restore_ban_def refrozen_def)
  then have "tget (m_bans (rehydrate_host be now cfg ?s m)) a = Some b'" by (simp add: put_ban_def table_laws)
  moreover have "resumed b b'"
    using p(1,4) v f t by (simp add: resumed_def same_ban_def is_active_def)
  ultimately show ?thesis by blast
qed

lemma snapshot_hosts:
  assumes "tget (m_bans m) a = Some b" "is_active b"
  shows "snapshot_core b \<in> set (ps_hosts (snapshot_locked now m))"
  using tget_in_set [OF assms(1)] assms(2) by (force simp: snapshot_locked_def active_snapshots_def)

lemma snapshot_hosts_length: "length (ps_hosts (snapshot_locked now m)) = active_count m"
  by (simp add: snapshot_locked_def active_snapshots_def active_count_def tcount_def filter_map)

lemma flush_loads: "load (flush_persist now (\<lambda>_. True) m d) = Inr (snapshot_locked now m)"
  by (simp add: flush_persist_def save_def Let_def load_def snapshot_locked_def)

lemma restart_resumes:
  assumes g: "good be cfg m0" and b: "tget (m_bans m0) a = Some b" "is_active b" "\<not> expired now b"
    and k: "method_kept b" "b_method b = MitigateDataplane \<longrightarrow> dp_ready be now b"
    and env: "be_ok be = (\<lambda>c l. True)" "fle (max_banned_fraction (c_ban cfg)) (Fin 0)"
    and r: "rehydrate be now cfg (Some d) mit_new = Done m'" "load d = Inr (snapshot_locked now0 m0)"
  shows "\<exists>b'. tget (m_bans m') a = Some b' \<and> resumed b b'"
proof -
  let ?l = "ps_hosts (snapshot_locked now0 m0)"
  have e: "host_entry cfg (a, b)" by (rule entries(1) [OF g tget_in_set [OF b(1)]])
  obtain l1 l2 where l: "?l = l1 @ snapshot_core b # l2" using split_list [OF snapshot_hosts [OF b(1,2)]] by blast
  have dist: "distinct (map pb_target ?l)" using snapshot_written(1) [OF g] by (simp add: written_hosts_def)
  have t: "pb_target (snapshot_core b) = a" using e by (simp add: snapshot_core_def host_entry_def)
  let ?m1 = "fold (rehydrate_host be now cfg) l1 mit_new"
  have "active_count ?m1 \<le> length l1"
    using rehydrate_hosts_count [of be now cfg l1 mit_new] by (simp add: mit_new_def active_count_def)
  moreover have "int (length ?l) \<le> max 0 (max_active_bans (c_ban cfg))"
    using g snapshot_hosts_length [of now0 m0] by (simp add: good_def caps_inv_def)
  ultimately have room: "int (active_count ?m1) < max_active_bans (c_ban cfg)" using l by simp
  obtain b' where b': "tget (m_bans (rehydrate_host be now cfg (snapshot_core b) ?m1)) a = Some b'" "resumed b b'"
    using rehydrate_host_resumes [OF env(1) e b(3) k room env(2)] by blast
  have hosts: "tget (m_bans (fold (rehydrate_host be now cfg) ?l mit_new)) a = Some b'"
    using b'(1) rehydrate_hosts_others [of a l2 be now cfg] dist l t by simp
  from r(1) show ?thesis
  proof (cases rule: rehydrate_cases)
    case unread
    then have "?l = []" using r(2) by simp
    then show ?thesis using l by simp
  next
    case (document d' st m1 ss ss' s)
    have "st = snapshot_locked now0 m0" using document(1,2) r(2) by simp
    then have "m_bans m' = m_bans (fold (rehydrate_host be now cfg) ?l mit_new)"
      using document(6) rehydrate_prefixes_bans [OF document(3)] by simp
    then show ?thesis using hosts b'(2) by auto
  qed
qed

section \<open>A small restart\<close>

text \<open>The state file after the climb of \<open>ex_climbed\<close>, and the process that reads it nine seconds later.\<close>

definition ex_disk :: disk where
  "ex_disk = flush_persist (132 * second) (\<lambda>_. True) ex_climbed \<lparr> dk_file = FileMissing, dk_temps = 0 \<rparr>"

definition ex_restarted :: mit where
  "ex_restarted = (case rehydrate ex_backend (140 * second) ex_cfg (Some ex_disk) mit_new of Done m \<Rightarrow> m | Crash \<Rightarrow> mit_new)"

definition outcome_ok :: "'a outcome \<Rightarrow> bool" where
  "outcome_ok x = (case x of Done y \<Rightarrow> True | Crash \<Rightarrow> False)"

lemma ex_restarted: "rehydrate ex_backend (140 * second) ex_cfg (Some ex_disk) mit_new = Done ex_restarted"
proof -
  have "outcome_ok (rehydrate ex_backend (140 * second) ex_cfg (Some ex_disk) mit_new)" by code_simp
  then show ?thesis by (auto simp: outcome_ok_def ex_restarted_def split: outcome.splits)
qed

lemma ex_restarted_bans: "map (\<lambda>(a, b). (a, b_method b, b_step b, is_active b)) (m_bans ex_restarted)
    = [(ex_victim, MitigateFlowSpec, 1, True)]"
  by code_simp

section \<open>Properties\<close>

text \<open>C7: bans survive a restart. When the last write of the state file succeeded and a new process with the same
  configuration reads it, every host ban that was active and has not expired is active again under its target, at the same
  rung with the same method, rules, deadline, start and manual flag, and unless in a dry run its rung stands at the peer or
  in the kernel of the new process. Assumes calls are accepted, the banned-fraction guard is off, the method on record is
  the rung's or a fallback, and for a kernel rung that its rules still compile before the deadline.\<close>

theorem restart_restores_bans:
  assumes "reachable be cfg m0" "tget (m_bans m0) a = Some b" "is_active b" "\<not> expired now b"
    "method_kept b" "b_method b = MitigateDataplane \<Longrightarrow> dp_ready be now b"
    "be_ok be = (\<lambda>c l. True)" "fle (max_banned_fraction (c_ban cfg)) (Fin 0)"
    "rehydrate be now cfg (Some (flush_persist now0 (\<lambda>_. True) m0 d)) mit_new = Done m'"
  shows "\<exists>b'. tget (m_bans m') a = Some b' \<and> resumed b b'
    \<and> (c_dry_run cfg \<or> enforced b' (b_method b') (io_log (m_io m')))"
proof -
  note ld = flush_loads [of now0 m0 d]
  have g: "good be cfg m0" by (rule reachable_good [OF assms(1)])
  obtain b' where b': "tget (m_bans m') a = Some b'" "resumed b b'"
    using restart_resumes [OF g assms(2-5) _ assms(7-9) ld] assms(6) by blast
  have "good be cfg m'"
    using rehydrate_good [OF assms(9) ld] snapshot_written [OF g] by blast
  then have "\<not> c_dry_run cfg \<longrightarrow> up b' (io_log (m_io m'))"
    using tget_in_set [OF b'(1)] by (force simp: good_def up_inv_def all_bans_def)
  moreover have "is_active b' \<and> b_dry_run b' = c_dry_run cfg"
    using b' entries(1) [OF \<open>good be cfg m'\<close> tget_in_set [OF b'(1)]] by (simp add: resumed_def host_entry_def)
  ultimately show ?thesis using b' by (auto simp: up_def)
qed

lemma ex_climbed_kept: "tget (m_bans ex_climbed) ex_victim = Some (the_ban ex_climbed)"
    "\<not> expired (140 * second) (the_ban ex_climbed)" "method_kept (the_ban ex_climbed)"
proof -
  show "tget (m_bans ex_climbed) ex_victim = Some (the_ban ex_climbed)" by (simp add: ex_climbed_ban tget_def)
  show "\<not> expired (140 * second) (the_ban ex_climbed)" by code_simp
  have "length (b_escalation (the_ban ex_climbed)) = 3" by code_simp
  then show "method_kept (the_ban ex_climbed)" using ex_climbed_facts by (simp add: method_kept_def)
qed

theorem restart_restores_bans_witness:
  "\<exists>b'. tget (m_bans ex_restarted) ex_victim = Some b' \<and> resumed (the_ban ex_climbed) b'
    \<and> (c_dry_run ex_cfg \<or> enforced b' (b_method b') (io_log (m_io ex_restarted)))"
  by (rule restart_restores_bans [OF ex_climbed_reachable ex_climbed_kept(1) ex_climbed_facts(1) ex_climbed_kept(2,3)
        _ _ _ ex_restarted [unfolded ex_disk_def]])
    (simp_all add: ex_climbed_facts ex_backend_def ex_cfg_def ex_ban_def)

text \<open>C8: the state file never overrides a live safety rule. Whatever the file holds, a restart that succeeds leaves only
  active bans that have not expired, under their own keys, on protected addresses (or prefixes) that are not whitelisted
  (hold no whitelisted address), with the dry-run flag of the live configuration, no more than its caps allow; only source
  pairs its policy permits; and no call at all when it is a dry run.\<close>

theorem restart_obeys_live_config:
  assumes "rehydrate be now cfg file mit_new = Done m'"
  shows "list_all (\<lambda>(a, b). is_active b \<and> \<not> expired now b \<and> b_target b = a \<and> in_networks cfg a \<and> \<not> is_whitelisted cfg a
      \<and> b_dry_run b = c_dry_run cfg) (m_bans m')
    \<and> list_all (\<lambda>(p, b). is_active b \<and> \<not> expired now b \<and> b_prefix b = p \<and> prefix_in_networks cfg p
      \<and> \<not> prefix_contains_whitelisted cfg p \<and> b_dry_run b = c_dry_run cfg) (m_pbans m')
    \<and> int (active_count m') \<le> max 0 (max_active_bans (c_ban cfg))
    \<and> int (active_prefix_bans m') \<le> (case c_carpet cfg of None \<Rightarrow> 0 | Some cp \<Rightarrow> max 0 (cp_max_active cp))
    \<and> list_all (\<lambda>(v, sb). source_block_policy be cfg v s = None \<and> now \<le> sb_expires sb \<and> sb_dry_run sb = c_dry_run cfg)
      (pairs_of (m_src m') s)
    \<and> (\<not> c_dry_run cfg \<or> io_log (m_io m') = [])"
proof -
  have l: "lawful now cfg m'" "list_all (pair_lawful be now cfg s) (pairs_of (m_src m') s)"
    using rehydrate_lawful [OF assms] by (simp_all add: pairs_lawful_def)
  note mono = list.pred_mono_strong
  have "list_all (\<lambda>(v, sb). source_block_policy be cfg v s = None \<and> now \<le> sb_expires sb \<and> sb_dry_run sb = c_dry_run cfg)
      (pairs_of (m_src m') s)"
    by (rule mono [OF l(2)]) (auto simp: pair_lawful_def pair_ok_def)
  moreover have "list_all (\<lambda>(a, b). is_active b \<and> \<not> expired now b \<and> b_target b = a \<and> in_networks cfg a
      \<and> \<not> is_whitelisted cfg a \<and> b_dry_run b = c_dry_run cfg) (m_bans m')"
    using l(1) by (auto simp: lawful_def host_lawful_def elim!: mono)
  moreover have "list_all (\<lambda>(p, b). is_active b \<and> \<not> expired now b \<and> b_prefix b = p \<and> prefix_in_networks cfg p
      \<and> \<not> prefix_contains_whitelisted cfg p \<and> b_dry_run b = c_dry_run cfg) (m_pbans m')"
    using l(1) by (auto simp: lawful_def pfx_lawful_def elim!: mono)
  ultimately show ?thesis using l(1) by (simp add: lawful_def caps_inv_def)
qed

theorem restart_obeys_live_config_witness:
  "map fst (m_bans ex_restarted) = [ex_victim] \<and> in_networks ex_cfg ex_victim \<and> \<not> is_whitelisted ex_cfg ex_victim"
proof -
  obtain b where b: "m_bans ex_restarted = [(ex_victim, b)]" using ex_restarted_bans by auto
  show ?thesis using restart_obeys_live_config [OF ex_restarted] by (simp add: b)
qed

text \<open>C39: a restart panics exactly when the configuration has lost its carpet block and the file is readable, of the
  current version, and holds a carpet ban that would otherwise pass the checks made before the cap; in every other case,
  an unreadable or malformed file included, it goes through.\<close>

theorem restart_panics_iff:
  "rehydrate be now cfg (Some d) m = Crash \<longleftrightarrow>
   c_carpet cfg = None \<and> (case load d of Inl e \<Rightarrow> False
     | Inr st \<Rightarrow> list_ex (\<lambda>s. pfx_valid (pb_prefix s) \<and> (is_zero_time (pb_expires s) \<or> now \<le> pb_expires s)
         \<and> \<not> prefix_contains_whitelisted cfg (pb_prefix s) \<and> prefix_in_networks cfg (pb_prefix s)) (ps_prefixes st))"
  by (cases "load d") (auto simp: rehydrate_Crash prefix_refused_iff snapshot_expired_def list_ex_iff not_less)

end
