(* ===== verification/KernelMaps.thy ===== *)
theory KernelMaps
  imports KernelSelect
begin

unbundle bit_operations_syntax

text \<open>
  The maps the XDP program reads and the code that writes them:
  \<^verbatim>\<open>src/engine/internal/dataplane/maps_linux.go\<close>, the profile encoder of \<^verbatim>\<open>encode.go\<close>, the sizing of
  \<^verbatim>\<open>limits.go\<close>, and the order in which \<^verbatim>\<open>src/engine/bpf/kapkan_xdp.c\<close> consults the maps.

  A map operation is a system call that may fail. \<open>km_fault\<close> says which calls of a run fail, by their
  number, and \<open>km_clock\<close> what the boot clock reads at each; every theorem holds for all of them. An
  operation is a function from the state to a result and a state, \<open>'a + error\<close> with the error on the
  left, and \<open>kwp\<close> gives its weakest precondition. The state is an extensible record: the manager and
  the installer add their own fields to the maps.
\<close>

section \<open>Operations that may fail\<close>

datatype dp_fault = Syscall | BadGeneration | PastStride | TooManyRules | MappedVictim | InvalidPrefix
  | NoRules | BadTtl | NoClock | NoPolicySlots | NoProfileSlots | StrideZero | BadEncoding encode_error
  | UnknownProfile | TooManyProfiles | RestartRequired | Closed

type_synonym ('a, 's) kop = "'s \<Rightarrow> (dp_fault + 'a) \<times> 's"

definition kret :: "'a \<Rightarrow> ('a, 's) kop" where "kret x s = (Inr x, s)"

definition kfail :: "dp_fault \<Rightarrow> ('a, 's) kop" where "kfail e s = (Inl e, s)"

definition kbind :: "('a, 's) kop \<Rightarrow> ('a \<Rightarrow> ('b, 's) kop) \<Rightarrow> ('b, 's) kop" where
  "kbind a f s = (case a s of (Inl e, t) \<Rightarrow> (Inl e, t) | (Inr x, t) \<Rightarrow> f x t)"

definition kget :: "('s \<Rightarrow> 'a) \<Rightarrow> ('a, 's) kop" where "kget f s = (Inr (f s), s)"

definition kmod :: "('s \<Rightarrow> 's) \<Rightarrow> (unit, 's) kop" where "kmod f s = (Inr (), f s)"

text \<open>Run an operation and hand its outcome back as a value.\<close>

definition ktry :: "('a, 's) kop \<Rightarrow> (dp_fault + 'a, 's) kop" where
  "ktry a s = (case a s of (r, t) \<Rightarrow> (Inr r, t))"

definition kwhen :: "bool \<Rightarrow> (unit, 's) kop \<Rightarrow> (unit, 's) kop" where
  "kwhen b a = (if b then a else kret ())"

fun kfor :: "('a \<Rightarrow> (unit, 's) kop) \<Rightarrow> 'a list \<Rightarrow> (unit, 's) kop" where
  "kfor f [] = kret ()"
| "kfor f (x # xs) = kbind (f x) (\<lambda>_. kfor f xs)"

definition kwp :: "('a, 's) kop \<Rightarrow> ('a \<Rightarrow> 's \<Rightarrow> bool) \<Rightarrow> (dp_fault \<Rightarrow> 's \<Rightarrow> bool) \<Rightarrow> 's \<Rightarrow> bool" where
  "kwp a Q E s = (case a s of (Inl e, t) \<Rightarrow> E e t | (Inr x, t) \<Rightarrow> Q x t)"

named_theorems wp_simps "weakest preconditions of the operations"

lemma kwp_ret [wp_simps]: "kwp (kret x) Q E = Q x"
  by (rule ext) (simp add: kwp_def kret_def)

lemma kwp_fail [wp_simps]: "kwp (kfail e) Q E = E e"
  by (rule ext) (simp add: kwp_def kfail_def)

lemma kwp_bind [wp_simps]: "kwp (kbind a f) Q E = kwp a (\<lambda>x. kwp (f x) Q E) E"
  by (rule ext) (auto simp: kwp_def kbind_def split: prod.splits sum.splits)

lemma kwp_get [wp_simps]: "kwp (kget f) Q E = (\<lambda>s. Q (f s) s)"
  by (rule ext) (simp add: kwp_def kget_def)

lemma kwp_mod [wp_simps]: "kwp (kmod f) Q E = (\<lambda>s. Q () (f s))"
  by (rule ext) (simp add: kwp_def kmod_def)

lemma kwp_try [wp_simps]: "kwp (ktry a) Q E = kwp a (\<lambda>x. Q (Inr x)) (\<lambda>e. Q (Inl e))"
  by (rule ext) (auto simp: kwp_def ktry_def split: prod.splits sum.splits)

lemma kwp_if [wp_simps]: "kwp (if b then x else y) Q E = (if b then kwp x Q E else kwp y Q E)"
  by simp

lemma kwp_when [wp_simps]: "kwp (kwhen b a) Q E = (if b then kwp a Q E else Q ())"
  by (simp add: kwhen_def wp_simps)

lemma kwp_mono:
  "kwp a Q E s \<Longrightarrow> (\<And>x t. Q x t \<Longrightarrow> Q' x t) \<Longrightarrow> (\<And>e t. E e t \<Longrightarrow> E' e t) \<Longrightarrow> kwp a Q' E' s"
  by (auto simp: kwp_def split: prod.splits sum.splits)

lemma kwp_conj:
  "kwp a Q E s \<Longrightarrow> kwp a Q' E' s \<Longrightarrow> kwp a (\<lambda>x t. Q x t \<and> Q' x t) (\<lambda>e t. E e t \<and> E' e t) s"
  by (auto simp: kwp_def split: prod.splits sum.splits)

lemma kwp_Inr: "a s = (Inr x, t) \<Longrightarrow> kwp a Q E s \<Longrightarrow> Q x t"
  by (simp add: kwp_def)

lemma kwp_Inl: "a s = (Inl e, t) \<Longrightarrow> kwp a Q E s \<Longrightarrow> E e t"
  by (simp add: kwp_def)

lemma kwp_case_option [wp_simps]:
  "kwp (case x of None \<Rightarrow> a | Some y \<Rightarrow> b y) Q E = (case x of None \<Rightarrow> kwp a Q E | Some y \<Rightarrow> kwp (b y) Q E)"
  by (cases x) auto

lemma kwp_case_sum [wp_simps]:
  "kwp (case x of Inl y \<Rightarrow> a y | Inr z \<Rightarrow> b z) Q E = (case x of Inl y \<Rightarrow> kwp (a y) Q E | Inr z \<Rightarrow> kwp (b z) Q E)"
  by (cases x) auto

lemma kwp_case_prod [wp_simps]:
  "kwp (case x of (y, z) \<Rightarrow> a y z) Q E = (case x of (y, z) \<Rightarrow> kwp (a y z) Q E)"
  by (cases x) auto

text \<open>A loop, by an invariant on what is done and what is left.\<close>

lemma kwp_for:
  assumes "I xs s" "\<And>x rest t. I (x # rest) t \<Longrightarrow> kwp (f x) (\<lambda>_. I rest) E t"
  shows "kwp (kfor f xs) (\<lambda>_. I []) E s"
  using assms(1)
proof (induction xs arbitrary: s)
  case (Cons x xs)
  show ?case
    unfolding kfor.simps kwp_bind by (rule kwp_mono [OF assms(2) [OF Cons.prems] Cons.IH])
qed (simp add: wp_simps)

section \<open>The maps\<close>

definition generations :: "32 word" where "generations = 2"
definition max_profiles :: "32 word" where "max_profiles = 256"
definition dynamic_profile_base :: "32 word" where "dynamic_profile_base = 192"
definition map_schema_version :: "32 word" where "map_schema_version = 2"

record policy_block =
  pb_n :: "32 word"
  pb_rules :: "krule list"

record kprofile =
  pf_rate_pps :: "64 word"
  pf_burst_pps :: "64 word"
  pf_rate_bps :: "64 word"
  pf_burst_bps :: "64 word"
  pf_ns_per_pkt :: "64 word"
  pf_ns_per_byte :: "64 word"
  pf_pkt_q32 :: "64 word"
  pf_byte_q32 :: "64 word"

record kconfig =
  kc_generation :: "32 word"
  kc_schema :: "32 word"
  kc_policy_stride :: "32 word"
  kc_static_stride :: "32 word"
  kc_static_count :: "32 word"
  kc_dry_run :: bool
  kc_drop_malformed :: bool
  kc_fp_enabled :: bool
  kc_fp_burst :: "64 word"
  kc_fp_rate :: "64 word"

text \<open>
  The tries of the two families share a field: a key carries its family. A rule counter is the sum of
  its per-CPU pairs.
\<close>

record kmaps =
  km_cfg :: kconfig
  km_profiles :: "kprofile list"
  km_statics :: "krule list"
  km_policies :: "policy_block list"
  km_victims :: "(prefix, 32 word) table"
  km_allow :: "(prefix, unit) table"
  km_protect :: "(prefix, unit) table"
  km_rule_stats :: "(32 word, 64 word \<times> 64 word) table"
  km_calls :: nat
  km_fault :: "nat \<Rightarrow> bool"
  km_clock :: "nat \<Rightarrow> 64 word"

text \<open>A system call: it takes its number, and fails or changes the maps.\<close>

definition ksys :: "('m kmaps_scheme \<Rightarrow> dp_fault + 'a) \<Rightarrow> ('m kmaps_scheme \<Rightarrow> 'm kmaps_scheme) \<Rightarrow> ('a, 'm kmaps_scheme) kop" where
  "ksys r f s = (let t = s \<lparr> km_calls := Suc (km_calls s) \<rparr> in
     if km_fault s (km_calls s) then (Inl Syscall, t) else case r s of Inl e \<Rightarrow> (Inl e, t) | Inr x \<Rightarrow> (Inr x, f t))"

definition kwrite :: "('m kmaps_scheme \<Rightarrow> 'm kmaps_scheme) \<Rightarrow> (unit, 'm kmaps_scheme) kop" where
  "kwrite f = ksys (\<lambda>_. Inr ()) f"

definition kread :: "('m kmaps_scheme \<Rightarrow> 'a option) \<Rightarrow> ('a, 'm kmaps_scheme) kop" where
  "kread g = ksys (\<lambda>s. case g s of None \<Rightarrow> Inl Syscall | Some x \<Rightarrow> Inr x) (\<lambda>s. s)"

text \<open>An update of an array map: an index past the end is an error.\<close>

definition kput :: "('m kmaps_scheme \<Rightarrow> nat) \<Rightarrow> nat \<Rightarrow> ('m kmaps_scheme \<Rightarrow> 'm kmaps_scheme) \<Rightarrow> (unit, 'm kmaps_scheme) kop" where
  "kput sz i f = ksys (\<lambda>s. if i < sz s then Inr () else Inl Syscall) f"

definition boot_ns :: "(64 word, 'm kmaps_scheme) kop" where
  "boot_ns s = (Inr (km_clock s (km_calls s)), s \<lparr> km_calls := Suc (km_calls s) \<rparr>)"

section \<open>Profiles\<close>

record profile_spec =
  ps_pps :: "64 word"
  ps_burst_packets :: "64 word"
  ps_bytes :: "64 word"
  ps_burst_bytes :: "64 word"

definition profile_none :: profile_spec where
  "profile_none = \<lparr> ps_pps = 0, ps_burst_packets = 0, ps_bytes = 0, ps_burst_bytes = 0 \<rparr>"

definition q32_per_ns :: "64 word \<Rightarrow> 64 word" where
  "q32_per_ns rate = (if rate = 0 then 0
     else push_bit 32 (if 0xFFFFFFFF < rate then 0xFFFFFFFF else rate) div 1000000000)"

definition profile_from_config :: "64 word \<Rightarrow> 64 word \<Rightarrow> profile_spec" where
  "profile_from_config pps mbps =
     \<lparr> ps_pps = pps, ps_burst_packets = 0, ps_bytes = mbps * 1000000 div 8, ps_burst_bytes = 0 \<rparr>"

definition profile_encode :: "profile_spec \<Rightarrow> kprofile" where
  "profile_encode s = \<lparr> pf_rate_pps = ps_pps s,
     pf_burst_pps = (if 0 < ps_pps s \<and> ps_burst_packets s = 0 then max (ps_pps s) 1 else ps_burst_packets s),
     pf_rate_bps = ps_bytes s,
     pf_burst_bps = (if 0 < ps_bytes s \<and> ps_burst_bytes s = 0 then max (ps_bytes s) 1 else ps_burst_bytes s),
     pf_ns_per_pkt = (if 0 < ps_pps s then 1000000000 div ps_pps s else 0),
     pf_ns_per_byte = (if 0 < ps_bytes s then 1000000000 div ps_bytes s else 0),
     pf_pkt_q32 = q32_per_ns (ps_pps s), pf_byte_q32 = q32_per_ns (ps_bytes s) \<rparr>"

definition put_profile :: "32 word \<Rightarrow> profile_spec \<Rightarrow> (unit, 'm kmaps_scheme) kop" where
  "put_profile i s = kput (\<lambda>m. length (km_profiles m)) (unat i)
     (\<lambda>m. m \<lparr> km_profiles := (km_profiles m)[unat i := profile_encode s] \<rparr>)"

section \<open>Prefix tries\<close>

text \<open>A key is the masked prefix; the tries of one list differ only in the map they live in.\<close>

definition add_victim :: "prefix \<Rightarrow> 32 word \<Rightarrow> (unit, 'm kmaps_scheme) kop" where
  "add_victim p i = (if is4in6 (pfx_addr p) then kfail MappedVictim
     else kwrite (\<lambda>m. m \<lparr> km_victims := tput (pfx_masked p) i (km_victims m) \<rparr>))"

definition delete_victim :: "prefix \<Rightarrow> (unit, 'm kmaps_scheme) kop" where
  "delete_victim p = kwrite (\<lambda>m. m \<lparr> km_victims := tdel (pfx_masked p) (km_victims m) \<rparr>)"

definition put_prefix :: "((prefix, unit) table \<Rightarrow> (prefix, unit) table) \<Rightarrow> bool \<Rightarrow> (unit, 'm kmaps_scheme) kop" where
  "put_prefix f allow = kwrite (if allow then (\<lambda>m. m \<lparr> km_allow := f (km_allow m) \<rparr>) else (\<lambda>m. m \<lparr> km_protect := f (km_protect m) \<rparr>))"

definition add_prefix :: "bool \<Rightarrow> prefix \<Rightarrow> (unit, 'm kmaps_scheme) kop" where
  "add_prefix allow p = (if \<not> pfx_valid p then kfail InvalidPrefix
     else if is4in6 (pfx_addr p) then kfail MappedVictim else put_prefix (tput (pfx_masked p) ()) allow)"

definition delete_prefix :: "bool \<Rightarrow> prefix \<Rightarrow> (unit, 'm kmaps_scheme) kop" where
  "delete_prefix allow p = put_prefix (tdel (pfx_masked p)) allow"

section \<open>Rule sets and the configuration word\<close>

definition policy_stride :: "'m kmaps_scheme \<Rightarrow> 32 word" where
  "policy_stride m = word_of_nat (length (km_policies m)) div generations"

definition static_stride :: "'m kmaps_scheme \<Rightarrow> 32 word" where
  "static_stride m = word_of_nat (length (km_statics m)) div generations"

definition block_of :: "krule list \<Rightarrow> policy_block" where
  "block_of rs = \<lparr> pb_n = word_of_nat (length rs), pb_rules = rs @ replicate (rules_per_policy - length rs) krule_zero \<rparr>"

definition put_block :: "32 word \<Rightarrow> policy_block \<Rightarrow> (unit, 'm kmaps_scheme) kop" where
  "put_block i b = kput (\<lambda>m. length (km_policies m)) (unat i)
     (\<lambda>m. m \<lparr> km_policies := (km_policies m)[unat i := b] \<rparr>)"

definition put_policy :: "32 word \<Rightarrow> 32 word \<Rightarrow> krule list \<Rightarrow> (unit, 'm kmaps_scheme) kop" where
  "put_policy gen i rs = (if rules_per_policy < length rs then kfail TooManyRules
     else if generations \<le> gen then kfail BadGeneration
     else kbind (kget policy_stride) (\<lambda>stride.
       if stride \<le> i then kfail PastStride else put_block (gen * stride + i) (block_of rs)))"

definition put_static :: "32 word \<Rightarrow> krule \<Rightarrow> (unit, 'm kmaps_scheme) kop" where
  "put_static i r = kput (\<lambda>m. length (km_statics m)) (unat i)
     (\<lambda>m. m \<lparr> km_statics := (km_statics m)[unat i := r] \<rparr>)"

text \<open>One half of the static rules: the rules, then zeroed slots up to the stride.\<close>

definition static_slots :: "32 word \<Rightarrow> 32 word \<Rightarrow> krule list \<Rightarrow> (32 word \<times> krule) list" where
  "static_slots gen stride rs = map (\<lambda>i. (gen * stride + word_of_nat i,
     if i < length rs then rs ! i else krule_zero)) [0..<unat stride]"

definition put_statics :: "32 word \<Rightarrow> krule list \<Rightarrow> (32 word, 'm kmaps_scheme) kop" where
  "put_statics gen rs = (if generations \<le> gen then kfail BadGeneration
     else kbind (kget static_stride) (\<lambda>stride.
       if stride < word_of_nat (length rs) then kfail PastStride
       else kbind (kfor (\<lambda>(i, r). put_static i r) (static_slots gen stride rs))
         (\<lambda>_. kret (word_of_nat (length rs)))))"

definition read_config :: "(kconfig, 'm kmaps_scheme) kop" where
  "read_config = kread (\<lambda>m. Some (km_cfg m))"

definition put_config :: "kconfig \<Rightarrow> (unit, 'm kmaps_scheme) kop" where
  "put_config c = kwrite (\<lambda>m. m \<lparr> km_cfg := c \<rparr>)"

record dp_flags =
  df_dry_run :: bool
  df_drop_malformed :: bool
  df_fp_enabled :: bool
  df_fp_pps :: "64 word"
  df_fp_burst :: "64 word"

definition set_fp_config :: "dp_flags \<Rightarrow> kconfig \<Rightarrow> kconfig" where
  "set_fp_config o1 c = c \<lparr> kc_fp_enabled := df_fp_enabled o1, kc_fp_rate := q32_per_ns (df_fp_pps o1),
     kc_fp_burst := (if df_fp_burst o1 = 0 \<and> 0 < df_fp_pps o1 then max (df_fp_pps o1) 1 else df_fp_burst o1) \<rparr>"

text \<open>\<^verbatim>\<open>PutConfig\<close>: the whole word, at attach.\<close>

definition init_config :: "32 word \<Rightarrow> 32 word \<Rightarrow> dp_flags \<Rightarrow> (unit, 'm kmaps_scheme) kop" where
  "init_config gen count o1 = (if generations \<le> gen then kfail BadGeneration
     else kbind (kget (\<lambda>m. set_fp_config o1 \<lparr> kc_generation = gen, kc_schema = map_schema_version,
         kc_policy_stride = policy_stride m, kc_static_stride = static_stride m, kc_static_count = count,
         kc_dry_run = df_dry_run o1, kc_drop_malformed = df_drop_malformed o1,
         kc_fp_enabled = False, kc_fp_burst = 0, kc_fp_rate = 0 \<rparr>)) put_config)"

definition put_flags :: "dp_flags \<Rightarrow> (unit, 'm kmaps_scheme) kop" where
  "put_flags o1 = kbind read_config (\<lambda>c. put_config (set_fp_config o1
     (c \<lparr> kc_dry_run := df_dry_run o1, kc_drop_malformed := df_drop_malformed o1 \<rparr>)))"

definition inactive_generation :: "(32 word, 'm kmaps_scheme) kop" where
  "inactive_generation = kbind read_config (\<lambda>c. kret ((kc_generation c + 1) mod generations))"

definition activate :: "32 word \<Rightarrow> 32 word \<Rightarrow> (unit, 'm kmaps_scheme) kop" where
  "activate gen count = (if generations \<le> gen then kfail BadGeneration
     else kbind read_config (\<lambda>c. if kc_static_stride c < count then kfail PastStride
       else put_config (c \<lparr> kc_generation := gen, kc_static_count := count \<rparr>)))"

section \<open>Counters\<close>

definition ensure_rule_stats :: "32 word list \<Rightarrow> (unit, 'm kmaps_scheme) kop" where
  "ensure_rule_stats ids = kfor (\<lambda>i. kwrite (\<lambda>m. m \<lparr> km_rule_stats := tput i (0, 0) (km_rule_stats m) \<rparr>)) ids"

definition delete_rule_stats :: "32 word list \<Rightarrow> (unit, 'm kmaps_scheme) kop" where
  "delete_rule_stats ids = kfor (\<lambda>i. kwrite (\<lambda>m. m \<lparr> km_rule_stats := tdel i (km_rule_stats m) \<rparr>)) ids"

text \<open>\<^verbatim>\<open>ReadRuleStats\<close>: a missing entry is not an error.\<close>

definition read_rule_stats :: "32 word \<Rightarrow> ((64 word \<times> 64 word) option, 'm kmaps_scheme) kop" where
  "read_rule_stats i = kread (\<lambda>m. Some (tget (km_rule_stats m) i))"

section \<open>Sizing\<close>

record limits =
  lim_dynamic :: int
  lim_static :: int
  lim_sources :: int

record map_sizing =
  ms_policies :: "32 word"
  ms_statics :: "32 word"
  ms_rl_sources :: "32 word"
  ms_rule_stats :: "32 word"
  ms_policy_stride :: "32 word"
  ms_static_stride :: "32 word"

definition default_limits :: limits where
  "default_limits = \<lparr> lim_dynamic = 4096, lim_static = 256, lim_sources = 1048576 \<rparr>"

definition static_expansion :: int where "static_expansion = 2"

text \<open>The refusals, by the entry they name; \<open>int\<close> division rounds as Go's does on positive numbers.\<close>

definition in_map_range :: "int \<Rightarrow> bool" where
  "in_map_range v \<longleftrightarrow> 1 \<le> v \<and> v \<le> 2 ^ 31"

definition resolve_sizing :: "limits \<Rightarrow> map_sizing option" where
  "resolve_sizing l = (if lim_dynamic l < 1 \<or> lim_static l < 1 \<or> lim_sources l < 1 then None
     else let ps = (lim_dynamic l + int rules_per_policy - 1) div int rules_per_policy;
              ss = lim_static l * static_expansion;
              rs = lim_dynamic l + ss
          in if in_map_range (ps * 2) \<and> in_map_range (ss * 2) \<and> in_map_range (lim_sources l) \<and> in_map_range rs
             then Some \<lparr> ms_policies = word_of_int (ps * 2), ms_statics = word_of_int (ss * 2),
                    ms_rl_sources = word_of_int (lim_sources l), ms_rule_stats = word_of_int rs,
                    ms_policy_stride = word_of_int ps, ms_static_stride = word_of_int ss \<rparr>
             else None)"

section \<open>What the program reads\<close>

datatype kverdict = ByAllow | ByProtect | ByStatic krule | BySource krule | ByDestination krule | ByDefault

definition slot_addr :: "bool \<Rightarrow> 128 word \<Rightarrow> addr" where
  "slot_addr v6 w = (if v6 then V6 w [] else V4 (ucast (drop_bit 96 w)))"

definition trie_holds :: "(prefix, unit) table \<Rightarrow> addr \<Rightarrow> bool" where
  "trie_holds t a = list_ex (\<lambda>(p, _). contains p a) t"

text \<open>The longest prefix that holds an address.\<close>

fun trie_lookup :: "(prefix, 32 word) table \<Rightarrow> addr \<Rightarrow> (int \<times> 32 word) option" where
  "trie_lookup [] a = None"
| "trie_lookup ((p, v) # t) a = (case trie_lookup t a of
     None \<Rightarrow> if contains p a then Some (pfx_bits p, v) else None
   | Some (n, w) \<Rightarrow> if contains p a \<and> n \<le> pfx_bits p then Some (pfx_bits p, v) else Some (n, w))"

definition rule_hits :: "kpacket \<Rightarrow> krule \<Rightarrow> bool" where
  "rule_hits p r \<longleftrightarrow> rule_match r p \<and> \<not> rule_expired r (kp_now p)"

definition block_rules :: "policy_block \<Rightarrow> krule list" where
  "block_rules b = take (min rules_per_policy (unat (pb_n b))) (pb_rules b)"

definition scan_policy :: "'m kmaps_scheme \<Rightarrow> kpacket \<Rightarrow> addr \<Rightarrow> krule option" where
  "scan_policy m p anchor = (case trie_lookup (km_victims m) anchor of
     None \<Rightarrow> None
   | Some (_, i) \<Rightarrow> let idx = unat (kc_generation (km_cfg m) * kc_policy_stride (km_cfg m) + i) in
       if length (km_policies m) \<le> idx then None
       else List.find (rule_hits p) (block_rules (km_policies m ! idx)))"

definition max_static_rules :: nat where "max_static_rules = 256"

text \<open>The slots the bounded loop visits, in order, up to the end of the map.\<close>

definition live_statics :: "'m kmaps_scheme \<Rightarrow> krule list" where
  "live_statics m = (let c = km_cfg m in
     take (min max_static_rules (unat (kc_static_count c))) (drop (unat (kc_generation c * kc_static_stride c)) (km_statics m)))"

definition decide :: "'m kmaps_scheme \<Rightarrow> kpacket \<Rightarrow> kverdict" where
  "decide m p = (let src = slot_addr (kp_v6 p) (kp_src p); dst = slot_addr (kp_v6 p) (kp_dst p) in
     if trie_holds (km_allow m) src then ByAllow
     else if trie_holds (km_protect m) dst then ByProtect
     else case List.find (rule_hits p) (live_statics m) of
       Some r \<Rightarrow> ByStatic r
     | None \<Rightarrow> (case scan_policy m p src of
         Some r \<Rightarrow> BySource r
       | None \<Rightarrow> (case scan_policy m p dst of Some r \<Rightarrow> ByDestination r | None \<Rightarrow> ByDefault)))"

end
