(* ===== verification/StaticPolicy.thy ===== *)
theory StaticPolicy
  imports KernelMaps
begin

unbundle bit_operations_syntax

text \<open>
  The operator's half of the data plane: static policies (\<^verbatim>\<open>src/engine/internal/dataplane/options.go\<close>),
  the analysis of rules that can never fire (\<^verbatim>\<open>shadow.go\<close>), the compiler to kernel rules, the
  reconciliation of the prefix tries and the copy of the policy blocks across a generation flip
  (\<^verbatim>\<open>install_linux.go\<close>), and the publication of a policy (\<^verbatim>\<open>installPolicyLocked\<close> and \<^verbatim>\<open>Reload\<close> in
  \<^verbatim>\<open>manager.go\<close>).
\<close>

section \<open>Policies\<close>

record static_rule =
  sr_name :: string
  sr_src :: prefix
  sr_proto :: "8 word option"
  sr_src_port :: "16 word option"
  sr_dst_port :: "16 word option"
  sr_action :: "8 word"
  sr_profile :: string
  sr_match_ext :: "8 word"

record named_rate =
  nr_name :: string
  nr_pps :: "64 word"
  nr_mbps :: "64 word"

record static_policy =
  spo_allow :: "prefix list"
  spo_protected :: "prefix list"
  spo_profiles :: "named_rate list"
  spo_statics :: "static_rule list"

definition proto_icmp :: "8 word" where "proto_icmp = 1"
definition proto_icmp6 :: "8 word" where "proto_icmp6 = 58"

section \<open>Rules that can never fire\<close>

definition default_route :: "bool \<Rightarrow> prefix" where
  "default_route v6 = prefix_from (if v6 then V6 0 [] else V4 0) 0"

definition families_for :: "static_rule \<Rightarrow> bool list" where
  "families_for r = (if pfx_valid (sr_src r) then [is6 (pfx_addr (sr_src r))]
     else if sr_proto r = Some proto_icmp then [False]
     else if sr_proto r = Some proto_icmp6 then [True]
     else [False, True])"

definition covers :: "prefix \<Rightarrow> prefix \<Rightarrow> bool" where
  "covers a t \<longleftrightarrow> pfx_valid a \<and> pfx_valid t \<and> is4 (pfx_addr a) = is4 (pfx_addr t)
     \<and> pfx_bits a \<le> pfx_bits t \<and> contains a (pfx_addr (pfx_masked t))"

definition covers_field :: "'a option \<Rightarrow> 'a option \<Rightarrow> bool" where
  "covers_field a b \<longleftrightarrow> a = None \<or> b \<noteq> None \<and> a = b"

definition covers_match_ext :: "8 word \<Rightarrow> 8 word \<Rightarrow> bool" where
  "covers_match_ext a b \<longleftrightarrow> a AND NOT b = 0"

definition covers_src :: "prefix \<Rightarrow> prefix \<Rightarrow> bool \<Rightarrow> bool" where
  "covers_src a b v6 \<longleftrightarrow> \<not> pfx_valid a \<or> covers a (if pfx_valid b then b else default_route v6)"

definition has_family :: "static_rule \<Rightarrow> bool \<Rightarrow> bool" where
  "has_family r v6 \<longleftrightarrow> v6 \<in> set (families_for r)"

definition match_covers :: "static_rule \<Rightarrow> static_rule \<Rightarrow> bool \<Rightarrow> bool" where
  "match_covers a b v6 \<longleftrightarrow> covers_field (sr_proto a) (sr_proto b)
     \<and> covers_field (sr_src_port a) (sr_src_port b) \<and> covers_field (sr_dst_port a) (sr_dst_port b)
     \<and> covers_match_ext (sr_match_ext a) (sr_match_ext b) \<and> covers_src (sr_src a) (sr_src b) v6"

definition covering_rule :: "static_rule list \<Rightarrow> static_rule \<Rightarrow> bool \<Rightarrow> string option" where
  "covering_rule earlier r v6 =
     map_option sr_name (List.find (\<lambda>e. has_family e v6 \<and> match_covers e r v6) earlier)"

text \<open>The names that take a rule's families, without a repeat of the one before.\<close>

fun cover_names :: "static_rule list \<Rightarrow> static_rule \<Rightarrow> bool list \<Rightarrow> string list \<Rightarrow> string list option" where
  "cover_names earlier r [] by1 = Some by1"
| "cover_names earlier r (v6 # fs) by1 = (case covering_rule earlier r v6 of
     None \<Rightarrow> None
   | Some n \<Rightarrow> cover_names earlier r fs (if by1 = [] \<or> last by1 \<noteq> n then by1 @ [n] else by1))"

text \<open>A reported rule: what the operator reads is rendered from these.\<close>

datatype shadow = ByAllowlist string prefix prefix | ByEarlier string "string list"

definition earlier_rule_shadow :: "static_rule list \<Rightarrow> static_rule \<Rightarrow> shadow option" where
  "earlier_rule_shadow earlier r = (if families_for r = [] \<or> earlier = [] then None
     else map_option (ByEarlier (sr_name r)) (cover_names earlier r (families_for r) []))"

definition allowlist_shadow :: "static_rule \<Rightarrow> prefix list \<Rightarrow> shadow list" where
  "allowlist_shadow r allow = (if sr_action r = act_pass then []
     else concat (map (\<lambda>v6. let target = (if pfx_valid (sr_src r) then sr_src r else default_route v6) in
       case List.find (\<lambda>a. covers a target) allow of
         None \<Rightarrow> []
       | Some a \<Rightarrow> [ByAllowlist (sr_name r) a target]) (families_for r)))"

fun shadowed_from :: "prefix list \<Rightarrow> static_rule list \<Rightarrow> static_rule list \<Rightarrow> shadow list" where
  "shadowed_from allow earlier [] = []"
| "shadowed_from allow earlier (r # rs) = allowlist_shadow r allow
     @ (case earlier_rule_shadow earlier r of None \<Rightarrow> [] | Some s \<Rightarrow> [s])
     @ shadowed_from allow (earlier @ [r]) rs"

definition shadowed_statics :: "static_policy \<Rightarrow> shadow list" where
  "shadowed_statics pol = shadowed_from (spo_allow pol) [] (spo_statics pol)"

section \<open>The compiler\<close>

record compiled_policy =
  cp_rules :: "krule list"
  cp_ids :: "32 word list"
  cp_owner :: "string list"
  cp_profiles :: "(string, 32 word) table"
  cp_specs :: "(32 word, profile_spec) table"

text \<open>Names that keep the id they had.\<close>

fun keep_ids :: "(string, 32 word) table \<Rightarrow> named_rate list \<Rightarrow> (string, 32 word) table \<Rightarrow> 32 word list
    \<Rightarrow> (string, 32 word) table \<times> 32 word list" where
  "keep_ids prev [] pof taken = (pof, taken)"
| "keep_ids prev (p # ps) pof taken = (case tget prev (nr_name p) of
     Some i \<Rightarrow> if i \<notin> set taken then keep_ids prev ps (tput (nr_name p) i pof) (i # taken)
               else keep_ids prev ps pof taken
   | None \<Rightarrow> keep_ids prev ps pof taken)"

text \<open>The lowest free id from a start; the search cannot pass more taken ids than there are.\<close>

fun skip_taken :: "nat \<Rightarrow> 32 word list \<Rightarrow> 32 word \<Rightarrow> 32 word" where
  "skip_taken 0 taken n = n"
| "skip_taken (Suc fuel) taken n = (if n \<in> set taken then skip_taken fuel taken (n + 1) else n)"

fun fill_ids :: "named_rate list \<Rightarrow> (string, 32 word) table \<Rightarrow> 32 word list \<Rightarrow> 32 word
    \<Rightarrow> dp_fault + (string, 32 word) table" where
  "fill_ids [] pof taken nxt = Inr pof"
| "fill_ids (p # ps) pof taken nxt = (case tget pof (nr_name p) of
     Some _ \<Rightarrow> fill_ids ps pof taken nxt
   | None \<Rightarrow> let n = skip_taken (length taken) taken nxt in
       if dynamic_profile_base \<le> n then Inl TooManyProfiles
       else fill_ids ps (tput (nr_name p) n pof) (n # taken) n)"

fun profile_specs :: "(string, 32 word) table \<Rightarrow> named_rate list \<Rightarrow> (32 word, profile_spec) table" where
  "profile_specs pof [] = []"
| "profile_specs pof (p # ps) = tput (case tget pof (nr_name p) of Some i \<Rightarrow> i | None \<Rightarrow> 0)
     (profile_from_config (nr_pps p) (nr_mbps p)) (profile_specs pof ps)"

definition static_spec :: "static_rule \<Rightarrow> 32 word \<Rightarrow> 32 word \<Rightarrow> bool \<Rightarrow> rule_spec" where
  "static_spec r i prof v6 = \<lparr> sp_id = i, sp_action = sr_action r, sp_profile = prof, sp_expires = 0, sp_ttl = 0,
     sp_src = sr_src r, sp_dst = prefix_none, sp_proto = sr_proto r, sp_src_port = sr_src_port r,
     sp_dst_port = sr_dst_port r, sp_tcp_flags = 0, sp_tcp_mask = 0, sp_fragment = False,
     sp_match_ext = sr_match_ext r, sp_ipv6 = v6 \<rparr>"

definition static_rule_id :: "nat \<Rightarrow> nat \<Rightarrow> 32 word" where
  "static_rule_id i fi = static_rule_id_base + word_of_int (int i * static_expansion + int fi)"

text \<open>The kernel rules of one config rule, with the slot of each family.\<close>

fun compile_families :: "static_rule \<Rightarrow> nat \<Rightarrow> 32 word \<Rightarrow> nat \<Rightarrow> bool list \<Rightarrow> dp_fault + (krule \<times> 32 word \<times> string) list" where
  "compile_families r i prof fi [] = Inr []"
| "compile_families r i prof fi (v6 # fs) = (case encode (static_spec r (static_rule_id i fi) prof v6) of
     Inl e \<Rightarrow> Inl (BadEncoding e)
   | Inr k \<Rightarrow> (case compile_families r i prof (Suc fi) fs of
       Inl e \<Rightarrow> Inl e
     | Inr ks \<Rightarrow> Inr ((k, static_rule_id i fi, sr_name r) # ks)))"

definition compile_rule :: "(string, 32 word) table \<Rightarrow> nat \<Rightarrow> static_rule \<Rightarrow> dp_fault + (krule \<times> 32 word \<times> string) list" where
  "compile_rule pof i r =
     (if sr_action r = act_rate_limit
      then (case tget pof (sr_profile r) of None \<Rightarrow> Inl UnknownProfile
            | Some prof \<Rightarrow> compile_families r i prof 0 (families_for r))
      else compile_families r i 0 0 (families_for r))"

fun compile_rules :: "(string, 32 word) table \<Rightarrow> nat \<Rightarrow> static_rule list \<Rightarrow> dp_fault + (krule \<times> 32 word \<times> string) list" where
  "compile_rules pof i [] = Inr []"
| "compile_rules pof i (r # rs) = (case compile_rule pof i r of
     Inl e \<Rightarrow> Inl e
   | Inr ks \<Rightarrow> (case compile_rules pof (Suc i) rs of Inl e \<Rightarrow> Inl e | Inr ks' \<Rightarrow> Inr (ks @ ks')))"

definition compile_policy :: "static_policy \<Rightarrow> map_sizing \<Rightarrow> (string, 32 word) table \<Rightarrow> dp_fault + compiled_policy" where
  "compile_policy pol sizing prev =
     (let (kept, taken) = keep_ids prev (spo_profiles pol) [] [] in
      case fill_ids (spo_profiles pol) kept taken 0 of
        Inl e \<Rightarrow> Inl e
      | Inr pof \<Rightarrow> (case compile_rules pof 0 (spo_statics pol) of
          Inl e \<Rightarrow> Inl e
        | Inr ks \<Rightarrow> if ms_static_stride sizing < word_of_nat (length ks) then Inl PastStride
            else Inr \<lparr> cp_rules = map fst ks, cp_ids = map (fst \<circ> snd) ks, cp_owner = map (snd \<circ> snd) ks,
                   cp_profiles = pof, cp_specs = profile_specs pof (rev (spo_profiles pol)) \<rparr>))"

section \<open>Reconciliation\<close>

text \<open>What to add and what to remove; the additions of a list keep one entry per prefix given.\<close>

definition prefix_diff :: "prefix list \<Rightarrow> prefix list \<Rightarrow> prefix list \<times> prefix list" where
  "prefix_diff have1 want =
     (sort_key pfx_string (filter (\<lambda>p. p \<notin> set have1) want), sort_key pfx_string (filter (\<lambda>p. p \<notin> set want) have1))"

definition trie_entries :: "(prefix, unit) table \<Rightarrow> prefix list" where
  "trie_entries t = filter (is4 \<circ> pfx_addr) (map fst t) @ filter (is6 \<circ> pfx_addr) (map fst t)"

definition read_trie :: "bool \<Rightarrow> (prefix list, 'm kmaps_scheme) kop" where
  "read_trie allow = kread (\<lambda>m. Some (trie_entries (if allow then km_allow m else km_protect m)))"

definition reconcile_trie :: "bool \<Rightarrow> prefix list \<Rightarrow> (prefix list \<times> prefix list, 'm kmaps_scheme) kop" where
  "reconcile_trie allow want = kbind (read_trie allow) (\<lambda>have1.
     let (toadd, toremove) = prefix_diff have1 want in
     kbind (kfor (add_prefix allow) toadd) (\<lambda>_.
     kbind (kfor (delete_prefix allow) toremove) (\<lambda>_. kret (toadd, toremove))))"

text \<open>Every slot of the half being published is written from the half in use.\<close>

definition read_block :: "32 word \<Rightarrow> (policy_block, 'm kmaps_scheme) kop" where
  "read_block i = kread (\<lambda>m. if unat i < length (km_policies m) then Some (km_policies m ! unat i) else None)"

definition mirror_blocks :: "32 word \<Rightarrow> 32 word \<Rightarrow> 32 word \<Rightarrow> (unit, 'm kmaps_scheme) kop" where
  "mirror_blocks frm to stride = (if frm = to then kret ()
     else kfor (\<lambda>i. kbind (read_block (frm * stride + word_of_nat i)) (put_block (to * stride + word_of_nat i)))
       [0..<unat stride])"

definition rule_src_prefix :: "krule \<Rightarrow> prefix" where
  "rule_src_prefix r = (if bit (k_flags r) 7 then prefix_from (V6 (k_src r) []) (int (unat (k_src_len r)))
     else prefix_from (V4 (ucast (drop_bit 96 (k_src r)))) (int (unat (k_src_len r))))"

text \<open>The installed rules an allowlist entry now takes, counted block by block.\<close>

definition rule_shadowed :: "prefix list \<Rightarrow> krule \<Rightarrow> bool" where
  "rule_shadowed scan r \<longleftrightarrow> bit (k_flags r) 0 \<and> k_action r \<noteq> act_pass \<and> \<not> bit (k_flags r) 1
     \<and> list_ex (\<lambda>a. covers a (rule_src_prefix r)) scan"

fun count_shadowed :: "prefix list \<Rightarrow> 32 word \<Rightarrow> nat list \<Rightarrow> nat \<Rightarrow> (nat, 'm kmaps_scheme) kop" where
  "count_shadowed scan base [] n = kret n"
| "count_shadowed scan base (i # xs) n = kbind (read_block (base + word_of_nat i))
     (\<lambda>b. count_shadowed scan base xs (n + length (filter (rule_shadowed scan) (block_rules b))))"

definition shadowed_dynamic_rules :: "32 word \<Rightarrow> 32 word \<Rightarrow> prefix list \<Rightarrow> (nat, 'm kmaps_scheme) kop" where
  "shadowed_dynamic_rules gen stride scan = (if scan = [] \<or> stride = 0 then kret 0
     else count_shadowed scan (gen * stride) [0..<unat stride] 0)"

section \<open>Publishing a policy\<close>

record plane_options =
  po_interfaces :: "string list"
  po_xdp_mode :: string
  po_pin_path :: string
  po_on_exit :: string
  po_limits :: limits
  po_flags :: dp_flags
  po_policy :: static_policy

record manager = kmaps +
  mg_sizing :: map_sizing
  mg_profiles :: "(string, 32 word) table"
  mg_opts :: plane_options
  mg_shadowed :: "shadow list"
  mg_closed :: bool

record reload_report =
  rr_generation :: "32 word"
  rr_statics :: "32 word"
  rr_shadowed :: "shadow list"
  rr_shadowed_dynamic :: nat

definition put_profiles :: "(32 word, profile_spec) table \<Rightarrow> (unit, 'm kmaps_scheme) kop" where
  "put_profiles specs = kfor (\<lambda>(i, s). put_profile i s) specs"

text \<open>Ids whose name is gone are zeroed: a zeroed profile caps nothing.\<close>

definition retire_profiles :: "(string, 32 word) table \<Rightarrow> (string, 32 word) table \<Rightarrow> (unit, 'm kmaps_scheme) kop" where
  "retire_profiles old new = kfor (\<lambda>(n, i). kwhen (tget new n = None) (put_profile i profile_none)) old"

definition count_if_grown :: "prefix list \<Rightarrow> (nat, 'm manager_scheme) kop" where
  "count_if_grown added = (if added = [] then kret 0
     else kbind read_config (\<lambda>c. kbind (kget mg_sizing) (\<lambda>z.
       shadowed_dynamic_rules (kc_generation c) (ms_policy_stride z) added)))"

text \<open>Profiles first: a rule published below may name one. Then the ids whose name is gone are retired.\<close>

definition write_profiles :: "compiled_policy \<Rightarrow> (unit, 'm manager_scheme) kop" where
  "write_profiles c = kbind (put_profiles (cp_specs c)) (\<lambda>_.
     kbind (kget mg_profiles) (\<lambda>old.
     kbind (retire_profiles old (cp_profiles c)) (\<lambda>_.
     kmod (\<lambda>m. m \<lparr> mg_profiles := cp_profiles c \<rparr>))))"

text \<open>The dynamic rules are carried into the new half, and the half is made the one in use.\<close>

definition publish :: "32 word \<Rightarrow> 32 word \<Rightarrow> (unit, 'm manager_scheme) kop" where
  "publish gen count = kbind read_config (\<lambda>active.
     kbind (kget mg_sizing) (\<lambda>z.
     kbind (mirror_blocks (kc_generation active) gen (ms_policy_stride z)) (\<lambda>_. activate gen count)))"

definition install_policy :: "static_policy \<Rightarrow> 32 word \<Rightarrow> (reload_report, 'm manager_scheme) kop" where
  "install_policy pol gen =
     kbind (kget (\<lambda>m. compile_policy pol (mg_sizing m) (mg_profiles m))) (\<lambda>c.
     case c of Inl e \<Rightarrow> kfail e | Inr c \<Rightarrow>
     kbind (write_profiles c) (\<lambda>_.
     kbind (put_statics gen (cp_rules c)) (\<lambda>count.
     kbind (ensure_rule_stats (cp_ids c)) (\<lambda>_.
     kbind (reconcile_trie True (spo_allow pol)) (\<lambda>(added, removed).
     kbind (reconcile_trie False (spo_protected pol)) (\<lambda>_.
     kbind (kmod (\<lambda>m. m \<lparr> mg_shadowed := shadowed_statics pol \<rparr>)) (\<lambda>_.
     kbind (count_if_grown added) (\<lambda>dyn.
     kbind (publish gen count) (\<lambda>_.
     kret \<lparr> rr_generation = gen, rr_statics = count, rr_shadowed = shadowed_statics pol, rr_shadowed_dynamic = dyn \<rparr>
     )))))))))"

definition restart_required :: "plane_options \<Rightarrow> plane_options \<Rightarrow> bool" where
  "restart_required a b \<longleftrightarrow> join '','' (po_interfaces a) \<noteq> join '','' (po_interfaces b) \<or> po_xdp_mode a \<noteq> po_xdp_mode b
     \<or> po_pin_path a \<noteq> po_pin_path b \<or> po_limits a \<noteq> po_limits b
     \<or> df_fp_enabled (po_flags a) \<noteq> df_fp_enabled (po_flags b) \<or> df_fp_pps (po_flags a) \<noteq> df_fp_pps (po_flags b)"

text \<open>\<^verbatim>\<open>Reload\<close>, on options \<^verbatim>\<open>normalize\<close> accepted.\<close>

definition reload :: "plane_options \<Rightarrow> (reload_report, 'm manager_scheme) kop" where
  "reload nxt = kbind (kget (\<lambda>m. (mg_closed m, mg_opts m))) (\<lambda>(closed, cur).
     if closed then kfail Closed
     else if restart_required cur nxt then kfail RestartRequired
     else kbind (kwhen (df_dry_run (po_flags nxt) \<noteq> df_dry_run (po_flags cur)
                  \<or> df_drop_malformed (po_flags nxt) \<noteq> df_drop_malformed (po_flags cur)) (put_flags (po_flags nxt))) (\<lambda>_.
     kbind inactive_generation (\<lambda>gen.
     kbind (install_policy (po_policy nxt) gen) (\<lambda>rep.
     kbind (kmod (\<lambda>m. m \<lparr> mg_opts := nxt \<rparr>)) (\<lambda>_. kret rep)))))"

end
