(* ===== verification/PolicyFile.thy ===== *)
theory PolicyFile
  imports StaticPolicy Hostgroups
begin

unbundle bit_operations_syntax

text \<open>
  Where a static policy comes from: the \<^verbatim>\<open>dataplane\<close> block of the configuration, its validation and
  defaults (\<^verbatim>\<open>validateDataplaneBlock\<close> in \<^verbatim>\<open>src/engine/internal/config/config.go\<close>), and its translation
  to the options of the data plane (\<^verbatim>\<open>src/engine/internal/dataplane/options.go\<close>). The lemmas at the
  end say what a validated block is known to hold.
\<close>

section \<open>The block\<close>

record static_match =
  sm_src :: string
  sm_proto :: string
  sm_src_port :: "16 word"
  sm_dst_port :: "16 word"
  sm_payload :: string

record static_entry =
  se_name :: string
  se_match :: static_match
  se_action :: string
  se_profile :: string

record fingerprint_block =
  fpb_enabled :: bool
  fpb_sample_pps :: "64 word"
  fpb_ttl :: int
  fpb_ja4 :: "string list"

record dataplane_block =
  db_enabled :: "bool option"
  db_interfaces :: "string list"
  db_xdp_mode :: string
  db_pin_path :: string
  db_on_exit :: string
  db_drop_malformed :: bool
  db_allowlist :: "string list"
  db_profiles :: "named_rate list"
  db_statics :: "static_entry list"
  db_fingerprint :: fingerprint_block
  db_limits :: limits

record dataplane_settings =
  ds_enabled :: bool
  ds_interfaces :: string
  ds_xdp_mode :: string
  ds_pin_path :: string
  ds_on_exit :: string
  ds_dynamic :: int
  ds_static :: int
  ds_sources :: int
  ds_fp_enabled :: bool
  ds_fp_pps :: "64 word"

definition settings_zero :: dataplane_settings where
  "settings_zero = \<lparr> ds_enabled = False, ds_interfaces = [], ds_xdp_mode = [], ds_pin_path = [], ds_on_exit = [],
     ds_dynamic = 0, ds_static = 0, ds_sources = 0, ds_fp_enabled = False, ds_fp_pps = 0 \<rparr>"

section \<open>Validation\<close>

text \<open>A prefix or a bare address, masked.\<close>

definition parse_prefix_or_addr :: "string \<Rightarrow> prefix option" where
  "parse_prefix_or_addr s = (if CHR ''/'' \<in> set s then map_option pfx_masked (parse_prefix s)
     else map_option (\<lambda>a. prefix_from a (int (bit_len a))) (parse_addr s))"

definition iface_char :: "char \<Rightarrow> bool" where
  "iface_char c \<longleftrightarrow> name_char c \<or> c = CHR ''@'' \<or> c = CHR '':''"

definition iface_name_ok :: "string \<Rightarrow> bool" where
  "iface_name_ok s \<longleftrightarrow> 1 \<le> length s \<and> length s \<le> 15 \<and> list_all iface_char s"

fun check_interfaces :: "string list \<Rightarrow> string list \<Rightarrow> unit checked" where
  "check_interfaces seen [] = Inr ()"
| "check_interfaces seen (n # ns) = bindc (check (iface_name_ok n) ''interfaces: name'') (\<lambda>_.
     bindc (check (n \<notin> set seen) ''interfaces: listed twice'') (\<lambda>_. check_interfaces (n # seen) ns))"

definition xdp_modes :: "string list" where "xdp_modes = [''auto'', ''native'', ''generic'']"
definition exit_modes :: "string list" where "exit_modes = [''keep'', ''detach'']"

text \<open>An empty setting takes the first mode.\<close>

definition resolve_mode :: "string list \<Rightarrow> string \<Rightarrow> string \<Rightarrow> string checked" where
  "resolve_mode modes what s = (if s = [] then Inr (hd modes) else bindc (check (s \<in> set modes) what) (\<lambda>_. Inr s))"

fun check_profiles :: "string list \<Rightarrow> named_rate list \<Rightarrow> string list checked" where
  "check_profiles seen [] = Inr seen"
| "check_profiles seen (p # ps) = bindc (check (group_name_ok (nr_name p)) ''ratelimit_profiles: name'') (\<lambda>_.
     bindc (check (nr_name p \<notin> set seen) ''ratelimit_profiles: duplicate'') (\<lambda>_.
     bindc (check (\<not> (nr_pps p = 0 \<and> nr_mbps p = 0)) ''ratelimit_profiles: set pps, mbps or both'') (\<lambda>_.
     check_profiles (nr_name p # seen) ps)))"

definition check_match :: "static_match \<Rightarrow> unit checked" where
  "check_match m =
     bindc (check (sm_src m = [] \<or> parse_prefix_or_addr (sm_src m) \<noteq> None) ''match.src'') (\<lambda>_.
     bindc (check (sm_proto m \<in> {[], ''tcp'', ''udp'', ''icmp'', ''icmp6''}) ''match.proto'') (\<lambda>_.
     bindc (check (sm_proto m \<in> {''icmp'', ''icmp6''} \<longrightarrow> sm_src_port m = 0 \<and> sm_dst_port m = 0) ''match: ports'') (\<lambda>_.
     if sm_payload m = [] then Inr ()
     else if sm_payload m = ''tls_client_hello'' then check (sm_proto m = ''tcp'') ''match.payload requires tcp''
     else if sm_payload m = ''quic_initial'' then check (sm_proto m = ''udp'') ''match.payload requires udp''
     else Inl (Bad ''match.payload''))))"

definition check_action :: "string list \<Rightarrow> static_entry \<Rightarrow> unit checked" where
  "check_action profiles r =
     (if se_action r \<in> {''pass'', ''drop''} then check (se_profile r = []) ''profile is only valid with ratelimit''
      else if se_action r = ''ratelimit'' then
        bindc (check (se_profile r \<noteq> []) ''ratelimit requires profile'') (\<lambda>_.
        check (se_profile r \<in> set profiles) ''profile is not declared'')
      else Inl (Bad ''action''))"

fun check_statics :: "string list \<Rightarrow> string list \<Rightarrow> static_entry list \<Rightarrow> unit checked" where
  "check_statics profiles seen [] = Inr ()"
| "check_statics profiles seen (r # rs) = bindc (check (group_name_ok (se_name r)) ''static_rules: name'') (\<lambda>_.
     bindc (check (se_name r \<notin> set seen) ''static_rules: duplicate'') (\<lambda>_.
     bindc (check_match (se_match r)) (\<lambda>_.
     bindc (check_action profiles r) (\<lambda>_. check_statics profiles (se_name r # seen) rs))))"

definition resolve_limits :: "limits \<Rightarrow> limits checked" where
  "resolve_limits l = (let l = \<lparr> lim_dynamic = (if lim_dynamic l = 0 then 4096 else lim_dynamic l),
         lim_static = (if lim_static l = 0 then 256 else lim_static l),
         lim_sources = (if lim_sources l = 0 then 1048576 else lim_sources l) \<rparr> in
     bindc (check (1 \<le> lim_dynamic l) ''max_dynamic_rules'') (\<lambda>_.
     bindc (check (1 \<le> lim_static l) ''max_static_rules'') (\<lambda>_.
     bindc (check (1 \<le> lim_sources l) ''max_ratelimit_sources'') (\<lambda>_. Inr l))))"

definition is_hex12 :: "string \<Rightarrow> bool" where
  "is_hex12 s \<longleftrightarrow> length s = 12 \<and> list_all (\<lambda>c. let n = (of_char c :: nat) in (48 \<le> n \<and> n \<le> 57) \<or> (97 \<le> n \<and> n \<le> 102)) s"

fun split_on :: "char \<Rightarrow> string \<Rightarrow> string \<Rightarrow> string list" where
  "split_on x acc [] = [acc]"
| "split_on x acc (c # cs) = (if c = x then acc # split_on x [] cs else split_on x (acc @ [c]) cs)"

definition looks_like_ja4 :: "string \<Rightarrow> bool" where
  "looks_like_ja4 s = (case split_on CHR ''_'' [] s of
     [a, b, c] \<Rightarrow> a \<noteq> [] \<and> is_hex12 b \<and> is_hex12 c | _ \<Rightarrow> False)"

fun check_ja4 :: "string list \<Rightarrow> string list \<Rightarrow> unit checked" where
  "check_ja4 seen [] = Inr ()"
| "check_ja4 seen (j # js) = bindc (check (looks_like_ja4 j) ''ja4_blocklist: not a JA4'') (\<lambda>_.
     bindc (check (j \<notin> set seen) ''ja4_blocklist: duplicate'') (\<lambda>_. check_ja4 (j # seen) js))"

definition max_fingerprint_ttl :: int where "max_fingerprint_ttl = 24 * 60 * 60"

definition validate_fingerprint :: "fingerprint_block \<Rightarrow> fingerprint_block checked" where
  "validate_fingerprint fp = (if \<not> fpb_enabled fp then Inr (fp \<lparr> fpb_sample_pps := 0 \<rparr>)
     else let fp = fp \<lparr> fpb_sample_pps := (if fpb_sample_pps fp = 0 then 1000 else fpb_sample_pps fp),
            fpb_ttl := (if fpb_ttl fp = 0 then 300 else fpb_ttl fp) \<rparr> in
       bindc (check (1 \<le> fpb_ttl fp \<and> fpb_ttl fp \<le> max_fingerprint_ttl) ''block_ttl_seconds'') (\<lambda>_.
       bindc (check_ja4 [] (fpb_ja4 fp)) (\<lambda>_. Inr fp)))"

definition default_pin_path :: string where "default_pin_path = ''/sys/fs/bpf/kapkan''"

text \<open>The resolved settings and the block with its defaults filled in.\<close>

definition validate_dataplane_block :: "dataplane_block \<Rightarrow> (dataplane_settings \<times> dataplane_block) checked" where
  "validate_dataplane_block d = (if db_enabled d = Some False then
       bindc (check (\<not> fpb_enabled (db_fingerprint d)) ''fingerprint.enabled requires enabled'') (\<lambda>_. Inr (settings_zero, d))
     else
     bindc (check (db_interfaces d \<noteq> []) ''interfaces'') (\<lambda>_.
     bindc (check_interfaces [] (db_interfaces d)) (\<lambda>_.
     bindc (resolve_mode xdp_modes ''xdp_mode'' (db_xdp_mode d)) (\<lambda>mode.
     bindc (resolve_mode exit_modes ''on_exit'' (db_on_exit d)) (\<lambda>ex.
     bindc (if db_pin_path d = [] then Inr default_pin_path
            else bindc (check (hd (db_pin_path d) = CHR ''/'') ''pin_path'') (\<lambda>_. Inr (db_pin_path d))) (\<lambda>pin.
     bindc (check (list_all (\<lambda>s. parse_prefix_or_addr s \<noteq> None) (db_allowlist d)) ''allowlist'') (\<lambda>_.
     bindc (check_profiles [] (db_profiles d)) (\<lambda>profiles.
     bindc (check_statics profiles [] (db_statics d)) (\<lambda>_.
     bindc (resolve_limits (db_limits d)) (\<lambda>lim.
     bindc (check (int (length (db_statics d)) \<le> lim_static lim) ''static_rules exceed limits'') (\<lambda>_.
     bindc (validate_fingerprint (db_fingerprint d)) (\<lambda>fp.
     Inr (\<lparr> ds_enabled = True, ds_interfaces = join '','' (db_interfaces d), ds_xdp_mode = mode, ds_pin_path = pin,
            ds_on_exit = ex, ds_dynamic = lim_dynamic lim, ds_static = lim_static lim, ds_sources = lim_sources lim,
            ds_fp_enabled = fpb_enabled fp, ds_fp_pps = fpb_sample_pps fp \<rparr>,
          d \<lparr> db_xdp_mode := mode, db_on_exit := ex, db_pin_path := pin, db_limits := lim, db_fingerprint := fp \<rparr>)
     ))))))))))))"

text \<open>\<^verbatim>\<open>validateDataplane\<close>: the check against the ban caps, and the parsed allowlist.\<close>

definition max_rules_per_ban :: int where "max_rules_per_ban = 8"

definition validate_dataplane :: "int \<Rightarrow> dataplane_block option \<Rightarrow> (dataplane_settings \<times> dataplane_block option \<times> prefix list) checked" where
  "validate_dataplane max_bans d = (case d of None \<Rightarrow> Inr (settings_zero, None, []) | Some d \<Rightarrow>
     bindc (validate_dataplane_block d) (\<lambda>(set1, d).
     bindc (check (\<not> (ds_enabled set1 \<and> 0 < max_bans \<and> lim_dynamic (db_limits d) < max_bans * max_rules_per_ban)) ''max_dynamic_rules'') (\<lambda>_.
     bindc (map_checked (\<lambda>s. case parse_prefix_or_addr s of None \<Rightarrow> Inl (Bad ''allowlist'') | Some p \<Rightarrow> Inr p) (db_allowlist d)) (\<lambda>ps.
     Inr (set1, Some d, ps)))))"

section \<open>Translation\<close>

definition proto_number :: "string \<Rightarrow> 8 word option checked" where
  "proto_number s = (if s = [] then Inr None else if s = ''tcp'' then Inr (Some 6) else if s = ''udp'' then Inr (Some 17)
     else if s = ''icmp'' then Inr (Some proto_icmp) else if s = ''icmp6'' then Inr (Some proto_icmp6)
     else Inl (Bad ''unknown proto''))"

definition payload_bits :: "string \<Rightarrow> 8 word checked" where
  "payload_bits s = (if s = [] then Inr 0 else if s = ''tls_client_hello'' then Inr 1
     else if s = ''quic_initial'' then Inr 2 else Inl (Bad ''unknown payload''))"

definition action_number :: "string \<Rightarrow> 8 word checked" where
  "action_number s = (if s = ''pass'' then Inr act_pass else if s = ''drop'' then Inr act_drop
     else if s = ''ratelimit'' then Inr act_rate_limit else Inl (Bad ''unknown action''))"

definition port_of :: "16 word \<Rightarrow> 16 word option" where
  "port_of p = (if p = 0 then None else Some p)"

definition parse_entry :: "string \<Rightarrow> string \<Rightarrow> prefix checked" where
  "parse_entry what s = (case parse_prefix_or_addr s of None \<Rightarrow> Inl (Bad what) | Some p \<Rightarrow> Inr p)"

definition static_from :: "static_entry \<Rightarrow> static_rule checked" where
  "static_from r = (let m = se_match r in
     bindc (if sm_src m = [] then Inr prefix_none else parse_entry ''static_rules.match.src'' (sm_src m)) (\<lambda>src.
     bindc (proto_number (sm_proto m)) (\<lambda>proto.
     bindc (payload_bits (sm_payload m)) (\<lambda>ext.
     bindc (action_number (se_action r)) (\<lambda>act.
     Inr \<lparr> sr_name = se_name r, sr_src = src, sr_proto = proto, sr_src_port = port_of (sm_src_port m),
       sr_dst_port = port_of (sm_dst_port m), sr_action = act, sr_profile = se_profile r, sr_match_ext = ext \<rparr>)))))"

definition policy_from_block :: "dataplane_block \<Rightarrow> addr list \<Rightarrow> static_policy checked" where
  "policy_from_block d protected =
     bindc (map_checked (parse_entry ''allowlist'') (db_allowlist d)) (\<lambda>allow.
     bindc (map_checked static_from (db_statics d)) (\<lambda>statics.
     Inr \<lparr> spo_allow = allow, spo_protected = map (\<lambda>a. prefix_from a (int (bit_len a))) protected,
       spo_profiles = db_profiles d, spo_statics = statics \<rparr>))"

text \<open>\<^verbatim>\<open>optionsFromBlock\<close>.\<close>

definition options_from_block :: "dataplane_block \<Rightarrow> dataplane_settings \<Rightarrow> bool \<Rightarrow> addr list \<Rightarrow> plane_options checked" where
  "options_from_block d set1 dry protected = bindc (policy_from_block d protected) (\<lambda>pol.
     Inr \<lparr> po_interfaces = split_on CHR '','' [] (ds_interfaces set1), po_xdp_mode = ds_xdp_mode set1, po_pin_path = ds_pin_path set1,
       po_on_exit = ds_on_exit set1,
       po_limits = \<lparr> lim_dynamic = ds_dynamic set1, lim_static = ds_static set1, lim_sources = ds_sources set1 \<rparr>,
       po_flags = \<lparr> df_dry_run = dry, df_drop_malformed = db_drop_malformed d, df_fp_enabled = ds_fp_enabled set1,
         df_fp_pps = ds_fp_pps set1, df_fp_burst = 0 \<rparr>,
       po_policy = pol \<rparr>)"

text \<open>\<^verbatim>\<open>normalize\<close>, without the timers of the watcher and the log.\<close>

fun check_distinct :: "string list \<Rightarrow> string list \<Rightarrow> unit checked" where
  "check_distinct seen [] = Inr ()"
| "check_distinct seen (n # ns) = bindc (check (n \<noteq> []) ''empty interface name'') (\<lambda>_.
     bindc (check (n \<notin> set seen) ''interface listed twice'') (\<lambda>_. check_distinct (n # seen) ns))"

definition normalize_options :: "plane_options \<Rightarrow> plane_options checked" where
  "normalize_options o1 =
     bindc (check (po_interfaces o1 \<noteq> [] \<and> po_interfaces o1 \<noteq> [[]]) ''no interfaces'') (\<lambda>_.
     bindc (check_distinct [] (po_interfaces o1)) (\<lambda>_.
     bindc (resolve_mode xdp_modes ''xdp_mode'' (po_xdp_mode o1)) (\<lambda>mode.
     bindc (resolve_mode exit_modes ''on_exit'' (po_on_exit o1)) (\<lambda>ex.
     bindc (check (po_pin_path o1 \<noteq> [] \<and> hd (po_pin_path o1) = CHR ''/'') ''pin_path must be absolute'') (\<lambda>_.
     Inr (o1 \<lparr> po_xdp_mode := mode, po_on_exit := ex,
       po_limits := (if po_limits o1 = \<lparr> lim_dynamic = 0, lim_static = 0, lim_sources = 0 \<rparr> then default_limits else po_limits o1) \<rparr>))))))"

end
