(* ===== verification/Installer.thy ===== *)
theory Installer
  imports StaticPolicy
begin

unbundle bit_operations_syntax

text \<open>
  The mitigator's half of the data plane: \<^verbatim>\<open>src/engine/internal/dataplane/installer_linux.go\<close>. One policy
  block per banned victim, three allocators (policy ids, rule ids derived from them, profile ids for
  rates) and the order of the map writes. A call of the installer holds its lock and the manager's, so
  it is one step; log lines are not state of the model.
\<close>

record plane = manager +
  in_adopted :: bool
  in_stride :: "32 word"
  in_policy_of :: "(prefix, 32 word) table"
  in_taken :: "32 word \<Rightarrow> bool"
  in_profile_of :: "(64 word, 32 word) table"
  in_refs :: "32 word \<Rightarrow> int"
  in_victim_profile :: "(prefix, 32 word) table"

definition with_maps :: "(32 word \<Rightarrow> ('a, 'm manager_scheme) kop) \<Rightarrow> ('a, 'm manager_scheme) kop" where
  "with_maps f = kbind (kget mg_closed) (\<lambda>c. if c then kfail Closed
     else kbind read_config (\<lambda>cfg. f (kc_generation cfg)))"

section \<open>Policy ids\<close>

definition alloc_policy :: "prefix \<Rightarrow> (32 word \<times> bool, 'm plane_scheme) kop" where
  "alloc_policy v = kbind (kget (\<lambda>s. (tget (in_policy_of s) v,
       List.find (\<lambda>n. \<not> in_taken s (word_of_nat n)) [0..<unat (in_stride s)]))) (\<lambda>(old, free).
     case old of Some i \<Rightarrow> kret (i, False)
     | None \<Rightarrow> (case free of None \<Rightarrow> kfail NoPolicySlots
       | Some n \<Rightarrow> if max_policy_id < word_of_nat n then kfail NoPolicySlots
           else kbind (kmod (\<lambda>s. s \<lparr> in_policy_of := tput v (word_of_nat n) (in_policy_of s),
                    in_taken := (in_taken s)(word_of_nat n := True) \<rparr>)) (\<lambda>_. kret (word_of_nat n, True))))"

definition release_policy :: "prefix \<Rightarrow> 32 word \<Rightarrow> bool \<Rightarrow> (unit, 'm plane_scheme) kop" where
  "release_policy v i fresh = kwhen fresh (kmod (\<lambda>s. s \<lparr> in_policy_of := tdel v (in_policy_of s),
     in_taken := (in_taken s)(i := False) \<rparr>))"

section \<open>Profile ids\<close>

definition free_profile :: "(64 word, 32 word) table \<Rightarrow> 32 word option" where
  "free_profile t = map_option word_of_nat (List.find (\<lambda>n. word_of_nat n \<notin> set (map snd t))
     [unat dynamic_profile_base..<unat max_profiles])"

definition release_profile :: "prefix \<Rightarrow> bool \<Rightarrow> (unit, 'm plane_scheme) kop" where
  "release_profile v got = (if \<not> got then kret () else
     kbind (kget (\<lambda>s. tget (in_victim_profile s) v)) (\<lambda>held. case held of None \<Rightarrow> kret () | Some i \<Rightarrow>
     kbind (kmod (\<lambda>s. s \<lparr> in_victim_profile := tdel v (in_victim_profile s), in_refs := (in_refs s)(i := in_refs s i - 1) \<rparr>)) (\<lambda>_.
     kbind (kget (\<lambda>s. in_refs s i)) (\<lambda>n. if 0 < n then kret () else
     kbind (kmod (\<lambda>s. s \<lparr> in_refs := (in_refs s)(i := 0), in_profile_of := filter (\<lambda>(r, j). j \<noteq> i) (in_profile_of s) \<rparr>)) (\<lambda>_.
     kbind (ktry (put_profile i profile_none)) (\<lambda>_. kret ()))))))"

definition rate_profile :: "64 word \<Rightarrow> profile_spec" where
  "rate_profile bps = profile_none \<lparr> ps_bytes := bps \<rparr>"

definition profile_id_for :: "64 word \<Rightarrow> (32 word, 'm plane_scheme) kop" where
  "profile_id_for bps = kbind (kget in_profile_of) (\<lambda>t. case tget t bps of Some i \<Rightarrow> kret i | None \<Rightarrow>
     (case free_profile t of None \<Rightarrow> kfail NoProfileSlots | Some i \<Rightarrow>
       kbind (put_profile i (rate_profile bps)) (\<lambda>_.
       kbind (kmod (\<lambda>s. s \<lparr> in_profile_of := tput bps i (in_profile_of s) \<rparr>)) (\<lambda>_. kret i))))"

definition intern_profile :: "prefix \<Rightarrow> 64 word \<Rightarrow> (32 word \<times> bool, 'm plane_scheme) kop" where
  "intern_profile v bps = kbind (release_profile v True) (\<lambda>_.
     if bps = 0 then kret (0, False)
     else kbind (profile_id_for bps) (\<lambda>i.
       kbind (kmod (\<lambda>s. s \<lparr> in_refs := (in_refs s)(i := in_refs s i + 1),
         in_victim_profile := tput v i (in_victim_profile s) \<rparr>)) (\<lambda>_. kret (i, True))))"

section \<open>Adoption\<close>

definition rule_lapsed :: "64 word \<Rightarrow> krule \<Rightarrow> bool" where
  "rule_lapsed now r \<longleftrightarrow> \<not> bit (k_flags r) 0 \<or> k_expires r \<noteq> 0 \<and> k_expires r \<le> now"

definition block_is_dead :: "policy_block \<Rightarrow> 64 word \<Rightarrow> bool" where
  "block_is_dead b now \<longleftrightarrow> pb_n b = 0 \<or> now \<noteq> 0 \<and> list_all (rule_lapsed now) (block_rules b)"

text \<open>The two tries, dumped one after the other.\<close>

definition victims_of_family :: "(addr \<Rightarrow> bool) \<Rightarrow> ((prefix \<times> 32 word) list, 'm kmaps_scheme) kop" where
  "victims_of_family fam = kread (\<lambda>m. Some (filter (fam \<circ> pfx_addr \<circ> fst) (km_victims m)))"

definition victim_entries :: "((prefix \<times> 32 word) list, 'm kmaps_scheme) kop" where
  "victim_entries = kbind (victims_of_family is4) (\<lambda>a. kbind (victims_of_family is6) (\<lambda>b. kret (a @ b)))"

definition mark_taken :: "32 word \<Rightarrow> (unit, 'm plane_scheme) kop" where
  "mark_taken i = kmod (\<lambda>s. s \<lparr> in_taken := (in_taken s)(i := True) \<rparr>)"

definition adopt_entry :: "32 word \<Rightarrow> 64 word \<Rightarrow> prefix \<times> 32 word \<Rightarrow> (unit, 'm plane_scheme) kop" where
  "adopt_entry gen now e = (case e of (p, i) \<Rightarrow>
     kbind (kget in_stride) (\<lambda>stride.
     kbind (ktry (read_block (gen * stride + i))) (\<lambda>r. case r of Inl _ \<Rightarrow> mark_taken i | Inr b \<Rightarrow>
       if block_is_dead b now
       then kbind (ktry (delete_victim p)) (\<lambda>d. case d of Inl _ \<Rightarrow> mark_taken i
              | Inr _ \<Rightarrow> kbind (ktry (put_policy gen i [])) (\<lambda>_. kret ()))
       else kbind (kmod (\<lambda>s. s \<lparr> in_policy_of := tput p i (in_policy_of s) \<rparr>)) (\<lambda>_. mark_taken i))))"

definition adopt :: "32 word \<Rightarrow> (unit, 'm plane_scheme) kop" where
  "adopt gen = kbind (kget in_adopted) (\<lambda>a. if a then kret () else
     kbind (kmod (\<lambda>s. s \<lparr> in_stride := policy_stride s \<rparr>)) (\<lambda>_.
     kbind (kget in_stride) (\<lambda>stride. if stride = 0 then kfail StrideZero else
     kbind victim_entries (\<lambda>es.
     kbind boot_ns (\<lambda>now.
     kbind (kfor (adopt_entry gen now) es) (\<lambda>_.
     kmod (\<lambda>s. s \<lparr> in_adopted := True \<rparr>)))))))"

section \<open>Install and withdraw\<close>

definition stamp :: "32 word \<Rightarrow> 32 word \<Rightarrow> 64 word \<Rightarrow> int \<Rightarrow> nat \<Rightarrow> rule_spec \<Rightarrow> rule_spec" where
  "stamp policy prof now ttl n s = s \<lparr> sp_id := dynamic_rule_id policy (word_of_nat n),
     sp_expires := now + word_of_int (if 0 < sp_ttl s then sp_ttl s else ttl), sp_profile := prof \<rparr>"

definition stamped :: "32 word \<Rightarrow> 32 word \<Rightarrow> 64 word \<Rightarrow> dynamic_rules \<Rightarrow> rule_spec list" where
  "stamped policy prof now r = map (\<lambda>(n, s). stamp policy prof now (dr_ttl r) n s) (enumerate 0 (dr_specs r))"

definition rollback :: "32 word \<Rightarrow> prefix \<Rightarrow> 32 word \<Rightarrow> 32 word list \<Rightarrow> bool \<Rightarrow> bool \<Rightarrow> (unit, 'm plane_scheme) kop" where
  "rollback gen v i ids got fresh =
     kbind (ktry (delete_victim v)) (\<lambda>_.
     kbind (ktry (put_policy gen i [])) (\<lambda>_.
     kbind (ktry (delete_rule_stats ids)) (\<lambda>_.
     kbind (release_profile v got) (\<lambda>_. release_policy v i fresh))))"

definition undo :: "prefix \<Rightarrow> 32 word \<Rightarrow> bool \<Rightarrow> bool \<Rightarrow> (unit, 'm plane_scheme) kop" where
  "undo v i got fresh = kbind (release_profile v got) (\<lambda>_. release_policy v i fresh)"

text \<open>Run a step; when it fails, clean up and report its error.\<close>

definition guarded :: "('a, 's) kop \<Rightarrow> (unit, 's) kop \<Rightarrow> ('a \<Rightarrow> ('b, 's) kop) \<Rightarrow> ('b, 's) kop" where
  "guarded a clean f = kbind (ktry a) (\<lambda>r. case r of Inl e \<Rightarrow> kbind clean (\<lambda>_. kfail e) | Inr x \<Rightarrow> f x)"

definition lift_sum :: "(encode_error + 'a) \<Rightarrow> ('a, 's) kop" where
  "lift_sum r = (case r of Inl e \<Rightarrow> kfail (BadEncoding e) | Inr x \<Rightarrow> kret x)"

definition install_refused :: "prefix \<Rightarrow> dynamic_rules \<Rightarrow> dp_fault option" where
  "install_refused v r = (if \<not> pfx_valid v then Some InvalidPrefix
     else if is4in6 (pfx_addr v) then Some MappedVictim
     else if dr_specs r = [] then Some NoRules
     else if rules_per_policy < length (dr_specs r) then Some TooManyRules
     else if dr_ttl r \<le> 0 then Some BadTtl
     else if list_ex (\<lambda>s. sp_ttl s < 0) (dr_specs r) then Some BadTtl
     else None)"

text \<open>The boot clock, where zero means it could not be read.\<close>

definition deadline_clock :: "(64 word, 'm kmaps_scheme) kop" where
  "deadline_clock = kbind boot_ns (\<lambda>now. if now = 0 then kfail NoClock else kret now)"

definition install_block :: "32 word \<Rightarrow> prefix \<Rightarrow> dynamic_rules \<Rightarrow> 32 word \<Rightarrow> bool \<Rightarrow> 32 word \<Rightarrow> bool \<Rightarrow> (unit, 'm plane_scheme) kop" where
  "install_block gen v r i fresh prof got =
     guarded deadline_clock (undo v i got fresh) (\<lambda>now.
     let specs = stamped i prof now r; ids = map sp_id specs in
     guarded (lift_sum (encode_rules specs)) (undo v i got fresh) (\<lambda>rules.
     guarded (ensure_rule_stats ids) (undo v i got fresh) (\<lambda>_.
     guarded (put_policy gen i rules) (rollback gen v i ids got fresh) (\<lambda>_.
     guarded (add_victim v i) (rollback gen v i ids got fresh) (\<lambda>_. kret ())))))"

definition install :: "prefix \<Rightarrow> dynamic_rules \<Rightarrow> (unit, 'm plane_scheme) kop" where
  "install v r = (case install_refused v r of Some e \<Rightarrow> kfail e | None \<Rightarrow>
     with_maps (\<lambda>gen.
       kbind (adopt gen) (\<lambda>_.
       kbind (alloc_policy v) (\<lambda>(i, fresh).
       guarded (intern_profile v (dr_rate r)) (release_policy v i fresh) (\<lambda>(prof, got).
       install_block gen v r i fresh prof got)))))"

definition first_error :: "(dp_fault + 'a) list \<Rightarrow> dp_fault option" where
  "first_error rs = (case List.find isl rs of Some (Inl e) \<Rightarrow> Some e | _ \<Rightarrow> None)"

definition block_ids :: "32 word \<Rightarrow> 32 word list" where
  "block_ids i = map (\<lambda>n. dynamic_rule_id i (word_of_nat n)) [0..<rules_per_policy]"

definition withdraw_block :: "32 word \<Rightarrow> prefix \<Rightarrow> 32 word \<Rightarrow> (unit, 'm plane_scheme) kop" where
  "withdraw_block gen v i =
     kbind (ktry (delete_victim v)) (\<lambda>a.
     kbind (ktry (put_policy gen i [])) (\<lambda>b.
     kbind (ktry (delete_rule_stats (block_ids i))) (\<lambda>c.
     kbind (release_profile v True) (\<lambda>_.
     kbind (kmod (\<lambda>s. s \<lparr> in_policy_of := tdel v (in_policy_of s),
       in_taken := (if isl a then in_taken s else (in_taken s)(i := False)) \<rparr>)) (\<lambda>_.
     case first_error [a, b, c] of Some e \<Rightarrow> kfail e | None \<Rightarrow> kret ())))))"

definition withdraw :: "prefix \<Rightarrow> (unit, 'm plane_scheme) kop" where
  "withdraw v = (if \<not> pfx_valid v then kfail InvalidPrefix else
     with_maps (\<lambda>gen. kbind (adopt gen) (\<lambda>_.
       kbind (kget (\<lambda>s. tget (in_policy_of s) v)) (\<lambda>held. case held of None \<Rightarrow> kret () | Some i \<Rightarrow> withdraw_block gen v i))))"

definition victims :: "(prefix list, 'm plane_scheme) kop" where
  "victims = with_maps (\<lambda>gen. kbind (adopt gen) (\<lambda>_. kget (map fst \<circ> in_policy_of)))"

end
