(* ===== verification/PlaneInv.thy ===== *)
theory PlaneInv
  imports Installer
begin

text \<open>
  What the installer keeps true of the maps and of its allocators. \<open>pol_ok\<close>: every victim entry names
  a block of its own, and every id in use or in the kernel is marked taken. \<open>prof_ok\<close>: every interned
  rate has its slot in the dynamic band, holding that rate, with a reference per victim. Both survive
  any failure of any map write. The proofs run each operation backwards through \<open>kwp\<close>.
\<close>

section \<open>Single calls\<close>

named_theorems wp_intros "demonic rules for single calls"

lemma kwp_ksys:
  "kwp (ksys r f) Q E s = (let t = s \<lparr> km_calls := Suc (km_calls s) \<rparr> in
     if km_fault s (km_calls s) then E Syscall t else case r s of Inl e \<Rightarrow> E e t | Inr x \<Rightarrow> Q x (f t))"
  by (simp add: kwp_def ksys_def Let_def split: sum.split)

lemma kwp_write [wp_intros]:
  "(\<And>n. Q () (f (s \<lparr> km_calls := n \<rparr>))) \<Longrightarrow> (\<And>n. E Syscall (s \<lparr> km_calls := n \<rparr>)) \<Longrightarrow> kwp (kwrite f) Q E s"
  by (simp add: kwrite_def kwp_ksys)

lemma kwp_read [wp_intros]:
  "(\<And>n x. g s = Some x \<Longrightarrow> Q x (s \<lparr> km_calls := n \<rparr>)) \<Longrightarrow> (\<And>n. E Syscall (s \<lparr> km_calls := n \<rparr>)) \<Longrightarrow> kwp (kread g) Q E s"
  by (simp add: kread_def kwp_ksys split: option.split)

lemma kwp_put [wp_intros]:
  "(\<And>n. i < sz s \<Longrightarrow> Q () (f (s \<lparr> km_calls := n \<rparr>))) \<Longrightarrow> (\<And>n. E Syscall (s \<lparr> km_calls := n \<rparr>)) \<Longrightarrow> kwp (kput sz i f) Q E s"
  by (simp add: kput_def kwp_ksys)

lemma kwp_boot [wp_intros]: "(\<And>n x. x \<in> range (km_clock s) \<Longrightarrow> Q x (s \<lparr> km_calls := n \<rparr>)) \<Longrightarrow> kwp boot_ns Q E s"
  by (simp add: kwp_def boot_ns_def)

lemma kwp_put_profile [wp_intros]:
  "(\<And>n. Q () (s \<lparr> km_calls := n, km_profiles := (km_profiles s)[unat i := profile_encode p] \<rparr>)) \<Longrightarrow>
   (\<And>n. E Syscall (s \<lparr> km_calls := n \<rparr>)) \<Longrightarrow> kwp (put_profile i p) Q E s"
  unfolding put_profile_def by (rule kwp_put) simp_all

lemma kwp_add_victim [wp_intros]:
  "(\<And>n. Q () (s \<lparr> km_calls := n, km_victims := tput (pfx_masked v) i (km_victims s) \<rparr>)) \<Longrightarrow>
   (\<And>n e. E e (s \<lparr> km_calls := n \<rparr>)) \<Longrightarrow> (\<And>e. E e s) \<Longrightarrow> kwp (add_victim v i) Q E s"
  unfolding add_victim_def by (simp add: wp_simps kwp_write)

lemma kwp_delete_victim [wp_intros]:
  "(\<And>n. Q () (s \<lparr> km_calls := n, km_victims := tdel (pfx_masked v) (km_victims s) \<rparr>)) \<Longrightarrow>
   (\<And>n. E Syscall (s \<lparr> km_calls := n \<rparr>)) \<Longrightarrow> kwp (delete_victim v) Q E s"
  unfolding delete_victim_def by (rule kwp_write) simp_all

lemma kwp_read_config [wp_intros]:
  "(\<And>n. Q (km_cfg s) (s \<lparr> km_calls := n \<rparr>)) \<Longrightarrow> (\<And>n. E Syscall (s \<lparr> km_calls := n \<rparr>)) \<Longrightarrow> kwp read_config Q E s"
  unfolding read_config_def by (rule kwp_read) simp_all

lemma kwp_read_block [wp_intros]:
  "(\<And>n. unat i < length (km_policies s) \<Longrightarrow> Q (km_policies s ! unat i) (s \<lparr> km_calls := n \<rparr>)) \<Longrightarrow>
   (\<And>n. E Syscall (s \<lparr> km_calls := n \<rparr>)) \<Longrightarrow> kwp (read_block i) Q E s"
  unfolding read_block_def by (rule kwp_read) (auto split: if_splits)

lemma kwp_victims_of_family [wp_intros]:
  "(\<And>n. Q (filter (fam \<circ> pfx_addr \<circ> fst) (km_victims s)) (s \<lparr> km_calls := n \<rparr>)) \<Longrightarrow>
   (\<And>n. E Syscall (s \<lparr> km_calls := n \<rparr>)) \<Longrightarrow> kwp (victims_of_family fam) Q E s"
  unfolding victims_of_family_def by (rule kwp_read) simp_all

text \<open>A loop over counters touches the counters alone.\<close>

lemma kwp_stats_loop:
  fixes s :: "'m kmaps_scheme"
  assumes f: "\<And>i. f i = kwrite (\<lambda>m. m \<lparr> km_rule_stats := g i (km_rule_stats m) \<rparr>)"
    and Q: "\<And>n. Q () (s \<lparr> km_calls := n, km_rule_stats := fold g ids (km_rule_stats s) \<rparr>)"
    and E: "\<And>n t. E Syscall (s \<lparr> km_calls := n, km_rule_stats := t \<rparr>)"
  shows "kwp (kfor f ids) Q E s"
proof -
  let ?I = "\<lambda>rest u. \<exists>n t. u = s \<lparr> km_calls := n, km_rule_stats := t \<rparr> \<and> fold g rest t = fold g ids (km_rule_stats s)"
  have "kwp (kfor f ids) (\<lambda>_. ?I []) E s"
  proof (rule kwp_for)
    show "?I ids s" by (intro exI [where x = "km_calls s"] exI [where x = "km_rule_stats s"]) simp
  next
    fix x rest u assume "?I (x # rest) u"
    then obtain n t where u: "u = s \<lparr> km_calls := n, km_rule_stats := t \<rparr>"
      and t: "fold g rest (g x t) = fold g ids (km_rule_stats s)" by auto
    show "kwp (f x) (\<lambda>_. ?I rest) E u"
      unfolding f
    proof (rule kwp_write)
      show "?I rest (u \<lparr> km_calls := k \<rparr> \<lparr> km_rule_stats := g x (km_rule_stats (u \<lparr> km_calls := k \<rparr>)) \<rparr>)" for k
        using t unfolding u by (intro exI [where x = k] exI [where x = "g x t"]) simp
      show "E Syscall (u \<lparr> km_calls := k \<rparr>)" for k
      proof -
        have "u \<lparr> km_calls := k \<rparr> = s \<lparr> km_calls := k, km_rule_stats := t \<rparr>" by (simp add: u)
        then show ?thesis using E by simp
      qed
    qed
  qed
  then show ?thesis
    by (rule kwp_mono) (use Q in auto)
qed

lemma kwp_delete_rule_stats [wp_intros]:
  "(\<And>n. Q () (s \<lparr> km_calls := n, km_rule_stats := fold tdel ids (km_rule_stats s) \<rparr>)) \<Longrightarrow>
   (\<And>n t. E Syscall (s \<lparr> km_calls := n, km_rule_stats := t \<rparr>)) \<Longrightarrow> kwp (delete_rule_stats ids) Q E s"
  unfolding delete_rule_stats_def by (rule kwp_stats_loop [where g = tdel]) simp_all

lemma kwp_ensure_rule_stats [wp_intros]:
  "(\<And>n. Q () (s \<lparr> km_calls := n, km_rule_stats := fold (\<lambda>i. tput i (0, 0)) ids (km_rule_stats s) \<rparr>)) \<Longrightarrow>
   (\<And>n t. E Syscall (s \<lparr> km_calls := n, km_rule_stats := t \<rparr>)) \<Longrightarrow> kwp (ensure_rule_stats ids) Q E s"
  unfolding ensure_rule_stats_def by (rule kwp_stats_loop [where g = "\<lambda>i. tput i (0, 0)"]) simp_all

lemma kwp_guarded [wp_simps]:
  "kwp (guarded a c f) Q E = kwp a (\<lambda>x. kwp (f x) Q E) (\<lambda>e. kwp c (\<lambda>_. E e) E)"
  by (simp add: guarded_def wp_simps)

lemma kwp_lift_sum [wp_simps]:
  "kwp (lift_sum r) Q E = (case r of Inl e \<Rightarrow> E (BadEncoding e) | Inr x \<Rightarrow> Q x)"
  by (cases r) (simp_all add: lift_sum_def wp_simps)

section \<open>Slots\<close>

definition sized :: "'m kmaps_scheme \<Rightarrow> bool" where
  "sized s \<longleftrightarrow> kc_generation (km_cfg s) < generations \<and> kc_policy_stride (km_cfg s) = policy_stride s
     \<and> length (km_policies s) = 2 * unat (policy_stride s) \<and> length (km_policies s) < 2 ^ 32"

lemma word_lt_2: "(g :: 32 word) < 2 \<Longrightarrow> g = 0 \<or> g = 1"
  by (auto simp: word_less_nat_alt less_2_cases_iff word_unat_eq_iff)

lemma unat_slot:
  assumes "g < generations" "i < st" "2 * unat st < 2 ^ 32"
  shows "unat (g * st + i) = unat g * unat st + unat i"
proof -
  have "unat i < unat st" using assms(2) by (simp add: word_less_nat_alt)
  then have "unat (st + i) = unat st + unat i"
    using assms(3) by (subst unat_add_lem [THEN iffD1]) simp_all
  then show ?thesis using word_lt_2 [of g] assms(1) by (auto simp: generations_def)
qed

section \<open>The invariants\<close>

definition canonical :: "prefix \<Rightarrow> bool" where
  "canonical p \<longleftrightarrow> pfx_wf p \<and> pfx_valid p \<and> pfx_masked p = p"

definition entries_ok :: "32 word \<Rightarrow> (prefix, 32 word) table \<Rightarrow> bool" where
  "entries_ok st vs \<longleftrightarrow> table_ok vs \<and> (\<forall>k i. tget vs k = Some i \<longrightarrow> canonical k \<and> i < st)
     \<and> (\<forall>k l i. tget vs k = Some i \<longrightarrow> tget vs l = Some i \<longrightarrow> k = l)"

definition ids_ok :: "32 word \<Rightarrow> (prefix, 32 word) table \<Rightarrow> (prefix, 32 word) table \<Rightarrow> (32 word \<Rightarrow> bool) \<Rightarrow> bool" where
  "ids_ok st vs pol taken \<longleftrightarrow> (\<forall>v i. tget pol v = Some i \<longrightarrow> canonical v \<and> i < st \<and> taken i)
     \<and> (\<forall>v w i. tget pol v = Some i \<longrightarrow> tget pol w = Some i \<longrightarrow> v = w)
     \<and> (\<forall>k i. tget vs k = Some i \<longrightarrow> taken i \<and> (\<forall>v. tget pol v = Some i \<longrightarrow> v = k))"

definition pol_ok :: "'m plane_scheme \<Rightarrow> bool" where
  "pol_ok s \<longleftrightarrow> sized s \<and> entries_ok (policy_stride s) (km_victims s)
     \<and> (if in_adopted s then in_stride s = policy_stride s \<and> ids_ok (policy_stride s) (km_victims s) (in_policy_of s) (in_taken s)
        else in_policy_of s = [] \<and> in_taken s = (\<lambda>_. False))"

definition holders :: "32 word \<Rightarrow> (prefix, 32 word) table \<Rightarrow> nat" where
  "holders i vp = length (filter (\<lambda>(v, j). j = i) vp)"

definition prof_inv :: "kprofile list \<Rightarrow> (64 word, 32 word) table \<Rightarrow> (32 word \<Rightarrow> int) \<Rightarrow> (prefix, 32 word) table \<Rightarrow> bool" where
  "prof_inv profs pof refs vp \<longleftrightarrow> length profs = 256 \<and> table_ok pof \<and> table_ok vp
     \<and> (\<forall>r i. tget pof r = Some i \<longrightarrow> dynamic_profile_base \<le> i \<and> i < max_profiles \<and> profs ! unat i = profile_encode (rate_profile r))
     \<and> (\<forall>v i. tget vp v = Some i \<longrightarrow> (\<exists>r. tget pof r = Some i))
     \<and> (\<forall>i. refs i = int (holders i vp))"

definition prof_ok :: "'m plane_scheme \<Rightarrow> bool" where
  "prof_ok s \<longleftrightarrow> prof_inv (km_profiles s) (in_profile_of s) (in_refs s) (in_victim_profile s)"

definition plane_ok :: "'m plane_scheme \<Rightarrow> bool" where
  "plane_ok s \<longleftrightarrow> pol_ok s \<and> prof_ok s"

lemma stride_upd [simp]:
  "policy_stride (s \<lparr> km_calls := n \<rparr>) = policy_stride s" "policy_stride (s \<lparr> km_victims := v \<rparr>) = policy_stride s"
  "policy_stride (s \<lparr> km_rule_stats := r \<rparr>) = policy_stride s" "policy_stride (s \<lparr> km_profiles := p \<rparr>) = policy_stride s"
  by (simp_all add: policy_stride_def)

lemma stride_plane [simp]:
  "policy_stride (s \<lparr> in_taken := a \<rparr>) = policy_stride s" "policy_stride (s \<lparr> in_policy_of := b \<rparr>) = policy_stride s"
  "policy_stride (s \<lparr> in_adopted := c \<rparr>) = policy_stride s" "policy_stride (s \<lparr> in_stride := d \<rparr>) = policy_stride s"
  "policy_stride (s \<lparr> in_refs := e \<rparr>) = policy_stride s" "policy_stride (s \<lparr> in_profile_of := f \<rparr>) = policy_stride s"
  "policy_stride (s \<lparr> in_victim_profile := g \<rparr>) = policy_stride s"
  by (simp_all add: policy_stride_def)

lemma stride_policies: "length b = length (km_policies s) \<Longrightarrow> policy_stride (s \<lparr> km_policies := b \<rparr>) = policy_stride s"
  by (simp add: policy_stride_def)

section \<open>References to profiles\<close>

lemma holders_tdel:
  "table_ok vp \<Longrightarrow> tget vp v = Some i \<Longrightarrow> holders j vp = holders j (tdel v vp) + (if j = i then 1 else 0)"
proof (induction vp)
  case (Cons x vp)
  obtain w k where x: "x = (w, k)" by (cases x)
  show ?case
  proof (cases "w = v")
    case True
    then have "v \<notin> set (map fst vp)" using Cons.prems by (simp add: x table_ok_def)
    then have "tdel v vp = vp" unfolding tdel_def AList.delete_eq by (auto simp: filter_id_conv image_iff)
    then show ?thesis using True Cons.prems by (simp add: x holders_def tdel_def tget_def)
  next
    case False
    then show ?thesis using Cons by (auto simp: x holders_def tdel_def tget_def table_ok_def)
  qed
qed (simp add: tget_def)

lemma holders_tput: "tget vp v = None \<Longrightarrow> holders j (tput v i vp) = holders j vp + (if j = i then 1 else 0)"
  by (induction vp) (auto simp: holders_def tput_def tget_def split: if_splits)

lemma holders_0: "holders i vp = 0 \<Longrightarrow> tget vp v \<noteq> Some i"
  by (induction vp) (auto simp: holders_def tget_def split: if_splits)

lemma tget_filter:
  "table_ok t \<Longrightarrow> tget (filter (\<lambda>(r, j). j \<noteq> i) t) r = (if tget t r = Some i then None else tget t r)"
  by (induction t) (auto simp: tget_def table_ok_def dest: map_of_SomeD intro!: map_of_eq_None_iff [THEN iffD2])

section \<open>What an operation on one victim leaves alone\<close>

definition static_same :: "'m plane_scheme \<Rightarrow> 'm plane_scheme \<Rightarrow> bool" where
  "static_same s t \<longleftrightarrow> km_clock t = km_clock s \<and> km_cfg t = km_cfg s \<and> km_statics t = km_statics s \<and> km_allow t = km_allow s \<and> km_protect t = km_protect s
     \<and> mg_sizing t = mg_sizing s \<and> mg_profiles t = mg_profiles s \<and> mg_opts t = mg_opts s \<and> mg_shadowed t = mg_shadowed s
     \<and> mg_closed t = mg_closed s \<and> in_adopted t = in_adopted s \<and> in_stride t = in_stride s
     \<and> length (km_policies t) = length (km_policies s) \<and> length (km_profiles t) = length (km_profiles s)
     \<and> (\<forall>i < dynamic_profile_base. km_profiles t ! unat i = km_profiles s ! unat i)"

definition others :: "prefix \<Rightarrow> 'm plane_scheme \<Rightarrow> 'm plane_scheme \<Rightarrow> bool" where
  "others v s t \<longleftrightarrow> static_same s t
     \<and> (\<forall>w. w \<noteq> v \<longrightarrow> tget (in_policy_of t) w = tget (in_policy_of s) w)
     \<and> (\<forall>w. w \<noteq> v \<longrightarrow> tget (km_victims t) w = tget (km_victims s) w)
     \<and> (\<forall>w j g. w \<noteq> v \<longrightarrow> tget (km_victims s) w = Some j \<longrightarrow> g < generations \<longrightarrow>
          km_policies t ! unat (g * policy_stride s + j) = km_policies s ! unat (g * policy_stride s + j))
     \<and> (\<forall>w. w \<noteq> v \<longrightarrow> tget (in_victim_profile t) w = tget (in_victim_profile s) w)
     \<and> (\<forall>w j. w \<noteq> v \<longrightarrow> tget (in_victim_profile s) w = Some j \<longrightarrow> km_profiles t ! unat j = km_profiles s ! unat j)"

lemma stride_static_same: "static_same s t \<Longrightarrow> policy_stride t = policy_stride s"
  by (simp add: static_same_def policy_stride_def)

lemma others_refl [simp]: "others v s s"
  by (simp add: others_def static_same_def)

lemma others_trans: "others v s t \<Longrightarrow> others v t u \<Longrightarrow> others v s u"
  using stride_static_same [of s t] unfolding others_def static_same_def by auto

definition step :: "prefix \<Rightarrow> 'm plane_scheme \<Rightarrow> 'm plane_scheme \<Rightarrow> bool" where
  "step v s t \<longleftrightarrow> plane_ok t \<and> others v s t"

lemma step_trans: "step v s t \<Longrightarrow> step v t u \<Longrightarrow> step v s u"
  using others_trans unfolding step_def by blast

text \<open>Operations on profiles see and change the profile fields alone.\<close>

definition pol_same :: "'m plane_scheme \<Rightarrow> 'm plane_scheme \<Rightarrow> bool" where
  "pol_same s t \<longleftrightarrow> static_same s t \<and> km_policies t = km_policies s \<and> km_victims t = km_victims s
     \<and> km_rule_stats t = km_rule_stats s \<and> in_policy_of t = in_policy_of s \<and> in_taken t = in_taken s"

lemma pol_ok_same: "pol_same s t \<Longrightarrow> pol_ok t = pol_ok s"
  by (simp add: pol_same_def static_same_def pol_ok_def sized_def policy_stride_def)

text \<open>The reverse: operations on policies keep the profile fields.\<close>

definition prof_same :: "'m plane_scheme \<Rightarrow> 'm plane_scheme \<Rightarrow> bool" where
  "prof_same s t \<longleftrightarrow> km_profiles t = km_profiles s \<and> in_profile_of t = in_profile_of s \<and> in_refs t = in_refs s
     \<and> in_victim_profile t = in_victim_profile s"

lemma prof_ok_same: "prof_same s t \<Longrightarrow> prof_ok t = prof_ok s"
  by (simp add: prof_same_def prof_ok_def)

section \<open>Profiles\<close>

lemma unat_prof_neq: "(i :: 32 word) \<noteq> j \<Longrightarrow> unat i \<noteq> unat j"
  by (simp add: word_unat_eq_iff)

lemma prof_inv_dec:
  assumes "prof_inv profs pof refs vp" "tget vp v = Some i"
  shows "refs i - 1 = int (holders i (tdel v vp))" "j \<noteq> i \<Longrightarrow> refs j = int (holders j (tdel v vp))"
  using assms holders_tdel [of vp v i] by (simp_all add: prof_inv_def)

lemma prof_inv_release_held:
  assumes p: "prof_inv profs pof refs vp" and v: "tget vp v = Some i"
  shows "0 < refs i - 1 \<Longrightarrow> prof_inv profs pof (refs(i := refs i - 1)) (tdel v vp)"
  using p prof_inv_dec [OF p v] by (auto simp: prof_inv_def tbl.get_del tbl.inv_del split: if_splits)

lemma prof_inv_release_last:
  assumes p: "prof_inv profs pof refs vp" and v: "tget vp v = Some i" and r: "\<not> 0 < refs i - 1"
    and profs': "profs' = profs \<or> profs' = profs[unat i := x]"
  shows "prof_inv profs' (filter (\<lambda>(r, j). j \<noteq> i) pof) (refs(i := 0)) (tdel v vp)"
proof -
  have h: "holders i (tdel v vp) = 0" using prof_inv_dec [OF p v] r by simp
  have n: "tget (tdel v vp) w \<noteq> Some i" for w by (rule holders_0 [OF h])
  show ?thesis
    unfolding prof_inv_def
  proof (intro conjI allI impI)
    show "length profs' = 256" "table_ok (filter (\<lambda>(r, j). j \<noteq> i) pof)" "table_ok (tdel v vp)"
      using p profs' by (auto simp: prof_inv_def table_ok_filter tbl.inv_del)
    show "(refs(i := 0)) j = int (holders j (tdel v vp))" for j
      using h prof_inv_dec(2) [OF p v, of j] by simp
    fix w j assume w: "tget (tdel v vp) w = Some j"
    then have "tget vp w = Some j" "j \<noteq> i"
      using n [of w] by (auto simp: tbl.get_del split: if_splits)
    moreover from this(1) obtain r where r: "tget pof r = Some j"
      using p unfolding prof_inv_def by blast
    ultimately show "\<exists>r. tget (filter (\<lambda>(r, j). j \<noteq> i) pof) r = Some j"
      using p r by (intro exI [where x = r]) (simp add: tget_filter prof_inv_def)
  next
    fix r j assume "tget (filter (\<lambda>(r, j). j \<noteq> i) pof) r = Some j"
    then have j: "tget pof r = Some j" "j \<noteq> i"
      using p by (auto simp: tget_filter prof_inv_def split: if_splits)
    then show "dynamic_profile_base \<le> j" "j < max_profiles" "profs' ! unat j = profile_encode (rate_profile r)"
      using p profs' unat_prof_neq [OF j(2)] by (auto simp: prof_inv_def)
  qed
qed

lemma rate_of_victim:
  "prof_inv profs pof refs vp \<Longrightarrow> tget vp v = Some i \<Longrightarrow>
   dynamic_profile_base \<le> i \<and> i < max_profiles \<and> unat i < length profs"
  unfolding prof_inv_def by (force simp: max_profiles_def word_less_nat_alt)

lemma static_slot_neq: "(k :: 32 word) < dynamic_profile_base \<Longrightarrow> dynamic_profile_base \<le> i \<Longrightarrow> unat i \<noteq> unat k"
  by (auto simp: word_less_nat_alt word_le_nat_alt)

text \<open>Dropping a reference leaves every other victim's rate in its slot.\<close>

definition prof_step :: "prefix \<Rightarrow> 'm plane_scheme \<Rightarrow> 'm plane_scheme \<Rightarrow> bool" where
  "prof_step v s t \<longleftrightarrow> pol_same s t \<and> prof_ok t
     \<and> (\<forall>w. w \<noteq> v \<longrightarrow> tget (in_victim_profile t) w = tget (in_victim_profile s) w)
     \<and> (\<forall>w j. w \<noteq> v \<longrightarrow> tget (in_victim_profile s) w = Some j \<longrightarrow> km_profiles t ! unat j = km_profiles s ! unat j)"

lemma prof_step_step: "prof_step v s t \<Longrightarrow> pol_ok s \<Longrightarrow> step v s t"
  by (auto simp: prof_step_def step_def plane_ok_def others_def pol_ok_same) (simp_all add: pol_same_def)

lemma prof_step_trans: "prof_step v s t \<Longrightarrow> prof_step v t u \<Longrightarrow> prof_step v s u"
  unfolding prof_step_def pol_same_def static_same_def by auto

lemma pol_same_profile_upd:
  assumes "dynamic_profile_base \<le> i"
  shows "pol_same s (s \<lparr> km_calls := n, km_profiles := (km_profiles s)[unat i := x], in_profile_of := a, in_refs := b, in_victim_profile := c \<rparr>)"
  using assms static_slot_neq by (auto simp: pol_same_def static_same_def nth_list_update)

lemma pol_same_upd:
  "pol_same s (s \<lparr> km_calls := n, in_profile_of := a, in_refs := b, in_victim_profile := c \<rparr>)"
  by (simp add: pol_same_def static_same_def)

lemma release_profile_wp:
  fixes s :: "'m plane_scheme"
  assumes p: "prof_ok s"
    and Q: "\<And>t. prof_step v s t \<Longrightarrow> got \<Longrightarrow> tget (in_victim_profile t) v = None \<Longrightarrow> Q () t"
    and Q': "\<not> got \<Longrightarrow> Q () s"
  shows "kwp (release_profile v got) Q E s"
proof (cases got)
  case got: True
  show ?thesis
  proof (cases "tget (in_victim_profile s) v")
    case None
    have "prof_step v s s" using p by (simp add: prof_step_def pol_same_def static_same_def)
    then show ?thesis using None got Q by (simp add: release_profile_def wp_simps)
  next
    case (Some i)
    note inv = p [unfolded prof_ok_def]
    note i = rate_of_victim [OF inv Some]
    let ?t = "s \<lparr> in_victim_profile := tdel v (in_victim_profile s), in_refs := (in_refs s)(i := in_refs s i - 1) \<rparr>"
    have other: "tget (tdel v (in_victim_profile s)) w = tget (in_victim_profile s) w" if "w \<noteq> v" for w
      using that by (simp add: tbl.get_del)
    show ?thesis
    proof (cases "0 < in_refs s i - 1")
      case True
      have "prof_step v s ?t"
        using prof_inv_release_held [OF inv Some True] other
        by (simp add: prof_step_def prof_ok_def pol_same_def static_same_def)
      then have "Q () ?t" using Q got by (simp add: tbl.get_del)
      then show ?thesis using True got Some by (simp add: release_profile_def wp_simps)
    next
      case False
      have neq: "j \<noteq> i" if "w \<noteq> v" "tget (in_victim_profile s) w = Some j" for w j
        using that holders_0 [of i "tdel v (in_victim_profile s)" w] False prof_inv_dec(1) [OF inv Some]
        by (auto simp: tbl.get_del)
      have slots: "(km_profiles s)[unat i := x] ! unat j = km_profiles s ! unat j"
        if "w \<noteq> v" "tget (in_victim_profile s) w = Some j" for w j x
        using unat_prof_neq [OF neq [OF that]] by simp
      have st: "Q () u"
        if u: "pol_same s u" "in_victim_profile u = tdel v (in_victim_profile s)" "in_refs u = (in_refs s)(i := 0)"
          "in_profile_of u = filter (\<lambda>(r, j). j \<noteq> i) (in_profile_of s)"
          and ps: "km_profiles u = km_profiles s \<or> km_profiles u = (km_profiles s)[unat i := profile_encode profile_none]" for u
      proof (rule Q)
        have "prof_ok u"
          using prof_inv_release_last [OF inv Some False ps] by (simp add: prof_ok_def u)
        then show "prof_step v s u"
          using ps other slots u by (auto simp: prof_step_def)
        show "got" "tget (in_victim_profile u) v = None" by (simp_all add: u tbl.get_del got)
      qed
      let ?u = "?t \<lparr> in_refs := (in_refs ?t)(i := 0), in_profile_of := filter (\<lambda>(r, j). j \<noteq> i) (in_profile_of ?t) \<rparr>"
      have "kwp (put_profile i profile_none) (\<lambda>_. Q ()) (\<lambda>_. Q ()) ?u"
        by (rule kwp_put_profile; rule st)
          (use i static_slot_neq in \<open>auto simp: pol_same_def static_same_def nth_list_update\<close>)
      then show ?thesis using False got Some by (simp add: release_profile_def wp_simps)
    qed
  qed
qed (simp add: release_profile_def wp_simps Q')

lemma find_nat_Some:
  assumes "List.find P [m..<k] = Some n" shows "m \<le> n \<and> n < k \<and> P n"
  using assms by (auto simp: find_Some_iff simp del: upt_Suc)

lemma find_nat_None: "List.find P [m..<k] = None \<Longrightarrow> m \<le> n \<Longrightarrow> n < k \<Longrightarrow> \<not> P n"
  by (auto simp: find_None_iff)

lemma free_profile_fresh:
  assumes "free_profile t = Some i"
  shows "dynamic_profile_base \<le> i \<and> i < max_profiles \<and> i \<notin> set (map snd t)"
proof -
  obtain n where i: "i = word_of_nat n"
    and f: "List.find (\<lambda>n. word_of_nat n \<notin> set (map snd t)) [unat dynamic_profile_base..<unat max_profiles] = Some n"
    using assms unfolding free_profile_def map_option_eq_Some by blast
  have n: "192 \<le> n" "n < 256" "word_of_nat n \<notin> set (map snd t)"
    using find_nat_Some [OF f] by (simp_all add: dynamic_profile_base_def max_profiles_def)
  have "unat (word_of_nat n :: 32 word) = n" using n by (simp add: unat_of_nat take_bit_nat_eq_self)
  then show ?thesis
    using n i by (auto simp: dynamic_profile_base_def max_profiles_def word_le_nat_alt word_less_nat_alt)
qed

lemma tget_value: "tget t k = Some i \<Longrightarrow> i \<in> set (map snd t)"
  unfolding tget_def by (drule map_of_SomeD) force

lemma prof_inv_new_rate:
  assumes p: "prof_inv profs pof refs vp" and f: "free_profile pof = Some i" and r: "tget pof r = None"
  shows "prof_inv (profs[unat i := profile_encode (rate_profile r)]) (tput r i pof) refs vp"
proof -
  note i = free_profile_fresh [OF f]
  have n: "tget pof q \<noteq> Some i" for q using i tget_value [of pof q i] by blast
  have k: "\<exists>q. tget (tput r i pof) q = Some j" if "tget vp v = Some j" for v j
    using p that r unfolding prof_inv_def tbl.get_put by (metis option.distinct(1))
  have l: "unat i < length profs" using p i by (auto simp: prof_inv_def max_profiles_def word_less_nat_alt)
  have "profs[unat i := x] ! unat j = profs ! unat j" if "tget pof q = Some j" for q j x
    using n [of q] that unat_prof_neq [of j i] by auto
  then show ?thesis
    using p i k l unfolding prof_inv_def by (auto simp: tbl.get_put tbl.inv_put split: if_splits)
qed

lemma prof_inv_take:
  assumes p: "prof_inv profs pof refs vp" and r: "tget pof r = Some i" and v: "tget vp v = None"
  shows "prof_inv profs pof (refs(i := refs i + 1)) (tput v i vp)"
  using p r holders_tput [OF v] unfolding prof_inv_def by (auto simp: tbl.get_put tbl.inv_put)

lemma prof_slots_new:
  assumes p: "prof_inv profs pof refs vp" and f: "free_profile pof = Some i" and w: "tget vp w = Some j"
  shows "profs[unat i := x] ! unat j = profs ! unat j"
proof -
  obtain q where "tget pof q = Some j" using p w unfolding prof_inv_def by blast
  then have "j \<noteq> i" using free_profile_fresh [OF f] tget_value by metis
  then show ?thesis using unat_prof_neq by simp
qed

text \<open>The id of a rate, interned now or before.\<close>

lemma profile_id_for_wp:
  assumes p: "prof_ok s" and Q: "\<And>t i. prof_step v s t \<Longrightarrow> tget (in_profile_of t) bps = Some i \<Longrightarrow>
      in_victim_profile t = in_victim_profile s \<Longrightarrow> Q i t"
    and E: "\<And>t e. prof_step v s t \<Longrightarrow> in_victim_profile t = in_victim_profile s \<Longrightarrow> E e t"
  shows "kwp (profile_id_for bps) Q E s"
proof -
  note inv = p [unfolded prof_ok_def]
  have same: "prof_step v s s" using p by (simp add: prof_step_def pol_same_def static_same_def)
  show ?thesis
  proof (cases "tget (in_profile_of s) bps")
    case (Some i)
    then show ?thesis using Q same by (simp add: profile_id_for_def wp_simps)
  next
    case None
    show ?thesis
    proof (cases "free_profile (in_profile_of s)")
      case f: None
      show ?thesis using None f E same by (simp add: profile_id_for_def wp_simps)
    next
      case f: (Some i)
      note i = free_profile_fresh [OF f]
      have good: "prof_step v s (s \<lparr> km_calls := n, km_profiles := (km_profiles s)[unat i := profile_encode (rate_profile bps)],
          in_profile_of := tput bps i (in_profile_of s) \<rparr>)" (is "prof_step v s ?t") for n
        unfolding prof_step_def
      proof (intro conjI allI impI)
        show "pol_same s ?t"
          using i static_slot_neq by (auto simp: pol_same_def static_same_def nth_list_update)
        show "prof_ok ?t" using prof_inv_new_rate [OF inv f None] by (simp add: prof_ok_def)
      qed (simp_all add: prof_slots_new [OF inv f])
      have bad: "prof_step v s (s \<lparr> km_calls := n \<rparr>)" for n
        using p by (simp add: prof_step_def pol_same_def static_same_def prof_ok_def)
      have "kwp (put_profile i (rate_profile bps)) (\<lambda>_ t. Q i (t \<lparr> in_profile_of := tput bps i (in_profile_of t) \<rparr>)) E s"
      proof (rule kwp_put_profile)
        fix n
        show "E Syscall (s \<lparr> km_calls := n \<rparr>)" by (rule E [OF bad]) simp
        let ?t = "s \<lparr> km_calls := n, km_profiles := (km_profiles s)[unat i := profile_encode (rate_profile bps)] \<rparr>"
        show "Q i (?t \<lparr> in_profile_of := tput bps i (in_profile_of ?t) \<rparr>)"
          by (rule Q) (use good in \<open>simp_all add: tbl.get_put\<close>)
      qed
      then show ?thesis using None f by (simp add: profile_id_for_def wp_simps)
    qed
  qed
qed

text \<open>After interning, the victim holds the slot of its rate, or none.\<close>

definition holds_rate :: "prefix \<Rightarrow> 64 word \<Rightarrow> 32 word \<Rightarrow> 'm plane_scheme \<Rightarrow> bool" where
  "holds_rate v bps i s \<longleftrightarrow> (if bps = 0 then i = 0 \<and> tget (in_victim_profile s) v = None
     else tget (in_victim_profile s) v = Some i \<and> tget (in_profile_of s) bps = Some i)"

lemma intern_profile_wp:
  assumes p: "prof_ok s"
    and Q: "\<And>t i. prof_step v s t \<Longrightarrow> holds_rate v bps i t \<Longrightarrow> Q (i, bps \<noteq> 0) t"
    and E: "\<And>t e. prof_step v s t \<Longrightarrow> tget (in_victim_profile t) v = None \<Longrightarrow> E e t"
  shows "kwp (intern_profile v bps) Q E s"
  unfolding intern_profile_def wp_simps
proof (rule release_profile_wp [OF p])
  fix t assume t: "prof_step v s t" "tget (in_victim_profile t) v = None"
  show "(if bps = 0 then Q (0, False) else kwp (profile_id_for bps) (\<lambda>i t. Q (i, True) (t \<lparr> in_refs := (in_refs t)(i := in_refs t i + 1),
      in_victim_profile := tput v i (in_victim_profile t) \<rparr>)) E) t"
  proof (cases "bps = 0")
    case True
    then show ?thesis using Q [of t 0] t by (simp add: holds_rate_def)
  next
    case False
    have pt: "prof_ok t" using t by (simp add: prof_step_def)
    have "kwp (profile_id_for bps) (\<lambda>i t. Q (i, True) (t \<lparr> in_refs := (in_refs t)(i := in_refs t i + 1),
      in_victim_profile := tput v i (in_victim_profile t) \<rparr>)) E t"
    proof (rule profile_id_for_wp [OF pt])
      fix u e assume u: "prof_step v t u" "in_victim_profile u = in_victim_profile t"
      show "E e u" by (rule E [OF prof_step_trans [OF t(1) u(1)]]) (simp add: u t)
    next
      fix u i assume u: "prof_step v t u" "tget (in_profile_of u) bps = Some i" "in_victim_profile u = in_victim_profile t"
      let ?u = "u \<lparr> in_refs := (in_refs u)(i := in_refs u i + 1), in_victim_profile := tput v i (in_victim_profile u) \<rparr>"
      have "prof_inv (km_profiles u) (in_profile_of u) (in_refs u) (in_victim_profile u)" "tget (in_victim_profile u) v = None"
        using u t by (simp_all add: prof_step_def prof_ok_def)
      then have "prof_ok ?u"
        using prof_inv_take u(2) by (simp add: prof_ok_def)
      then have "prof_step v u ?u"
        by (simp add: prof_step_def pol_same_def static_same_def tbl.get_put)
      then have "prof_step v s ?u"
        using t(1) u(1) prof_step_trans by blast
      moreover have "holds_rate v bps i ?u" using u False by (simp add: holds_rate_def tbl.get_put)
      ultimately show "Q (i, True) ?u" using Q [of ?u i] False by simp
    qed
    then show ?thesis using False by simp
  qed
qed simp

section \<open>Policies\<close>

text \<open>A victim that owns a policy id; a fresh one is not in the kernel yet.\<close>

definition mine :: "prefix \<Rightarrow> 32 word \<Rightarrow> bool \<Rightarrow> 'm plane_scheme \<Rightarrow> bool" where
  "mine v i fresh s \<longleftrightarrow> plane_ok s \<and> in_adopted s \<and> canonical v \<and> tget (in_policy_of s) v = Some i
     \<and> (fresh \<longrightarrow> (\<forall>k. tget (km_victims s) k \<noteq> Some i))"

lemma mine_ids: "mine v i fresh s \<Longrightarrow> sized s \<and> entries_ok (policy_stride s) (km_victims s)
    \<and> ids_ok (policy_stride s) (km_victims s) (in_policy_of s) (in_taken s) \<and> in_stride s = policy_stride s \<and> i < policy_stride s"
  by (auto simp: mine_def plane_ok_def pol_ok_def ids_ok_def)

lemma mine_entry: "mine v i fresh s \<Longrightarrow> tget (km_victims s) k = Some i \<Longrightarrow> k = v"
  using mine_ids [of v i fresh s] unfolding mine_def ids_ok_def by blast

lemma mine_step: "mine v i fresh t \<Longrightarrow> others v s t \<Longrightarrow> step v s t"
  by (simp add: mine_def step_def)

lemma slot_lt:
  assumes "sized s" "g < generations" "i < policy_stride s"
  shows "unat (g * policy_stride s + i) < length (km_policies s)"
proof -
  have "unat g \<le> 1" using assms(2) by (simp add: generations_def word_less_nat_alt)
  then have "unat g * unat (policy_stride s) \<le> 1 * unat (policy_stride s)" by (rule mult_le_mono1)
  moreover have "unat i < unat (policy_stride s)" using assms(3) by (simp add: word_less_nat_alt)
  moreover have "unat (g * policy_stride s + i) = unat g * unat (policy_stride s) + unat i"
    by (rule unat_slot) (use assms in \<open>auto simp: sized_def\<close>)
  moreover have "length (km_policies s) = 2 * unat (policy_stride s)" using assms(1) by (simp add: sized_def)
  ultimately show ?thesis by linarith
qed

lemma slot_neq:
  assumes "sized s" "g < generations" "h < generations" "i < policy_stride s" "j < policy_stride s" "i \<noteq> j"
  shows "unat (g * policy_stride s + i) \<noteq> unat (h * policy_stride s + j)"
proof
  let ?n = "unat (policy_stride s)"
  have n: "2 * ?n < 2 ^ 32" using assms(1) by (simp add: sized_def)
  assume "unat (g * policy_stride s + i) = unat (h * policy_stride s + j)"
  then have "(unat g * ?n + unat i) mod ?n = (unat h * ?n + unat j) mod ?n"
    using unat_slot [OF assms(2,4) n] unat_slot [OF assms(3,5) n] by simp
  then have "unat i = unat j"
    using assms(4,5) by (simp add: word_less_nat_alt)
  then show False using assms(6) by (simp add: word_unat_eq_iff)
qed

lemma mine_put_block:
  assumes m: "mine v i fresh s" and g: "g < generations" and t: "t = s \<lparr> km_calls := n, km_policies := (km_policies s)[unat (g * policy_stride s + i) := b] \<rparr>"
  shows "mine v i fresh t" and "others v s t"
proof -
  have st: "policy_stride t = policy_stride s" by (simp add: t policy_stride_def)
  then show "mine v i fresh t"
    using m by (simp add: t mine_def plane_ok_def pol_ok_def prof_ok_def sized_def)
  have "km_policies t ! unat (h * policy_stride s + j) = km_policies s ! unat (h * policy_stride s + j)"
    if "w \<noteq> v" "tget (km_victims s) w = Some j" "h < generations" for w j h
  proof -
    have "j \<noteq> i" using mine_entry [OF m] that by auto
    moreover have "j < policy_stride s" using mine_ids [OF m] that by (auto simp: entries_ok_def)
    ultimately have "unat (g * policy_stride s + i) \<noteq> unat (h * policy_stride s + j)"
      using slot_neq [of s g h i j] mine_ids [OF m] g that by blast
    then show ?thesis by (simp add: t)
  qed
  then show "others v s t" by (simp add: t others_def static_same_def)
qed

lemma mine_calls: "mine v i fresh s \<Longrightarrow> mine v i fresh (s \<lparr> km_calls := n \<rparr>)" "others v s (s \<lparr> km_calls := n \<rparr>)"
  by (simp_all add: mine_def plane_ok_def pol_ok_def prof_ok_def sized_def others_def static_same_def)

lemma mine_stats: "mine v i fresh s \<Longrightarrow> mine v i fresh (s \<lparr> km_calls := n, km_rule_stats := r \<rparr>)"
  "others v s (s \<lparr> km_calls := n, km_rule_stats := r \<rparr>)"
  by (simp_all add: mine_def plane_ok_def pol_ok_def prof_ok_def sized_def others_def static_same_def)

lemma generation_ok: "plane_ok s \<Longrightarrow> kc_generation (km_cfg s) < generations"
  by (simp add: plane_ok_def pol_ok_def sized_def)

lemma put_policy_wp:
  assumes m: "mine v i fresh s" and g: "g < generations"
    and Q: "\<And>t. mine v i fresh t \<Longrightarrow> others v s t \<Longrightarrow> length rs \<le> rules_per_policy \<Longrightarrow>
        km_policies t = (km_policies s)[unat (g * policy_stride s + i) := block_of rs] \<Longrightarrow>
        km_victims t = km_victims s \<Longrightarrow> prof_same s t \<Longrightarrow> km_rule_stats t = km_rule_stats s \<Longrightarrow> Q () t"
    and E: "\<And>t e. mine v i fresh t \<Longrightarrow> others v s t \<Longrightarrow> E e t"
  shows "kwp (put_policy g i rs) Q E s"
proof -
  have "i < policy_stride s" using mine_ids [OF m] by simp
  then have "\<not> policy_stride s \<le> i" by simp
  moreover have "kwp (put_block (g * policy_stride s + i) (block_of rs)) Q E s" if l: "length rs \<le> rules_per_policy"
    unfolding put_block_def
  proof (rule kwp_put)
    fix n
    show "Q () (s \<lparr> km_calls := n \<rparr> \<lparr> km_policies := (km_policies (s \<lparr> km_calls := n \<rparr>))[unat (g * policy_stride s + i) := block_of rs] \<rparr>)"
      by (rule Q) (use mine_put_block [OF m g refl] l in \<open>simp_all add: prof_same_def\<close>)
    show "E Syscall (s \<lparr> km_calls := n \<rparr>)" by (rule E) (use mine_calls m in blast)+
  qed
  ultimately show ?thesis
    using g E [OF m] by (simp add: put_policy_def wp_simps)
qed

lemma mine_prof_step:
  assumes "mine v i fresh s" "prof_step v s t"
  shows "mine v i fresh t" "others v s t"
proof -
  have "pol_ok s" using assms by (simp add: mine_def plane_ok_def)
  then have "step v s t" using prof_step_step assms by blast
  then show "others v s t" "mine v i fresh t"
    using assms by (simp_all add: step_def mine_def prof_step_def pol_same_def static_same_def)
qed

lemma mine_delete:
  assumes m: "mine v i fresh s" and t: "t = s \<lparr> km_calls := n, km_victims := tdel (pfx_masked v) (km_victims s) \<rparr>"
  shows "mine v i fresh t" and "others v s t"
proof -
  have k: "pfx_masked v = v" using m by (simp add: mine_def canonical_def)
  have "policy_stride t = policy_stride s" by (simp add: t policy_stride_def)
  then show "mine v i fresh t"
    using m by (auto simp: t mine_def plane_ok_def pol_ok_def prof_ok_def sized_def entries_ok_def ids_ok_def k
      tbl.get_del tbl.inv_del split: if_splits)
  show "others v s t" by (simp add: t others_def static_same_def k tbl.get_del)
qed

lemma mine_add:
  assumes m: "mine v i fresh s" and t: "t = s \<lparr> km_calls := n, km_victims := tput (pfx_masked v) i (km_victims s) \<rparr>"
  shows "mine v i False t" and "others v s t"
proof -
  have k: "pfx_masked v = v" using m by (simp add: mine_def canonical_def)
  have st: "policy_stride t = policy_stride s" by (simp add: t policy_stride_def)
  note ids = mine_ids [OF m]
  have "entries_ok (policy_stride s) (tput v i (km_victims s))"
    using ids m mine_entry [OF m] by (auto simp: entries_ok_def mine_def tbl.get_put tbl.inv_put split: if_splits)
  moreover have "ids_ok (policy_stride s) (tput v i (km_victims s)) (in_policy_of s) (in_taken s)"
    using ids m unfolding ids_ok_def mine_def by (auto simp: tbl.get_put)
  ultimately show "mine v i False t"
    using m st k by (simp add: t mine_def plane_ok_def pol_ok_def prof_ok_def sized_def)
  show "others v s t" by (simp add: t others_def static_same_def k tbl.get_put)
qed

end
