(* ===== verification/PlaneOps.thy ===== *)
theory PlaneOps
  imports PlaneInv
begin

text \<open>
  Install and withdraw, run backwards through their parts. Whatever map writes fail, an operation on
  one victim is a \<open>step\<close>: the invariants hold after it and every other victim keeps its entry, its
  block and its rate. On success the victim's block holds the encoded rules, or nothing.
\<close>

section \<open>Allocation\<close>

lemma alloc_policy_wp:
  assumes ok: "plane_ok s" and ad: "in_adopted s" and c: "canonical v"
    and Q: "\<And>t i fresh. mine v i fresh t \<Longrightarrow> others v s t \<Longrightarrow> prof_same s t \<Longrightarrow> km_policies t = km_policies s \<Longrightarrow>
        km_victims t = km_victims s \<Longrightarrow> fresh \<or> t = s \<Longrightarrow> i \<le> max_policy_id \<or> \<not> fresh \<Longrightarrow> Q (i, fresh) t"
    and E: "\<And>e. E e s"
  shows "kwp (alloc_policy v) Q E s"
proof (cases "tget (in_policy_of s) v")
  case (Some i)
  have "Q (i, False) s" by (rule Q) (use assms Some in \<open>simp_all add: mine_def prof_same_def\<close>)
  then show ?thesis using Some by (simp add: alloc_policy_def wp_simps)
next
  case None
  note inv = ok [unfolded plane_ok_def pol_ok_def]
  have ids: "ids_ok (policy_stride s) (km_victims s) (in_policy_of s) (in_taken s)" "in_stride s = policy_stride s"
    using inv ad by simp_all
  show ?thesis
  proof (cases "List.find (\<lambda>n. \<not> in_taken s (word_of_nat n)) [0..<unat (in_stride s)]")
    case f: None
    show ?thesis using None f E by (simp add: alloc_policy_def wp_simps)
  next
    case f: (Some n)
    let ?i = "word_of_nat n :: 32 word"
    let ?t = "s \<lparr> in_policy_of := tput v ?i (in_policy_of s), in_taken := (in_taken s)(?i := True) \<rparr>"
    have n: "n < unat (policy_stride s)" "\<not> in_taken s ?i" using find_nat_Some [OF f] ids(2) by simp_all
    have "n < 2 ^ 32" using n(1) unsigned_less [where 'a = nat, of "policy_stride s"] by simp
    then have "unat ?i = n" by (simp add: unat_of_nat)
    then have i: "?i < policy_stride s" using n by (simp add: word_less_nat_alt)
    have new: "tget (in_policy_of s) w \<noteq> Some ?i" "tget (km_victims s) w \<noteq> Some ?i" for w
      using ids(1) n(2) by (auto simp: ids_ok_def)
    have "ids_ok (policy_stride s) (km_victims s) (tput v ?i (in_policy_of s)) ((in_taken s)(?i := True))"
      unfolding ids_ok_def
    proof (intro conjI allI impI)
      fix w j assume w: "tget (tput v ?i (in_policy_of s)) w = Some j"
      then show "canonical w" "j < policy_stride s" "((in_taken s)(?i := True)) j"
        using ids(1) c i by (auto simp: tbl.get_put ids_ok_def split: if_splits)
      fix w' assume "tget (tput v ?i (in_policy_of s)) w' = Some j"
      then show "w = w'"
        using w new(1) [of w] new(1) [of w'] ids(1) unfolding ids_ok_def tbl.get_put by (auto split: if_splits)
    next
      fix k j assume k: "tget (km_victims s) k = Some j"
      then show "((in_taken s)(?i := True)) j" using ids(1) by (auto simp: ids_ok_def)
      fix w assume "tget (tput v ?i (in_policy_of s)) w = Some j"
      then have "tget (in_policy_of s) w = Some j" using k new(2) by (auto simp: tbl.get_put split: if_splits)
      then show "w = k" using k ids(1) unfolding ids_ok_def by blast
    qed
    then have "plane_ok ?t"
      using ok ad i by (simp add: plane_ok_def pol_ok_def prof_ok_def sized_def)
    then have m: "mine v ?i True ?t" using ad c new by (simp add: mine_def tbl.get_put)
    have "Q (?i, True) ?t" if "\<not> max_policy_id < ?i"
      by (rule Q [OF m]) (use that in \<open>simp_all add: others_def static_same_def prof_same_def tbl.get_put\<close>)
    then show ?thesis using None f E by (simp add: alloc_policy_def wp_simps)
  qed
qed

lemma release_policy_step:
  assumes "mine v i True s"
  shows "step v s (s \<lparr> in_policy_of := tdel v (in_policy_of s), in_taken := (in_taken s)(i := False) \<rparr>)"
proof -
  note ids = mine_ids [OF assms]
  have "ids_ok (policy_stride s) (km_victims s) (tdel v (in_policy_of s)) ((in_taken s)(i := False))"
    using ids assms unfolding ids_ok_def mine_def tbl.get_del by (auto split: if_splits)
  then show ?thesis
    using assms ids
    by (simp add: step_def mine_def plane_ok_def pol_ok_def prof_ok_def sized_def others_def static_same_def tbl.get_del)
qed

lemma release_policy_wp:
  assumes m: "mine v i fresh s" and Q: "\<And>t. step v s t \<Longrightarrow> Q () t"
  shows "kwp (release_policy v i fresh) Q E s"
proof (cases fresh)
  case True
  then show ?thesis using Q [OF release_policy_step] m by (simp add: release_policy_def wp_simps)
next
  case False
  then show ?thesis using Q [of s] mine_step [OF m] by (simp add: release_policy_def wp_simps)
qed

lemma release_both_wp:
  assumes m: "mine v i fresh s" and Q: "\<And>t. step v s t \<Longrightarrow> Q () t"
  shows "kwp (release_profile v got) (\<lambda>_. kwp (release_policy v i fresh) Q E) E s"
proof (rule release_profile_wp)
  show "prof_ok s" using m by (simp add: mine_def plane_ok_def)
next
  fix t assume "prof_step v s t"
  note t = mine_prof_step [OF m this]
  show "kwp (release_policy v i fresh) Q E t"
    by (rule release_policy_wp [OF t(1)]) (use t mine_step step_trans Q in blast)
next
  show "kwp (release_policy v i fresh) Q E s" by (rule release_policy_wp [OF m]) (rule Q)
qed

lemma undo_wp: "mine v i fresh s \<Longrightarrow> (\<And>t. step v s t \<Longrightarrow> Q () t) \<Longrightarrow> kwp (undo v i got fresh) Q E s"
  unfolding undo_def wp_simps by (rule release_both_wp)

text \<open>One victim's operations chain: each part keeps \<open>mine\<close> and leaves the others alone.\<close>

lemma delete_victim_wp:
  assumes m: "mine v i fresh s"
    and Q: "\<And>t. mine v i fresh t \<Longrightarrow> others v s t \<Longrightarrow> km_victims t = tdel v (km_victims s) \<Longrightarrow> Q () t"
    and E: "\<And>t e. mine v i fresh t \<Longrightarrow> others v s t \<Longrightarrow> E e t"
  shows "kwp (delete_victim v) Q E s"
proof (rule kwp_delete_victim)
  have k: "pfx_masked v = v" using m by (simp add: mine_def canonical_def)
  show "Q () (s \<lparr> km_calls := n, km_victims := tdel (pfx_masked v) (km_victims s) \<rparr>)" for n
    by (rule Q) (use mine_delete [OF m refl] k in simp_all)
  show "E Syscall (s \<lparr> km_calls := n \<rparr>)" for n
    by (rule E) (use mine_calls m in blast)+
qed

lemma delete_stats_wp:
  assumes m: "mine v i fresh s"
    and Q: "\<And>t. mine v i fresh t \<Longrightarrow> others v s t \<Longrightarrow> km_victims t = km_victims s \<Longrightarrow> km_policies t = km_policies s \<Longrightarrow>
      km_rule_stats t = fold tdel ids (km_rule_stats s) \<Longrightarrow> Q () t"
    and E: "\<And>t e. mine v i fresh t \<Longrightarrow> others v s t \<Longrightarrow> km_victims t = km_victims s \<Longrightarrow> km_policies t = km_policies s \<Longrightarrow> E e t"
  shows "kwp (delete_rule_stats ids) Q E s"
proof (rule kwp_delete_rule_stats)
  show "Q () (s \<lparr> km_calls := n, km_rule_stats := fold tdel ids (km_rule_stats s) \<rparr>)" for n
    by (rule Q) (use mine_stats m in \<open>auto\<close>)
  show "E Syscall (s \<lparr> km_calls := n, km_rule_stats := t \<rparr>)" for n t
    by (rule E) (use mine_stats m in \<open>auto\<close>)
qed

lemma rollback_wp:
  assumes m: "mine v i fresh s" and g: "g < generations" and Q: "\<And>t. step v s t \<Longrightarrow> Q () t"
  shows "kwp (rollback g v i ids got fresh) Q E s"
proof -
  have last: "kwp (release_profile v got) (\<lambda>_. kwp (release_policy v i fresh) Q E) E u"
    if "mine v i fresh u" "others v s u" for u
    by (rule release_both_wp [OF that(1)]) (use that mine_step step_trans Q in blast)
  have third: "kwp (delete_rule_stats ids) (\<lambda>_. kwp (release_profile v got) (\<lambda>_. kwp (release_policy v i fresh) Q E) E)
      (\<lambda>_. kwp (release_profile v got) (\<lambda>_. kwp (release_policy v i fresh) Q E) E) u"
    if "mine v i fresh u" "others v s u" for u
    by (rule delete_stats_wp [OF that(1)]) (use that last others_trans in blast)+
  have second: "kwp (put_policy g i []) (\<lambda>_. kwp (delete_rule_stats ids) (\<lambda>_. kwp (release_profile v got) (\<lambda>_. kwp (release_policy v i fresh) Q E) E)
      (\<lambda>_. kwp (release_profile v got) (\<lambda>_. kwp (release_policy v i fresh) Q E) E))
      (\<lambda>_. kwp (delete_rule_stats ids) (\<lambda>_. kwp (release_profile v got) (\<lambda>_. kwp (release_policy v i fresh) Q E) E)
      (\<lambda>_. kwp (release_profile v got) (\<lambda>_. kwp (release_policy v i fresh) Q E) E)) u"
    if "mine v i fresh u" "others v s u" for u
    by (rule put_policy_wp [OF that(1) g]) (use that third others_trans in blast)+
  show ?thesis
    unfolding rollback_def wp_simps
    by (rule delete_victim_wp [OF m]) (use second in blast)+
qed

section \<open>Install\<close>

definition block_at :: "'m plane_scheme \<Rightarrow> 32 word \<Rightarrow> policy_block" where
  "block_at s i = km_policies s ! unat (kc_generation (km_cfg s) * policy_stride s + i)"

text \<open>What a successful install leaves: entry, block, deadlines, rate and fresh counters.\<close>

definition installed :: "prefix \<Rightarrow> dynamic_rules \<Rightarrow> 64 word \<Rightarrow> 'm plane_scheme \<Rightarrow> bool" where
  "installed v r now s \<longleftrightarrow> (\<exists>i prof ks. tget (in_policy_of s) v = Some i \<and> tget (km_victims s) v = Some i
     \<and> holds_rate v (dr_rate r) prof s \<and> encode_rules (stamped i prof now r) = Inr ks \<and> length ks \<le> rules_per_policy
     \<and> block_at s i = block_of ks \<and> (\<forall>n < length (dr_specs r). tget (km_rule_stats s) (dynamic_rule_id i (word_of_nat n)) = Some (0, 0)))"

lemma tget_fold_zero: "tget (fold (\<lambda>i. tput i x) ids t) k = (if k \<in> set ids then Some x else tget t k)"
  by (induction ids arbitrary: t) (auto simp: tbl.get_put)

lemma fst_stamped: "map sp_id (stamped i prof now r) = map (\<lambda>n. dynamic_rule_id i (word_of_nat n)) [0..<length (dr_specs r)]"
  by (rule nth_equalityI) (simp_all add: stamped_def stamp_def nth_enumerate_eq)

lemma holds_rate_same: "prof_same s t \<Longrightarrow> holds_rate v bps i t = holds_rate v bps i s"
  by (simp add: prof_same_def holds_rate_def)

lemma ensure_stats_wp:
  assumes m: "mine v i fresh s"
    and Q: "\<And>t. mine v i fresh t \<Longrightarrow> others v s t \<Longrightarrow> km_policies t = km_policies s \<Longrightarrow> km_victims t = km_victims s \<Longrightarrow>
      prof_same s t \<Longrightarrow> km_rule_stats t = fold (\<lambda>i. tput i (0, 0)) ids (km_rule_stats s) \<Longrightarrow> Q () t"
    and E: "\<And>t e. mine v i fresh t \<Longrightarrow> others v s t \<Longrightarrow> E e t"
  shows "kwp (ensure_rule_stats ids) Q E s"
proof (rule kwp_ensure_rule_stats)
  show "Q () (s \<lparr> km_calls := n, km_rule_stats := fold (\<lambda>i. tput i (0, 0)) ids (km_rule_stats s) \<rparr>)" for n
    by (rule Q) (use mine_stats m in \<open>auto simp: prof_same_def\<close>)
  show "E Syscall (s \<lparr> km_calls := n, km_rule_stats := t \<rparr>)" for n t
    by (rule E) (use mine_stats m in blast)+
qed

lemma add_victim_wp:
  assumes m: "mine v i fresh s"
    and Q: "\<And>t. mine v i False t \<Longrightarrow> others v s t \<Longrightarrow> km_policies t = km_policies s \<Longrightarrow> prof_same s t \<Longrightarrow>
      km_rule_stats t = km_rule_stats s \<Longrightarrow> km_victims t = tput v i (km_victims s) \<Longrightarrow> Q () t"
    and E: "\<And>t e. mine v i fresh t \<Longrightarrow> others v s t \<Longrightarrow> E e t"
  shows "kwp (add_victim v i) Q E s"
proof (rule kwp_add_victim)
  have k: "pfx_masked v = v" using m by (simp add: mine_def canonical_def)
  show "Q () (s \<lparr> km_calls := n, km_victims := tput (pfx_masked v) i (km_victims s) \<rparr>)" for n
    by (rule Q) (use mine_add [OF m refl] k in \<open>simp_all add: prof_same_def\<close>)
  show "E e (s \<lparr> km_calls := n \<rparr>)" for n e by (rule E) (use mine_calls m in blast)+
  show "E e s" for e by (rule E) (use m in simp_all)
qed

lemma prof_same_trans: "prof_same s t \<Longrightarrow> prof_same t u \<Longrightarrow> prof_same s u"
  by (simp add: prof_same_def)

lemma others_static: "others v s t \<Longrightarrow> km_cfg t = km_cfg s \<and> policy_stride t = policy_stride s"
  by (simp add: others_def stride_static_same) (simp add: static_same_def)

lemma install_block_wp:
  assumes m: "mine v i fresh s" and h: "holds_rate v (dr_rate r) prof s" and g: "g = kc_generation (km_cfg s)"
    and Q: "\<And>t now. step v s t \<Longrightarrow> now \<noteq> 0 \<Longrightarrow> now \<in> range (km_clock s) \<Longrightarrow> installed v r now t \<Longrightarrow> Q () t"
    and E: "\<And>t e. step v s t \<Longrightarrow> E e t"
  shows "kwp (install_block g v r i fresh prof got) Q E s"
proof -
  have gen: "g < generations" using m g by (simp add: mine_def generation_ok)
  have clean: "kwp (undo v i got fresh) (\<lambda>_. E e) E u" if "mine v i fresh u" "others v s u" for u e
    by (rule undo_wp [OF that(1)]) (use that mine_step step_trans E in blast)
  have roll: "kwp (rollback g v i ids got fresh) (\<lambda>_. E e) E u" if "mine v i fresh u" "others v s u" for u e ids
    by (rule rollback_wp [OF that(1) gen]) (use that mine_step step_trans E in blast)
  show ?thesis
    unfolding install_block_def wp_simps deadline_clock_def Let_def
  proof (rule kwp_boot, goal_cases)
    case (1 n now)
    let ?s = "s \<lparr> km_calls := n \<rparr>"
    have ms: "mine v i fresh ?s" "others v s ?s" using mine_calls m by blast+
    show ?case
    proof (cases "now = 0 \<or> isl (encode_rules (stamped i prof now r))")
      case True
      then show ?thesis using clean [OF ms] by (auto simp: wp_simps isl_def)
    next
      case False
      then obtain ks where ks: "encode_rules (stamped i prof now r) = Inr ks" by (cases "encode_rules (stamped i prof now r)") auto
      let ?ids = "map sp_id (stamped i prof now r)"
      let ?last = "\<lambda>u. kwp (add_victim v i) (\<lambda>_. Q ()) (\<lambda>e. kwp (rollback g v i ?ids got fresh) (\<lambda>_. E e) E) u"
      have last: "?last u" if "mine v i fresh u" "others v s u" "prof_same s u" "length ks \<le> rules_per_policy"
        "block_at u i = block_of ks" "\<forall>n < length (dr_specs r). tget (km_rule_stats u) (dynamic_rule_id i (word_of_nat n)) = Some (0, 0)" for u
      proof (rule add_victim_wp [OF that(1)])
        fix t e assume "mine v i fresh t" "others v u t"
        then show "kwp (rollback g v i ?ids got fresh) (\<lambda>_. E e) E t" using roll that(2) others_trans by blast
      next
        fix t assume t: "mine v i False t" "others v u t" "km_policies t = km_policies u" "prof_same u t"
          "km_rule_stats t = km_rule_stats u" "km_victims t = tput v i (km_victims u)"
        have "block_at t i = block_of ks"
          using that(5) t(3) others_static [OF t(2)] by (simp add: block_at_def)
        moreover have "holds_rate v (dr_rate r) prof t"
          using h that(3) t(4) holds_rate_same prof_same_trans by blast
        moreover have "tget (in_policy_of t) v = Some i" "tget (km_victims t) v = Some i"
          using t by (simp_all add: mine_def tbl.get_put)
        ultimately have "installed v r now t"
          using ks that(4,6) t(5) unfolding installed_def by (intro exI [where x = i] exI [where x = prof] exI [where x = ks]) simp
        then show "Q () t"
          using Q [of t now] False 1 mine_step [OF t(1) others_trans [OF that(2) t(2)]] by simp
      qed
      have "kwp (put_policy g i ks) (\<lambda>_. ?last) (\<lambda>e. kwp (rollback g v i ?ids got fresh) (\<lambda>_. E e) E) u"
        if u: "mine v i fresh u" "others v s u" "prof_same s u"
          "\<forall>n < length (dr_specs r). tget (km_rule_stats u) (dynamic_rule_id i (word_of_nat n)) = Some (0, 0)" for u
      proof (rule put_policy_wp [OF u(1) gen])
        fix t e assume "mine v i fresh t" "others v u t"
        then show "kwp (rollback g v i ?ids got fresh) (\<lambda>_. E e) E t" using roll u(2) others_trans by blast
      next
        fix t assume t: "mine v i fresh t" "others v u t" "length ks \<le> rules_per_policy" "prof_same u t" "km_rule_stats t = km_rule_stats u"
          "km_policies t = (km_policies u)[unat (g * policy_stride u + i) := block_of ks]"
        have "unat (g * policy_stride u + i) < length (km_policies u)"
          using slot_lt [OF _ gen] mine_ids [OF u(1)] by blast
        then have b: "block_at t i = block_of ks"
          using t(6) others_static [OF t(2)] others_static [OF u(2)] g by (simp add: block_at_def)
        show "?last t"
          by (rule last [OF t(1)]) (use b t u others_trans prof_same_trans in \<open>auto\<close>)
      qed
      note put = this
      have "kwp (ensure_rule_stats ?ids) (\<lambda>_. kwp (put_policy g i ks) (\<lambda>_. ?last) (\<lambda>e. kwp (rollback g v i ?ids got fresh) (\<lambda>_. E e) E))
          (\<lambda>e. kwp (undo v i got fresh) (\<lambda>_. E e) E) ?s"
      proof (rule ensure_stats_wp [OF ms(1)])
        fix t e assume "mine v i fresh t" "others v ?s t"
        then show "kwp (undo v i got fresh) (\<lambda>_. E e) E t" using clean ms(2) others_trans by blast
      next
        fix t assume t: "mine v i fresh t" "others v ?s t" "prof_same ?s t" "km_rule_stats t = fold (\<lambda>i. tput i (0, 0)) ?ids (km_rule_stats ?s)"
        show "kwp (put_policy g i ks) (\<lambda>_. ?last) (\<lambda>e. kwp (rollback g v i ?ids got fresh) (\<lambda>_. E e) E) t"
        proof (rule put [OF t(1)])
          show "others v s t" using ms(2) t(2) others_trans by blast
          show "prof_same s t" using t(3) by (simp add: prof_same_def)
          show "\<forall>n < length (dr_specs r). tget (km_rule_stats t) (dynamic_rule_id i (word_of_nat n)) = Some (0, 0)"
            unfolding t(4) fst_stamped tget_fold_zero by auto
        qed
      qed
      then show ?thesis using False ks by (simp add: wp_simps)
    qed
  qed
qed

end
