(* ===== verification/Adoption.thy ===== *)
theory Adoption
  imports PlaneOps
begin

text \<open>
  Adoption after a restart: the allocators of a new process are filled from the victims the kernel
  holds. Afterwards the invariants hold, a live block is where it was, and only dead blocks are gone.
\<close>

lemma put_policy_raw:
  "(\<And>n. Q () (s \<lparr> km_calls := n, km_policies := (km_policies s)[unat (g * policy_stride s + i) := block_of rs] \<rparr>)) \<Longrightarrow>
   (\<And>n e. E e (s \<lparr> km_calls := n \<rparr>)) \<Longrightarrow> (\<And>e. E e s) \<Longrightarrow> kwp (put_policy g i rs) Q E s"
  unfolding put_policy_def put_block_def wp_simps by (auto intro: kwp_put)

text \<open>What a reaping pass may change: entries and blocks, and the policy half of the allocators.\<close>

definition reap_frame :: "'m plane_scheme \<Rightarrow> 'm plane_scheme \<Rightarrow> bool" where
  "reap_frame s u \<longleftrightarrow> km_clock u = km_clock s \<and> km_cfg u = km_cfg s \<and> km_statics u = km_statics s \<and> km_allow u = km_allow s \<and> km_protect u = km_protect s
     \<and> mg_closed u = mg_closed s \<and> mg_profiles u = mg_profiles s \<and> prof_same s u \<and> km_rule_stats u = km_rule_stats s
     \<and> length (km_policies u) = length (km_policies s)
     \<and> (\<forall>k i. tget (km_victims u) k = Some i \<longrightarrow> tget (km_victims s) k = Some i)"

definition live_kept :: "64 word \<Rightarrow> 'm plane_scheme \<Rightarrow> 'm plane_scheme \<Rightarrow> bool" where
  "live_kept now s u \<longleftrightarrow> (\<forall>k i. tget (km_victims s) k = Some i \<longrightarrow> \<not> block_is_dead (block_at s i) now \<longrightarrow>
     tget (km_victims u) k = Some i \<and> block_at u i = block_at s i)"

definition adopting :: "64 word \<Rightarrow> 'm plane_scheme \<Rightarrow> (prefix \<times> 32 word) list \<Rightarrow> 'm plane_scheme \<Rightarrow> bool" where
  "adopting now s rest u \<longleftrightarrow> reap_frame s u \<and> live_kept now s u \<and> \<not> in_adopted u \<and> in_stride u = policy_stride s
     \<and> entries_ok (policy_stride s) (km_victims u)
     \<and> (\<forall>w i. tget (in_policy_of u) w = Some i \<longrightarrow> tget (km_victims u) w = Some i \<and> in_taken u i)
     \<and> (\<forall>e \<in> set rest. tget (km_victims u) (fst e) = Some (snd e) \<and> tget (in_policy_of u) (fst e) = None
          \<and> block_at u (snd e) = block_at s (snd e))
     \<and> distinct (map fst rest)
     \<and> (\<forall>k i. tget (km_victims u) k = Some i \<longrightarrow> (k, i) \<in> set rest \<or> in_taken u i)"

lemma reap_stride: "reap_frame s u \<Longrightarrow> policy_stride u = policy_stride s"
  by (simp add: reap_frame_def policy_stride_def)

lemma adopting_parts:
  assumes f: "reap_frame s t = reap_frame s u" "km_victims t = km_victims u" "\<And>j. block_at t j = block_at u j"
    "in_adopted t = in_adopted u" "in_stride t = in_stride u"
  and a: "adopting now s ((p, i) # rest) u"
  and pol: "\<And>w j. tget (in_policy_of t) w = Some j \<Longrightarrow> tget (km_victims u) w = Some j \<and> in_taken t j"
  and none: "\<And>w. w \<noteq> p \<Longrightarrow> tget (in_policy_of t) w = tget (in_policy_of u) w"
  and taken: "in_taken t i" "\<And>j. in_taken u j \<Longrightarrow> in_taken t j"
  shows "adopting now s rest t"
proof -
  have "live_kept now s t = live_kept now s u" by (simp add: live_kept_def f)
  moreover have "\<forall>e \<in> set rest. tget (km_victims t) (fst e) = Some (snd e) \<and> tget (in_policy_of t) (fst e) = None
      \<and> block_at t (snd e) = block_at s (snd e)"
  proof
    fix e assume e: "e \<in> set rest"
    then have "fst e \<noteq> p" using a by (auto simp: adopting_def image_iff)
    then show "tget (km_victims t) (fst e) = Some (snd e) \<and> tget (in_policy_of t) (fst e) = None \<and> block_at t (snd e) = block_at s (snd e)"
      using a e f none by (simp add: adopting_def)
  qed
  moreover have "(k, j) \<in> set rest \<or> in_taken t j" if "tget (km_victims t) k = Some j" for k j
  proof -
    have "(k, j) \<in> set ((p, i) # rest) \<or> in_taken u j" using that a f(2) unfolding adopting_def by metis
    then show ?thesis using taken by auto
  qed
  ultimately show ?thesis
    using a f pol unfolding adopting_def by simp
qed

lemma adopting_take:
  assumes a: "adopting now s ((p, i) # rest) u"
  shows "adopting now s rest (u \<lparr> km_calls := n, in_taken := (in_taken u)(i := True) \<rparr>)"
proof (rule adopting_parts [OF _ _ _ _ _ a])
  show "tget (km_victims u) w = Some j \<and> in_taken (u \<lparr> km_calls := n, in_taken := (in_taken u)(i := True) \<rparr>) j"
    if "tget (in_policy_of (u \<lparr> km_calls := n, in_taken := (in_taken u)(i := True) \<rparr>)) w = Some j" for w j
    using a that by (simp add: adopting_def)
qed (simp_all add: reap_frame_def prof_same_def block_at_def)

lemma adopting_bind:
  assumes a: "adopting now s ((p, i) # rest) u"
  shows "adopting now s rest (u \<lparr> km_calls := n, in_policy_of := tput p i (in_policy_of u), in_taken := (in_taken u)(i := True) \<rparr>)"
    (is "adopting _ _ _ ?t")
proof (rule adopting_parts [OF _ _ _ _ _ a])
  show "tget (km_victims u) w = Some j \<and> in_taken ?t j" if "tget (in_policy_of ?t) w = Some j" for w j
    using a that by (auto simp: adopting_def tbl.get_put split: if_splits)
qed (simp_all add: reap_frame_def prof_same_def block_at_def tbl.get_put)

lemma adopting_reap:
  assumes a: "adopting now s ((p, i) # rest) u" and sz: "sized s" and dead: "block_is_dead (block_at u i) now"
    and pol: "pols = km_policies u \<or> pols = (km_policies u)[unat (kc_generation (km_cfg s) * policy_stride s + i) := b]"
  shows "adopting now s rest (u \<lparr> km_calls := n, km_victims := tdel p (km_victims u), km_policies := pols \<rparr>)" (is "adopting _ _ _ ?t")
proof -
  note fr = a [unfolded adopting_def, THEN conjunct1]
  have len: "length pols = length (km_policies u)" using pol by auto
  have st: "policy_stride ?t = policy_stride s" using reap_stride [OF fr] len by (simp add: policy_stride_def)
  have p: "tget (km_victims u) p = Some i" "block_at u i = block_at s i" using a by (simp_all add: adopting_def)
  have inj: "j \<noteq> i \<and> j < policy_stride s" if "tget (km_victims u) k = Some j" "k \<noteq> p" for k j
    using a p(1) that unfolding adopting_def entries_ok_def by blast
  have i: "i < policy_stride s" using a p(1) by (auto simp: adopting_def entries_ok_def)
  have blk: "block_at ?t j = block_at u j" if "tget (km_victims u) k = Some j" "k \<noteq> p" for k j
  proof -
    have "unat (kc_generation (km_cfg s) * policy_stride s + i) \<noteq> unat (kc_generation (km_cfg s) * policy_stride s + j)"
      using slot_neq [OF sz, of "kc_generation (km_cfg s)" "kc_generation (km_cfg s)" i j] sz i inj [OF that] by (auto simp: sized_def)
    then show ?thesis
      using pol st reap_stride [OF fr] fr by (auto simp: block_at_def reap_frame_def)
  qed
  have e: "entries_ok (policy_stride s) (tdel p (km_victims u))"
    using a by (auto simp: adopting_def entries_ok_def tbl.get_del tbl.inv_del split: if_splits)
  have lk: "live_kept now s ?t"
    unfolding live_kept_def
  proof (intro allI impI)
    fix k j assume k: "tget (km_victims s) k = Some j" "\<not> block_is_dead (block_at s j) now"
    then have u: "tget (km_victims u) k = Some j" "block_at u j = block_at s j"
      using a by (auto simp: adopting_def live_kept_def)
    then have "k \<noteq> p" using k(2) dead p by auto
    then show "tget (km_victims ?t) k = Some j \<and> block_at ?t j = block_at s j"
      using u blk by (simp add: tbl.get_del)
  qed
  have rf: "reap_frame s ?t"
    using fr len by (auto simp: reap_frame_def prof_same_def tbl.get_del split: if_splits)
  have r: "\<forall>e \<in> set rest. tget (km_victims ?t) (fst e) = Some (snd e) \<and> tget (in_policy_of ?t) (fst e) = None
      \<and> block_at ?t (snd e) = block_at s (snd e)"
  proof
    fix e assume e: "e \<in> set rest"
    then have "fst e \<noteq> p" "tget (km_victims u) (fst e) = Some (snd e)" "tget (in_policy_of u) (fst e) = None"
      "block_at u (snd e) = block_at s (snd e)"
      using a by (auto simp: adopting_def image_iff)
    then show "tget (km_victims ?t) (fst e) = Some (snd e) \<and> tget (in_policy_of ?t) (fst e) = None \<and> block_at ?t (snd e) = block_at s (snd e)"
      using blk by (simp add: tbl.get_del)
  qed
  have none: "tget (in_policy_of u) p = None" using a by (simp add: adopting_def)
  show ?thesis
    using a rf lk e r none unfolding adopting_def by (auto simp: tbl.get_del)
qed

lemma adopt_entry_wp:
  assumes a: "adopting now s (e # rest) u" and sz: "sized s"
    and Q: "\<And>t. adopting now s rest t \<Longrightarrow> Q () t"
  shows "kwp (adopt_entry (kc_generation (km_cfg s)) now e) Q E u"
proof -
  obtain p i where e: "e = (p, i)" by (cases e)
  note a' = a [unfolded e]
  note fr = a [unfolded adopting_def, THEN conjunct1]
  have c: "pfx_masked p = p" using a' by (auto simp: adopting_def entries_ok_def canonical_def)
  have st: "in_stride u = policy_stride u" using a reap_stride [OF fr] by (simp add: adopting_def)
  have cfg: "km_cfg u = km_cfg s" using fr by (simp add: reap_frame_def)
  have take: "Q () (u \<lparr> km_calls := n, in_taken := (in_taken u)(i := True) \<rparr>)" for n
    by (rule Q [OF adopting_take [OF a']])
  have reap: "Q () t" if dead: "block_is_dead (block_at u i) now"
    and t: "t = u \<lparr> km_calls := n, km_victims := tdel p (km_victims u), km_policies := pols \<rparr>"
    and pols: "pols = km_policies u \<or> pols = (km_policies u)[unat (kc_generation (km_cfg s) * policy_stride s + i) := b]" for t n pols b
    unfolding t by (rule Q, rule adopting_reap [OF a' sz dead pols])
  show ?thesis
    unfolding adopt_entry_def e prod.case wp_simps
  proof (rule kwp_read_block, goal_cases)
    case (1 n)
    let ?u = "u \<lparr> km_calls := n \<rparr>"
    let ?b = "km_policies u ! unat (kc_generation (km_cfg s) * in_stride u + i)"
    have b: "?b = block_at u i" by (simp add: block_at_def st cfg)
    show ?case
    proof (cases "block_is_dead ?b now")
      case True
      then have dead: "block_is_dead (block_at u i) now" using b by simp
      have "kwp (delete_victim p)
        (\<lambda>x. kwp (put_policy (kc_generation (km_cfg s)) i []) (\<lambda>x. Q ()) (\<lambda>e. Q ()))
        (\<lambda>e. kwp (mark_taken i) Q E) ?u"
      proof (rule kwp_delete_victim)
        fix m
        show "kwp (put_policy (kc_generation (km_cfg s)) i []) (\<lambda>x. Q ()) (\<lambda>e. Q ()) (?u \<lparr> km_calls := m, km_victims := tdel (pfx_masked p) (km_victims ?u) \<rparr>)"
        proof (rule put_policy_raw, goal_cases)
          case (1 k)
          show ?case
            by (rule reap [OF dead, where n = k and pols = "(km_policies u)[unat (kc_generation (km_cfg s) * policy_stride s + i) := block_of []]" and b = "block_of []"])
              (simp_all add: c reap_stride [OF fr])
        next
          case (2 k)
          show ?case by (rule reap [OF dead, where n = k and pols = "km_policies u"]) (simp_all add: c)
        next
          case 3
          show ?case by (rule reap [OF dead, where n = m and pols = "km_policies u"]) (simp_all add: c)
        qed
        show "kwp (mark_taken i) Q E (?u \<lparr> km_calls := m \<rparr>)"
          using take [of m] by (simp add: mark_taken_def wp_simps)
      qed
      then show ?thesis using True by (simp add: wp_simps)
    next
      case False
      then show ?thesis using Q [OF adopting_bind [OF a']] by (simp add: wp_simps mark_taken_def)
    qed
  next
    case (2 n)
    then show ?case using take by (simp add: mark_taken_def wp_simps)
  qed
qed

section \<open>The whole pass\<close>

definition adopted_from :: "'m plane_scheme \<Rightarrow> 'm plane_scheme \<Rightarrow> bool" where
  "adopted_from s t \<longleftrightarrow> (if in_adopted s then t = s else reap_frame s t \<and> (\<exists>now. live_kept now s t))"

lemma dump_entries:
  assumes "entries_ok st vs"
  shows "set (filter (is4 \<circ> pfx_addr \<circ> fst) vs @ filter (is6 \<circ> pfx_addr \<circ> fst) vs) = set vs"
    and "distinct (map fst (filter (is4 \<circ> pfx_addr \<circ> fst) vs @ filter (is6 \<circ> pfx_addr \<circ> fst) vs))"
proof -
  have "is4 (pfx_addr p) \<or> is6 (pfx_addr p)" if "(p, i) \<in> set vs" for p i
  proof -
    have "canonical p" using assms that by (auto simp: entries_ok_def in_set_tget)
    then have "addr_valid (pfx_addr p)" by (simp add: canonical_def pfx_wf_def)
    then show ?thesis by (cases "pfx_addr p") simp_all
  qed
  then show "set (filter (is4 \<circ> pfx_addr \<circ> fst) vs @ filter (is6 \<circ> pfx_addr \<circ> fst) vs) = set vs" by fastforce
  have d: "distinct (map fst vs)" using assms by (simp add: entries_ok_def table_ok_def)
  have "is4 a \<Longrightarrow> \<not> is6 a" for a by (cases a) simp_all
  then show "distinct (map fst (filter (is4 \<circ> pfx_addr \<circ> fst) vs @ filter (is6 \<circ> pfx_addr \<circ> fst) vs))"
    using d by (auto simp: distinct_map_filter)
qed

lemma adopting_start:
  assumes ok: "plane_ok s" and ad: "\<not> in_adopted s" and u: "u = s \<lparr> in_stride := policy_stride s, km_calls := n \<rparr>"
    and es: "set es = set (km_victims s)" "distinct (map fst es)"
  shows "adopting now s es u"
proof -
  note inv = ok [unfolded plane_ok_def pol_ok_def]
  have e: "entries_ok (policy_stride s) (km_victims s)" "in_policy_of s = []" using inv ad by simp_all
  have t: "(k, i) \<in> set (km_victims s) \<longleftrightarrow> tget (km_victims s) k = Some i" for k i
    using e by (simp add: entries_ok_def in_set_tget_iff)
  show ?thesis
    unfolding adopting_def u
    using ad e es t by (auto simp: reap_frame_def live_kept_def prof_same_def block_at_def tget_def)
qed

lemma adopting_done:
  assumes ok: "plane_ok s" and a: "adopting now s [] u" and t: "t = u \<lparr> in_adopted := True \<rparr>"
  shows "plane_ok t" "reap_frame s t" "live_kept now s t"
proof -
  note fr = a [unfolded adopting_def, THEN conjunct1]
  have st: "policy_stride t = policy_stride s" using reap_stride [OF fr] by (simp add: t)
  have "sized s" "prof_ok s" using ok by (simp_all add: plane_ok_def pol_ok_def)
  then have "sized t" "prof_ok t"
    using fr st by (simp_all add: sized_def prof_ok_def reap_frame_def prof_same_def t)
  moreover have "ids_ok (policy_stride s) (km_victims u) (in_policy_of u) (in_taken u)"
    using a unfolding adopting_def entries_ok_def ids_ok_def by (metis empty_iff list.set(1))
  ultimately show "plane_ok t"
    using a st by (simp add: plane_ok_def pol_ok_def adopting_def t)
  show "reap_frame s t" using fr by (simp add: reap_frame_def prof_same_def t)
  have "live_kept now s u" using a by (simp add: adopting_def)
  moreover have "block_at t j = block_at u j" for j by (simp add: block_at_def t)
  ultimately show "live_kept now s t" by (simp add: live_kept_def t)
qed

lemma adopt_wp:
  assumes ok: "plane_ok s" and g: "g = kc_generation (km_cfg s)"
    and Q: "\<And>t. plane_ok t \<Longrightarrow> in_adopted t \<Longrightarrow> adopted_from s t \<Longrightarrow> Q () t"
    and E: "\<And>t e. plane_ok t \<Longrightarrow> reap_frame s t \<Longrightarrow> km_victims t = km_victims s \<Longrightarrow> km_policies t = km_policies s \<Longrightarrow> \<not> in_adopted s \<Longrightarrow> E e t"
  shows "kwp (adopt g) Q E s"
proof (cases "in_adopted s")
  case True
  then show ?thesis using Q [OF ok True] by (simp add: adopt_def wp_simps adopted_from_def)
next
  case False
  let ?s = "s \<lparr> in_stride := policy_stride s \<rparr>"
  note inv = ok [unfolded plane_ok_def pol_ok_def]
  have e: "entries_ok (policy_stride s) (km_victims s)" "sized s" using inv by simp_all
  have fail: "E e (?s \<lparr> km_calls := n \<rparr>)" "E e ?s" for n e
    by (rule E; use ok False in \<open>simp add: plane_ok_def pol_ok_def prof_ok_def sized_def reap_frame_def prof_same_def\<close>)+
  let ?es = "filter (is4 \<circ> pfx_addr \<circ> fst) (km_victims s) @ filter (is6 \<circ> pfx_addr \<circ> fst) (km_victims s)"
  have loop: "kwp (kfor (adopt_entry g now) ?es) (\<lambda>_ t. Q () (t \<lparr> in_adopted := True \<rparr>)) E u"
    if u: "u = s \<lparr> in_stride := policy_stride s, km_calls := n \<rparr>" for n now u
  proof (rule kwp_mono)
    show "kwp (kfor (adopt_entry g now) ?es) (\<lambda>_. adopting now s []) E u"
    proof (rule kwp_for [where I = "adopting now s"])
      show "adopting now s ?es u"
        by (rule adopting_start [OF ok False u]) (rule dump_entries [OF e(1)])+
      show "kwp (adopt_entry g now x) (\<lambda>_. adopting now s rest) E t" if "adopting now s (x # rest) t" for x rest t
        unfolding g by (rule adopt_entry_wp [OF that e(2)])
    qed
  next
    fix x t assume "adopting now s [] t"
    note d = adopting_done [OF ok this refl]
    show "Q () (t \<lparr> in_adopted := True \<rparr>)"
      by (rule Q [OF d(1)]) (use d False in \<open>auto simp: adopted_from_def\<close>)
  qed simp
  have "kwp victim_entries (\<lambda>es. kwp boot_ns (\<lambda>now. kwp (kfor (adopt_entry g now) es) (\<lambda>_ t. Q () (t \<lparr> in_adopted := True \<rparr>)) E) E) E ?s"
    unfolding victim_entries_def wp_simps
  proof (rule kwp_victims_of_family, goal_cases)
    case (1 n)
    show ?case
    proof (rule kwp_victims_of_family, goal_cases)
      case (1 m)
      show ?case
      proof (rule kwp_boot, goal_cases)
        case (1 k now)
        then show ?case using loop [of _ k] by simp
      qed
    next
      case (2 m)
      then show ?case using fail(1) [of Syscall m] by simp
    qed
  next
    case (2 n)
    then show ?case by (rule fail)
  qed
  then show ?thesis
    using False fail(2) [of StrideZero] by (cases "policy_stride s = 0") (simp_all add: adopt_def wp_simps)
qed

end
