(* ===== verification/InstallerSpec.thy ===== *)
theory InstallerSpec
  imports Adoption
begin

text \<open>
  Whole calls of the installer. \<open>untouched\<close> is what a call on one victim owes every other victim and
  the operator's policy; the last section says what the XDP program decides after an install.
\<close>

section \<open>Other victims\<close>

definition untouched :: "prefix \<Rightarrow> 'm plane_scheme \<Rightarrow> 'm plane_scheme \<Rightarrow> bool" where
  "untouched v s t \<longleftrightarrow> km_cfg t = km_cfg s \<and> km_statics t = km_statics s \<and> km_allow t = km_allow s \<and> km_protect t = km_protect s
     \<and> mg_profiles t = mg_profiles s
     \<and> (\<forall>j < dynamic_profile_base. km_profiles t ! unat j = km_profiles s ! unat j)
     \<and> (\<exists>now. \<forall>w i. w \<noteq> v \<longrightarrow> tget (km_victims s) w = Some i \<longrightarrow> in_adopted s \<or> \<not> block_is_dead (block_at s i) now \<longrightarrow>
          tget (km_victims t) w = Some i \<and> block_at t i = block_at s i)
     \<and> (\<forall>w i. w \<noteq> v \<longrightarrow> tget (km_victims t) w = Some i \<longrightarrow> tget (km_victims s) w = Some i)
     \<and> (\<forall>w j. w \<noteq> v \<longrightarrow> tget (in_victim_profile s) w = Some j \<longrightarrow>
          tget (in_victim_profile t) w = Some j \<and> km_profiles t ! unat j = km_profiles s ! unat j)"

text \<open>A pass that reaps, then an operation on the victim.\<close>

definition reaped :: "'m plane_scheme \<Rightarrow> 'm plane_scheme \<Rightarrow> bool" where
  "reaped s u \<longleftrightarrow> plane_ok u \<and> reap_frame s u \<and> (\<exists>now. live_kept now s u)
     \<and> (in_adopted s \<longrightarrow> km_victims u = km_victims s \<and> km_policies u = km_policies s)"

lemma reaped_untouched:
  assumes r: "reaped s u" and o: "others v u t"
  shows "untouched v s t"
proof -
  obtain now where now: "live_kept now s u" using r by (auto simp: reaped_def)
  have fr: "reap_frame s u" using r by (simp add: reaped_def)
  have st: "policy_stride u = policy_stride s" "policy_stride t = policy_stride u" "km_cfg t = km_cfg u"
    using reap_stride [OF fr] others_static [OF o] by simp_all
  have keep: "tget (km_victims u) w = Some i \<and> block_at u i = block_at s i"
    if "tget (km_victims s) w = Some i" "in_adopted s \<or> \<not> block_is_dead (block_at s i) now" for w i
  proof (cases "in_adopted s")
    case True
    then have "km_victims u = km_victims s" "km_policies u = km_policies s" using r unfolding reaped_def by blast+
    moreover have "km_cfg u = km_cfg s" using fr unfolding reap_frame_def by blast
    ultimately show ?thesis using that(1) st(1) by (simp add: block_at_def)
  next
    case False
    then show ?thesis using that now unfolding live_kept_def by blast
  qed
  have blk: "block_at t i = block_at u i" if "w \<noteq> v" "tget (km_victims u) w = Some i" for w i
  proof -
    have "kc_generation (km_cfg u) < generations" using r by (simp add: reaped_def generation_ok)
    then show ?thesis using o that st by (simp add: block_at_def others_def)
  qed
  show ?thesis
    unfolding untouched_def
  proof (intro conjI allI impI)
    show "\<exists>now. \<forall>w i. w \<noteq> v \<longrightarrow> tget (km_victims s) w = Some i \<longrightarrow> in_adopted s \<or> \<not> block_is_dead (block_at s i) now \<longrightarrow>
          tget (km_victims t) w = Some i \<and> block_at t i = block_at s i"
    proof (intro exI allI impI)
      fix w i assume "w \<noteq> v" "tget (km_victims s) w = Some i" "in_adopted s \<or> \<not> block_is_dead (block_at s i) now"
      then have "w \<noteq> v" "tget (km_victims u) w = Some i" "block_at u i = block_at s i" using keep by blast+
      then show "tget (km_victims t) w = Some i \<and> block_at t i = block_at s i"
        using o blk by (simp add: others_def)
    qed
    show "tget (km_victims s) w = Some i" if "w \<noteq> v" "tget (km_victims t) w = Some i" for w i
      using that o fr by (simp add: others_def reap_frame_def)
    show "tget (in_victim_profile t) w = Some j" "km_profiles t ! unat j = km_profiles s ! unat j"
      if "w \<noteq> v" "tget (in_victim_profile s) w = Some j" for w j
      using that o fr by (simp_all add: others_def reap_frame_def prof_same_def)
    show "km_profiles t ! unat j = km_profiles s ! unat j" if "j < dynamic_profile_base" for j
      using that o fr by (simp add: others_def static_same_def reap_frame_def prof_same_def)
  qed (use o fr in \<open>simp_all add: others_def static_same_def reap_frame_def\<close>)
qed

lemma reaped_calls: "plane_ok s \<Longrightarrow> reaped s (s \<lparr> km_calls := n \<rparr>)"
  by (auto simp: reaped_def plane_ok_def pol_ok_def prof_ok_def sized_def reap_frame_def prof_same_def live_kept_def block_at_def)

lemma reaped_refl: "plane_ok s \<Longrightarrow> reaped s s"
  by (auto simp: reaped_def reap_frame_def prof_same_def live_kept_def)

lemma block_at_calls [simp]: "block_at (s \<lparr> km_calls := n \<rparr>) i = block_at s i"
  by (simp add: block_at_def)

lemma reap_frame_calls [simp]: "reap_frame (s \<lparr> km_calls := n \<rparr>) u = reap_frame s u"
  by (simp add: reap_frame_def prof_same_def)

lemma live_kept_calls [simp]: "live_kept now (s \<lparr> km_calls := n \<rparr>) u = live_kept now s u"
  by (simp add: live_kept_def)

lemma reaped_after_calls: "reaped (s \<lparr> km_calls := n \<rparr>) u \<Longrightarrow> reaped s u"
  by (simp add: reaped_def)

lemma with_maps_wp:
  assumes ok: "plane_ok s"
    and f: "\<And>u. plane_ok u \<Longrightarrow> reaped s u \<Longrightarrow> km_cfg u = km_cfg s \<Longrightarrow> in_adopted u \<Longrightarrow> (in_adopted s \<Longrightarrow> \<exists>n. u = s \<lparr> km_calls := n \<rparr>) \<Longrightarrow>
        kwp (f (kc_generation (km_cfg u))) Q E u"
    and E: "\<And>t e. reaped s t \<Longrightarrow> E e t"
  shows "kwp (with_maps (\<lambda>gen. kbind (adopt gen) (\<lambda>_. f gen))) Q E s"
proof -
  have "kwp read_config (\<lambda>cfg. kwp (adopt (kc_generation cfg)) (\<lambda>_. kwp (f (kc_generation cfg)) Q E) E) E s"
  proof (rule kwp_read_config, goal_cases)
    case (1 n)
    let ?s = "s \<lparr> km_calls := n \<rparr>"
    have ok': "plane_ok ?s" using reaped_calls [OF ok] by (simp add: reaped_def)
    show ?case
    proof (rule adopt_wp [OF ok'])
      show "kc_generation (km_cfg s) = kc_generation (km_cfg ?s)" by simp
    next
      fix t assume t: "plane_ok t" "in_adopted t" "adopted_from ?s t"
      have "reaped ?s t"
      proof (cases "in_adopted s")
        case True
        then show ?thesis using t reaped_refl [OF ok'] by (simp add: adopted_from_def)
      next
        case False
        then show ?thesis using t by (simp add: adopted_from_def reaped_def)
      qed
      then have r: "reaped s t" by (rule reaped_after_calls)
      have c: "km_cfg t = km_cfg s" using r by (simp add: reaped_def reap_frame_def)
      have "\<exists>n. t = s \<lparr> km_calls := n \<rparr>" if "in_adopted s" using that t by (auto simp: adopted_from_def)
      then show "kwp (f (kc_generation (km_cfg s))) Q E t" using f [OF t(1) r c t(2)] c by simp
    next
      fix t e assume "plane_ok t" "reap_frame ?s t" "km_victims t = km_victims ?s" "km_policies t = km_policies ?s" "\<not> in_adopted ?s"
      then have "reaped ?s t"
        by (auto simp: reaped_def live_kept_def block_at_def reap_frame_def policy_stride_def)
      then show "E e t" using E reaped_after_calls by blast
    qed
  next
    case (2 n)
    then show ?case using E reaped_calls [OF ok] by blast
  qed
  then show ?thesis using E [OF reaped_refl [OF ok]] by (simp add: with_maps_def wp_simps)
qed

lemma install_wp:
  assumes ok: "plane_ok s" and c: "canonical v"
    and Q: "\<And>t u now. reaped s u \<Longrightarrow> step v u t \<Longrightarrow> now \<noteq> 0 \<Longrightarrow> now \<in> range (km_clock s) \<Longrightarrow> installed v r now t \<Longrightarrow> Q () t"
    and E: "\<And>t u e. reaped s u \<Longrightarrow> step v u t \<Longrightarrow> E e t"
  shows "kwp (install v r) Q E s"
proof -
  have quiet: "E e t" if "reaped s t" for e t
    by (rule E [OF that]) (use that in \<open>simp add: step_def reaped_def\<close>)
  let ?f = "\<lambda>gen. kbind (alloc_policy v) (\<lambda>(i, fresh).
       guarded (intern_profile v (dr_rate r)) (release_policy v i fresh) (\<lambda>(prof, got). install_block gen v r i fresh prof got))"
  have "kwp (with_maps (\<lambda>gen. kbind (adopt gen) (\<lambda>_. ?f gen))) Q E s"
  proof (rule with_maps_wp [OF ok])
    fix u assume u: "plane_ok u" "reaped s u" "in_adopted u"
    show "kwp (?f (kc_generation (km_cfg u))) Q E u"
      unfolding wp_simps
    proof (rule alloc_policy_wp [OF u(1,3) c])
      fix e show "E e u" by (rule quiet [OF u(2)])
    next
      fix t i fresh assume t: "mine v i fresh t" "others v u t"
      show "(case (i, fresh) of (i, fresh) \<Rightarrow> kwp (intern_profile v (dr_rate r))
          (\<lambda>x. case x of (prof, got) \<Rightarrow> kwp (install_block (kc_generation (km_cfg u)) v r i fresh prof got) Q E)
          (\<lambda>e. kwp (release_policy v i fresh) (\<lambda>_. E e) E)) t"
        unfolding prod.case
      proof (rule intern_profile_wp)
        show "prof_ok t" using t by (simp add: mine_def plane_ok_def)
      next
        fix w prof assume w: "prof_step v t w" "holds_rate v (dr_rate r) prof w"
        note mw = mine_prof_step [OF t(1) w(1)]
        have uw: "others v u w" using t(2) mw(2) others_trans by blast
        show "(case (prof, dr_rate r \<noteq> 0) of (prof, got) \<Rightarrow> kwp (install_block (kc_generation (km_cfg u)) v r i fresh prof got) Q E) w"
          unfolding prod.case
        proof (rule install_block_wp [OF mw(1) w(2)])
          show "kc_generation (km_cfg u) = kc_generation (km_cfg w)" using others_static [OF uw] by simp
          fix x now assume x: "step v w x" "now \<noteq> 0" "now \<in> range (km_clock w)" "installed v r now x"
          have "km_clock w = km_clock s" using uw u(2) by (simp add: others_def static_same_def reaped_def reap_frame_def)
          then show "Q () x" using Q [OF u(2)] mine_step [OF mw(1) uw] step_trans x by metis
        next
          fix x e assume "step v w x"
          then show "E e x" using E [OF u(2)] mine_step [OF mw(1) uw] step_trans by blast
        qed
      next
        fix w e assume w: "prof_step v t w"
        note mw = mine_prof_step [OF t(1) w]
        have "step v u w" using mine_step mw t(2) others_trans by blast
        then show "kwp (release_policy v i fresh) (\<lambda>_. E e) E w"
          by (intro release_policy_wp [OF mw(1)]) (use E [OF u(2)] step_trans in blast)
      qed
    qed
  qed (rule quiet)
  then show ?thesis
    using quiet [OF reaped_refl [OF ok]] by (cases "install_refused v r") (simp_all add: install_def wp_simps)
qed

section \<open>Withdraw\<close>

lemma first_error_None: "first_error rs = None \<longleftrightarrow> (\<forall>r \<in> set rs. \<not> isl r)"
proof (cases "List.find isl rs")
  case None
  then have "\<forall>r \<in> set rs. \<not> isl r" by (simp add: find_None_iff)
  moreover have "first_error rs = None" unfolding first_error_def None by simp
  ultimately show ?thesis by simp
next
  case (Some r)
  then have r: "r \<in> set rs" "isl r" by (auto simp: find_Some_iff)
  obtain e where "r = Inl e" using r(2) by (auto simp: isl_def)
  then have "first_error rs = Some e" unfolding first_error_def Some by simp
  then show ?thesis using r by auto
qed

lemma forget_step:
  assumes "mine v i False s"
  shows "step v s (s \<lparr> in_policy_of := tdel v (in_policy_of s), in_taken := in_taken s \<rparr>)"
proof -
  note ids = mine_ids [OF assms]
  have "ids_ok (policy_stride s) (km_victims s) (tdel v (in_policy_of s)) (in_taken s)"
    using ids unfolding ids_ok_def tbl.get_del by (auto split: if_splits)
  then show ?thesis
    using assms ids
    by (simp add: step_def mine_def plane_ok_def pol_ok_def prof_ok_def sized_def others_def static_same_def tbl.get_del)
qed

lemma mine_unpointed:
  assumes "mine v i False s" "tget (km_victims s) v = None"
  shows "mine v i True s"
  using assms mine_entry [OF assms(1)] unfolding mine_def by force

definition cleared :: "prefix \<Rightarrow> 32 word \<Rightarrow> 'm plane_scheme \<Rightarrow> bool" where
  "cleared v i s \<longleftrightarrow> tget (km_victims s) v = None \<and> block_at s i = block_of [] \<and> tget (in_policy_of s) v = None
     \<and> \<not> in_taken s i \<and> tget (in_victim_profile s) v = None
     \<and> (\<forall>n < rules_per_policy. tget (km_rule_stats s) (dynamic_rule_id i (word_of_nat n)) = None)"

lemma tget_fold_tdel: "tget (fold tdel ids t) k = (if k \<in> set ids then None else tget t k)"
  by (induction ids arbitrary: t) (auto simp: tbl.get_del)

text \<open>The last part: release the rate and the id, report the first failure.\<close>

lemma withdraw_finish_wp:
  assumes m: "mine v i (\<not> isl a) s"
    and Q: "\<And>t. step v s t \<Longrightarrow> first_error [a, b, c] = None \<Longrightarrow> km_victims t = km_victims s \<Longrightarrow> km_policies t = km_policies s \<Longrightarrow>
       km_rule_stats t = km_rule_stats s \<Longrightarrow> tget (in_policy_of t) v = None \<Longrightarrow> \<not> in_taken t i \<Longrightarrow>
       tget (in_victim_profile t) v = None \<Longrightarrow> Q () t"
    and E: "\<And>t e. step v s t \<Longrightarrow> E e t"
  shows "kwp (release_profile v True) (\<lambda>_ t. kwp (case first_error [a, b, c] of Some e \<Rightarrow> kfail e | None \<Rightarrow> kret ()) Q E
      (t \<lparr> in_policy_of := tdel v (in_policy_of t), in_taken := (if isl a then in_taken t else (in_taken t)(i := False)) \<rparr>)) E s"
proof (rule release_profile_wp)
  show "prof_ok s" using m by (simp add: mine_def plane_ok_def)
next
  fix t assume t: "prof_step v s t" "tget (in_victim_profile t) v = None"
  note mt = mine_prof_step [OF m t(1)]
  let ?t = "t \<lparr> in_policy_of := tdel v (in_policy_of t), in_taken := (if isl a then in_taken t else (in_taken t)(i := False)) \<rparr>"
  have "step v t ?t"
    using mt(1) forget_step [of v i t] release_policy_step [of v i t] by (cases "isl a") simp_all
  then have st: "step v s ?t" using mine_step [OF mt] step_trans by blast
  show "kwp (case first_error [a, b, c] of Some e \<Rightarrow> kfail e | None \<Rightarrow> kret ()) Q E ?t"
  proof (cases "first_error [a, b, c]")
    case None
    then have "\<not> isl a" by (simp add: first_error_None)
    moreover have "Q () ?t"
      by (rule Q [OF st None]) (use t \<open>\<not> isl a\<close> in \<open>simp_all add: prof_step_def pol_same_def tbl.get_del\<close>)
    ultimately show ?thesis using None by (simp add: wp_simps)
  next
    case (Some e)
    then show ?thesis using E [OF st] by (simp add: wp_simps)
  qed
qed simp

lemma block_at_put:
  assumes "mine v i f s" "others v s t" "km_policies t = (km_policies s)[unat (kc_generation (km_cfg s) * policy_stride s + i) := b]"
  shows "block_at t i = b"
proof -
  have g: "kc_generation (km_cfg s) < generations" using assms(1) by (simp add: mine_def generation_ok)
  have "unat (kc_generation (km_cfg s) * policy_stride s + i) < length (km_policies s)"
    using slot_lt [OF _ g] mine_ids [OF assms(1)] by blast
  then show ?thesis using assms(3) others_static [OF assms(2)] by (simp add: block_at_def)
qed

lemma withdraw_block_wp:
  assumes m: "mine v i False s" and g: "g = kc_generation (km_cfg s)"
    and Q: "\<And>t. step v s t \<Longrightarrow> cleared v i t \<Longrightarrow> Q () t"
    and E: "\<And>t e. step v s t \<Longrightarrow> E e t"
  shows "kwp (withdraw_block g v i) Q E s"
proof -
  have gen: "g < generations" using m g by (simp add: mine_def generation_ok)
  let ?after = "\<lambda>a b c. kwp (release_profile v True) (\<lambda>_ t. kwp (case first_error [a, b, c] of Some e \<Rightarrow> kfail e | None \<Rightarrow> kret ()) Q E
      (t \<lparr> in_policy_of := tdel v (in_policy_of t), in_taken := (if isl a then in_taken t else (in_taken t)(i := False)) \<rparr>)) E"
  have fin: "?after a b c u" if u: "mine v i (\<not> isl a) u" "others v s u"
      and dn: "first_error [a, b, c] = None \<Longrightarrow> tget (km_victims u) v = None \<and> block_at u i = block_of []
        \<and> (\<forall>n < rules_per_policy. tget (km_rule_stats u) (dynamic_rule_id i (word_of_nat n)) = None)" for a b c u
  proof (rule withdraw_finish_wp [OF u(1)])
    fix t assume t: "step v u t" "first_error [a, b, c] = None" "km_victims t = km_victims u" "km_policies t = km_policies u"
       "km_rule_stats t = km_rule_stats u" "tget (in_policy_of t) v = None" "\<not> in_taken t i" "tget (in_victim_profile t) v = None"
    have "block_at t i = block_at u i"
      using t(1,4) others_static [of v u t] by (simp add: step_def block_at_def)
    then have "cleared v i t" using t dn by (simp add: cleared_def)
    then show "Q () t" using Q mine_step [OF u] step_trans t(1) by blast
  next
    fix t e assume "step v u t"
    then show "E e t" using E mine_step [OF u] step_trans by blast
  qed
  have stats: "kwp (delete_rule_stats (block_ids i)) (\<lambda>c. ?after a b (Inr c)) (\<lambda>e. ?after a b (Inl e)) u"
    if u: "mine v i (\<not> isl a) u" "others v s u"
      and dn: "\<not> isl a \<Longrightarrow> \<not> isl b \<Longrightarrow> tget (km_victims u) v = None \<and> block_at u i = block_of []" for a b u
  proof (rule delete_stats_wp [OF u(1)])
    fix t assume t: "mine v i (\<not> isl a) t" "others v u t" "km_victims t = km_victims u" "km_policies t = km_policies u"
      "km_rule_stats t = fold tdel (block_ids i) (km_rule_stats u)"
    have "block_at t i = block_at u i" using t(4) others_static [OF t(2)] by (simp add: block_at_def)
    moreover have "tget (km_rule_stats t) (dynamic_rule_id i (word_of_nat n)) = None" if "n < rules_per_policy" for n
      using that unfolding t(5) tget_fold_tdel block_ids_def by auto
    ultimately show "?after a b (Inr ()) t"
      by (intro fin [OF t(1) others_trans [OF u(2) t(2)]]) (use dn t(3) in \<open>simp add: first_error_None\<close>)
  next
    fix t e assume t: "mine v i (\<not> isl a) t" "others v u t"
    show "?after a b (Inl e) t"
      by (rule fin [OF t(1) others_trans [OF u(2) t(2)]]) (simp add: first_error_None)
  qed
  have put: "kwp (put_policy g i []) (\<lambda>b. kwp (delete_rule_stats (block_ids i)) (\<lambda>c. ?after a (Inr b) (Inr c)) (\<lambda>e. ?after a (Inr b) (Inl e)))
      (\<lambda>b. kwp (delete_rule_stats (block_ids i)) (\<lambda>c. ?after a (Inl b) (Inr c)) (\<lambda>e. ?after a (Inl b) (Inl e))) u"
    if u: "mine v i (\<not> isl a) u" "others v s u" and gone: "\<not> isl a \<Longrightarrow> tget (km_victims u) v = None" for a u
  proof (rule put_policy_wp [OF u(1) gen])
    fix t assume t: "mine v i (\<not> isl a) t" "others v u t" "km_victims t = km_victims u"
      "km_policies t = (km_policies u)[unat (g * policy_stride u + i) := block_of []]"
    have "block_at t i = block_of []"
      by (rule block_at_put [OF u(1) t(2)]) (use t(4) g others_static [OF u(2)] in simp)
    then show "kwp (delete_rule_stats (block_ids i)) (\<lambda>c. ?after a (Inr ()) (Inr c)) (\<lambda>e. ?after a (Inr ()) (Inl e)) t"
      by (intro stats [OF t(1) others_trans [OF u(2) t(2)]]) (use gone t(3) in simp)
  next
    fix t e assume t: "mine v i (\<not> isl a) t" "others v u t"
    show "kwp (delete_rule_stats (block_ids i)) (\<lambda>c. ?after a (Inl e) (Inr c)) (\<lambda>d. ?after a (Inl e) (Inl d)) t"
      by (rule stats [OF t(1) others_trans [OF u(2) t(2)]]) simp
  qed
  show ?thesis
    unfolding withdraw_block_def kwp_bind kwp_try kwp_mod
  proof (rule delete_victim_wp [OF m], goal_cases)
    case (1 t)
    have gone: "tget (km_victims t) v = None" by (simp add: 1 tbl.get_del)
    show ?case
      by (rule put) (use mine_unpointed [OF 1(1) gone] 1 gone in simp_all)
  next
    case (2 t e)
    show ?case by (rule put) (use 2 in simp_all)
  qed
qed

lemma withdraw_wp:
  assumes ok: "plane_ok s"
    and Q: "\<And>t u. reaped s u \<Longrightarrow> in_adopted u \<Longrightarrow> (in_adopted s \<Longrightarrow> \<exists>n. u = s \<lparr> km_calls := n \<rparr>) \<Longrightarrow> step v u t \<Longrightarrow>
      (\<And>i. tget (in_policy_of u) v = Some i \<Longrightarrow> cleared v i t) \<Longrightarrow> Q () t"
    and E: "\<And>t u e. reaped s u \<Longrightarrow> step v u t \<Longrightarrow> E e t"
  shows "kwp (withdraw v) Q E s"
proof -
  have quiet: "E e t" if "reaped s t" for e t
    by (rule E [OF that]) (use that in \<open>simp add: step_def reaped_def\<close>)
  let ?f = "\<lambda>gen. kbind (kget (\<lambda>s. tget (in_policy_of s) v)) (\<lambda>held. case held of None \<Rightarrow> kret () | Some i \<Rightarrow> withdraw_block gen v i)"
  have "kwp (with_maps (\<lambda>gen. kbind (adopt gen) (\<lambda>_. ?f gen))) Q E s"
  proof (rule with_maps_wp [OF ok])
    fix u assume u: "plane_ok u" "reaped s u" "in_adopted u" "in_adopted s \<Longrightarrow> \<exists>n. u = s \<lparr> km_calls := n \<rparr>"
    show "kwp (?f (kc_generation (km_cfg u))) Q E u"
    proof (cases "tget (in_policy_of u) v")
      case None
      have "Q () u" by (rule Q [OF u(2,3) u(4)]) (use u None in \<open>auto simp: step_def\<close>)
      then show ?thesis using None by (simp add: wp_simps)
    next
      case (Some i)
      have "canonical v" using u Some by (auto simp: plane_ok_def pol_ok_def ids_ok_def)
      then have m: "mine v i False u" using u Some by (simp add: mine_def)
      have "kwp (withdraw_block (kc_generation (km_cfg u)) v i) Q E u"
      proof (rule withdraw_block_wp [OF m refl])
        fix t assume "step v u t" "cleared v i t"
        then show "Q () t" by (intro Q [OF u(2,3) u(4)]) (use Some in auto)
      next
        fix t e assume "step v u t"
        then show "E e t" by (rule E [OF u(2)])
      qed
      then show ?thesis using Some by (simp add: wp_simps)
    qed
  qed (rule quiet)
  then show ?thesis
    using quiet [OF reaped_refl [OF ok]] by (simp add: withdraw_def wp_simps)
qed

end
