(* ===== verification/InstallerTheorems.thy ===== *)
theory InstallerTheorems
  imports InstallerSpec
begin

unbundle bit_operations_syntax

text \<open>
  The properties of the installer: invariants under every failure, isolation of victims, what the XDP
  program decides after an install, and what a withdraw leaves.
\<close>

section \<open>The program over an installed block\<close>

lemma block_rules_of: "length ks \<le> rules_per_policy \<Longrightarrow> block_rules (block_of ks) = ks"
  by (simp add: block_rules_def block_of_def rules_per_policy_def unat_of_nat)

lemma canonical_mask:
  assumes "canonical p" "contains p a"
  shows "p = Pfx (mask_addr a (nat (pfx_bits p))) (pfx_bits p)"
proof (cases p)
  case (Pfx x n)
  then show ?thesis
    using assms by (cases x; cases a)
      (auto simp: canonical_def contains_def pfx_valid_def pfx_wf_def pfx_masked_def addr_prefix_def split: if_splits)
qed

lemma canonical_unique:
  "canonical p \<Longrightarrow> canonical q \<Longrightarrow> contains p a \<Longrightarrow> contains q a \<Longrightarrow> pfx_bits p = pfx_bits q \<Longrightarrow> p = q"
  using canonical_mask by metis

lemma trie_lookup_None: "trie_lookup vs a = None \<longleftrightarrow> (\<forall>(p, i) \<in> set vs. \<not> contains p a)"
  by (induction vs a rule: trie_lookup.induct) (auto split: option.splits)

lemma trie_lookup_Some:
  "trie_lookup vs a = Some (n, i) \<Longrightarrow>
   \<exists>p. (p, i) \<in> set vs \<and> contains p a \<and> pfx_bits p = n \<and> (\<forall>(q, j) \<in> set vs. contains q a \<longrightarrow> pfx_bits q \<le> n)"
proof (induction vs a arbitrary: n i rule: trie_lookup.induct)
  case (2 p v t a)
  show ?case
  proof (cases "trie_lookup t a")
    case None
    then show ?thesis using 2 trie_lookup_None [of t a] by (auto split: if_splits)
  next
    case (Some x)
    obtain m w where x: "x = (m, w)" by (cases x)
    obtain q where q: "(q, w) \<in> set t" "contains q a" "pfx_bits q = m" "\<forall>(q', j) \<in> set t. contains q' a \<longrightarrow> pfx_bits q' \<le> m"
      using 2(1) Some x by blast
    show ?thesis
    proof (cases "contains p a \<and> m \<le> pfx_bits p")
      case True
      then have "n = pfx_bits p" "i = v" using 2(2) Some x by simp_all
      then show ?thesis using True q by (intro exI [where x = p]) fastforce
    next
      case False
      then have "n = m" "i = w" using 2(2) Some x by (simp_all split: if_splits)
      then show ?thesis using False q by (intro exI [where x = q]) auto
    qed
  qed
qed simp

text \<open>The block of the most specific victim that holds the address.\<close>

lemma trie_lookup_victim:
  assumes e: "entries_ok st vs" and v: "tget vs v = Some i" "contains v a"
    and best: "\<forall>w j. tget vs w = Some j \<longrightarrow> contains w a \<longrightarrow> pfx_bits w \<le> pfx_bits v"
  shows "trie_lookup vs a = Some (pfx_bits v, i)"
proof (cases "trie_lookup vs a")
  case None
  then show ?thesis using v e by (auto simp: trie_lookup_None entries_ok_def in_set_tget_iff [symmetric])
next
  case (Some x)
  obtain n j where x: "x = (n, j)" by (cases x)
  obtain p where p: "(p, j) \<in> set vs" "contains p a" "pfx_bits p = n" "\<forall>(q, j) \<in> set vs. contains q a \<longrightarrow> pfx_bits q \<le> n"
    using trie_lookup_Some Some x by blast
  have s: "(k, l) \<in> set vs \<longleftrightarrow> tget vs k = Some l" for k l
    using e by (simp add: entries_ok_def in_set_tget_iff)
  have "pfx_bits v \<le> n" using p(4) v s by blast
  moreover have "n \<le> pfx_bits v" using best p s by blast
  ultimately have "pfx_bits p = pfx_bits v" using p(3) by simp
  moreover have "canonical p" "canonical v" using e s p(1) v(1) by (auto simp: entries_ok_def)
  ultimately have "p = v" using canonical_unique p(2) v(2) by blast
  then show ?thesis using Some x p s v \<open>pfx_bits p = pfx_bits v\<close> by simp
qed

lemma rule_match_now [simp]: "rule_match r (p \<lparr> kp_now := k \<rparr>) = rule_match r p"
  by (simp add: rule_match_iff)

lemma encode_expires: "encode s = Inr r \<Longrightarrow> k_expires r = sp_expires s"
  by (auto simp: encode_def split: sum.splits if_splits)

definition spec_hits :: "64 word \<Rightarrow> packet \<Rightarrow> rule_spec \<Rightarrow> bool" where
  "spec_hits now pk s \<longleftrightarrow> spec_selects s pk \<and> \<not> (sp_expires s \<noteq> 0 \<and> sp_expires s \<le> now)"

lemma rule_hits_spec:
  assumes "encode s = Inr r" "pfx_wf (sp_src s)" "pfx_wf (sp_dst s)" "pkt_wf pk"
  shows "rule_hits (kernel_packet pk \<lparr> kp_now := now \<rparr>) r \<longleftrightarrow> spec_hits now pk s"
  using encode_selects [OF assms] encode_expires [OF assms(1)]
  by (simp add: rule_hits_def spec_hits_def rule_expired_def)

lemma find_encoded:
  assumes "encode_rules specs = Inr ks" "\<forall>s \<in> set specs. pfx_wf (sp_src s) \<and> pfx_wf (sp_dst s)" "pkt_wf pk"
  shows "List.find (rule_hits (kernel_packet pk \<lparr> kp_now := now \<rparr>)) ks = map_option (projr \<circ> encode) (List.find (spec_hits now pk) specs)"
  using assms
proof (induction specs arbitrary: ks)
  case (Cons s specs)
  obtain r rs where r: "encode s = Inr r" "encode_rules specs = Inr rs" "ks = r # rs"
    using Cons.prems(1) by (auto split: sum.splits)
  have "rule_hits (kernel_packet pk \<lparr> kp_now := now \<rparr>) r \<longleftrightarrow> spec_hits now pk s"
    by (rule rule_hits_spec [OF r(1)]) (use Cons.prems in auto)
  then show ?case using Cons.IH [OF r(2)] Cons.prems r by simp
qed simp

lemma scan_installed:
  assumes ok: "plane_ok t" and v: "tget (km_victims t) v = Some i" "block_at t i = block_of ks" "length ks \<le> rules_per_policy"
    and a: "contains v a" "\<forall>w j. tget (km_victims t) w = Some j \<longrightarrow> contains w a \<longrightarrow> pfx_bits w \<le> pfx_bits v"
  shows "scan_policy t p a = List.find (rule_hits p) ks"
proof -
  have sz: "sized t" and e: "entries_ok (policy_stride t) (km_victims t)" using ok by (simp_all add: plane_ok_def pol_ok_def)
  have i: "i < policy_stride t" using e v by (auto simp: entries_ok_def)
  have l: "unat (kc_generation (km_cfg t) * policy_stride t + i) < length (km_policies t)"
    by (rule slot_lt [OF sz _ i]) (use sz in \<open>simp add: sized_def\<close>)
  have c: "kc_policy_stride (km_cfg t) = policy_stride t" using sz by (simp add: sized_def)
  show ?thesis
    using trie_lookup_victim [OF e v(1) a] v(2,3) l
    by (simp add: scan_policy_def c Let_def block_at_def block_rules_of)
qed

lemma stamped_wf: "\<forall>s \<in> set (dr_specs r). pfx_wf (sp_src s) \<and> pfx_wf (sp_dst s) \<Longrightarrow>
   \<forall>s \<in> set (stamped i prof now r). pfx_wf (sp_src s) \<and> pfx_wf (sp_dst s)"
  by (auto simp: stamped_def stamp_def dest!: in_set_enumerate_eq [THEN iffD1] nth_mem)

section \<open>A small data plane\<close>

text \<open>Four policy slots in two generations, one victim and a rate of 1 MB/s: the inputs of the witnesses.\<close>

definition profile_zero :: kprofile where "profile_zero = profile_encode profile_none"
definition demo_cfg :: kconfig where
  "demo_cfg = \<lparr> kc_generation = 0, kc_schema = 2, kc_policy_stride = 2, kc_static_stride = 2, kc_static_count = 0,
    kc_dry_run = False, kc_drop_malformed = False, kc_fp_enabled = False, kc_fp_burst = 0, kc_fp_rate = 0 \<rparr>"
definition demo_flags :: dp_flags where
  "demo_flags = \<lparr> df_dry_run = False, df_drop_malformed = False, df_fp_enabled = False, df_fp_pps = 0, df_fp_burst = 0 \<rparr>"
definition demo_opts :: plane_options where
  "demo_opts = \<lparr> po_interfaces = [''eth0''], po_xdp_mode = ''auto'', po_pin_path = ''/p'', po_on_exit = ''keep'', po_limits = default_limits,
     po_flags = demo_flags, po_policy = \<lparr> spo_allow = [], spo_protected = [], spo_profiles = [], spo_statics = [] \<rparr> \<rparr>"
definition demo_plane :: plane where
  "demo_plane = \<lparr> km_cfg = demo_cfg, km_profiles = replicate 256 profile_zero, km_statics = replicate 4 krule_zero,
     km_policies = replicate 4 (block_of []), km_victims = [], km_allow = [], km_protect = [], km_rule_stats = [],
     km_calls = 0, km_fault = (\<lambda>_. False), km_clock = (\<lambda>_. 1000),
     mg_sizing = \<lparr> ms_policies = 4, ms_statics = 4, ms_rl_sources = 1, ms_rule_stats = 10, ms_policy_stride = 2, ms_static_stride = 2 \<rparr>,
     mg_profiles = [], mg_opts = demo_opts, mg_shadowed = [], mg_closed = False,
     in_adopted = False, in_stride = 0, in_policy_of = [], in_taken = (\<lambda>_. False), in_profile_of = [],
     in_refs = (\<lambda>_. 0), in_victim_profile = [] \<rparr>"
definition demo_victim :: prefix where "demo_victim = Pfx (V4 0x0A000001) 32"
definition demo_rules :: dynamic_rules where
  "demo_rules = \<lparr> dr_specs = [ \<lparr> sp_id = 0, sp_action = act_rate_limit, sp_profile = 0, sp_expires = 0, sp_ttl = 0, sp_src = prefix_none, sp_dst = demo_victim,
     sp_proto = Some 17, sp_src_port = Some 53, sp_dst_port = None, sp_tcp_flags = 0, sp_tcp_mask = 0, sp_fragment = False, sp_match_ext = 0, sp_ipv6 = False \<rparr> ],
     dr_rate = 1000000, dr_ttl = 60000000000 \<rparr>"
definition demo_packet :: packet where
  "demo_packet = \<lparr> pk_src = V4 0xC6336401, pk_dst = V4 0x0A000001, pk_proto = 17, pk_ports = Some (53, 4000),
     pk_tcp_flags = 0, pk_frag = False, pk_tls = False, pk_quic = False \<rparr>"

definition demo_banned :: plane where
  "demo_banned = snd (install demo_victim demo_rules demo_plane)"

lemma demo_plane_ok: "plane_ok demo_plane"
  by (simp add: plane_ok_def pol_ok_def prof_ok_def sized_def entries_ok_def prof_inv_def demo_plane_def demo_cfg_def
    policy_stride_def generations_def tget_def holders_def)

lemma demo_victim_canonical: "canonical demo_victim"
  by code_simp

lemma demo_banned_eq: "install demo_victim demo_rules demo_plane = (Inr (), demo_banned)"
proof -
  have "fst (install demo_victim demo_rules demo_plane) = Inr ()" by code_simp
  then show ?thesis unfolding demo_banned_def by (metis prod.collapse)
qed

lemma demo_banned_ok: "plane_ok demo_banned"
proof -
  have "kwp (install demo_victim demo_rules) (\<lambda>_ t. plane_ok t) (\<lambda>_ t. plane_ok t) demo_plane"
    by (rule install_wp [OF demo_plane_ok demo_victim_canonical]) (simp_all add: step_def)
  then show ?thesis by (simp add: kwp_def demo_banned_eq)
qed

lemma demo_banned_facts: "km_victims demo_banned = [(demo_victim, 0)]" "in_adopted demo_banned" "tget (in_policy_of demo_banned) demo_victim = Some 0"
  by code_simp+

section \<open>Properties\<close>

text \<open>C11: the invariants of the maps and of the three allocators survive every install and every
  withdraw, whichever map writes fail: entries name distinct blocks, an id in the kernel or owned is
  never free, every interned rate has its slot and its count of references.\<close>

theorem installer_keeps_invariants:
  assumes "plane_ok s" "canonical v"
  shows "plane_ok (snd (install v r s)) \<and> plane_ok (snd (withdraw v s))"
proof
  have "kwp (install v r) (\<lambda>_ t. plane_ok t) (\<lambda>_ t. plane_ok t) s"
    by (rule install_wp [OF assms]) (simp_all add: step_def)
  then show "plane_ok (snd (install v r s))" by (auto simp: kwp_def split: prod.splits sum.splits)
  have "kwp (withdraw v) (\<lambda>_ t. plane_ok t) (\<lambda>_ t. plane_ok t) s"
    by (rule withdraw_wp [OF assms(1)]) (simp_all add: step_def)
  then show "plane_ok (snd (withdraw v s))" by (auto simp: kwp_def split: prod.splits sum.splits)
qed

theorem installer_keeps_invariants_witness:
  "plane_ok demo_plane \<and> canonical demo_victim \<and> plane_ok demo_banned"
  using installer_keeps_invariants [OF demo_plane_ok demo_victim_canonical, of demo_rules]
    demo_plane_ok demo_victim_canonical by (simp add: demo_banned_eq)



text \<open>C10: after a successful install the program decides a packet anchored at the victim by the first
  rule of the set that selects it and whose deadline has not passed, each rule stamped with its id, its
  deadline on the boot clock and the slot of the set's rate; the slot holds that rate.\<close>

theorem install_decides:
  assumes "plane_ok s" "canonical v" "install v r s = (Inr (), t)" "pkt_wf pk"
    and "\<forall>x \<in> set (dr_specs r). pfx_wf (sp_src x) \<and> pfx_wf (sp_dst x)"
    and "contains v a" "\<forall>w j. tget (km_victims t) w = Some j \<longrightarrow> contains w a \<longrightarrow> pfx_bits w \<le> pfx_bits v"
  shows "\<exists>i prof now. now \<noteq> 0 \<and> holds_rate v (dr_rate r) prof t
     \<and> (dr_rate r \<noteq> 0 \<longrightarrow> km_profiles t ! unat prof = profile_encode (rate_profile (dr_rate r)))
     \<and> (\<forall>k. scan_policy t (kernel_packet pk \<lparr> kp_now := k \<rparr>) a
          = map_option (projr \<circ> encode) (List.find (spec_hits k pk) (stamped i prof now r)))"
proof -
  have "kwp (install v r) (\<lambda>_ t. plane_ok t \<and> (\<exists>now. now \<noteq> 0 \<and> installed v r now t)) (\<lambda>_ _. True) s"
    by (rule install_wp [OF assms(1,2)]) (auto simp: step_def)
  then obtain now where now: "now \<noteq> 0" "installed v r now t" and ok: "plane_ok t"
    by (auto simp: kwp_def assms(3))
  then obtain i prof ks where i: "tget (km_victims t) v = Some i" "holds_rate v (dr_rate r) prof t"
      "encode_rules (stamped i prof now r) = Inr ks" "length ks \<le> rules_per_policy" "block_at t i = block_of ks"
    by (auto simp: installed_def)
  have "km_profiles t ! unat prof = profile_encode (rate_profile (dr_rate r))" if "dr_rate r \<noteq> 0"
    using i(2) that ok by (simp add: holds_rate_def plane_ok_def prof_ok_def prof_inv_def)
  moreover have "scan_policy t (kernel_packet pk \<lparr> kp_now := k \<rparr>) a
      = map_option (projr \<circ> encode) (List.find (spec_hits k pk) (stamped i prof now r))" for k
    unfolding scan_installed [OF ok i(1,5,4) assms(6,7)]
    by (rule find_encoded [OF i(3) stamped_wf [OF assms(5)] assms(4)])
  ultimately show ?thesis using now i(2) by blast
qed

theorem install_decides_witness:
  "\<exists>i prof now. now \<noteq> 0 \<and> holds_rate demo_victim 1000000 prof demo_banned
     \<and> scan_policy demo_banned (kernel_packet demo_packet \<lparr> kp_now := 5000 \<rparr>) (V4 0x0A000001)
          = map_option (projr \<circ> encode) (List.find (spec_hits 5000 demo_packet) (stamped i prof now demo_rules))"
proof -
  have "pkt_wf demo_packet" "contains demo_victim (V4 0x0A000001)" "dr_rate demo_rules = 1000000" by code_simp+
  moreover have "\<forall>x \<in> set (dr_specs demo_rules). pfx_wf (sp_src x) \<and> pfx_wf (sp_dst x)" by code_simp
  moreover have "\<forall>w j. tget (km_victims demo_banned) w = Some j \<longrightarrow> contains w (V4 0x0A000001) \<longrightarrow> pfx_bits w \<le> pfx_bits demo_victim"
    by (simp add: demo_banned_facts tget_def)
  ultimately show ?thesis
    using install_decides [OF demo_plane_ok demo_victim_canonical demo_banned_eq, of demo_packet "V4 0x0A000001"] by metis
qed

text \<open>C13: a withdraw that reports success on a victim this process tracks has removed its entry, emptied
  its block, deleted its counters, given up its rate and freed its id.\<close>

theorem withdraw_clears:
  assumes "plane_ok s" "in_adopted s" "tget (in_policy_of s) v = Some i" "withdraw v s = (Inr (), t)"
  shows "cleared v i t"
proof -
  have "kwp (withdraw v) (\<lambda>_ t. cleared v i t) (\<lambda>_ _. True) s"
    by (rule withdraw_wp [OF assms(1)]) (use assms(2,3) in fastforce)+
  then show ?thesis by (simp add: kwp_def assms(4))
qed

theorem withdraw_clears_witness:
  "cleared demo_victim 0 (snd (withdraw demo_victim demo_banned)) \<and> demo_banned \<noteq> snd (withdraw demo_victim demo_banned)"
proof -
  have "fst (withdraw demo_victim demo_banned) = Inr ()" by code_simp
  then have w: "withdraw demo_victim demo_banned = (Inr (), snd (withdraw demo_victim demo_banned))" by (metis prod.collapse)
  have c: "cleared demo_victim 0 (snd (withdraw demo_victim demo_banned))"
    by (rule withdraw_clears [OF demo_banned_ok demo_banned_facts(2,3) w])
  then have "km_victims (snd (withdraw demo_victim demo_banned)) \<noteq> km_victims demo_banned"
    by (auto simp: cleared_def demo_banned_facts tget_def)
  then show ?thesis using c by auto
qed



section \<open>Where the code and its documentation part\<close>

text \<open>Every install, a renewal as well, writes zeroed counters over those of the rules it replaces.\<close>

lemma install_resets_counters:
  assumes "plane_ok s" "canonical v" "install v r s = (Inr (), t)"
  shows "\<exists>i. tget (km_victims t) v = Some i
     \<and> (\<forall>n < length (dr_specs r). tget (km_rule_stats t) (dynamic_rule_id i (word_of_nat n)) = Some (0, 0))"
proof -
  have "kwp (install v r) (\<lambda>_ t. \<exists>now. installed v r now t) (\<lambda>_ _. True) s"
    by (rule install_wp [OF assms(1,2)]) auto
  then show ?thesis by (auto simp: kwp_def assms(3) installed_def)
qed

text \<open>A renewal that cannot read the boot clock fails, leaves the victim's rules in the kernel, and has
  already zeroed the profile they point at: they no longer cap anything.\<close>

definition demo_unread :: plane where
  "demo_unread = demo_banned \<lparr> km_clock := \<lambda>_. 0 \<rparr>"

lemma failed_renewal_uncaps:
  "fst (install demo_victim demo_rules demo_unread) = Inl NoClock"
  "tget (km_victims (snd (install demo_victim demo_rules demo_unread))) demo_victim = Some 0"
  "block_at (snd (install demo_victim demo_rules demo_unread)) 0 = block_at demo_banned 0"
  "k_profile (hd (block_rules (block_at demo_banned 0))) = 192"
  "km_profiles (snd (install demo_victim demo_rules demo_unread)) ! 192 = profile_encode profile_none"
  by code_simp+

text \<open>A withdraw whose two removals fail forgets the victim all the same: the next one reports success and
  the rules stay.\<close>

definition demo_stuck :: plane where
  "demo_stuck = demo_banned \<lparr> km_fault := (\<lambda>n. n \<in> {km_calls demo_banned + 1, km_calls demo_banned + 2}) \<rparr>"

lemma second_withdraw_is_blind:
  "fst (withdraw demo_victim demo_stuck) = Inl Syscall"
  "fst (withdraw demo_victim (snd (withdraw demo_victim demo_stuck))) = Inr ()"
  "tget (km_victims (snd (withdraw demo_victim (snd (withdraw demo_victim demo_stuck))))) demo_victim = Some 0"
  "pb_n (block_at (snd (withdraw demo_victim (snd (withdraw demo_victim demo_stuck)))) 0) = 1"
  by code_simp+

text \<open>Reaping an empty block can change a verdict: the entry hid the rules of the prefix around it.\<close>

definition demo_nested :: plane where
  "demo_nested = demo_plane \<lparr> km_victims := [(Pfx (V4 0x0A000000) 24, 0), (demo_victim, 1)],
     km_policies := [block_of [projr (encode (hd (dr_specs demo_rules)))], block_of [], block_of [], block_of []] \<rparr>"

lemma reaping_uncovers:
  "scan_policy demo_nested (kernel_packet demo_packet) (V4 0x0A000001) = None"
  "scan_policy (snd (victims demo_nested)) (kernel_packet demo_packet) (V4 0x0A000001)
     = Some (projr (encode (hd (dr_specs demo_rules))))"
  by code_simp+

end
