(* ===== verification/PolicyOps.thy ===== *)
theory PolicyOps
  imports InstallerSpec
begin

unbundle bit_operations_syntax

text \<open>
  The parts of publishing a static policy, run backwards: which fields each part writes, what they hold
  when it succeeds, and what is unchanged when a write of it fails.
\<close>

section \<open>Loops over an array\<close>

definition fill :: "('x \<Rightarrow> nat) \<Rightarrow> ('x \<Rightarrow> 'v) \<Rightarrow> 'x list \<Rightarrow> 'v list \<Rightarrow> 'v list" where
  "fill ix val xs l = fold (\<lambda>x l. l[ix x := val x]) xs l"

lemma length_fill [simp]: "length (fill ix val xs l) = length l"
  by (induction xs arbitrary: l) (simp_all add: fill_def)

lemma fill_other: "k \<notin> ix ` set xs \<Longrightarrow> fill ix val xs l ! k = l ! k"
  by (induction xs arbitrary: l) (simp_all add: fill_def)

lemma fill_same:
  "x \<in> set xs \<Longrightarrow> ix x < length l \<Longrightarrow> \<forall>y \<in> set xs. ix y = ix x \<longrightarrow> val y = val x \<Longrightarrow>
   fill ix val xs l ! ix x = val x"
proof (induction xs arbitrary: l rule: rev_induct)
  case (snoc y xs)
  have step: "fill ix val (xs @ [y]) l = (fill ix val xs l)[ix y := val y]" by (simp add: fill_def)
  show ?case
  proof (cases "ix y = ix x")
    case True
    then show ?thesis unfolding step using snoc.prems(2,3) by simp
  next
    case False
    then have "x \<in> set xs" using snoc.prems(1) by auto
    moreover have "\<forall>y \<in> set xs. ix y = ix x \<longrightarrow> val y = val x" using snoc.prems(3) by simp
    ultimately have "fill ix val xs l ! ix x = val x" using snoc.IH snoc.prems(2) by blast
    then show ?thesis unfolding step using False by simp
  qed
qed simp

text \<open>A failed loop has written a prefix of what it was to write.\<close>

lemma kwp_fill_statics:
  fixes s :: "'m kmaps_scheme"
  assumes f: "\<And>x. f x = put_static (ix x) (val x)"
    and Q: "\<And>n. Q () (s \<lparr> km_calls := n, km_statics := fill (\<lambda>x. unat (ix x)) val xs (km_statics s) \<rparr>)"
    and E: "\<And>n k. E Syscall (s \<lparr> km_calls := n, km_statics := fill (\<lambda>x. unat (ix x)) val (take k xs) (km_statics s) \<rparr>)"
  shows "kwp (kfor f xs) Q E s"
proof -
  let ?fill = "\<lambda>ys. fill (\<lambda>x. unat (ix x)) val ys (km_statics s)"
  let ?I = "\<lambda>rest u. \<exists>n k. u = s \<lparr> km_calls := n, km_statics := ?fill (take k xs) \<rparr> \<and> rest = drop k xs"
  have "kwp (kfor f xs) (\<lambda>_. ?I []) E s"
  proof (rule kwp_for)
    show "?I xs s" by (intro exI [where x = "km_calls s"] exI [where x = 0]) (simp add: fill_def)
  next
    fix x rest u assume "?I (x # rest) u"
    then obtain n k where u: "u = s \<lparr> km_calls := n, km_statics := ?fill (take k xs) \<rparr>" and k: "x # rest = drop k xs" by blast
    have t: "take (Suc k) xs = take k xs @ [x]" "rest = drop (Suc k) xs"
      using k by (metis drop_eq_Nil hd_drop_conv_nth linorder_not_le list.distinct(1) list.sel(1) take_Suc_conv_app_nth)
        (metis drop_Suc k list.sel(3) tl_drop)
    show "kwp (f x) (\<lambda>_. ?I rest) E u"
      unfolding f put_static_def
    proof (rule kwp_put)
      fix m
      have "u \<lparr> km_calls := m \<rparr> \<lparr> km_statics := (km_statics (u \<lparr> km_calls := m \<rparr>))[unat (ix x) := val x] \<rparr>
          = s \<lparr> km_calls := m, km_statics := ?fill (take (Suc k) xs) \<rparr>"
        unfolding t u by (simp add: fill_def)
      then show "?I rest (u \<lparr> km_calls := m \<rparr> \<lparr> km_statics := (km_statics (u \<lparr> km_calls := m \<rparr>))[unat (ix x) := val x] \<rparr>)"
        using t(2) by blast
      have "u \<lparr> km_calls := m \<rparr> = s \<lparr> km_calls := m, km_statics := ?fill (take k xs) \<rparr>" by (simp add: u)
      then show "E Syscall (u \<lparr> km_calls := m \<rparr>)" using E by simp
    qed
  qed
  then show ?thesis
  proof (rule kwp_mono)
    fix x t assume "?I [] t"
    then obtain n k where "t = s \<lparr> km_calls := n, km_statics := ?fill (take k xs) \<rparr>" "drop k xs = []" by auto
    then show "Q x t" using Q [of n] by simp
  qed simp
qed

lemma kwp_put_statics:
  assumes g: "gen < generations"
    and Q: "\<And>n. length rs \<le> unat (static_stride s) \<or> 2 ^ 32 \<le> length rs \<Longrightarrow> Q (word_of_nat (length rs)) (s \<lparr> km_calls := n,
        km_statics := fill (unat \<circ> fst) snd (static_slots gen (static_stride s) rs) (km_statics s) \<rparr>)"
    and E: "\<And>n k e. E e (s \<lparr> km_calls := n,
        km_statics := fill (unat \<circ> fst) snd (take k (static_slots gen (static_stride s) rs)) (km_statics s) \<rparr>)"
    and E0: "\<And>e. E e s"
  shows "kwp (put_statics gen rs) Q E s"
proof -
  have c: "(unat \<circ> fst) = (\<lambda>x. unat (fst (x :: 32 word \<times> krule)))" by (rule ext) simp
  have "kwp (kfor (\<lambda>(i, r). put_static i r) (static_slots gen (static_stride s) rs)) (\<lambda>_. Q (word_of_nat (length rs))) E s"
    if "\<not> static_stride s < word_of_nat (length rs)"
  proof (rule kwp_fill_statics [where ix = fst and val = snd])
    have "length rs \<le> unat (static_stride s) \<or> 2 ^ 32 \<le> length rs"
      using that by (cases "length rs < 2 ^ 32") (auto simp: word_less_nat_alt unat_of_nat)
    then show "Q (word_of_nat (length rs)) (s \<lparr> km_calls := n,
        km_statics := fill (\<lambda>x. unat (fst x)) snd (static_slots gen (static_stride s) rs) (km_statics s) \<rparr>)" for n
      using Q [of n] by (simp add: c)
    show "E Syscall (s \<lparr> km_calls := n,
        km_statics := fill (\<lambda>x. unat (fst x)) snd (take k (static_slots gen (static_stride s) rs)) (km_statics s) \<rparr>)" for n k
      using E [where e = Syscall and n = n and k = k] by (simp add: c)
  qed (auto split: prod.split)
  then show ?thesis
    using g E0 by (simp add: put_statics_def wp_simps)
qed

section \<open>Profiles\<close>

definition keeps_band :: "kprofile list \<Rightarrow> kprofile list \<Rightarrow> bool" where
  "keeps_band ps qs \<longleftrightarrow> length qs = length ps \<and> (\<forall>j. dynamic_profile_base \<le> j \<longrightarrow> qs ! unat j = ps ! unat j)"

lemma keeps_band_refl [simp]: "keeps_band ps ps"
  by (simp add: keeps_band_def)

lemma keeps_band_upd: "keeps_band ps qs \<Longrightarrow> i < dynamic_profile_base \<Longrightarrow> keeps_band ps (qs[unat i := x])"
  using static_slot_neq unfolding keeps_band_def by (metis length_list_update nth_list_update_neq)

text \<open>A loop that writes some of the profiles of a list, each in the operator's band.\<close>

lemma kwp_fill_profiles:
  fixes s :: "'m kmaps_scheme"
  assumes f: "\<And>x. f x = kwhen (P x) (put_profile (ix x) (val x))"
    and band: "\<And>x. x \<in> set xs \<Longrightarrow> P x \<Longrightarrow> ix x < dynamic_profile_base"
    and Q: "\<And>n. keeps_band (km_profiles s) (fill (unat \<circ> ix) (profile_encode \<circ> val) (filter P xs) (km_profiles s)) \<Longrightarrow>
        Q () (s \<lparr> km_calls := n, km_profiles := fill (unat \<circ> ix) (profile_encode \<circ> val) (filter P xs) (km_profiles s) \<rparr>)"
    and E: "\<And>n ps. keeps_band (km_profiles s) ps \<Longrightarrow> E Syscall (s \<lparr> km_calls := n, km_profiles := ps \<rparr>)"
  shows "kwp (kfor f xs) Q E s"
proof -
  let ?fill = "\<lambda>ys. fill (unat \<circ> ix) (profile_encode \<circ> val) (filter P ys) (km_profiles s)"
  let ?I = "\<lambda>rest u. \<exists>n done1. u = s \<lparr> km_calls := n, km_profiles := ?fill done1 \<rparr> \<and> xs = done1 @ rest \<and> keeps_band (km_profiles s) (?fill done1)"
  have "kwp (kfor f xs) (\<lambda>_. ?I []) E s"
  proof (rule kwp_for)
    show "?I xs s" by (intro exI [where x = "km_calls s"] exI [where x = "[]"]) (simp add: fill_def)
  next
    fix x rest u assume "?I (x # rest) u"
    then obtain n d where u: "u = s \<lparr> km_calls := n, km_profiles := ?fill d \<rparr>" and d: "xs = d @ x # rest"
      "keeps_band (km_profiles s) (?fill d)" by blast
    show "kwp (f x) (\<lambda>_. ?I rest) E u"
    proof (cases "P x")
      case False
      then have "?I rest u" using u d by (intro exI [where x = n] exI [where x = "d @ [x]"]) simp
      then show ?thesis using False by (simp add: f wp_simps)
    next
      case True
      have w: "?fill (d @ [x]) = (?fill d)[unat (ix x) := profile_encode (val x)]" using True by (simp add: fill_def)
      have b: "keeps_band (km_profiles s) (?fill (d @ [x]))"
        unfolding w by (rule keeps_band_upd [OF d(2)]) (use band d(1) True in simp)
      have "kwp (put_profile (ix x) (val x)) (\<lambda>_. ?I rest) E u"
      proof (rule kwp_put_profile)
        fix m
        have "u \<lparr> km_calls := m, km_profiles := (km_profiles u)[unat (ix x) := profile_encode (val x)] \<rparr>
            = s \<lparr> km_calls := m, km_profiles := ?fill (d @ [x]) \<rparr>"
          unfolding w u by simp
        then show "?I rest (u \<lparr> km_calls := m, km_profiles := (km_profiles u)[unat (ix x) := profile_encode (val x)] \<rparr>)"
          using b d(1) by (intro exI [where x = m] exI [where x = "d @ [x]"]) simp
        have "u \<lparr> km_calls := m \<rparr> = s \<lparr> km_calls := m, km_profiles := ?fill d \<rparr>" by (simp add: u)
        then show "E Syscall (u \<lparr> km_calls := m \<rparr>)" using E d(2) by simp
      qed
      then show ?thesis using True by (simp add: f wp_simps)
    qed
  qed
  then show ?thesis
    by (rule kwp_mono) (use Q in auto)
qed

lemma kwp_put_profiles:
  assumes band: "\<forall>(i, x) \<in> set specs. i < dynamic_profile_base"
    and Q: "\<And>n. keeps_band (km_profiles s) (fill (unat \<circ> fst) (profile_encode \<circ> snd) specs (km_profiles s)) \<Longrightarrow>
        Q () (s \<lparr> km_calls := n, km_profiles := fill (unat \<circ> fst) (profile_encode \<circ> snd) specs (km_profiles s) \<rparr>)"
    and E: "\<And>n ps e. keeps_band (km_profiles s) ps \<Longrightarrow> E e (s \<lparr> km_calls := n, km_profiles := ps \<rparr>)"
  shows "kwp (put_profiles specs) Q E s"
  unfolding put_profiles_def
  by (rule kwp_fill_profiles [where P = "\<lambda>_. True" and ix = fst and val = snd])
    (use band Q E in \<open>auto simp: kwhen_def split: prod.split\<close>)

lemma kwp_retire_profiles:
  assumes band: "\<forall>(n, i) \<in> set old. i < dynamic_profile_base"
    and Q: "\<And>n. keeps_band (km_profiles s) (fill (unat \<circ> snd) (\<lambda>_. profile_encode profile_none) (filter (\<lambda>(n, i). tget new n = None) old) (km_profiles s)) \<Longrightarrow>
        Q () (s \<lparr> km_calls := n, km_profiles :=
          fill (unat \<circ> snd) (\<lambda>_. profile_encode profile_none) (filter (\<lambda>(n, i). tget new n = None) old) (km_profiles s) \<rparr>)"
    and E: "\<And>n ps e. keeps_band (km_profiles s) ps \<Longrightarrow> E e (s \<lparr> km_calls := n, km_profiles := ps \<rparr>)"
  shows "kwp (retire_profiles old new) Q E s"
proof -
  have c: "(profile_encode \<circ> (\<lambda>_. profile_none)) = (\<lambda>_ :: string \<times> 32 word. profile_encode profile_none)" by (rule ext) simp
  show ?thesis
    unfolding retire_profiles_def
    by (rule kwp_fill_profiles [where P = "\<lambda>(n, i). tget new n = None" and ix = snd and val = "\<lambda>_. profile_none"])
      (use band Q E in \<open>auto simp: c split: prod.split\<close>)
qed

section \<open>Tries\<close>

definition trie_ok :: "(prefix, unit) table \<Rightarrow> bool" where
  "trie_ok t \<longleftrightarrow> table_ok t \<and> (\<forall>p \<in> fst ` set t. canonical p)"

definition trie :: "bool \<Rightarrow> 'm kmaps_scheme \<Rightarrow> (prefix, unit) table" where
  "trie b s = (if b then km_allow s else km_protect s)"

definition set_trie :: "bool \<Rightarrow> (prefix, unit) table \<Rightarrow> 'm kmaps_scheme \<Rightarrow> 'm kmaps_scheme" where
  "set_trie b t s = (if b then s \<lparr> km_allow := t \<rparr> else s \<lparr> km_protect := t \<rparr>)"

lemma set_trie_simps [simp]:
  "trie b (set_trie b t s) = t" "set_trie b t (set_trie b u s) = set_trie b t s" "set_trie b (trie b s) s = s"
  "trie b (s \<lparr> km_calls := n \<rparr>) = trie b s"
  "(set_trie b t s) \<lparr> km_calls := n \<rparr> = set_trie b t (s \<lparr> km_calls := n \<rparr>)"
  by (simp_all add: set_trie_def trie_def)

lemma kwp_put_prefix:
  "(\<And>n. Q () (set_trie b (f (trie b s)) (s \<lparr> km_calls := n \<rparr>))) \<Longrightarrow> (\<And>n. E Syscall (s \<lparr> km_calls := n \<rparr>)) \<Longrightarrow>
   kwp (put_prefix f b) Q E s"
  by (cases b) (auto intro!: kwp_write simp: put_prefix_def set_trie_def trie_def)

lemma fst_tput: "fst ` set (tput k v t) = insert k (fst ` set t)"
  unfolding tput_def by (simp add: dom_update)

lemma fst_tdel: "fst ` set (tdel k t) = fst ` set t - {k}"
  unfolding tdel_def AList.delete_eq by force

lemma trie_ok_tput: "trie_ok t \<Longrightarrow> canonical p \<Longrightarrow> trie_ok (tput p () t)"
  by (simp add: trie_ok_def fst_tput tbl.inv_put)

lemma trie_ok_tdel: "trie_ok t \<Longrightarrow> trie_ok (tdel p t)"
  unfolding trie_ok_def fst_tdel by (auto simp: tbl.inv_del)

text \<open>A loop of additions or of removals of canonical prefixes.\<close>

lemma kwp_trie_loop:
  fixes s :: "'m kmaps_scheme"
  assumes f: "\<And>p u Q E. p \<in> set ps \<Longrightarrow> (\<And>n. Q () (set_trie b (g p (trie b u)) (u \<lparr> km_calls := n \<rparr>))) \<Longrightarrow>
        (\<And>n e. E e (u \<lparr> km_calls := n \<rparr>)) \<Longrightarrow> (\<And>e. E e u) \<Longrightarrow> kwp (f p) Q E (u :: 'm kmaps_scheme)"
    and keep: "\<And>p t. p \<in> set ps \<Longrightarrow> trie_ok t \<Longrightarrow> trie_ok (g p t)"
    and ok: "trie_ok (trie b s)"
    and Q: "\<And>n. trie_ok (fold g ps (trie b s)) \<Longrightarrow> Q () (set_trie b (fold g ps (trie b s)) (s \<lparr> km_calls := n \<rparr>))"
    and E: "\<And>n t e. trie_ok t \<Longrightarrow> E e (set_trie b t (s \<lparr> km_calls := n \<rparr>))"
  shows "kwp (kfor f ps) Q E s"
proof -
  let ?I = "\<lambda>rest u. \<exists>n t. u = set_trie b t (s \<lparr> km_calls := n \<rparr>) \<and> fold g rest t = fold g ps (trie b s) \<and> trie_ok t
      \<and> set rest \<subseteq> set ps"
  have "kwp (kfor f ps) (\<lambda>_. ?I []) E s"
  proof (rule kwp_for)
    have "s = set_trie b (trie b s) (s \<lparr> km_calls := km_calls s \<rparr>)" by simp
    then show "?I ps s" using ok by blast
  next
    fix p rest u assume "?I (p # rest) u"
    then obtain n t where u: "u = set_trie b t (s \<lparr> km_calls := n \<rparr>)" and t: "fold g rest (g p t) = fold g ps (trie b s)" "trie_ok t"
      "p \<in> set ps" "set rest \<subseteq> set ps" by auto
    show "kwp (f p) (\<lambda>_. ?I rest) E u"
    proof (rule f [OF t(3)])
      show "?I rest (set_trie b (g p (trie b u)) (u \<lparr> km_calls := m \<rparr>))" for m
        using t keep [OF t(3,2)] by (intro exI [where x = m] exI [where x = "g p t"]) (simp add: u)
      show "E e (u \<lparr> km_calls := m \<rparr>)" for m e using E [OF t(2), of e m] by (simp add: u)
      show "E e u" for e using E [OF t(2), of e n] by (simp add: u)
    qed
  qed
  then show ?thesis by (rule kwp_mono) (use Q in auto)
qed

lemma fold_tput_keys: "fst ` set (fold (\<lambda>p. tput p v) ps t) = fst ` set t \<union> set ps"
  by (induction ps arbitrary: t) (auto simp: fst_tput)

lemma fold_tdel_keys: "fst ` set (fold tdel ps t) = fst ` set t - set ps"
  by (induction ps arbitrary: t) (auto simp: fst_tdel)

lemma trie_entries_set: "trie_ok t \<Longrightarrow> set (trie_entries t) = fst ` set t"
proof -
  assume t: "trie_ok t"
  have "is4 (pfx_addr p) \<or> is6 (pfx_addr p)" if "p \<in> fst ` set t" for p
  proof -
    have "addr_valid (pfx_addr p)" using t that by (auto simp: trie_ok_def canonical_def pfx_wf_def)
    then show ?thesis by (cases "pfx_addr p") simp_all
  qed
  then show ?thesis by (force simp: trie_entries_def)
qed

lemma reconcile_wp:
  fixes s :: "'m kmaps_scheme"
  assumes ok: "trie_ok (trie b s)" and want: "\<forall>p \<in> set want. canonical p"
    and Q: "\<And>n t a r. trie_ok t \<Longrightarrow> fst ` set t = set want \<Longrightarrow> Q (a, r) (set_trie b t (s \<lparr> km_calls := n \<rparr>))"
    and E: "\<And>n t e. trie_ok t \<Longrightarrow> E e (set_trie b t (s \<lparr> km_calls := n \<rparr>))"
  shows "kwp (reconcile_trie b want) Q E s"
proof -
  let ?have = "trie_entries (trie b s)"
  obtain add remove where d: "prefix_diff ?have want = (add, remove)" by (cases "prefix_diff ?have want")
  have a: "set add = set want - set ?have" "set remove = set ?have - set want"
    using d by (auto simp: prefix_diff_def)
  let ?t1 = "fold (\<lambda>p. tput p ()) add (trie b s)"
  have keys: "fst ` set (fold tdel remove ?t1) = set want"
    unfolding fold_tdel_keys fold_tput_keys a trie_entries_set [OF ok] by blast
  have second: "kwp (kfor (delete_prefix b) remove) (\<lambda>_. Q (add, remove)) E (set_trie b ?t1 (s \<lparr> km_calls := n \<rparr>))" if "trie_ok ?t1" for n
  proof (rule kwp_trie_loop [where g = tdel])
    fix p and u :: "'m kmaps_scheme" and Q :: "unit \<Rightarrow> _" and E :: "dp_fault \<Rightarrow> _"
    assume p: "p \<in> set remove" "\<And>n. Q () (set_trie b (tdel p (trie b u)) (u \<lparr> km_calls := n \<rparr>))" "\<And>n e. E e (u \<lparr> km_calls := n \<rparr>)"
    have "canonical p" using p(1) a ok by (auto simp: trie_entries_set trie_ok_def)
    then show "kwp (delete_prefix b p) Q E u"
      unfolding delete_prefix_def using p by (intro kwp_put_prefix) (simp_all add: canonical_def)
  next
    fix m show "Q (add, remove) (set_trie b (fold tdel remove (trie b (set_trie b ?t1 (s \<lparr> km_calls := n \<rparr>)))) (set_trie b ?t1 (s \<lparr> km_calls := n \<rparr>) \<lparr> km_calls := m \<rparr>))"
      if "trie_ok (fold tdel remove (trie b (set_trie b ?t1 (s \<lparr> km_calls := n \<rparr>))))"
      using Q [OF _ keys, of add remove m] that by simp
  qed (use E that in \<open>simp_all add: trie_ok_tdel\<close>)
  have "kwp (kfor (add_prefix b) add) (\<lambda>_. kwp (kfor (delete_prefix b) remove) (\<lambda>_. Q (add, remove)) E) E (s \<lparr> km_calls := n \<rparr>)" for n
  proof (rule kwp_trie_loop [where g = "\<lambda>p. tput p ()"])
    fix p and u :: "'m kmaps_scheme" and Q :: "unit \<Rightarrow> _" and E :: "dp_fault \<Rightarrow> _"
    assume p: "p \<in> set add" "\<And>n. Q () (set_trie b (tput p () (trie b u)) (u \<lparr> km_calls := n \<rparr>))"
      "\<And>n e. E e (u \<lparr> km_calls := n \<rparr>)" "\<And>e. E e u"
    have "canonical p" using p(1) a want by auto
    then show "kwp (add_prefix b p) Q E u"
      unfolding add_prefix_def wp_simps using p by (auto intro!: kwp_put_prefix simp: canonical_def)
  next
    show "trie_ok (tput p () t)" if "p \<in> set add" "trie_ok t" for p t
      using that a want by (auto intro: trie_ok_tput)
    show "kwp (kfor (delete_prefix b) remove) (\<lambda>_. Q (add, remove)) E
        (set_trie b (fold (\<lambda>p. tput p ()) add (trie b (s \<lparr> km_calls := n \<rparr>))) (s \<lparr> km_calls := n \<rparr> \<lparr> km_calls := m \<rparr>))"
      if "trie_ok (fold (\<lambda>p. tput p ()) add (trie b (s \<lparr> km_calls := n \<rparr>)))" for m
      using second [of m] that by simp
  qed (use ok E in simp_all)
  note first = this
  have E0: "E e (s \<lparr> km_calls := n \<rparr>)" for e n
    using E [OF ok, of e n] set_trie_simps(3) [of b "s \<lparr> km_calls := n \<rparr>"] by simp
  have "trie_entries (if b then km_allow s else km_protect s) = ?have" by (simp add: trie_def)
  then have "kwp (read_trie b) (\<lambda>have1. kwp (case prefix_diff have1 want of (toadd, toremove) \<Rightarrow>
      kbind (kfor (add_prefix b) toadd) (\<lambda>_. kbind (kfor (delete_prefix b) toremove) (\<lambda>_. kret (toadd, toremove)))) Q E) E s"
    unfolding read_trie_def
    using first d E0 by (intro kwp_read) (auto simp: wp_simps trie_def)
  then show ?thesis by (simp add: reconcile_trie_def wp_simps)
qed

section \<open>Blocks\<close>

lemma count_shadowed_wp:
  assumes "\<And>n k. Q k (s \<lparr> km_calls := n \<rparr>)" "\<And>k. Q k s" "\<And>n e. E e (s \<lparr> km_calls := n \<rparr>)"
  shows "kwp (count_shadowed scan base xs m) Q E s"
  using assms
proof (induction xs arbitrary: m s)
  case (Cons i xs)
  show ?case
    unfolding count_shadowed.simps wp_simps
    by (rule kwp_read_block; (rule Cons.IH)?) (use Cons.prems in simp_all)
qed (simp add: wp_simps)

lemma count_if_grown_wp:
  assumes "\<And>n k. Q k (s \<lparr> km_calls := n \<rparr>)" "\<And>k. Q k s" "\<And>n e. E e (s \<lparr> km_calls := n \<rparr>)"
  shows "kwp (count_if_grown added) Q E s"
proof -
  have "kwp (shadowed_dynamic_rules g st added) Q E (s \<lparr> km_calls := n \<rparr>)" for g st n
    unfolding shadowed_dynamic_rules_def wp_simps using assms by (auto intro: count_shadowed_wp)
  then have "kwp read_config (\<lambda>c u. kwp (shadowed_dynamic_rules (kc_generation c) (ms_policy_stride (mg_sizing u)) added) Q E u) E s"
    by (intro kwp_read_config) (simp_all add: assms)
  then show ?thesis using assms(2) by (simp add: count_if_grown_def wp_simps)
qed

text \<open>Copying one half of the blocks over the other.\<close>

definition mirrored :: "nat \<Rightarrow> nat \<Rightarrow> nat \<Rightarrow> policy_block list \<Rightarrow> policy_block list \<Rightarrow> bool" where
  "mirrored frm to k old new \<longleftrightarrow> length new = length old
     \<and> (\<forall>i < k. new ! (to + i) = old ! (frm + i)) \<and> (\<forall>j. j < to \<or> to + k \<le> j \<longrightarrow> new ! j = old ! j)"

lemma mirror_blocks_wp:
  fixes s :: "'m kmaps_scheme"
  assumes sz: "sized s" and fr: "frm < generations" and to: "to < generations" "frm \<noteq> to"
    and Q: "\<And>n pols. mirrored (unat frm * unat (policy_stride s)) (unat to * unat (policy_stride s)) (unat (policy_stride s)) (km_policies s) pols \<Longrightarrow>
       Q () (s \<lparr> km_calls := n, km_policies := pols \<rparr>)"
    and E: "\<And>n k pols e. mirrored (unat frm * unat (policy_stride s)) (unat to * unat (policy_stride s)) k (km_policies s) pols \<Longrightarrow>
       k \<le> unat (policy_stride s) \<Longrightarrow> E e (s \<lparr> km_calls := n, km_policies := pols \<rparr>)"
  shows "kwp (mirror_blocks frm to (policy_stride s)) Q E s"
proof -
  let ?S = "unat (policy_stride s)"
  let ?F = "unat frm * ?S" and ?T = "unat to * ?S"
  have S: "2 * ?S < 2 ^ 32" "length (km_policies s) = 2 * ?S" using sz by (simp_all add: sized_def)
  have ix: "unat (g * policy_stride s + word_of_nat i) = unat g * ?S + i" if "g < generations" "i < ?S" for g i
  proof -
    have "i < 2 ^ 32" using that(2) S(1) by simp
    then have "unat (word_of_nat i :: 32 word) = i" by (simp add: unat_of_nat)
    moreover from this have "word_of_nat i < policy_stride s" using that(2) by (simp add: word_less_nat_alt)
    ultimately show ?thesis using unat_slot [OF that(1) _ S(1), of "word_of_nat i"] by simp
  qed
  have apart: "?F + i < ?T \<or> ?T + k \<le> ?F + i" if "i < ?S" "k \<le> i" for i k
  proof -
    have "frm = 0 \<and> to = 1 \<or> frm = 1 \<and> to = 0"
      using fr to word_lt_2 [of frm] word_lt_2 [of to] by (auto simp: generations_def)
    then show ?thesis using that by auto
  qed
  have f: "kwp (kbind (read_block (frm * policy_stride s + word_of_nat i)) (put_block (to * policy_stride s + word_of_nat i))) (\<lambda>_. R) E u"
    if i: "i < ?S" and u: "u = s \<lparr> km_calls := n, km_policies := pols \<rparr>" and m: "mirrored ?F ?T i (km_policies s) pols"
      and R: "\<And>m. R (s \<lparr> km_calls := m, km_policies := pols[?T + i := km_policies s ! (?F + i)] \<rparr>)" for i u n pols R
    unfolding wp_simps
  proof (rule kwp_read_block, goal_cases)
    case (1 m)
    have b: "km_policies u ! unat (frm * policy_stride s + word_of_nat i) = km_policies s ! (?F + i)"
      using ix [OF fr i] apart [OF i order_refl] m by (auto simp: u mirrored_def)
    show ?case
      unfolding put_block_def
    proof (rule kwp_put)
      fix l
      let ?u = "u \<lparr> km_calls := m \<rparr> \<lparr> km_calls := l \<rparr>"
      have "?u \<lparr> km_policies := (km_policies ?u)[unat (to * policy_stride s + word_of_nat i) := km_policies u ! unat (frm * policy_stride s + word_of_nat i)] \<rparr>
          = s \<lparr> km_calls := l, km_policies := pols[?T + i := km_policies s ! (?F + i)] \<rparr>"
        unfolding b ix [OF to(1) i] by (simp add: u)
      then show "R (?u \<lparr> km_policies := (km_policies ?u)[unat (to * policy_stride s + word_of_nat i) := km_policies u ! unat (frm * policy_stride s + word_of_nat i)] \<rparr>)"
        using R by simp
      have "?u = s \<lparr> km_calls := l, km_policies := pols \<rparr>" by (simp add: u)
      then show "E Syscall ?u" using E [OF m] i by simp
    qed
  next
    case (2 m)
    have "u \<lparr> km_calls := m \<rparr> = s \<lparr> km_calls := m, km_policies := pols \<rparr>" by (simp add: u)
    then show ?case using E [OF m] i by simp
  qed
  let ?I = "\<lambda>rest u. \<exists>n k pols. u = s \<lparr> km_calls := n, km_policies := pols \<rparr> \<and> rest = [k..<?S] \<and> k \<le> ?S \<and> mirrored ?F ?T k (km_policies s) pols"
  have "kwp (kfor (\<lambda>i. kbind (read_block (frm * policy_stride s + word_of_nat i)) (put_block (to * policy_stride s + word_of_nat i))) [0..<?S]) (\<lambda>_. ?I []) E s"
  proof (rule kwp_for)
    show "?I [0..<?S] s"
      by (intro exI [where x = "km_calls s"] exI [where x = 0] exI [where x = "km_policies s"]) (simp add: mirrored_def)
  next
    fix x rest u assume "?I (x # rest) u"
    then obtain n k pols where u: "u = s \<lparr> km_calls := n, km_policies := pols \<rparr>" and r: "x # rest = [k..<?S]" "k \<le> ?S"
      and m: "mirrored ?F ?T k (km_policies s) pols" by blast
    have k: "k < ?S" "x = k" "rest = [Suc k..<?S]"
      using r(1) [symmetric, unfolded upt_eq_Cons_conv] by auto
    have new: "mirrored ?F ?T (Suc k) (km_policies s) (pols[?T + k := km_policies s ! (?F + k)])"
    proof -
      have "?T + k < length (km_policies s)"
        using k(1) S(2) word_lt_2 [of to] to(1) by (auto simp: generations_def)
      then show ?thesis using m by (auto simp: mirrored_def nth_list_update less_Suc_eq)
    qed
    show "kwp (kbind (read_block (frm * policy_stride s + word_of_nat x)) (put_block (to * policy_stride s + word_of_nat x))) (\<lambda>_. ?I rest) E u"
      unfolding k(2)
    proof (rule f [OF k(1) u m])
      fix l
      show "?I rest (s \<lparr> km_calls := l, km_policies := pols[?T + k := km_policies s ! (?F + k)] \<rparr>)"
        using new k by (intro exI [where x = l] exI [where x = "Suc k"] exI [where x = "pols[?T + k := km_policies s ! (?F + k)]"]) simp
    qed
  qed
  then have "kwp (kfor (\<lambda>i. kbind (read_block (frm * policy_stride s + word_of_nat i)) (put_block (to * policy_stride s + word_of_nat i))) [0..<?S]) Q E s"
  proof (rule kwp_mono)
    fix x t assume "?I [] t"
    then obtain n k pols where t: "t = s \<lparr> km_calls := n, km_policies := pols \<rparr>" "[] = [k..<?S]" "k \<le> ?S" "mirrored ?F ?T k (km_policies s) pols"
      by blast
    then have "k = ?S" using upt_eq_Nil_conv [of k ?S] by force
    then show "Q x t" using Q [of pols n] t by simp
  qed simp
  then show ?thesis using to(2) by (simp add: mirror_blocks_def)
qed

lemma activate_wp:
  assumes "gen < generations"
    and "\<And>n. count \<le> kc_static_stride (km_cfg s) \<Longrightarrow>
      Q () (s \<lparr> km_calls := n, km_cfg := (km_cfg s) \<lparr> kc_generation := gen, kc_static_count := count \<rparr> \<rparr>)"
    and "\<And>n e. E e (s \<lparr> km_calls := n \<rparr>)"
  shows "kwp (activate gen count) Q E s"
proof -
  have g: "\<not> generations \<le> gen" using assms(1) by simp
  have "kwp read_config (\<lambda>c. kwp (if kc_static_stride c < count then kfail PastStride
       else put_config (c \<lparr> kc_generation := gen, kc_static_count := count \<rparr>)) Q E) E s"
  proof (rule kwp_read_config)
    fix n
    show "kwp (if kc_static_stride (km_cfg s) < count then kfail PastStride
       else put_config ((km_cfg s) \<lparr> kc_generation := gen, kc_static_count := count \<rparr>)) Q E (s \<lparr> km_calls := n \<rparr>)"
      unfolding put_config_def using assms by (auto intro!: kwp_write simp: wp_simps)
  qed (rule assms(3))
  then show ?thesis using g by (simp add: activate_def wp_simps)
qed

end
