(* ===== verification/PolicyCompile.thy ===== *)
theory PolicyCompile
  imports PolicyFile InstallerTheorems PolicyOps
begin

unbundle bit_operations_syntax

text \<open>
  What the compiler of static policies produces: profile ids in the operator's band, one id per name,
  and one kernel rule per family of each rule in the operator's order. A rule that the shadow analysis
  calls covered selects nothing that an earlier rule does not.
\<close>

section \<open>Profile ids\<close>

definition named_ids :: "(string, 32 word) table \<Rightarrow> 32 word list \<Rightarrow> bool" where
  "named_ids t taken \<longleftrightarrow> table_ok t \<and> (\<forall>n i. tget t n = Some i \<longrightarrow> i < dynamic_profile_base \<and> i \<in> set taken)
     \<and> (\<forall>n m i. tget t n = Some i \<longrightarrow> tget t m = Some i \<longrightarrow> n = m)"

lemma named_ids_put:
  "named_ids t taken \<Longrightarrow> i < dynamic_profile_base \<Longrightarrow> i \<notin> set taken \<Longrightarrow> named_ids (tput n i t) (i # taken)"
  unfolding named_ids_def by (auto simp: tbl.get_put tbl.inv_put split: if_splits)

lemma keep_ids_named:
  assumes "\<forall>n i. tget prev n = Some i \<longrightarrow> i < dynamic_profile_base"
  shows "named_ids pof taken \<Longrightarrow> keep_ids prev ps pof taken = (pof', taken') \<Longrightarrow> named_ids pof' taken'"
proof (induction ps arbitrary: pof taken)
  case (Cons p ps)
  show ?case
  proof (cases "tget prev (nr_name p)")
    case (Some i)
    show ?thesis
    proof (cases "i \<in> set taken")
      case False
      then have "named_ids (tput (nr_name p) i pof) (i # taken)"
        using named_ids_put Cons.prems(1) assms Some by blast
      then show ?thesis using Cons Some False by simp
    qed (use Cons Some in simp)
  qed (use Cons in simp)
qed simp

lemma skip_taken_run: "skip_taken k taken n \<in> set taken \<Longrightarrow> j \<le> k \<Longrightarrow> n + word_of_nat j \<in> set taken"
proof (induction k arbitrary: n j)
  case (Suc k)
  have n: "n \<in> set taken" using Suc.prems(1) by (auto split: if_splits)
  show ?case
  proof (cases j)
    case (Suc l)
    then have "n + 1 + word_of_nat l \<in> set taken" using Suc.IH [of "n + 1" l] Suc.prems n by simp
    then show ?thesis using Suc by (simp add: algebra_simps)
  qed (use n in simp)
qed simp

text \<open>The search runs no longer than the list of taken ids is.\<close>

lemma skip_taken_free:
  assumes "\<forall>i \<in> set taken. i < dynamic_profile_base"
  shows "skip_taken (length taken) taken n \<notin> set taken"
proof
  assume a: "skip_taken (length taken) taken n \<in> set taken"
  note run = skip_taken_run [OF a]
  have lt: "unat i < 192" if "i \<in> set taken" for i
    using assms that by (auto simp: dynamic_profile_base_def word_less_nat_alt)
  have n: "unat n < 192" using lt run [of 0] by simp
  have u: "unat (n + word_of_nat j) = unat n + j" if "j \<le> 192" for j
    using n that by (subst unat_add_lem [THEN iffD1]) (simp_all add: unat_of_nat)
  have "length taken < 192"
  proof (rule ccontr)
    assume "\<not> length taken < 192"
    then have "unat (n + word_of_nat 192) < 192" by (intro lt run) simp
    then show False using u [of 192] by simp
  qed
  then have "inj_on (\<lambda>j. n + word_of_nat j) {..length taken}"
    by (intro inj_onI) (metis (no_types, lifting) u add_left_cancel atMost_iff less_imp_le order_trans)
  then have "card ((\<lambda>j. n + word_of_nat j) ` {..length taken}) = Suc (length taken)"
    by (simp add: card_image)
  moreover have "(\<lambda>j. n + word_of_nat j) ` {..length taken} \<subseteq> set taken" using run by auto
  ultimately have "Suc (length taken) \<le> card (set taken)" by (metis card_mono finite_set)
  then show False using card_length [of taken] by simp
qed

definition taken_ok :: "32 word list \<Rightarrow> bool" where
  "taken_ok taken \<longleftrightarrow> (\<forall>i \<in> set taken. i < dynamic_profile_base)"

lemma keep_ids_taken:
  assumes "\<forall>n i. tget prev n = Some i \<longrightarrow> i < dynamic_profile_base"
  shows "taken_ok taken \<Longrightarrow> keep_ids prev ps pof taken = (pof', taken') \<Longrightarrow> taken_ok taken'"
proof (induction ps arbitrary: pof taken)
  case (Cons p ps)
  have "taken_ok (i # taken)" if "tget prev (nr_name p) = Some i" for i
    using Cons.prems(1) assms that by (auto simp: taken_ok_def)
  then show ?case using Cons by (auto split: option.splits if_splits)
qed simp

lemma fill_ids_named:
  "named_ids pof taken \<Longrightarrow> taken_ok taken \<Longrightarrow> fill_ids ps pof taken n = Inr t \<Longrightarrow> \<exists>taken'. named_ids t taken'"
proof (induction ps arbitrary: pof taken n)
  case (Cons p ps)
  show ?case
  proof (cases "tget pof (nr_name p)")
    case None
    let ?m = "skip_taken (length taken) taken n"
    have m: "?m < dynamic_profile_base" "fill_ids ps (tput (nr_name p) ?m pof) (?m # taken) ?m = Inr t"
      using Cons.prems(3) None by (simp_all add: Let_def not_le split: if_splits)
    have "?m \<notin> set taken" using skip_taken_free Cons.prems(2) by (simp add: taken_ok_def)
    then have "named_ids (tput (nr_name p) ?m pof) (?m # taken)" using named_ids_put Cons.prems(1) m(1) by blast
    moreover have "taken_ok (?m # taken)" using Cons.prems(2) m(1) by (simp add: taken_ok_def)
    ultimately show ?thesis using Cons.IH m(2) by blast
  qed (use Cons in simp)
qed auto

lemma fill_ids_step:
  assumes "fill_ids (p # ps) pof taken n = Inr t"
  shows "\<exists>pof' taken' n'. fill_ids ps pof' taken' n' = Inr t \<and> (\<exists>i. tget pof' (nr_name p) = Some i)
    \<and> (\<forall>m i. tget pof m = Some i \<longrightarrow> tget pof' m = Some i)"
proof (cases "tget pof (nr_name p)")
  case (Some i)
  then show ?thesis using assms by (intro exI [where x = pof] exI [where x = taken] exI [where x = n]) simp
next
  case None
  let ?m = "skip_taken (length taken) taken n"
  have "fill_ids ps (tput (nr_name p) ?m pof) (?m # taken) ?m = Inr t"
    using assms None by (simp add: Let_def split: if_splits)
  then show ?thesis
    using None by (intro exI [where x = "tput (nr_name p) ?m pof"] exI [where x = "?m # taken"] exI [where x = "?m"])
      (simp add: tbl.get_put)
qed

lemma fill_ids_grow: "fill_ids ps pof taken n = Inr t \<Longrightarrow> tget pof m = Some i \<Longrightarrow> tget t m = Some i"
proof (induction ps arbitrary: pof taken n)
  case (Cons p ps)
  then show ?case using fill_ids_step [OF Cons.prems(1)] by blast
qed simp

lemma fill_ids_total: "fill_ids ps pof taken n = Inr t \<Longrightarrow> p \<in> set ps \<Longrightarrow> \<exists>i. tget t (nr_name p) = Some i"
proof (induction ps arbitrary: pof taken n)
  case (Cons q ps)
  obtain pof' taken' n' where f: "fill_ids ps pof' taken' n' = Inr t" "\<exists>i. tget pof' (nr_name q) = Some i"
    using fill_ids_step [OF Cons.prems(1)] by blast
  then show ?case using Cons.IH [OF f(1)] Cons.prems(2) fill_ids_grow [OF f(1)] by auto
qed simp

lemma tget_keys: "table_ok t \<Longrightarrow> tget t k = Some v \<longleftrightarrow> (k, v) \<in> set t"
  by (simp add: in_set_tget_iff)

text \<open>The specs written: one per declared profile, under its id.\<close>

lemma profile_specs_keys: "fst ` set (profile_specs pof ps) = (\<lambda>p. case tget pof (nr_name p) of Some i \<Rightarrow> i | None \<Rightarrow> 0) ` set ps"
  by (induction ps) (simp_all add: fst_tput)

lemma profile_specs_ok: "table_ok (profile_specs pof ps)"
  by (induction ps) (simp_all add: tbl.inv_put table_ok_def [of "[]"])

lemma profile_specs_get:
  assumes "named_ids pof taken" "distinct (map nr_name ps)" "\<forall>p \<in> set ps. tget pof (nr_name p) \<noteq> None"
  shows "p \<in> set ps \<Longrightarrow> tget pof (nr_name p) = Some i \<Longrightarrow>
    tget (profile_specs pof ps) i = Some (profile_from_config (nr_pps p) (nr_mbps p))"
  using assms(2,3)
proof (induction ps)
  case (Cons q ps)
  obtain j where j: "tget pof (nr_name q) = Some j" using Cons.prems(4) by auto
  show ?case
  proof (cases "p = q")
    case False
    then have p: "p \<in> set ps" using Cons.prems(1) by simp
    then have "nr_name p \<noteq> nr_name q" using Cons.prems(3) by (metis distinct.simps(2) image_eqI list.set_map list.simps(9))
    then have "i \<noteq> j" using assms(1) Cons.prems(2) j by (metis named_ids_def)
    then show ?thesis using Cons p j by (simp add: tbl.get_put)
  qed (use j Cons.prems(2) in \<open>simp add: tbl.get_put\<close>)
qed simp

section \<open>Rules\<close>

text \<open>What the operator wrote, spelled out: a spec per family of each rule, in order.\<close>

definition specs_of :: "static_rule \<Rightarrow> nat \<Rightarrow> 32 word \<Rightarrow> nat \<Rightarrow> bool list \<Rightarrow> rule_spec list" where
  "specs_of r i prof fi fs = map (\<lambda>(k, v6). static_spec r (static_rule_id i k) prof v6) (enumerate fi fs)"

fun static_specs :: "(string, 32 word) table \<Rightarrow> nat \<Rightarrow> static_rule list \<Rightarrow> rule_spec list" where
  "static_specs pof i [] = []"
| "static_specs pof i (r # rs) =
     specs_of r i (if sr_action r = act_rate_limit then the (tget pof (sr_profile r)) else 0) 0 (families_for r)
     @ static_specs pof (Suc i) rs"

lemma encode_rules_append:
  "encode_rules (xs @ ys) = (case encode_rules xs of Inl e \<Rightarrow> Inl e | Inr a \<Rightarrow>
     (case encode_rules ys of Inl e \<Rightarrow> Inl e | Inr b \<Rightarrow> Inr (a @ b)))"
  by (induction xs) (auto split: sum.splits)

lemma encode_rules_take: "encode_rules xs = Inr ks \<Longrightarrow> encode_rules (take n xs) = Inr (take n ks)"
proof (induction xs arbitrary: ks n)
  case (Cons x xs)
  then show ?case by (cases n) (auto split: sum.splits)
qed simp

lemma compile_families_encode:
  "compile_families r i prof fi fs = Inr ks \<Longrightarrow> encode_rules (specs_of r i prof fi fs) = Inr (map fst ks)"
  by (induction fs arbitrary: fi ks) (auto simp: specs_of_def split: sum.splits)

lemma compile_rules_encode:
  "compile_rules pof i rs = Inr ks \<Longrightarrow> encode_rules (static_specs pof i rs) = Inr (map fst ks)"
proof (induction rs arbitrary: i ks)
  case (Cons r rs)
  obtain k1 k2 where k: "compile_rule pof i r = Inr k1" "compile_rules pof (Suc i) rs = Inr k2" "ks = k1 @ k2"
    using Cons.prems by (auto split: sum.splits)
  have "encode_rules (specs_of r i (if sr_action r = act_rate_limit then the (tget pof (sr_profile r)) else 0) 0 (families_for r))
      = Inr (map fst k1)"
    using k(1) by (auto simp: compile_rule_def intro!: compile_families_encode split: if_splits option.splits)
  then show ?case using Cons.IH [OF k(2)] k(3) by (simp add: encode_rules_append)
qed simp

lemma families_le: "length (families_for r) \<le> 2"
  by (simp add: families_for_def)

lemma static_specs_length: "length (static_specs pof i rs) \<le> 2 * length rs"
proof (induction rs arbitrary: i)
  case (Cons r rs)
  have "length (static_specs pof (Suc i) rs) \<le> 2 * length rs" by (rule Cons)
  then show ?case using families_le [of r] by (simp add: specs_of_def)
qed simp

lemma encode_rules_length: "encode_rules xs = Inr ks \<Longrightarrow> length ks = length xs"
  by (induction xs arbitrary: ks) (auto split: sum.splits)

lemma specs_of_src: "x \<in> set (specs_of r i prof fi fs) \<Longrightarrow> sp_src x = sr_src r \<and> sp_dst x = prefix_none"
  by (auto simp: specs_of_def static_spec_def)

lemma static_specs_wf:
  "\<forall>r \<in> set rs. pfx_wf (sr_src r) \<Longrightarrow> x \<in> set (static_specs pof i rs) \<Longrightarrow> pfx_wf (sp_src x) \<and> pfx_wf (sp_dst x)"
  by (induction rs arbitrary: i) (auto dest!: specs_of_src)

lemma specs_expires: "x \<in> set (static_specs pof i rs) \<Longrightarrow> sp_expires x = 0"
  by (induction rs arbitrary: i) (auto simp: specs_of_def static_spec_def)

lemma find_cong: "(\<And>x. x \<in> set xs \<Longrightarrow> P x = Q x) \<Longrightarrow> List.find P xs = List.find Q xs"
  by (induction xs) auto

text \<open>The compiled rules decide as the specs do, and a static rule has no deadline.\<close>

lemma find_compiled:
  assumes "compile_rules pof i rs = Inr ks" "\<forall>r \<in> set rs. pfx_wf (sr_src r)" "pkt_wf pk"
  shows "List.find (rule_hits (kernel_packet pk \<lparr> kp_now := now \<rparr>)) (take n (map fst ks))
    = map_option (projr \<circ> encode) (List.find (\<lambda>x. spec_selects x pk) (take n (static_specs pof i rs)))"
proof -
  note e = encode_rules_take [OF compile_rules_encode [OF assms(1)], of n]
  have "List.find (rule_hits (kernel_packet pk \<lparr> kp_now := now \<rparr>)) (take n (map fst ks))
      = map_option (projr \<circ> encode) (List.find (spec_hits now pk) (take n (static_specs pof i rs)))"
    by (rule find_encoded [OF e _ assms(3)]) (use static_specs_wf [OF assms(2)] in \<open>blast dest: in_set_takeD\<close>)
  also have "List.find (spec_hits now pk) (take n (static_specs pof i rs)) = List.find (\<lambda>x. spec_selects x pk) (take n (static_specs pof i rs))"
    by (rule find_cong) (use specs_expires in \<open>auto simp: spec_hits_def dest: in_set_takeD\<close>)
  finally show ?thesis .
qed

section \<open>Rules that can never fire\<close>

text \<open>Does a rule, in one of its families, select a packet?\<close>

definition static_picks :: "static_rule \<Rightarrow> packet \<Rightarrow> bool" where
  "static_picks r pk \<longleftrightarrow> spec_selects (static_spec r 0 0 (is6 (pk_src pk))) pk"

definition static_selects :: "static_rule \<Rightarrow> packet \<Rightarrow> bool" where
  "static_selects r pk \<longleftrightarrow> has_family r (is6 (pk_src pk)) \<and> static_picks r pk"

lemma static_spec_selects: "spec_selects (static_spec r i prof v6) pk \<longleftrightarrow> v6 = is6 (pk_src pk) \<and> static_picks r pk"
  by (auto simp: static_picks_def spec_selects_def static_spec_def)

lemma specs_of_Cons: "specs_of r i prof fi (v6 # fs) = static_spec r (static_rule_id i fi) prof v6 # specs_of r i prof (Suc fi) fs"
  by (simp add: specs_of_def)

lemma specs_of_selects: "(\<exists>x \<in> set (specs_of r i prof fi fs). spec_selects x pk) \<longleftrightarrow> is6 (pk_src pk) \<in> set fs \<and> static_picks r pk"
proof (induction fs arbitrary: fi)
  case (Cons v6 fs)
  show ?case unfolding specs_of_Cons using Cons by (auto simp: static_spec_selects)
qed (simp add: specs_of_def)

lemma covers_match_ext_bit: "covers_match_ext a b \<Longrightarrow> bit a n \<Longrightarrow> bit b n"
proof -
  assume "covers_match_ext a b" and a: "bit a n"
  then have "bit (a AND NOT b) n = False" by (simp add: covers_match_ext_def)
  then show "bit b n" using a by (auto simp: bit_simps dest: bit_imp_le_length)
qed

lemma drop_masked: "k \<le> l \<Longrightarrow> drop_bit l (push_bit k (drop_bit k (w :: 'a::len word))) = drop_bit l w"
  by (rule bit_word_eqI) (auto simp: bit_simps dest: bit_imp_le_length)

lemma covers_contains:
  assumes c: "covers a t" "contains t x" and wf: "pfx_wf a" "pfx_wf t"
  shows "contains a x"
proof -
  obtain p n where a: "a = Pfx p n" by (cases a)
  obtain q m where t: "t = Pfx q m" by (cases t)
  show ?thesis
    using c wf unfolding a t
    by (cases p; cases q; cases x)
      (auto simp: covers_def contains_def pfx_valid_def pfx_masked_def addr_prefix_def pfx_wf_def drop_masked diff_le_mono2 nat_mono)
qed

lemma default_contains: "addr_valid x \<Longrightarrow> \<not> has_zone x \<Longrightarrow> contains (default_route (is6 x)) x"
  by (cases x) (auto simp: default_route_def prefix_from_def contains_def pfx_valid_def)

lemma default_wf: "pfx_wf (default_route v6)"
  by (simp add: default_route_def prefix_from_def pfx_wf_def)

lemma covers_src_contains:
  assumes "covers_src a b (is6 x)" "pfx_valid b \<longrightarrow> contains b x" "pfx_wf a" "pfx_wf b" "addr_valid x" "\<not> has_zone x"
  shows "pfx_valid a \<longrightarrow> contains a x"
proof
  assume "pfx_valid a"
  then have "covers a (if pfx_valid b then b else default_route (is6 x))" using assms(1) by (simp add: covers_src_def)
  then show "contains a x"
    by (rule covers_contains) (use assms default_contains default_wf in \<open>auto split: if_splits\<close>)
qed

text \<open>A covered match is contained in its cover.\<close>

lemma match_covers_selects:
  assumes m: "match_covers a b (is6 (pk_src pk))" and s: "static_picks b pk"
    and wf: "pfx_wf (sr_src a)" "pfx_wf (sr_src b)" "pkt_wf pk"
  shows "static_picks a pk"
proof -
  have "pfx_valid (sr_src a) \<longrightarrow> contains (sr_src a) (pk_src pk)"
    by (rule covers_src_contains [where b = "sr_src b"])
      (use m s wf in \<open>auto simp: match_covers_def static_picks_def spec_selects_def static_spec_def pkt_wf_def\<close>)
  moreover have "bit (sr_match_ext a) n \<Longrightarrow> bit (sr_match_ext b) n" for n
    using m covers_match_ext_bit unfolding match_covers_def by blast
  moreover have "x \<in> set_option (sr_proto a) \<Longrightarrow> x \<in> set_option (sr_proto b)"
    and "y \<in> set_option (sr_src_port a) \<Longrightarrow> y \<in> set_option (sr_src_port b)"
    and "y \<in> set_option (sr_dst_port a) \<Longrightarrow> y \<in> set_option (sr_dst_port b)" for x y
    using m by (auto simp: match_covers_def covers_field_def)
  ultimately show ?thesis
    using s unfolding static_picks_def spec_selects_def static_spec_def by simp
qed

lemma cover_names_all: "cover_names earlier r fs by1 = Some ns \<Longrightarrow> v6 \<in> set fs \<Longrightarrow> \<exists>n. covering_rule earlier r v6 = Some n"
  by (induction fs arbitrary: by1) (auto split: option.splits)

lemma covering_rule_some:
  "covering_rule earlier r v6 = Some n \<Longrightarrow> \<exists>e \<in> set earlier. has_family e v6 \<and> match_covers e r v6"
  unfolding covering_rule_def by (auto simp: find_Some_iff dest: nth_mem)

text \<open>Every packet of a rule reported as covered is taken by a rule before it.\<close>

lemma shadowed_is_covered:
  assumes "earlier_rule_shadow earlier r = Some x" "static_selects r pk" "pkt_wf pk"
    and "\<forall>e \<in> set earlier. pfx_wf (sr_src e)" "pfx_wf (sr_src r)"
  shows "\<exists>e \<in> set earlier. static_selects e pk"
proof -
  obtain ns where "cover_names earlier r (families_for r) [] = Some ns"
    using assms(1) by (auto simp: earlier_rule_shadow_def split: if_splits)
  moreover have "is6 (pk_src pk) \<in> set (families_for r)" "static_picks r pk"
    using assms(2) by (simp_all add: static_selects_def has_family_def)
  ultimately obtain e where "e \<in> set earlier" "has_family e (is6 (pk_src pk))" "match_covers e r (is6 (pk_src pk))"
    using cover_names_all covering_rule_some by blast
  then show ?thesis
    using match_covers_selects assms \<open>static_picks r pk\<close> unfolding static_selects_def by blast
qed

lemma static_specs_selects:
  "(\<exists>x \<in> set (static_specs pof i rs). spec_selects x pk) \<longleftrightarrow> (\<exists>r \<in> set rs. static_selects r pk)"
proof (induction rs arbitrary: i)
  case (Cons r rs)
  let ?prof = "if sr_action r = act_rate_limit then the (tget pof (sr_profile r)) else 0"
  have "(\<exists>x \<in> set (specs_of r i ?prof 0 (families_for r)). spec_selects x pk) \<longleftrightarrow> static_selects r pk"
    unfolding specs_of_selects by (simp add: static_selects_def has_family_def)
  then show ?case using Cons [of "Suc i"] by auto
qed simp

lemma find_append: "List.find P (xs @ ys) = (case List.find P xs of None \<Rightarrow> List.find P ys | Some x \<Rightarrow> Some x)"
  by (induction xs) auto

lemma find_none_iff: "List.find P xs = None \<longleftrightarrow> \<not> (\<exists>x \<in> set xs. P x)"
  by (auto simp: find_None_iff)

lemma compile_rules_append:
  "compile_rules pof i (rs @ ss) = Inr ks \<Longrightarrow>
   \<exists>k1 k2. compile_rules pof i rs = Inr k1 \<and> compile_rules pof (i + length rs) ss = Inr k2 \<and> ks = k1 @ k2"
proof (induction rs arbitrary: i ks)
  case (Cons r rs)
  then obtain a b where a: "compile_rule pof i r = Inr a" "compile_rules pof (Suc i) (rs @ ss) = Inr b" "ks = a @ b"
    by (auto split: sum.splits)
  then obtain k1 k2 where "compile_rules pof (Suc i) rs = Inr k1" "compile_rules pof (Suc i + length rs) ss = Inr k2" "b = k1 @ k2"
    using Cons.IH by blast
  then show ?case using a by (intro exI [where x = "a @ k1"] exI [where x = k2]) simp
qed simp

end
