(* ===== verification/PolicySpec.thy ===== *)
theory PolicySpec
  imports PolicyCompile
begin

unbundle bit_operations_syntax

text \<open>
  What publishing a policy does to the maps, phase by phase. \<open>staged\<close> relates a state before the flip
  to the one the reload started in: the half in use is untouched, whatever has failed. \<open>published\<close>
  is the state after the flip.
\<close>

section \<open>The invariant of the operator's half\<close>

definition policy_ready :: "'m manager_scheme \<Rightarrow> bool" where
  "policy_ready s \<longleftrightarrow> ms_policy_stride (mg_sizing s) = policy_stride s \<and> ms_static_stride (mg_sizing s) = static_stride s
     \<and> kc_static_stride (km_cfg s) = static_stride s \<and> length (km_statics s) = 2 * unat (static_stride s)
     \<and> length (km_statics s) < 2 ^ 32 \<and> kc_static_count (km_cfg s) \<le> static_stride s \<and> trie_ok (km_allow s) \<and> trie_ok (km_protect s)
     \<and> (\<exists>taken. named_ids (mg_profiles s) taken)"

definition inst_same :: "'m plane_scheme \<Rightarrow> 'm plane_scheme \<Rightarrow> bool" where
  "inst_same s t \<longleftrightarrow> km_victims t = km_victims s \<and> km_clock t = km_clock s \<and> mg_sizing t = mg_sizing s \<and> mg_closed t = mg_closed s
     \<and> in_adopted t = in_adopted s \<and> in_stride t = in_stride s \<and> in_policy_of t = in_policy_of s \<and> in_taken t = in_taken s
     \<and> in_profile_of t = in_profile_of s \<and> in_refs t = in_refs s \<and> in_victim_profile t = in_victim_profile s
     \<and> keeps_band (km_profiles s) (km_profiles t) \<and> length (km_statics t) = length (km_statics s)
     \<and> length (km_policies t) = length (km_policies s) \<and> kc_policy_stride (km_cfg t) = kc_policy_stride (km_cfg s)
     \<and> kc_static_stride (km_cfg t) = kc_static_stride (km_cfg s)
     \<and> trie_ok (km_allow t) \<and> trie_ok (km_protect t) \<and> (\<exists>taken. named_ids (mg_profiles t) taken)"

text \<open>All but one half of a double-buffered map.\<close>

definition off_half :: "nat \<Rightarrow> nat \<Rightarrow> 'v list \<Rightarrow> 'v list \<Rightarrow> bool" where
  "off_half g n old new \<longleftrightarrow> (\<forall>j. j < g * n \<or> g * n + n \<le> j \<longrightarrow> new ! j = old ! j)"

lemma off_half_refl [simp]: "off_half g n l l"
  by (simp add: off_half_def)

definition staged :: "32 word \<Rightarrow> 'm plane_scheme \<Rightarrow> 'm plane_scheme \<Rightarrow> bool" where
  "staged gen s t \<longleftrightarrow> inst_same s t \<and> kc_generation (km_cfg t) = kc_generation (km_cfg s)
     \<and> kc_static_count (km_cfg t) = kc_static_count (km_cfg s)
     \<and> off_half (unat gen) (unat (policy_stride s)) (km_policies s) (km_policies t)
     \<and> off_half (unat gen) (unat (static_stride s)) (km_statics s) (km_statics t)"

lemma inst_same_strides: "inst_same s t \<Longrightarrow> policy_stride t = policy_stride s \<and> static_stride t = static_stride s"
  by (simp add: inst_same_def policy_stride_def static_stride_def)

lemma staged_refl: "policy_ready s \<Longrightarrow> staged gen s s"
  by (simp add: staged_def inst_same_def policy_ready_def)

section \<open>Reading one half\<close>

lemma same_half:
  assumes "off_half (unat gen) n old new" "gen < generations" "g < generations" "g \<noteq> gen" "i < n"
  shows "new ! (unat g * n + i) = old ! (unat g * n + i)"
proof -
  have "g = 0 \<and> gen = 1 \<or> g = 1 \<and> gen = 0"
    using assms word_lt_2 [of g] word_lt_2 [of gen] by (auto simp: generations_def)
  then show ?thesis using assms(1,5) by (auto simp: off_half_def)
qed

lemma prof_inv_band: "prof_inv ps a b c \<Longrightarrow> keeps_band ps qs \<Longrightarrow> prof_inv qs a b c"
  by (auto simp: prof_inv_def keeps_band_def)

text \<open>The dynamic rules are read from the victims, the generation and the blocks of that half.\<close>

lemma scan_policy_same:
  assumes sz: "sized s" "sized t" and st: "policy_stride t = policy_stride s" "km_victims t = km_victims s"
    and e: "entries_ok (policy_stride s) (km_victims s)"
    and b: "\<And>i. i < policy_stride s \<Longrightarrow> block_at t i = block_at s i"
  shows "scan_policy t p a = scan_policy s p a"
proof (cases "trie_lookup (km_victims s) a")
  case (Some x)
  obtain n i where x: "x = (n, i)" by (cases x)
  then obtain q where "(q, i) \<in> set (km_victims s)" using trie_lookup_Some Some by blast
  then have i: "i < policy_stride s" using e by (auto simp: entries_ok_def in_set_tget_iff)
  have "unat (kc_generation (km_cfg s) * policy_stride s + i) < length (km_policies s)"
    by (rule slot_lt [OF sz(1) _ i]) (use sz in \<open>simp add: sized_def\<close>)
  moreover have "unat (kc_generation (km_cfg t) * policy_stride t + i) < length (km_policies t)"
    by (rule slot_lt [OF sz(2)]) (use sz st i in \<open>simp_all add: sized_def\<close>)
  ultimately show ?thesis
    using Some x sz st b [OF i] by (simp add: scan_policy_def Let_def sized_def block_at_def)
qed (simp add: scan_policy_def st)

definition dynamic_kept :: "'m plane_scheme \<Rightarrow> 'm plane_scheme \<Rightarrow> bool" where
  "dynamic_kept s t \<longleftrightarrow> plane_ok t \<and> policy_ready t \<and> (\<forall>p a. scan_policy t p a = scan_policy s p a)"

lemma dynamic_kept_from:
  assumes ok: "plane_ok s" "policy_ready s" and i: "inst_same s t" and g: "kc_generation (km_cfg t) < generations"
      "kc_static_count (km_cfg t) \<le> static_stride s"
    and b: "\<And>i. i < policy_stride s \<Longrightarrow> block_at t i = block_at s i"
  shows "dynamic_kept s t"
proof -
  note st = inst_same_strides [OF i]
  have sz: "sized t" using ok i st g by (simp add: plane_ok_def pol_ok_def sized_def inst_same_def)
  then have "plane_ok t"
    using ok i st prof_inv_band unfolding plane_ok_def pol_ok_def prof_ok_def inst_same_def by metis
  moreover have "policy_ready t" using ok i st g by (simp add: policy_ready_def inst_same_def)
  moreover have "scan_policy t p a = scan_policy s p a" for p a
    by (rule scan_policy_same [OF _ sz _ _ _ b]) (use ok i st in \<open>auto simp: plane_ok_def pol_ok_def inst_same_def\<close>)
  ultimately show ?thesis by (simp add: dynamic_kept_def)
qed

lemma half_index:
  assumes "plane_ok s" "g < generations" "i < policy_stride s"
  shows "unat (g * policy_stride s + i) = unat g * unat (policy_stride s) + unat i"
  by (rule unat_slot [OF assms(2,3)]) (use assms(1) in \<open>simp add: plane_ok_def pol_ok_def sized_def\<close>)

lemma slots_eq:
  "length l = length m \<Longrightarrow> (\<And>j. j < n \<Longrightarrow> l ! (b + j) = m ! (b + j)) \<Longrightarrow> take n (drop b l) = take n (drop b m)"
  by (rule nth_equalityI) (auto simp: nth_drop)

lemma staged_keeps:
  assumes ok: "plane_ok s" "policy_ready s" and st: "staged gen s t"
    and g: "gen < generations" "gen \<noteq> kc_generation (km_cfg s)"
  shows "dynamic_kept s t" and "live_statics t = live_statics s"
proof -
  have gs: "kc_generation (km_cfg s) < generations" using ok(1) by (simp add: generation_ok)
  have i: "inst_same s t" "kc_generation (km_cfg t) = kc_generation (km_cfg s)" using st by (simp_all add: staged_def)
  show "dynamic_kept s t"
  proof (rule dynamic_kept_from [OF ok i(1)])
    show "kc_generation (km_cfg t) < generations" using gs i(2) by simp
    show "kc_static_count (km_cfg t) \<le> static_stride s" using ok(2) st by (simp add: policy_ready_def staged_def)
  next
    fix j assume j: "j < policy_stride s"
    have "km_policies t ! (unat (kc_generation (km_cfg s)) * unat (policy_stride s) + unat j)
        = km_policies s ! (unat (kc_generation (km_cfg s)) * unat (policy_stride s) + unat j)"
      by (rule same_half [OF _ g(1) gs]) (use st g j in \<open>simp_all add: staged_def word_less_nat_alt\<close>)
    then show "block_at t j = block_at s j"
      using half_index [OF ok(1) gs j] inst_same_strides [OF i(1)] i(2) by (simp add: block_at_def)
  qed
  let ?T = "unat (static_stride s)" and ?g = "kc_generation (km_cfg s)"
  have T: "length (km_statics t) = length (km_statics s)" "unat (kc_static_count (km_cfg s)) \<le> ?T"
    using ok(2) i(1) by (simp_all add: policy_ready_def inst_same_def word_le_nat_alt)
  have c: "kc_static_stride (km_cfg s) = static_stride s" "kc_static_stride (km_cfg t) = static_stride s"
      "kc_static_count (km_cfg t) = kc_static_count (km_cfg s)"
    using ok(2) i(1) st by (simp_all add: policy_ready_def inst_same_def staged_def)
  have base: "unat (?g * static_stride s) = unat ?g * ?T"
    using word_lt_2 [of ?g] gs by (auto simp: generations_def)
  have "km_statics t ! (unat ?g * ?T + j) = km_statics s ! (unat ?g * ?T + j)" if "j < ?T" for j
    by (rule same_half [OF _ g(1) gs _ that]) (use st g in \<open>simp_all add: staged_def\<close>)
  then show "live_statics t = live_statics s"
    unfolding live_statics_def Let_def c i(2) base using T by (intro slots_eq) simp_all
qed

section \<open>The phases before the flip\<close>

definition profile_slots :: "compiled_policy \<Rightarrow> (string, 32 word) table \<Rightarrow> kprofile list \<Rightarrow> kprofile list" where
  "profile_slots c old ps = fill (unat \<circ> snd) (\<lambda>_. profile_encode profile_none) (filter (\<lambda>(n, i). tget (cp_profiles c) n = None) old)
     (fill (unat \<circ> fst) (profile_encode \<circ> snd) (cp_specs c) ps)"

lemma keeps_band_trans: "keeps_band a b \<Longrightarrow> keeps_band b c \<Longrightarrow> keeps_band a c"
  by (simp add: keeps_band_def)

lemma staged_upd:
  "staged gen s u \<Longrightarrow> staged gen s (u \<lparr> km_calls := n \<rparr>)"
  "staged gen s u \<Longrightarrow> staged gen s (u \<lparr> km_calls := n, km_rule_stats := r \<rparr>)"
  "staged gen s u \<Longrightarrow> staged gen s (u \<lparr> mg_shadowed := x \<rparr>)"
  "staged gen s u \<Longrightarrow> keeps_band (km_profiles u) ps \<Longrightarrow> staged gen s (u \<lparr> km_calls := n, km_profiles := ps \<rparr>)"
  "staged gen s u \<Longrightarrow> named_ids t taken \<Longrightarrow> staged gen s (u \<lparr> mg_profiles := t \<rparr>)"
  "staged gen s u \<Longrightarrow> trie_ok tr \<Longrightarrow> staged gen s (set_trie b tr (u \<lparr> km_calls := n \<rparr>))"
  by (auto simp: staged_def inst_same_def set_trie_def intro: keeps_band_trans)

lemma staged_ids: "staged gen s u \<Longrightarrow> \<exists>taken. named_ids (mg_profiles u) taken"
  by (simp add: staged_def inst_same_def)

lemma named_band: "named_ids t taken \<Longrightarrow> \<forall>(n, i) \<in> set t. i < dynamic_profile_base"
  by (auto simp: named_ids_def tget_keys)

lemma write_profiles_wp:
  assumes st: "staged gen s u" and new: "named_ids (cp_profiles c) taken"
    and band: "\<forall>(i, x) \<in> set (cp_specs c). i < dynamic_profile_base"
    and Q: "\<And>t. staged gen s t \<Longrightarrow> km_profiles t = profile_slots c (mg_profiles u) (km_profiles u) \<Longrightarrow>
       mg_profiles t = cp_profiles c \<Longrightarrow> Q () t"
    and E: "\<And>t e. staged gen s t \<Longrightarrow> E e t"
  shows "kwp (write_profiles c) Q E u"
  unfolding write_profiles_def wp_simps
proof (rule kwp_put_profiles [OF band])
  fix n ps e assume "keeps_band (km_profiles u) ps"
  then show "E e (u \<lparr> km_calls := n, km_profiles := ps \<rparr>)" using E staged_upd(4) [OF st] by blast
next
  fix n
  let ?ps = "fill (unat \<circ> fst) (profile_encode \<circ> snd) (cp_specs c) (km_profiles u)"
  let ?u = "u \<lparr> km_calls := n, km_profiles := ?ps \<rparr>"
  assume k: "keeps_band (km_profiles u) ?ps"
  have st1: "staged gen s ?u" by (rule staged_upd(4) [OF st k])
  obtain tk where "named_ids (mg_profiles ?u) tk" using staged_ids [OF st1] by blast
  note old = named_band [OF this]
  show "kwp (retire_profiles (mg_profiles ?u) (cp_profiles c)) (\<lambda>_ t. Q () (t \<lparr> mg_profiles := cp_profiles c \<rparr>)) E ?u"
  proof (rule kwp_retire_profiles [OF old])
    fix m ps e assume "keeps_band (km_profiles ?u) ps"
    then show "E e (?u \<lparr> km_calls := m, km_profiles := ps \<rparr>)" using E staged_upd(4) [OF st1] by blast
  next
    fix m
    let ?qs = "fill (unat \<circ> snd) (\<lambda>_. profile_encode profile_none) (filter (\<lambda>(n, i). tget (cp_profiles c) n = None) (mg_profiles ?u)) (km_profiles ?u)"
    assume "keeps_band (km_profiles ?u) ?qs"
    then have "staged gen s (?u \<lparr> km_calls := m, km_profiles := ?qs, mg_profiles := cp_profiles c \<rparr>)"
      using staged_upd(5) [OF staged_upd(4) [OF st1] new] by blast
    then show "Q () (?u \<lparr> km_calls := m, km_profiles := ?qs, mg_profiles := cp_profiles c \<rparr>)"
      by (rule Q) (simp_all add: profile_slots_def)
  qed
qed

lemma off_half_fill:
  "(\<And>x. x \<in> set xs \<Longrightarrow> g * n \<le> ix x \<and> ix x < g * n + n) \<Longrightarrow> off_half g n old l \<Longrightarrow> off_half g n old (fill ix val xs l)"
  unfolding off_half_def
proof (intro allI impI)
  fix j assume a: "\<And>x. x \<in> set xs \<Longrightarrow> g * n \<le> ix x \<and> ix x < g * n + n"
    and l: "\<forall>j. j < g * n \<or> g * n + n \<le> j \<longrightarrow> l ! j = old ! j" and j: "j < g * n \<or> g * n + n \<le> j"
  have "j \<notin> ix ` set xs" using a j by (metis imageE leD)
  then show "fill ix val xs l ! j = old ! j" using fill_other l j by metis
qed

lemma static_index:
  assumes "g < generations" "i < unat st" "2 * unat st < 2 ^ 32"
  shows "unat (g * st + word_of_nat i) = unat g * unat st + i"
proof -
  have i: "unat (word_of_nat i :: 32 word) = i" using assms(2,3) by (simp add: unat_of_nat)
  then have "word_of_nat i < st" using assms(2) by (simp add: word_less_nat_alt)
  then show ?thesis using unat_slot [OF assms(1) _ assms(3)] i by simp
qed

lemma static_slots_half:
  assumes "g < generations" "2 * unat st < 2 ^ 32" "x \<in> set (static_slots g st rs)"
  shows "unat g * unat st \<le> (unat \<circ> fst) x \<and> (unat \<circ> fst) x < unat g * unat st + unat st"
  using assms static_index [OF assms(1) _ assms(2)] by (auto simp: static_slots_def)

text \<open>The half holds the rules, then empty slots.\<close>

lemma static_slots_filled:
  assumes g: "g < generations" and st: "2 * unat st < 2 ^ 32" "length l = 2 * unat st" and i: "i < unat st"
  shows "fill (unat \<circ> fst) snd (static_slots g st rs) l ! (unat g * unat st + i) = (if i < length rs then rs ! i else krule_zero)"
proof -
  let ?x = "(g * st + word_of_nat i, if i < length rs then rs ! i else krule_zero)"
  have ix: "(unat \<circ> fst) ?x = unat g * unat st + i" using static_index [OF g i st(1)] by simp
  have "unat g \<le> 1" using g by (simp add: generations_def word_less_nat_alt)
  then have "unat g * unat st \<le> 1 * unat st" by (rule mult_le_mono1)
  then have "(unat \<circ> fst) ?x < length l" unfolding ix using i st(2) by linarith
  moreover have "?x \<in> set (static_slots g st rs)" using i by (auto simp: static_slots_def)
  moreover have "\<forall>y \<in> set (static_slots g st rs). (unat \<circ> fst) y = (unat \<circ> fst) ?x \<longrightarrow> snd y = snd ?x"
    using static_index [OF g _ st(1)] ix i by (auto simp: static_slots_def)
  ultimately have "fill (unat \<circ> fst) snd (static_slots g st rs) l ! (unat \<circ> fst) ?x = snd ?x" by (intro fill_same)
  then show ?thesis using ix by simp
qed

lemma staged_statics:
  assumes st: "staged gen s u" and rd: "policy_ready s" and g: "gen < generations"
    and xs: "set xs \<subseteq> set (static_slots gen (static_stride u) rs)"
  shows "staged gen s (u \<lparr> km_calls := n, km_statics := fill (unat \<circ> fst) snd xs (km_statics u) \<rparr>)"
proof -
  have t: "static_stride u = static_stride s" using st inst_same_strides by (auto simp: staged_def)
  have "2 * unat (static_stride s) < 2 ^ 32" using rd by (simp add: policy_ready_def)
  then have "off_half (unat gen) (unat (static_stride s)) (km_statics s) (fill (unat \<circ> fst) snd xs (km_statics u))"
    using static_slots_half [OF g] xs st unfolding t by (intro off_half_fill) (auto simp: staged_def)
  then show ?thesis using st by (simp add: staged_def inst_same_def)
qed

lemma put_statics_wp:
  assumes st: "staged gen s u" and rd: "policy_ready s" and g: "gen < generations"
    and Q: "\<And>t. staged gen s t \<Longrightarrow> km_profiles t = km_profiles u \<Longrightarrow> mg_profiles t = mg_profiles u \<Longrightarrow>
       length rs \<le> unat (static_stride s) \<or> 2 ^ 32 \<le> length rs \<Longrightarrow>
       km_statics t = fill (unat \<circ> fst) snd (static_slots gen (static_stride s) rs) (km_statics u) \<Longrightarrow> Q (word_of_nat (length rs)) t"
    and E: "\<And>t e. staged gen s t \<Longrightarrow> E e t"
  shows "kwp (put_statics gen rs) Q E u"
proof -
  have t: "static_stride u = static_stride s" using st inst_same_strides by (auto simp: staged_def)
  show ?thesis
  proof (rule kwp_put_statics [OF g])
    fix n assume "length rs \<le> unat (static_stride u) \<or> 2 ^ 32 \<le> length rs"
    then show "Q (word_of_nat (length rs)) (u \<lparr> km_calls := n, km_statics := fill (unat \<circ> fst) snd (static_slots gen (static_stride u) rs) (km_statics u) \<rparr>)"
      by (intro Q staged_statics [OF st rd g, where rs = rs]) (simp_all add: t)
  next
    fix n k e
    have "set (take k (static_slots gen (static_stride u) rs)) \<subseteq> set (static_slots gen (static_stride u) rs)" by (rule set_take_subset)
    then show "E e (u \<lparr> km_calls := n, km_statics := fill (unat \<circ> fst) snd (take k (static_slots gen (static_stride u) rs)) (km_statics u) \<rparr>)"
      by (intro E staged_statics [OF st rd g])
  qed (use E st in blast)
qed

section \<open>The flip\<close>

text \<open>After the flip: the new half is in use, with the blocks of the old one.\<close>

definition published :: "32 word \<Rightarrow> 32 word \<Rightarrow> 'm plane_scheme \<Rightarrow> 'm plane_scheme \<Rightarrow> bool" where
  "published gen count s t \<longleftrightarrow> inst_same s t \<and> kc_generation (km_cfg t) = gen \<and> kc_static_count (km_cfg t) = count
     \<and> (\<forall>j < unat (policy_stride s). km_policies t ! (unat gen * unat (policy_stride s) + j)
          = km_policies s ! (unat (kc_generation (km_cfg s)) * unat (policy_stride s) + j))"

definition policy_fields :: "'m plane_scheme \<Rightarrow> 'm plane_scheme \<Rightarrow> bool" where
  "policy_fields u t \<longleftrightarrow> km_statics t = km_statics u \<and> km_allow t = km_allow u \<and> km_protect t = km_protect u
     \<and> km_profiles t = km_profiles u \<and> mg_profiles t = mg_profiles u \<and> mg_shadowed t = mg_shadowed u"

lemma published_keeps:
  assumes ok: "plane_ok s" "policy_ready s" and p: "published gen count s t" and g: "gen < generations" "count \<le> static_stride s"
  shows "dynamic_kept s t"
proof -
  have gs: "kc_generation (km_cfg s) < generations" using ok(1) by (simp add: generation_ok)
  have i: "inst_same s t" "kc_generation (km_cfg t) = gen" using p by (simp_all add: published_def)
  have c: "kc_static_count (km_cfg t) \<le> static_stride s" using p g(2) by (simp add: published_def)
  have gt: "kc_generation (km_cfg t) < generations" using g(1) i(2) by simp
  show ?thesis
  proof (rule dynamic_kept_from [OF ok i(1) gt c])
    fix j assume j: "j < policy_stride s"
    then have "unat j < unat (policy_stride s)" by (simp add: word_less_nat_alt)
    then show "block_at t j = block_at s j"
      using half_index [OF ok(1) gs j] half_index [OF ok(1) g(1) j] inst_same_strides [OF i(1)] p
      by (simp add: block_at_def published_def)
  qed
qed

lemma mirrored_off_half:
  "mirrored frm (g * n) k old new \<Longrightarrow> k \<le> n \<Longrightarrow> off_half g n orig old \<Longrightarrow> off_half g n orig new"
  by (auto simp: mirrored_def off_half_def)

lemma publish_wp:
  assumes ok: "plane_ok s" "policy_ready s" and st: "staged gen s u"
    and g: "gen < generations" "gen \<noteq> kc_generation (km_cfg s)"
    and Q: "\<And>t. published gen count s t \<Longrightarrow> policy_fields u t \<Longrightarrow> count \<le> static_stride s \<Longrightarrow> Q () t"
    and E: "\<And>t e. staged gen s t \<Longrightarrow> E e t"
  shows "kwp (publish gen count) Q E u"
  unfolding publish_def wp_simps
proof (rule kwp_read_config)
  show "E Syscall (u \<lparr> km_calls := n \<rparr>)" for n by (rule E [OF staged_upd(1) [OF st]])
next
  fix n
  let ?u = "u \<lparr> km_calls := n \<rparr>" and ?g = "kc_generation (km_cfg s)" and ?S = "unat (policy_stride s)"
  have gs: "?g < generations" using ok(1) by (simp add: generation_ok)
  have i: "inst_same s u" "kc_generation (km_cfg u) = ?g" using st by (simp_all add: staged_def)
  have ps: "policy_stride ?u = policy_stride s" using inst_same_strides [OF i(1)] by simp
  have z: "ms_policy_stride (mg_sizing ?u) = policy_stride ?u" using ok(2) i(1) ps by (simp add: policy_ready_def inst_same_def)
  have su: "sized ?u" using ok(1) i ps gs by (simp add: plane_ok_def pol_ok_def sized_def inst_same_def)
  have half: "km_policies u ! (unat ?g * ?S + j) = km_policies s ! (unat ?g * ?S + j)" if "j < ?S" for j
    by (rule same_half [OF _ g(1) gs _ that]) (use st g in \<open>simp_all add: staged_def\<close>)
  have copied: "off_half (unat gen) ?S (km_policies s) pols \<and> length pols = length (km_policies u)"
    if "mirrored (unat ?g * unat (policy_stride ?u)) (unat gen * unat (policy_stride ?u)) k (km_policies ?u) pols"
      "k \<le> unat (policy_stride ?u)" for k pols
  proof -
    have "off_half (unat gen) ?S (km_policies s) (km_policies ?u)" using st by (simp add: staged_def)
    then show ?thesis
      using mirrored_off_half [OF that(1) [unfolded ps] that(2) [unfolded ps]] that(1) by (simp add: mirrored_def)
  qed
  show "kwp (mirror_blocks (kc_generation (km_cfg u)) gen (ms_policy_stride (mg_sizing ?u))) (\<lambda>_. kwp (activate gen count) Q E) E ?u"
    unfolding z i(2)
  proof (rule mirror_blocks_wp [OF su gs g(1)])
    show "?g \<noteq> gen" using g(2) by simp
  next
    fix m k pols e
    assume "mirrored (unat ?g * unat (policy_stride ?u)) (unat gen * unat (policy_stride ?u)) k (km_policies ?u) pols" "k \<le> unat (policy_stride ?u)"
    then have "off_half (unat gen) ?S (km_policies s) pols" "length pols = length (km_policies u)"
      using copied by blast+
    then have "staged gen s (?u \<lparr> km_calls := m, km_policies := pols \<rparr>)" using st by (simp add: staged_def inst_same_def)
    then show "E e (?u \<lparr> km_calls := m, km_policies := pols \<rparr>)" by (rule E)
  next
    fix m pols
    assume m: "mirrored (unat ?g * unat (policy_stride ?u)) (unat gen * unat (policy_stride ?u)) (unat (policy_stride ?u)) (km_policies ?u) pols"
    then have o1: "off_half (unat gen) ?S (km_policies s) pols" "length pols = length (km_policies u)"
      using copied by blast+
    let ?v = "?u \<lparr> km_calls := m, km_policies := pols \<rparr>"
    have sv: "staged gen s ?v" using o1 st by (simp add: staged_def inst_same_def)
    show "kwp (activate gen count) Q E ?v"
    proof (rule activate_wp [OF g(1)])
      show "E e (?v \<lparr> km_calls := l \<rparr>)" for l e by (rule E [OF staged_upd(1) [OF sv]])
    next
      fix l assume c: "count \<le> kc_static_stride (km_cfg ?v)"
      let ?t = "?v \<lparr> km_calls := l, km_cfg := (km_cfg ?v) \<lparr> kc_generation := gen, kc_static_count := count \<rparr> \<rparr>"
      have "pols ! (unat gen * ?S + j) = km_policies s ! (unat ?g * ?S + j)" if "j < ?S" for j
        using m half [OF that] that ps by (simp add: mirrored_def)
      then have "published gen count s ?t" using sv by (simp add: published_def staged_def inst_same_def)
      moreover have "count \<le> static_stride s" using c ok(2) i(1) by (simp add: policy_ready_def inst_same_def)
      ultimately show "Q () ?t" by (intro Q) (simp_all add: policy_fields_def)
    qed
  qed
qed

section \<open>A whole policy\<close>

lemma compile_policy_facts:
  assumes c: "compile_policy pol z prev = Inr c" and prev: "named_ids prev tk"
  obtains taken ks where "named_ids (cp_profiles c) taken" "cp_specs c = profile_specs (cp_profiles c) (rev (spo_profiles pol))"
    "\<forall>p \<in> set (spo_profiles pol). tget (cp_profiles c) (nr_name p) \<noteq> None"
    "compile_rules (cp_profiles c) 0 (spo_statics pol) = Inr ks" "cp_rules c = map fst ks"
    "\<not> ms_static_stride z < word_of_nat (length (cp_rules c))"
proof -
  obtain kept taken where k: "keep_ids prev (spo_profiles pol) [] [] = (kept, taken)" by fastforce
  obtain ks where f: "fill_ids (spo_profiles pol) kept taken 0 = Inr (cp_profiles c)"
      "compile_rules (cp_profiles c) 0 (spo_statics pol) = Inr ks" "cp_rules c = map fst ks"
      "cp_specs c = profile_specs (cp_profiles c) (rev (spo_profiles pol))" "\<not> ms_static_stride z < word_of_nat (length ks)"
    using c k by (auto simp: compile_policy_def split: sum.splits if_splits)
  have band: "\<forall>n i. tget prev n = Some i \<longrightarrow> i < dynamic_profile_base" using prev by (simp add: named_ids_def)
  have "named_ids [] []" by (simp add: named_ids_def tget_def table_ok_def)
  then have n: "named_ids kept taken" using keep_ids_named [OF band] k by blast
  have t: "taken_ok taken" using keep_ids_taken [OF band _ k] by (simp add: taken_ok_def)
  obtain tk' where "named_ids (cp_profiles c) tk'" using fill_ids_named [OF n t f(1)] by blast
  then show thesis using that [of tk' ks] f fill_ids_total [OF f(1)] by auto
qed

lemma specs_band:
  assumes "named_ids pof taken" "\<forall>p \<in> set ps. tget pof (nr_name p) \<noteq> None"
  shows "\<forall>(i, x) \<in> set (profile_specs pof ps). i < dynamic_profile_base"
proof -
  have "i < dynamic_profile_base" if "i \<in> fst ` set (profile_specs pof ps)" for i
    using that assms unfolding profile_specs_keys by (auto simp: named_ids_def)
  then show ?thesis by force
qed

definition written :: "static_policy \<Rightarrow> 32 word \<Rightarrow> compiled_policy \<Rightarrow> 'm plane_scheme \<Rightarrow> 'm plane_scheme \<Rightarrow> bool" where
  "written pol gen c s t \<longleftrightarrow> (\<forall>i < unat (static_stride s). km_statics t ! (unat gen * unat (static_stride s) + i)
          = (if i < length (cp_rules c) then cp_rules c ! i else krule_zero))
     \<and> (length (cp_rules c) \<le> unat (static_stride s) \<or> 2 ^ 32 \<le> length (cp_rules c))
     \<and> fst ` set (km_allow t) = set (spo_allow pol) \<and> fst ` set (km_protect t) = set (spo_protected pol)
     \<and> km_profiles t = profile_slots c (mg_profiles s) (km_profiles s) \<and> mg_profiles t = cp_profiles c
     \<and> mg_shadowed t = shadowed_statics pol"

definition carries :: "static_policy \<Rightarrow> 32 word \<Rightarrow> compiled_policy \<Rightarrow> 'm plane_scheme \<Rightarrow> 'm plane_scheme \<Rightarrow> bool" where
  "carries pol gen c s t \<longleftrightarrow> published gen (word_of_nat (length (cp_rules c))) s t
     \<and> word_of_nat (length (cp_rules c)) \<le> static_stride s \<and> written pol gen c s t"

lemma written_same: "policy_fields u t \<Longrightarrow> written pol gen c s t = written pol gen c s u"
  by (simp add: written_def policy_fields_def)

definition policy_canonical :: "static_policy \<Rightarrow> bool" where
  "policy_canonical pol \<longleftrightarrow> (\<forall>p \<in> set (spo_allow pol). canonical p) \<and> (\<forall>p \<in> set (spo_protected pol). canonical p)"

lemma install_policy_wp:
  assumes ok: "plane_ok s" "policy_ready s" and st: "staged gen s u" "km_profiles u = km_profiles s" "mg_profiles u = mg_profiles s"
    and g: "gen < generations" "gen \<noteq> kc_generation (km_cfg s)" and wf: "policy_canonical pol"
    and Q: "\<And>t c rep. compile_policy pol (mg_sizing s) (mg_profiles s) = Inr c \<Longrightarrow> carries pol gen c s t \<Longrightarrow> Q rep t"
    and E: "\<And>t e. staged gen s t \<Longrightarrow> E e t"
  shows "kwp (install_policy pol gen) Q E u"
proof (cases "compile_policy pol (mg_sizing s) (mg_profiles s)")
  case (Inl e)
  moreover have "mg_sizing u = mg_sizing s" using st(1) by (simp add: staged_def inst_same_def)
  ultimately show ?thesis using st E by (simp add: install_policy_def wp_simps)
next
  case (Inr c)
  obtain tk where prev: "named_ids (mg_profiles s) tk" using ok(2) by (auto simp: policy_ready_def)
  obtain taken ks where c: "named_ids (cp_profiles c) taken" "cp_specs c = profile_specs (cp_profiles c) (rev (spo_profiles pol))"
    "\<forall>p \<in> set (spo_profiles pol). tget (cp_profiles c) (nr_name p) \<noteq> None"
    using compile_policy_facts [OF Inr prev] by blast
  have band: "\<forall>(i, x) \<in> set (cp_specs c). i < dynamic_profile_base"
    unfolding c(2) by (rule specs_band [OF c(1)]) (use c(3) in simp)
  let ?count = "word_of_nat (length (cp_rules c)) :: 32 word"
  have fin: "kwp (count_if_grown added) (\<lambda>dyn. kwp (publish gen ?count) (\<lambda>_. Q (rep dyn)) E) E v"
    if v: "staged gen s v" "written pol gen c s v" for rep added v
  proof -
    have pub: "kwp (publish gen ?count) (\<lambda>_. Q (rep k)) E v'" if v': "staged gen s v'" "policy_fields v v'" for k v'
    proof (rule publish_wp [OF ok v'(1) g])
      fix t assume t: "published gen ?count s t" "policy_fields v' t" "?count \<le> static_stride s"
      then have "written pol gen c s t" using written_same v' v by blast
      then show "Q (rep k) t" using Q [OF Inr] t by (simp add: carries_def)
    qed (rule E)
    show ?thesis
    proof (rule count_if_grown_wp)
      show "kwp (publish gen ?count) (\<lambda>_. Q (rep k)) E (v \<lparr> km_calls := n \<rparr>)" for n k
        by (rule pub [OF staged_upd(1) [OF v(1)]]) (simp add: policy_fields_def)
      show "kwp (publish gen ?count) (\<lambda>_. Q (rep k)) E v" for k
        by (rule pub [OF v(1)]) (simp add: policy_fields_def)
      show "E e (v \<lparr> km_calls := n \<rparr>)" for n e by (rule E [OF staged_upd(1) [OF v(1)]])
    qed
  qed
  have trie: "trie_ok (trie b v)" if "staged gen s v" for b v
    using that by (simp add: trie_def staged_def inst_same_def)
  have T: "2 * unat (static_stride s) < 2 ^ 32" "length (km_statics s) = 2 * unat (static_stride s)"
    using ok(2) by (simp_all add: policy_ready_def)
  have "mg_sizing u = mg_sizing s" using st(1) by (simp add: staged_def inst_same_def)
  then have "kwp (install_policy pol gen) Q E u = kwp (write_profiles c) (\<lambda>_. kwp (put_statics gen (cp_rules c)) (\<lambda>count.
     kwp (ensure_rule_stats (cp_ids c)) (\<lambda>_. kwp (reconcile_trie True (spo_allow pol)) (\<lambda>x. kwp (reconcile_trie False (spo_protected pol)) (\<lambda>_ v.
     kwp (count_if_grown (fst x)) (\<lambda>dyn. kwp (publish gen count) (\<lambda>_. Q \<lparr> rr_generation = gen, rr_statics = count,
       rr_shadowed = shadowed_statics pol, rr_shadowed_dynamic = dyn \<rparr>) E) E (v \<lparr> mg_shadowed := shadowed_statics pol \<rparr>)) E) E) E) E) E u"
    by (simp add: install_policy_def wp_simps st(3) Inr case_prod_beta)
  also have \<dots>
  proof (rule write_profiles_wp [OF st(1) c(1) band], goal_cases)
    case (1 t)
    note p = 1
    show ?case
    proof (rule put_statics_wp [OF p(1) ok(2) g(1)], goal_cases)
      case (1 t2)
      note q = 1
      have len: "length (km_statics t) = 2 * unat (static_stride s)" using p(1) T by (simp add: staged_def inst_same_def)
      have slots: "\<forall>i < unat (static_stride s). km_statics t2 ! (unat gen * unat (static_stride s) + i)
          = (if i < length (cp_rules c) then cp_rules c ! i else krule_zero)"
        using static_slots_filled [OF g(1) T(1) len] unfolding q(5) by blast
      show ?case
      proof (rule kwp_ensure_rule_stats, goal_cases)
        case (1 n)
        let ?r = "fold (\<lambda>i. tput i (0, 0)) (cp_ids c) (km_rule_stats t2)"
        let ?t3 = "t2 \<lparr> km_calls := n, km_rule_stats := ?r \<rparr>"
        have s3: "staged gen s ?t3" by (rule staged_upd(2) [OF q(1)])
        show ?case
        proof (rule reconcile_wp [OF trie [OF s3]], goal_cases)
          case (2 m al a r)
          let ?t4 = "set_trie True al (?t3 \<lparr> km_calls := m \<rparr>)"
          have s4: "staged gen s ?t4" by (rule staged_upd(6) [OF s3 2(1)])
          show ?case
          proof (rule reconcile_wp [OF trie [OF s4]], goal_cases)
            case (2 l pr b x)
            let ?t5 = "set_trie False pr (?t4 \<lparr> km_calls := l \<rparr>)"
            have s5: "staged gen s (?t5 \<lparr> mg_shadowed := shadowed_statics pol \<rparr>)"
              by (rule staged_upd(3) [OF staged_upd(6) [OF s4 2(1)]])
            have "written pol gen c s (?t5 \<lparr> mg_shadowed := shadowed_statics pol \<rparr>)"
              using slots q p st(2,3) 2(2) \<open>fst ` set al = set (spo_allow pol)\<close> by (simp add: written_def set_trie_def)
            then show ?case using fin [OF s5] by simp
          qed (use wf staged_upd(6) [OF s4] E in \<open>auto simp: policy_canonical_def\<close>)
        qed (use wf staged_upd(6) [OF s3] E in \<open>auto simp: policy_canonical_def\<close>)
      next
        case (2 n r)
        show ?case by (rule E [OF staged_upd(2) [OF q(1)]])
      qed
    qed (rule E)
  qed (rule E)
  finally show ?thesis .
qed

section \<open>Reload\<close>

definition operator_same :: "'m plane_scheme \<Rightarrow> 'm plane_scheme \<Rightarrow> bool" where
  "operator_same s u \<longleftrightarrow> (\<forall>gen. staged gen s u) \<and> km_profiles u = km_profiles s \<and> mg_profiles u = mg_profiles s"

lemma operator_same_calls: "operator_same s u \<Longrightarrow> operator_same s (u \<lparr> km_calls := n \<rparr>)"
  by (simp add: operator_same_def staged_upd)

lemma put_flags_wp:
  assumes u: "operator_same s u" and Q: "\<And>t. operator_same s t \<Longrightarrow> Q () t" and E: "\<And>t e. operator_same s t \<Longrightarrow> E e t"
  shows "kwp (put_flags f) Q E u"
  unfolding put_flags_def wp_simps
proof (rule kwp_read_config)
  fix n
  show "kwp (put_config (set_fp_config f ((km_cfg u) \<lparr> kc_dry_run := df_dry_run f, kc_drop_malformed := df_drop_malformed f \<rparr>))) Q E (u \<lparr> km_calls := n \<rparr>)"
    unfolding put_config_def
  proof (rule kwp_write)
    fix m
    show "Q () (u \<lparr> km_calls := n \<rparr> \<lparr> km_calls := m \<rparr> \<lparr> km_cfg := set_fp_config f ((km_cfg u) \<lparr> kc_dry_run := df_dry_run f, kc_drop_malformed := df_drop_malformed f \<rparr>) \<rparr>)"
      by (rule Q) (use u in \<open>auto simp: operator_same_def staged_def inst_same_def set_fp_config_def\<close>)
    show "E Syscall (u \<lparr> km_calls := n \<rparr> \<lparr> km_calls := m \<rparr>)" by (rule E) (intro operator_same_calls u)
  qed
qed (intro E operator_same_calls u)

lemma other_half: "g < generations \<Longrightarrow> (g + 1) mod generations < generations \<and> (g + 1) mod generations \<noteq> g"
  using word_lt_2 [of g] by (auto simp: generations_def)

lemma carries_opts: "carries pol gen c s (t \<lparr> mg_opts := x \<rparr>) = carries pol gen c s t"
  by (simp add: carries_def published_def inst_same_def written_def)

lemma reload_wp:
  assumes ok: "plane_ok s" "policy_ready s" and wf: "policy_canonical (po_policy nxt)"
    and Q: "\<And>t c rep gen. compile_policy (po_policy nxt) (mg_sizing s) (mg_profiles s) = Inr c \<Longrightarrow> gen < generations \<Longrightarrow>
       carries (po_policy nxt) gen c s t \<Longrightarrow> Q rep t"
    and E: "\<And>t e gen. staged gen s t \<Longrightarrow> gen < generations \<Longrightarrow> gen \<noteq> kc_generation (km_cfg s) \<Longrightarrow> E e t"
  shows "kwp (reload nxt) Q E s"
proof -
  let ?gen = "(kc_generation (km_cfg s) + 1) mod generations"
  have g: "?gen < generations" "?gen \<noteq> kc_generation (km_cfg s)"
    using other_half generation_ok [OF ok(1)] by blast+
  have Es: "E e t" if "operator_same s t" for e t
    using that g E by (simp add: operator_same_def)
  have same: "operator_same s s" using staged_refl [OF ok(2)] by (simp add: operator_same_def)
  have inst: "kwp (install_policy (po_policy nxt) ?gen) (\<lambda>rep t. Q rep (t \<lparr> mg_opts := nxt \<rparr>)) E u" if u: "operator_same s u" for u
  proof (rule install_policy_wp [OF ok _ _ _ g wf])
    fix t c rep assume "compile_policy (po_policy nxt) (mg_sizing s) (mg_profiles s) = Inr c" "carries (po_policy nxt) ?gen c s t"
    then show "Q rep (t \<lparr> mg_opts := nxt \<rparr>)"
      by (intro Q [OF _ g(1)]) (simp_all add: carries_opts)
  qed (use u g E in \<open>simp_all add: operator_same_def\<close>)
  have flip: "kwp inactive_generation (\<lambda>gen. kwp (install_policy (po_policy nxt) gen) (\<lambda>rep t. Q rep (t \<lparr> mg_opts := nxt \<rparr>)) E) E u"
    if u: "operator_same s u" for u
    unfolding inactive_generation_def wp_simps
  proof (rule kwp_read_config)
    have "kc_generation (km_cfg u) = kc_generation (km_cfg s)" using u by (simp add: operator_same_def staged_def)
    then show "kwp (install_policy (po_policy nxt) ((kc_generation (km_cfg u) + 1) mod generations)) (\<lambda>rep t. Q rep (t \<lparr> mg_opts := nxt \<rparr>)) E (u \<lparr> km_calls := n \<rparr>)" for n
      using inst [OF operator_same_calls [OF u]] by simp
  qed (intro Es operator_same_calls u)
  have flags: "kwp (put_flags f) (\<lambda>_. kwp inactive_generation (\<lambda>gen. kwp (install_policy (po_policy nxt) gen)
      (\<lambda>rep t. Q rep (t \<lparr> mg_opts := nxt \<rparr>)) E) E) E s" for f
    by (rule put_flags_wp [OF same]) (use flip Es in blast)+
  show ?thesis
    using flip [OF same] flags Es [OF same] by (simp add: reload_def wp_simps)
qed

section \<open>Reading the result\<close>

lemma carries_live:
  assumes rd: "policy_ready s" and c: "carries pol gen c s t" and g: "gen < generations" and n: "length (cp_rules c) < 2 ^ 32"
  shows "live_statics t = take max_static_rules (cp_rules c)"
proof -
  let ?T = "unat (static_stride s)" and ?rs = "cp_rules c"
  have le: "length ?rs \<le> ?T" using c n by (simp add: carries_def written_def)
  have i: "kc_static_stride (km_cfg t) = static_stride s" "length (km_statics t) = 2 * ?T" "kc_generation (km_cfg t) = gen"
      "kc_static_count (km_cfg t) = word_of_nat (length ?rs)"
    using rd c by (simp_all add: carries_def published_def inst_same_def policy_ready_def)
  have count: "unat (kc_static_count (km_cfg t)) = length ?rs" unfolding i(4) using n by (simp add: unat_of_nat)
  have base: "unat (gen * static_stride s) = unat gen * ?T"
    using word_lt_2 [of gen] g by (auto simp: generations_def)
  have "unat gen \<le> 1" using g by (simp add: generations_def word_less_nat_alt)
  then have b: "unat gen * ?T \<le> ?T" using mult_le_mono1 [of "unat gen" 1 ?T] by simp
  have room: "length ?rs \<le> 2 * ?T - unat gen * ?T" using b le by linarith
  have "take (min max_static_rules (length ?rs)) (drop (unat gen * ?T) (km_statics t)) = take max_static_rules ?rs"
  proof (rule nth_equalityI)
    show "length (take (min max_static_rules (length ?rs)) (drop (unat gen * ?T) (km_statics t))) = length (take max_static_rules ?rs)"
      using room by (simp add: i(2) min_def)
  next
    fix j assume "j < length (take (min max_static_rules (length ?rs)) (drop (unat gen * ?T) (km_statics t)))"
    then have "j < max_static_rules" "j < length ?rs" by simp_all
    moreover have "unat gen * ?T \<le> length (km_statics t)" using b i(2) by linarith
    moreover have "km_statics t ! (unat gen * ?T + j) = ?rs ! j"
      using c le calculation(2) by (simp add: carries_def written_def)
    ultimately show "take (min max_static_rules (length ?rs)) (drop (unat gen * ?T) (km_statics t)) ! j = take max_static_rules ?rs ! j"
      by (simp add: nth_drop)
  qed
  then show ?thesis unfolding live_statics_def Let_def i(1,3) count base by simp
qed

lemma carries_keeps: "plane_ok s \<Longrightarrow> policy_ready s \<Longrightarrow> carries pol gen c s t \<Longrightarrow> gen < generations \<Longrightarrow> dynamic_kept s t"
  unfolding carries_def using published_keeps by blast

lemma trie_holds_iff: "trie_holds t a \<longleftrightarrow> (\<exists>p \<in> fst ` set t. contains p a)"
  by (force simp: trie_holds_def list_ex_iff)

lemma slot_addr_of: "addr_valid a \<Longrightarrow> \<not> has_zone a \<Longrightarrow> slot_addr (is6 a) (addr_slot a) = a"
  by (cases a) (simp_all add: slot_addr_def slot_v4)

lemma kernel_packet_addrs:
  "pkt_wf pk \<Longrightarrow> slot_addr (kp_v6 (kernel_packet pk)) (kp_src (kernel_packet pk)) = pk_src pk
     \<and> slot_addr (kp_v6 (kernel_packet pk)) (kp_dst (kernel_packet pk)) = pk_dst pk"
  using slot_addr_of [of "pk_src pk"] slot_addr_of [of "pk_dst pk"] by (simp add: pkt_wf_def kernel_packet_def)

text \<open>The slot of a declared profile after a reload.\<close>

lemma profile_slot:
  assumes c: "compile_policy pol z old = Inr c" and old: "named_ids old tk" and d: "distinct (map nr_name (spo_profiles pol))"
    and len: "length ps = 256" and p: "p \<in> set (spo_profiles pol)" "tget (cp_profiles c) (nr_name p) = Some i"
  shows "profile_slots c old ps ! unat i = profile_encode (if \<exists>n. tget old n = Some i \<and> tget (cp_profiles c) n = None
      then profile_none else profile_from_config (nr_pps p) (nr_mbps p))"
proof -
  obtain taken where n: "named_ids (cp_profiles c) taken" "cp_specs c = profile_specs (cp_profiles c) (rev (spo_profiles pol))"
    "\<forall>p \<in> set (spo_profiles pol). tget (cp_profiles c) (nr_name p) \<noteq> None"
    using compile_policy_facts [OF c old] by blast
  have i: "i < dynamic_profile_base" using n(1) p(2) by (auto simp: named_ids_def)
  then have il: "unat i < length l" if "length l = 256" for l :: "kprofile list"
    using that by (simp add: dynamic_profile_base_def word_less_nat_alt)
  let ?specs = "profile_specs (cp_profiles c) (rev (spo_profiles pol))"
  let ?pc = "profile_from_config (nr_pps p) (nr_mbps p)"
  have "tget ?specs i = Some ?pc"
    by (rule profile_specs_get [OF n(1)]) (use d n(3) p in \<open>auto simp: rev_map [symmetric]\<close>)
  then have s: "(i, ?pc) \<in> set ?specs" by (simp add: tget_keys [OF profile_specs_ok])
  let ?qs = "fill (unat \<circ> fst) (profile_encode \<circ> snd) ?specs ps"
  have "?qs ! (unat \<circ> fst) (i, ?pc) = (profile_encode \<circ> snd) (i, ?pc)"
  proof (rule fill_same [OF s])
    show "(unat \<circ> fst) (i, ?pc) < length ps" using il [OF len] by simp
    show "\<forall>y \<in> set ?specs. (unat \<circ> fst) y = (unat \<circ> fst) (i, ?pc) \<longrightarrow> (profile_encode \<circ> snd) y = (profile_encode \<circ> snd) (i, ?pc)"
      using s profile_specs_ok [of "cp_profiles c" "rev (spo_profiles pol)"] tget_keys
      by (metis comp_apply option.inject prod.collapse prod.sel(1) word_unat_eq_iff)
  qed
  then have q: "?qs ! unat i = profile_encode ?pc" by simp
  let ?gone = "filter (\<lambda>(n, i). tget (cp_profiles c) n = None) old"
  have mem: "(\<exists>n. (n, i) \<in> set ?gone) \<longleftrightarrow> (\<exists>n. tget old n = Some i \<and> tget (cp_profiles c) n = None)"
    using old by (auto simp: named_ids_def tget_keys)
  show ?thesis
  proof (cases "\<exists>n. (n, i) \<in> set ?gone")
    case True
    then obtain n where "(n, i) \<in> set ?gone" by blast
    then have "fill (unat \<circ> snd) (\<lambda>_. profile_encode profile_none) ?gone ?qs ! (unat \<circ> snd) (n, i) = profile_encode profile_none"
      by (rule fill_same) (use il [of ?qs] len in simp_all)
    then show ?thesis using True mem by (simp add: profile_slots_def n(2))
  next
    case False
    then have "unat i \<notin> (unat \<circ> snd) ` set ?gone" by (auto dest!: word_unat_eq_iff [THEN iffD2])
    then have "fill (unat \<circ> snd) (\<lambda>_. profile_encode profile_none) ?gone ?qs ! unat i = ?qs ! unat i" by (rule fill_other)
    moreover have "\<not> (\<exists>n. tget old n = Some i \<and> tget (cp_profiles c) n = None)" using False mem by blast
    ultimately show ?thesis using q by (simp only: profile_slots_def n(2) if_False)
  qed
qed

end
