(* ===== verification/PolicyTotal.thy ===== *)
theory PolicyTotal
  imports PolicySpec
begin

unbundle bit_operations_syntax

text \<open>
  A configuration that passed validation compiles: the checks of \<^verbatim>\<open>validateDataplaneBlock\<close> rule out every
  refusal of the translation and of the compiler but two, too many profiles and an IPv4-mapped source.
\<close>

section \<open>Enough profile ids\<close>

lemma below_Suc: "(i :: 32 word) < n + 1 \<Longrightarrow> i = n \<or> i < n"
  by unat_arith

lemma skip_taken_below: "\<forall>i < n. i \<in> set taken \<Longrightarrow> i < skip_taken k taken n \<Longrightarrow> i \<in> set taken"
proof (induction k arbitrary: n)
  case (Suc k)
  show ?case
  proof (cases "n \<in> set taken")
    case True
    then have "\<forall>i < n + 1. i \<in> set taken" using Suc.prems(1) below_Suc by blast
    then show ?thesis using Suc.IH Suc.prems(2) True by simp
  qed (use Suc.prems in simp)
qed simp

definition counted :: "string set \<Rightarrow> (string, 32 word) table \<Rightarrow> 32 word list \<Rightarrow> bool" where
  "counted names pof taken \<longleftrightarrow> table_ok pof \<and> length taken = length pof \<and> fst ` set pof \<subseteq> names"

lemma tget_None_keys: "tget t k = None \<longleftrightarrow> k \<notin> fst ` set t"
  by (simp add: tget_def map_of_eq_None_iff)

lemma counted_put:
  assumes "counted names pof taken" "tget pof n = None" "n \<in> names"
  shows "counted names (tput n i pof) (i # taken)"
proof -
  have t1: "table_ok pof" using assms(1) by (simp add: counted_def)
  note t = t1 tbl.inv_put [OF t1]
  have "length (tput n i pof) = card (fst ` set (tput n i pof))" "length pof = card (fst ` set pof)"
    using t(1) t(2) [of n i] distinct_card [of "map fst (tput n i pof)"] distinct_card [of "map fst pof"] by (simp_all add: table_ok_def)
  then have "length (tput n i pof) = Suc (length pof)"
    unfolding fst_tput using assms(2) by (simp add: tget_None_keys)
  then show ?thesis using assms t(2) by (simp add: counted_def fst_tput)
qed

lemma keep_ids_counted:
  "distinct (map nr_name ps) \<Longrightarrow> counted names pof taken \<Longrightarrow> nr_name ` set ps \<subseteq> names \<Longrightarrow> \<forall>p \<in> set ps. tget pof (nr_name p) = None
   \<Longrightarrow> keep_ids prev ps pof taken = (pof', taken') \<Longrightarrow> counted names pof' taken'"
proof (induction ps arbitrary: pof taken)
  case (Cons p ps)
  have rest: "\<forall>q \<in> set ps. tget (tput (nr_name p) i pof) (nr_name q) = None" for i
  proof
    fix q assume q: "q \<in> set ps"
    then have "nr_name q \<noteq> nr_name p" using Cons.prems(1) by (metis distinct.simps(2) image_eqI list.set_map list.simps(9))
    then show "tget (tput (nr_name p) i pof) (nr_name q) = None" using Cons.prems(4) q by (simp add: tbl.get_put)
  qed
  have "counted names (tput (nr_name p) i pof) (i # taken)" for i
    by (rule counted_put) (use Cons.prems in auto)
  then show ?case
    using Cons.IH [OF _ _ _ rest] Cons.IH [of pof taken] Cons.prems by (auto split: option.splits if_splits)
qed simp

lemma fill_ids_succeeds:
  "card names \<le> 192 \<Longrightarrow> finite names \<Longrightarrow> counted names pof taken \<Longrightarrow> \<forall>i < n. i \<in> set taken \<Longrightarrow> nr_name ` set ps \<subseteq> names
   \<Longrightarrow> \<exists>t. fill_ids ps pof taken n = Inr t"
proof (induction ps arbitrary: pof taken n)
  case (Cons p ps)
  show ?case
  proof (cases "tget pof (nr_name p)")
    case None
    let ?m = "skip_taken (length taken) taken n"
    have below: "\<forall>i < ?m. i \<in> set taken" using skip_taken_below Cons.prems(4) by blast
    have key: "nr_name p \<in> names" "nr_name p \<notin> fst ` set pof" using Cons.prems(5) None by (simp_all add: tget_None_keys)
    have "card (fst ` set pof) < card names"
      by (rule psubset_card_mono) (use key Cons.prems(2,3) in \<open>auto simp: counted_def\<close>)
    then have few: "length taken < 192"
      using Cons.prems(1,3) distinct_card [of "map fst pof"] by (simp add: counted_def table_ok_def)
    have "?m < dynamic_profile_base"
    proof (rule ccontr)
      assume "\<not> ?m < dynamic_profile_base"
      then have "word_of_nat j \<in> set taken" if "j < 192" for j
        using below that by (auto simp: dynamic_profile_base_def word_less_nat_alt unat_of_nat)
      then have "(word_of_nat :: nat \<Rightarrow> 32 word) ` {..<192} \<subseteq> set taken" by auto
      moreover have "inj_on (word_of_nat :: nat \<Rightarrow> 32 word) {..<192}"
      proof (rule inj_on_inverseI)
        show "unat (word_of_nat j :: 32 word) = j" if "j \<in> {..<192}" for j using that by (simp add: unat_of_nat)
      qed
      ultimately have "192 \<le> card (set taken)" by (metis card_image card_lessThan card_mono finite_set)
      then show False using few card_length [of taken] by simp
    qed
    moreover have "counted names (tput (nr_name p) ?m pof) (?m # taken)" by (rule counted_put [OF Cons.prems(3) None key(1)])
    then have "\<exists>t. fill_ids ps (tput (nr_name p) ?m pof) (?m # taken) ?m = Inr t"
      by (rule Cons.IH [OF Cons.prems(1,2)]) (use below Cons.prems(5) in auto)
    ultimately show ?thesis using None by (auto simp: Let_def)
  qed (use Cons in auto)
qed simp

section \<open>What validation promises\<close>

lemma check_Inr: "check b m = Inr u \<longleftrightarrow> b"
  by (simp add: check_def)

lemma map_checked_total: "\<forall>x \<in> set xs. \<exists>y. f x = Inr y \<Longrightarrow> \<exists>ys. map_checked f xs = Inr ys"
  by (induction xs) (auto simp: bindc_eq_Inr)

lemma check_profiles_names:
  "check_profiles seen ps = Inr ns \<Longrightarrow> distinct seen \<Longrightarrow>
   distinct (map nr_name ps) \<and> set ns = set seen \<union> nr_name ` set ps \<and> nr_name ` set ps \<inter> set seen = {}"
proof (induction ps arbitrary: seen)
  case (Cons p ps)
  have c: "nr_name p \<notin> set seen" "check_profiles (nr_name p # seen) ps = Inr ns"
    using Cons.prems(1) by (auto simp: bindc_eq_Inr check_Inr)
  have d: "distinct (nr_name p # seen)" using c(1) Cons.prems(2) by simp
  then show ?case using Cons.IH [OF c(2) d] c(1) by auto
qed simp

lemma check_statics_each:
  "check_statics profiles seen rs = Inr () \<Longrightarrow> r \<in> set rs \<Longrightarrow> check_match (se_match r) = Inr () \<and> check_action profiles r = Inr ()"
  by (induction rs arbitrary: seen) (auto simp: bindc_eq_Inr)

text \<open>A checked rule translates, into one the encoder accepts unless its source is IPv4-mapped.\<close>

definition compiles :: "string set \<Rightarrow> static_rule \<Rightarrow> bool" where
  "compiles names r \<longleftrightarrow> sr_action r \<in> {act_pass, act_drop, act_rate_limit}
     \<and> (sr_action r = act_rate_limit \<longrightarrow> sr_profile r \<in> names) \<and> sr_match_ext r \<in> {0, 1, 2}
     \<and> \<not> (pfx_valid (sr_src r) \<and> is4in6 (pfx_addr (sr_src r)))"

definition unmapped :: "static_entry \<Rightarrow> bool" where
  "unmapped e \<longleftrightarrow> (case parse_prefix_or_addr (sm_src (se_match e)) of None \<Rightarrow> True | Some p \<Rightarrow> \<not> is4in6 (pfx_addr p))"

lemma checked_proto: "check_match m = Inr () \<Longrightarrow> \<exists>x. proto_number (sm_proto m) = Inr x"
  by (auto simp: check_match_def bindc_eq_Inr check_Inr proto_number_def)

lemma checked_payload: "check_match m = Inr () \<Longrightarrow> \<exists>x \<in> {0, 1, 2}. payload_bits (sm_payload m) = Inr x"
  by (auto simp: check_match_def bindc_eq_Inr check_Inr payload_bits_def split: if_splits)

lemma checked_src:
  assumes "check_match m = Inr ()"
  shows "\<exists>p. (if sm_src m = [] then Inr prefix_none else parse_entry what (sm_src m)) = Inr p
    \<and> (sm_src m = [] \<and> p = prefix_none \<or> parse_prefix_or_addr (sm_src m) = Some p)"
proof -
  have "sm_src m = [] \<or> parse_prefix_or_addr (sm_src m) \<noteq> None"
    using assms by (auto simp: check_match_def bindc_eq_Inr check_Inr)
  then show ?thesis by (auto simp: parse_entry_def)
qed

lemma checked_action:
  assumes "check_action profiles r = Inr ()"
  shows "\<exists>a \<in> {act_pass, act_drop, act_rate_limit}. action_number (se_action r) = Inr a
    \<and> (a = act_rate_limit \<longrightarrow> se_profile r \<in> set profiles)"
  using assms by (auto simp: check_action_def bindc_eq_Inr check_Inr action_number_def act_pass_def act_drop_def act_rate_limit_def
    split: if_splits)

lemma checked_rule_compiles:
  assumes "check_match (se_match r) = Inr ()" "check_action profiles r = Inr ()" "unmapped r"
  shows "\<exists>s. static_from r = Inr s \<and> compiles (set profiles) s"
proof -
  obtain pr where pr: "proto_number (sm_proto (se_match r)) = Inr pr" using checked_proto [OF assms(1)] by blast
  obtain ext where ext: "payload_bits (sm_payload (se_match r)) = Inr ext" "ext \<in> {0, 1, 2}" using checked_payload [OF assms(1)] by blast
  obtain a where a: "action_number (se_action r) = Inr a" "a \<in> {act_pass, act_drop, act_rate_limit}"
      "a = act_rate_limit \<longrightarrow> se_profile r \<in> set profiles" using checked_action [OF assms(2)] by blast
  obtain p where p: "(if sm_src (se_match r) = [] then Inr prefix_none else parse_entry ''static_rules.match.src'' (sm_src (se_match r))) = Inr p"
      "sm_src (se_match r) = [] \<and> p = prefix_none \<or> parse_prefix_or_addr (sm_src (se_match r)) = Some p"
    using checked_src [OF assms(1)] by blast
  have "\<not> (pfx_valid p \<and> is4in6 (pfx_addr p))" using p(2) assms(3) by (auto simp: unmapped_def)
  then show ?thesis using pr ext a p(1) by (simp add: static_from_def compiles_def Let_def)
qed

section \<open>What the compiler needs\<close>

lemma known_ext: "e \<in> {0, 1, 2} \<Longrightarrow> e AND NOT known_match_ext = 0"
  by (auto simp: known_match_ext_def)

lemma prefix_none_invalid: "\<not> pfx_valid prefix_none"
  by (simp add: prefix_none_def pfx_valid_def)

lemma static_spec_encodes:
  assumes "compiles names r" "v6 \<in> set (families_for r)"
  shows "\<exists>k. encode (static_spec r i prof v6) = Inr k"
proof -
  have fam: "family_loop None [sr_src r, prefix_none] = Inr (if pfx_valid (sr_src r) then Some (is6 (pfx_addr (sr_src r))) else None)"
    using assms(1) by (auto simp: compiles_def prefix_none_invalid)
  have "pfx_valid (sr_src r) \<longrightarrow> v6 = is6 (pfx_addr (sr_src r))" using assms(2) by (auto simp: families_for_def)
  then show ?thesis
    using assms(1) fam known_ext [of "sr_match_ext r"] by (simp add: encode_def static_spec_def compiles_def)
qed

lemma compile_families_succeeds:
  "compiles names r \<Longrightarrow> set fs \<subseteq> set (families_for r) \<Longrightarrow> \<exists>ks. compile_families r i prof fi fs = Inr ks"
proof (induction fs arbitrary: fi)
  case (Cons v6 fs)
  obtain k where "encode (static_spec r (static_rule_id i fi) prof v6) = Inr k"
    using static_spec_encodes [OF Cons.prems(1)] Cons.prems(2) by fastforce
  moreover obtain ks where "compile_families r i prof (Suc fi) fs = Inr ks" using Cons by fastforce
  ultimately show ?case by simp
qed simp

lemma compile_rules_succeeds:
  "\<forall>r \<in> set rs. compiles names r \<Longrightarrow> \<forall>n \<in> names. tget pof n \<noteq> None \<Longrightarrow> \<exists>ks. compile_rules pof i rs = Inr ks"
proof (induction rs arbitrary: i)
  case (Cons r rs)
  have c: "compiles names r" using Cons.prems(1) by simp
  have "\<exists>ks. compile_rule pof i r = Inr ks"
  proof (cases "sr_action r = act_rate_limit")
    case True
    then obtain prof where "tget pof (sr_profile r) = Some prof" using c Cons.prems(2) by (auto simp: compiles_def)
    then show ?thesis using True compile_families_succeeds [OF c] by (simp add: compile_rule_def)
  qed (use compile_families_succeeds [OF c] in \<open>simp add: compile_rule_def\<close>)
  moreover have "\<exists>ks. compile_rules pof (Suc i) rs = Inr ks" using Cons by simp
  ultimately show ?case by auto
qed simp

lemma if_SomeE: "(if b then None else x) = Some z \<Longrightarrow> (x = Some z \<Longrightarrow> P) \<Longrightarrow> P"
  by (cases b) simp_all

lemma if_SomeE2: "(if b then Some y else None) = Some z \<Longrightarrow> (y = z \<Longrightarrow> P) \<Longrightarrow> P"
  by (cases b) simp_all

lemma sizing_stride: "resolve_sizing l = Some z \<Longrightarrow> ms_static_stride z = word_of_int (lim_static l * 2)"
  unfolding resolve_sizing_def Let_def static_expansion_def
  by (erule if_SomeE, erule if_SomeE2, drule sym, simp only: map_sizing.select_convs)

lemma stride_enough:
  assumes "resolve_sizing l = Some z" "int n \<le> lim_static l" "m \<le> 2 * n"
  shows "\<not> ms_static_stride z < word_of_nat m"
proof -
  have ok: "\<not> (lim_dynamic l < 1 \<or> lim_static l < 1 \<or> lim_sources l < 1)"
      "in_map_range (lim_static l * static_expansion * 2)"
    using assms(1) unfolding resolve_sizing_def Let_def by (meson option.distinct(1))+
  then have z: "1 \<le> lim_static l" "lim_static l * 2 * 2 \<le> 2 ^ 31"
    unfolding in_map_range_def static_expansion_def by simp_all
  have stride: "ms_static_stride z = word_of_int (lim_static l * 2)" by (rule sizing_stride [OF assms(1)])
  have "unat (ms_static_stride z) = nat (lim_static l * 2)"
    unfolding stride unat_eq_nat_uint uint_word_of_int using z by simp
  moreover have "unat (word_of_nat m :: 32 word) = m" using assms(2,3) z(2) by (simp add: unat_of_nat)
  ultimately show ?thesis using assms(2,3) by (simp add: word_less_nat_alt)
qed

lemma compile_policy_succeeds:
  assumes "resolve_sizing l = Some z" "int (length (spo_statics pol)) \<le> lim_static l"
    and "distinct (map nr_name (spo_profiles pol))" "length (spo_profiles pol) \<le> 192"
    and "\<forall>r \<in> set (spo_statics pol). compiles (nr_name ` set (spo_profiles pol)) r"
  shows "\<exists>c. compile_policy pol z prev = Inr c"
proof -
  let ?names = "nr_name ` set (spo_profiles pol)"
  obtain kept taken where k: "keep_ids prev (spo_profiles pol) [] [] = (kept, taken)" by fastforce
  have "counted ?names [] []" by (simp add: counted_def table_ok_def)
  then have "counted ?names kept taken"
    by (rule keep_ids_counted [OF assms(3) _ _ _ k]) (simp_all add: tget_def)
  moreover have "card ?names \<le> 192" using assms(4) card_image_le [of "set (spo_profiles pol)" nr_name] card_length [of "spo_profiles pol"] by simp
  ultimately obtain pof where f: "fill_ids (spo_profiles pol) kept taken 0 = Inr pof"
    using fill_ids_succeeds [of ?names kept taken 0 "spo_profiles pol"] by auto
  have "\<forall>n \<in> ?names. tget pof n \<noteq> None" using fill_ids_total [OF f] by auto
  then obtain ks where ks: "compile_rules pof 0 (spo_statics pol) = Inr ks" using compile_rules_succeeds [OF assms(5)] by blast
  have "length ks \<le> 2 * length (spo_statics pol)"
    using encode_rules_length [OF compile_rules_encode [OF ks]] static_specs_length [of pof 0 "spo_statics pol"] by simp
  then have "\<not> ms_static_stride z < word_of_nat (length ks)" by (rule stride_enough [OF assms(1,2)])
  then show ?thesis using k f ks by (simp add: compile_policy_def)
qed

end
