(* ===== verification/PolicyTheorems.thy ===== *)
theory PolicyTheorems
  imports PolicyTotal
begin

unbundle bit_operations_syntax

text \<open>
  The properties of the operator's half of the data plane: a reload never disturbs the mitigator's
  rules, what the program decides afterwards is the configured policy, and a rule reported as dead is.
\<close>

section \<open>Policies from the configuration\<close>

lemma masked_canonical: "pfx_wf p \<Longrightarrow> pfx_valid p \<Longrightarrow> canonical (pfx_masked p)"
proof -
  assume p: "pfx_wf p" "pfx_valid p"
  obtain a n where a: "p = Pfx a n" by (cases p)
  show ?thesis
    using p unfolding a
    by (cases a) (auto simp: canonical_def pfx_wf_def pfx_valid_def pfx_masked_def addr_prefix_def drop_push_drop)
qed

lemma host_canonical: "addr_valid a \<Longrightarrow> canonical (prefix_from a (int (bit_len a)))"
  by (cases a) (simp_all add: canonical_def prefix_from_def pfx_wf_def pfx_valid_def pfx_masked_def addr_prefix_def)

lemma parse_prefix_ok: "parse_prefix s = Some p \<Longrightarrow> pfx_wf p \<and> pfx_valid p"
  using parse_prefix_valid by (auto simp: parse_prefix_def Let_def split: option.splits if_splits)

lemma parse_entry_canonical: "parse_prefix_or_addr s = Some p \<Longrightarrow> canonical p"
  by (auto simp: parse_prefix_or_addr_def split: if_splits intro: masked_canonical host_canonical dest: parse_prefix_ok parse_addr_valid)

lemma policy_from_block_canonical:
  assumes "policy_from_block d protected = Inr pol" "\<forall>a \<in> set protected. addr_valid a"
  shows "policy_canonical pol" and "\<forall>r \<in> set (spo_statics pol). pfx_wf (sr_src r)"
    and "length (spo_statics pol) = length (db_statics d)"
proof -
  obtain allow statics where p: "map_checked (parse_entry ''allowlist'') (db_allowlist d) = Inr allow"
      "map_checked static_from (db_statics d) = Inr statics"
      "pol = \<lparr> spo_allow = allow, spo_protected = map (\<lambda>a. prefix_from a (int (bit_len a))) protected,
        spo_profiles = db_profiles d, spo_statics = statics \<rparr>"
    using assms(1) by (auto simp: policy_from_block_def bindc_eq_Inr)
  have "canonical x" if x: "x \<in> set allow" for x
  proof -
    obtain s where "parse_entry ''allowlist'' s = Inr x" using map_checked_set [OF p(1) x] by blast
    then show ?thesis by (auto simp: parse_entry_def intro: parse_entry_canonical split: option.splits)
  qed
  then show "policy_canonical pol" using assms(2) by (auto simp: p(3) policy_canonical_def intro: host_canonical)
  have "pfx_wf (sr_src r)" if r: "r \<in> set statics" for r
  proof -
    obtain e where "static_from e = Inr r" using map_checked_set [OF p(2) r] by blast
    then obtain src where "sr_src r = src" "src = prefix_none \<or> parse_entry ''static_rules.match.src'' (sm_src (se_match e)) = Inr src"
      by (auto simp: static_from_def Let_def bindc_eq_Inr split: if_splits)
    then show ?thesis by (auto simp: parse_entry_def canonical_def dest: parse_entry_canonical split: option.splits)
  qed
  then show "\<forall>r \<in> set (spo_statics pol). pfx_wf (sr_src r)" by (simp add: p(3))
  show "length (spo_statics pol) = length (db_statics d)" using map_checked_length [OF p(2)] by (simp add: p(3))
qed

section \<open>Example inputs\<close>

definition demo_block :: dataplane_block where
  "demo_block = \<lparr> db_enabled = None, db_interfaces = [''eth0''], db_xdp_mode = [], db_pin_path = [], db_on_exit = [],
     db_drop_malformed = False, db_allowlist = [''192.0.2.0/24''],
     db_profiles = [ \<lparr> nr_name = ''slow'', nr_pps = 100, nr_mbps = 0 \<rparr> ],
     db_statics = [ \<lparr> se_name = ''ntp'', se_match = \<lparr> sm_src = [], sm_proto = ''udp'', sm_src_port = 123, sm_dst_port = 0, sm_payload = [] \<rparr>,
        se_action = ''ratelimit'', se_profile = ''slow'' \<rparr> ],
     db_fingerprint = \<lparr> fpb_enabled = False, fpb_sample_pps = 0, fpb_ttl = 0, fpb_ja4 = [] \<rparr>,
     db_limits = \<lparr> lim_dynamic = 16, lim_static = 1, lim_sources = 1 \<rparr> \<rparr>"

definition demo_policy :: static_policy where
  "demo_policy = \<lparr> spo_allow = [Pfx (V4 0xC0000200) 24], spo_protected = [Pfx (V4 0x0A000009) 32],
     spo_profiles = [ \<lparr> nr_name = ''slow'', nr_pps = 100, nr_mbps = 0 \<rparr> ],
     spo_statics = [ \<lparr> sr_name = ''ntp'', sr_src = prefix_none, sr_proto = Some 17, sr_src_port = Some 123, sr_dst_port = None,
       sr_action = act_rate_limit, sr_profile = ''slow'', sr_match_ext = 0 \<rparr> ] \<rparr>"

definition demo_next :: plane_options where
  "demo_next = demo_opts \<lparr> po_policy := demo_policy \<rparr>"

definition demo_reloaded :: plane where
  "demo_reloaded = snd (reload demo_next demo_banned)"

lemma demo_prefix: "parse_prefix ''192.0.2.0/24'' = Some (Pfx (V4 0xC0000200) 24)"
  by (simp add: parse_prefix_def parse_addr_def parse_v4_def dig_val_def parse_uint_def num_of_bytes_def prefix_from_def)

lemma demo_masked: "pfx_masked (Pfx (V4 0xC0000200) 24) = Pfx (V4 0xC0000200) 24" "prefix_from (V4 0x0A000009) 32 = Pfx (V4 0x0A000009) 32"
  by code_simp+

lemma demo_policy_eq: "policy_from_block demo_block [V4 0x0A000009] = Inr (po_policy demo_next)"
  by (simp add: policy_from_block_def demo_block_def demo_next_def demo_policy_def parse_entry_def parse_prefix_or_addr_def
    demo_prefix demo_masked static_from_def proto_number_def payload_bits_def action_number_def port_of_def)

lemma demo_reload_ok: "\<not> isl (fst (reload demo_next demo_banned))"
  by code_simp

lemma demo_reload_eq: "reload demo_next demo_banned = (Inr (projr (fst (reload demo_next demo_banned))), demo_reloaded)"
  using demo_reload_ok unfolding demo_reloaded_def by (metis prod.collapse sum.collapse(2))

lemma demo_fields:
  "mg_profiles demo_banned = []" "km_allow demo_banned = []" "km_protect demo_banned = []"
  "ms_policy_stride (mg_sizing demo_banned) = policy_stride demo_banned" "ms_static_stride (mg_sizing demo_banned) = static_stride demo_banned"
  "kc_static_stride (km_cfg demo_banned) = static_stride demo_banned" "length (km_statics demo_banned) = 4"
  "static_stride demo_banned = 2" "kc_static_count (km_cfg demo_banned) = 0"
  by code_simp+

lemma demo_ready: "policy_ready demo_banned"
  by (auto simp: policy_ready_def demo_fields trie_ok_def table_ok_def named_ids_def tget_def)

section \<open>Properties\<close>

text \<open>C15: a reload of the static policy, whatever it holds and whichever of its writes fail, leaves what
  any packet gets from the mitigator's rules as it was, and keeps the invariants of the maps; when it
  fails, the static rules in use are those from before.\<close>

theorem reload_spares_dynamic_rules:
  assumes "plane_ok s" "policy_ready s" "policy_canonical (po_policy nxt)"
  shows "dynamic_kept s (snd (reload nxt s))
    \<and> (\<forall>e. fst (reload nxt s) = Inl e \<longrightarrow> live_statics (snd (reload nxt s)) = live_statics s)"
proof -
  have "kwp (reload nxt) (\<lambda>_ t. dynamic_kept s t) (\<lambda>_ t. dynamic_kept s t \<and> live_statics t = live_statics s) s"
    by (rule reload_wp [OF assms]) (use assms(1,2) carries_keeps staged_keeps in blast)+
  then show ?thesis by (auto simp: kwp_def split: prod.splits sum.splits)
qed

theorem reload_spares_dynamic_rules_witness:
  "plane_ok demo_banned \<and> policy_ready demo_banned \<and> dynamic_kept demo_banned demo_reloaded
   \<and> scan_policy demo_reloaded (kernel_packet demo_packet) (V4 0x0A000001) \<noteq> None"
proof -
  have "policy_canonical (po_policy demo_next)"
    by (rule policy_from_block_canonical [OF demo_policy_eq]) simp
  moreover have "scan_policy demo_reloaded (kernel_packet demo_packet) (V4 0x0A000001) \<noteq> None" by code_simp
  ultimately show ?thesis
    using reload_spares_dynamic_rules [OF demo_banned_ok demo_ready] demo_banned_ok demo_ready by (simp add: demo_reloaded_def)
qed

text \<open>What a policy means for a packet, given what the mitigator's rules do.\<close>

definition intended :: "static_policy \<Rightarrow> rule_spec list \<Rightarrow> (addr \<Rightarrow> krule option) \<Rightarrow> packet \<Rightarrow> kverdict" where
  "intended pol specs dyn pk =
     (if \<exists>p \<in> set (spo_allow pol). contains p (pk_src pk) then ByAllow
      else if \<exists>p \<in> set (spo_protected pol). contains p (pk_dst pk) then ByProtect
      else case List.find (\<lambda>x. spec_selects x pk) specs of
        Some x \<Rightarrow> ByStatic (projr (encode x))
      | None \<Rightarrow> (case dyn (pk_src pk) of Some r \<Rightarrow> BySource r
          | None \<Rightarrow> (case dyn (pk_dst pk) of Some r \<Rightarrow> ByDestination r | None \<Rightarrow> ByDefault)))"

text \<open>C16: after a successful reload the program decides every packet as the configured policy says: the
  allowlist, the protected list, the first static rule that selects it among the first 256 the policy
  compiles to, and then the mitigator's rules as before.\<close>

theorem reload_decides:
  assumes "plane_ok s" "policy_ready s" "policy_from_block d protected = Inr (po_policy nxt)"
    and "\<forall>a \<in> set protected. addr_valid a" "length (db_statics d) < 2 ^ 31"
    and "reload nxt s = (Inr rep, t)" "pkt_wf pk"
  shows "\<exists>c. compile_policy (po_policy nxt) (mg_sizing s) (mg_profiles s) = Inr c
    \<and> (\<forall>k. decide t (kernel_packet pk \<lparr> kp_now := k \<rparr>)
       = intended (po_policy nxt) (take max_static_rules (static_specs (cp_profiles c) 0 (spo_statics (po_policy nxt))))
           (scan_policy s (kernel_packet pk \<lparr> kp_now := k \<rparr>)) pk)"
proof -
  note pol = policy_from_block_canonical [OF assms(3,4)]
  have "kwp (reload nxt) (\<lambda>_ t. \<exists>c gen. compile_policy (po_policy nxt) (mg_sizing s) (mg_profiles s) = Inr c
      \<and> gen < generations \<and> carries (po_policy nxt) gen c s t) (\<lambda>_ _. True) s"
    by (rule reload_wp [OF assms(1,2) pol(1)]) blast+
  then obtain c gen where c: "compile_policy (po_policy nxt) (mg_sizing s) (mg_profiles s) = Inr c" "gen < generations"
      "carries (po_policy nxt) gen c s t" by (auto simp: kwp_def assms(6))
  obtain tk where "named_ids (mg_profiles s) tk" using assms(2) by (auto simp: policy_ready_def)
  then obtain ks where ks: "compile_rules (cp_profiles c) 0 (spo_statics (po_policy nxt)) = Inr ks" "cp_rules c = map fst ks"
    using compile_policy_facts [OF c(1)] by blast
  have "length (cp_rules c) \<le> 2 * length (spo_statics (po_policy nxt))"
    using encode_rules_length [OF compile_rules_encode [OF ks(1)]] static_specs_length ks(2) by metis
  then have "live_statics t = take max_static_rules (cp_rules c)"
    using carries_live [OF assms(2) c(3,2)] pol(3) assms(5) by simp
  then have st: "List.find (rule_hits (kernel_packet pk \<lparr> kp_now := k \<rparr>)) (live_statics t) = map_option (projr \<circ> encode)
      (List.find (\<lambda>x. spec_selects x pk) (take max_static_rules (static_specs (cp_profiles c) 0 (spo_statics (po_policy nxt)))))" for k
    unfolding ks(2) using find_compiled [OF ks(1) pol(2) assms(7)] by simp
  have dyn: "scan_policy t p a = scan_policy s p a" for p a
    using carries_keeps [OF assms(1,2) c(3,2)] by (simp add: dynamic_kept_def)
  have tries: "trie_holds (km_allow t) a = (\<exists>p \<in> set (spo_allow (po_policy nxt)). contains p a)"
      "trie_holds (km_protect t) a = (\<exists>p \<in> set (spo_protected (po_policy nxt)). contains p a)" for a
    using c(3) by (simp_all add: carries_def written_def trie_holds_iff)
  have "decide t (kernel_packet pk \<lparr> kp_now := k \<rparr>)
       = intended (po_policy nxt) (take max_static_rules (static_specs (cp_profiles c) 0 (spo_statics (po_policy nxt))))
           (scan_policy s (kernel_packet pk \<lparr> kp_now := k \<rparr>)) pk" for k
    using kernel_packet_addrs [OF assms(7)]
    by (simp add: decide_def intended_def tries dyn st Let_def split: option.split)
  then show ?thesis using c(1) by blast
qed

definition demo_ntp :: packet where
  "demo_ntp = demo_packet \<lparr> pk_ports := Some (123, 4000) \<rparr>"

theorem reload_decides_witness:
  "\<exists>c. compile_policy (po_policy demo_next) (mg_sizing demo_banned) (mg_profiles demo_banned) = Inr c
     \<and> decide demo_reloaded (kernel_packet demo_ntp \<lparr> kp_now := 5000 \<rparr>)
       = intended (po_policy demo_next) (take max_static_rules (static_specs (cp_profiles c) 0 (spo_statics (po_policy demo_next))))
           (scan_policy demo_banned (kernel_packet demo_ntp \<lparr> kp_now := 5000 \<rparr>)) demo_ntp"
proof -
  have "pkt_wf demo_ntp" by code_simp
  moreover have "length (db_statics demo_block) < 2 ^ 31" by (simp add: demo_block_def)
  ultimately show ?thesis
    using reload_decides [OF demo_banned_ok demo_ready demo_policy_eq _ _ demo_reload_eq] by fastforce
qed

text \<open>C19: after a successful reload every declared profile has an id of its own in the operator's half and
  its slot holds the declared ceiling, except when the id was that of a name the new policy no longer
  declares: then the slot is zeroed after it was written, and caps nothing.\<close>

theorem reloaded_profiles:
  assumes "plane_ok s" "policy_ready s" "policy_canonical (po_policy nxt)" "reload nxt s = (Inr rep, t)"
    and "distinct (map nr_name (spo_profiles (po_policy nxt)))" "p \<in> set (spo_profiles (po_policy nxt))"
  shows "\<exists>i. tget (mg_profiles t) (nr_name p) = Some i \<and> i < dynamic_profile_base
    \<and> (\<forall>q. tget (mg_profiles t) q = Some i \<longrightarrow> q = nr_name p)
    \<and> km_profiles t ! unat i = profile_encode (if \<exists>n. tget (mg_profiles s) n = Some i \<and> tget (mg_profiles t) n = None
        then profile_none else profile_from_config (nr_pps p) (nr_mbps p))"
proof -
  have "kwp (reload nxt) (\<lambda>_ t. \<exists>c gen. compile_policy (po_policy nxt) (mg_sizing s) (mg_profiles s) = Inr c
      \<and> gen < generations \<and> carries (po_policy nxt) gen c s t) (\<lambda>_ _. True) s"
    by (rule reload_wp [OF assms(1-3)]) blast+
  then obtain c gen where c: "compile_policy (po_policy nxt) (mg_sizing s) (mg_profiles s) = Inr c" "carries (po_policy nxt) gen c s t"
    by (auto simp: kwp_def assms(4))
  obtain tk where old: "named_ids (mg_profiles s) tk" using assms(2) by (auto simp: policy_ready_def)
  obtain taken where n: "named_ids (cp_profiles c) taken" "\<forall>p \<in> set (spo_profiles (po_policy nxt)). tget (cp_profiles c) (nr_name p) \<noteq> None"
    using compile_policy_facts [OF c(1) old] by blast
  then obtain i where i: "tget (cp_profiles c) (nr_name p) = Some i" using assms(6) by blast
  have len: "length (km_profiles s) = 256" using assms(1) by (simp add: plane_ok_def prof_ok_def prof_inv_def)
  have t: "mg_profiles t = cp_profiles c" "km_profiles t = profile_slots c (mg_profiles s) (km_profiles s)"
    using c(2) by (simp_all add: carries_def written_def)
  have "\<forall>q. tget (cp_profiles c) q = Some i \<longrightarrow> q = nr_name p" "i < dynamic_profile_base"
    using n(1) i unfolding named_ids_def by blast+
  then show ?thesis
    unfolding t using profile_slot [OF c(1) old assms(5) len assms(6) i] i by blast
qed

theorem reloaded_profiles_witness:
  "\<exists>i. tget (mg_profiles demo_reloaded) ''slow'' = Some i
     \<and> km_profiles demo_reloaded ! unat i = profile_encode (if \<exists>n. tget (mg_profiles demo_banned) n = Some i
          \<and> tget (mg_profiles demo_reloaded) n = None then profile_none else profile_from_config 100 0)"
proof -
  let ?p = "\<lparr> nr_name = ''slow'', nr_pps = 100, nr_mbps = 0 \<rparr>"
  have "policy_canonical (po_policy demo_next)"
    by (rule policy_from_block_canonical [OF demo_policy_eq]) simp
  moreover have "distinct (map nr_name (spo_profiles (po_policy demo_next)))" "?p \<in> set (spo_profiles (po_policy demo_next))"
    by (simp_all add: demo_next_def demo_policy_def)
  ultimately show ?thesis
    using reloaded_profiles [OF demo_banned_ok demo_ready _ demo_reload_eq, of ?p] by (simp only: named_rate.select_convs) blast
qed

text \<open>Renaming a profile: the new name takes over the id, which is then retired with the old name.\<close>

definition demo_policy2 :: static_policy where
  "demo_policy2 = demo_policy \<lparr> spo_profiles := [ \<lparr> nr_name = ''fast'', nr_pps = 500, nr_mbps = 0 \<rparr> ],
     spo_statics := [ \<lparr> sr_name = ''ntp'', sr_src = prefix_none, sr_proto = Some 17, sr_src_port = Some 123, sr_dst_port = None,
       sr_action = act_rate_limit, sr_profile = ''fast'', sr_match_ext = 0 \<rparr> ] \<rparr>"

definition demo_renamed :: plane where
  "demo_renamed = snd (reload (demo_opts \<lparr> po_policy := demo_policy2 \<rparr>) demo_reloaded)"

lemma renamed_profile_caps_nothing:
  "mg_profiles demo_renamed = [(''fast'', 0)]"
  "km_profiles demo_renamed ! 0 = profile_encode profile_none"
  "map k_profile (live_statics demo_renamed) = [0, 0]"
  by code_simp+






lemma validated_block_facts:
  assumes "validate_dataplane_block d = Inr (set1, d')" "ds_enabled set1"
  shows "\<forall>s \<in> set (db_allowlist d). parse_prefix_or_addr s \<noteq> None"
    and "\<exists>names. check_profiles [] (db_profiles d) = Inr names \<and> check_statics names [] (db_statics d) = Inr ()"
    and "int (length (db_statics d)) \<le> lim_static (db_limits d')"
    and "db_allowlist d' = db_allowlist d" "db_profiles d' = db_profiles d" "db_statics d' = db_statics d"
  using assms by (auto simp: validate_dataplane_block_def bindc_eq_Inr check_Inr settings_zero_def list_all_iff split: if_split_asm)

text \<open>C17: a configuration block that validation accepts always compiles for the kernel, whatever policy ran
  before it, when its maps can be sized, it declares at most 192 profiles and no rule's source is
  IPv4-mapped: no name, action, reference, id or size is refused later.\<close>

theorem validated_blocks_compile:
  assumes "validate_dataplane_block d = Inr (set1, d')" "ds_enabled set1" "resolve_sizing (db_limits d') = Some z"
    and "length (db_profiles d) \<le> 192" "\<forall>e \<in> set (db_statics d). unmapped e"
  shows "\<exists>pol c. policy_from_block d' protected = Inr pol \<and> compile_policy pol z prev = Inr c"
proof -
  note v = validated_block_facts [OF assms(1,2)]
  obtain names where n: "check_profiles [] (db_profiles d) = Inr names" "check_statics names [] (db_statics d) = Inr ()"
    using v(2) by blast
  have names: "distinct (map nr_name (db_profiles d))" "set names = nr_name ` set (db_profiles d)"
    using check_profiles_names [OF n(1)] by simp_all
  have rules: "\<exists>s. static_from e = Inr s \<and> compiles (set names) s" if e: "e \<in> set (db_statics d)" for e
    by (rule checked_rule_compiles) (use check_statics_each [OF n(2) e] assms(5) e in auto)
  obtain allow where allow: "map_checked (parse_entry ''allowlist'') (db_allowlist d) = Inr allow"
    using map_checked_total [of "db_allowlist d" "parse_entry ''allowlist''"] v(1) by (fastforce simp: parse_entry_def)
  obtain statics where st: "map_checked static_from (db_statics d) = Inr statics"
    using map_checked_total [of "db_statics d" static_from] rules by blast
  have ok: "\<forall>s \<in> set statics. compiles (nr_name ` set (db_profiles d)) s"
    using map_checked_set [OF st] rules names(2) by (metis sum.inject(2))
  obtain pol where pol: "policy_from_block d' protected = Inr pol" "spo_profiles pol = db_profiles d" "spo_statics pol = statics"
    using allow st by (simp add: policy_from_block_def v(4-6))
  have "\<exists>c. compile_policy pol z prev = Inr c"
    by (rule compile_policy_succeeds [OF assms(3)]) (use v(3) names(1) assms(4) ok map_checked_length [OF st] in \<open>simp_all add: pol\<close>)
  then show ?thesis using pol(1) by blast
qed

definition demo_valid :: "dataplane_settings \<times> dataplane_block" where
  "demo_valid = projr (validate_dataplane_block demo_block)"

lemma demo_block_valid: "validate_dataplane_block demo_block = Inr (fst demo_valid, snd demo_valid)"
proof -
  have "\<exists>x. validate_dataplane_block demo_block = Inr x"
    by (simp add: validate_dataplane_block_def demo_block_def bindc_def check_def resolve_mode_def xdp_modes_def exit_modes_def
      iface_name_ok_def iface_char_def name_char_def parse_prefix_or_addr_def demo_prefix group_name_ok_def check_match_def
      check_action_def resolve_limits_def Let_def validate_fingerprint_def)
  then show ?thesis by (auto simp: demo_valid_def)
qed

lemma demo_valid_limits:
  "validate_dataplane_block demo_block = Inr (s, b) \<Longrightarrow>
   ds_enabled s \<and> db_limits b = \<lparr> lim_dynamic = 16, lim_static = 1, lim_sources = 1 \<rparr>"
  by (auto simp: validate_dataplane_block_def demo_block_def bindc_eq_Inr resolve_limits_def Let_def check_Inr)

theorem validated_blocks_compile_witness:
  "\<exists>pol c. policy_from_block (snd demo_valid) [V4 0x0A000009] = Inr pol
     \<and> compile_policy pol (the (resolve_sizing (db_limits (snd demo_valid)))) [(''old'', 0)] = Inr c"
proof -
  have on: "ds_enabled (fst demo_valid)"
    and l: "db_limits (snd demo_valid) = \<lparr> lim_dynamic = 16, lim_static = 1, lim_sources = 1 \<rparr>"
    using demo_valid_limits [OF demo_block_valid] by simp_all
  have "resolve_sizing (db_limits (snd demo_valid)) \<noteq> None"
    by (simp add: l resolve_sizing_def Let_def in_map_range_def static_expansion_def rules_per_policy_def)
  moreover have "unmapped e" if "e \<in> set (db_statics demo_block)" for e
    using that by (auto simp: demo_block_def unmapped_def parse_prefix_or_addr_def parse_addr_def)
  ultimately show ?thesis
    using validated_blocks_compile [OF demo_block_valid on] by (auto simp: demo_block_def)
qed

end
