(* ===== verification/Spec2Isabelle.thy ===== *)
theory Spec2Isabelle
  imports Prelude GoFloat NetAddr NetParse Config ConfigResolve Hostgroups Events FlowRules KernelRule
    KernelSelect Ban ScrubNodes SourceBlocks Lifecycle Enforce BanTable NodeSweep SourceInv System SystemSteps
    Deployment Counters Baseline Ordering Classify SampleRing Sampling OpenPeering Attack Engine EngineTick AttackLog
    GroupLog CarpetLog EngineInv Detection Traffic EngineTheorems TelemetryTheorems Pipeline Persist Restart
    RestartTheorems KernelMaps StaticPolicy PolicyFile Installer PlaneInv PlaneOps Adoption InstallerSpec
    InstallerTheorems PolicyOps PolicyCompile PolicySpec PolicyTotal PolicyTheorems
begin

text \<open>
  Kapkan watches sampled flow telemetry for volumetric attacks on protected networks and withdraws the
  attacked addresses from harm: a blackhole or a diversion announced over BGP, FlowSpec rules, or
  rules in a kernel data plane. The development models its Go core, \<^verbatim>\<open>src/engine/internal/\<close>: the
  configuration snapshot, the detection engine, and the mitigator with its kernel rules. Every
  definition computes and follows one function, type or block of the source.

  \<^bold>\<open>Parts and theories\<close>

  \<^item> \<^verbatim>\<open>Prelude\<close> (Go maps as association lists, 64-bit durations, decimal rendering), \<^verbatim>\<open>Ordering\<close>
    (\<^verbatim>\<open>sort.Slice\<close>), \<^verbatim>\<open>GoFloat\<close> (\<^verbatim>\<open>float64\<close> with one rounding per operation), \<^verbatim>\<open>NetAddr\<close> and
    \<^verbatim>\<open>NetParse\<close> (\<^verbatim>\<open>net/netip\<close>, \<^verbatim>\<open>strconv\<close>).
  \<^item> \<^verbatim>\<open>Config\<close>, \<^verbatim>\<open>ConfigResolve\<close>, \<^verbatim>\<open>Hostgroups\<close>: \<^verbatim>\<open>config/config.go\<close>. The record \<open>config\<close> is the
    snapshot that \<^verbatim>\<open>store.Get()\<close> returns; its queries; the resolution of methods, ladders, attributes,
    baselines and hostgroups, with every refusal as an \<open>Inl\<close>.
  \<^item> \<^verbatim>\<open>Events\<close>: \<^verbatim>\<open>flow/flow.go\<close>, \<^verbatim>\<open>engine/events.go\<close>: flows, rates, samples, lifecycle events.
  \<^item> \<^verbatim>\<open>Counters\<close>, \<^verbatim>\<open>Baseline\<close>, \<^verbatim>\<open>Classify\<close>, \<^verbatim>\<open>SampleRing\<close>, \<^verbatim>\<open>Sampling\<close>, \<^verbatim>\<open>OpenPeering\<close>, \<^verbatim>\<open>Attack\<close>,
    \<^verbatim>\<open>Engine\<close>, \<^verbatim>\<open>EngineTick\<close>: the package \<^verbatim>\<open>engine\<close>. Recorded flows fill rings of one-second buckets and
    rings of recent flows (\<open>process\<close>); once a second \<open>eval_tick\<close> compares the windowed rates of hosts,
    total groups and carpet prefixes with their thresholds, moves the attack states and puts events
    into two bounded channels.
  \<^item> \<^verbatim>\<open>FlowRules\<close>, \<^verbatim>\<open>KernelRule\<close>, \<^verbatim>\<open>KernelSelect\<close>: \<^verbatim>\<open>mitigate/flowspec.go\<close>, \<^verbatim>\<open>mitigate/dpencode.go\<close>,
    \<^verbatim>\<open>dataplane/encode.go\<close>: rules from a classification and a sample, their compilation to the kernel's
    rule struct, and what the kernel then matches.
  \<^item> \<^verbatim>\<open>Ban\<close>, \<^verbatim>\<open>ScrubNodes\<close>, \<^verbatim>\<open>SourceBlocks\<close>, \<^verbatim>\<open>Lifecycle\<close>: \<^verbatim>\<open>mitigate/mitigate.go\<close>, \<^verbatim>\<open>nodes.go\<close>,
    \<^verbatim>\<open>nodeselect.go\<close>, \<^verbatim>\<open>sources.go\<close>. The record \<open>mit\<close> is the mitigator; each handler is a function of
    the clock, the snapshot and the event to a new \<open>mit\<close>. The BGP speaker and the data plane are a
    \<open>backend\<close>, which says which calls succeed; every call is logged.
  \<^item> \<^verbatim>\<open>Enforce\<close>, \<^verbatim>\<open>BanTable\<close>, \<^verbatim>\<open>NodeSweep\<close>, \<^verbatim>\<open>SourceInv\<close>, \<^verbatim>\<open>System\<close>, \<^verbatim>\<open>SystemSteps\<close>: what stands at the
    speaker and in the kernel after a log of calls, the invariants, and \<open>reachable\<close>, the inductive
    closure of the handlers (\<open>mstep\<close>) in any order and of restarts. \<^verbatim>\<open>Deployment\<close> is a concrete configuration and the
    states the witnesses run in.

  \<^item> \<^verbatim>\<open>AttackLog\<close>, \<^verbatim>\<open>GroupLog\<close>, \<^verbatim>\<open>CarpetLog\<close>: the contract \<open>attack_subject\<close> of whatever can be under attack, met
    by the handlers of hosts, groups and prefixes. \<^verbatim>\<open>EngineInv\<close>, \<^verbatim>\<open>Detection\<close>, \<^verbatim>\<open>Traffic\<close>: a tick visits each
    host once; \<open>judged_step\<close> is the abstract attack machine it refines; \<open>ledger\<close> is the abstract traffic its
    rates refine; \<open>engine_reach\<close> and \<open>traffic\<close> are the reachable engines. The properties are in
    \<^verbatim>\<open>EngineTheorems\<close>, \<^verbatim>\<open>TelemetryTheorems\<close>, \<^verbatim>\<open>Pipeline\<close> (from a flood to a ban) and this theory.

  \<^item> \<^verbatim>\<open>Persist\<close>, \<^verbatim>\<open>Restart\<close>, \<^verbatim>\<open>RestartTheorems\<close>: \<^verbatim>\<open>mitigate/persist.go\<close>. The state file, its atomic rewrite and
    the rehydration of a new process, which may run under another configuration. A file the mitigator
    wrote restores a state that has the invariant; any file restores only what the new configuration
    allows.

  \<^item> \<^verbatim>\<open>KernelMaps\<close>, \<^verbatim>\<open>StaticPolicy\<close>, \<^verbatim>\<open>PolicyFile\<close>, \<^verbatim>\<open>Installer\<close>: the data plane's control half, \<^verbatim>\<open>dataplane/\<close>.
    \<open>kmaps\<close> is the record of the BPF maps; each write is a system call that may fail (\<open>km_fault\<close>) and every
    operation a function in the error monad \<open>kop\<close>. The block of the configuration is validated and compiled to
    kernel rules, published by a generation flip (\<open>reload\<close>); bans are installed and withdrawn beside it
    (\<open>install\<close>, \<open>withdraw\<close>). \<open>decide\<close> is the order in which the XDP program consults the maps, up to the rule it
    applies.
  \<^item> \<^verbatim>\<open>PlaneInv\<close>, \<^verbatim>\<open>PlaneOps\<close>, \<^verbatim>\<open>Adoption\<close>, \<^verbatim>\<open>InstallerSpec\<close>, \<^verbatim>\<open>PolicyOps\<close>: the weakest precondition \<open>kwp\<close> of each
    operation, the invariant \<open>plane_ok\<close> and the frame \<open>untouched\<close>; \<^verbatim>\<open>InstallerTheorems\<close> has the properties of bans.
  \<^item> \<^verbatim>\<open>PolicyCompile\<close>, \<^verbatim>\<open>PolicySpec\<close>, \<^verbatim>\<open>PolicyTotal\<close>: what the compiler of a policy produces (\<open>static_specs\<close> is
    its abstract result), the half of the maps a reload writes (\<open>staged\<close>) and what it publishes (\<open>carries\<close>),
    and that a validated block compiles; \<^verbatim>\<open>PolicyTheorems\<close> has the properties of reloads.

  \<^bold>\<open>Parameters and assumptions\<close>

  The backend (speaker and kernel), the GeoIP database, the MAC-to-IP collector and the random source
  of attack identifiers are arguments. Goroutines appear as atomic steps: the mitigator holds one
  mutex, the engine locks a shard at a time but a whole tick is one step here. The clock is past 1970;
  theorems about a window's history assume it does not step back. A call that the backend fails
  changes nothing on the other side. Floats are those of amd64 without fused multiply-add.

  \<^bold>\<open>Not modelled\<close>

  YAML decoding and the configuration blocks of other planes; logging and metrics; the gobgp server;
  the kernel's own program (C) beyond the matcher and the order of lookups, and the loading, pinning,
  attaching and watching of it, which are system calls on the machine; the telemetry decoders, which wrap
  a third-party library; the L7 edge plane, the fingerprint and scrub agents, the HTTP API, storage,
  notification and process wiring.
\<close>

section \<open>The mitigator in every reachable state\<close>





text \<open>C6: the climb of the escalation ladder is make-before-break. For a real ban whose rung stands
  outside, at every moment of the climb (every prefix of the calls it makes) the old rung or the new
  one stands, and the rung on record at the end does.\<close>

theorem escalation_leaves_no_gap:
  assumes "escalate be now cfg b s = (b', s')" "\<not> c_dry_run cfg" "enforced b (b_method b) (io_log s)"
  shows "(\<forall>l. between s s' l \<longrightarrow> enforced b (b_method b) l \<or> enforced b (b_method b') l)
    \<and> enforced b' (b_method b') (io_log s')"
  by (rule escalate_no_gap [OF assms])

theorem escalation_leaves_no_gap_witness:
  "\<exists>b' s'. escalate ex_backend (131 * second) ex_cfg (the_ban ex_started) (m_io ex_started) = (b', s')
    \<and> b_method b' = MitigateFlowSpec \<and> enforced b' MitigateFlowSpec (io_log s')"
proof -
  obtain b' s' where e: "escalate ex_backend (131 * second) ex_cfg (the_ban ex_started) (m_io ex_started) = (b', s')"
    by (cases "escalate ex_backend (131 * second) ex_cfg (the_ban ex_started) (m_io ex_started)")
  have "b_method (fst (escalate ex_backend (131 * second) ex_cfg (the_ban ex_started) (m_io ex_started))) = MitigateFlowSpec"
    by code_simp
  then have m: "b_method b' = MitigateFlowSpec" using e by simp
  have "enforced (the_ban ex_started) (b_method (the_ban ex_started)) (io_log (m_io ex_started))"
    by (simp add: enforced_def method_nlris_def ex_started_facts) code_simp
  then have "enforced b' (b_method b') (io_log s')"
    using escalation_leaves_no_gap [OF e] by (simp add: ex_cfg_def)
  then show ?thesis using e m by metis
qed

text \<open>C22: the caps hold: the active host bans never exceed \<^verbatim>\<open>ban.max_active_bans\<close>, the active carpet bans
  never exceed \<^verbatim>\<open>carpet.max_active_prefix_bans\<close>.\<close>

theorem ban_caps_hold:
  assumes "reachable be cfg m"
  shows "int (active_count m) \<le> max 0 (max_active_bans (c_ban cfg))
    \<and> int (active_prefix_bans m) \<le> (case c_carpet cfg of None \<Rightarrow> 0 | Some cp \<Rightarrow> max 0 (cp_max_active cp))"
  using reachable_good [OF assms] by (simp add: good_def caps_inv_def)

theorem ban_caps_hold_witness: "int (active_count ex_climbed) \<le> 2"
  using ban_caps_hold [OF ex_climbed_reachable] by (simp add: ex_cfg_def ex_ban_def)







section \<open>Single handlers\<close>

text \<open>C28: after a sweep no active host ban is past its deadline or outside the networks, and no active
  carpet ban is past its deadline, outside the networks, or over a whitelisted address.\<close>

theorem sweep_retires:
  shows "(\<forall>(a, b) \<in> set (m_bans (sweep_expired be now cfg m)).
      b_state b = BanActive \<longrightarrow> \<not> expired now b \<and> in_networks cfg (b_target b))
    \<and> (\<forall>(p, b) \<in> set (m_pbans (sweep_expired be now cfg m)).
      b_state b = BanActive \<longrightarrow> \<not> expired now b \<and> prefix_in_networks cfg (b_prefix b)
        \<and> \<not> prefix_contains_whitelisted cfg (b_prefix b))"
  using sweep_expired_fresh [of be now cfg m] by (fastforce simp: host_fresh_def pfx_fresh_def is_active_def)

theorem sweep_retires_witness:
  "map (b_state \<circ> snd) (m_bans (sweep_expired ex_backend (701 * second) ex_cfg ex_started)) = [BanWithdrawn]
   \<and> \<not> expired (131 * second) (the_ban ex_climbed)"
proof
  show "map (b_state \<circ> snd) (m_bans (sweep_expired ex_backend (701 * second) ex_cfg ex_started)) = [BanWithdrawn]"
    by code_simp
  have "(ex_victim, the_ban ex_climbed) \<in> set (m_bans (sweep_expired ex_backend (131 * second) ex_cfg ex_started))"
    using ex_climbed_ban by (simp add: ex_climbed_def)
  then show "\<not> expired (131 * second) (the_ban ex_climbed)"
    using sweep_retires [of ex_backend "131 * second" ex_cfg ex_started] ex_climbed_facts(1)
    by (auto simp: is_active_def)
qed

text \<open>An attack that goes on never creates or revives a ban: the keys of both tables stay and the
  numbers of active bans do not grow.\<close>

theorem ongoing_creates_nothing:
  "map fst (m_bans (on_attack_ongoing be now cfg ev m)) = map fst (m_bans m)
   \<and> map fst (m_pbans (on_attack_ongoing be now cfg ev m)) = map fst (m_pbans m)
   \<and> active_count (on_attack_ongoing be now cfg ev m) \<le> active_count m
   \<and> active_prefix_bans (on_attack_ongoing be now cfg ev m) \<le> active_prefix_bans m"
  by (rule ongoing_tables)

text \<open>C33: the end of an attack in one direction withdraws a host ban only when no other direction holds
  it and no operator asked for it; otherwise the ban stays active and no call is made.\<close>

theorem ended_respects_holders:
  assumes "ev_scope ev = ScopeHost" "find_active (m_bans m) (ev_target ev) = Some b"
    "on_attack_ended be now ev m = (Some b', m')"
  shows "tget (m_bans m') (ev_target ev) = Some b' \<and> b_dir_mask b' = b_dir_mask b AND NOT (dir_bit (ev_direction ev))
    \<and> (if b_dir_mask b' \<noteq> 0 \<or> b_manual b then b_state b' = BanActive \<and> m_io m' = m_io m
       else b_state b' = BanWithdrawn
         \<and> m_io m' = mark_dirty (withdraw_method be (b \<lparr> b_dir_mask := 0 \<rparr>) (b_method b) (m_io m)))"
proof -
  let ?b = "b \<lparr> b_dir_mask := b_dir_mask b AND NOT (dir_bit (ev_direction ev)) \<rparr>"
  have act: "b_state b = BanActive" using assms(2) by (simp add: find_active_Some is_active_def)
  show ?thesis
  proof (cases "b_dir_mask ?b \<noteq> 0 \<or> b_manual ?b")
    case True
    then have "b' = ?b" "m' = put_ban (ev_target ev) ?b m"
      using assms by (auto simp: on_attack_ended_def Let_def)
    then show ?thesis using True act by (simp add: put_ban_def table_laws)
  next
    case False
    then have "b' = fst (withdraw_ban be now ''attack ended'' False ?b (m_io m))"
      "m' = put_ban (ev_target ev) b' (m \<lparr> m_io := snd (withdraw_ban be now ''attack ended'' False ?b (m_io m)) \<rparr>)"
      using assms by (auto simp: on_attack_ended_def Let_def split: prod.splits)
    then show ?thesis using False by (simp add: put_ban_def table_laws withdraw_ban_def)
  qed
qed

theorem ended_respects_holders_witness:
  "\<exists>b' m'. on_attack_ended ex_backend (200 * second) ex_event ex_started = (Some b', m') \<and> b_state b' = BanWithdrawn"
proof -
  have f: "find_active (m_bans ex_started) (ev_target ex_event) = Some (the_ban ex_started)"
    using ex_started_facts(1) by (simp add: ex_started_ban find_active_def tget_def ex_event_def)
  obtain r m' where e: "on_attack_ended ex_backend (200 * second) ex_event ex_started = (r, m')"
    by (cases "on_attack_ended ex_backend (200 * second) ex_event ex_started")
  have "fst (on_attack_ended ex_backend (200 * second) ex_event ex_started) \<noteq> None" by code_simp
  then obtain b' where r: "r = Some b'" using e by auto
  have "b_dir_mask (the_ban ex_started) = 1" "b_manual (the_ban ex_started) = False" by code_simp+
  then have "b_state b' = BanWithdrawn"
    using ended_respects_holders [OF _ f e [unfolded r]] by (simp add: ex_event_def dir_bit_def)
  then show ?thesis using e r by blast
qed

text \<open>C34: a refused source block changes nothing; a block whose install failed records nothing: the
  source has no pair left, every other source keeps its own.\<close>

theorem block_source_all_or_nothing:
  assumes "block_source be now cfg v s ttl reason auto (ss, st) = (Inl e, ss', st')"
  shows "(ss' = ss \<and> st' = st) \<or> ((\<exists>x. e = ErrInstall x) \<and> pairs_of ss' (unmap s) = []
    \<and> (\<forall>q. q \<noteq> unmap s \<longrightarrow> pairs_of ss' q = pairs_of ss q))"
  using assms
proof (cases rule: block_source_cases)
  case (tried x s2)
  let ?e = "entered (unmap v) (unmap s) auto (new_pair now cfg (unmap v) (unmap s) ttl reason auto ss) ss"
  obtain y where y: "x = Some y" "e = ErrInstall y" using tried(4) by (cases x) auto
  have "ss' = drop_source (unmap s) ?e" using tried(2) y(1) by (cases rule: reinstall_cases) auto
  then show ?thesis using y by (simp add: pairs_of_entered)
qed simp

theorem block_source_all_or_nothing_witness:
  "\<exists>e ss' st'. block_source (ex_backend \<lparr> be_ok := \<lambda>c l. False \<rparr>) (110 * second) ex_cfg ex_victim ex_attacker
      (600 * second) [] False (src_empty, m_io mit_new) = (Inl e, ss', st') \<and> pairs_of ss' ex_attacker = []"
proof -
  let ?x = "block_source (ex_backend \<lparr> be_ok := \<lambda>c l. False \<rparr>) (110 * second) ex_cfg ex_victim ex_attacker
      (600 * second) [] False (src_empty, m_io mit_new)"
  have "(case fst ?x of Inl e \<Rightarrow> True | _ \<Rightarrow> False)" by code_simp
  then obtain e ss' st' where x: "?x = (Inl e, ss', st')" by (cases ?x) (auto split: sum.splits)
  have "pairs_of src_empty ex_attacker = []" by (simp add: pairs_of_def src_empty_def)
  then have "pairs_of ss' ex_attacker = []"
    using block_source_all_or_nothing [OF x] by (auto simp: ex_attacker_def)
  then show ?thesis using x by blast
qed

text \<open>After the sweep every remaining pair is in force: unexpired, its victim not whitelisted, its
  source neither allowlisted nor inside the networks, with a data plane there to hold it.\<close>

theorem source_sweep_leaves_valid_pairs:
  assumes "sweep_source_blocks be now cfg (ss, st) = (ss', st')" "tget (pairs_of ss' s) v = Some sb"
  shows "\<not> sb_expires sb < now \<and> \<not> is_whitelisted cfg v \<and> \<not> dataplane_allowlist_contains cfg s
    \<and> \<not> in_networks cfg s \<and> be_dp be \<and> dataplane_on cfg"
proof -
  have "(v, sb) \<in> set (pairs_of ss' s)" by (rule tget_in_set [OF assms(2)])
  then have "\<not> retire_pair be now cfg s v sb"
    using sweep_leaves_clean [OF assms(1), of s] by (auto simp: clean_def list_all_iff)
  then show ?thesis by (simp add: retire_pair_def)
qed

theorem source_sweep_leaves_valid_pairs_witness:
  "\<exists>ss' st' sb. sweep_source_blocks ex_backend (200 * second) ex_cfg (m_src ex_blocked, m_io ex_blocked) = (ss', st')
    \<and> tget (pairs_of ss' ex_attacker) ex_victim = Some sb \<and> \<not> sb_expires sb < 200 * second"
proof -
  obtain ss' st' where s: "sweep_source_blocks ex_backend (200 * second) ex_cfg (m_src ex_blocked, m_io ex_blocked) = (ss', st')"
    by (cases "sweep_source_blocks ex_backend (200 * second) ex_cfg (m_src ex_blocked, m_io ex_blocked)")
  have "tget (pairs_of (fst (sweep_source_blocks ex_backend (200 * second) ex_cfg (m_src ex_blocked, m_io ex_blocked)))
      ex_attacker) ex_victim \<noteq> None" by code_simp
  then obtain sb where "tget (pairs_of ss' ex_attacker) ex_victim = Some sb" using s by auto
  then show ?thesis using source_sweep_leaves_valid_pairs [OF s] s by blast
qed

section \<open>Scrubbing nodes\<close>

text \<open>When an alive eligible node exists, a new divert ban with no previous node goes to one; with
  \<open>alive_only\<close> no node is chosen that is not alive; and a chosen node is always eligible.\<close>

theorem scrub_node_choice:
  "(\<forall>n. select_scrub_node now ns cfg g target pref alive_only = Some n \<longrightarrow> node_eligible n g target
      \<and> (alive_only \<longrightarrow> node_alive now ns (sn_name n) (stale_after cfg)))
   \<and> ((\<exists>n \<in> set (sc_nodes (c_scrubbing cfg)). node_eligible n g target \<and> node_alive now ns (sn_name n) (stale_after cfg))
      \<longrightarrow> (\<exists>n. select_scrub_node now ns cfg g target [] alive_only = Some n
             \<and> node_alive now ns (sn_name n) (stale_after cfg)))"
proof -
  let ?loop = "select_loop now ns (stale_after cfg) g target alive_only None (sc_nodes (c_scrubbing cfg))"
  have "node_eligible n g target \<and> (alive_only \<longrightarrow> node_alive now ns (sn_name n) (stale_after cfg))"
    if "select_scrub_node now ns cfg g target pref alive_only = Some n" for n
    using that select_loop_some [of now ns "stale_after cfg" g target alive_only None "sc_nodes (c_scrubbing cfg)" n]
    by (auto simp: select_scrub_node_def split: option.splits if_splits)
  moreover have "\<exists>n. ?loop = Some n \<and> node_alive now ns (sn_name n) (stale_after cfg)"
    if "\<exists>n \<in> set (sc_nodes (c_scrubbing cfg)). node_eligible n g target \<and> node_alive now ns (sn_name n) (stale_after cfg)"
    using select_loop_alive [OF that] by blast
  moreover have "select_scrub_node now ns cfg g target [] alive_only = ?loop" by (simp add: select_scrub_node_def)
  ultimately show ?thesis by metis
qed

definition ex_node :: scrub_node where
  "ex_node = \<lparr> sn_name = ''scrub1'', sn_next_hop = ''192.0.2.9'', sn_next_hop6 = [], sn_capacity = 0, sn_hostgroups = [] \<rparr>"

definition ex_divert :: config where
  "ex_divert = ex_cfg \<lparr> c_scrubbing := ex_scrubbing \<lparr> sc_nodes := [ex_node] \<rparr> \<rparr>"

theorem scrub_node_choice_witness:
  "\<exists>n. select_scrub_node (100 * second) (node_poll_started (90 * second) ''scrub1'' []) ex_divert ex_group ex_victim [] True = Some n
     \<and> node_eligible n ex_group ex_victim"
proof -
  let ?ns = "node_poll_started (90 * second) ''scrub1'' []"
  have "node_eligible ex_node ex_group ex_victim \<and> node_alive (100 * second) ?ns (sn_name ex_node) (stale_after ex_divert)"
    by code_simp
  then have "\<exists>n. select_scrub_node (100 * second) ?ns ex_divert ex_group ex_victim [] True = Some n"
    using scrub_node_choice [of "100 * second" ?ns ex_divert ex_group ex_victim "[]" True]
    by (auto simp: ex_divert_def)
  then show ?thesis using scrub_node_choice [of "100 * second" ?ns ex_divert ex_group ex_victim "[]" True] by blast
qed

text \<open>A scrubbing node is judged lost only after it is no longer alive, and a node that never polled
  gets a whole appearance window (the stale time and 30 s) before the first judgement can go against it.\<close>

theorem node_lost_is_patient:
  assumes "node_lost now name stale ns = (True, ns')" "0 < stale" "stale \<le> int64_max"
  shows "\<not> node_alive now ns name stale
    \<and> (is_zero_time (np_last (presence_of ns name)) \<longrightarrow> np_grace (presence_of ns name) < now)
    \<and> fst (node_lost now0 name stale []) = False
    \<and> np_grace (presence_of (snd (node_lost now0 name stale [])) name) = now0 + (stale + node_poll_slack)"
proof -
  have "is_zero_time (np_last (presence_of ns name)) \<longrightarrow> np_grace (presence_of ns name) < now"
    using assms(1) by (auto simp: node_lost_def Let_def split: if_splits)
  then show ?thesis
    using node_lost_not_alive [OF assms(2,1) _ assms(3)] assms(2) node_lost_opens_window [of "[]" name now0 stale]
    by (simp add: int64_min_def presence_of_def)
qed

theorem node_lost_is_patient_witness:
  "\<exists>ns'. node_lost (200 * second) ''scrub1'' (60 * second) (node_poll_ended (100 * second) ''scrub1''
      (node_poll_started (90 * second) ''scrub1'' [])) = (True, ns')
    \<and> \<not> node_alive (200 * second) (node_poll_ended (100 * second) ''scrub1''
      (node_poll_started (90 * second) ''scrub1'' [])) ''scrub1'' (60 * second)"
proof -
  let ?ns = "node_poll_ended (100 * second) ''scrub1'' (node_poll_started (90 * second) ''scrub1'' [])"
  obtain r ns' where l: "node_lost (200 * second) ''scrub1'' (60 * second) ?ns = (r, ns')"
    by (cases "node_lost (200 * second) ''scrub1'' (60 * second) ?ns")
  have "fst (node_lost (200 * second) ''scrub1'' (60 * second) ?ns)" by code_simp
  then have r: "r = True" using l by simp
  show ?thesis
    using node_lost_is_patient [OF l [unfolded r]] l r by (simp add: second_def int64_max_def)
qed

section \<open>Ladders, rules and configuration\<close>

text \<open>The climb never skips a delay: the rung a ban is due for is its own or one above it whose delay,
  and the delay of every rung in between, has passed since the ban started; and the next rung up is not yet due.\<close>

theorem rungs_wait_their_delay:
  assumes "b_step b < length (b_escalation b)"
  shows "b_step b \<le> due_target b now \<and> due_target b now < length (b_escalation b)
    \<and> (\<forall>i. b_step b < i \<and> i \<le> due_target b now \<longrightarrow>
         dur_secs (after_seconds (b_escalation b ! i)) \<le> time_sub now (b_started b))
    \<and> (Suc (due_target b now) < length (b_escalation b) \<longrightarrow>
         time_sub now (b_started b) < dur_secs (after_seconds (b_escalation b ! Suc (due_target b now))))"
  (is "_ \<and> _ \<and> ?delays \<and> ?next")
proof -
  let ?ss = "drop (Suc (b_step b)) (b_escalation b)" and ?el = "time_sub now (b_started b)"
  have d: "due_target b now = due_step ?el (b_step b) (Suc (b_step b)) ?ss" by (simp add: due_target_def)
  have bounds: "b_step b \<le> due_target b now" "due_target b now < length (b_escalation b)"
    using due_target_bounds [of b now] assms by simp_all
  have nth: "?ss ! j = b_escalation b ! (Suc (b_step b) + j)" for j using assms by simp
  have ?delays
  proof (intro allI impI)
    fix i assume i: "b_step b < i \<and> i \<le> due_target b now"
    then have "due_step ?el (b_step b) (Suc (b_step b)) ?ss \<noteq> b_step b" using d by simp
    from due_step_elapsed [OF this] obtain k where k: "due_target b now = Suc (b_step b) + k"
      "\<forall>j \<le> k. dur_secs (after_seconds (?ss ! j)) \<le> ?el" using d by auto
    then have "i - Suc (b_step b) \<le> k" using i by linarith
    then have "dur_secs (after_seconds (?ss ! (i - Suc (b_step b)))) \<le> ?el" using k(2) by blast
    then show "dur_secs (after_seconds (b_escalation b ! i)) \<le> ?el" using i by (simp add: nth del: nth_drop)
  qed
  moreover have ?next
  proof
    assume n: "Suc (due_target b now) < length (b_escalation b)"
    have "?el < dur_secs (after_seconds (?ss ! (due_target b now - b_step b)))"
      by (rule due_step_next [of _ _ _ "b_step b" "Suc (b_step b)"]) (use n bounds d in auto)
    then show "?el < dur_secs (after_seconds (b_escalation b ! Suc (due_target b now)))"
      using bounds by (simp add: nth del: nth_drop)
  qed
  ultimately show ?thesis using bounds by blast
qed

theorem rungs_wait_their_delay_witness:
  "due_target (the_ban ex_started) (131 * second) = 1 \<and> 31 * second < 60 * second"
proof -
  have f: "b_step (the_ban ex_started) = 0" "b_escalation (the_ban ex_started) = ex_ladder"
    "b_started (the_ban ex_started) = 100 * second" "due_target (the_ban ex_started) (131 * second) = 1"
    by code_simp+
  have "b_step (the_ban ex_started) < length (b_escalation (the_ban ex_started))" using f by (simp add: ex_ladder_def)
  from rungs_wait_their_delay [OF this, of "131 * second"] f show ?thesis
    by (simp add: ex_ladder_def numeral_2_eq_2 second_def)
qed




text \<open>C32: one rule, two backends: the struct the compiler hands to the kernel matches exactly the packets
  the same rule selects at a FlowSpec peer.\<close>

theorem kernel_and_flowspec_agree:
  assumes "dataplane_rule r = Inr (s, b)" "encode (allocate i prof e s) = Inr k"
    "pfx_wf (r_src r)" "pfx_wf (r_dst r)" "pkt_wf p"
  shows "rule_match k (kernel_packet p) \<longleftrightarrow> fs_selects r p"
  by (rule rule_backends_agree [OF assms])

theorem kernel_and_flowspec_agree_witness:
  "\<exists>s b k. dataplane_rule (anchor_rule (host_prefix ex_victim) prefix_none FSDiscard (Fin 0)) = Inr (s, b)
    \<and> encode (allocate 1 0 0 s) = Inr k \<and> rule_match k (kernel_packet ex_packet)"
proof -
  let ?r = "anchor_rule (host_prefix ex_victim) prefix_none FSDiscard (Fin 0)"
  have "\<not> (case dataplane_rule ?r of Inl e \<Rightarrow> True | Inr x \<Rightarrow> (case encode (allocate 1 0 0 (fst x)) of Inl e \<Rightarrow> True | Inr k \<Rightarrow> False))"
    by code_simp
  then obtain s b k where d: "dataplane_rule ?r = Inr (s, b)" and e: "encode (allocate 1 0 0 s) = Inr k"
    by (auto split: sum.splits)
  have "pkt_wf ex_packet" "pfx_wf (r_src ?r)" "pfx_wf (r_dst ?r)" by code_simp+
  then show ?thesis using kernel_and_flowspec_agree [OF d e] ex_packet_selected d e by blast
qed

text \<open>A configuration that passes the validation of hostgroups has a group for every address, and every
  group is usable: its ladder starts at zero and only rises, it has an action when its ladder needs rules, a
  total-calculation group never bans, a kernel rung needs the data plane, a divert rung has a target.\<close>

theorem validated_groups_usable:
  assumes "validate_hostgroups exp2 c = Inr c'"
  shows "group_for c' a \<in> set (c_groups c') \<and> group_ok c' (group_for c' a)"
  using group_for_ok [OF validate_hostgroups_ok [OF assms]] .

theorem validated_groups_usable_witness:
  "\<exists>c'. validate_hostgroups (\<lambda>x. x) ex_raw = Inr c' \<and> group_ok c' (group_for c' ex_victim)"
  using validated_groups_usable ex_raw_valid by blast

text \<open>C40: the group of an address is the longest prefix match over the hostgroup networks, and the global
  group when none holds it.\<close>

theorem group_lookup_is_longest_match:
  assumes "validate_hostgroups exp2 c = Inr c'"
  shows "if \<exists>r \<in> set (group_routes c'). contains (rt_prefix r) a
    then \<exists>r \<in> set (group_routes c'). group_for c' a = c_groups c' ! rt_group r \<and> contains (rt_prefix r) a
           \<and> (\<forall>q \<in> set (group_routes c'). contains (rt_prefix q) a \<longrightarrow> pfx_bits (rt_prefix q) \<le> pfx_bits (rt_prefix r))
    else group_for c' a = c_groups c' ! 0"
proof -
  have "sorted (map (\<lambda>r. - pfx_bits (rt_prefix r)) (group_routes c'))"
    using validate_hostgroups_ok [OF assms] by (simp add: config_ok_def)
  note longest = first_route_longest [OF this, of a]
  show ?thesis
  proof (cases "\<exists>r \<in> set (group_routes c'). contains (rt_prefix r) a")
    case True
    then show ?thesis using longest by (auto simp: group_for_def group_index_for_def)
  next
    case False
    then have "first_route (group_routes c') a = 0" by (intro first_route_none) blast
    then show ?thesis using False by (simp add: group_for_def group_index_for_def)
  qed
qed

theorem group_lookup_is_longest_match_witness:
  "\<exists>c'. validate_hostgroups (\<lambda>x. x) ex_raw = Inr c' \<and> group_for c' (V4 0x0A800001) = c_groups c' ! 1
    \<and> group_for c' ex_victim = c_groups c' ! 0"
proof -
  obtain c' where c: "validate_hostgroups (\<lambda>x. x) ex_raw = Inr c'"
    "group_routes c' = [\<lparr> rt_prefix = Pfx (V4 0x0A800000) 9, rt_group = 1 \<rparr>]"
    using ex_raw_valid by blast
  have "contains (Pfx (V4 0x0A800000) 9) (V4 0x0A800001)" "\<not> contains (Pfx (V4 0x0A800000) 9) ex_victim"
    by code_simp+
  then show ?thesis
    using group_lookup_is_longest_match [OF c(1), of "V4 0x0A800001"] group_lookup_is_longest_match [OF c(1), of ex_victim] c
    by simp
qed

text \<open>Every 32-bit community survives rendering in the \<^verbatim>\<open>asn:value\<close> form and parsing.\<close>

theorem community_round_trip:
  "parse_community (dec (unat h) @ '':'' @ dec (unat l)) = Inr (or (push_bit 16 (ucast (h :: 16 word))) (ucast (l :: 16 word)))"
proof -
  have c: "dig_val (CHR '':'') = None" by (simp add: dig_val_def)
  have "unat h < 2 ^ LENGTH(16)" "unat l < 2 ^ LENGTH(16)" by (rule unsigned_less)+
  then have "parse_uint 16 (dec (unat h)) = Some (unat h)" "parse_uint 16 (dec (unat l)) = Some (unat l)"
    by (auto intro: parse_uint_dec)
  then show ?thesis
    using takeWhile_dec [OF c, of "unat h" "dec (unat l)"] by (simp add: parse_community_def Let_def unsigned_of_nat)
qed

end
